(* ===== verification/Prelude.thy ===== *)
theory Prelude
  imports Main "HOL-Library.Word" "HOL-Library.Char_ord"
begin

text \<open>
  Shared vocabulary of the development: the exceptions of the Python code as values, results as
  sums, the small result monad the operations are written in, and generic facts about lists and
  digits that several components use.
\<close>

section \<open>Exceptions and results\<close>

text \<open>
  One constructor per exception class the modelled code raises. Messages are not modelled.
  \<open>UnicodeError\<close>, \<open>DecodeError\<close> (\<open>Iso8583DecodeError\<close>), \<open>MacSpecError\<close> and
  \<open>ExpressionError\<close> are
  subclasses of \<open>ValueError\<close> in the code, so an \<open>except ValueError\<close> clause catches them.
\<close>

datatype py_error =
    ValueError | UnicodeError | DecodeError | MacSpecError
  | KeyError | IndexError | OverflowError | TypeError
  | IncompleteReadError | AttributeError | ConnectionError | RuntimeError
  | AssertionError | ExpressionError

fun is_value_error :: "py_error \<Rightarrow> bool" where
  "is_value_error ValueError = True"
| "is_value_error UnicodeError = True"
| "is_value_error DecodeError = True"
| "is_value_error MacSpecError = True"
| "is_value_error KeyError = False"
| "is_value_error IndexError = False"
| "is_value_error OverflowError = False"
| "is_value_error TypeError = False"
| "is_value_error IncompleteReadError = False"
| "is_value_error AttributeError = False"
| "is_value_error ConnectionError = False"
| "is_value_error RuntimeError = False"
| "is_value_error AssertionError = False"
| "is_value_error ExpressionError = True"

type_synonym 'a result = "py_error + 'a"

named_theorems result_iff \<open>when a composed computation returns, and what\<close>

fun rbind :: "'e + 'a \<Rightarrow> ('a \<Rightarrow> 'e + 'b) \<Rightarrow> 'e + 'b" where
  "rbind (Inl e) f = Inl e"
| "rbind (Inr x) f = f x"

lemma rbind_Inr_iff [result_iff]: "rbind m f = Inr y \<longleftrightarrow> (\<exists>x. m = Inr x \<and> f x = Inr y)"
  by (cases m) auto

lemma rbind_Inl_iff [result_iff]:
  "rbind m f = Inl e \<longleftrightarrow> m = Inl e \<or> (\<exists>x. m = Inr x \<and> f x = Inl e)"
  by (cases m) auto

lemma rbind_Inr_right [simp]: "rbind m Inr = m"
  by (cases m) auto

lemma rbind_assoc: "rbind (rbind m f) g = rbind m (\<lambda>x. rbind (f x) g)"
  by (cases m) auto

lemma rbind_cong [fundef_cong]:
  "m = m' \<Longrightarrow> (\<And>x. m' = Inr x \<Longrightarrow> f x = f' x) \<Longrightarrow> rbind m f = rbind m' f'"
  by (cases m') auto

definition of_option :: "'e \<Rightarrow> 'a option \<Rightarrow> 'e + 'a" where
  "of_option e x = (case x of None \<Rightarrow> Inl e | Some y \<Rightarrow> Inr y)"

lemma of_option_simps [simp]: "of_option e None = Inl e" "of_option e (Some y) = Inr y"
  by (simp_all add: of_option_def)

lemma of_option_Inr_iff [result_iff]: "of_option e x = Inr y \<longleftrightarrow> x = Some y"
  by (cases x) auto

lemma of_option_Inl_iff [result_iff]: "of_option e x = Inl e' \<longleftrightarrow> x = None \<and> e' = e"
  by (cases x) auto

text \<open>\<open>or\<close> of Python on two values, the first falsy when \<open>None\<close>.\<close>

definition or_default :: "'a \<Rightarrow> 'a option \<Rightarrow> 'a" where
  "or_default d x = (case x of None \<Rightarrow> d | Some y \<Rightarrow> y)"

lemma or_default_simps [simp]: "or_default d None = d" "or_default d (Some y) = y"
  by (simp_all add: or_default_def)

section \<open>Lists\<close>

text \<open>Python slices \<open>xs[:k]\<close> and \<open>xs[-k:]\<close> for any integer \<open>k\<close>.\<close>

definition slice_to :: "int \<Rightarrow> 'a list \<Rightarrow> 'a list" where
  "slice_to k xs = (if 0 \<le> k then take (nat k) xs else take (nat (int (length xs) + k)) xs)"

definition last_n :: "nat \<Rightarrow> 'a list \<Rightarrow> 'a list" where
  "last_n k xs = (if k = 0 then xs else drop (length xs - k) xs)"

lemma slice_to_nat [simp]: "slice_to (int k) xs = take k xs"
  by (simp add: slice_to_def)

lemma slice_to_length [simp]: "slice_to (int (length xs)) xs = xs"
  by simp

lemma slice_to_minus_one: "slice_to (- 1) xs = butlast xs"
  by (cases xs) (auto simp: slice_to_def butlast_conv_take nat_add_distrib)

lemma slice_to_neg_append: "0 < length ys \<Longrightarrow> slice_to (- int (length ys)) (xs @ ys) = xs"
  by (simp add: slice_to_def)

lemma last_n_append: "length ys = k \<Longrightarrow> 0 < k \<Longrightarrow> last_n k (xs @ ys) = ys"
  by (simp add: last_n_def)

text \<open>Set-like iteration: a list of keys sorted, as \<open>sorted(...)\<close> over a dict or a set.\<close>

lemma sort_distinct_eqI:
  "sorted xs \<Longrightarrow> distinct xs \<Longrightarrow> distinct ys \<Longrightarrow> set xs = set ys \<Longrightarrow> sort ys = (xs :: int list)"
  by (metis finite_set sorted_distinct_set_unique sorted_sort distinct_sort set_sort)

lemma map_of_map_Pair: "d \<in> set ds \<Longrightarrow> map_of (map (\<lambda>d. (d, f d)) ds) d = Some (f d)"
  by (induction ds) auto

text \<open>The keys of a dictionary built by successive assignments: first occurrences, in order.\<close>

fun firsts :: "'a list \<Rightarrow> 'a list" where
  "firsts [] = []"
| "firsts (x # xs) = x # filter (\<lambda>y. y \<noteq> x) (firsts xs)"

lemma set_firsts [simp]: "set (firsts xs) = set xs"
  by (induction xs) auto

lemma distinct_firsts [simp]: "distinct (firsts xs)"
  by (induction xs) auto

end
