(* ===== verification/Py_Text.thy ===== *)
theory Py_Text
  imports Prelude
begin

text \<open>
  The Python text and byte operations the modelled code uses. A \<open>bytes\<close> object is a list of
  8-bit words. A \<open>str\<close> that may travel on the wire is the list of its Unicode code points, so
  that the replacement character U+FFFD, which \<open>decode(errors="replace")\<close> produces, is a value
  of the type; configuration text (names of profiles, axes, field classes) is a HOL string.
  Character classes and case mapping are exact for the code points below 256; above, a code point
  is in no class and has no case, which is right for U+FFFD, the only one the decoders produce.
\<close>

type_synonym byte = "8 word"
type_synonym ustr = "nat list"

definition u :: "string \<Rightarrow> ustr" where
  "u s = map of_char s"

named_theorems wire_inverse \<open>decoding what was encoded gives it back\<close>
named_theorems wire_length \<open>lengths of encoded data\<close>

section \<open>Bytes and numbers\<close>

definition byte_of :: "nat \<Rightarrow> byte" where
  "byte_of n = word_of_nat n"

lemma unat_byte_less [simp]: "unat (b :: byte) < 256"
  by (rule order_less_le_trans [OF unsigned_less]) simp

lemma byte_of_unat [simp]: "byte_of (unat b) = b"
  by (simp add: byte_of_def)

lemma unat_byte_of [simp]: "n < 256 \<Longrightarrow> unat (byte_of n) = n"
  by (simp add: byte_of_def unat_of_nat)

text \<open>\<open>int.to_bytes(k, "big")\<close> for a number that fits, and \<open>int.from_bytes(..., "big")\<close>.\<close>

fun be_bytes :: "nat \<Rightarrow> nat \<Rightarrow> byte list" where
  "be_bytes 0 n = []"
| "be_bytes (Suc k) n = be_bytes k (n div 256) @ [byte_of (n mod 256)]"

definition from_be :: "byte list \<Rightarrow> nat" where
  "from_be bs = foldl (\<lambda>a b. 256 * a + unat b) 0 bs"

lemma length_be_bytes [simp, wire_length]: "length (be_bytes k n) = k"
  by (induction k arbitrary: n) auto

lemma from_be_snoc [simp]: "from_be (bs @ [b]) = 256 * from_be bs + unat b"
  by (simp add: from_be_def)

lemma from_be_Nil [simp]: "from_be [] = 0"
  by (simp add: from_be_def)

lemma from_be_be_bytes [wire_inverse]: "n < 256 ^ k \<Longrightarrow> from_be (be_bytes k n) = n"
proof (induction k arbitrary: n)
  case 0
  then show ?case by simp
next
  case (Suc k)
  have "n div 256 < 256 ^ k" using Suc.prems by (simp add: less_mult_imp_div_less mult.commute)
  then have "from_be (be_bytes k (n div 256)) = n div 256" by (rule Suc.IH)
  then show ?case by simp
qed

lemma from_be_less: "from_be bs < 256 ^ length bs"
proof (induction bs rule: rev_induct)
  case Nil
  then show ?case by simp
next
  case (snoc b bs)
  have "256 * from_be bs + unat b < 256 * from_be bs + 256" by simp
  also have "\<dots> \<le> 256 * 256 ^ length bs" using snoc.IH by simp
  finally show ?case by simp
qed

lemma be_bytes_from_be: "be_bytes (length bs) (from_be bs) = bs"
  by (induction bs rule: rev_induct) auto

section \<open>Hexadecimal text\<close>

definition hexval :: "nat \<Rightarrow> nat option" where
  "hexval c =
     (if 48 \<le> c \<and> c \<le> 57 then Some (c - 48)
      else if 65 \<le> c \<and> c \<le> 70 then Some (c - 55)
      else if 97 \<le> c \<and> c \<le> 102 then Some (c - 87)
      else None)"

definition hexdigit :: "nat \<Rightarrow> nat" where
  "hexdigit n = (if n < 10 then 48 + n else 55 + n)"

definition is_upper_hex :: "nat \<Rightarrow> bool" where
  "is_upper_hex c \<longleftrightarrow> (48 \<le> c \<and> c \<le> 57) \<or> (65 \<le> c \<and> c \<le> 70)"

text \<open>\<open>bytes.hex().upper()\<close>.\<close>

definition hex_byte :: "byte \<Rightarrow> ustr" where
  "hex_byte b = [hexdigit (unat b div 16), hexdigit (unat b mod 16)]"

definition hex_upper :: "byte list \<Rightarrow> ustr" where
  "hex_upper bs = concat (map hex_byte bs)"

text \<open>\<open>bytes.fromhex\<close>: ASCII white space is skipped between the bytes, not inside one.\<close>

definition is_space :: "nat \<Rightarrow> bool" where
  "is_space c \<longleftrightarrow> (9 \<le> c \<and> c \<le> 13) \<or> c = 32"

fun fromhex :: "ustr \<Rightarrow> byte list option" where
  "fromhex [] = Some []"
| "fromhex [c] = (if is_space c then Some [] else None)"
| "fromhex (c # d # cs) =
     (if is_space c then fromhex (d # cs)
      else case (hexval c, hexval d) of
             (Some h, Some l) \<Rightarrow> map_option (\<lambda>bs. byte_of (16 * h + l) # bs) (fromhex cs)
           | _ \<Rightarrow> None)"

lemma hexval_hexdigit [simp]: "n < 16 \<Longrightarrow> hexval (hexdigit n) = Some n"
  by (auto simp: hexval_def hexdigit_def)

lemma hexdigit_not_space [simp]: "\<not> is_space (hexdigit n)"
  by (auto simp: is_space_def hexdigit_def)

lemma is_upper_hex_hexdigit [simp]: "n < 16 \<Longrightarrow> is_upper_hex (hexdigit n)"
  by (auto simp: is_upper_hex_def hexdigit_def)

lemma is_upper_hexE:
  assumes "is_upper_hex c"
  obtains n where "n < 16" "c = hexdigit n"
proof -
  have "(if c < 58 then c - 48 else c - 55) < 16"
    and "c = hexdigit (if c < 58 then c - 48 else c - 55)"
    using assms by (auto simp: is_upper_hex_def hexdigit_def)
  then show thesis by (rule that)
qed

lemma hexval_less: "hexval c = Some n \<Longrightarrow> n < 16"
  by (auto simp: hexval_def split: if_splits)

lemma hexval_not_space: "hexval c = Some n \<Longrightarrow> \<not> is_space c"
  by (auto simp: hexval_def is_space_def split: if_splits)

lemma hexdigit_inject: "m < 16 \<Longrightarrow> n < 16 \<Longrightarrow> hexdigit m = hexdigit n \<longleftrightarrow> m = n"
  by (auto simp: hexdigit_def split: if_splits)

lemma hex_upper_Nil [simp]: "hex_upper [] = []"
  by (simp add: hex_upper_def)

lemma hex_upper_Cons [simp]: "hex_upper (b # bs) = hex_byte b @ hex_upper bs"
  by (simp add: hex_upper_def)

lemma hex_upper_append [simp]: "hex_upper (xs @ ys) = hex_upper xs @ hex_upper ys"
  by (simp add: hex_upper_def)

lemma length_hex_byte [simp]: "length (hex_byte b) = 2"
  by (simp add: hex_byte_def)

lemma length_hex_upper [simp, wire_length]: "length (hex_upper bs) = 2 * length bs"
  by (induction bs) auto

lemma hex_upper_is_upper: "c \<in> set (hex_upper bs) \<Longrightarrow> is_upper_hex c"
  by (induction bs) (auto simp: hex_byte_def less_mult_imp_div_less)

lemma fromhex_hexdigits:
  "m < 16 \<Longrightarrow> n < 16 \<Longrightarrow>
   fromhex (hexdigit m # hexdigit n # cs) = map_option ((#) (byte_of (16 * m + n))) (fromhex cs)"
  by simp

lemma fromhex_hex_byte:
  "fromhex (hex_byte b @ cs) = map_option ((#) b) (fromhex cs)"
proof -
  have "16 * (unat b div 16) + unat b mod 16 = unat b" by simp
  then show ?thesis by (simp add: hex_byte_def less_mult_imp_div_less)
qed

lemma fromhex_hex_upper [wire_inverse]: "fromhex (hex_upper bs) = Some bs"
  by (induction bs) (simp_all add: fromhex_hex_byte)

lemma hex_byte_nibbles:
  "m < 16 \<Longrightarrow> n < 16 \<Longrightarrow> hex_byte (byte_of (16 * m + n)) = [hexdigit m, hexdigit n]"
  by (simp add: hex_byte_def )

text \<open>An upper-case hexadecimal text of even length is exactly what its bytes print as.\<close>

lemma fromhex_upper_hex:
  assumes "even (length s)" and "\<forall>c \<in> set s. is_upper_hex c"
  shows "\<exists>bs. fromhex s = Some bs \<and> hex_upper bs = s \<and> 2 * length bs = length s"
  using assms
proof (induction s rule: fromhex.induct)
  case 1
  then show ?case by simp
next
  case (2 c)
  then show ?case by simp
next
  case (3 c d cs)
  obtain m n where mn: "m < 16" "n < 16" "c = hexdigit m" "d = hexdigit n"
    using "3.prems" by (auto elim!: is_upper_hexE)
  have "\<exists>bs. fromhex cs = Some bs \<and> hex_upper bs = cs \<and> 2 * length bs = length cs"
    using "3.prems" mn by (intro "3.IH"(2)) auto
  then show ?case using mn by (auto simp: hex_byte_nibbles)
qed

section \<open>Decimal text\<close>

text \<open>\<open>str(n)\<close> of a number that is not negative, \<open>str.zfill\<close> on it, and \<open>int\<close> on digits.\<close>

fun dec :: "nat \<Rightarrow> ustr" where
  "dec n = (if n < 10 then [48 + n] else dec (n div 10) @ [48 + n mod 10])"

declare dec.simps [simp del]

definition zfill :: "nat \<Rightarrow> ustr \<Rightarrow> ustr" where
  "zfill w s = replicate (w - length s) 48 @ s"

definition undec :: "ustr \<Rightarrow> nat" where
  "undec s = foldl (\<lambda>a c. 10 * a + (c - 48)) 0 s"

definition is_dec :: "nat \<Rightarrow> bool" where
  "is_dec c \<longleftrightarrow> 48 \<le> c \<and> c \<le> 57"

lemma undec_append: "undec (xs @ ys) = foldl (\<lambda>a c. 10 * a + (c - 48)) (undec xs) ys"
  by (simp add: undec_def)

lemma undec_zeros [simp]: "undec (replicate k 48 @ s) = undec s"
  by (induction k) (simp_all add: undec_def)

lemma undec_dec [wire_inverse]: "undec (dec n) = n"
proof (induction n rule: dec.induct)
  case (1 n)
  then show ?case
    by (subst dec.simps) (simp add: undec_append, simp add: undec_def)
qed

lemma undec_zfill_dec [wire_inverse]: "undec (zfill w (dec n)) = n"
  by (simp add: zfill_def undec_dec)

lemma dec_is_dec: "c \<in> set (dec n) \<Longrightarrow> is_dec c"
proof (induction n rule: dec.induct)
  case (1 n)
  then show ?case by (subst (asm) dec.simps) (auto simp: is_dec_def split: if_splits)
qed

lemma zfill_is_dec: "c \<in> set (zfill w (dec n)) \<Longrightarrow> is_dec c"
  by (auto simp: zfill_def is_dec_def dest: dec_is_dec)

lemma dec_nonempty [simp]: "dec n \<noteq> []"
  by (subst dec.simps) simp

lemma length_dec_le: "length (dec n) \<le> w \<longleftrightarrow> n < 10 ^ w \<and> 0 < w"
proof (induction n arbitrary: w rule: dec.induct)
  case (1 n)
  show ?case
  proof (cases "n < 10")
    case True
    have "0 < w \<Longrightarrow> n < 10 ^ w"
      using True self_le_power [of "10::nat" w] by (simp add: less_le_trans)
    then show ?thesis using True by (subst dec.simps) auto
  next
    case False
    have "length (dec n) \<le> w \<longleftrightarrow> (\<exists>v. w = Suc v \<and> length (dec (n div 10)) \<le> v)"
      using False by (subst dec.simps) (cases w, auto)
    also have "\<dots> \<longleftrightarrow> (\<exists>v. w = Suc v \<and> n div 10 < 10 ^ v \<and> 0 < v)"
      using "1.IH" False by simp
    also have "\<dots> \<longleftrightarrow> n < 10 ^ w \<and> 0 < w"
    proof (cases w)
      case (Suc v)
      have "n div 10 < 10 ^ v \<longleftrightarrow> n < 10 ^ w" using Suc by (simp add: div_less_iff_less_mult mult.commute)
      moreover have "n < 10 ^ w \<Longrightarrow> 0 < v" using False Suc by (cases v) auto
      ultimately show ?thesis using Suc by auto
    qed simp
    finally show ?thesis .
  qed
qed

lemma length_zfill_dec [wire_length]:
  "0 < w \<Longrightarrow> length (zfill w (dec n)) = w \<longleftrightarrow> n < 10 ^ w"
proof -
  assume w: "0 < w"
  have "length (zfill w (dec n)) = w \<longleftrightarrow> length (dec n) \<le> w" by (auto simp: zfill_def)
  then show ?thesis using w by (simp add: length_dec_le)
qed

lemma is_dec_upper_hex: "is_dec c \<Longrightarrow> is_upper_hex c"
  by (simp add: is_dec_def is_upper_hex_def)

section \<open>Text encodings\<close>

text \<open>ASCII, with \<open>errors="replace"\<close> on decoding.\<close>

definition ascii_encode :: "ustr \<Rightarrow> byte list result" where
  "ascii_encode s = (if \<forall>c \<in> set s. c < 128 then Inr (map byte_of s) else Inl UnicodeError)"

definition ascii_decode :: "byte list \<Rightarrow> ustr" where
  "ascii_decode bs = map (\<lambda>b. if unat b < 128 then unat b else 0xFFFD) bs"

text \<open>Code page 037 (EBCDIC, US and Canada) as Python's \<open>cp037\<close> codec tabulates it.\<close>

definition cp037_table :: "nat list" where
  "cp037_table =
  [0, 1, 2, 3, 156, 9, 134, 127, 151, 141, 142, 11, 12, 13, 14, 15,
   16, 17, 18, 19, 157, 133, 8, 135, 24, 25, 146, 143, 28, 29, 30, 31,
   128, 129, 130, 131, 132, 10, 23, 27, 136, 137, 138, 139, 140, 5, 6, 7,
   144, 145, 22, 147, 148, 149, 150, 4, 152, 153, 154, 155, 20, 21, 158, 26,
   32, 160, 226, 228, 224, 225, 227, 229, 231, 241, 162, 46, 60, 40, 43, 124,
   38, 233, 234, 235, 232, 237, 238, 239, 236, 223, 33, 36, 42, 41, 59, 172,
   45, 47, 194, 196, 192, 193, 195, 197, 199, 209, 166, 44, 37, 95, 62, 63,
   248, 201, 202, 203, 200, 205, 206, 207, 204, 96, 58, 35, 64, 39, 61, 34,
   216, 97, 98, 99, 100, 101, 102, 103, 104, 105, 171, 187, 240, 253, 254, 177,
   176, 106, 107, 108, 109, 110, 111, 112, 113, 114, 170, 186, 230, 184, 198, 164,
   181, 126, 115, 116, 117, 118, 119, 120, 121, 122, 161, 191, 208, 221, 222, 174,
   94, 163, 165, 183, 169, 167, 182, 188, 189, 190, 91, 93, 175, 168, 180, 215,
   123, 65, 66, 67, 68, 69, 70, 71, 72, 73, 173, 244, 246, 242, 243, 245,
   125, 74, 75, 76, 77, 78, 79, 80, 81, 82, 185, 251, 252, 249, 250, 255,
   92, 247, 83, 84, 85, 86, 87, 88, 89, 90, 178, 212, 214, 210, 211, 213,
   48, 49, 50, 51, 52, 53, 54, 55, 56, 57, 179, 219, 220, 217, 218, 159]"

fun index_of :: "'a \<Rightarrow> 'a list \<Rightarrow> nat option" where
  "index_of x [] = None"
| "index_of x (y # ys) = (if x = y then Some 0 else map_option Suc (index_of x ys))"

definition cp037_char :: "nat \<Rightarrow> byte option" where
  "cp037_char c = map_option byte_of (index_of c cp037_table)"

fun cp037_encode :: "ustr \<Rightarrow> byte list result" where
  "cp037_encode [] = Inr []"
| "cp037_encode (c # cs) =
     (case cp037_char c of
        None \<Rightarrow> Inl UnicodeError
      | Some b \<Rightarrow> rbind (cp037_encode cs) (\<lambda>bs. Inr (b # bs)))"

definition cp037_decode :: "byte list \<Rightarrow> ustr" where
  "cp037_decode bs = map (\<lambda>b. cp037_table ! unat b) bs"

lemma length_cp037_table [simp]: "length cp037_table = 256"
  by (simp add: cp037_table_def)

lemma index_of_Some: "index_of x xs = Some i \<Longrightarrow> i < length xs \<and> xs ! i = x"
  by (induction xs arbitrary: i) (auto split: if_splits)

lemma index_of_None: "index_of x xs = None \<longleftrightarrow> x \<notin> set xs"
  by (induction xs) auto

lemma cp037_char_inverse: "cp037_char c = Some b \<Longrightarrow> cp037_table ! unat b = c"
  by (auto simp: cp037_char_def dest!: index_of_Some)

lemma cp037_inverse [wire_inverse]: "cp037_encode s = Inr bs \<Longrightarrow> cp037_decode bs = s"
  by (induction s arbitrary: bs)
    (auto simp: cp037_decode_def result_iff cp037_char_inverse split: option.splits)

lemma cp037_length [wire_length]: "cp037_encode s = Inr bs \<Longrightarrow> length bs = length s"
  by (induction s arbitrary: bs) (auto simp: result_iff split: option.splits)

text \<open>The digits and upper-case hexadecimal letters have a code.\<close>

lemma cp037_table_tail: "take 6 (drop 193 cp037_table) @ take 10 (drop 240 cp037_table) = map hexdigit ([10..<16] @ [0..<10])"
  by (simp add: cp037_table_def hexdigit_def upt_rec)

lemma cp037_char_upper_hex: "is_upper_hex c \<Longrightarrow> \<exists>b. cp037_char c = Some b"
proof -
  assume "is_upper_hex c"
  then obtain n where n: "n < 16" "c = hexdigit n" by (rule is_upper_hexE)
  have "n \<in> set ([10..<16] @ [0..<10])" unfolding set_append set_upt using n(1) by auto
  then have "c \<in> set (map hexdigit ([10..<16] @ [0..<10]))"
    unfolding n(2) set_map by (rule imageI)
  then have "c \<in> set cp037_table"
    unfolding cp037_table_tail [symmetric] by (auto dest!: in_set_takeD in_set_dropD)
  then show ?thesis
    by (cases "index_of c cp037_table") (auto simp: cp037_char_def index_of_None)
qed

lemma cp037_encode_upper_hex: "\<forall>c \<in> set s. is_upper_hex c \<Longrightarrow> \<exists>bs. cp037_encode s = Inr bs"
  by (induction s) (force dest: cp037_char_upper_hex)+

lemma ascii_encode_upper_hex: "\<forall>c \<in> set s. is_upper_hex c \<Longrightarrow> \<exists>bs. ascii_encode s = Inr bs"
  by (force simp: ascii_encode_def is_upper_hex_def)

lemma ascii_inverse [wire_inverse]: "ascii_encode s = Inr bs \<Longrightarrow> ascii_decode bs = s"
proof -
  assume enc: "ascii_encode s = Inr bs"
  then have "\<forall>c \<in> set s. unat (byte_of c) = c"
    by (auto simp: ascii_encode_def split: if_splits)
  then show ?thesis using enc
    by (auto simp: ascii_encode_def ascii_decode_def intro!: map_idI split: if_splits)
qed

lemma ascii_length [wire_length]: "ascii_encode s = Inr bs \<Longrightarrow> length bs = length s"
  by (auto simp: ascii_encode_def split: if_splits)

section \<open>Character classes and case\<close>

definition py_isdigit_char :: "nat \<Rightarrow> bool" where
  "py_isdigit_char c \<longleftrightarrow> is_dec c \<or> c = 178 \<or> c = 179 \<or> c = 185"

text \<open>\<open>str.isdigit\<close>: not empty, all digits; superscripts count, though \<open>int\<close> rejects them.\<close>

definition py_isdigit :: "ustr \<Rightarrow> bool" where
  "py_isdigit s \<longleftrightarrow> s \<noteq> [] \<and> list_all py_isdigit_char s"

definition py_int :: "ustr \<Rightarrow> nat result" where
  "py_int s = (if s \<noteq> [] \<and> list_all is_dec s then Inr (undec s) else Inl ValueError)"

definition upper_char :: "nat \<Rightarrow> ustr" where
  "upper_char c =
     (if 97 \<le> c \<and> c \<le> 122 then [c - 32]
      else if c = 181 then [924]
      else if c = 223 then [83, 83]
      else if c = 255 then [376]
      else if 224 \<le> c \<and> c \<le> 254 \<and> c \<noteq> 247 then [c - 32]
      else [c])"

definition py_upper :: "ustr \<Rightarrow> ustr" where
  "py_upper s = concat (map upper_char s)"

text \<open>\<open>str.lower\<close> of configuration text (code points below 256, one for one).\<close>

definition lower_char :: "char \<Rightarrow> char" where
  "lower_char c =
     (let n = of_char c :: nat in
      if (65 \<le> n \<and> n \<le> 90) \<or> (192 \<le> n \<and> n \<le> 222 \<and> n \<noteq> 215) then char_of (n + 32) else c)"

definition py_lower :: "string \<Rightarrow> string" where
  "py_lower s = map lower_char s"

lemma py_upper_Nil [simp]: "py_upper [] = []"
  by (simp add: py_upper_def)

lemma py_upper_upper_hex: "\<forall>c \<in> set s. is_upper_hex c \<Longrightarrow> py_upper s = s"
  by (induction s) (auto simp: py_upper_def upper_char_def is_upper_hex_def)

lemma py_isdigit_dec: "s \<noteq> [] \<Longrightarrow> \<forall>c \<in> set s. is_dec c \<Longrightarrow> py_isdigit s"
  by (simp add: py_isdigit_def py_isdigit_char_def list_all_iff)

lemma py_int_dec: "s \<noteq> [] \<Longrightarrow> \<forall>c \<in> set s. is_dec c \<Longrightarrow> py_int s = Inr (undec s)"
  by (simp add: py_int_def list_all_iff)

end
