(* ===== verification/Iso_Profile.thy ===== *)
theory Iso_Profile
  imports Py_Text
begin

text \<open>
  The encoding profiles of the ISO 8583 codec (\<open>payprobe_common/iso8583/codec.py\<close>, section
  "profiles", and \<open>wire_encoding_from_config\<close> of \<open>__init__.py\<close>): the five axes and the optional
  MTI axis, the named profiles, axis dictionaries, the per-field override and the folding of the
  legacy \<open>framing.encoding\<close> key. The lemmas show that whatever is accepted is a valid profile.

  A dictionary of overrides is the list of its items in insertion order; an item's value is the
  text \<open>str(value)\<close>, which is all the code looks at.
\<close>

section \<open>Axes and profiles\<close>

datatype axval = Hex | Binary | Ebcdic | Ascii | Bcd | Raw

datatype axis = Bitmap_Axis | Numeric_Axis | Text_Axis | Binary_Axis | Length_Axis | Mti_Axis

fun AXIS_VALUES :: "axis \<Rightarrow> axval list" where
  "AXIS_VALUES Bitmap_Axis = [Hex, Binary, Ebcdic]"
| "AXIS_VALUES Numeric_Axis = [Ascii, Bcd, Ebcdic]"
| "AXIS_VALUES Text_Axis = [Ascii, Ebcdic]"
| "AXIS_VALUES Binary_Axis = [Hex, Raw]"
| "AXIS_VALUES Length_Axis = [Ascii, Bcd, Binary, Ebcdic]"
| "AXIS_VALUES Mti_Axis = [Ascii, Bcd, Ebcdic]"

text \<open>The spelling of axes and axis values in the configuration.\<close>

definition axis_names :: "(string \<times> axis) list" where
  "axis_names =
     [(''bitmap'', Bitmap_Axis), (''numeric'', Numeric_Axis), (''text'', Text_Axis),
      (''binary'', Binary_Axis), (''length'', Length_Axis), (''mti'', Mti_Axis)]"

fun axval_name :: "axval \<Rightarrow> string" where
  "axval_name Hex = ''hex''"
| "axval_name Binary = ''binary''"
| "axval_name Ebcdic = ''ebcdic''"
| "axval_name Ascii = ''ascii''"
| "axval_name Bcd = ''bcd''"
| "axval_name Raw = ''raw''"

definition axval_of :: "string \<Rightarrow> axval option" where
  "axval_of s = map_of (map (\<lambda>v. (axval_name v, v)) [Hex, Binary, Ebcdic, Ascii, Bcd, Raw]) s"

record opts =
  o_bitmap :: axval
  o_numeric :: axval
  o_text :: axval
  o_binary :: axval
  o_length :: axval
  o_mti :: "axval option"

definition ASCII_OPTS :: opts where
  "ASCII_OPTS = \<lparr>o_bitmap = Hex, o_numeric = Ascii, o_text = Ascii, o_binary = Hex,
     o_length = Ascii, o_mti = None\<rparr>"

definition BINARY_OPTS :: opts where
  "BINARY_OPTS = \<lparr>o_bitmap = Binary, o_numeric = Bcd, o_text = Ascii, o_binary = Raw,
     o_length = Bcd, o_mti = None\<rparr>"

definition PROFILES :: "(string \<times> opts) list" where
  "PROFILES = [(''ascii'', ASCII_OPTS), (''binary'', BINARY_OPTS)]"

text \<open>The type of a profile: every axis has one of its values.\<close>

definition valid_opts :: "'a opts_scheme \<Rightarrow> bool" where
  "valid_opts po \<longleftrightarrow>
     o_bitmap po \<in> set (AXIS_VALUES Bitmap_Axis) \<and>
     o_numeric po \<in> set (AXIS_VALUES Numeric_Axis) \<and>
     o_text po \<in> set (AXIS_VALUES Text_Axis) \<and>
     o_binary po \<in> set (AXIS_VALUES Binary_Axis) \<and>
     o_length po \<in> set (AXIS_VALUES Length_Axis) \<and>
     (\<forall>m. o_mti po = Some m \<longrightarrow> m \<in> set (AXIS_VALUES Mti_Axis))"

fun set_axis :: "axis \<Rightarrow> axval \<Rightarrow> 'a opts_scheme \<Rightarrow> 'a opts_scheme" where
  "set_axis Bitmap_Axis v po = po\<lparr>o_bitmap := v\<rparr>"
| "set_axis Numeric_Axis v po = po\<lparr>o_numeric := v\<rparr>"
| "set_axis Text_Axis v po = po\<lparr>o_text := v\<rparr>"
| "set_axis Binary_Axis v po = po\<lparr>o_binary := v\<rparr>"
| "set_axis Length_Axis v po = po\<lparr>o_length := v\<rparr>"
| "set_axis Mti_Axis v po = po\<lparr>o_mti := Some v\<rparr>"

text \<open>\<open>value = str(value).lower()\<close>, refused unless the axis has it.\<close>

definition axis_value :: "axis \<Rightarrow> string \<Rightarrow> axval result" where
  "axis_value a s =
     (case axval_of (py_lower s) of
        None \<Rightarrow> Inl ValueError
      | Some v \<Rightarrow> if v \<in> set (AXIS_VALUES a) then Inr v else Inl ValueError)"

section \<open>Resolving a profile\<close>

text \<open>What an \<open>encoding\<close> argument can be.\<close>

datatype encoding =
    Enc_None | Enc_Name string | Enc_Dict "(string \<times> string) list" | Enc_Other

fun resolve_axes :: "(string \<times> string) list \<Rightarrow> opts \<Rightarrow> opts result" where
  "resolve_axes [] po = Inr po"
| "resolve_axes ((key, value) # items) po =
     (case map_of axis_names (if key = ''bitmap_encoding'' then ''bitmap'' else key) of
        None \<Rightarrow> resolve_axes items po
      | Some a \<Rightarrow> rbind (axis_value a value) (\<lambda>v. resolve_axes items (set_axis a v po)))"

fun resolve_encoding :: "encoding \<Rightarrow> opts result" where
  "resolve_encoding Enc_None = Inr ASCII_OPTS"
| "resolve_encoding (Enc_Name n) = of_option ValueError (map_of PROFILES (py_lower n))"
| "resolve_encoding (Enc_Dict items) = resolve_axes items ASCII_OPTS"
| "resolve_encoding Enc_Other = Inl ValueError"

text \<open>A full options dictionary, as an \<open>encoding\<close> argument again.\<close>

definition dict_of_opts :: "opts \<Rightarrow> encoding" where
  "dict_of_opts po = Enc_Dict
     ([(''bitmap'', axval_name (o_bitmap po)), (''numeric'', axval_name (o_numeric po)),
       (''text'', axval_name (o_text po)), (''binary'', axval_name (o_binary po)),
       (''length'', axval_name (o_length po))] @
      (case o_mti po of None \<Rightarrow> [] | Some m \<Rightarrow> [(''mti'', axval_name m)]))"

text \<open>\<open>definition_encoding\<close>: the profile of a Message Format definition, given its
  \<open>encoding\<close> and \<open>bitmap_encoding\<close> entries.\<close>

definition definition_encoding :: "encoding \<Rightarrow> string option \<Rightarrow> encoding result" where
  "definition_encoding enc bitmap =
     (case bitmap of
        None \<Rightarrow> Inr enc
      | Some b \<Rightarrow>
          rbind (axis_value Bitmap_Axis b) (\<lambda>v.
          rbind (resolve_encoding enc) (\<lambda>po. Inr (dict_of_opts (po\<lparr>o_bitmap := v\<rparr>)))))"

definition is_ascii :: "opts \<Rightarrow> bool" where
  "is_ascii po \<longleftrightarrow>
     o_bitmap po = o_bitmap ASCII_OPTS \<and> o_numeric po = o_numeric ASCII_OPTS \<and>
     o_text po = o_text ASCII_OPTS \<and> o_binary po = o_binary ASCII_OPTS \<and>
     o_length po = o_length ASCII_OPTS \<and> or_default Ascii (o_mti po) = Ascii"

definition mti_mode :: "'a opts_scheme \<Rightarrow> axval" where
  "mti_mode po = or_default (if o_numeric po = Bcd then Bcd else Ascii) (o_mti po)"

definition mti_encoding :: "encoding \<Rightarrow> axval result" where
  "mti_encoding enc = rbind (resolve_encoding enc) (\<lambda>po. Inr (mti_mode po))"

section \<open>The per-field override\<close>

record fopts = opts +
  f_pad :: "string option"
  f_pad_nibble :: "string option"
  f_separator :: "string option"

definition base_fopts :: "opts \<Rightarrow> fopts" where
  "base_fopts po = opts.extend po \<lparr>f_pad = None, f_pad_nibble = None, f_separator = None\<rparr>"

text \<open>A data-element specification, the value of one key of a field table.\<close>

record fspec =
  s_name :: string
  s_len_type :: string
  s_length :: int
  s_type :: string
  s_encoding :: "(string \<times> string) list option"

definition override_axis :: "(string \<times> string) list \<Rightarrow> string \<Rightarrow> axis \<Rightarrow> fopts \<Rightarrow> fopts result" where
  "override_axis ov key a fo =
     (case map_of ov key of
        None \<Rightarrow> Inr fo
      | Some value \<Rightarrow> rbind (axis_value a value) (\<lambda>v. Inr (set_axis a v fo)))"

definition field_options :: "fspec \<Rightarrow> opts \<Rightarrow> fopts result" where
  "field_options spec po =
     (case s_encoding spec of
        None \<Rightarrow> Inr (base_fopts po)
      | Some ov \<Rightarrow>
          if ov = [] then Inr (base_fopts po)
          else
            rbind (override_axis ov ''numeric'' Numeric_Axis (base_fopts po)) (\<lambda>fo.
            rbind (override_axis ov ''text'' Text_Axis fo) (\<lambda>fo.
            rbind (override_axis ov ''binary'' Binary_Axis fo) (\<lambda>fo.
            rbind (override_axis ov ''length'' Length_Axis fo) (\<lambda>fo.
            Inr (fo\<lparr>f_pad := map_of ov ''pad'', f_pad_nibble := map_of ov ''pad_nibble'',
                    f_separator := map_of ov ''separator''\<rparr>))))))"

datatype side = PadLeft | PadRight

definition pad :: "fopts \<Rightarrow> (side \<times> ustr) result" where
  "pad fo =
     (let side = py_lower (or_default ''left'' (f_pad fo)) in
      if side \<noteq> ''left'' \<and> side \<noteq> ''right'' then Inl ValueError
      else let nibble = take 1 (py_upper (u (or_default (if side = ''left'' then ''0'' else ''F'')
                                                   (f_pad_nibble fo))))
           in Inr (if side = ''left'' then PadLeft else PadRight,
                   if nibble = [] then u ''0'' else nibble))"

section \<open>The legacy text-codec key\<close>

definition LEGACY_TEXT_ENCODINGS :: "(string \<times> encoding) list" where
  "LEGACY_TEXT_ENCODINGS =
     [(''ascii'', Enc_Name ''ascii''), (''us-ascii'', Enc_Name ''ascii''),
      (''utf-8'', Enc_Name ''ascii''), (''utf8'', Enc_Name ''ascii''),
      (''latin-1'', Enc_Name ''ascii''), (''latin1'', Enc_Name ''ascii''),
      (''iso-8859-1'', Enc_Name ''ascii''),
      (''cp037'', Enc_Dict [(''text'', ''ebcdic'')]),
      (''ebcdic'', Enc_Dict [(''text'', ''ebcdic'')]),
      (''ebcdic-cp-us'', Enc_Dict [(''text'', ''ebcdic'')])]"

text \<open>\<open>wire_encoding_from_config\<close>: \<open>explicit\<close> is the top-level \<open>encoding\<close> key, \<open>legacy\<close>
  the text of \<open>framing.encoding\<close>.\<close>

definition wire_encoding_from_config :: "encoding \<Rightarrow> string option \<Rightarrow> string \<Rightarrow> encoding result" where
  "wire_encoding_from_config explicit legacy protocol =
     (if protocol \<noteq> ''iso8583''
      then Inr (if explicit \<noteq> Enc_None then explicit else Enc_Name ''ascii'')
      else
        rbind (case legacy of
                 None \<Rightarrow> Inr None
               | Some l \<Rightarrow> rbind (of_option ValueError (map_of LEGACY_TEXT_ENCODINGS (py_lower l)))
                             (\<lambda>e. Inr (Some e)))
          (\<lambda>folded.
             if explicit = Enc_None then Inr (or_default (Enc_Name ''ascii'') folded)
             else
               rbind (resolve_encoding explicit) (\<lambda>resolved.
                 case folded of
                   None \<Rightarrow> Inr explicit
                 | Some e \<Rightarrow> rbind (resolve_encoding e) (\<lambda>r.
                     if r \<noteq> resolved then Inl ValueError else Inr explicit))))"

section \<open>Lemmas\<close>

lemma valid_ASCII_OPTS [simp]: "valid_opts ASCII_OPTS"
  by (simp add: valid_opts_def ASCII_OPTS_def)

lemma valid_BINARY_OPTS [simp]: "valid_opts BINARY_OPTS"
  by (simp add: valid_opts_def BINARY_OPTS_def)

lemma axis_value_valid: "axis_value a s = Inr v \<Longrightarrow> v \<in> set (AXIS_VALUES a)"
  by (auto simp: axis_value_def split: option.splits if_splits)

lemma set_axis_valid [intro]:
  "valid_opts po \<Longrightarrow> v \<in> set (AXIS_VALUES a) \<Longrightarrow> valid_opts (set_axis a v po)"
  by (cases a) (auto simp: valid_opts_def)

lemma resolve_axes_valid: "valid_opts po \<Longrightarrow> resolve_axes items po = Inr po2 \<Longrightarrow> valid_opts po2"
proof (induction items po rule: resolve_axes.induct)
  case (1 po)
  then show ?case by simp
next
  case (2 key val items po)
  then show ?case
    by (auto simp: result_iff split: option.splits dest: axis_value_valid)
qed

lemma resolve_encoding_ok: "resolve_encoding enc = Inr po \<Longrightarrow> valid_opts po"
  by (cases enc rule: resolve_encoding.cases)
    (auto simp: result_iff PROFILES_def split: if_splits intro: resolve_axes_valid [OF valid_ASCII_OPTS])

lemma resolve_encoding_error: "resolve_encoding enc = Inl e \<Longrightarrow> e = ValueError"
proof -
  have "resolve_axes items po = Inl e \<Longrightarrow> e = ValueError" for items po
    by (induction items po rule: resolve_axes.induct)
      (auto simp: result_iff axis_value_def split: option.splits if_splits)
  then show "resolve_encoding enc = Inl e \<Longrightarrow> e = ValueError"
    by (cases enc rule: resolve_encoding.cases) (auto simp: result_iff)
qed

lemma axval_of_name: "axval_of (py_lower (axval_name v)) = Some v"
  by (cases v) (simp_all add: axval_of_def py_lower_def lower_char_def)

lemma axis_value_name: "v \<in> set (AXIS_VALUES a) \<Longrightarrow> axis_value a (axval_name v) = Inr v"
  by (simp add: axis_value_def axval_of_name)

lemma axis_value_error: "axis_value a s = Inl e \<Longrightarrow> e = ValueError"
  by (auto simp: axis_value_def split: option.splits if_splits)

lemma resolve_dict_of_opts: "valid_opts po \<Longrightarrow> resolve_encoding (dict_of_opts po) = Inr po"
  by (cases po, cases "o_mti po")
    (simp_all add: dict_of_opts_def axis_names_def axis_value_name valid_opts_def ASCII_OPTS_def
      del: AXIS_VALUES.simps)

lemma valid_base_fopts [simp]: "valid_opts (base_fopts po) = valid_opts po"
  by (simp add: valid_opts_def base_fopts_def opts.defs)

lemma override_axis_valid:
  "override_axis ov key a fo = Inr fo2 \<Longrightarrow> valid_opts fo \<Longrightarrow> valid_opts fo2"
  by (auto simp: override_axis_def result_iff split: option.splits dest: axis_value_valid)

lemma override_axis_error: "override_axis ov key a fo = Inl e \<Longrightarrow> e = ValueError"
  by (auto simp: override_axis_def result_iff split: option.splits dest: axis_value_error)

lemma valid_pads [simp]:
  "valid_opts (fo\<lparr>f_pad := p, f_pad_nibble := n, f_separator := s\<rparr>) = valid_opts fo"
  by (simp add: valid_opts_def)

lemma field_options_valid:
  "field_options spec po = Inr fo \<Longrightarrow> valid_opts po \<Longrightarrow> valid_opts fo"
  by (auto simp: field_options_def result_iff split: option.splits if_splits
      dest!: override_axis_valid)

lemma field_options_no_override:
  "s_encoding spec = None \<Longrightarrow> field_options spec po = Inr (base_fopts po)"
  by (simp add: field_options_def)

lemma field_options_error: "field_options spec po = Inl e \<Longrightarrow> e = ValueError"
  by (auto simp: field_options_def result_iff split: option.splits if_splits
      dest: override_axis_error)

lemma legacy_values:
  "map_of LEGACY_TEXT_ENCODINGS s = Some e \<Longrightarrow>
   e = Enc_Name ''ascii'' \<or> e = Enc_Dict [(''text'', ''ebcdic'')]"
  by (auto simp: LEGACY_TEXT_ENCODINGS_def split: if_splits)

lemma legacy_resolves: "map_of LEGACY_TEXT_ENCODINGS s = Some e \<Longrightarrow> \<exists>po. resolve_encoding e = Inr po"
  by (drule legacy_values)
    (auto simp: PROFILES_def py_lower_def lower_char_def axis_names_def axis_value_def axval_of_def)

lemma pad_length: "pad fo = Inr (side, nibble) \<Longrightarrow> length nibble = 1"
  by (auto simp: pad_def Let_def u_def min_def le_Suc_eq split: if_splits)

end
