(* ===== verification/Iso_Codec.thy ===== *)
theory Iso_Codec
  imports Iso_Profile
begin

unbundle bit_operations_syntax

text \<open>
  The wire codec \<open>payprobe_common/iso8583/codec.py\<close>: the primitives that write and read an MTI, a
  bitmap, a length indicator and a field value under a profile, and \<open>pack\<close> and \<open>unpack\<close> built
  from them. The dictionary of values and the field table are association lists keyed by the
  number of the data element (the code keys them by its decimal text, which names the same
  element). A position in the data is a natural number; counts are integers, since a field table
  may hold a negative length.
\<close>

section \<open>Primitives\<close>

definition LEN_PREFIX :: "(string \<times> nat) list" where
  "LEN_PREFIX = [(''llvar'', 2), (''lllvar'', 3), (''llllvar'', 4), (''lllllvar'', 5)]"

definition len_width :: "string \<Rightarrow> nat" where
  "len_width lt = or_default 3 (map_of LEN_PREFIX lt)"

definition bcd_encode :: "ustr \<Rightarrow> side \<Rightarrow> ustr \<Rightarrow> byte list result" where
  "bcd_encode digits side nibble =
     (let ds = (if odd (length digits)
                then (if side = PadLeft then nibble @ digits else digits @ nibble) else digits)
      in of_option ValueError (fromhex ds))"

definition bcd_decode :: "byte list \<Rightarrow> int \<Rightarrow> side \<Rightarrow> ustr" where
  "bcd_decode raw count side =
     (let nibbles = hex_upper raw;
          nibbles = (if count mod 2 \<noteq> 0
                     then (if side = PadLeft then drop 1 nibbles else slice_to (- 1) nibbles)
                     else nibbles)
      in slice_to count nibbles)"

definition text_encode :: "axval \<Rightarrow> ustr \<Rightarrow> byte list result" where
  "text_encode mode s = (if mode = Ebcdic then cp037_encode s else ascii_encode s)"

definition text_decode :: "axval \<Rightarrow> byte list \<Rightarrow> ustr" where
  "text_decode mode raw = (if mode = Ebcdic then cp037_decode raw else ascii_decode raw)"

definition z_is_bcd :: "fspec \<Rightarrow> bool" where
  "z_is_bcd spec \<longleftrightarrow>
     (case s_encoding spec of
        None \<Rightarrow> False
      | Some ov \<Rightarrow> py_lower (or_default '''' (map_of ov ''numeric'')) = ''bcd'')"

definition encode_mti :: "ustr \<Rightarrow> opts \<Rightarrow> byte list result" where
  "encode_mti mti po =
     (if mti_mode po = Bcd then bcd_encode mti PadLeft (u ''0'') else text_encode (mti_mode po) mti)"

text \<open>\<open>n |= 1 << (64 - d)\<close> over the set of data elements; a negative shift count raises.\<close>

fun bitmap_bits :: "nat \<Rightarrow> int list \<Rightarrow> nat result" where
  "bitmap_bits n [] = Inr n"
| "bitmap_bits n (d # ds) =
     (if 64 < d then Inl ValueError else bitmap_bits (n OR push_bit (nat (64 - d)) 1) ds)"

definition encode_bitmap :: "int list \<Rightarrow> opts \<Rightarrow> byte list result" where
  "encode_bitmap des po =
     rbind (bitmap_bits 0 des) (\<lambda>n.
       if 2 ^ 64 \<le> n then Inl OverflowError
       else let raw = be_bytes 8 n in
            if o_bitmap po = Binary then Inr raw else text_encode (o_bitmap po) (hex_upper raw))"

definition encode_length :: "nat \<Rightarrow> nat \<Rightarrow> fopts \<Rightarrow> byte list result" where
  "encode_length count width fo =
     (if o_length fo = Bcd then bcd_encode (zfill width (dec count)) PadLeft (u ''0'')
      else if o_length fo = Binary then
        (let nbytes = (if width \<le> 2 then 1 else 2) in
         if 2 ^ (8 * nbytes) \<le> count then Inl ValueError else Inr (be_bytes nbytes count))
      else text_encode (o_length fo) (zfill width (dec count)))"

text \<open>\<open>value.replace("=", "D").upper()\<close> of BCD-packed track data, and the way back.\<close>

definition track_nibbles :: "ustr \<Rightarrow> ustr" where
  "track_nibbles s = py_upper (map (\<lambda>c. if c = 61 then 68 else c) s)"

definition track_text :: "ustr \<Rightarrow> ustr \<Rightarrow> ustr" where
  "track_text sep s = concat (map (\<lambda>c. if c = 68 then sep else [c]) s)"

definition encode_value :: "ustr \<Rightarrow> fspec \<Rightarrow> fopts \<Rightarrow> (byte list \<times> nat) result" where
  "encode_value val spec fo =
     (let typ = py_lower (s_type spec) in
      if typ = ''b'' then
        (if o_binary fo = Raw
         then rbind (of_option ValueError (fromhex val)) (\<lambda>bs. Inr (bs, length val div 2))
         else rbind (ascii_encode val) (\<lambda>bs. Inr (bs, length val)))
      else if typ = ''n'' then
        (if o_numeric fo = Bcd
         then rbind (pad fo) (\<lambda>(side, nibble).
              rbind (bcd_encode val side nibble) (\<lambda>bs. Inr (bs, length val)))
         else rbind (text_encode (o_numeric fo) val) (\<lambda>bs. Inr (bs, length val)))
      else if typ = ''z'' \<and> z_is_bcd spec then
        rbind (pad fo) (\<lambda>(side, nibble).
        rbind (bcd_encode (track_nibbles val) side nibble) (\<lambda>bs. Inr (bs, length val)))
      else rbind (text_encode (o_text fo) val) (\<lambda>bs. Inr (bs, length val)))"

text \<open>\<open>_take\<close>: \<open>n\<close> bytes at \<open>pos\<close>, or the message is too short.\<close>

definition take_bytes :: "byte list \<Rightarrow> nat \<Rightarrow> int \<Rightarrow> byte list result" where
  "take_bytes data pos n =
     (if n < 0 \<or> int (length data) < int pos + n then Inl DecodeError
      else Inr (take (nat n) (drop pos data)))"

definition decode_mti :: "byte list \<Rightarrow> nat \<Rightarrow> opts \<Rightarrow> (ustr \<times> nat) result" where
  "decode_mti data pos po =
     (if mti_mode po = Bcd
      then rbind (take_bytes data pos 2) (\<lambda>raw. Inr (hex_upper raw, pos + 2))
      else rbind (take_bytes data pos 4) (\<lambda>raw. Inr (text_decode (mti_mode po) raw, pos + 4)))"

text \<open>\<open>int(s, 16)\<close> on a text of hexadecimal digits, and the bits of a 64-bit map, 1 first.\<close>

definition unhex :: "ustr \<Rightarrow> nat" where
  "unhex s = foldl (\<lambda>a c. 16 * a + or_default 0 (hexval c)) 0 s"

definition bitmap_des :: "nat \<Rightarrow> int list" where
  "bitmap_des n = map (\<lambda>i. int i + 1) (filter (\<lambda>i. bit n (63 - i)) [0..<64])"

definition decode_bitmap :: "byte list \<Rightarrow> nat \<Rightarrow> opts \<Rightarrow> (int list \<times> nat \<times> ustr) result" where
  "decode_bitmap data pos po =
     rbind
       (if o_bitmap po = Binary
        then rbind (take_bytes data pos 8) (\<lambda>raw. Inr (hex_upper raw, pos + 8))
        else rbind (take_bytes data pos 16) (\<lambda>raw.
               let hexstr = py_upper (text_decode (o_bitmap po) raw) in
               if \<not> list_all is_upper_hex hexstr then Inl DecodeError else Inr (hexstr, pos + 16)))
       (\<lambda>(hexstr, pos). Inr (bitmap_des (unhex hexstr), pos, hexstr))"

definition decode_length :: "byte list \<Rightarrow> nat \<Rightarrow> nat \<Rightarrow> fopts \<Rightarrow> (nat \<times> nat) result" where
  "decode_length data pos width fo =
     (if o_length fo = Binary then
        (let nbytes = (if width \<le> 2 then 1 else 2) in
         rbind (take_bytes data pos (int nbytes)) (\<lambda>raw. Inr (from_be raw, pos + nbytes)))
      else
        rbind
          (if o_length fo = Bcd then
             (let nbytes = (width + 1) div 2 in
              rbind (take_bytes data pos (int nbytes)) (\<lambda>raw.
                Inr (last_n width (hex_upper raw), nbytes)))
           else
             rbind (take_bytes data pos (int width)) (\<lambda>raw.
               Inr (text_decode (o_length fo) raw, width)))
          (\<lambda>(digits, nbytes).
             if \<not> py_isdigit digits then Inl DecodeError
             else rbind (py_int digits) (\<lambda>n. Inr (n, pos + nbytes))))"

text \<open>\<open>decode_value\<close> in two parts: the value once its count is known, and the count.\<close>

definition decode_body ::
  "byte list \<Rightarrow> nat \<Rightarrow> int \<Rightarrow> fspec \<Rightarrow> fopts \<Rightarrow> (ustr \<times> nat) result" where
  "decode_body data pos count spec fo =
     (let typ = py_lower (s_type spec) in
      if typ = ''b'' then
        (if o_binary fo = Raw then
           (let nbytes = (if s_len_type spec = ''fixed'' then count div 2 else count) in
            rbind (take_bytes data pos nbytes) (\<lambda>raw. Inr (hex_upper raw, pos + nat nbytes)))
         else rbind (take_bytes data pos count) (\<lambda>raw.
                Inr (text_decode Ascii raw, pos + nat count)))
      else if typ = ''n'' \<and> o_numeric fo = Bcd then
        (let nbytes = (count + 1) div 2 in
         rbind (pad fo) (\<lambda>(side, _).
         rbind (take_bytes data pos nbytes) (\<lambda>raw.
           Inr (bcd_decode raw count side, pos + nat nbytes))))
      else if typ = ''n'' then
        rbind (take_bytes data pos count) (\<lambda>raw.
          Inr (text_decode (o_numeric fo) raw, pos + nat count))
      else if typ = ''z'' \<and> z_is_bcd spec then
        (let nbytes = (count + 1) div 2 in
         rbind (pad fo) (\<lambda>(side, _).
         rbind (take_bytes data pos nbytes) (\<lambda>raw.
           Inr (track_text (u (or_default ''D'' (f_separator fo))) (bcd_decode raw count side),
                pos + nat nbytes))))
      else
        rbind (take_bytes data pos count) (\<lambda>raw.
          Inr (text_decode (o_text fo) raw, pos + nat count)))"

definition decode_value :: "byte list \<Rightarrow> nat \<Rightarrow> fspec \<Rightarrow> fopts \<Rightarrow> (ustr \<times> nat) result" where
  "decode_value data pos spec fo =
     rbind
       (if s_len_type spec = ''fixed'' then Inr (s_length spec, pos)
        else rbind (decode_length data pos (len_width (s_len_type spec)) fo)
               (\<lambda>(n, pos). Inr (int n, pos)))
       (\<lambda>(count, pos). decode_body data pos count spec fo)"

section \<open>Messages\<close>

type_synonym ftable = "(int \<times> fspec) list"
type_synonym de_values = "(int \<times> ustr) list"

text \<open>The body of the loop of \<open>pack\<close>; any \<open>ValueError\<close> is raised again as a plain one.\<close>

definition pack_de :: "fspec \<Rightarrow> fopts \<Rightarrow> ustr \<Rightarrow> byte list result" where
  "pack_de spec fo val =
     (case rbind (encode_value val spec fo) (\<lambda>(body, count).
             if s_len_type spec \<noteq> ''fixed''
             then rbind (encode_length count (len_width (s_len_type spec)) fo) (\<lambda>l. Inr (l @ body))
             else Inr body) of
        Inl e \<Rightarrow> Inl (if is_value_error e then ValueError else e)
      | Inr bs \<Rightarrow> Inr bs)"

fun pack_fields :: "ftable \<Rightarrow> opts \<Rightarrow> de_values \<Rightarrow> int list \<Rightarrow> byte list result" where
  "pack_fields tbl po vs [] = Inr []"
| "pack_fields tbl po vs (d # ds) =
     (case map_of tbl d of
        None \<Rightarrow> Inl KeyError
      | Some spec \<Rightarrow>
          rbind (field_options spec po) (\<lambda>fo.
          rbind (pack_de spec fo (or_default [] (map_of vs d))) (\<lambda>bs.
          rbind (pack_fields tbl po vs ds) (\<lambda>rest. Inr (bs @ rest)))))"

definition pack :: "ustr \<Rightarrow> de_values \<Rightarrow> ftable \<Rightarrow> encoding \<Rightarrow> byte list result" where
  "pack mti vs tbl enc =
     rbind (resolve_encoding enc) (\<lambda>po.
       let des = sort (map fst vs);
           has_secondary = (\<exists>d \<in> set des. 64 < d);
           primary = filter (\<lambda>d. d \<le> 64) des;
           primary = (if has_secondary then List.insert 1 primary else primary)
       in rbind (encode_mti mti po) (\<lambda>m.
          rbind (encode_bitmap primary po) (\<lambda>b1.
          rbind (if has_secondary
                 then encode_bitmap (map (\<lambda>d. d - 64) (filter (\<lambda>d. 64 < d) des)) po
                 else Inr []) (\<lambda>b2.
          rbind (pack_fields tbl po vs des) (\<lambda>body.
          Inr (m @ b1 @ b2 @ body))))))"

datatype de_error = NotInSpec | FieldError py_error

record entry =
  e_name :: string
  e_value :: ustr
  e_error :: "de_error option"

record unpacked =
  r_mti :: ustr
  r_de_list :: "int list"
  r_fields :: "(int \<times> entry) list"
  r_primary :: ustr
  r_secondary :: "ustr option"
  r_error :: "(int \<times> de_error) option"
  r_truncated :: bool
  r_trailing :: "byte list option"

text \<open>The loop of \<open>unpack\<close>: the entries parsed, the error that stopped it, the position reached.\<close>

fun unpack_fields ::
  "byte list \<Rightarrow> ftable \<Rightarrow> opts \<Rightarrow> bool \<Rightarrow> int list \<Rightarrow> nat \<Rightarrow>
   ((int \<times> entry) list \<times> (int \<times> de_error) option \<times> nat) result" where
  "unpack_fields data tbl po strict [] pos = Inr ([], None, pos)"
| "unpack_fields data tbl po strict (de # des) pos =
     (case map_of tbl de of
        None \<Rightarrow>
          Inr ([(de, \<lparr>e_name = ''(unknown)'', e_value = [], e_error = Some NotInSpec\<rparr>)],
               Some (de, NotInSpec), pos)
      | Some spec \<Rightarrow>
          (case rbind (field_options spec po) (\<lambda>fo. decode_value data pos spec fo) of
             Inl e \<Rightarrow>
               if \<not> is_value_error e then Inl e
               else if strict then Inl DecodeError
               else Inr ([(de, \<lparr>e_name = s_name spec, e_value = [], e_error = Some (FieldError e)\<rparr>)],
                         Some (de, FieldError e), pos)
           | Inr (val, pos') \<Rightarrow>
               rbind (unpack_fields data tbl po strict des pos') (\<lambda>(es, err, p).
                 Inr ((de, \<lparr>e_name = s_name spec, e_value = val, e_error = None\<rparr>) # es, err, p))))"

definition unpack :: "byte list \<Rightarrow> ftable \<Rightarrow> encoding \<Rightarrow> bool \<Rightarrow> unpacked result" where
  "unpack data tbl enc strict =
     rbind (resolve_encoding enc) (\<lambda>po.
     rbind (decode_mti data 0 po) (\<lambda>(mti, pos).
     rbind (decode_bitmap data pos po) (\<lambda>(present, pos, primary_hex).
     rbind (if 1 \<in> set present
            then rbind (decode_bitmap data pos po) (\<lambda>(more, pos, secondary_hex).
                   Inr (removeAll 1 present @ map (\<lambda>b. b + 64) more, pos, Some secondary_hex))
            else Inr (present, pos, None)) (\<lambda>(present, pos, secondary_hex).
     let de_list = sort present in
     rbind (unpack_fields data tbl po strict de_list pos) (\<lambda>(parsed, err, pos).
     Inr \<lparr>r_mti = mti, r_de_list = de_list, r_fields = parsed, r_primary = primary_hex,
          r_secondary = secondary_hex, r_error = err, r_truncated = (err \<noteq> None),
          r_trailing = (if drop pos data = [] then None else Some (drop pos data))\<rparr>)))))"

end
