(* ===== verification/Wire_Format.thy ===== *)
theory Wire_Format
  imports Py_Text
begin

text \<open>
  The interface every pair of an encoder and a decoder of this program has: the primitives of the
  ISO 8583 codec and its data elements, and the frames of a TCP stream.
\<close>

section \<open>The interface of a wire format\<close>

locale wire_format =
  fixes enc :: "'k \<Rightarrow> 'a \<Rightarrow> byte list result"
    and dec :: "byte list \<Rightarrow> nat \<Rightarrow> 'k \<Rightarrow> ('b \<times> nat) result"
    and ok :: "'k \<Rightarrow> 'a \<Rightarrow> bool"
    and view :: "'k \<Rightarrow> 'a \<Rightarrow> 'b"
  assumes encodes: "ok k x \<Longrightarrow> \<exists>bs. enc k x = Inr bs"
    and decodes: "ok k x \<Longrightarrow> enc k x = Inr bs \<Longrightarrow>
      dec (pre @ bs @ post) (length pre) k = Inr (view k x, length pre + length bs)"
begin

lemma reads_back:
  "ok k x \<Longrightarrow> \<exists>bs. enc k x = Inr bs \<and>
     (\<forall>pre post. dec (pre @ bs @ post) (length pre) k = Inr (view k x, length pre + length bs))"
  using encodes decodes by blast

lemma reads_at:
  assumes "ok k x" and "enc k x = Inr bs" and "data = pre @ bs @ post" and "pos = length pre"
  shows "dec data pos k = Inr (view k x, pos + length bs)"
  using decodes assms by simp

lemma prefix_free:
  assumes x: "ok k x" "enc k x = Inr bs" and y: "ok k y" "enc k y = Inr cs"
    and eq: "bs @ p = cs @ q"
  shows "view k x = view k y \<and> bs = cs \<and> p = q"
proof -
  have "dec (bs @ p) 0 k = Inr (view k x, length bs)" using decodes [OF x, of "[]" p] by simp
  moreover have "dec (cs @ q) 0 k = Inr (view k y, length cs)"
    using decodes [OF y, of "[]" q] by simp
  ultimately have "view k x = view k y" and "length bs = length cs" using eq by auto
  then show ?thesis using eq by simp
qed

end

end
