(* ===== verification/Iso_Wire.thy ===== *)
theory Iso_Wire
  imports Iso_Codec Wire_Format
begin

text \<open>
  The laws of the codec's primitives. Each pair of an encoder and a decoder is an instance of one
  interface, \<open>wire_format\<close>: whatever the encoder accepts, it writes, and the decoder reads it back
  from the middle of any message, stopping exactly behind it. The interface gives what the message
  level needs: reading back in place, and that no encoding is a prefix of another one.
\<close>

section \<open>Text and packed digits\<close>

lemma take_bytes_mid:
  "n = int (length bs) \<Longrightarrow> take_bytes (pre @ bs @ post) (length pre) n = Inr bs"
  by (simp add: take_bytes_def)

lemma text_inverse [wire_inverse]: "text_encode m s = Inr bs \<Longrightarrow> text_decode m bs = s"
  by (simp add: text_encode_def text_decode_def wire_inverse split: if_splits)

lemma text_length [wire_length]: "text_encode m s = Inr bs \<Longrightarrow> length bs = length s"
  by (auto simp: text_encode_def split: if_splits dest: cp037_length ascii_length)

definition text_ok :: "axval \<Rightarrow> ustr \<Rightarrow> bool" where
  "text_ok m s \<longleftrightarrow> (case text_encode m s of Inl _ \<Rightarrow> False | Inr _ \<Rightarrow> True)"

lemma text_okE:
  assumes "text_ok m s"
  obtains bs where "text_encode m s = Inr bs"
  using assms by (cases "text_encode m s") (auto simp: text_ok_def)

lemma text_ok_upper_hex: "\<forall>c \<in> set s. is_upper_hex c \<Longrightarrow> text_ok m s"
  using ascii_encode_upper_hex [of s] cp037_encode_upper_hex [of s]
  by (auto simp: text_ok_def text_encode_def)

lemma text_ok_ascii: "m \<noteq> Ebcdic \<Longrightarrow> text_ok m s \<longleftrightarrow> (\<forall>c \<in> set s. c < 128)"
  by (simp add: text_ok_def text_encode_def ascii_encode_def)

text \<open>A text of known length, as the fixed fields carry it.\<close>

definition take_text :: "byte list \<Rightarrow> nat \<Rightarrow> axval \<times> nat \<Rightarrow> (ustr \<times> nat) result" where
  "take_text data pos k =
     rbind (take_bytes data pos (int (snd k))) (\<lambda>raw. Inr (text_decode (fst k) raw, pos + snd k))"

lemma take_text_mid:
  assumes "text_encode m s = Inr bs" and "length s = n"
  shows "take_text (pre @ bs @ post) (length pre) (m, n) = Inr (s, length pre + length bs)"
proof -
  have "length bs = n" using assms text_length by simp
  then show ?thesis using assms by (simp add: take_text_def take_bytes_mid text_inverse)
qed

interpretation text_wire: wire_format
  "\<lambda>k. text_encode (fst k)" take_text "\<lambda>k s. text_ok (fst k) s \<and> length s = snd k" "\<lambda>_ s. s"
  by unfold_locales (auto elim: text_okE simp: take_text_mid)

lemma length_bcd_padded:
  "bcd_encode s side [n] = Inr bs \<Longrightarrow> \<forall>c \<in> set (n # s). is_upper_hex c \<Longrightarrow>
   2 * length bs = length s + length s mod 2"
proof -
  assume enc: "bcd_encode s side [n] = Inr bs" and hex: "\<forall>c \<in> set (n # s). is_upper_hex c"
  define ds where "ds = (if odd (length s) then (if side = PadLeft then [n] @ s else s @ [n]) else s)"
  have "fromhex ds = Some bs" using enc by (simp add: bcd_encode_def Let_def ds_def result_iff)
  moreover have "even (length ds)" "\<forall>c \<in> set ds. is_upper_hex c" using hex by (auto simp: ds_def)
  ultimately have "2 * length bs = length ds" using fromhex_upper_hex [of ds] by auto
  then show ?thesis by (auto simp: ds_def mod2_eq_if)
qed

text \<open>Packing nibbles and unpacking the same number of them gives them back, for either side.\<close>

lemma bcd_inverse:
  assumes hex: "\<forall>c \<in> set s. is_upper_hex c"
    and nib: "odd (length s) \<Longrightarrow> \<exists>n. nibble = [n] \<and> is_upper_hex n"
  shows "\<exists>bs. bcd_encode s side nibble = Inr bs \<and> 2 * length bs = length s + length s mod 2 \<and>
           bcd_decode bs (int (length s)) side = s"
proof -
  define ds where "ds = (if odd (length s)
    then (if side = PadLeft then nibble @ s else s @ nibble) else s)"
  have "even (length ds)" "\<forall>c \<in> set ds. is_upper_hex c" using hex nib by (auto simp: ds_def)
  then obtain bs where bs: "fromhex ds = Some bs" "hex_upper bs = ds" "2 * length bs = length ds"
    using fromhex_upper_hex by blast
  have "bcd_encode s side nibble = Inr bs" using bs(1) by (simp add: bcd_encode_def Let_def ds_def)
  moreover have "length ds = length s + length s mod 2" using nib by (auto simp: ds_def mod2_eq_if)
  moreover have "bcd_decode bs (int (length s)) side = s"
  proof (cases "odd (length s)")
    case True
    then have odd: "int (length s) mod 2 \<noteq> 0" by presburger
    obtain n where "nibble = [n]" using nib True by blast
    then show ?thesis using True odd bs(2) slice_to_neg_append [of "[n]" s]
      by (cases side) (auto simp: bcd_decode_def Let_def ds_def)
  next
    case False
    then have "int (length s) mod 2 = 0" by presburger
    then show ?thesis using False bs(2) by (simp add: bcd_decode_def Let_def ds_def)
  qed
  ultimately show ?thesis using bs(3) by auto
qed

section \<open>MTI\<close>

definition mti_ok :: "opts \<Rightarrow> ustr \<Rightarrow> bool" where
  "mti_ok po mti \<longleftrightarrow> length mti = 4 \<and>
     (if mti_mode po = Bcd then \<forall>c \<in> set mti. is_upper_hex c else text_ok (mti_mode po) mti)"

lemma encode_mti_ok: "mti_ok po mti \<Longrightarrow> \<exists>bs. encode_mti mti po = Inr bs"
  using bcd_inverse [of mti "u ''0''" PadLeft]
  by (auto simp: mti_ok_def encode_mti_def elim: text_okE split: if_splits)

lemma decode_mti_mid:
  assumes ok: "mti_ok po mti" and enc: "encode_mti mti po = Inr bs"
  shows "decode_mti (pre @ bs @ post) (length pre) po = Inr (mti, length pre + length bs)"
proof (cases "mti_mode po = Bcd")
  case True
  then have fh: "fromhex mti = Some bs" using ok enc
    by (simp add: mti_ok_def encode_mti_def bcd_encode_def result_iff)
  then have "hex_upper bs = mti" "length bs = 2"
    using ok True fromhex_upper_hex [of mti] by (auto simp: mti_ok_def)
  then show ?thesis using True by (simp add: decode_mti_def take_bytes_mid)
next
  case False
  then have t: "text_encode (mti_mode po) mti = Inr bs" using enc by (simp add: encode_mti_def)
  then have "length bs = 4" using ok text_length by (simp add: mti_ok_def)
  then show ?thesis using False t by (simp add: decode_mti_def take_bytes_mid text_inverse)
qed

interpretation mti_wire: wire_format
  "\<lambda>po mti. encode_mti mti po" decode_mti mti_ok "\<lambda>_ mti. mti"
  by unfold_locales (auto simp: encode_mti_ok decode_mti_mid)

section \<open>Bitmap\<close>

lemma bitmap_bits_bit:
  "\<forall>d \<in> set ds. d \<le> 64 \<Longrightarrow>
   \<exists>n'. bitmap_bits n ds = Inr n' \<and> (\<forall>k. bit n' k \<longleftrightarrow> bit n k \<or> (\<exists>d \<in> set ds. k = nat (64 - d)))"
proof (induction ds arbitrary: n)
  case Nil
  then show ?case by simp
next
  case (Cons d ds)
  have "bit (push_bit (nat (64 - d)) 1 :: nat) k \<longleftrightarrow> k = nat (64 - d)" for k
    by (auto simp: push_bit_of_1 bit_exp_iff possible_bit_def)
  with Cons show ?case by (fastforce simp: bit_or_iff)
qed

lemma less_pow2_bits: "\<forall>k. bit n k \<longrightarrow> k < w \<Longrightarrow> (n :: nat) < 2 ^ w"
proof -
  assume "\<forall>k. bit n k \<longrightarrow> k < w"
  then have "take_bit w n = n" by (auto intro!: bit_eqI simp: bit_take_bit_iff)
  then show ?thesis by (simp add: take_bit_nat_eq_self_iff)
qed

lemma bitmap_des_set:
  "set (bitmap_des n) = {d. 1 \<le> d \<and> d \<le> 64 \<and> bit n (nat (64 - d))}" (is "?l = ?r")
proof
  show "?l \<subseteq> ?r" by (auto simp: bitmap_des_def nat_diff_distrib)
  show "?r \<subseteq> ?l"
  proof
    fix d assume d: "d \<in> ?r"
    then have "d = int (nat (d - 1)) + 1" and "nat (d - 1) < 64" and "63 - nat (d - 1) = nat (64 - d)"
      by auto
    with d show "d \<in> ?l" unfolding bitmap_des_def by force
  qed
qed

lemma bitmap_des_sorted: "sorted (bitmap_des n) \<and> distinct (bitmap_des n)"
  unfolding bitmap_des_def
  by (auto simp: sorted_map distinct_map inj_on_def intro!: sorted_wrt_filter)

lemma unhex_hex_upper: "unhex (hex_upper bs) = from_be bs"
proof (induction bs rule: rev_induct)
  case Nil
  then show ?case by (simp add: unhex_def)
next
  case (snoc b bs)
  have "16 * (unat b div 16) + unat b mod 16 = unat b" by simp
  then show ?case using snoc.IH by (simp add: unhex_def hex_byte_def less_mult_imp_div_less)
qed

definition bitmap_ok :: "opts \<Rightarrow> int list \<Rightarrow> bool" where
  "bitmap_ok po ds \<longleftrightarrow> (\<forall>d \<in> set ds. 1 \<le> d \<and> d \<le> 64)"

definition bitmap_hex :: "int list \<Rightarrow> ustr" where
  "bitmap_hex ds = (case bitmap_bits 0 ds of Inl _ \<Rightarrow> [] | Inr n \<Rightarrow> hex_upper (be_bytes 8 n))"

lemma bitmap_bits_ok:
  assumes "\<forall>d \<in> set ds. 1 \<le> d \<and> d \<le> 64"
  shows "\<exists>n. bitmap_bits 0 ds = Inr n \<and> n < 2 ^ 64 \<and> bitmap_des n = sort (remdups ds)"
proof -
  obtain n where n: "bitmap_bits 0 ds = Inr n"
    and bits: "\<And>k. bit n k \<longleftrightarrow> (\<exists>d \<in> set ds. k = nat (64 - d))"
    using bitmap_bits_bit [of ds 0] assms by auto
  have "n < 2 ^ 64" using assms by (intro less_pow2_bits) (auto simp: bits)
  moreover have "set (bitmap_des n) = set ds"
  proof -
    have "nat (64 - d) = nat (64 - e) \<longleftrightarrow> d = e" if "d \<le> 64" "e \<le> 64" for d e :: int
      using that by auto
    then show ?thesis using assms by (fastforce simp: bitmap_des_set bits)
  qed
  then have "bitmap_des n = sort (remdups ds)"
    using bitmap_des_sorted [of n] by (intro sorted_distinct_set_unique) auto
  ultimately show ?thesis using n by blast
qed

lemma encode_bitmap_ok: "bitmap_ok po ds \<Longrightarrow> \<exists>bs. encode_bitmap ds po = Inr bs"
  using bitmap_bits_ok [of ds] text_ok_upper_hex [of "hex_upper (be_bytes 8 _)" "o_bitmap po"]
  by (fastforce simp: bitmap_ok_def encode_bitmap_def Let_def hex_upper_is_upper elim!: text_okE)

lemma decode_bitmap_mid:
  assumes ok: "bitmap_ok po ds" and enc: "encode_bitmap ds po = Inr bs"
  shows "decode_bitmap (pre @ bs @ post) (length pre) po =
    Inr (sort (remdups ds), length pre + length bs, bitmap_hex ds)"
proof -
  obtain n where n: "bitmap_bits 0 ds = Inr n" "n < 2 ^ 64" "bitmap_des n = sort (remdups ds)"
    using ok bitmap_bits_ok by (auto simp: bitmap_ok_def)
  have "from_be (be_bytes 8 n) = n" using n(2) by (intro from_be_be_bytes) simp
  then have un: "bitmap_des (unhex (hex_upper (be_bytes 8 n))) = sort (remdups ds)"
    using n(3) by (simp add: unhex_hex_upper)
  show ?thesis
  proof (cases "o_bitmap po = Binary")
    case True
    then have "bs = be_bytes 8 n" using enc n by (simp add: encode_bitmap_def)
    then show ?thesis using True un n(1)
      by (simp add: decode_bitmap_def take_bytes_mid bitmap_hex_def)
  next
    case False
    then have t: "text_encode (o_bitmap po) (hex_upper (be_bytes 8 n)) = Inr bs"
      using enc n by (simp add: encode_bitmap_def)
    then have "length bs = 16" using text_length by simp
    moreover have "list_all is_upper_hex (hex_upper (be_bytes 8 n))"
      by (auto simp: list_all_iff hex_upper_is_upper)
    moreover have "py_upper (hex_upper (be_bytes 8 n)) = hex_upper (be_bytes 8 n)"
      by (simp add: py_upper_upper_hex hex_upper_is_upper)
    ultimately show ?thesis using False t un n(1)
      by (simp add: decode_bitmap_def take_bytes_mid text_inverse bitmap_hex_def)
  qed
qed

interpretation bitmap_wire: wire_format
  "\<lambda>po ds. encode_bitmap ds po"
  "\<lambda>data pos po. rbind (decode_bitmap data pos po) (\<lambda>(ds, pos, hexstr). Inr ((ds, hexstr), pos))"
  bitmap_ok "\<lambda>_ ds. (sort (remdups ds), bitmap_hex ds)"
  by unfold_locales (auto simp: encode_bitmap_ok decode_bitmap_mid)

section \<open>Length indicator\<close>

definition indicator_capacity :: "fopts \<Rightarrow> nat \<Rightarrow> nat" where
  "indicator_capacity fo width =
     (if o_length fo = Binary then 256 ^ (if width \<le> 2 then 1 else 2) else 10 ^ width)"

definition length_ok :: "nat \<times> fopts \<Rightarrow> nat \<Rightarrow> bool" where
  "length_ok k n \<longleftrightarrow> 0 < fst k \<and> n < indicator_capacity (snd k) (fst k)"

lemma zfill_dec_hex: "\<forall>c \<in> set (zfill w (dec n)). is_upper_hex c"
  by (auto dest: zfill_is_dec is_dec_upper_hex)

lemma bcd_encode_left:
  assumes "\<forall>c \<in> set s. is_upper_hex c"
  shows "\<exists>bs. bcd_encode s PadLeft (u ''0'') = Inr bs \<and> length bs = (length s + 1) div 2 \<and>
    hex_upper bs = (if odd (length s) then 48 # s else s)"
proof -
  define ds where "ds = (if odd (length s) then 48 # s else s)"
  have "even (length ds)" "\<forall>c \<in> set ds. is_upper_hex c"
    using assms by (auto simp: ds_def is_upper_hex_def)
  then obtain bs where bs: "fromhex ds = Some bs" "hex_upper bs = ds" "2 * length bs = length ds"
    using fromhex_upper_hex by blast
  have "length bs = (length s + 1) div 2" using bs(3) by (auto simp: ds_def split: if_splits)
  then show ?thesis using bs
    by (cases "odd (length s)") (auto simp: bcd_encode_def Let_def ds_def u_def)
qed

lemma last_n_padded: "s \<noteq> [] \<Longrightarrow> last_n (length s) (if b then c # s else s) = s"
  by (simp add: last_n_def)

lemma encode_length_ok: "length_ok (width, fo) n \<Longrightarrow> \<exists>bs. encode_length n width fo = Inr bs"
  using bcd_encode_left [OF zfill_dec_hex, of width n]
    text_ok_upper_hex [OF zfill_dec_hex, of "o_length fo" width n]
  by (cases "o_length fo = Binary")
    (auto simp: length_ok_def indicator_capacity_def encode_length_def power_mult elim!: text_okE
      split: if_splits)

lemma decode_length_mid:
  assumes ok: "length_ok (width, fo) n" and enc: "encode_length n width fo = Inr bs"
  shows "decode_length (pre @ bs @ post) (length pre) width fo = Inr (n, length pre + length bs)"
proof (cases "o_length fo = Binary")
  case True
  define k :: nat where "k = (if width \<le> 2 then 1 else 2)"
  have "n < 256 ^ k" using ok True by (simp add: length_ok_def indicator_capacity_def k_def)
  moreover from this have "bs = be_bytes k n"
    using enc True by (auto simp: encode_length_def k_def split: if_splits)
  ultimately show ?thesis using True
    by (simp add: decode_length_def flip: k_def) (simp add: take_bytes_mid from_be_be_bytes)
next
  case False
  define s where "s = zfill width (dec n)"
  have s: "length s = width" "s \<noteq> []" "\<forall>c \<in> set s. is_dec c" "undec s = n"
    using ok False zfill_is_dec undec_zfill_dec length_zfill_dec
    by (auto simp: s_def length_ok_def indicator_capacity_def zfill_def)
  have digits: "py_isdigit s" "py_int s = Inr n"
    using s by (simp_all add: py_isdigit_dec py_int_dec)
  show ?thesis
  proof (cases "o_length fo = Bcd")
    case True
    then have b: "bcd_encode s PadLeft (u ''0'') = Inr bs"
      using enc by (simp add: encode_length_def s_def)
    then have "length bs = (width + 1) div 2"
      "hex_upper bs = (if odd (length s) then 48 # s else s)"
      using bcd_encode_left [of s] s is_dec_upper_hex by auto
    then show ?thesis using True s digits last_n_padded [of s "odd (length s)" 48]
      by (simp add: decode_length_def take_bytes_mid)
  next
    case notbcd: False
    then have t: "text_encode (o_length fo) s = Inr bs"
      using enc False by (simp add: encode_length_def s_def)
    then have "length bs = width" using text_length s(1) by simp
    then show ?thesis using False notbcd t digits
      by (simp add: decode_length_def take_bytes_mid text_inverse)
  qed
qed

interpretation length_wire: wire_format
  "\<lambda>k n. encode_length n (fst k) (snd k)"
  "\<lambda>data pos k. decode_length data pos (fst k) (snd k)" length_ok "\<lambda>_ n. n"
  by unfold_locales (auto simp: encode_length_ok decode_length_mid)

section \<open>Field values\<close>

text \<open>
  A value is canonical for a specification when the field's class can carry it and prints it the
  same way, and it fits when its length is the fixed one or the indicator can count it.
\<close>

definition nibbles_ok :: "fopts \<Rightarrow> ustr \<Rightarrow> bool" where
  "nibbles_ok fo s \<longleftrightarrow>
     (case pad fo of
        Inl _ \<Rightarrow> False
      | Inr (_, nibble) \<Rightarrow> (\<forall>c \<in> set s. is_upper_hex c) \<and>
          (odd (length s) \<longrightarrow> (\<forall>c \<in> set nibble. is_upper_hex c)))"

definition value_ok :: "fspec \<Rightarrow> fopts \<Rightarrow> ustr \<Rightarrow> bool" where
  "value_ok spec fo val \<longleftrightarrow>
     (let typ = py_lower (s_type spec) in
      if typ = ''b'' then
        (if o_binary fo = Raw then even (length val) \<and> (\<forall>c \<in> set val. is_upper_hex c)
         else \<forall>c \<in> set val. c < 128)
      else if typ = ''n'' then
        (if o_numeric fo = Bcd then nibbles_ok fo val else text_ok (o_numeric fo) val)
      else if typ = ''z'' \<and> z_is_bcd spec then
        nibbles_ok fo (track_nibbles val) \<and>
        track_text (u (or_default ''D'' (f_separator fo))) (track_nibbles val) = val
      else text_ok (o_text fo) val)"

definition value_units :: "fspec \<Rightarrow> fopts \<Rightarrow> ustr \<Rightarrow> nat" where
  "value_units spec fo val =
     (if py_lower (s_type spec) = ''b'' \<and> o_binary fo = Raw then length val div 2 else length val)"

definition value_fits :: "fspec \<Rightarrow> fopts \<Rightarrow> ustr \<Rightarrow> bool" where
  "value_fits spec fo val \<longleftrightarrow>
     (if s_len_type spec = ''fixed'' then s_length spec = int (length val)
      else length_ok (len_width (s_len_type spec), fo) (value_units spec fo val))"

lemma nibbles_okE:
  assumes "nibbles_ok fo s"
  obtains side nibble bs where "pad fo = Inr (side, nibble)" "bcd_encode s side nibble = Inr bs"
    "2 * length bs = length s + length s mod 2" "bcd_decode bs (int (length s)) side = s"
proof -
  obtain side nibble where p: "pad fo = Inr (side, nibble)" "\<forall>c \<in> set s. is_upper_hex c"
      "odd (length s) \<longrightarrow> (\<forall>c \<in> set nibble. is_upper_hex c)"
    using assms by (auto simp: nibbles_ok_def split: sum.splits)
  moreover have "\<exists>n. nibble = [n]" using pad_length [OF p(1)] by (simp add: length_Suc_conv)
  ultimately obtain bs where "bcd_encode s side nibble = Inr bs"
      "2 * length bs = length s + length s mod 2" "bcd_decode bs (int (length s)) side = s"
    using bcd_inverse [of s nibble side] by auto
  with p(1) show thesis by (rule that)
qed

lemma length_track_nibbles:
  "\<forall>c \<in> set (track_nibbles s). is_upper_hex c \<Longrightarrow> length (track_nibbles s) = length s"
proof (induction s)
  case Nil
  then show ?case by (simp add: track_nibbles_def)
next
  case (Cons c s)
  have "track_nibbles (c # s) = upper_char (if c = 61 then 68 else c) @ track_nibbles s"
    by (simp add: track_nibbles_def py_upper_def)
  moreover from this Cons.prems have "\<forall>x \<in> set (upper_char (if c = 61 then 68 else c)). is_upper_hex x"
    by simp
  then have "length (upper_char (if c = 61 then 68 else c)) = 1"
    by (auto simp: upper_char_def is_upper_hex_def split: if_splits)
  ultimately show ?case using Cons by simp
qed

text \<open>Reading a packed field of \<open>n\<close> nibbles from the bytes that hold them.\<close>

lemma packed_count: "2 * length bs = n + n mod 2 \<Longrightarrow> (int n + 1) div 2 = int (length bs)"
  by presburger

definition decode_units :: "fspec \<Rightarrow> fopts \<Rightarrow> ustr \<Rightarrow> int" where
  "decode_units spec fo val =
     int (if s_len_type spec = ''fixed'' then length val else value_units spec fo val)"

lemma value_wire:
  assumes ok: "value_ok spec fo val"
  shows "\<exists>bs. encode_value val spec fo = Inr (bs, value_units spec fo val) \<and>
    (\<forall>pre post. decode_body (pre @ bs @ post) (length pre) (decode_units spec fo val) spec fo =
       Inr (val, length pre + length bs))"
proof -
  define cls where "cls = py_lower (s_type spec)"
  have textual: ?thesis
    if m: "text_ok m val" and "value_units spec fo val = length val"
      and "encode_value val spec fo = rbind (text_encode m val) (\<lambda>bs. Inr (bs, length val))"
      and "\<And>data pos count. decode_body data pos count spec fo =
        rbind (take_bytes data pos count) (\<lambda>raw. Inr (text_decode m raw, pos + nat count))" for m
  proof -
    obtain bs where bs: "text_encode m val = Inr bs" "length bs = length val"
      using m by (auto elim!: text_okE dest: text_length)
    then show ?thesis using that
      by (simp add: decode_units_def take_bytes_mid text_inverse)
  qed
  consider (raw) "cls = ''b''" "o_binary fo = Raw" | (hexb) "cls = ''b''" "o_binary fo \<noteq> Raw"
    | (bcd) "cls = ''n''" "o_numeric fo = Bcd" | (num) "cls = ''n''" "o_numeric fo \<noteq> Bcd"
    | (track) "cls = ''z''" "z_is_bcd spec" | (plain)
      "cls \<noteq> ''b''" "cls \<noteq> ''n''" "\<not> (cls = ''z'' \<and> z_is_bcd spec)"
    by blast
  then show ?thesis
  proof cases
    case raw
    then obtain bs where "fromhex val = Some bs" "hex_upper bs = val" "2 * length bs = length val"
      using ok fromhex_upper_hex [of val] by (auto simp: value_ok_def cls_def)
    then show ?thesis using raw
      by (auto simp: encode_value_def value_units_def decode_body_def decode_units_def cls_def
          take_bytes_mid intro!: exI [of _ bs])
  next
    case hexb
    then show ?thesis using ok
      by (intro textual [of Ascii])
        (simp_all add: value_ok_def value_units_def encode_value_def decode_body_def cls_def
          text_ok_ascii text_encode_def)
  next
    case num
    then show ?thesis using ok
      by (intro textual [of "o_numeric fo"])
        (simp_all add: value_ok_def value_units_def encode_value_def decode_body_def cls_def)
  next
    case plain
    then show ?thesis using ok
      by (intro textual [of "o_text fo"])
        (auto simp: value_ok_def value_units_def encode_value_def decode_body_def cls_def Let_def)
  next
    case bcd
    then have "nibbles_ok fo val" using ok by (simp add: value_ok_def cls_def)
    then obtain side nibble bs where p: "pad fo = Inr (side, nibble)"
        "bcd_encode val side nibble = Inr bs" "2 * length bs = length val + length val mod 2"
        "bcd_decode bs (int (length val)) side = val"
      by (rule nibbles_okE)
    then show ?thesis using bcd packed_count [OF p(3)]
      by (simp add: encode_value_def value_units_def decode_body_def decode_units_def cls_def
          take_bytes_mid)
  next
    case track
    then have nib: "nibbles_ok fo (track_nibbles val)"
      and orig: "track_text (u (or_default ''D'' (f_separator fo))) (track_nibbles val) = val"
      using ok by (simp_all add: value_ok_def cls_def)
    have len: "length (track_nibbles val) = length val"
      using nib by (intro length_track_nibbles) (auto simp: nibbles_ok_def split: sum.splits)
    from nib obtain side nibble bs where p: "pad fo = Inr (side, nibble)"
        "bcd_encode (track_nibbles val) side nibble = Inr bs"
        "2 * length bs = length val + length val mod 2"
        "bcd_decode bs (int (length val)) side = track_nibbles val"
      unfolding len [symmetric] by (rule nibbles_okE)
    then show ?thesis using track packed_count [OF p(3)] orig
      by (simp add: encode_value_def value_units_def decode_body_def decode_units_def cls_def
          take_bytes_mid)
  qed
qed


section \<open>Counts beyond the indicator\<close>

lemma undec_less: "\<forall>c \<in> set s. is_dec c \<Longrightarrow> undec s < 10 ^ length s"
proof (induction s rule: rev_induct)
  case Nil
  then show ?case by (simp add: undec_def)
next
  case (snoc c s)
  then have "undec s + 1 \<le> 10 ^ length s" "c - 48 \<le> 9" by (auto simp: is_dec_def)
  then have "10 * undec s + (c - 48) < 10 * 10 ^ length s" by linarith
  then show ?case by (simp add: undec_append)
qed

lemma encode_length_binary_overflow:
  "o_length fo = Binary \<Longrightarrow> indicator_capacity fo w \<le> n \<Longrightarrow> encode_length n w fo = Inl ValueError"
  by (simp add: encode_length_def indicator_capacity_def Let_def power_mult split: if_splits)

text \<open>The text indicators do not refuse a count that needs more digits: they write them all, and
  the decoder reads the first \<open>w\<close> of them as the count.\<close>

lemma encode_length_text_overflow:
  assumes mode: "o_length fo = Ascii \<or> o_length fo = Ebcdic" and w: "0 < w" and n: "10 ^ w \<le> n"
  shows "\<exists>bs m. encode_length n w fo = Inr bs \<and> w < length bs \<and> m < 10 ^ w \<and>
    (\<forall>post. decode_length (bs @ post) 0 w fo = Inr (m, w))"
proof -
  define s where "s = zfill w (dec n)"
  have dec: "\<forall>c \<in> set s. is_dec c" using zfill_is_dec by (auto simp: s_def)
  have long: "w < length s"
    using length_dec_le [of n w] n by (auto simp: s_def zfill_def)
  obtain bs where bs: "text_encode (o_length fo) s = Inr bs"
    using dec is_dec_upper_hex text_ok_upper_hex [of s "o_length fo"] by (auto elim: text_okE)
  then have len: "length bs = length s" by (rule text_length)
  have "text_decode (o_length fo) (take w bs) = take w s"
    using text_inverse [OF bs] by (auto simp: text_decode_def cp037_decode_def ascii_decode_def take_map)
  moreover have "take w s \<noteq> []" "\<forall>c \<in> set (take w s). is_dec c"
    using w long dec by (auto dest: in_set_takeD)
  ultimately have read: "decode_length (bs @ post) 0 w fo = Inr (undec (take w s), w)" for post
    using mode len long
    by (auto simp: decode_length_def take_bytes_def py_isdigit_dec py_int_dec)
  have "undec (take w s) < 10 ^ w"
    using undec_less [of "take w s"] \<open>\<forall>c \<in> set (take w s). is_dec c\<close> long by (simp add: min_def)
  moreover have "encode_length n w fo = Inr bs" using mode bs by (auto simp: encode_length_def s_def)
  ultimately show ?thesis using long len read by auto
qed

end
