(* ===== verification/Iso_Message.thy ===== *)
theory Iso_Message
  imports Iso_Wire
begin

text \<open>
  Whole messages: what \<open>pack\<close> writes \<open>unpack\<close> reads back, under any profile and any per-field
  override, and whatever follows on the wire is reported as trailing bytes; what the two do on
  input they cannot handle.
\<close>

section \<open>One data element\<close>

definition encode_de :: "fspec \<times> opts \<Rightarrow> ustr \<Rightarrow> byte list result" where
  "encode_de k val = rbind (field_options (fst k) (snd k)) (\<lambda>fo. pack_de (fst k) fo val)"

definition decode_de :: "byte list \<Rightarrow> nat \<Rightarrow> fspec \<times> opts \<Rightarrow> (ustr \<times> nat) result" where
  "decode_de data pos k =
     rbind (field_options (fst k) (snd k)) (\<lambda>fo. decode_value data pos (fst k) fo)"

definition de_ok :: "fspec \<times> opts \<Rightarrow> ustr \<Rightarrow> bool" where
  "de_ok k val \<longleftrightarrow>
     (case field_options (fst k) (snd k) of
        Inl _ \<Rightarrow> False
      | Inr fo \<Rightarrow> value_ok (fst k) fo val \<and> value_fits (fst k) fo val)"

lemma pack_de_reads_back:
  assumes val: "value_ok spec fo val" and fits: "value_fits spec fo val"
  shows "\<exists>bs. pack_de spec fo val = Inr bs \<and>
    (\<forall>pre post. decode_value (pre @ bs @ post) (length pre) spec fo =
       Inr (val, length pre + length bs))"
proof -
  obtain body where body: "encode_value val spec fo = Inr (body, value_units spec fo val)"
    "\<And>pre post. decode_body (pre @ body @ post) (length pre) (decode_units spec fo val) spec fo =
       Inr (val, length pre + length body)"
    using value_wire [OF val] by blast
  show ?thesis
  proof (cases "s_len_type spec = ''fixed''")
    case True
    then show ?thesis using body fits
      by (simp add: pack_de_def decode_value_def value_fits_def decode_units_def)
  next
    case False
    define w where "w = len_width (s_len_type spec)"
    have "length_ok (w, fo) (value_units spec fo val)" using fits False
      by (simp add: value_fits_def w_def)
    then obtain l where l: "encode_length (value_units spec fo val) w fo = Inr l"
      "\<And>pre post. decode_length (pre @ l @ post) (length pre) w fo =
         Inr (value_units spec fo val, length pre + length l)"
      using length_wire.reads_back by fastforce
    have "decode_value (pre @ (l @ body) @ post) (length pre) spec fo =
        Inr (val, length pre + length (l @ body))" for pre post
      using False l(2) [of pre "body @ post"] body(2) [of "pre @ l" post]
      by (simp add: decode_value_def decode_units_def flip: w_def)
    then show ?thesis using False body(1) l(1) by (auto simp: pack_de_def w_def)
  qed
qed

interpretation de_wire: wire_format encode_de decode_de de_ok "\<lambda>_ val. val"
proof unfold_locales
  fix k :: "fspec \<times> opts" and val
  assume "de_ok k val"
  then obtain fo where fo: "field_options (fst k) (snd k) = Inr fo"
    "value_ok (fst k) fo val" "value_fits (fst k) fo val"
    by (auto simp: de_ok_def split: sum.splits)
  then obtain bs where bs: "pack_de (fst k) fo val = Inr bs"
    "\<And>pre post. decode_value (pre @ bs @ post) (length pre) (fst k) fo =
       Inr (val, length pre + length bs)"
    using pack_de_reads_back by blast
  then show "\<exists>bs. encode_de k val = Inr bs" using fo by (simp add: encode_de_def)
  fix bs' pre post
  assume "encode_de k val = Inr bs'"
  then have "bs' = bs" using fo bs by (simp add: encode_de_def)
  then show "decode_de (pre @ bs' @ post) (length pre) k = Inr (val, length pre + length bs')"
    using fo bs by (simp add: decode_de_def)
qed

section \<open>The loop over the data elements\<close>

definition des_ok :: "ftable \<Rightarrow> opts \<Rightarrow> de_values \<Rightarrow> int list \<Rightarrow> bool" where
  "des_ok tbl po vs ds \<longleftrightarrow>
     (\<forall>d \<in> set ds. case map_of tbl d of
        None \<Rightarrow> False
      | Some spec \<Rightarrow> de_ok (spec, po) (or_default [] (map_of vs d)))"

definition entry_of :: "ftable \<Rightarrow> de_values \<Rightarrow> int \<Rightarrow> int \<times> entry" where
  "entry_of tbl vs d =
     (d, \<lparr>e_name = (case map_of tbl d of None \<Rightarrow> '''' | Some spec \<Rightarrow> s_name spec),
          e_value = or_default [] (map_of vs d), e_error = None\<rparr>)"

lemma fields_read_back:
  "des_ok tbl po vs ds \<Longrightarrow>
   \<exists>bs. pack_fields tbl po vs ds = Inr bs \<and>
     (\<forall>pre post. unpack_fields (pre @ bs @ post) tbl po strict ds (length pre) =
        Inr (map (entry_of tbl vs) ds, None, length pre + length bs))"
proof (induction ds)
  case Nil
  then show ?case by simp
next
  case (Cons d ds)
  define val where "val = or_default [] (map_of vs d)"
  obtain spec where spec: "map_of tbl d = Some spec" and ok: "de_ok (spec, po) val"
    using Cons.prems by (auto simp: des_ok_def val_def split: option.splits)
  obtain bs where bs: "encode_de (spec, po) val = Inr bs"
    "\<And>pre post. decode_de (pre @ bs @ post) (length pre) (spec, po) = Inr (val, length pre + length bs)"
    using de_wire.reads_back [OF ok] by blast
  obtain rest where rest: "pack_fields tbl po vs ds = Inr rest"
    "\<And>pre post. unpack_fields (pre @ rest @ post) tbl po strict ds (length pre) =
       Inr (map (entry_of tbl vs) ds, None, length pre + length rest)"
    using Cons.IH Cons.prems by (auto simp: des_ok_def)
  obtain fo where fo: "field_options spec po = Inr fo" "pack_de spec fo val = Inr bs"
    using bs(1) by (auto simp: encode_de_def result_iff)
  have reads: "unpack_fields (pre @ (bs @ rest) @ post) tbl po strict (d # ds) (length pre) =
      Inr (map (entry_of tbl vs) (d # ds), None, length pre + length (bs @ rest))" for pre post
    using bs(2) [of pre "rest @ post"] rest(2) [of "pre @ bs" post] spec
    by (simp add: decode_de_def entry_of_def val_def)
  have "pack_fields tbl po vs (d # ds) = Inr (bs @ rest)"
    using spec fo rest(1) by (simp add: val_def)
  then show ?case using reads by (intro exI [of _ "bs @ rest"] conjI allI)
qed

section \<open>Messages\<close>

definition message_ok :: "ftable \<Rightarrow> opts \<Rightarrow> ustr \<Rightarrow> de_values \<Rightarrow> bool" where
  "message_ok tbl po mti vs \<longleftrightarrow>
     mti_ok po mti \<and> distinct (map fst vs) \<and>
     (\<forall>d \<in> fst ` set vs. 2 \<le> d \<and> d \<le> 128) \<and> des_ok tbl po vs (map fst vs)"

text \<open>The bitmaps announce exactly the data elements of the message.\<close>

lemma bitmaps_read_back:
  fixes vs :: de_values
  defines "des \<equiv> sort (map fst vs)"
  defines "sec \<equiv> \<exists>d \<in> set des. 64 < d"
  defines "prim \<equiv> if sec then List.insert 1 (filter (\<lambda>d. d \<le> 64) des) else filter (\<lambda>d. d \<le> 64) des"
  defines "second \<equiv> map (\<lambda>d. d - 64) (filter (\<lambda>d. 64 < d) des)"
  assumes dist: "distinct (map fst vs)" and range: "\<forall>d \<in> fst ` set vs. 2 \<le> d \<and> d \<le> 128"
  shows "bitmap_ok po prim" and "bitmap_ok po second"
    and "1 \<in> set (sort (remdups prim)) \<longleftrightarrow> sec"
    and "sec \<Longrightarrow> sort (removeAll 1 (sort (remdups prim)) @ map (\<lambda>b. b + 64) (sort (remdups second))) = des"
    and "\<not> sec \<Longrightarrow> sort (sort (remdups prim)) = des"
proof -
  have set_des: "set des = fst ` set vs" by (simp add: des_def)
  have d: "distinct des" "sorted des" using dist by (simp_all add: des_def)
  show "bitmap_ok po prim" using range by (auto simp: bitmap_ok_def prim_def set_des)
  show "bitmap_ok po second" using range by (auto simp: bitmap_ok_def second_def set_des)
  show "1 \<in> set (sort (remdups prim)) \<longleftrightarrow> sec" using range by (auto simp: prim_def set_des)
  show "sort (removeAll 1 (sort (remdups prim)) @ map (\<lambda>b. b + 64) (sort (remdups second))) = des"
    if sec
  proof (rule sort_distinct_eqI)
    have "distinct (map (\<lambda>b. b + 64) (sort (remdups second)))"
      by (simp add: distinct_map inj_on_def)
    then show "distinct (removeAll 1 (sort (remdups prim)) @ map (\<lambda>b. b + 64) (sort (remdups second)))"
      using that range by (auto simp: prim_def second_def set_des distinct_removeAll)
    show "set des = set (removeAll 1 (sort (remdups prim)) @ map (\<lambda>b. b + 64) (sort (remdups second)))"
      using that range by (force simp: prim_def second_def set_des)
  qed (use d in auto)
  show "sort (sort (remdups prim)) = des" if "\<not> sec"
    using that d by (intro sort_distinct_eqI) (auto simp: prim_def sec_def)
qed

text \<open>What the result of \<open>unpack\<close> says of a message that was packed from \<open>mti\<close> and \<open>vs\<close>.\<close>

definition shows_message :: "ftable \<Rightarrow> ustr \<Rightarrow> de_values \<Rightarrow> byte list \<Rightarrow> unpacked \<Rightarrow> bool" where
  "shows_message tbl mti vs post r \<longleftrightarrow>
     r_mti r = mti \<and> r_de_list r = sort (map fst vs) \<and>
     r_fields r = map (entry_of tbl vs) (sort (map fst vs)) \<and>
     r_error r = None \<and> \<not> r_truncated r \<and>
     r_trailing r = (if post = [] then None else Some post)"

lemma pack_unpack:
  assumes enc: "resolve_encoding enc = Inr po" and ok: "message_ok tbl po mti vs"
  shows "\<exists>wire. pack mti vs tbl enc = Inr wire \<and>
    (\<forall>post. \<exists>r. unpack (wire @ post) tbl enc strict = Inr r \<and> shows_message tbl mti vs post r)"
proof -
  define des where "des = sort (map fst vs)"
  define sec where "sec = (\<exists>d \<in> set des. 64 < d)"
  define prim where "prim =
    (if sec then List.insert 1 (filter (\<lambda>d. d \<le> 64) des) else filter (\<lambda>d. d \<le> 64) des)"
  define second where "second = map (\<lambda>d. d - 64) (filter (\<lambda>d. 64 < d) des)"
  note defs = des_def sec_def prim_def second_def
  have vs: "distinct (map fst vs)" "\<forall>d \<in> fst ` set vs. 2 \<le> d \<and> d \<le> 128"
    and mti: "mti_ok po mti" and "des_ok tbl po vs des"
    using ok by (simp_all add: message_ok_def des_ok_def des_def)
  note maps = bitmaps_read_back [OF vs, folded des_def, folded sec_def, folded prim_def second_def]
  obtain m where m: "encode_mti mti po = Inr m"
    "\<And>pre post. decode_mti (pre @ m @ post) (length pre) po = Inr (mti, length pre + length m)"
    using mti_wire.reads_back [OF mti] by blast
  obtain b1 where b1: "encode_bitmap prim po = Inr b1"
    using bitmap_wire.encodes maps(1) by blast
  note b1d = decode_bitmap_mid [OF maps(1) b1]
  obtain b2 where b2: "encode_bitmap second po = Inr b2"
    using bitmap_wire.encodes maps(2) by blast
  note b2d = decode_bitmap_mid [OF maps(2) b2]
  obtain body where body: "pack_fields tbl po vs des = Inr body"
    "\<And>pre post. unpack_fields (pre @ body @ post) tbl po strict des (length pre) =
       Inr (map (entry_of tbl vs) des, None, length pre + length body)"
    using fields_read_back [OF \<open>des_ok tbl po vs des\<close>] by blast
  define s where "s = (if sec then b2 else [])"
  define wire where "wire = m @ b1 @ s @ body"
  have "pack mti vs tbl enc = Inr wire"
    using enc m(1) b1 b2 body(1) sec_def
    by (cases sec) (simp_all add: pack_def Let_def wire_def s_def prim_def second_def flip: des_def)
  moreover have "\<exists>r. unpack (wire @ post) tbl enc strict = Inr r \<and> shows_message tbl mti vs post r" for post
    using enc m(2) [of "[]" "b1 @ s @ body @ post"] b1d [of m "s @ body @ post"]
      b2d [of "m @ b1" "body @ post"] body(2) [of "m @ b1 @ s" post] maps(3-5)
    by (cases sec; cases "post = []")
      (simp_all add: unpack_def wire_def s_def shows_message_def Let_def add.assoc flip: des_def)
  ultimately show ?thesis by blast
qed

end
