(* ===== verification/Iso_Errors.thy ===== *)
theory Iso_Errors
  imports Iso_Message
begin

text \<open>
  What the codec does with bytes that are not a message: which exceptions leave \<open>unpack\<close>, how the
  analysis mode (\<open>strict=False\<close>) reports them instead, and that no decoder reads past its data.
\<close>

section \<open>Errors of the decoders\<close>

lemma take_bytes_error: "take_bytes data pos n = Inl e \<Longrightarrow> e = DecodeError"
  by (simp add: take_bytes_def split: if_splits)

lemma pad_error: "pad fo = Inl e \<Longrightarrow> e = ValueError"
  by (auto simp: pad_def Let_def split: if_splits)

lemma py_int_error: "py_int s = Inl e \<Longrightarrow> e = ValueError"
  by (simp add: py_int_def split: if_splits)

lemma decode_mti_error: "decode_mti data pos po = Inl e \<Longrightarrow> e = DecodeError"
  by (auto simp: decode_mti_def result_iff split: if_splits dest: take_bytes_error)

lemma decode_bitmap_error: "decode_bitmap data pos po = Inl e \<Longrightarrow> e = DecodeError"
  by (auto simp: decode_bitmap_def result_iff Let_def split: if_splits dest: take_bytes_error)

lemma decode_length_error:
  "decode_length data pos width fo = Inl e \<Longrightarrow> e = DecodeError \<or> e = ValueError"
  by (auto simp: decode_length_def result_iff Let_def split: if_splits
      dest: take_bytes_error py_int_error)

lemma decode_body_error:
  "decode_body data pos count spec fo = Inl e \<Longrightarrow> e = DecodeError \<or> e = ValueError"
  by (auto simp: decode_body_def result_iff Let_def split: if_splits
      dest: take_bytes_error pad_error)

lemma decode_value_error:
  "decode_value data pos spec fo = Inl e \<Longrightarrow> e = DecodeError \<or> e = ValueError"
  by (auto simp: decode_value_def result_iff split: if_splits
      dest: decode_length_error decode_body_error)

lemma decode_de_error: "decode_de data pos k = Inl e \<Longrightarrow> is_value_error e"
  by (auto simp: decode_de_def result_iff dest: field_options_error decode_value_error)

section \<open>The two modes of the loop\<close>

lemma unpack_fields_strict_error:
  "unpack_fields data tbl po True des pos = Inl e \<Longrightarrow> e = DecodeError"
proof (induction des arbitrary: pos)
  case Nil
  then show ?case by simp
next
  case (Cons d des)
  then show ?case
    using decode_de_error [of data pos "(the (map_of tbl d), po)"]
    by (auto simp: result_iff decode_de_def split: option.splits sum.splits if_splits)
qed

lemma unpack_fields_analysis_total:
  "\<exists>es err p. unpack_fields data tbl po False des pos = Inr (es, err, p)"
proof (induction des arbitrary: pos)
  case Nil
  then show ?case by simp
next
  case (Cons d des)
  show ?case
  proof (cases "map_of tbl d")
    case None
    then show ?thesis by simp
  next
    case (Some spec)
    show ?thesis
    proof (cases "decode_de data pos (spec, po)")
      case (Inl e)
      then have "is_value_error e" by (rule decode_de_error)
      then show ?thesis using Some Inl by (simp add: decode_de_def)
    next
      case (Inr r)
      then show ?thesis using Some Cons.IH [of "snd r"] by (auto simp: decode_de_def split: prod.splits)
    qed
  qed
qed

lemma unpack_fields_strict_analysis:
  "unpack_fields data tbl po True des pos = Inr r \<Longrightarrow> unpack_fields data tbl po False des pos = Inr r"
proof (induction des arbitrary: pos r)
  case Nil
  then show ?case by simp
next
  case (Cons d des)
  then show ?case by (auto simp: result_iff split: option.splits sum.splits if_splits)
qed

text \<open>Which data element the analysis mode stops at, and what it has read by then.\<close>

lemma unpack_fields_stops:
  "unpack_fields data tbl po strict des pos = Inr (es, err, p) \<Longrightarrow>
   (err = None \<and> map fst es = des \<and> (\<forall>x \<in> set es. e_error (snd x) = None)) \<or>
   (\<exists>d why ds ds' e. err = Some (d, why) \<and> des = ds @ d # ds' \<and> map fst es = ds @ [d] \<and>
      (\<forall>x \<in> set (butlast es). e_error (snd x) = None) \<and> last es = (d, e) \<and> e_error e = Some why)"
proof (induction des arbitrary: pos es)
  case Nil
  then show ?case by simp
next
  case (Cons d des)
  show ?case
  proof (cases "map_of tbl d")
    case None
    then show ?thesis using Cons.prems by fastforce
  next
    case (Some spec)
    show ?thesis
    proof (cases "rbind (field_options spec po) (decode_value data pos spec)")
      case (Inl e)
      then show ?thesis using Cons.prems Some by (fastforce split: if_splits)
    next
      case (Inr r)
      obtain v pos' where r: "r = (v, pos')" by (cases r)
      obtain es' where es: "unpack_fields data tbl po strict des pos' = Inr (es', err, p)"
        "es = (d, \<lparr>e_name = s_name spec, e_value = v, e_error = None\<rparr>) # es'"
        using Cons.prems Some Inr r by (auto simp: result_iff)
      show ?thesis
      proof (cases err)
        case None
        then show ?thesis using Cons.IH [OF es(1)] es(2) by auto
      next
        case err: (Some x)
        then obtain d' why ds ds' e where s: "err = Some (d', why)" "des = ds @ d' # ds'"
          "map fst es' = ds @ [d']" "\<forall>x \<in> set (butlast es'). e_error (snd x) = None"
          "last es' = (d', e)" "e_error e = Some why"
          using Cons.IH [OF es(1)] by auto
        then have "es' \<noteq> []" by auto
        then show ?thesis using s es(2)
          by (intro disjI2 exI [of _ d'] exI [of _ why] exI [of _ "d # ds"] exI [of _ ds'] exI [of _ e])
            auto
      qed
    qed
  qed
qed

section \<open>Nothing is read past the data\<close>

lemma take_bytes_reads:
  "take_bytes data pos n = Inr raw \<Longrightarrow>
   0 \<le> n \<and> pos + nat n \<le> length data \<and> length raw = nat n \<and>
   (\<forall>post. take_bytes (data @ post) pos n = Inr raw)"
  by (auto simp: take_bytes_def split: if_splits)

lemma decode_mti_extend:
  "decode_mti data pos po = Inr (m, p) \<Longrightarrow>
   p \<le> length data \<and> decode_mti (data @ post) pos po = Inr (m, p)"
  by (auto simp: decode_mti_def result_iff dest!: take_bytes_reads split: if_splits)

lemma decode_bitmap_extend:
  "decode_bitmap data pos po = Inr (ds, p, h) \<Longrightarrow>
   p \<le> length data \<and> decode_bitmap (data @ post) pos po = Inr (ds, p, h)"
  by (auto simp: decode_bitmap_def result_iff Let_def dest!: take_bytes_reads
      split: if_splits)

lemma decode_length_extend:
  "decode_length data pos w fo = Inr (n, p) \<Longrightarrow>
   pos \<le> p \<and> p \<le> length data \<and> decode_length (data @ post) pos w fo = Inr (n, p)"
  by (auto simp: decode_length_def result_iff Let_def dest!: take_bytes_reads
      split: if_splits)

lemma decode_body_extend:
  "decode_body data pos count spec fo = Inr (v, p) \<Longrightarrow>
   pos \<le> p \<and> p \<le> length data \<and> decode_body (data @ post) pos count spec fo = Inr (v, p)"
  by (auto simp: decode_body_def result_iff Let_def dest!: take_bytes_reads
      split: if_splits)

lemma decode_value_extend:
  "decode_value data pos spec fo = Inr (v, p) \<Longrightarrow> pos \<le> length data \<Longrightarrow>
   pos \<le> p \<and> p \<le> length data \<and> decode_value (data @ post) pos spec fo = Inr (v, p)"
proof -
  assume dec: "decode_value data pos spec fo = Inr (v, p)" and pos: "pos \<le> length data"
  show ?thesis
  proof (cases "s_len_type spec = ''fixed''")
    case True
    then show ?thesis using dec decode_body_extend [of data pos "s_length spec" spec fo v p post]
      by (simp add: decode_value_def)
  next
    case False
    then obtain n q where n: "decode_length data pos (len_width (s_len_type spec)) fo = Inr (n, q)"
      and b: "decode_body data q (int n) spec fo = Inr (v, p)"
      using dec by (auto simp: decode_value_def result_iff)
    show ?thesis
      using False decode_length_extend [OF n, of post] decode_body_extend [OF b, of post]
      by (simp add: decode_value_def)
  qed
qed

text \<open>An accepted strict decoding of the fields is the same on a longer message.\<close>

lemma unpack_fields_extend:
  "unpack_fields data tbl po True des pos = Inr (es, None, p) \<Longrightarrow> pos \<le> length data \<Longrightarrow>
   p \<le> length data \<and> unpack_fields (data @ post) tbl po True des pos = Inr (es, None, p)"
proof (induction des arbitrary: pos es)
  case Nil
  then show ?case by simp
next
  case (Cons d des)
  obtain spec where spec: "map_of tbl d = Some spec"
    using Cons.prems by (auto split: option.splits)
  obtain fo v pos' where fo: "field_options spec po = Inr fo"
    and v: "decode_value data pos spec fo = Inr (v, pos')"
    using Cons.prems spec
    by (cases "rbind (field_options spec po) (decode_value data pos spec)")
      (auto simp: result_iff split: if_splits)
  obtain es' where es: "unpack_fields data tbl po True des pos' = Inr (es', None, p)"
      "es = (d, \<lparr>e_name = s_name spec, e_value = v, e_error = None\<rparr>) # es'"
    using Cons.prems(1) spec fo v by (auto simp: result_iff)
  note ext = decode_value_extend [OF v Cons.prems(2), of post]
  then show ?case using Cons.IH [OF es(1)] spec fo es(2) by simp
qed


section \<open>The header\<close>

text \<open>What \<open>unpack\<close> reads before the data elements, and the rest of it.\<close>

definition unpack_header ::
  "byte list \<Rightarrow> encoding \<Rightarrow> (opts \<times> ustr \<times> int list \<times> nat \<times> ustr \<times> ustr option) result" where
  "unpack_header data enc =
     rbind (resolve_encoding enc) (\<lambda>po.
     rbind (decode_mti data 0 po) (\<lambda>(mti, pos).
     rbind (decode_bitmap data pos po) (\<lambda>(present, pos, primary_hex).
     rbind (if 1 \<in> set present
            then rbind (decode_bitmap data pos po) (\<lambda>(more, pos, secondary_hex).
                   Inr (removeAll 1 present @ map (\<lambda>b. b + 64) more, pos, Some secondary_hex))
            else Inr (present, pos, None)) (\<lambda>(present, pos, secondary_hex).
     Inr (po, mti, sort present, pos, primary_hex, secondary_hex)))))"

definition unpack_result ::
  "byte list \<Rightarrow> ustr \<Rightarrow> int list \<Rightarrow> ustr \<Rightarrow> ustr option \<Rightarrow>
   (int \<times> entry) list \<times> (int \<times> de_error) option \<times> nat \<Rightarrow> unpacked" where
  "unpack_result data mti ds h1 h2 f =
     (case f of (parsed, err, pos) \<Rightarrow>
       \<lparr>r_mti = mti, r_de_list = ds, r_fields = parsed, r_primary = h1, r_secondary = h2,
        r_error = err, r_truncated = (err \<noteq> None),
        r_trailing = (if drop pos data = [] then None else Some (drop pos data))\<rparr>)"

lemma unpack_split:
  "unpack data tbl enc strict =
     rbind (unpack_header data enc) (\<lambda>(po, mti, ds, pos, h1, h2).
       rbind (unpack_fields data tbl po strict ds pos) (\<lambda>f. Inr (unpack_result data mti ds h1 h2 f)))"
  unfolding unpack_def unpack_header_def unpack_result_def
  by (simp add: rbind_assoc case_prod_unfold Let_def if_distrib [of "\<lambda>m. rbind m f" for f] cong: if_cong)


lemma unpack_header_error:
  "unpack_header data enc = Inl e \<Longrightarrow> resolve_encoding enc = Inr po \<Longrightarrow> e = DecodeError"
  by (auto simp: unpack_header_def result_iff split: if_splits
      dest: decode_mti_error decode_bitmap_error)

lemma unpack_header_extend:
  assumes h: "unpack_header data enc = Inr (po, mti, ds, pos, h1, h2)"
  shows "pos \<le> length data \<and> unpack_header (data @ post) enc = Inr (po, mti, ds, pos, h1, h2)"
proof -
  obtain p1 p2 present where enc: "resolve_encoding enc = Inr po"
    and m: "decode_mti data 0 po = Inr (mti, p1)"
    and b: "decode_bitmap data p1 po = Inr (present, p2, h1)"
    and rest: "1 \<notin> set present \<and> ds = sort present \<and> pos = p2 \<and> h2 = None \<or>
      (\<exists>more h. 1 \<in> set present \<and> decode_bitmap data p2 po = Inr (more, pos, h) \<and> h2 = Some h \<and>
         ds = sort (removeAll 1 present @ map (\<lambda>b. b + 64) more))"
    using h by (auto simp: unpack_header_def result_iff split: if_splits)
  note m2 = decode_mti_extend [OF m, of post]
  note b2 = decode_bitmap_extend [OF b, of post]
  from rest show ?thesis
  proof
    assume "1 \<notin> set present \<and> ds = sort present \<and> pos = p2 \<and> h2 = None"
    then show ?thesis using enc m2 b2 by (simp add: unpack_header_def)
  next
    assume "\<exists>more h. 1 \<in> set present \<and> decode_bitmap data p2 po = Inr (more, pos, h) \<and> h2 = Some h \<and>
         ds = sort (removeAll 1 present @ map (\<lambda>b. b + 64) more)"
    then show ?thesis using enc m2 b2 decode_bitmap_extend [of data p2 po _ pos _ post]
      by (auto simp: unpack_header_def)
  qed
qed

lemma unpack_strict_error:
  "unpack data tbl enc True = Inl e \<Longrightarrow> resolve_encoding enc = Inr po \<Longrightarrow> e = DecodeError"
  by (auto simp: unpack_split result_iff dest: unpack_header_error unpack_fields_strict_error)

lemma unpack_analysis_error:
  assumes "unpack data tbl enc False = Inl e"
  shows "unpack_header data enc = Inl e"
proof (cases "unpack_header data enc")
  case (Inl e')
  then show ?thesis using assms by (simp add: unpack_split)
next
  case (Inr h)
  obtain po mti ds pos h1 h2 where "h = (po, mti, ds, pos, h1, h2)" by (cases h)
  moreover obtain es err p where "unpack_fields data tbl po False ds pos = Inr (es, err, p)"
    using unpack_fields_analysis_total by blast
  ultimately show ?thesis using assms Inr by (simp add: unpack_split)
qed

lemma unpack_result_stops:
  "unpack data tbl enc strict = Inr r \<Longrightarrow>
   (r_error r = None \<and> \<not> r_truncated r \<and> map fst (r_fields r) = r_de_list r) \<or>
   (\<exists>d why before after e. r_error r = Some (d, why) \<and> r_truncated r \<and>
      r_de_list r = before @ d # after \<and> map fst (r_fields r) = before @ [d] \<and>
      last (r_fields r) = (d, e) \<and> e_error e = Some why)"
proof -
  assume "unpack data tbl enc strict = Inr r"
  then obtain po mti ds pos h1 h2 es err p where
    f: "unpack_fields data tbl po strict ds pos = Inr (es, err, p)"
    and r: "r = unpack_result data mti ds h1 h2 (es, err, p)"
    by (auto simp: unpack_split result_iff)
  show ?thesis using unpack_fields_stops [OF f] by (auto simp: r unpack_result_def)
qed

lemma unpack_extend:
  assumes r: "unpack data tbl enc True = Inr r" and err: "r_error r = None"
  shows "unpack (data @ post) tbl enc True =
    Inr (r\<lparr>r_trailing := (if or_default [] (r_trailing r) @ post = [] then None
                          else Some (or_default [] (r_trailing r) @ post))\<rparr>)"
proof -
  obtain po mti ds pos h1 h2 es p where
    h: "unpack_header data enc = Inr (po, mti, ds, pos, h1, h2)"
    and f: "unpack_fields data tbl po True ds pos = Inr (es, None, p)"
    and r: "r = unpack_result data mti ds h1 h2 (es, None, p)"
    using r err by (auto simp: unpack_split result_iff unpack_result_def)
  note h2 = unpack_header_extend [OF h, of post]
  note f2 = unpack_fields_extend [OF f, of post]
  show ?thesis using h2 f2 by (simp add: unpack_split r unpack_result_def)
qed

end
