(* ===== verification/Iso_Tables.thy ===== *)
theory Iso_Tables
  imports Iso_Codec
begin

text \<open>
  The field dictionaries of \<open>payprobe_common/iso8583/fields.py\<close> as data: ISO 8583:1987 (the table
  used when nothing binds a dialect), ISO 8583:1993 and the VISA Base I style table, and what every
  one of them satisfies. No entry of them carries an encoding override. The em dash in the name of
  DE 48 is written with two hyphens.
\<close>

section \<open>The dictionaries\<close>

definition de :: "string \<Rightarrow> string \<Rightarrow> int \<Rightarrow> string \<Rightarrow> fspec" where
  "de name len_type len cls =
     \<lparr>s_name = name, s_len_type = len_type, s_length = len, s_type = cls, s_encoding = None\<rparr>"

definition ISO8583_1987 :: ftable where
  "ISO8583_1987 =
    [(2, de ''Primary Account Number (PAN)'' ''llvar'' 19 ''n''),
     (3, de ''Processing Code'' ''fixed'' 6 ''n''),
     (4, de ''Amount, Transaction'' ''fixed'' 12 ''n''),
     (5, de ''Amount, Settlement'' ''fixed'' 12 ''n''),
     (6, de ''Amount, Cardholder Billing'' ''fixed'' 12 ''n''),
     (7, de ''Transmission Date & Time (MMDDhhmmss)'' ''fixed'' 10 ''n''),
     (9, de ''Conversion Rate, Settlement'' ''fixed'' 8 ''n''),
     (10, de ''Conversion Rate, Cardholder Billing'' ''fixed'' 8 ''n''),
     (11, de ''System Trace Audit Number (STAN)'' ''fixed'' 6 ''n''),
     (12, de ''Time, Local Transaction (hhmmss)'' ''fixed'' 6 ''n''),
     (13, de ''Date, Local Transaction (MMDD)'' ''fixed'' 4 ''n''),
     (14, de ''Date, Expiration (YYMM)'' ''fixed'' 4 ''n''),
     (15, de ''Date, Settlement (MMDD)'' ''fixed'' 4 ''n''),
     (18, de ''Merchant Type (MCC)'' ''fixed'' 4 ''n''),
     (19, de ''Acquiring Institution Country Code'' ''fixed'' 3 ''n''),
     (22, de ''POS Entry Mode'' ''fixed'' 3 ''n''),
     (23, de ''Card Sequence Number'' ''fixed'' 3 ''n''),
     (25, de ''POS Condition Code'' ''fixed'' 2 ''n''),
     (32, de ''Acquiring Institution ID Code'' ''llvar'' 11 ''n''),
     (33, de ''Forwarding Institution ID Code'' ''llvar'' 11 ''n''),
     (35, de ''Track 2 Data'' ''llvar'' 37 ''z''),
     (36, de ''Track 3 Data'' ''lllvar'' 104 ''z''),
     (37, de ''Retrieval Reference Number'' ''fixed'' 12 ''an''),
     (38, de ''Authorization ID Response'' ''fixed'' 6 ''an''),
     (39, de ''Response Code'' ''fixed'' 2 ''an''),
     (41, de ''Card Acceptor Terminal ID'' ''fixed'' 8 ''ans''),
     (42, de ''Card Acceptor ID Code'' ''fixed'' 15 ''ans''),
     (43, de ''Card Acceptor Name/Location'' ''fixed'' 40 ''ans''),
     (44, de ''Additional Response Data'' ''llvar'' 25 ''an''),
     (45, de ''Track 1 Data'' ''llvar'' 76 ''an''),
     (48, de ''Additional Data -- Private'' ''lllvar'' 999 ''ans''),
     (49, de ''Currency Code, Transaction'' ''fixed'' 3 ''n''),
     (50, de ''Currency Code, Settlement'' ''fixed'' 3 ''n''),
     (51, de ''Currency Code, Cardholder Billing'' ''fixed'' 3 ''n''),
     (52, de ''PIN Data'' ''fixed'' 16 ''b''),
     (53, de ''Security Related Control Information'' ''fixed'' 16 ''n''),
     (54, de ''Additional Amounts'' ''lllvar'' 120 ''an''),
     (55, de ''ICC Data (EMV)'' ''lllvar'' 999 ''b''),
     (60, de ''Reserved Private'' ''lllvar'' 999 ''ans''),
     (61, de ''Reserved Private'' ''lllvar'' 999 ''ans''),
     (62, de ''Reserved Private'' ''lllvar'' 999 ''ans''),
     (63, de ''Reserved Private'' ''lllvar'' 999 ''ans''),
     (64, de ''Message Authentication Code (MAC)'' ''fixed'' 16 ''b''),
     (70, de ''Network Management Information Code'' ''fixed'' 3 ''n''),
     (90, de ''Original Data Elements'' ''fixed'' 42 ''n''),
     (95, de ''Replacement Amounts'' ''fixed'' 42 ''an''),
     (100, de ''Receiving Institution ID Code'' ''llvar'' 11 ''n''),
     (102, de ''Account Identification 1'' ''llvar'' 28 ''ans''),
     (103, de ''Account Identification 2'' ''llvar'' 28 ''ans''),
     (128, de ''Message Authentication Code (MAC)'' ''fixed'' 16 ''b'')]"

definition ISO8583_1993 :: ftable where
  "ISO8583_1993 =
    [(2, de ''Primary Account Number'' ''llvar'' 19 ''n''),
     (3, de ''Processing Code'' ''fixed'' 6 ''n''),
     (4, de ''Amount, Transaction'' ''fixed'' 12 ''n''),
     (7, de ''Transmission Date/Time'' ''fixed'' 10 ''n''),
     (11, de ''STAN'' ''fixed'' 6 ''n''),
     (12, de ''Date/Time, Local Txn'' ''fixed'' 12 ''n''),
     (13, de ''Date, Effective'' ''fixed'' 4 ''n''),
     (14, de ''Date, Expiration'' ''fixed'' 4 ''n''),
     (18, de ''Merchant Type'' ''fixed'' 4 ''n''),
     (22, de ''POS Data Code'' ''fixed'' 12 ''an''),
     (25, de ''POS Condition Code'' ''fixed'' 2 ''n''),
     (32, de ''Acquiring Institution ID'' ''llvar'' 11 ''n''),
     (35, de ''Track 2 Data'' ''llvar'' 37 ''z''),
     (37, de ''Retrieval Reference Num'' ''fixed'' 12 ''an''),
     (38, de ''Approval Code'' ''fixed'' 6 ''an''),
     (39, de ''Action Code'' ''fixed'' 3 ''n''),
     (41, de ''Card Acceptor Terminal'' ''fixed'' 8 ''ans''),
     (42, de ''Card Acceptor ID Code'' ''fixed'' 15 ''ans''),
     (49, de ''Currency Code, Txn'' ''fixed'' 3 ''n''),
     (52, de ''PIN Data'' ''fixed'' 16 ''b''),
     (53, de ''Security Control Info'' ''llvar'' 48 ''b''),
     (55, de ''ICC Data (EMV)'' ''lllvar'' 999 ''b''),
     (56, de ''Message Reason Code'' ''llvar'' 4 ''n''),
     (70, de ''Network Management Code'' ''fixed'' 3 ''n''),
     (95, de ''Replacement Amounts'' ''fixed'' 42 ''an'')]"

definition VISA_BASE_I :: ftable where
  "VISA_BASE_I =
    [(2, de ''Primary Account Number (PAN)'' ''llvar'' 19 ''n''),
     (3, de ''Processing Code'' ''fixed'' 6 ''n''),
     (4, de ''Amount, Transaction'' ''fixed'' 12 ''n''),
     (7, de ''Transmission Date & Time'' ''fixed'' 10 ''n''),
     (11, de ''System Trace Audit Number'' ''fixed'' 6 ''n''),
     (12, de ''Time, Local Transaction'' ''fixed'' 6 ''n''),
     (13, de ''Date, Local Transaction'' ''fixed'' 4 ''n''),
     (14, de ''Date, Expiration'' ''fixed'' 4 ''n''),
     (18, de ''Merchant Type (MCC)'' ''fixed'' 4 ''n''),
     (22, de ''POS Entry Mode'' ''fixed'' 3 ''n''),
     (25, de ''POS Condition Code'' ''fixed'' 2 ''n''),
     (32, de ''Acquiring Institution ID'' ''llvar'' 11 ''n''),
     (35, de ''Track 2 Data'' ''llvar'' 37 ''z''),
     (37, de ''Retrieval Reference Number'' ''fixed'' 12 ''an''),
     (38, de ''Authorization ID Response'' ''fixed'' 6 ''an''),
     (39, de ''Response Code'' ''fixed'' 2 ''an''),
     (41, de ''Card Acceptor Terminal ID'' ''fixed'' 8 ''ans''),
     (42, de ''Card Acceptor ID Code'' ''fixed'' 15 ''ans''),
     (43, de ''Card Acceptor Name/Location'' ''fixed'' 40 ''ans''),
     (44, de ''Additional Response Data'' ''llvar'' 25 ''ans''),
     (48, de ''Additional Data (Private)'' ''lllvar'' 999 ''ans''),
     (49, de ''Currency Code, Transaction'' ''fixed'' 3 ''n''),
     (52, de ''PIN Data'' ''fixed'' 16 ''b''),
     (54, de ''Additional Amounts'' ''lllvar'' 120 ''ans''),
     (55, de ''ICC Data (EMV)'' ''lllvar'' 999 ''b''),
     (60, de ''Reserved (Visa POS Data)'' ''lllvar'' 999 ''ans''),
     (62, de ''Custom Payment Service (Visa)'' ''lllvar'' 999 ''ans''),
     (63, de ''Network Data (Visa)'' ''lllvar'' 999 ''ans''),
     (70, de ''Network Management Code'' ''fixed'' 3 ''n''),
     (90, de ''Original Data Elements'' ''fixed'' 42 ''n''),
     (95, de ''Replacement Amounts'' ''fixed'' 42 ''an'')]"

definition BUILTIN_TABLES :: "(string \<times> ftable) list" where
  "BUILTIN_TABLES =
     [(''iso8583-1987'', ISO8583_1987), (''iso8583-1993'', ISO8583_1993),
      (''visa-base1'', VISA_BASE_I)]"

definition DEFAULT_FIELDS :: ftable where
  "DEFAULT_FIELDS = ISO8583_1987"

section \<open>What every dictionary satisfies\<close>

text \<open>
  A specification is well formed when its class and length type are known, its length is positive
  and can be counted by the indicator (in decimal digits, the narrowest of the encodings), and a
  fixed binary field is a whole number of bytes.
\<close>

definition spec_wf :: "fspec \<Rightarrow> bool" where
  "spec_wf spec \<longleftrightarrow>
     s_type spec \<in> set [''n'', ''a'', ''an'', ''ans'', ''z'', ''b''] \<and> 0 < s_length spec \<and>
     s_encoding spec = None \<and>
     (if s_len_type spec = ''fixed'' then s_type spec = ''b'' \<longrightarrow> even (s_length spec)
      else case map_of LEN_PREFIX (s_len_type spec) of
             None \<Rightarrow> False
           | Some w \<Rightarrow> s_length spec < 10 ^ w)"

definition table_wf :: "ftable \<Rightarrow> bool" where
  "table_wf tbl \<longleftrightarrow>
     sorted_wrt (<) (map fst tbl) \<and> list_all (\<lambda>(d, spec). 2 \<le> d \<and> d \<le> 128 \<and> d \<noteq> 65 \<and> spec_wf spec) tbl"

lemma table_wf_1987: "table_wf ISO8583_1987"
  by (simp add: table_wf_def ISO8583_1987_def de_def spec_wf_def LEN_PREFIX_def)

lemma table_wf_1993: "table_wf ISO8583_1993"
  by (simp add: table_wf_def ISO8583_1993_def de_def spec_wf_def LEN_PREFIX_def)

lemma table_wf_visa: "table_wf VISA_BASE_I"
  by (simp add: table_wf_def VISA_BASE_I_def de_def spec_wf_def LEN_PREFIX_def)

lemma table_wf_spec:
  "table_wf tbl \<Longrightarrow> map_of tbl d = Some spec \<Longrightarrow> 2 \<le> d \<and> d \<le> 128 \<and> spec_wf spec"
  by (auto simp: table_wf_def list_all_iff dest!: map_of_SomeD)

lemma builtin_tables_wf: "map_of BUILTIN_TABLES name = Some tbl \<Longrightarrow> table_wf tbl"
  by (auto simp: BUILTIN_TABLES_def table_wf_1987 table_wf_1993 table_wf_visa split: if_splits)

end
