(* ===== verification/Py_Values.thy ===== *)
theory Py_Values
  imports Py_Text Complex_Main
begin

text \<open>
  Untyped values of the configuration (\<open>pyv\<close>, the JSON values a block can hold), Python's \<open>int\<close>
  on texts and on such values, truth testing, and slices with any bounds. Floats are rational numbers:
  rounding is not modelled.
\<close>

section \<open>\<open>int\<close> on a text\<close>

definition is_ws :: "nat \<Rightarrow> bool" where
  "is_ws c \<longleftrightarrow> (9 \<le> c \<and> c \<le> 13) \<or> (28 \<le> c \<and> c \<le> 32) \<or> c = 133 \<or> c = 160"

definition strip :: "ustr \<Rightarrow> ustr" where
  "strip s = rev (dropWhile is_ws (rev (dropWhile is_ws s)))"

text \<open>Digits with single underscores between them.\<close>

fun digit_run :: "bool \<Rightarrow> ustr \<Rightarrow> bool" where
  "digit_run after_underscore [] = (\<not> after_underscore)"
| "digit_run after_underscore (c # cs) =
     (if c = 95 then \<not> after_underscore \<and> digit_run True cs else is_dec c \<and> digit_run False cs)"

definition int_digits :: "ustr \<Rightarrow> nat option" where
  "int_digits s =
     (if s \<noteq> [] \<and> hd s \<noteq> 95 \<and> digit_run False s
      then Some (undec (filter (\<lambda>c. c \<noteq> 95) s)) else None)"

definition int_text :: "ustr \<Rightarrow> int option" where
  "int_text s =
     (case strip s of
        [] \<Rightarrow> None
      | c # cs \<Rightarrow>
          if c = 43 then map_option int (int_digits cs)
          else if c = 45 then map_option (\<lambda>n. - int n) (int_digits cs)
          else map_option int (int_digits (c # cs)))"

section \<open>Values\<close>

datatype pyv =
    PNone | PBool bool | PInt int | PFloat rat | PStr string | PList "pyv list" | PDict "(string \<times> pyv) list"

text \<open>\<open>bool(v)\<close>.\<close>

fun truthy :: "pyv \<Rightarrow> bool" where
  "truthy PNone = False"
| "truthy (PBool b) = b"
| "truthy (PInt n) = (n \<noteq> 0)"
| "truthy (PFloat q) = (q \<noteq> 0)"
| "truthy (PStr s) = (s \<noteq> '''')"
| "truthy (PList vs) = (vs \<noteq> [])"
| "truthy (PDict kvs) = (kvs \<noteq> [])"

text \<open>\<open>int(v)\<close>; a float is truncated towards zero.\<close>

fun int_of :: "pyv \<Rightarrow> int result" where
  "int_of (PInt n) = Inr n"
| "int_of (PBool b) = Inr (if b then 1 else 0)"
| "int_of (PFloat q) = Inr (if 0 \<le> q then \<lfloor>q\<rfloor> else \<lceil>q\<rceil>)"
| "int_of (PStr s) = of_option ValueError (int_text (u s))"
| "int_of _ = Inl TypeError"

definition get :: "(string \<times> pyv) list \<Rightarrow> string \<Rightarrow> pyv \<Rightarrow> pyv" where
  "get kvs k d = or_default d (map_of kvs k)"

lemma get_simps [simp]: "get [] k d = d"
  "get ((k', v) # kvs) k d = (if k = k' then v else get kvs k d)"
  by (simp_all add: get_def)

lemma int_of_error: "int_of v = Inl e \<Longrightarrow> e = ValueError \<or> e = TypeError"
  by (cases v rule: int_of.cases) (auto simp: result_iff)

section \<open>Slices\<close>

text \<open>\<open>xs[i:j]\<close> of Python, for any integers.\<close>

definition clip :: "nat \<Rightarrow> int \<Rightarrow> nat" where
  "clip n i = (if i < 0 then nat (int n + i) else min n (nat i))"

definition py_slice :: "int \<Rightarrow> int \<Rightarrow> 'a list \<Rightarrow> 'a list" where
  "py_slice i j xs = drop (clip (length xs) i) (take (clip (length xs) j) xs)"

lemma slice_mid: "py_slice (int (length pre)) (int (length pre) + int (length xs)) (pre @ xs @ post) = xs"
proof -
  have "nat (int (length pre) + int (length xs)) = length pre + length xs" by simp
  then show ?thesis by (simp add: py_slice_def clip_def min_def)
qed

lemma slice_at:
  "data = pre @ xs @ post \<Longrightarrow> i = int (length pre) \<Longrightarrow> j = i + int (length xs) \<Longrightarrow> py_slice i j data = xs"
  using slice_mid by blast

section \<open>Lemmas on \<open>int\<close>\<close>

lemma digit_run_dec: "\<forall>c \<in> set s. is_dec c \<Longrightarrow> digit_run False s \<and> filter (\<lambda>c. c \<noteq> 95) s = s"
  by (induction s) (auto simp: is_dec_def)

lemma strip_id:
  assumes "s \<noteq> []" and "\<not> is_ws (hd s)" and "\<not> is_ws (last s)"
  shows "strip s = s"
proof -
  have "dropWhile is_ws s = s" using assms by (cases s) auto
  moreover have "dropWhile is_ws (rev s) = rev s" using assms by (cases s rule: rev_cases) auto
  ultimately show ?thesis by (simp add: strip_def)
qed

lemma is_dec_not_ws: "is_dec c \<Longrightarrow> \<not> is_ws c"
  by (auto simp: is_dec_def is_ws_def)

lemma int_text_dec: "s \<noteq> [] \<Longrightarrow> \<forall>c \<in> set s. is_dec c \<Longrightarrow> int_text s = Some (int (undec s))"
proof -
  assume s: "s \<noteq> []" "\<forall>c \<in> set s. is_dec c"
  then have "strip s = s" by (intro strip_id) (auto simp: is_dec_not_ws)
  moreover have "hd s \<noteq> 43 \<and> hd s \<noteq> 45 \<and> hd s \<noteq> 95"
    using s hd_in_set [of s] by (fastforce simp: is_dec_def)
  ultimately show ?thesis using s digit_run_dec [of s]
    by (cases s) (auto simp: int_text_def int_digits_def)
qed

lemma int_text_zfill: "int_text (zfill w (dec n)) = Some (int n)"
  using int_text_dec [of "zfill w (dec n)"] zfill_is_dec undec_zfill_dec by (auto simp: zfill_def)


section \<open>Texts of values\<close>

text \<open>\<open>str(v)\<close>; how a float, a list or a dictionary prints is left to \<open>rp\<close>.\<close>

definition dec_string :: "nat \<Rightarrow> string" where
  "dec_string n = map char_of (dec n)"

fun pystr :: "(pyv \<Rightarrow> string) \<Rightarrow> pyv \<Rightarrow> string" where
  "pystr rp PNone = ''None''"
| "pystr rp (PBool b) = (if b then ''True'' else ''False'')"
| "pystr rp (PInt n) = (if n < 0 then ''-'' @ dec_string (nat (- n)) else dec_string (nat n))"
| "pystr rp (PStr s) = s"
| "pystr rp v = rp v"

section \<open>\<open>float\<close>\<close>

text \<open>
  \<open>float(s)\<close> of a decimal text: digits with an optional point and exponent. The spellings of
  infinity and not-a-number are not values here and count as no number.
\<close>

definition opt_digits :: "ustr \<Rightarrow> nat option" where
  "opt_digits s = (if s = [] then Some 0 else int_digits s)"

definition exponent :: "ustr \<Rightarrow> int option" where
  "exponent s =
     (case s of
        [] \<Rightarrow> None
      | c # cs \<Rightarrow>
          if c = 43 then map_option int (int_digits cs)
          else if c = 45 then map_option (\<lambda>n. - int n) (int_digits cs)
          else map_option int (int_digits s))"

definition unsigned_float :: "ustr \<Rightarrow> rat option" where
  "unsigned_float s =
     (let mant = takeWhile (\<lambda>c. c \<noteq> 101 \<and> c \<noteq> 69) s; rest = drop (length mant) s;
          whole = takeWhile (\<lambda>c. c \<noteq> 46) mant; frac = drop (length whole + 1) mant in
      if whole = [] \<and> frac = [] then None
      else case (opt_digits whole, opt_digits frac, if rest = [] then Some 0 else exponent (tl rest)) of
             (Some w, Some f, Some e) \<Rightarrow>
               Some ((of_nat w + of_nat f / 10 ^ length (filter (\<lambda>c. c \<noteq> 95) frac)) * 10 powi e)
           | _ \<Rightarrow> None)"

definition float_text :: "ustr \<Rightarrow> rat option" where
  "float_text s =
     (case strip s of
        [] \<Rightarrow> None
      | c # cs \<Rightarrow>
          if c = 43 then unsigned_float cs
          else if c = 45 then map_option uminus (unsigned_float cs)
          else unsigned_float (c # cs))"

text \<open>\<open>float(v)\<close>.\<close>

fun float_of :: "pyv \<Rightarrow> rat result" where
  "float_of (PInt n) = Inr (of_int n)"
| "float_of (PBool b) = Inr (if b then 1 else 0)"
| "float_of (PFloat q) = Inr q"
| "float_of (PStr s) = of_option ValueError (float_text (u s))"
| "float_of _ = Inl TypeError"

lemma float_of_error: "float_of v = Inl e \<Longrightarrow> e = ValueError \<or> e = TypeError"
  by (cases v rule: float_of.cases) (auto simp: result_iff)

end
