(* ===== verification/Iso_Validate.thy ===== *)
theory Iso_Validate
  imports Iso_Tables Iso_Message Py_Values
begin

text \<open>
  Dialect validation of decoded messages (\<open>payprobe_common/iso8583/validate.py\<close>): the field classes,
  the length rules, one field, a whole message with its presence matrix. The error texts are
  constructors. The lemmas relate the two entry points and connect validation with the codec: what
  validates packs and reads back under the ASCII profile.
\<close>

section \<open>Character classes\<close>

text \<open>
  Letters and digits (\<open>str.isalpha\<close>, \<open>str.isalnum\<close>) are listed for the Latin-1 range; a code
  point above 255 counts as no letter here.
\<close>

text \<open>\<open>str.strip(" ")\<close>.\<close>

definition strip_spaces :: "ustr \<Rightarrow> ustr" where
  "strip_spaces s = rev (dropWhile (\<lambda>c. c = 32) (rev (dropWhile (\<lambda>c. c = 32) s)))"

definition alpha_char :: "nat \<Rightarrow> bool" where
  "alpha_char c \<longleftrightarrow> (65 \<le> c \<and> c \<le> 90) \<or> (97 \<le> c \<and> c \<le> 122) \<or> c = 170 \<or> c = 181 \<or> c = 186 \<or>
     (192 \<le> c \<and> c \<le> 255 \<and> c \<noteq> 215 \<and> c \<noteq> 247)"

definition alnum_char :: "nat \<Rightarrow> bool" where
  "alnum_char c \<longleftrightarrow> alpha_char c \<or> py_isdigit_char c \<or> c = 188 \<or> c = 189 \<or> c = 190"

text \<open>
  \<open>int(value, 16)\<close> is more liberal than a run of hexadecimal digits: white space around, a sign, a
  \<open>0x\<close> prefix and single underscores between digits are part of its syntax.
\<close>

fun hex_run :: "bool \<Rightarrow> ustr \<Rightarrow> bool" where
  "hex_run after_underscore [] = (\<not> after_underscore)"
| "hex_run after_underscore (c # cs) =
     (if c = 95 then \<not> after_underscore \<and> hex_run True cs
      else hexval c \<noteq> None \<and> hex_run False cs)"

definition int16_ok :: "ustr \<Rightarrow> bool" where
  "int16_ok s =
     (let s = strip s;
          s = (case s of [] \<Rightarrow> [] | c # cs \<Rightarrow> if c = 43 \<or> c = 45 then cs else c # cs);
          s = (if take 2 s = u ''0x'' \<or> take 2 s = u ''0X''
               then (let r = drop 2 s in if take 1 r = u ''_'' then drop 1 r else r) else s)
      in s \<noteq> [] \<and> hd s \<noteq> 95 \<and> hex_run False s)"

datatype charset_violation =
    NotNumeric | NotAlphabetic | NotAlphanumeric | NotPrintable | NotTrack | NotHexadecimal | OddHexDigits

text \<open>\<open>removeprefix\<close> and \<open>removesuffix\<close> of one character.\<close>

definition remove_prefix :: "nat \<Rightarrow> ustr \<Rightarrow> ustr" where
  "remove_prefix x s = (case s of [] \<Rightarrow> [] | c # cs \<Rightarrow> if c = x then cs else s)"

definition remove_suffix :: "nat \<Rightarrow> ustr \<Rightarrow> ustr" where
  "remove_suffix x s = (if s \<noteq> [] \<and> last s = x then butlast s else s)"

definition TEXT_CLASSES :: "string list" where
  "TEXT_CLASSES = [''ans'', ''anp'', ''p'', ''s'']"

definition charset_error :: "ustr \<Rightarrow> string \<Rightarrow> charset_violation option" where
  "charset_error val type_code =
     (let typ = py_lower type_code in
      if val = [] then None
      else if typ = ''n'' then (if py_isdigit val then None else Some NotNumeric)
      else if typ = ''a'' then
        (let core = strip_spaces val in
         if core = [] \<or> list_all alpha_char core then None else Some NotAlphabetic)
      else if typ = ''an'' then
        (let core = strip_spaces val in
         if core = [] \<or> list_all alnum_char core then None else Some NotAlphanumeric)
      else if typ \<in> set TEXT_CLASSES then
        (if list_ex (\<lambda>c. \<not> (32 \<le> c \<and> c \<le> 126)) val then Some NotPrintable else None)
      else if typ = ''z'' then
        (let core = remove_suffix 63 (remove_prefix 59 val) in
         if list_ex (\<lambda>c. c \<notin> set (u ''0123456789=Dd'')) core then Some NotTrack else None)
      else if typ = ''b'' then
        (if \<not> int16_ok val then Some NotHexadecimal
         else if odd (length val) then Some OddHexDigits else None)
      else None)"

section \<open>One field\<close>

definition VARIABLE_LEN_TYPES :: "string list" where
  "VARIABLE_LEN_TYPES = [''llvar'', ''lllvar'', ''llllvar'', ''lllllvar'']"

datatype field_violation =
    ExpectedLength int nat | ExceedsMax int nat | Charset charset_violation

definition length_error :: "ustr \<Rightarrow> fspec \<Rightarrow> field_violation option" where
  "length_error val spec =
     (let lt = s_len_type spec; len = s_length spec in
      if lt = ''fixed'' \<and> len \<noteq> 0 \<and> int (length val) \<noteq> len then Some (ExpectedLength len (length val))
      else if lt \<in> set VARIABLE_LEN_TYPES \<and> len \<noteq> 0 \<and> len < int (length val)
           then Some (ExceedsMax len (length val))
      else None)"

definition validate_field :: "ustr \<Rightarrow> fspec \<Rightarrow> field_violation option" where
  "validate_field val spec =
     (case length_error val spec of
        Some e \<Rightarrow> Some e
      | None \<Rightarrow> map_option Charset (charset_error val (s_type spec)))"

section \<open>A message\<close>

datatype issue =
    NotDefined int | LengthNotFixed int nat int | LengthExceeds int nat int
  | BadValue int string | MandatoryMissing int

text \<open>
  The presence matrix: a rule is \<open>None\<close> for the empty dictionary, which is falsy, and otherwise
  its list of mandatory elements.
\<close>

type_synonym presence = "(ustr \<times> int list option) list"

definition presence_rule :: "presence \<Rightarrow> ustr \<Rightarrow> int list" where
  "presence_rule pres mti =
     (case map_of pres mti of
        Some (Some m) \<Rightarrow> m
      | _ \<Rightarrow> (case map_of pres (u ''default'') of Some (Some m) \<Rightarrow> m | _ \<Rightarrow> []))"

definition field_issues :: "ftable \<Rightarrow> int \<times> ustr \<Rightarrow> issue list" where
  "field_issues tbl dv =
     (case map_of tbl (fst dv) of
        None \<Rightarrow> []
      | Some spec \<Rightarrow>
          (let d = fst dv; val = snd dv; lt = s_len_type spec; ln = s_length spec in
           (if lt = ''fixed'' \<and> ln \<noteq> 0 \<and> int (length val) \<noteq> ln
            then [LengthNotFixed d (length val) ln]
            else if lt \<in> set VARIABLE_LEN_TYPES \<and> ln \<noteq> 0 \<and> ln < int (length val)
            then [LengthExceeds d (length val) ln] else []) @
           (if s_type spec \<noteq> '''' \<and> val \<noteq> [] \<and> charset_error val (s_type spec) \<noteq> None
            then [BadValue d (s_type spec)] else [])))"

definition validate_message ::
  "ustr \<Rightarrow> ftable \<Rightarrow> de_values \<Rightarrow> int list option \<Rightarrow> presence \<Rightarrow> issue list" where
  "validate_message mti tbl vs de_list pres =
     (let bits = or_default (map fst vs) de_list in
      map NotDefined (filter (\<lambda>d. map_of tbl d = None) (sort bits)) @
      concat (map (field_issues tbl) vs) @
      (if pres = [] then []
       else map MandatoryMissing
              (filter (\<lambda>d. d \<notin> set bits \<union> set (map fst vs) \<or> or_default [] (map_of vs d) = [])
                (presence_rule pres mti))))"

section \<open>Lemmas\<close>

lemma field_issues_Nil_iff:
  "field_issues tbl (d, val) = [] \<longleftrightarrow>
   (\<forall>spec. map_of tbl d = Some spec \<longrightarrow> validate_field val spec = None)"
proof (cases "map_of tbl d")
  case None
  then show ?thesis by (simp add: field_issues_def)
next
  case (Some spec)
  have "s_type spec = '''' \<Longrightarrow> charset_error val (s_type spec) = None"
    by (simp add: charset_error_def py_lower_def TEXT_CLASSES_def)
  moreover have "val = [] \<Longrightarrow> charset_error val (s_type spec) = None"
    by (simp add: charset_error_def)
  ultimately show ?thesis using Some
    by (auto simp: field_issues_def validate_field_def length_error_def Let_def)
qed

lemma validate_message_Nil_iff:
  "validate_message mti tbl vs de_list pres = [] \<longleftrightarrow>
     (\<forall>d \<in> set (or_default (map fst vs) de_list). map_of tbl d \<noteq> None) \<and>
     (\<forall>(d, val) \<in> set vs. \<forall>spec. map_of tbl d = Some spec \<longrightarrow> validate_field val spec = None) \<and>
     (pres \<noteq> [] \<longrightarrow> (\<forall>d \<in> set (presence_rule pres mti).
        (d \<in> set (or_default (map fst vs) de_list) \<or> d \<in> fst ` set vs) \<and>
        or_default [] (map_of vs d) \<noteq> []))"
proof -
  have "concat (map (field_issues tbl) vs) = [] \<longleftrightarrow>
      (\<forall>(d, val) \<in> set vs. \<forall>spec. map_of tbl d = Some spec \<longrightarrow> validate_field val spec = None)"
    using field_issues_Nil_iff by (auto simp: concat_eq_Nil_conv)
  then show ?thesis
    by (auto simp: validate_message_def Let_def filter_empty_conv)
qed

text \<open>Validation and the codec: a valid ASCII value fits its field under the ASCII profile.\<close>

lemma len_prefix_width: "map_of LEN_PREFIX lt = Some w \<Longrightarrow> len_width lt = w \<and> 0 < w \<and> lt \<in> set VARIABLE_LEN_TYPES"
  by (auto simp: LEN_PREFIX_def len_width_def VARIABLE_LEN_TYPES_def split: if_splits)

lemma validated_value_fits:
  assumes wf: "spec_wf spec" and valid: "validate_field val spec = None"
    and ascii: "\<forall>c \<in> set val. c < 128"
  shows "de_ok (spec, ASCII_OPTS) val"
proof -
  define fo where "fo = base_fopts ASCII_OPTS"
  have fo: "field_options spec ASCII_OPTS = Inr fo"
    using wf by (simp add: field_options_no_override spec_wf_def fo_def)
  have modes: "o_numeric fo = Ascii" "o_text fo = Ascii" "o_binary fo = Hex" "o_length fo = Ascii"
    by (simp_all add: fo_def base_fopts_def ASCII_OPTS_def opts.defs)
  have "\<not> z_is_bcd spec" using wf by (simp add: z_is_bcd_def spec_wf_def)
  then have "value_ok spec fo val" using ascii modes by (simp add: value_ok_def Let_def text_ok_ascii)
  moreover have "value_fits spec fo val"
  proof (cases "s_len_type spec = ''fixed''")
    case True
    then show ?thesis using wf valid
      by (simp add: value_fits_def validate_field_def length_error_def spec_wf_def Let_def split: if_splits)
  next
    case False
    then obtain w where w: "map_of LEN_PREFIX (s_len_type spec) = Some w" "s_length spec < 10 ^ w"
        "0 < s_length spec"
      using wf by (auto simp: spec_wf_def split: option.splits)
    then have "int (length val) \<le> s_length spec"
      using len_prefix_width [OF w(1)] valid False
      by (auto simp: validate_field_def length_error_def Let_def split: if_splits)
    then have "int (length val) < 10 ^ w" using w(2) by linarith
    then have "length val < 10 ^ w" by (metis of_nat_less_iff of_nat_numeral of_nat_power)
    then show ?thesis using False len_prefix_width [OF w(1)] modes
      by (simp add: value_fits_def length_ok_def indicator_capacity_def value_units_def)
  qed
  ultimately show ?thesis using fo by (simp add: de_ok_def)
qed

lemma validated_message_ok:
  assumes wf: "table_wf tbl" and valid: "validate_message mti tbl vs None pres = []"
    and dist: "distinct (map fst vs)" and ascii: "\<forall>(d, val) \<in> set vs. \<forall>c \<in> set val. c < 128"
    and mti: "length mti = 4" "\<forall>c \<in> set mti. c < 128"
  shows "message_ok tbl ASCII_OPTS mti vs"
proof -
  have m: "mti_ok ASCII_OPTS mti"
    using mti by (simp add: mti_ok_def mti_mode_def ASCII_OPTS_def text_ok_ascii)
  have field: "\<exists>spec. map_of tbl d = Some spec \<and> de_ok (spec, ASCII_OPTS) val \<and> 2 \<le> d \<and> d \<le> 128"
    if dv: "(d, val) \<in> set vs" for d val
  proof -
    obtain spec where spec: "map_of tbl d = Some spec" "validate_field val spec = None"
      using valid dv by (fastforce simp: validate_message_Nil_iff)
    moreover have "\<forall>c \<in> set val. c < 128" using ascii dv by auto
    ultimately show ?thesis using table_wf_spec [OF wf spec(1)] validated_value_fits by blast
  qed
  have "des_ok tbl ASCII_OPTS vs (map fst vs)"
    using field dist by (fastforce simp: des_ok_def)
  then show ?thesis using m dist field by (fastforce simp: message_ok_def)
qed

end
