(* ===== verification/Iso_Theorems.thy ===== *)
theory Iso_Theorems
  imports Iso_Errors Iso_Validate
begin

text \<open>
  The properties of the ISO 8583 codec and its validator, each with the concrete instances that
  show its hypotheses can hold.
\<close>

section \<open>Round trips\<close>

text \<open>C1. For every resolvable profile and every message whose values are representable under it,
  \<open>pack\<close> produces bytes, and \<open>unpack\<close> of these bytes, in either mode and with any bytes following,
  reports the MTI, the sorted data elements, each value unchanged, no error, and exactly the bytes
  that follow as trailing.
\<close>

theorem pack_then_unpack:
  assumes "resolve_encoding enc = Inr po" and "message_ok tbl po mti vs"
  shows "\<exists>wire. pack mti vs tbl enc = Inr wire \<and>
    (\<forall>post. \<exists>r. unpack (wire @ post) tbl enc strict = Inr r \<and> shows_message tbl mti vs post r)"
  by (rule pack_unpack [OF assms])

definition sample_values :: de_values where
  "sample_values = [(2, u ''4111111111111111''), (70, u ''301''), (3, u ''000000''), (41, u ''TERM0001'')]"

lemma sample_ok: "message_ok ISO8583_1987 BINARY_OPTS (u ''0800'') sample_values"
  by (simp add: message_ok_def mti_ok_def mti_mode_def BINARY_OPTS_def sample_values_def u_def
      des_ok_def ISO8583_1987_def de_def de_ok_def field_options_no_override base_fopts_def opts.defs
      value_ok_def py_lower_def lower_char_def is_upper_hex_def value_fits_def length_ok_def
      indicator_capacity_def len_width_def LEN_PREFIX_def value_units_def text_ok_ascii Let_def
      nibbles_ok_def pad_def z_is_bcd_def py_upper_def upper_char_def of_char_def)


lemma pack_then_unpack_witness:
  "\<exists>wire. pack (u ''0800'') sample_values ISO8583_1987 (Enc_Name ''binary'') = Inr wire \<and>
    (\<forall>post. \<exists>r. unpack (wire @ post) ISO8583_1987 (Enc_Name ''binary'') True = Inr r \<and>
       shows_message ISO8583_1987 (u ''0800'') sample_values post r)"
  by (rule pack_then_unpack [OF _ sample_ok])
    (simp add: PROFILES_def py_lower_def lower_char_def of_char_def)


definition sample_presence :: presence where
  "sample_presence = [(u ''0800'', Some [3, 70])]"


text \<open>\<open>validate_message\<close> reports nothing exactly when every announced data element is in the field
  table, every value in the table passes \<open>validate_field\<close> and, if there is a presence matrix, each
  mandatory element is present and not empty: the one-field and the whole-message entry points
  agree.
\<close>

theorem validate_message_clean_iff:
  "validate_message mti tbl vs de_list pres = [] \<longleftrightarrow>
     (\<forall>d \<in> set (or_default (map fst vs) de_list). map_of tbl d \<noteq> None) \<and>
     (\<forall>(d, val) \<in> set vs. \<forall>spec. map_of tbl d = Some spec \<longrightarrow> validate_field val spec = None) \<and>
     (pres \<noteq> [] \<longrightarrow> (\<forall>d \<in> set (presence_rule pres mti).
        (d \<in> set (or_default (map fst vs) de_list) \<or> d \<in> fst ` set vs) \<and>
        or_default [] (map_of vs d) \<noteq> []))"
  by (rule validate_message_Nil_iff)

lemma validate_message_clean_iff_witness:
  "map_of VISA_BASE_I 3 \<noteq> None"
  using validate_message_clean_iff [of "u ''0800''" VISA_BASE_I "[(3, u ''000000'')]" None "[]"]
  by (simp add: validate_message_def VISA_BASE_I_def de_def field_issues_def charset_error_def u_def
      py_lower_def py_isdigit_def VARIABLE_LEN_TYPES_def or_default_def)

section \<open>Errors\<close>

text \<open>C35. Once the profile resolves, a strict \<open>unpack\<close> fails with \<open>DecodeError\<close> and with nothing else,
  on any bytes and any field table: no \<open>IndexError\<close>, \<open>KeyError\<close>, \<open>UnicodeError\<close> or bare
  \<open>ValueError\<close> leaves the decoder.
\<close>

theorem unpack_strict_errors:
  assumes "resolve_encoding enc = Inr po" and "unpack data tbl enc True = Inl e"
  shows "e = DecodeError"
  using assms
  by (blast intro: unpack_strict_error)

lemma unpack_strict_errors_witness:
  "unpack [48, 56] ISO8583_1987 (Enc_Name ''ascii'') True = Inl DecodeError"
proof -
  have r: "resolve_encoding (Enc_Name ''ascii'') = Inr ASCII_OPTS"
    by (simp add: PROFILES_def py_lower_def lower_char_def of_char_def)
  then have "unpack [48, 56] ISO8583_1987 (Enc_Name ''ascii'') True = Inl DecodeError"
    by (simp add: unpack_def decode_mti_def mti_mode_def ASCII_OPTS_def take_bytes_def)
  with unpack_strict_errors [OF r, of "[48, 56]" ISO8583_1987 DecodeError] show ?thesis by simp
qed


text \<open>The analysis mode never fails behind the header: if it raises, the header is unreadable and
  every call on these bytes raises the same error, whatever the field table and mode. Otherwise it
  lists either every announced element, or the elements up to the first one that cannot be decoded,
  which carries the error and is reported as the failing element, the message then being truncated.
\<close>

theorem unpack_analysis_reports:
  "(\<exists>e. unpack data tbl enc False = Inl e \<and> (\<forall>tbl2 strict. unpack data tbl2 enc strict = Inl e)) \<or>
   (\<exists>r. unpack data tbl enc False = Inr r \<and>
      ((r_error r = None \<and> \<not> r_truncated r \<and> map fst (r_fields r) = r_de_list r) \<or>
       (\<exists>d why before after e. r_error r = Some (d, why) \<and> r_truncated r \<and>
          r_de_list r = before @ d # after \<and> map fst (r_fields r) = before @ [d] \<and>
          last (r_fields r) = (d, e) \<and> e_error e = Some why)))"
proof (cases "unpack data tbl enc False")
  case (Inl e)
  then show ?thesis using unpack_analysis_error [OF Inl] by (auto simp: unpack_split)
next
  case (Inr r)
  then show ?thesis using unpack_result_stops [OF Inr] by auto
qed

text \<open>
  The two modes agree on everything the strict one accepts: a strict result, whether complete
  or stopped at an element missing from the field table, is the analysis result.
\<close>

theorem unpack_strict_is_analysis:
  assumes "unpack data tbl enc True = Inr r"
  shows "unpack data tbl enc False = Inr r"
  using assms
  by (auto simp: unpack_split result_iff dest: unpack_fields_strict_analysis)

text \<open>The wire image of a small message, accepted under the ASCII profile.\<close>

lemma sample_wire:
  "\<exists>wire r. unpack wire ISO8583_1987 (Enc_Name ''ascii'') True = Inr r \<and>
       shows_message ISO8583_1987 (u ''0800'') [(3, u ''000000'')] [] r"
proof -
  have enc: "resolve_encoding (Enc_Name ''ascii'') = Inr ASCII_OPTS"
    by (simp add: PROFILES_def py_lower_def lower_char_def of_char_def)
  have "message_ok ISO8583_1987 ASCII_OPTS (u ''0800'') [(3, u ''000000'')]"
    by (simp add: message_ok_def mti_ok_def mti_mode_def ASCII_OPTS_def u_def des_ok_def
        ISO8583_1987_def de_def de_ok_def field_options_no_override base_fopts_def opts.defs
        value_ok_def py_lower_def lower_char_def value_fits_def text_ok_ascii)
  from pack_unpack [OF enc this, of True] show ?thesis by (metis append_Nil2)
qed


lemma unpack_analysis_reports_witness:
  "\<exists>wire r. unpack wire ISO8583_1987 (Enc_Name ''ascii'') False = Inr r \<and>
     map fst (r_fields r) = r_de_list r"
proof -
  obtain wire r where "unpack wire ISO8583_1987 (Enc_Name ''ascii'') True = Inr r"
    "r_error r = None" using sample_wire by (auto simp: shows_message_def)
  then have "unpack wire ISO8583_1987 (Enc_Name ''ascii'') False = Inr r" "r_error r = None"
    by (simp_all add: unpack_split result_iff) (auto dest: unpack_fields_strict_analysis)
  then show ?thesis
    using unpack_analysis_reports [of wire ISO8583_1987 "Enc_Name ''ascii''"] by auto
qed

lemma unpack_strict_is_analysis_witness:
  "\<exists>wire r. unpack wire ISO8583_1987 (Enc_Name ''ascii'') False = Inr r \<and>
     shows_message ISO8583_1987 (u ''0800'') [(3, u ''000000'')] [] r"
  using sample_wire unpack_strict_is_analysis by blast

text \<open>Decoding is self-delimiting: a message that a strict \<open>unpack\<close> reads completely is read the
  same when more bytes follow; they only join the reported trailing bytes.
\<close>

theorem unpack_self_delimiting:
  assumes "unpack data tbl enc True = Inr r" and "r_error r = None"
  shows "unpack (data @ post) tbl enc True =
    Inr (r\<lparr>r_trailing := (if or_default [] (r_trailing r) @ post = [] then None
                          else Some (or_default [] (r_trailing r) @ post))\<rparr>)"
  by (rule unpack_extend [OF assms])

lemma unpack_self_delimiting_witness:
  "\<exists>wire r. unpack (wire @ [255, 0]) ISO8583_1987 (Enc_Name ''ascii'') True =
     Inr (r\<lparr>r_trailing := Some [255, 0]\<rparr>)"
proof -
  obtain wire r where "unpack wire ISO8583_1987 (Enc_Name ''ascii'') True = Inr r"
    "r_error r = None" "r_trailing r = None"
    using sample_wire by (auto simp: shows_message_def)
  then show ?thesis using unpack_self_delimiting [of wire _ _ r "[255, 0]"] by auto
qed

section \<open>Bounds of the length indicator\<close>

text \<open>A length indicator of \<open>w\<close> digits reads back every count below its capacity (\<open>10 ^ w\<close>, or one
  and two bytes in the binary mode), from any place in a message. Above it the binary indicator
  refuses; the ASCII and EBCDIC ones do not: they write more than \<open>w\<close> digits, of which a decoder
  takes the first \<open>w\<close> as a smaller count, so the rest of the message is read wrongly.
\<close>

theorem length_indicator_bounds:
  assumes "0 < w" and "o_length fo \<in> {Ascii, Ebcdic, Binary}"
  shows "(n < indicator_capacity fo w \<and>
     (\<exists>bs. encode_length n w fo = Inr bs \<and>
        (\<forall>pre post. decode_length (pre @ bs @ post) (length pre) w fo = Inr (n, length pre + length bs)))) \<or>
   (indicator_capacity fo w \<le> n \<and> o_length fo = Binary \<and> encode_length n w fo = Inl ValueError) \<or>
   (indicator_capacity fo w \<le> n \<and> o_length fo \<noteq> Binary \<and>
     (\<exists>bs m. encode_length n w fo = Inr bs \<and> w < length bs \<and> m < n \<and>
        (\<forall>post. decode_length (bs @ post) 0 w fo = Inr (m, w))))"
proof (cases "n < indicator_capacity fo w")
  case True
  then show ?thesis
    using length_wire.reads_back [of "(w, fo)" n] assms by (simp add: length_ok_def)
next
  case over: False
  show ?thesis
  proof (cases "o_length fo = Binary")
    case True
    then show ?thesis using over encode_length_binary_overflow by (simp add: not_less)
  next
    case False
    then have cap: "10 ^ w \<le> n" using over by (simp add: indicator_capacity_def)
    then obtain bs m where "encode_length n w fo = Inr bs" "w < length bs" "m < 10 ^ w"
      "\<forall>post. decode_length (bs @ post) 0 w fo = Inr (m, w)"
      using encode_length_text_overflow [of fo w n] assms False by auto
    then show ?thesis using cap False over by (meson less_le_trans not_less)
  qed
qed

lemma length_indicator_bounds_witness:
  "\<exists>bs m. encode_length 123 2 (base_fopts ASCII_OPTS) = Inr bs \<and> 2 < length bs \<and> m < 123 \<and>
     (\<forall>post. decode_length (bs @ post) 0 2 (base_fopts ASCII_OPTS) = Inr (m, 2))"
  using length_indicator_bounds [of 2 "base_fopts ASCII_OPTS" 123]
  by (simp add: base_fopts_def ASCII_OPTS_def opts.defs indicator_capacity_def)

section \<open>Profiles\<close>

text \<open>Whatever profile argument resolves, the result gives every axis one of its documented values,
  stays so under any accepted per-field override, and is a fixed point: resolving its own dictionary
  gives it back. What does not resolve raises \<open>ValueError\<close>, nothing else.
\<close>

theorem resolved_profiles_valid:
  "(\<exists>po. resolve_encoding enc = Inr po \<and> valid_opts po \<and> resolve_encoding (dict_of_opts po) = Inr po \<and>
      (\<forall>spec. (\<exists>fo. field_options spec po = Inr fo \<and> valid_opts fo) \<or>
               field_options spec po = Inl ValueError)) \<or>
   resolve_encoding enc = Inl ValueError"
proof (cases "resolve_encoding enc")
  case (Inl e)
  then show ?thesis using resolve_encoding_error by blast
next
  case (Inr po)
  then have v: "valid_opts po" by (rule resolve_encoding_ok)
  have "(\<exists>fo. field_options spec po = Inr fo \<and> valid_opts fo) \<or> field_options spec po = Inl ValueError"
    for spec
    using field_options_valid [OF _ v] field_options_error [of spec po]
    by (cases "field_options spec po") auto
  then show ?thesis using Inr v resolve_dict_of_opts by auto
qed

text \<open>
  The configuration of an ISO 8583 endpoint is never guessed: the profile it yields resolves,
  and a legacy \<open>framing.encoding\<close> text codec, if there is one, names that very profile; an unknown
  or contradicting legacy codec is refused with a \<open>ValueError\<close>.
\<close>

theorem endpoint_profile_consistent:
  "(\<exists>e po. wire_encoding_from_config explicit legacy ''iso8583'' = Inr e \<and>
      resolve_encoding e = Inr po \<and>
      (legacy = None \<or> (\<exists>l f. legacy = Some l \<and> map_of LEGACY_TEXT_ENCODINGS (py_lower l) = Some f \<and>
         resolve_encoding f = Inr po))) \<or>
   wire_encoding_from_config explicit legacy ''iso8583'' = Inl ValueError"
proof -
  have ascii: "\<exists>po. resolve_encoding (Enc_Name ''ascii'') = Inr po"
    by (simp add: PROFILES_def py_lower_def lower_char_def of_char_def)
  show ?thesis
  proof (cases legacy)
    case None
    then show ?thesis using ascii resolve_encoding_error [of explicit]
      by (cases "resolve_encoding explicit") (auto simp: wire_encoding_from_config_def)
  next
    case (Some l)
    show ?thesis
    proof (cases "map_of LEGACY_TEXT_ENCODINGS (py_lower l)")
      case None
      then show ?thesis using Some by (simp add: wire_encoding_from_config_def)
    next
      case f: (Some f)
      then obtain po where po: "resolve_encoding f = Inr po" using legacy_resolves by blast
      show ?thesis using Some f po resolve_encoding_error [of explicit]
        by (cases "resolve_encoding explicit") (auto simp: wire_encoding_from_config_def)
    qed
  qed
qed

section \<open>What validation lets through\<close>

text \<open>
  The class check of binary fields parses the value with \<open>int(value, 16)\<close>, which is not "whole
  hexadecimal bytes": the eight characters \<open>+1234567\<close> are a valid fixed 8-digit binary field, and
  the raw profile then cannot pack them.
\<close>

theorem hex_class_accepts_sign:
  "validate_field (u ''+1234567'') (de ''MAC'' ''fixed'' 8 ''b'') = None \<and>
   encode_value (u ''+1234567'') (de ''MAC'' ''fixed'' 8 ''b'') (base_fopts BINARY_OPTS) = Inl ValueError"
  by (simp add: validate_field_def length_error_def de_def charset_error_def u_def py_lower_def
      lower_char_def VARIABLE_LEN_TYPES_def TEXT_CLASSES_def int16_ok_def strip_def
      is_ws_def hexval_def encode_value_def base_fopts_def BINARY_OPTS_def opts.defs is_space_def
      of_char_def)

end
