(* ===== verification/Iso_Portable.thy ===== *)
theory Iso_Portable
  imports Iso_Validate
begin

text \<open>
  The codec that is pasted into code steps (\<open>payprobe_common/iso8583/portable.py\<close>): ASCII only, on
  texts instead of bytes, lenient where the wire codec raises. The lemmas show when it agrees with
  the wire codec under the ASCII profile.
\<close>

section \<open>The functions\<close>

text \<open>\<open>int(h, 16)\<close>.\<close>

definition int16 :: "ustr \<Rightarrow> int option" where
  "int16 s =
     (if int16_ok s
      then (let t = strip s; digits = (case t of [] \<Rightarrow> [] | c # cs \<Rightarrow> if c = 43 \<or> c = 45 then cs else t);
                n = int (unhex (filter (\<lambda>c. hexval c \<noteq> None)
                       (if take 2 digits = u ''0x'' \<or> take 2 digits = u ''0X'' then drop 2 digits else digits)))
            in Some (if take 1 t = u ''-'' then - n else n))
      else None)"

definition bits_from_hex :: "ustr \<Rightarrow> int list result" where
  "bits_from_hex h =
     rbind (of_option ValueError (int16 h)) (\<lambda>n.
       let w = 4 * length h in
       Inr (map (\<lambda>i. int i + 1) (filter (\<lambda>i. bit n (w - 1 - i)) [0..<w])))"

text \<open>\<open>format(n, "0wX")\<close>: at least \<open>w\<close> digits.\<close>

fun hex_digits :: "nat \<Rightarrow> ustr" where
  "hex_digits n = (if n < 16 then [hexdigit n] else hex_digits (n div 16) @ [hexdigit (n mod 16)])"

declare hex_digits.simps [simp del]

definition bitmap_text :: "int list \<Rightarrow> ustr result" where
  "bitmap_text des = rbind (bitmap_bits 0 des) (\<lambda>n. Inr (zfill 16 (hex_digits n)))"

text \<open>The loop of \<open>iso_unpack\<close>: \<open>None\<close> is an element missing from the field table.\<close>

fun iso_unpack_fields ::
  "ustr \<Rightarrow> ftable \<Rightarrow> int list \<Rightarrow> int \<Rightarrow> (int \<times> (string \<times> ustr) option) list result" where
  "iso_unpack_fields msg tbl [] pos = Inr []"
| "iso_unpack_fields msg tbl (d # des) pos =
     (case map_of tbl d of
        None \<Rightarrow> Inr [(d, None)]
      | Some sp \<Rightarrow>
          if s_len_type sp = ''fixed'' then
            rbind (iso_unpack_fields msg tbl des (pos + s_length sp)) (\<lambda>fs.
              Inr ((d, Some (s_name sp, py_slice pos (pos + s_length sp) msg)) # fs))
          else
            (let pw = int (len_width (s_len_type sp)) in
             rbind (of_option ValueError (int_text (py_slice pos (pos + pw) msg))) (\<lambda>ln.
             rbind (iso_unpack_fields msg tbl des (pos + pw + ln)) (\<lambda>fs.
               Inr ((d, Some (s_name sp, py_slice (pos + pw) (pos + pw + ln) msg)) # fs)))))"

definition iso_unpack ::
  "ustr \<Rightarrow> ftable \<Rightarrow> (ustr \<times> int list \<times> (int \<times> (string \<times> ustr) option) list) result" where
  "iso_unpack msg tbl =
     (let msg = strip msg; mti = py_slice 0 4 msg in
      rbind (bits_from_hex (py_slice 4 20 msg)) (\<lambda>present.
      rbind (if 1 \<in> set present
             then rbind (bits_from_hex (py_slice 20 36 msg)) (\<lambda>more.
                    Inr (removeAll 1 (present @ map (\<lambda>b. b + 64) more), 36))
             else Inr (present, 20)) (\<lambda>(present, pos).
      let des = sort (remdups present) in
      rbind (iso_unpack_fields msg tbl des pos) (\<lambda>fs. Inr (mti, des, fs)))))"

fun iso_pack_fields :: "ftable \<Rightarrow> de_values \<Rightarrow> int list \<Rightarrow> ustr result" where
  "iso_pack_fields tbl vs [] = Inr []"
| "iso_pack_fields tbl vs (d # ds) =
     (case map_of tbl d of
        None \<Rightarrow> Inl KeyError
      | Some sp \<Rightarrow>
          (let v = or_default [] (map_of vs d);
               out = (if s_len_type sp = ''fixed'' then v
                      else zfill (len_width (s_len_type sp)) (dec (length v)) @ v)
           in rbind (iso_pack_fields tbl vs ds) (\<lambda>rest. Inr (out @ rest))))"

definition iso_pack :: "ustr \<Rightarrow> de_values \<Rightarrow> ftable \<Rightarrow> ustr result" where
  "iso_pack mti vs tbl =
     (let des = sort (map fst vs);
          has_sec = (\<exists>d \<in> set des. 64 < d);
          primary = filter (\<lambda>d. d \<le> 64) des;
          primary = (if has_sec then List.insert 1 primary else primary)
      in rbind (bitmap_text primary) (\<lambda>b1.
         rbind (if has_sec then bitmap_text (map (\<lambda>d. d - 64) (filter (\<lambda>d. 64 < d) des))
                else Inr []) (\<lambda>b2.
         rbind (iso_pack_fields tbl vs des) (\<lambda>body. Inr (mti @ b1 @ b2 @ body)))))"


section \<open>The bitmap\<close>

fun hex_width :: "nat \<Rightarrow> nat \<Rightarrow> ustr" where
  "hex_width 0 n = []"
| "hex_width (Suc w) n = hex_width w (n div 16) @ [hexdigit (n mod 16)]"

lemma hex_width_0: "hex_width w 0 = replicate w 48"
  by (induction w) (simp_all add: hexdigit_def replicate_append_same)

lemma zfill_snoc: "zfill (Suc w) (s @ [c]) = zfill w s @ [c]"
  by (simp add: zfill_def)

lemma zfill_hex_digits: "0 < w \<Longrightarrow> n < 16 ^ w \<Longrightarrow> zfill w (hex_digits n) = hex_width w n"
proof (induction w arbitrary: n)
  case 0
  then show ?case by simp
next
  case (Suc w)
  show ?case
  proof (cases "n < 16")
    case True
    then show ?thesis by (subst hex_digits.simps) (simp add: zfill_def hex_width_0)
  next
    case False
    then have "0 < w" using Suc.prems by (cases w) auto
    then show ?thesis using False Suc
      by (subst hex_digits.simps) (simp add: zfill_snoc div_less_iff_less_mult mult.commute)
  qed
qed

lemma hex_width_bytes: "hex_width (2 * k) n = hex_upper (be_bytes k n)"
proof (induction k arbitrary: n)
  case 0
  then show ?case by simp
next
  case (Suc k)
  have "n mod 256 div 16 = n div 16 mod 16" "n mod 256 mod 16 = n mod 16" "n div 16 div 16 = n div 256"
    by (simp_all add: mod_mult2_eq [of n 16 16, simplified] div_mult2_eq [of n 16 16, simplified])
  then show ?case using Suc by (simp add: hex_byte_def)
qed

lemma bitmap_text_hex: "n < 2 ^ 64 \<Longrightarrow> zfill 16 (hex_digits n) = hex_upper (be_bytes 8 n)"
  using zfill_hex_digits [of 16 n] hex_width_bytes [of 8 n] by simp

lemma bitmap_text_ok:
  assumes "\<forall>d \<in> set ds. 1 \<le> d \<and> d \<le> 64"
  shows "\<exists>n. n < 2 ^ 64 \<and> bitmap_bits 0 ds = Inr n \<and> bitmap_des n = sort (remdups ds) \<and>
    bitmap_text ds = Inr (hex_upper (be_bytes 8 n))"
  using bitmap_bits_ok [OF assms] bitmap_text_hex by (auto simp: bitmap_text_def)

lemma upper_hex_plain: "is_upper_hex c \<Longrightarrow> \<not> is_ws c \<and> c \<noteq> 43 \<and> c \<noteq> 45 \<and> c \<noteq> 95 \<and> c \<noteq> 120 \<and> c \<noteq> 88 \<and> hexval c \<noteq> None"
  by (auto simp: is_upper_hex_def hexval_def is_ws_def)

lemma hex_run_upper: "\<forall>c \<in> set s. is_upper_hex c \<Longrightarrow> hex_run False s"
  using upper_hex_plain by (induction s) auto

lemma int16_upper_hex:
  assumes s: "s \<noteq> []" "\<forall>c \<in> set s. is_upper_hex c"
  shows "int16 s = Some (int (unhex s))"
proof -
  have strip: "strip s = s" using s by (intro strip_id) (auto simp: upper_hex_plain)
  have hd: "hd s \<noteq> 43 \<and> hd s \<noteq> 45 \<and> hd s \<noteq> 95" using s upper_hex_plain [of "hd s"] by simp
  have x: "take 2 s \<noteq> u ''0x'' \<and> take 2 s \<noteq> u ''0X''"
  proof -
    have "120 \<notin> set (take 2 s) \<and> 88 \<notin> set (take 2 s)" using s(2) upper_hex_plain by (auto dest!: in_set_takeD)
    then show ?thesis by (auto simp: u_def)
  qed
  have "filter (\<lambda>c. hexval c \<noteq> None) s = s" using s(2) upper_hex_plain by (auto simp: filter_id_conv)
  moreover have "int16_ok s"
    using strip hd x hex_run_upper [OF s(2)] s(1) by (cases s) (auto simp: int16_ok_def Let_def)
  moreover have "take 1 s \<noteq> u ''-''" using hd s(1) by (cases s) (auto simp: u_def)
  ultimately show ?thesis using strip hd x s(1) by (cases s) (auto simp: int16_def Let_def)
qed

lemma bits_from_hex_bitmap:
  assumes "n < 2 ^ 64"
  shows "bits_from_hex (hex_upper (be_bytes 8 n)) = Inr (bitmap_des n)"
proof -
  have "from_be (be_bytes 8 n) = n" using assms by (intro from_be_be_bytes) simp
  then have "int16 (hex_upper (be_bytes 8 n)) = Some (int n)"
    using int16_upper_hex [of "hex_upper (be_bytes 8 n)"]
    by (simp add: hex_upper_is_upper unhex_hex_upper flip: length_0_conv)
  then show ?thesis by (simp add: bits_from_hex_def bitmap_des_def bit_of_nat_iff_bit)
qed


section \<open>Packing\<close>

definition no_overrides :: "ftable \<Rightarrow> bool" where
  "no_overrides tbl \<longleftrightarrow> (\<forall>d spec. map_of tbl d = Some spec \<longrightarrow> s_encoding spec = None)"

lemma table_wf_no_overrides: "table_wf tbl \<Longrightarrow> no_overrides tbl"
  using table_wf_spec by (auto simp: no_overrides_def spec_wf_def)

lemma ascii_encode_Inr: "ascii_encode s = Inr bs \<longleftrightarrow> (\<forall>c \<in> set s. c < 128) \<and> bs = map byte_of s"
  by (auto simp: ascii_encode_def)

lemma zfill_dec_ascii: "c \<in> set (zfill w (dec n)) \<Longrightarrow> c < 128"
  by (drule zfill_is_dec) (simp add: is_dec_def)

lemma pack_de_ascii:
  "s_encoding spec = None \<Longrightarrow>
   pack_de spec (base_fopts ASCII_OPTS) val = Inr bs \<longleftrightarrow>
   (\<forall>c \<in> set val. c < 128) \<and>
   bs = map byte_of (if s_len_type spec = ''fixed'' then val
                     else zfill (len_width (s_len_type spec)) (dec (length val)) @ val)"
  using zfill_dec_ascii
  by (auto simp: pack_de_def encode_value_def base_fopts_def ASCII_OPTS_def opts.defs z_is_bcd_def
      text_encode_def ascii_encode_def encode_length_def Let_def split: if_splits)

lemma pack_fields_ascii:
  assumes "no_overrides tbl"
  shows "pack_fields tbl ASCII_OPTS vs ds = Inr bs \<longleftrightarrow>
    (\<exists>t. iso_pack_fields tbl vs ds = Inr t \<and> (\<forall>c \<in> set t. c < 128) \<and> bs = map byte_of t)"
proof (induction ds arbitrary: bs)
  case Nil
  then show ?case by auto
next
  case (Cons d ds)
  show ?case
  proof (cases "map_of tbl d")
    case None
    then show ?thesis by simp
  next
    case (Some spec)
    then have enc: "s_encoding spec = None" using assms by (simp add: no_overrides_def)
    show ?thesis using Some Cons.IH zfill_dec_ascii
      by (auto simp: result_iff field_options_no_override [OF enc] pack_de_ascii [OF enc] Let_def)
  qed
qed

lemma hex_upper_ascii: "c \<in> set (hex_upper bs) \<Longrightarrow> c < 128"
  by (drule hex_upper_is_upper) (auto simp: is_upper_hex_def)

lemma encode_bitmap_ascii:
  "\<forall>d \<in> set ds. 1 \<le> d \<and> d \<le> 64 \<Longrightarrow>
   \<exists>t. bitmap_text ds = Inr t \<and> (\<forall>c \<in> set t. c < 128) \<and> encode_bitmap ds ASCII_OPTS = Inr (map byte_of t)"
  using bitmap_text_ok [of ds] hex_upper_ascii
  by (auto simp: encode_bitmap_def ASCII_OPTS_def text_encode_def ascii_encode_def)

lemma pack_portable:
  assumes tbl: "no_overrides tbl" and range: "\<forall>d \<in> fst ` set vs. 1 \<le> d \<and> d \<le> 128"
  shows "pack mti vs tbl (Enc_Name ''ascii'') = Inr bs \<longleftrightarrow>
    (\<exists>t. iso_pack mti vs tbl = Inr t \<and> (\<forall>c \<in> set t. c < 128) \<and> bs = map byte_of t)"
proof -
  define des where "des = sort (map fst vs)"
  define sec where "sec = (\<exists>d \<in> set des. 64 < d)"
  define prim where "prim =
    (if sec then List.insert 1 (filter (\<lambda>d. d \<le> 64) des) else filter (\<lambda>d. d \<le> 64) des)"
  define second where "second = map (\<lambda>d. d - 64) (filter (\<lambda>d. 64 < d) des)"
  have des: "\<forall>d \<in> set des. 1 \<le> d \<and> d \<le> 128" using range by (simp add: des_def)
  then have "\<forall>d \<in> set prim. 1 \<le> d \<and> d \<le> 64" by (auto simp: prim_def)
  then obtain t1 where t1: "bitmap_text prim = Inr t1" "\<forall>c \<in> set t1. c < 128"
    "encode_bitmap prim ASCII_OPTS = Inr (map byte_of t1)" using encode_bitmap_ascii by blast
  have "\<forall>d \<in> set second. 1 \<le> d \<and> d \<le> 64" using des by (auto simp: second_def)
  then obtain t2 where t2: "bitmap_text second = Inr t2" "\<forall>c \<in> set t2. c < 128"
    "encode_bitmap second ASCII_OPTS = Inr (map byte_of t2)" using encode_bitmap_ascii by blast
  have enc: "resolve_encoding (Enc_Name ''ascii'') = Inr ASCII_OPTS"
    by (simp add: PROFILES_def py_lower_def lower_char_def of_char_def)
  have mti: "encode_mti mti ASCII_OPTS = Inr m \<longleftrightarrow> (\<forall>c \<in> set mti. c < 128) \<and> m = map byte_of mti" for m
    by (simp add: encode_mti_def mti_mode_def ASCII_OPTS_def text_encode_def ascii_encode_Inr)
  show ?thesis
    using t1 t2 pack_fields_ascii [OF tbl, of vs des]
    unfolding pack_def iso_pack_def Let_def enc rbind.simps
      des_def [symmetric] sec_def [symmetric] prim_def [symmetric] second_def [symmetric]
    by (cases sec) (auto simp: result_iff mti)
qed

section \<open>Unpacking\<close>

definition portable_entry :: "ftable \<Rightarrow> de_values \<Rightarrow> int \<Rightarrow> int \<times> (string \<times> ustr) option" where
  "portable_entry tbl vs d =
     (d, Some (case map_of tbl d of None \<Rightarrow> '''' | Some spec \<Rightarrow> s_name spec, or_default [] (map_of vs d)))"

lemma value_fits_ascii:
  assumes "value_fits spec (base_fopts ASCII_OPTS) val"
  shows "if s_len_type spec = ''fixed'' then s_length spec = int (length val)
    else length (zfill (len_width (s_len_type spec)) (dec (length val))) = len_width (s_len_type spec)"
  using assms
  by (auto simp: value_fits_def length_ok_def indicator_capacity_def value_units_def base_fopts_def
      ASCII_OPTS_def opts.defs length_zfill_dec)

lemma iso_fields_read_back:
  "des_ok tbl ASCII_OPTS vs ds \<Longrightarrow> no_overrides tbl \<Longrightarrow>
   \<exists>t. iso_pack_fields tbl vs ds = Inr t \<and>
     (\<forall>pre. iso_unpack_fields (pre @ t) tbl ds (int (length pre)) = Inr (map (portable_entry tbl vs) ds))"
proof (induction ds)
  case Nil
  then show ?case by simp
next
  case (Cons d ds)
  define val where "val = or_default [] (map_of vs d)"
  obtain spec where spec: "map_of tbl d = Some spec" and ok: "de_ok (spec, ASCII_OPTS) val"
    using Cons.prems by (auto simp: des_ok_def val_def split: option.splits)
  have fits: "value_fits spec (base_fopts ASCII_OPTS) val"
    using ok spec Cons.prems(2) by (simp add: de_ok_def no_overrides_def field_options_no_override)
  obtain rest where rest: "iso_pack_fields tbl vs ds = Inr rest"
    "\<And>pre. iso_unpack_fields (pre @ rest) tbl ds (int (length pre)) = Inr (map (portable_entry tbl vs) ds)"
    using Cons by (auto simp: des_ok_def)
  show ?case
  proof (cases "s_len_type spec = ''fixed''")
    case True
    then have len: "s_length spec = int (length val)" using value_fits_ascii [OF fits] by simp
    have "py_slice (int (length pre)) (int (length pre) + s_length spec) (pre @ val @ rest) = val" for pre
      by (simp add: len slice_mid)
    then show ?thesis using True spec rest(1) rest(2) [of "_ @ val"]
      by (simp add: len add.commute portable_entry_def val_def)
  next
    case False
    define p where "p = zfill (len_width (s_len_type spec)) (dec (length val))"
    have len: "len_width (s_len_type spec) = length p"
      using value_fits_ascii [OF fits] False by (simp add: p_def)
    have int: "int_text p = Some (int (length val))" by (simp add: p_def int_text_zfill)
    have s1: "py_slice (int (length pre)) (int (length pre) + int (length p)) (pre @ p @ val @ rest) = p"
      for pre by (rule slice_mid)
    have s2: "py_slice (int (length pre) + int (length p)) (int (length pre) + int (length p) + int (length val))
        (pre @ p @ val @ rest) = val" for pre
      by (rule slice_at [of _ "pre @ p" val rest]) simp_all
    have s3: "iso_unpack_fields (pre @ p @ val @ rest) tbl ds
        (int (length pre) + int (length p) + int (length val)) = Inr (map (portable_entry tbl vs) ds)" for pre
      using rest(2) [of "pre @ p @ val"] by (simp add: add.assoc)
    have p: "zfill (length p) (dec (length val)) = p" using len by (simp add: p_def)
    show ?thesis using False spec rest(1) s1 s2 s3 int
      by (simp add: portable_entry_def Let_def len p flip: val_def)
  qed
qed

lemma portable_roundtrip:
  assumes tbl: "no_overrides tbl" and ok: "message_ok tbl ASCII_OPTS mti vs"
  shows "\<exists>t. iso_pack mti vs tbl = Inr t \<and>
    (strip t = t \<longrightarrow> iso_unpack t tbl =
       Inr (mti, sort (map fst vs), map (portable_entry tbl vs) (sort (map fst vs))))"
proof -
  define des where "des = sort (map fst vs)"
  define sec where "sec = (\<exists>d \<in> set des. 64 < d)"
  define prim where "prim =
    (if sec then List.insert 1 (filter (\<lambda>d. d \<le> 64) des) else filter (\<lambda>d. d \<le> 64) des)"
  define second where "second = map (\<lambda>d. d - 64) (filter (\<lambda>d. 64 < d) des)"
  have vs: "distinct (map fst vs)" "\<forall>d \<in> fst ` set vs. 2 \<le> d \<and> d \<le> 128"
    and mti: "length mti = 4" and "des_ok tbl ASCII_OPTS vs des"
    using ok by (simp_all add: message_ok_def des_ok_def des_def mti_ok_def)
  note maps = bitmaps_read_back [OF vs, folded des_def, folded sec_def, folded prim_def second_def]
  have des: "distinct des" using vs by (simp add: des_def)
  obtain n1 where n1: "n1 < 2 ^ 64" "bitmap_text prim = Inr (hex_upper (be_bytes 8 n1))"
    "bitmap_des n1 = sort (remdups prim)"
    using bitmap_text_ok maps(1) by (auto simp: bitmap_ok_def)
  obtain n2 where n2: "n2 < 2 ^ 64" "bitmap_text second = Inr (hex_upper (be_bytes 8 n2))"
    "bitmap_des n2 = sort (remdups second)"
    using bitmap_text_ok maps(2) by (auto simp: bitmap_ok_def)
  obtain body where body: "iso_pack_fields tbl vs des = Inr body"
    "\<And>pre. iso_unpack_fields (pre @ body) tbl des (int (length pre)) = Inr (map (portable_entry tbl vs) des)"
    using iso_fields_read_back [OF \<open>des_ok tbl ASCII_OPTS vs des\<close> tbl] by blast
  define h1 where "h1 = hex_upper (be_bytes 8 n1)"
  define h2 where "h2 = hex_upper (be_bytes 8 n2)"
  have len: "length h1 = 16" "length h2 = 16" by (simp_all add: h1_def h2_def)
  define t where "t = mti @ h1 @ (if sec then h2 else []) @ body"
  have pack: "iso_pack mti vs tbl = Inr t"
    using n1(2) n2(2) body(1)
    unfolding iso_pack_def Let_def des_def [symmetric] sec_def [symmetric] prim_def [symmetric]
      second_def [symmetric] h1_def [symmetric] h2_def [symmetric]
    by (simp add: t_def)
  have b1: "bits_from_hex h1 = Inr (sort (remdups prim))"
    using bits_from_hex_bitmap [OF n1(1)] n1(3) by (simp add: h1_def)
  have b2: "bits_from_hex h2 = Inr (sort (remdups second))"
    using bits_from_hex_bitmap [OF n2(1)] n2(3) by (simp add: h2_def)
  have sl: "py_slice 0 4 t = mti" "py_slice 4 20 t = h1"
    using mti len by (auto intro!: slice_at simp: t_def)
  have sl2: "py_slice 20 36 t = h2" if sec
    by (rule slice_at [of _ "mti @ h1" h2 body]) (use mti len that in \<open>simp_all add: t_def\<close>)
  have f: "iso_unpack_fields t tbl des (if sec then 36 else 20) = Inr (map (portable_entry tbl vs) des)"
    using body(2) [of "mti @ h1 @ (if sec then h2 else [])"] mti len by (simp add: t_def split: if_splits)
  have "iso_unpack t tbl = Inr (mti, des, map (portable_entry tbl vs) des)" if "strip t = t"
  proof (cases sec)
    case True
    define l where "l = removeAll 1 (sort (remdups prim)) @ map (\<lambda>b. b + 64) (sort (remdups second))"
    have s: "sort l = des" using maps(4) True by (simp add: l_def)
    then have "remdups l = l" using des by (metis distinct_sort distinct_remdups_id)
    moreover have "removeAll 1 (sort (remdups prim) @ map (\<lambda>b. b + 64) (sort (remdups second))) = l"
    proof -
      have "1 \<notin> set (map (\<lambda>b. b + 64) (sort (remdups second)))"
        using maps(2) by (force simp: bitmap_ok_def)
      then show ?thesis unfolding l_def removeAll_append using removeAll_id by metis
    qed
    ultimately show ?thesis using that sl sl2 b1 b2 f maps(3) True s
      by (simp add: iso_unpack_def Let_def distinct_remdups_id)
  next
    case False
    have "sort (remdups (sort (remdups prim))) = des"
      using maps(5) [OF False] by (metis distinct_remdups distinct_remdups_id distinct_sort)
    then show ?thesis using that sl b1 f maps(3) False by (simp add: iso_unpack_def Let_def)
  qed
  then show ?thesis using pack by (auto simp: des_def)
qed

section \<open>Properties\<close>

text \<open>The pasted packer is the wire codec under the ASCII profile: for data elements 1 to 128 and a
  field table without per-field overrides, \<open>pack\<close> accepts a message exactly when \<open>iso_pack\<close> does
  and yields ASCII text, and then writes the bytes of that text.
\<close>

theorem portable_pack_is_pack:
  assumes "no_overrides tbl" and "\<forall>d \<in> fst ` set vs. 1 \<le> d \<and> d \<le> 128"
  shows "pack mti vs tbl (Enc_Name ''ascii'') = Inr bs \<longleftrightarrow>
    (\<exists>t. iso_pack mti vs tbl = Inr t \<and> (\<forall>c \<in> set t. c < 128) \<and> bs = map byte_of t)"
  by (rule pack_portable [OF assms])

lemma portable_pack_is_pack_witness:
  "\<exists>t. iso_pack (u ''0800'') [(3, u ''000000'')] ISO8583_1987 = Inr t \<and>
     pack (u ''0800'') [(3, u ''000000'')] ISO8583_1987 (Enc_Name ''ascii'') = Inr (map byte_of t)"
proof -
  have ok: "message_ok ISO8583_1987 ASCII_OPTS (u ''0800'') [(3, u ''000000'')]"
    by (simp add: message_ok_def mti_ok_def mti_mode_def ASCII_OPTS_def u_def des_ok_def
        ISO8583_1987_def de_def de_ok_def field_options_no_override base_fopts_def opts.defs
        value_ok_def py_lower_def lower_char_def value_fits_def text_ok_ascii)
  have "resolve_encoding (Enc_Name ''ascii'') = Inr ASCII_OPTS"
    by (simp add: PROFILES_def py_lower_def lower_char_def of_char_def)
  then obtain bs where "pack (u ''0800'') [(3, u ''000000'')] ISO8583_1987 (Enc_Name ''ascii'') = Inr bs"
    using pack_unpack [OF _ ok] by blast
  then show ?thesis
    using portable_pack_is_pack [OF table_wf_no_overrides [OF table_wf_1987],
        of "[(3, u ''000000'')]" "u ''0800''" bs] by auto
qed

text \<open>The pasted parser reads back what the pasted packer wrote, for every message the ASCII codec
  accepts, as long as its text neither begins nor ends with white space.
\<close>

theorem portable_pack_then_unpack:
  assumes "no_overrides tbl" and "message_ok tbl ASCII_OPTS mti vs"
  shows "\<exists>t. iso_pack mti vs tbl = Inr t \<and>
    (strip t = t \<longrightarrow> iso_unpack t tbl =
       Inr (mti, sort (map fst vs), map (portable_entry tbl vs) (sort (map fst vs))))"
  by (rule portable_roundtrip [OF assms])

lemma portable_pack_then_unpack_witness:
  "\<exists>t. iso_pack (u ''0800'') [(3, u ''000000'')] ISO8583_1987 = Inr t \<and>
     iso_unpack t ISO8583_1987 = Inr (u ''0800'', [3], [(3, Some (''Processing Code'', u ''000000''))])"
proof -
  have ok: "message_ok ISO8583_1987 ASCII_OPTS (u ''0800'') [(3, u ''000000'')]"
    by (simp add: message_ok_def mti_ok_def mti_mode_def ASCII_OPTS_def u_def des_ok_def
        ISO8583_1987_def de_def de_ok_def field_options_no_override base_fopts_def opts.defs
        value_ok_def py_lower_def lower_char_def value_fits_def text_ok_ascii)
  obtain h where h: "iso_pack (u ''0800'') [(3, u ''000000'')] ISO8583_1987 =
      Inr (u ''0800'' @ h @ u ''000000'')"
    using bitmap_text_ok [of "[3]"] by (force simp: iso_pack_def ISO8583_1987_def de_def simp del: bitmap_bits.simps)
  have "strip (u ''0800'' @ h @ u ''000000'') = u ''0800'' @ h @ u ''000000''"
    by (rule strip_id) (simp_all add: u_def is_ws_def)
  then show ?thesis
    using h portable_pack_then_unpack [OF table_wf_no_overrides [OF table_wf_1987] ok]
    by (simp add: portable_entry_def ISO8583_1987_def de_def)
qed

text \<open>
  The parser trims white space around the whole message, so trailing spaces of the last field
  are lost: a terminal identification padded to its fixed eight characters comes back shorter.
\<close>

theorem portable_unpack_loses_padding:
  "\<exists>t. iso_pack (u ''0800'') [(41, u ''TERM1   '')] ISO8583_1987 = Inr t \<and>
     iso_unpack t ISO8583_1987 =
       Inr (u ''0800'', [41], [(41, Some (''Card Acceptor Terminal ID'', u ''TERM1''))])"
proof -
  obtain n where n: "n < 2 ^ 64" "bitmap_text [41] = Inr (hex_upper (be_bytes 8 n))" "bitmap_des n = [41]"
    using bitmap_text_ok [of "[41]"] by (force simp del: bitmap_bits.simps)
  define h where "h = hex_upper (be_bytes 8 n)"
  have h: "length h = 16" "bits_from_hex h = Inr [41]"
    using bits_from_hex_bitmap [OF n(1)] n(3) by (simp_all add: h_def)
  define t where "t = u ''0800'' @ h @ u ''TERM1   ''"
  have pack: "iso_pack (u ''0800'') [(41, u ''TERM1   '')] ISO8583_1987 = Inr t"
    using n(2) by (simp add: iso_pack_def ISO8583_1987_def de_def t_def h_def)
  have strip: "strip t = u ''0800'' @ h @ u ''TERM1''"
    by (simp add: strip_def t_def u_def is_ws_def)
  have s: "py_slice 0 4 (u ''0800'' @ h @ u ''TERM1'') = u ''0800''"
      "py_slice 4 20 (u ''0800'' @ h @ u ''TERM1'') = h"
    using h by (simp_all add: py_slice_def clip_def u_def)
  have "py_slice 20 28 (u ''0800'' @ h @ u ''TERM1'') = u ''TERM1''"
    using h by (simp add: py_slice_def clip_def u_def)
  then have "iso_unpack t ISO8583_1987 =
      Inr (u ''0800'', [41], [(41, Some (''Card Acceptor Terminal ID'', u ''TERM1''))])"
    using strip s h(2) by (simp add: iso_unpack_def Let_def ISO8583_1987_def de_def)
  with pack show ?thesis by blast
qed

end
