(* ===== verification/Iso_Mac.thy ===== *)
theory Iso_Mac
  imports Iso_Errors Iso_Tables Py_Values "HOL-Library.AList"
begin

text \<open>
  Message authentication on data elements 64 and 128 (\<open>payprobe_common/iso8583/mac.py\<close>): the \<open>mac\<close>
  block, the coverage, stamping and verifying. The MAC algorithm is a parameter (it is passed in by
  the callers), any function of a key and the covered bytes.
\<close>

section \<open>The specification block\<close>

datatype mac_algorithm = Retail_Mac | Aes_Cmac

definition ALGORITHMS :: "(string \<times> mac_algorithm \<times> int list) list" where
  "ALGORITHMS = [(''retail_mac'', Retail_Mac, [8, 4]), (''aes_cmac'', Aes_Cmac, [8, 4])]"

definition MAC_FIELDS :: "int list" where
  "MAC_FIELDS = [64, 128]"

definition ON_FAILURE :: "string list" where
  "ON_FAILURE = [''warn'', ''reject'']"

definition MAC_FIELD_HEX_CHARS :: nat where
  "MAC_FIELD_HEX_CHARS = 16"

record mac_spec =
  m_field :: int
  m_algorithm :: mac_algorithm
  m_key :: string
  m_length :: nat
  m_on_failure :: string

text \<open>\<open>spec in (None, {}, False)\<close>; \<open>0\<close> equals \<open>False\<close>.\<close>

definition mac_absent :: "pyv \<Rightarrow> bool" where
  "mac_absent v \<longleftrightarrow> v = PNone \<or> v = PDict [] \<or> v = PBool False \<or> v = PInt 0 \<or> v = PFloat 0"

definition resolve_mac_spec :: "(pyv \<Rightarrow> string) \<Rightarrow> pyv \<Rightarrow> mac_spec option result" where
  "resolve_mac_spec rp spec =
     (if mac_absent spec then Inr None
      else case spec of
        PDict kvs \<Rightarrow>
          (case int_of (get kvs ''field'' (PInt 64)) of
             Inl _ \<Rightarrow> Inl MacSpecError
           | Inr field \<Rightarrow>
               if field \<notin> set MAC_FIELDS then Inl MacSpecError else
               (case map_of ALGORITHMS (py_lower (pystr rp (get kvs ''algorithm'' (PStr ''retail_mac'')))) of
                  None \<Rightarrow> Inl MacSpecError
                | Some (algorithm, lengths) \<Rightarrow>
                    rbind (int_of (get kvs ''length'' (PInt (hd lengths)))) (\<lambda>len.
                      let on_failure = py_lower (pystr rp (get kvs ''on_failure'' (PStr ''warn''))) in
                      if len \<notin> set lengths then Inl MacSpecError
                      else if on_failure \<notin> set ON_FAILURE then Inl MacSpecError
                      else case get kvs ''key'' PNone of
                             PStr key \<Rightarrow>
                               if key = '''' then Inl MacSpecError
                               else Inr (Some \<lparr>m_field = field, m_algorithm = algorithm, m_key = key,
                                          m_length = nat len, m_on_failure = on_failure\<rparr>)
                           | _ \<Rightarrow> Inl MacSpecError)))
      | _ \<Rightarrow> Inl MacSpecError)"

definition key_is_unresolved :: "mac_spec \<Rightarrow> bool" where
  "key_is_unresolved spec \<longleftrightarrow> take 2 (m_key spec) = ''${''"

section \<open>Stamping\<close>

type_synonym mac_function = "string \<Rightarrow> byte list \<Rightarrow> byte list"

text \<open>\<open>full[:length].ljust(8)\<close> in hexadecimal.\<close>

definition mac_hex :: "mac_spec \<Rightarrow> mac_function \<Rightarrow> byte list \<Rightarrow> ustr" where
  "mac_hex spec algorithm coverage =
     (let mac = take (m_length spec) (algorithm (m_key spec) coverage);
          width = MAC_FIELD_HEX_CHARS div 2
      in hex_upper (mac @ replicate (width - length mac) 0))"

definition zero_mac :: ustr where
  "zero_mac = replicate MAC_FIELD_HEX_CHARS 48"

definition mac_field_wire_length :: "ftable \<Rightarrow> mac_spec \<Rightarrow> encoding \<Rightarrow> int result" where
  "mac_field_wire_length tbl spec enc =
     (if map_of tbl (m_field spec) = None then Inl MacSpecError
      else
        rbind (pack (u ''0000'') [(m_field spec, zero_mac)] tbl enc) (\<lambda>only_mac.
        rbind (pack (u ''0000'') [] tbl enc) (\<lambda>header.
        rbind (if 64 < m_field spec
               then pack (u ''0000'') [(65, [])]
                      (AList.update 65 \<lparr>s_name = '''', s_len_type = ''fixed'', s_length = 0,
                         s_type = '''', s_encoding = None\<rparr> tbl) enc
               else Inr header) (\<lambda>header.
        Inr (int (length only_mac) - int (length header))))))"

text \<open>\<open>wire[:-n]\<close>; for \<open>n = 0\<close> that is the empty prefix.\<close>

definition cut_end :: "int \<Rightarrow> byte list \<Rightarrow> byte list" where
  "cut_end n wire = py_slice 0 (- n) wire"

definition pack_with_mac ::
  "ustr \<Rightarrow> de_values \<Rightarrow> ftable \<Rightarrow> encoding \<Rightarrow> mac_spec \<Rightarrow> mac_function \<Rightarrow> byte list result" where
  "pack_with_mac mti vs tbl enc spec algorithm =
     (if \<exists>d \<in> fst ` set vs. m_field spec < d then Inl MacSpecError
      else
        rbind (pack mti (AList.update (m_field spec) zero_mac vs) tbl enc) (\<lambda>placeholder_wire.
        rbind (mac_field_wire_length tbl spec enc) (\<lambda>mac_len.
        let coverage = cut_end mac_len placeholder_wire in
        pack mti (AList.update (m_field spec) (mac_hex spec algorithm coverage)
                    (AList.update (m_field spec) zero_mac vs)) tbl enc)))"

section \<open>Verifying\<close>

datatype mac_problem = NoMac | NotLast int | Mismatch

record mac_verdict =
  v_present :: bool
  v_ok :: "bool option"
  v_field :: int
  v_error :: "mac_problem option"

definition verify_mac ::
  "byte list \<Rightarrow> unpacked \<Rightarrow> ftable \<Rightarrow> encoding \<Rightarrow> mac_spec \<Rightarrow> mac_function \<Rightarrow> mac_verdict result" where
  "verify_mac wire parsed tbl enc spec algorithm =
     (let absent = Inr \<lparr>v_present = False, v_ok = None, v_field = m_field spec, v_error = Some NoMac\<rparr> in
      case map_of (r_fields parsed) (m_field spec) of
        None \<Rightarrow> absent
      | Some entry \<Rightarrow>
          if e_error entry \<noteq> None then absent
          else if r_de_list parsed \<noteq> [] \<and> Max (set (r_de_list parsed)) \<noteq> m_field spec
          then Inr \<lparr>v_present = True, v_ok = Some False, v_field = m_field spec,
                    v_error = Some (NotLast (Max (set (r_de_list parsed))))\<rparr>
          else
            rbind (mac_field_wire_length tbl spec enc) (\<lambda>mac_len.
              let expected = mac_hex spec algorithm (cut_end mac_len wire);
                  actual = py_upper (e_value entry);
                  n = m_length spec * 2;
                  ok = (take n actual = take n expected)
              in Inr \<lparr>v_present = True, v_ok = Some ok, v_field = m_field spec,
                      v_error = (if ok then None else Some Mismatch)\<rparr>))"

definition unpack_and_verify ::
  "byte list \<Rightarrow> ftable \<Rightarrow> encoding \<Rightarrow> (mac_spec \<times> mac_function) option \<Rightarrow> bool \<Rightarrow>
   (unpacked \<times> mac_verdict option) result" where
  "unpack_and_verify wire tbl enc spec strict =
     rbind (unpack wire tbl enc strict) (\<lambda>parsed.
       case spec of
         None \<Rightarrow> Inr (parsed, None)
       | Some (sp, algorithm) \<Rightarrow>
           rbind (verify_mac wire parsed tbl enc sp algorithm) (\<lambda>v. Inr (parsed, Some v)))"

section \<open>The layout of a packed message\<close>

definition bitmap_width :: "opts \<Rightarrow> nat" where
  "bitmap_width po = (if o_bitmap po = Binary then 8 else 16)"

lemma encode_bitmap_length: "encode_bitmap ds po = Inr bs \<Longrightarrow> length bs = bitmap_width po"
  by (auto simp: encode_bitmap_def result_iff Let_def bitmap_width_def split: if_splits dest: text_length)

definition announced :: "int list \<Rightarrow> int list \<times> int list option" where
  "announced des =
     (let sec = \<exists>d \<in> set des. 64 < d; prim = filter (\<lambda>d. d \<le> 64) des in
      (if sec then List.insert 1 prim else prim,
       if sec then Some (map (\<lambda>d. d - 64) (filter (\<lambda>d. 64 < d) des)) else None))"

lemma pack_layout:
  assumes "resolve_encoding enc = Inr po"
  shows "pack mti vs tbl enc =
    rbind (encode_mti mti po) (\<lambda>m.
    rbind (encode_bitmap (fst (announced (sort (map fst vs)))) po) (\<lambda>b1.
    rbind (case snd (announced (sort (map fst vs))) of None \<Rightarrow> Inr [] | Some ds \<Rightarrow> encode_bitmap ds po) (\<lambda>b2.
    rbind (pack_fields tbl po vs (sort (map fst vs))) (\<lambda>body. Inr (m @ b1 @ b2 @ body)))))"
  by (simp add: pack_def assms announced_def Let_def)

lemma pack_fields_append:
  "pack_fields tbl po vs (ds @ ds') =
     rbind (pack_fields tbl po vs ds) (\<lambda>b. rbind (pack_fields tbl po vs ds') (\<lambda>b'. Inr (b @ b')))"
  by (induction ds) (auto simp: rbind_assoc split: option.splits)

lemma pack_fields_cong:
  "(\<And>d. d \<in> set ds \<Longrightarrow> map_of vs d = map_of vs' d) \<Longrightarrow> pack_fields tbl po vs ds = pack_fields tbl po vs' ds"
  by (induction ds) (auto split: option.splits)

section \<open>The MAC field\<close>

text \<open>Sixteen hexadecimal digits in a binary-class field: the encoding has one length.\<close>

definition mac_value :: "ustr \<Rightarrow> bool" where
  "mac_value v \<longleftrightarrow> length v = 16 \<and> (\<forall>c \<in> set v. is_upper_hex c)"

lemma mac_value_zero: "mac_value zero_mac"
  by (simp add: mac_value_def zero_mac_def MAC_FIELD_HEX_CHARS_def is_upper_hex_def)

lemma mac_value_hex: "m_length spec \<le> 8 \<Longrightarrow> mac_value (mac_hex spec algorithm coverage)"
  by (auto simp: mac_value_def mac_hex_def Let_def MAC_FIELD_HEX_CHARS_def hex_upper_is_upper)

lemma mac_value_ok:
  assumes v: "mac_value v" and b: "py_lower (s_type fs) = ''b''" and ok: "de_ok (fs, po) w" "mac_value w"
  shows "de_ok (fs, po) v"
proof -
  have "c < 128" if "is_upper_hex c" for c using that by (auto simp: is_upper_hex_def)
  then have "value_ok fs fo v" for fo
    using v b by (auto simp: value_ok_def mac_value_def)
  moreover have "value_fits fs fo v = value_fits fs fo w" for fo
    using v ok(2) by (simp add: value_fits_def value_units_def mac_value_def)
  ultimately show ?thesis using ok(1) by (auto simp: de_ok_def split: sum.splits)
qed

lemma mac_field_length:
  assumes "mac_value v" "mac_value w" and b: "py_lower (s_type fs) = ''b''"
    and v: "pack_de fs fo v = Inr bs" and w: "pack_de fs fo w = Inr cs"
  shows "length bs = length cs" and "0 < length bs"
proof -
  have body: "\<exists>bs. encode_value x fs fo = Inr (bs, if o_binary fo = Raw then 8 else 16) \<and>
      length bs = (if o_binary fo = Raw then 8 else 16)" if x: "mac_value x" for x
  proof (cases "o_binary fo = Raw")
    case True
    have "even (length x)" using x by (simp add: mac_value_def)
    then obtain bs where "fromhex x = Some bs" "2 * length bs = length x"
      using fromhex_upper_hex [of x] x unfolding mac_value_def by blast
    then show ?thesis using True b x by (simp add: encode_value_def mac_value_def)
  next
    case False
    obtain bs where "ascii_encode x = Inr bs"
      using ascii_encode_upper_hex [of x] x by (auto simp: mac_value_def)
    then show ?thesis using False b x
      by (auto simp: encode_value_def mac_value_def dest: ascii_length)
  qed
  show "length bs = length cs" "0 < length bs"
    using body [OF assms(1)] body [OF assms(2)] v w
    by (auto simp: pack_de_def result_iff split: if_splits sum.splits)
qed

section \<open>What is stamped verifies\<close>

lemma cut_end_append: "length m = n \<Longrightarrow> 0 < n \<Longrightarrow> cut_end (int n) (x @ m) = x"
  by (simp add: cut_end_def py_slice_def clip_def)

text \<open>The length of everything in front of the fields depends on the profile and on the presence of
  a secondary bitmap only.\<close>

lemma mac_field_wire_length_eq:
  assumes enc: "resolve_encoding enc = Inr po" and f: "m_field spec \<in> {64, 128}"
    and fs: "map_of tbl (m_field spec) = Some fs" and fo: "field_options fs po = Inr fo"
    and m0: "pack_de fs fo zero_mac = Inr m0"
  shows "mac_field_wire_length tbl spec enc = Inr (int (length m0))"
proof -
  have mti: "mti_ok po (u ''0000'')"
    by (auto simp: mti_ok_def u_def is_upper_hex_def intro!: text_ok_upper_hex)
  then obtain m where m: "encode_mti (u ''0000'') po = Inr m" using encode_mti_ok by blast
  have bm: "\<exists>b. encode_bitmap ds po = Inr b \<and> length b = bitmap_width po"
    if "\<forall>d \<in> set ds. 1 \<le> d \<and> d \<le> 64" for ds
    using encode_bitmap_ok [of po ds] encode_bitmap_length [of ds po] that by (auto simp: bitmap_ok_def)
  obtain e where e: "encode_bitmap [] po = Inr e" "length e = bitmap_width po"
    using bm [of "[]"] by auto
  obtain b64 where b64: "encode_bitmap [64] po = Inr b64" "length b64 = bitmap_width po"
    using bm [of "[64]"] by auto
  obtain b1 where b1: "encode_bitmap [1] po = Inr b1" "length b1 = bitmap_width po"
    using bm [of "[1]"] by auto
  note b = e b64 b1
  define dummy where "dummy = \<lparr>s_name = '''', s_len_type = ''fixed'', s_length = 0,
    s_type = '''', s_encoding = None\<rparr>"
  have d: "field_options dummy po = Inr (base_fopts po)" "pack_de dummy (base_fopts po) [] = Inr []"
    by (auto simp: dummy_def field_options_def pack_de_def encode_value_def z_is_bcd_def py_lower_def
        text_encode_def ascii_encode_def)
  show ?thesis
  proof (cases "m_field spec = 64")
    case True
    then show ?thesis using fs fo m0 m b
      by (simp add: mac_field_wire_length_def pack_layout [OF enc] announced_def)
  next
    case False
    then have f: "m_field spec = 128" using f by simp
    then show ?thesis using fs fo m0 m b d
      by (simp add: mac_field_wire_length_def pack_layout [OF enc] announced_def update_conv' flip: dummy_def)
  qed
qed

lemma pack_last_field:
  assumes enc: "resolve_encoding enc = Inr po" and ok: "message_ok tbl po mti vs"
    and des: "sort (map fst vs) = ds @ [f]"
  shows "\<exists>h fs fo m. map_of tbl f = Some fs \<and> field_options fs po = Inr fo \<and>
    pack_de fs fo (or_default [] (map_of vs f)) = Inr m \<and> pack mti vs tbl enc = Inr (h @ m) \<and>
    (\<forall>ws m'. sort (map fst ws) = ds @ [f] \<longrightarrow> (\<forall>d \<in> set ds. map_of ws d = map_of vs d) \<longrightarrow>
       pack_de fs fo (or_default [] (map_of ws f)) = Inr m' \<longrightarrow> pack mti ws tbl enc = Inr (h @ m'))"
proof -
  obtain wire where "pack mti vs tbl enc = Inr wire" using pack_unpack [OF enc ok] by blast
  then obtain m b1 b2 body where p: "encode_mti mti po = Inr m"
    "encode_bitmap (fst (announced (ds @ [f]))) po = Inr b1"
    "(case snd (announced (ds @ [f])) of None \<Rightarrow> Inr [] | Some ds \<Rightarrow> encode_bitmap ds po) = Inr b2"
    "pack_fields tbl po vs (ds @ [f]) = Inr body" "wire = m @ b1 @ b2 @ body"
    by (auto simp: pack_layout [OF enc] des result_iff)
  then obtain front fs fo l where q: "pack_fields tbl po vs ds = Inr front" "map_of tbl f = Some fs"
    "field_options fs po = Inr fo" "pack_de fs fo (or_default [] (map_of vs f)) = Inr l" "body = front @ l"
    by (auto simp: pack_fields_append result_iff split: option.splits)
  have "pack mti ws tbl enc = Inr ((m @ b1 @ b2 @ front) @ m')"
    if ws: "sort (map fst ws) = ds @ [f]" "\<forall>d \<in> set ds. map_of ws d = map_of vs d"
      "pack_de fs fo (or_default [] (map_of ws f)) = Inr m'" for ws m'
  proof -
    have "pack_fields tbl po ws ds = Inr front"
      using pack_fields_cong [of ds ws vs] ws(2) q(1) by simp
    then show ?thesis using p q ws by (simp add: pack_layout [OF enc] pack_fields_append)
  qed
  then show ?thesis using q des by blast
qed

lemma sort_max_last:
  fixes xs :: "int list"
  assumes "distinct xs" and "f \<in> set xs" and "\<forall>d \<in> set xs. d \<le> f"
  shows "\<exists>ds. sort xs = ds @ [f] \<and> f \<notin> set ds"
proof -
  have ne: "sort xs \<noteq> []" using assms(2) by (metis empty_iff empty_set set_sort)
  define ds where "ds = butlast (sort xs)"
  have split: "sort xs = ds @ [last (sort xs)]" using append_butlast_last_id [OF ne] by (simp add: ds_def)
  have "last (sort xs) \<in> set xs" using last_in_set [OF ne] by simp
  moreover have "f \<in> set ds \<or> f = last (sort xs)"
    using assms(2) split by (metis set_sort Un_iff empty_iff empty_set set_ConsD set_append)
  moreover have "\<forall>d \<in> set ds. d \<le> last (sort xs)"
    using sorted_sort [of xs] by (subst (asm) split) (simp add: sorted_append)
  ultimately have "last (sort xs) = f" using assms(3) by fastforce
  then have s: "sort xs = ds @ [f]" using split by simp
  moreover have "distinct (sort xs)" using assms(1) by simp
  ultimately have "f \<notin> set ds" by simp
  with s show ?thesis by blast
qed

lemma message_ok_update:
  assumes ok: "message_ok tbl po mti vs" and f: "f \<in> fst ` set vs" "map_of tbl f = Some fs"
    and v: "de_ok (fs, po) v"
  shows "message_ok tbl po mti (AList.update f v vs)"
proof -
  have keys: "map fst (AList.update f v vs) = map fst vs" using f(1) by (simp add: update_keys)
  then have "fst ` set (AList.update f v vs) = fst ` set vs" by (metis set_map)
  moreover have "des_ok tbl po (AList.update f v vs) (map fst vs)"
    unfolding des_ok_def
  proof
    fix d assume "d \<in> set (map fst vs)"
    then have "case map_of tbl d of None \<Rightarrow> False | Some spec \<Rightarrow> de_ok (spec, po) (or_default [] (map_of vs d))"
      using ok by (auto simp: message_ok_def des_ok_def)
    then show "case map_of tbl d of None \<Rightarrow> False
        | Some spec \<Rightarrow> de_ok (spec, po) (or_default [] (map_of (AList.update f v vs) d))"
      using f(2) v by (cases "d = f") (auto simp: update_conv' split: option.splits)
  qed
  ultimately show ?thesis using ok keys by (simp add: message_ok_def)
qed

lemma stamped_verifies:
  fixes vs :: de_values and spec :: mac_spec
  defines "f \<equiv> m_field spec"
  defines "vs0 \<equiv> AList.update f zero_mac vs"
  assumes enc: "resolve_encoding enc = Inr po" and f: "m_field spec \<in> {64, 128}"
    and len: "m_length spec \<le> 8" and below: "\<forall>d \<in> fst ` set vs. d \<le> m_field spec"
    and fs: "map_of tbl (m_field spec) = Some fs" and b: "py_lower (s_type fs) = ''b''"
    and ok: "message_ok tbl po mti vs0"
  shows "\<exists>wire r mac. mac_value mac \<and> pack_with_mac mti vs tbl enc spec algorithm = Inr wire \<and>
    unpack_and_verify wire tbl enc (Some (spec, algorithm)) True =
      Inr (r, Some \<lparr>v_present = True, v_ok = Some True, v_field = f, v_error = None\<rparr>) \<and>
    shows_message tbl mti (AList.update f mac vs0) [] r"
proof -
  have keys0: "f \<in> fst ` set vs0" by (metis list.set_map update_keys vs0_def Un_insert_right
      append_Nil2 in_set_conv_decomp list.simps(15) set_append insertI1)
  have bound: "\<forall>d \<in> set (map fst vs0). d \<le> f"
    using below by (auto simp: vs0_def f_def update_keys split: if_splits)
  have dist: "distinct (map fst vs0)" using ok by (simp add: message_ok_def)
  obtain ds where ds: "sort (map fst vs0) = ds @ [f]" "f \<notin> set ds"
    using sort_max_last [OF dist _ bound] keys0 by auto
  have val0: "map_of vs0 f = Some zero_mac" by (simp add: vs0_def update_conv')
  obtain h fo m0 where h: "field_options fs po = Inr fo" "pack_de fs fo zero_mac = Inr m0"
      "pack mti vs0 tbl enc = Inr (h @ m0)"
    and same: "\<And>ws m'. sort (map fst ws) = ds @ [f] \<Longrightarrow> \<forall>d \<in> set ds. map_of ws d = map_of vs0 d \<Longrightarrow>
       pack_de fs fo (or_default [] (map_of ws f)) = Inr m' \<Longrightarrow> pack mti ws tbl enc = Inr (h @ m')"
    using pack_last_field [OF enc ok ds(1)] fs val0 by (auto simp: f_def)
  have mac_len: "mac_field_wire_length tbl spec enc = Inr (int (length m0))"
    by (rule mac_field_wire_length_eq [OF enc f fs h(1,2)])
  have m0: "0 < length m0" using mac_field_length [OF mac_value_zero mac_value_zero b h(2) h(2)] by simp
  define mac where "mac = mac_hex spec algorithm h"
  have mac: "mac_value mac" using mac_value_hex [OF len] by (simp add: mac_def)
  define vs1 where "vs1 = AList.update f mac vs0"
  have de0: "de_ok (fs, po) zero_mac"
    using ok keys0 fs val0 by (force simp: message_ok_def des_ok_def f_def)
  have ok1: "message_ok tbl po mti vs1"
    unfolding vs1_def using fs
    by (intro message_ok_update [OF ok keys0 _ mac_value_ok [OF mac b de0 mac_value_zero]]) (simp add: f_def)
  have keys1: "sort (map fst vs1) = ds @ [f]" using ds(1) keys0 by (simp add: vs1_def update_keys)
  have val1: "map_of vs1 f = Some mac" "\<forall>d \<in> set ds. map_of vs1 d = map_of vs0 d"
    using ds(2) by (auto simp: vs1_def update_conv')
  obtain m1 where m1: "pack_de fs fo mac = Inr m1"
    using pack_last_field [OF enc ok1 keys1] fs val1 h(1) by (auto simp: f_def)
  have wire: "pack mti vs1 tbl enc = Inr (h @ m1)" using same [OF keys1 val1(2)] val1(1) m1 by simp
  have len1: "length m1 = length m0"
    using mac_field_length(1) [OF mac mac_value_zero b m1 h(2)] .
  have "\<not> (\<exists>d \<in> fst ` set vs. f < d)" using below by (auto simp: f_def)
  then have packed: "pack_with_mac mti vs tbl enc spec algorithm = Inr (h @ m1)"
    using h(3) mac_len wire cut_end_append [OF refl m0]
    by (simp add: pack_with_mac_def mac_def vs1_def vs0_def flip: f_def)
  obtain r where r: "unpack (h @ m1) tbl enc True = Inr r" "shows_message tbl mti vs1 [] r"
    using pack_unpack [OF enc ok1, of True] wire by (metis Inr_inject append_Nil2)
  have "map_of (map (entry_of tbl vs1) (ds @ [f])) f = Some (snd (entry_of tbl vs1 f))"
  proof -
    have "entry_of tbl vs1 = (\<lambda>d. (d, snd (entry_of tbl vs1 d)))" by (simp add: fun_eq_iff entry_of_def)
    then show ?thesis
      using map_of_map_Pair [of f "ds @ [f]" "\<lambda>d. snd (entry_of tbl vs1 d)"] by simp
  qed
  then have entry: "map_of (r_fields r) f = Some (snd (entry_of tbl vs1 f))" "r_de_list r = ds @ [f]"
    using r(2) keys1 by (simp_all add: shows_message_def)
  have "Max (set (ds @ [f])) = f"
  proof (rule Max_eqI)
    show "y \<le> f" if "y \<in> set (ds @ [f])" for y using that bound ds(1) by (metis set_sort)
  qed simp_all
  moreover have "py_upper mac = mac" using mac by (auto simp: mac_value_def py_upper_upper_hex)
  moreover have "cut_end (int (length m0)) (h @ m1) = h" using cut_end_append [OF len1 m0] .
  ultimately have "unpack_and_verify (h @ m1) tbl enc (Some (spec, algorithm)) True =
      Inr (r, Some \<lparr>v_present = True, v_ok = Some True, v_field = f, v_error = None\<rparr>)"
    using r(1) entry val1(1) mac_len
    by (simp add: unpack_and_verify_def verify_mac_def Let_def entry_of_def flip: f_def mac_def)
  then show ?thesis using packed r(2) mac by (auto simp: vs1_def)
qed

lemma resolve_mac_spec_ok:
  "resolve_mac_spec rp spec = Inr (Some m) \<Longrightarrow>
   m_field m \<in> {64, 128} \<and> m_length m \<in> {4, 8} \<and> m_key m \<noteq> '''' \<and>
   m_on_failure m \<in> {''warn'', ''reject''}"
  by (auto simp: resolve_mac_spec_def MAC_FIELDS_def ALGORITHMS_def ON_FAILURE_def result_iff Let_def
      split: if_splits pyv.splits sum.splits option.splits)

lemma resolve_mac_spec_None: "resolve_mac_spec rp spec = Inr None \<Longrightarrow> mac_absent spec"
  by (auto simp: resolve_mac_spec_def result_iff Let_def
      split: if_splits pyv.splits sum.splits option.splits)

lemma resolve_mac_spec_error:
  "resolve_mac_spec rp spec = Inl e \<Longrightarrow> e \<in> {MacSpecError, ValueError, TypeError}"
  by (auto simp: resolve_mac_spec_def result_iff Let_def
      split: if_splits pyv.splits sum.splits option.splits dest: int_of_error)

section \<open>Properties\<close>


definition sample_mac :: mac_spec where
  "sample_mac = \<lparr>m_field = 128, m_algorithm = Retail_Mac, m_key = ''0011'', m_length = 4,
     m_on_failure = ''warn''\<rparr>"


text \<open>A \<open>mac\<close> block is either absent, or gives a specification with field 64 or 128, a length of 4
  or 8 bytes, a key and a known failure mode, or is refused: a typo never means "no MAC".
\<close>

theorem mac_block_checked:
  "(resolve_mac_spec rp spec = Inr None \<and> mac_absent spec) \<or>
   (\<exists>m. resolve_mac_spec rp spec = Inr (Some m) \<and> m_field m \<in> {64, 128} \<and> m_length m \<in> {4, 8} \<and>
      m_key m \<noteq> '''' \<and> m_on_failure m \<in> {''warn'', ''reject''}) \<or>
   (\<exists>e \<in> {MacSpecError, ValueError, TypeError}. resolve_mac_spec rp spec = Inl e)"
proof (cases "resolve_mac_spec rp spec")
  case (Inl e)
  then show ?thesis using resolve_mac_spec_error by blast
next
  case (Inr r)
  then show ?thesis using resolve_mac_spec_ok resolve_mac_spec_None by (cases r) blast+
qed

end
