(* ===== verification/Iso_Tlv.thy ===== *)
theory Iso_Tlv
  imports Py_Values
begin

unbundle bit_operations_syntax

text \<open>
  EMV BER-TLV (\<open>payprobe_common/iso8583/tlv.py\<close>): the parser of nested tag, length, value trees, the
  builder, and the flat map of tags. The parser runs over the bytes still to be read; the position
  \<open>i\<close> of the code is what has been dropped.
\<close>

section \<open>The functions\<close>

definition EMV_TAGS :: "(ustr \<times> string) list" where
  "EMV_TAGS =
    [(u ''4F'', ''Application Identifier (AID)''), (u ''50'', ''Application Label''),
     (u ''57'', ''Track 2 Equivalent Data''), (u ''5A'', ''Application PAN''),
     (u ''82'', ''Application Interchange Profile (AIP)''), (u ''84'', ''Dedicated File Name''),
     (u ''8A'', ''Authorisation Response Code''),
     (u ''95'', ''Terminal Verification Results (TVR)''), (u ''9A'', ''Transaction Date''),
     (u ''9C'', ''Transaction Type''), (u ''5F2A'', ''Transaction Currency Code''),
     (u ''5F34'', ''PAN Sequence Number''), (u ''9F02'', ''Amount, Authorised''),
     (u ''9F03'', ''Amount, Other''), (u ''9F10'', ''Issuer Application Data (IAD)''),
     (u ''9F1A'', ''Terminal Country Code''),
     (u ''9F26'', ''Application Cryptogram (ARQC/TC/AAC)''),
     (u ''9F27'', ''Cryptogram Information Data''), (u ''9F33'', ''Terminal Capabilities''),
     (u ''9F34'', ''CVM Results''), (u ''9F36'', ''Application Transaction Counter (ATC)''),
     (u ''9F37'', ''Unpredictable Number''), (u ''9F1E'', ''IFD Serial Number''),
     (u ''9F09'', ''Application Version Number''), (u ''9F35'', ''Terminal Type''),
     (u ''9F53'', ''Transaction Category Code''), (u ''9F6E'', ''Form Factor Indicator'')]"

datatype node =
  Node (n_tag: ustr) (n_name: "string option") (n_length: nat)
    (n_value: "ustr option") (n_children: "node list option")

text \<open>The bytes of a multi-byte tag behind the first one, up to one without the high bit.\<close>

fun tag_rest :: "byte list \<Rightarrow> byte list \<times> byte list" where
  "tag_rest [] = ([], [])"
| "tag_rest (b # bs) =
     (if b AND 0x80 = 0 then ([b], bs) else (case tag_rest bs of (t, r) \<Rightarrow> (b # t, r)))"

lemma length_tag_rest: "tag_rest bs = (t, r) \<Longrightarrow> length r \<le> length bs"
  by (induction bs arbitrary: t r) (auto split: if_splits prod.splits)

definition tag_split :: "byte \<Rightarrow> byte list \<Rightarrow> byte list \<times> byte list" where
  "tag_split first rest =
     (if first AND 0x1F = 0x1F then (case tag_rest rest of (t, r) \<Rightarrow> (first # t, r)) else ([first], rest))"

lemma length_tag_split: "tag_split b bs = (t, r) \<Longrightarrow> length r \<le> length bs"
  by (auto simp: tag_split_def length_tag_rest split: if_splits prod.splits)

definition length_split :: "byte \<Rightarrow> byte list \<Rightarrow> nat \<times> byte list" where
  "length_split b bs =
     (if b AND 0x80 \<noteq> 0
      then (let n = unat (b AND 0x7F) in (from_be (take n bs), drop n bs))
      else (unat b, bs))"

lemma length_length_split: "length_split b bs = (n, r) \<Longrightarrow> length r \<le> length bs"
  by (auto simp: length_split_def Let_def split: if_splits)

lemma element_shorter:
  "tag_split b bs = (t, lb # r) \<Longrightarrow> length_split lb r = (n, r2) \<Longrightarrow> length r2 < length bs"
  using length_tag_split [of b bs t "lb # r"] length_length_split [of lb r n r2] by simp

function tlv :: "byte list \<Rightarrow> node list" where
  "tlv [] = []"
| "tlv (first # rest) =
     (case tag_split first rest of (tag_bytes, rest) \<Rightarrow>
        case rest of
          [] \<Rightarrow> []
        | length_byte # rest \<Rightarrow>
            (case length_split length_byte rest of (len, rest) \<Rightarrow>
               let tag = hex_upper tag_bytes; name = map_of EMV_TAGS tag; val = take len rest in
               (if first AND 0x20 \<noteq> 0 then Node tag name len None (Some (tlv val))
                else Node tag name len (Some (hex_upper val)) None) # tlv (drop len rest)))"
  by pat_completeness auto
termination
  by (relation "measure length") (auto dest!: element_shorter [OF sym sym])

declare tlv.simps(2) [simp del]

definition parse_tlv :: "ustr \<Rightarrow> node list result" where
  "parse_tlv hexstr = rbind (of_option ValueError (fromhex hexstr)) (\<lambda>data. Inr (tlv data))"

text \<open>\<open>walk\<close> of \<open>tag_map\<close>: the first occurrence of a tag wins.\<close>

fun walk :: "node list \<Rightarrow> (ustr \<times> ustr) list \<Rightarrow> (ustr \<times> ustr) list" where
  "walk [] out = out"
| "walk (Node tag name len val (Some children) # nodes) out = walk nodes (walk children out)"
| "walk (Node tag name len val None # nodes) out =
     walk nodes (if tag \<in> fst ` set out then out else out @ [(tag, or_default [] val)])"

definition tag_map :: "ustr \<Rightarrow> (ustr \<times> ustr) list result" where
  "tag_map hexstr =
     rbind (parse_tlv (filter (\<lambda>c. \<not> is_ws c) hexstr)) (\<lambda>nodes. Inr (walk nodes []))"

fun min_bytes :: "nat \<Rightarrow> byte list" where
  "min_bytes n = (if n < 256 then [byte_of n] else min_bytes (n div 256) @ [byte_of (n mod 256)])"

declare min_bytes.simps [simp del]

definition encode_len :: "nat \<Rightarrow> byte list" where
  "encode_len n =
     (if n < 0x80 then [byte_of n]
      else (let body = min_bytes n in byte_of (0x80 + length body) # body))"

function build_tlv :: "node list \<Rightarrow> ustr result" where
  "build_tlv [] = Inr []"
| "build_tlv (Node tag name len val children # nodes) =
     rbind (of_option ValueError (fromhex tag)) (\<lambda>tag.
     rbind (if or_default [] children \<noteq> []
            then rbind (build_tlv (or_default [] children)) (\<lambda>h. of_option ValueError (fromhex h))
            else of_option ValueError (fromhex (filter (\<lambda>c. c \<noteq> 32) (or_default [] val)))) (\<lambda>v.
     rbind (build_tlv nodes) (\<lambda>rest.
       Inr (hex_upper (tag @ encode_len (length v) @ v) @ rest))))"
  by pat_completeness auto
termination
  by (relation "measure (size_list size)") (auto simp: or_default_def split: option.splits)

section \<open>Lengths\<close>

lemma byte_low: "unat ((b :: byte) AND 0x7F) = unat b mod 128"
proof -
  have "b AND 0x7F = take_bit 7 b" by (simp add: take_bit_eq_mask mask_eq_exp_minus_1)
  then show ?thesis by (simp add: take_bit_eq_mod unat_mod)
qed

lemma byte_high: "(b :: byte) AND 0x80 = 0 \<longleftrightarrow> unat b < 128"
proof -
  have "b AND 0x80 = 0 \<longleftrightarrow> \<not> bit b 7" using and_exp_eq_0_iff_not_bit [of b 7] by simp
  also have "bit b 7 \<longleftrightarrow> bit (unat b) 7" by (simp add: bit_unsigned_iff)
  also have "\<dots> \<longleftrightarrow> odd (unat b div 128)" by (simp add: bit_iff_odd)
  also have "\<dots> \<longleftrightarrow> \<not> unat b < 128"
  proof -
    have "unat b div 128 < 2" using unat_byte_less [of b] by linarith
    moreover have "unat b div 128 = 0 \<longleftrightarrow> unat b < 128" by auto
    ultimately show ?thesis by (metis One_nat_def even_zero less_2_cases odd_one)
  qed
  finally show ?thesis by simp
qed

lemma from_be_min_bytes: "from_be (min_bytes n) = n"
proof (induction n rule: min_bytes.induct)
  case (1 n)
  then show ?case by (subst min_bytes.simps) (simp add: from_be_def)
qed

lemma length_min_bytes: "n < 256 ^ k \<Longrightarrow> 0 < k \<Longrightarrow> length (min_bytes n) \<le> k"
proof (induction n arbitrary: k rule: min_bytes.induct)
  case (1 n)
  show ?case
  proof (cases "n < 256")
    case True
    then show ?thesis using "1.prems" by (subst min_bytes.simps) simp
  next
    case False
    then obtain j where k: "k = Suc j" "0 < j" using "1.prems" by (cases k; cases "k - 1") auto
    then have "n div 256 < 256 ^ j" using "1.prems" by (simp add: less_mult_imp_div_less mult.commute)
    then have "length (min_bytes (n div 256)) \<le> j" using "1.IH" False k by simp
    then show ?thesis using False k by (subst min_bytes.simps) simp
  qed
qed

lemma min_bytes_nonempty: "0 < length (min_bytes n)"
  by (subst min_bytes.simps) simp

text \<open>Values shorter than \<open>256 ^ 127\<close> bytes: the long form has at most 127 length bytes.\<close>

definition tlv_limit :: nat where
  "tlv_limit = 256 ^ 127"

lemma length_split_encode_len:
  assumes "n < tlv_limit"
  shows "\<exists>b bs. encode_len n = b # bs \<and> (\<forall>rest. length_split b (bs @ rest) = (n, rest))"
proof (cases "n < 0x80")
  case True
  then have "unat (byte_of n) = n" by simp
  then have "byte_of n AND 0x80 = 0" using True byte_high by simp
  then show ?thesis using True \<open>unat (byte_of n) = n\<close> by (simp add: encode_len_def length_split_def)
next
  case False
  define k where "k = length (min_bytes n)"
  have k: "0 < k" "k \<le> 127" using length_min_bytes [OF assms [unfolded tlv_limit_def]] min_bytes_nonempty by (simp_all add: k_def)
  then have b: "unat (byte_of (128 + k)) = 128 + k" by simp
  then have "byte_of (128 + k) AND 0x80 \<noteq> 0" using byte_high by simp
  moreover have "unat (byte_of (128 + k) AND 0x7F) = k" using b k by (simp add: byte_low)
  ultimately show ?thesis using False
    by (simp add: encode_len_def length_split_def Let_def k_def from_be_min_bytes)
qed

section \<open>Tags\<close>

fun continued :: "byte list \<Rightarrow> bool" where
  "continued [] = False"
| "continued [b] = (b AND 0x80 = 0)"
| "continued (b # bs) = (b AND 0x80 \<noteq> 0 \<and> continued bs)"

definition tag_ok :: "byte list \<Rightarrow> bool" where
  "tag_ok tag = (case tag of [] \<Rightarrow> False
     | first # more \<Rightarrow> if first AND 0x1F = 0x1F then continued more else more = [])"

lemma tag_rest_continued: "continued t \<Longrightarrow> tag_rest (t @ r) = (t, r)"
  by (induction t rule: continued.induct) auto

lemma tag_split_ok: "tag_ok (first # more) \<Longrightarrow> tag_split first (more @ rest) = (first # more, rest)"
  by (auto simp: tag_ok_def tag_split_def tag_rest_continued split: if_splits)

section \<open>Trees that can be written\<close>

text \<open>The tree of a value as a user writes it, and the tree the parser gives for it.\<close>

definition tag_bytes_of :: "ustr \<Rightarrow> byte list" where
  "tag_bytes_of tag = or_default [] (fromhex tag)"

function wire_bytes :: "node list \<Rightarrow> byte list" where
  "wire_bytes [] = []"
| "wire_bytes (Node tag name len val children # nodes) =
     (let v = (if or_default [] children \<noteq> [] then wire_bytes (or_default [] children)
               else tag_bytes_of (or_default [] val))
      in tag_bytes_of tag @ encode_len (length v) @ v @ wire_bytes nodes)"
  by pat_completeness auto
termination
  by (relation "measure (size_list size)") (auto simp: or_default_def split: option.splits)

text \<open>
  A node is writable when its tag is a BER tag in upper-case hexadecimal, its constructed bit says
  whether it has children, and a primitive value is upper-case hexadecimal of whole bytes.
\<close>

function writable :: "node list \<Rightarrow> bool" where
  "writable [] = True"
| "writable (Node tag name len val children # nodes) =
     ((\<forall>c \<in> set tag. is_upper_hex c) \<and> even (length tag) \<and> tag_ok (tag_bytes_of tag) \<and>
      length (wire_bytes [Node tag name len val children]) < tlv_limit \<and>
      (case children of
         None \<Rightarrow> hd (tag_bytes_of tag) AND 0x20 = 0 \<and>
           (\<forall>c \<in> set (or_default [] val). is_upper_hex c) \<and> even (length (or_default [] val))
       | Some ch \<Rightarrow> hd (tag_bytes_of tag) AND 0x20 \<noteq> 0 \<and> ch \<noteq> [] \<and> writable ch) \<and>
      writable nodes)"
  by pat_completeness auto
termination
  by (relation "measure (size_list size)") auto

function normal :: "node list \<Rightarrow> node list" where
  "normal [] = []"
| "normal (Node tag name len val children # nodes) =
     Node tag (map_of EMV_TAGS tag)
       (length (if or_default [] children \<noteq> [] then wire_bytes (or_default [] children)
                else tag_bytes_of (or_default [] val)))
       (case children of None \<Rightarrow> Some (or_default [] val) | Some _ \<Rightarrow> None)
       (case children of None \<Rightarrow> None | Some ch \<Rightarrow> Some (normal ch)) # normal nodes"
  by pat_completeness auto
termination
  by (relation "measure (size_list size)") auto

lemma upper_hex_bytes:
  assumes "\<forall>c \<in> set s. is_upper_hex c" and "even (length s)"
  shows "fromhex s = Some (tag_bytes_of s)" and "hex_upper (tag_bytes_of s) = s"
proof -
  obtain bs where "fromhex s = Some bs" "hex_upper bs = s"
    using fromhex_upper_hex assms by blast
  then show "fromhex s = Some (tag_bytes_of s)" and "hex_upper (tag_bytes_of s) = s"
    by (simp_all add: tag_bytes_of_def)
qed

lemma build_tlv_bytes: "writable nodes \<Longrightarrow> build_tlv nodes = Inr (hex_upper (wire_bytes nodes))"
proof (induction nodes rule: writable.induct)
  case 1
  then show ?case by simp
next
  case (2 tag name len val children nodes)
  note w = "2.prems" [unfolded writable.simps]
  have tag: "fromhex tag = Some (tag_bytes_of tag)" using w upper_hex_bytes(1) by blast
  have nodes: "build_tlv nodes = Inr (hex_upper (wire_bytes nodes))" using "2.IH"(2) w by blast
  show ?case
  proof (cases children)
    case None
    have v: "\<forall>c \<in> set (or_default [] val). is_upper_hex c" "even (length (or_default [] val))"
      using w None by simp_all
    have "c \<noteq> 32" if "is_upper_hex c" for c using that by (auto simp: is_upper_hex_def)
    then have "filter (\<lambda>c. c \<noteq> 32) (or_default [] val) = or_default [] val"
      using v(1) by (intro filter_True) blast
    then show ?thesis using None tag nodes upper_hex_bytes(1) [OF v] by (simp add: Let_def)
  next
    case (Some ch)
    then have "build_tlv ch = Inr (hex_upper (wire_bytes ch))" "ch \<noteq> []"
      using "2.IH"(1) [OF Some] w by simp_all
    then show ?thesis using Some tag nodes by (simp add: Let_def fromhex_hex_upper)
  qed
qed

lemma tlv_element:
  assumes "tag_ok tag" and "length v < tlv_limit"
  shows "tlv (tag @ encode_len (length v) @ v @ rest) =
    (if hd tag AND 0x20 \<noteq> 0
     then Node (hex_upper tag) (map_of EMV_TAGS (hex_upper tag)) (length v) None (Some (tlv v))
     else Node (hex_upper tag) (map_of EMV_TAGS (hex_upper tag)) (length v) (Some (hex_upper v)) None) #
    tlv rest"
proof -
  obtain first more where tag: "tag = first # more" using assms(1) by (cases tag) (auto simp: tag_ok_def)
  obtain b bs where e: "encode_len (length v) = b # bs"
    "\<And>rest. length_split b (bs @ rest) = (length v, rest)"
    using length_split_encode_len [OF assms(2)] by blast
  show ?thesis
    using tag_split_ok [of first more "b # bs @ v @ rest"] assms(1) e
    by (simp add: tag tlv.simps(2) Let_def)
qed

lemma tlv_wire_bytes: "writable nodes \<Longrightarrow> tlv (wire_bytes nodes) = normal nodes"
proof (induction nodes rule: writable.induct)
  case 1
  then show ?case by simp
next
  case (2 tag name len val children nodes)
  define v where "v = (if or_default [] children \<noteq> [] then wire_bytes (or_default [] children)
    else tag_bytes_of (or_default [] val))"
  have "length v < tlv_limit" using "2.prems" by (simp add: Let_def flip: v_def)
  moreover have tag: "tag_ok (tag_bytes_of tag)" "hex_upper (tag_bytes_of tag) = tag"
    using "2.prems" upper_hex_bytes by simp_all
  ultimately have e: "tlv (wire_bytes (Node tag name len val children # nodes)) =
    (if hd (tag_bytes_of tag) AND 0x20 \<noteq> 0
     then Node tag (map_of EMV_TAGS tag) (length v) None (Some (tlv v))
     else Node tag (map_of EMV_TAGS tag) (length v) (Some (hex_upper v)) None) # tlv (wire_bytes nodes)"
    using tlv_element [of "tag_bytes_of tag" v "wire_bytes nodes"] by (simp add: Let_def flip: v_def)
  show ?case
  proof (cases children)
    case None
    then have "hex_upper v = or_default [] val" using "2.prems" upper_hex_bytes by (simp add: v_def)
    moreover have "tlv (wire_bytes nodes) = normal nodes" using "2.IH"(2) "2.prems" by simp
    ultimately show ?thesis using "2.prems" None e by (simp add: v_def)
  next
    case (Some ch)
    then have "tlv v = normal ch" "ch \<noteq> []"
      using "2.IH"(1) [OF Some] "2.prems" by (simp_all add: v_def)
    moreover have "tlv (wire_bytes nodes) = normal nodes" using "2.IH"(2) "2.prems" by simp
    ultimately show ?thesis using "2.prems" Some e by (simp add: v_def)
  qed
qed

section \<open>The flat map\<close>

text \<open>The primitive nodes in the order of a walk through the tree.\<close>

fun leaves :: "node list \<Rightarrow> (ustr \<times> ustr) list" where
  "leaves [] = []"
| "leaves (Node tag name len val (Some children) # nodes) = leaves children @ leaves nodes"
| "leaves (Node tag name len val None # nodes) = (tag, or_default [] val) # leaves nodes"

lemma map_of_snoc_new: "k \<notin> fst ` set xs \<Longrightarrow> map_of (xs @ [(k, v)]) k = Some v"
  by (metis dom_map_of_conv_image_fst map_add_dom_app_simps(3) map_of_Cons_code(2) map_of_append)

lemma walk_leaves: "map_of (walk nodes out) = map_of (out @ leaves nodes) \<and>
   (distinct (map fst out) \<longrightarrow> distinct (map fst (walk nodes out)))"
proof (induction nodes out rule: walk.induct)
  case (1 out)
  then show ?case by simp
next
  case (2 tag name len val children nodes out)
  then show ?case by simp
next
  case (3 tag name len val nodes out)
  show ?case
  proof (cases "tag \<in> fst ` set out")
    case True
    then have "map_of out tag \<noteq> None" by (simp add: map_of_eq_None_iff)
    then have "map_of (out @ (tag, or_default [] val) # leaves nodes) = map_of (out @ leaves nodes)"
      by (auto simp: fun_eq_iff map_add_def split: option.splits)
    then show ?thesis using True 3 by simp
  next
    case False
    then show ?thesis using 3 by (auto simp: image_iff)
  qed
qed

section \<open>Properties\<close>

text \<open>Building a writable tree succeeds, and parsing the result gives the tree back, with the name of
  each known tag and the actual lengths filled in: for every nesting, multi-byte tags, and values
  of any length the long form can count.
\<close>

theorem tlv_build_then_parse:
  assumes "writable nodes"
  shows "\<exists>h. build_tlv nodes = Inr h \<and> parse_tlv h = Inr (normal nodes)"
  using build_tlv_bytes [OF assms] tlv_wire_bytes [OF assms] by (simp add: parse_tlv_def fromhex_hex_upper)

definition sample_tree :: "node list" where
  "sample_tree =
     [Node (u ''9F02'') None 0 (Some (u ''000000010000'')) None,
      Node (u ''70'') None 0 None (Some [Node (u ''5A'') None 0 (Some (u ''4111'')) None])]"

lemma tlv_build_then_parse_witness:
  "\<exists>h. build_tlv sample_tree = Inr h \<and> parse_tlv h = Inr
     [Node (u ''9F02'') (Some ''Amount, Authorised'') 6 (Some (u ''000000010000'')) None,
      Node (u ''70'') None 4 None
        (Some [Node (u ''5A'') (Some ''Application PAN'') 2 (Some (u ''4111'')) None])]"
proof -
  have "writable sample_tree"
    by (simp add: sample_tree_def u_def is_upper_hex_def tag_bytes_of_def hexval_def is_space_def
        tag_ok_def byte_of_def encode_len_def tlv_limit_def)
  moreover have "normal sample_tree =
     [Node (u ''9F02'') (Some ''Amount, Authorised'') 6 (Some (u ''000000010000'')) None,
      Node (u ''70'') None 4 None
        (Some [Node (u ''5A'') (Some ''Application PAN'') 2 (Some (u ''4111'')) None])]"
    by (simp add: sample_tree_def u_def tag_bytes_of_def hexval_def is_space_def byte_of_def
        encode_len_def EMV_TAGS_def)
  ultimately show ?thesis using tlv_build_then_parse [of sample_tree] by simp
qed

text \<open>
  \<open>tag_map\<close> accepts exactly what \<open>parse_tlv\<close> accepts once white space is removed, and maps each
  tag to the value of its first primitive occurrence, those inside constructed elements included.
\<close>

theorem tag_map_first_occurrence:
  "(\<exists>nodes. parse_tlv (filter (\<lambda>c. \<not> is_ws c) h) = Inr nodes \<and>
      (\<exists>m. tag_map h = Inr m \<and> distinct (map fst m) \<and> map_of m = map_of (leaves nodes))) \<or>
   (parse_tlv (filter (\<lambda>c. \<not> is_ws c) h) = Inl ValueError \<and> tag_map h = Inl ValueError)"
proof (cases "parse_tlv (filter (\<lambda>c. \<not> is_ws c) h)")
  case (Inl e)
  then have "e = ValueError" by (simp add: parse_tlv_def result_iff)
  then show ?thesis using Inl by (simp add: tag_map_def)
next
  case (Inr nodes)
  then show ?thesis using walk_leaves [of nodes "[]"] by (simp add: tag_map_def)
qed

end
