(* ===== verification/Framing.thy ===== *)
theory Framing
  imports Py_Values Wire_Format
begin

text \<open>
  Length-prefix framing of a TCP stream (\<open>worker/adapters/tcp/framing.py\<close>) and the read side of the
  client adapter (\<open>TcpAdapter._read_frame\<close>, \<open>_reader_loop\<close> in \<open>adapter.py\<close>): the prefix in its
  three encodings, the fixed blocks, the configuration, one frame, a stream of frames.
\<close>

section \<open>The length prefix\<close>

datatype length_mode = LBinary | LAscii | LBcd

definition LENGTH_ENCODINGS :: "(string \<times> length_mode) list" where
  "LENGTH_ENCODINGS = [(''binary'', LBinary), (''ascii'', LAscii), (''bcd'', LBcd)]"

definition LENGTH_ENCODING_ALIASES :: "(string \<times> string) list" where
  "LENGTH_ENCODING_ALIASES =
     [(''chardec'', ''ascii''), (''char'', ''ascii''), (''decimal'', ''ascii''), (''bin'', ''binary'')]"

definition normalise_length_encoding :: "(pyv \<Rightarrow> string) \<Rightarrow> pyv \<Rightarrow> length_mode result" where
  "normalise_length_encoding rp v =
     (let enc = py_lower (if truthy v then pystr rp v else ''binary'');
          enc = or_default enc (map_of LENGTH_ENCODING_ALIASES enc)
      in of_option ValueError (map_of LENGTH_ENCODINGS enc))"

definition length_capacity :: "nat \<Rightarrow> length_mode \<Rightarrow> nat" where
  "length_capacity k enc =
     (case enc of
        LAscii \<Rightarrow> 10 ^ k - 1
      | LBcd \<Rightarrow> 10 ^ (2 * k) - 1
      | LBinary \<Rightarrow> 2 ^ (8 * k) - 1)"

datatype byte_order = Big | Little

definition frame_encode_length :: "int \<Rightarrow> nat \<Rightarrow> byte_order \<Rightarrow> length_mode \<Rightarrow> byte list result" where
  "frame_encode_length val k order enc =
     (if val < 0 \<or> int (length_capacity k enc) < val then Inl ValueError
      else
        (let n = nat val in
         case enc of
           LAscii \<Rightarrow> ascii_encode (zfill k (dec n))
         | LBcd \<Rightarrow> of_option ValueError (fromhex (zfill (2 * k) (dec n)))
         | LBinary \<Rightarrow> Inr (if order = Big then be_bytes k n else rev (be_bytes k n))))"

definition frame_decode_length :: "byte list \<Rightarrow> byte_order \<Rightarrow> length_mode \<Rightarrow> nat result" where
  "frame_decode_length prefix order enc =
     (case enc of
        LAscii \<Rightarrow>
          (let txt = ascii_decode prefix in if \<not> py_isdigit txt then Inl ValueError else py_int txt)
      | LBcd \<Rightarrow>
          (let digits = hex_upper prefix in if \<not> py_isdigit digits then Inl ValueError else py_int digits)
      | LBinary \<Rightarrow> Inr (from_be (if order = Big then prefix else rev prefix)))"

section \<open>The frame specification\<close>

record frame_spec =
  fr_prefix_bytes :: nat
  fr_byte_order :: byte_order
  fr_length_encoding :: length_mode
  fr_length_includes_prefix :: bool
  fr_length_includes_header :: bool
  fr_tpdu_out :: "byte list"
  fr_tpdu_bytes :: nat
  fr_header_out :: "byte list"
  fr_header_bytes :: nat

definition hex_bytes :: "(pyv \<Rightarrow> string) \<Rightarrow> pyv \<Rightarrow> byte list result" where
  "hex_bytes rp v =
     of_option ValueError
       (fromhex (filter (\<lambda>c. c \<noteq> 32) (u (if truthy v then pystr rp v else ''''))))"

text \<open>The candidates for the outbound header, in the order of the code.\<close>

fun text_headers :: "(pyv \<Rightarrow> string) \<Rightarrow> pyv list \<Rightarrow> byte list list result" where
  "text_headers rp [] = Inr []"
| "text_headers rp (v # vs) =
     (if v = PNone \<or> v = PStr '''' then text_headers rp vs
      else case ascii_encode (u (pystr rp v)) of
             Inl _ \<Rightarrow> Inl ValueError
           | Inr bs \<Rightarrow> rbind (text_headers rp vs) (\<lambda>hs. Inr (bs # hs)))"

definition only_header :: "byte list list \<Rightarrow> byte list result" where
  "only_header candidates =
     (case remdups candidates of [] \<Rightarrow> Inr [] | [h] \<Rightarrow> Inr h | _ \<Rightarrow> Inl ValueError)"

definition header_from_config ::
  "(pyv \<Rightarrow> string) \<Rightarrow> (string \<times> pyv) list \<Rightarrow> (string \<times> pyv) list \<Rightarrow> byte list result" where
  "header_from_config rp config f =
     rbind (if truthy (get f ''header_hex'' PNone)
            then rbind (hex_bytes rp (get f ''header_hex'' PNone)) (\<lambda>h. Inr [h])
            else Inr []) (\<lambda>hex.
     rbind (text_headers rp [get f ''header'' PNone, get f ''mhdr'' PNone, get config ''mhdr'' PNone])
       (\<lambda>texts. only_header (hex @ texts)))"

definition byte_order_of :: "string \<Rightarrow> byte_order result" where
  "byte_order_of s =
     (if s = ''big'' then Inr Big else if s = ''little'' then Inr Little else Inl ValueError)"

definition framing_block :: "(string \<times> pyv) list \<Rightarrow> (string \<times> pyv) list result" where
  "framing_block config =
     (if truthy (get config ''framing'' PNone)
      then case get config ''framing'' PNone of PDict kvs \<Rightarrow> Inr kvs | _ \<Rightarrow> Inl TypeError
      else Inr [])"

text \<open>\<open>FrameSpec.from_config\<close>; a missing configuration is the empty one.\<close>

definition frame_from_config :: "(pyv \<Rightarrow> string) \<Rightarrow> (string \<times> pyv) list \<Rightarrow> frame_spec result" where
  "frame_from_config rp config =
     rbind (framing_block config) (\<lambda>f.
     rbind (int_of (get f ''length_prefix_bytes'' (PInt 2))) (\<lambda>prefix_bytes.
     if prefix_bytes < 1 then Inl ValueError else
     rbind (byte_order_of (py_lower (pystr rp (get f ''length_byte_order'' (PStr ''big''))))) (\<lambda>order.
     rbind (header_from_config rp config f) (\<lambda>header_out.
     rbind (if get f ''header_bytes'' PNone = PNone then Inr (int (length header_out))
            else int_of (get f ''header_bytes'' PNone)) (\<lambda>header_bytes.
     if header_bytes < 0 then Inl ValueError else
     rbind (int_of (get f ''tpdu_bytes'' (PInt 0))) (\<lambda>tpdu_bytes.
     if tpdu_bytes < 0 then Inl ValueError else
     rbind (normalise_length_encoding rp (get f ''length_encoding'' PNone)) (\<lambda>enc.
     rbind (hex_bytes rp (get f ''tpdu_outbound_hex'' PNone)) (\<lambda>tpdu_out.
     Inr \<lparr>fr_prefix_bytes = nat prefix_bytes, fr_byte_order = order, fr_length_encoding = enc,
          fr_length_includes_prefix = truthy (get f ''length_includes_prefix'' (PBool False)),
          fr_length_includes_header = truthy (get f ''length_includes_header'' (PBool True)),
          fr_tpdu_out = tpdu_out, fr_tpdu_bytes = nat tpdu_bytes,
          fr_header_out = header_out, fr_header_bytes = nat header_bytes\<rparr>))))))))"

section \<open>One frame\<close>

definition fixed_out :: "frame_spec \<Rightarrow> byte list" where
  "fixed_out s = fr_tpdu_out s @ fr_header_out s"

definition declared_length :: "frame_spec \<Rightarrow> byte list \<Rightarrow> nat" where
  "declared_length s body =
     (if fr_length_includes_header s then length (fixed_out s) + length body else length body) +
     (if fr_length_includes_prefix s then fr_prefix_bytes s else 0)"

definition frame_prefix :: "frame_spec \<Rightarrow> byte list \<Rightarrow> byte list result" where
  "frame_prefix s body =
     frame_encode_length (int (declared_length s body)) (fr_prefix_bytes s) (fr_byte_order s)
       (fr_length_encoding s)"

definition frame :: "frame_spec \<Rightarrow> byte list \<Rightarrow> byte list result" where
  "frame s body = rbind (frame_prefix s body) (\<lambda>p. Inr (p @ fixed_out s @ body))"

definition fixed_in :: "frame_spec \<Rightarrow> nat" where
  "fixed_in s = fr_tpdu_bytes s + fr_header_bytes s"

definition remaining_after_prefix :: "frame_spec \<Rightarrow> byte list \<Rightarrow> int result" where
  "remaining_after_prefix s prefix =
     rbind (frame_decode_length prefix (fr_byte_order s) (fr_length_encoding s)) (\<lambda>declared.
       let core = int declared - (if fr_length_includes_prefix s then int (fr_prefix_bytes s) else 0)
       in Inr (if fr_length_includes_header s then core else core + int (fixed_in s)))"

definition strip_inbound :: "frame_spec \<Rightarrow> byte list \<Rightarrow> byte list \<times> byte list" where
  "strip_inbound s data = (take (fixed_in s) data, drop (fixed_in s) data)"

section \<open>The read side\<close>

text \<open>\<open>readexactly(n)\<close> on the bytes the peer sends before it closes the connection.\<close>

definition readexactly :: "nat \<Rightarrow> byte list \<Rightarrow> (byte list \<times> byte list) result" where
  "readexactly n stream =
     (if length stream < n then Inl IncompleteReadError else Inr (take n stream, drop n stream))"

text \<open>\<open>_read_frame\<close>: the raw bytes in front of the body and the body, or nothing for an empty frame.\<close>

definition read_frame ::
  "frame_spec \<Rightarrow> byte list \<Rightarrow> ((byte list \<times> byte list) option \<times> byte list) result" where
  "read_frame s stream =
     rbind (readexactly (fr_prefix_bytes s) stream) (\<lambda>(prefix, rest).
     rbind (remaining_after_prefix s prefix) (\<lambda>remaining.
     if remaining \<le> 0 then Inr (None, rest)
     else rbind (readexactly (nat remaining) rest) (\<lambda>(data, rest).
       case strip_inbound s data of (fx, body) \<Rightarrow> Inr (Some (prefix @ fx, body), rest))))"

lemma read_frame_consumes:
  "read_frame s stream = Inr (Some f, rest) \<Longrightarrow> length rest < length stream"
  by (auto simp: read_frame_def result_iff readexactly_def strip_inbound_def split: if_splits)

text \<open>\<open>_reader_loop\<close>: the frames dispatched, and how the loop ends (an empty frame, or the error).\<close>

function read_loop ::
  "frame_spec \<Rightarrow> byte list \<Rightarrow> (byte list \<times> byte list) list \<times> py_error option" where
  "read_loop s stream =
     (case read_frame s stream of
        Inl e \<Rightarrow> ([], Some e)
      | Inr (None, rest) \<Rightarrow> ([], None)
      | Inr (Some f, rest) \<Rightarrow> (case read_loop s rest of (fs, e) \<Rightarrow> (f # fs, e)))"
  by auto
termination
  by (relation "measure (\<lambda>(s, stream). length stream)") (auto dest: read_frame_consumes)

declare read_loop.simps [simp del]

section \<open>The prefix reads back\<close>

lemma capacity_less: "0 < k \<Longrightarrow> n \<le> length_capacity k enc \<longleftrightarrow>
   n < (case enc of LAscii \<Rightarrow> 10 ^ k | LBcd \<Rightarrow> 10 ^ (2 * k) | LBinary \<Rightarrow> 256 ^ k)"
proof -
  assume "0 < k"
  have "n \<le> c - 1 \<longleftrightarrow> n < c" if "0 < c" for c using that by auto
  moreover have "(2 :: nat) ^ (8 * k) = 256 ^ k" by (simp add: power_mult)
  ultimately show ?thesis by (simp add: length_capacity_def split: length_mode.splits)
qed

lemma frame_encode_fits:
  assumes k: "0 < k" and fits: "n \<le> length_capacity k enc"
  shows "\<exists>bs. frame_encode_length (int n) k order enc = Inr bs \<and> length bs = k \<and>
    frame_decode_length bs order enc = Inr n"
proof (cases enc)
  case LBinary
  then have "n < 256 ^ k" using fits k capacity_less by fastforce
  then show ?thesis using LBinary fits
    by (simp add: frame_encode_length_def frame_decode_length_def from_be_be_bytes)
next
  case LAscii
  define s where "s = zfill k (dec n)"
  have "n < 10 ^ k" using LAscii fits k capacity_less by fastforce
  then have s: "length s = k" "s \<noteq> []" "\<forall>c \<in> set s. is_dec c" "undec s = n"
    using k length_zfill_dec zfill_is_dec undec_zfill_dec by (auto simp: s_def zfill_def)
  then obtain bs where bs: "ascii_encode s = Inr bs"
    using ascii_encode_upper_hex is_dec_upper_hex by blast
  then have "length bs = k" "ascii_decode bs = s" using s ascii_length ascii_inverse by auto
  then show ?thesis using LAscii fits s bs
    by (simp add: frame_encode_length_def frame_decode_length_def py_isdigit_dec py_int_dec flip: s_def)
next
  case LBcd
  define s where "s = zfill (2 * k) (dec n)"
  have "n < 10 ^ (2 * k)" using LBcd fits k capacity_less by fastforce
  then have s: "length s = 2 * k" "s \<noteq> []" "\<forall>c \<in> set s. is_dec c" "undec s = n"
    using k length_zfill_dec [of "2 * k" n] zfill_is_dec undec_zfill_dec by (auto simp: s_def zfill_def)
  then obtain bs where "fromhex s = Some bs" "hex_upper bs = s" "2 * length bs = length s"
    using fromhex_upper_hex [of s] is_dec_upper_hex by auto
  then show ?thesis using LBcd fits s
    by (simp add: frame_encode_length_def frame_decode_length_def py_isdigit_dec py_int_dec flip: s_def)
qed

lemma frame_encode_overflow:
  "frame_encode_length v k order enc = Inl ValueError" if "v < 0 \<or> int (length_capacity k enc) < v"
  using that by (auto simp: frame_encode_length_def)

section \<open>Frames read back\<close>

text \<open>
  Both ends agree on the fixed blocks when the widths stripped on receive are those sent; the frame
  then fits the prefix and is not empty.
\<close>

definition frame_ok :: "frame_spec \<Rightarrow> byte list \<Rightarrow> bool" where
  "frame_ok s body \<longleftrightarrow>
     0 < fr_prefix_bytes s \<and> fixed_in s = length (fixed_out s) \<and>
     declared_length s body \<le> length_capacity (fr_prefix_bytes s) (fr_length_encoding s) \<and>
     0 < length (fixed_out s) + length body"

definition read_body :: "byte list \<Rightarrow> nat \<Rightarrow> frame_spec \<Rightarrow> (byte list \<times> nat) result" where
  "read_body stream pos s =
     rbind (read_frame s (drop pos stream)) (\<lambda>(f, rest).
       case f of None \<Rightarrow> Inl IncompleteReadError
       | Some (fx, body) \<Rightarrow> Inr (body, length stream - length rest))"

lemma remaining_of_prefix:
  assumes k: "0 < fr_prefix_bytes s"
    and fits: "declared_length s body \<le> length_capacity (fr_prefix_bytes s) (fr_length_encoding s)"
  shows "\<exists>p. frame_prefix s body = Inr p \<and> length p = fr_prefix_bytes s \<and>
    frame s body = Inr (p @ fixed_out s @ body) \<and>
    remaining_after_prefix s p = Inr (int (length body) +
      (if fr_length_includes_header s then int (length (fixed_out s)) else int (fixed_in s)))"
proof -
  obtain p where p: "frame_encode_length (int (declared_length s body)) (fr_prefix_bytes s)
      (fr_byte_order s) (fr_length_encoding s) = Inr p" "length p = fr_prefix_bytes s"
      "frame_decode_length p (fr_byte_order s) (fr_length_encoding s) = Inr (declared_length s body)"
    using frame_encode_fits [OF k fits] by blast
  then show ?thesis
    by (simp add: frame_prefix_def frame_def remaining_after_prefix_def declared_length_def)
qed

lemma frame_reads_back:
  assumes "frame_ok s body"
  shows "\<exists>p. frame s body = Inr (p @ fixed_out s @ body) \<and>
    read_frame s ((p @ fixed_out s @ body) @ rest) = Inr (Some (p @ fixed_out s, body), rest)"
proof -
  obtain p where p: "length p = fr_prefix_bytes s" "frame s body = Inr (p @ fixed_out s @ body)"
    "remaining_after_prefix s p = Inr (int (length (fixed_out s @ body)))"
    using assms remaining_of_prefix [of s body] by (auto simp: frame_ok_def add.commute)
  have "fixed_in s = length (fixed_out s)" "\<not> int (length (fixed_out s)) + int (length body) \<le> 0"
    using assms by (auto simp: frame_ok_def simp del: of_nat_add simp flip: of_nat_add)
  then show ?thesis using p
    by (auto simp: read_frame_def readexactly_def strip_inbound_def nat_int_add simp flip: p(1))
qed

interpretation frame_wire: wire_format frame read_body frame_ok "\<lambda>_ body. body"
proof unfold_locales
  show "frame_ok k x \<Longrightarrow> \<exists>bs. frame k x = Inr bs" for k x
    using frame_reads_back by blast
  show "frame_ok k x \<Longrightarrow> frame k x = Inr bs \<Longrightarrow>
      read_body (pre @ bs @ post) (length pre) k = Inr (x, length pre + length bs)" for k x bs pre post
    using frame_reads_back [of k x post] by (auto simp: read_body_def)
qed

text \<open>A stream of frames, then the peer closes: every body arrives, in order, and the loop ends.\<close>

lemma read_loop_frames:
  "\<forall>b \<in> set bodies. frame_ok s b \<Longrightarrow>
   \<exists>frames. map (frame s) bodies = map Inr frames \<and>
     map snd (fst (read_loop s (concat frames @ rest))) = bodies @ map snd (fst (read_loop s rest)) \<and>
     snd (read_loop s (concat frames @ rest)) = snd (read_loop s rest)"
proof (induction bodies)
  case Nil
  then show ?case by (intro exI [of _ "[]"]) simp
next
  case (Cons b bodies)
  then obtain frames where IH: "map (frame s) bodies = map Inr frames"
    "map snd (fst (read_loop s (concat frames @ rest))) = bodies @ map snd (fst (read_loop s rest))"
    "snd (read_loop s (concat frames @ rest)) = snd (read_loop s rest)" by auto
  obtain p where p: "frame s b = Inr (p @ fixed_out s @ b)"
    "read_frame s ((p @ fixed_out s @ b) @ concat frames @ rest) =
       Inr (Some (p @ fixed_out s, b), concat frames @ rest)"
    using frame_reads_back [of s b "concat frames @ rest"] Cons.prems by auto
  then show ?case using IH
    by (intro exI [of _ "(p @ fixed_out s @ b) # frames"])
      (simp add: read_loop.simps [of s "p @ _"] case_prod_unfold)
qed

lemma read_loop_eof: "0 < fr_prefix_bytes s \<Longrightarrow> read_loop s [] = ([], Some IncompleteReadError)"
  by (subst read_loop.simps) (simp add: read_frame_def readexactly_def)

section \<open>The configuration\<close>

lemma text_headers_error: "text_headers rp vs = Inl e \<Longrightarrow> e = ValueError"
  by (induction vs) (auto simp: result_iff split: if_splits sum.splits)

lemma hex_bytes_error: "hex_bytes rp v = Inl e \<Longrightarrow> e = ValueError"
  by (simp add: hex_bytes_def result_iff)

lemma byte_order_error: "byte_order_of x = Inl e \<Longrightarrow> e = ValueError"
  by (simp add: byte_order_of_def split: if_splits)

lemma length_encoding_error: "normalise_length_encoding rp v = Inl e \<Longrightarrow> e = ValueError"
  by (simp add: normalise_length_encoding_def Let_def result_iff)

lemma framing_block_error: "framing_block config = Inl e \<Longrightarrow> e = TypeError"
  by (simp add: framing_block_def split: if_splits pyv.splits)

lemma only_header_error: "only_header hs = Inl e \<Longrightarrow> e = ValueError"
  by (simp add: only_header_def split: list.splits)

lemma only_header_ok: "only_header hs = Inr h \<Longrightarrow> set hs \<subseteq> {h} \<and> (hs = [] \<longrightarrow> h = [])"
  by (auto simp: only_header_def split: list.splits dest!: arg_cong [of "remdups hs" _ set])

lemma header_from_config_error: "header_from_config rp config f = Inl e \<Longrightarrow> e = ValueError"
  by (auto simp: header_from_config_def result_iff simp del: text_headers.simps
      dest: hex_bytes_error text_headers_error only_header_error split: if_splits)

lemma header_bytes_error:
  "(if get f k PNone = PNone then Inr n else int_of (get f k PNone)) = Inl e \<Longrightarrow> e = ValueError \<or> e = TypeError"
  by (auto dest: int_of_error split: if_splits)

lemma rbind_errors:
  "(\<And>e. m = Inl e \<Longrightarrow> P e) \<Longrightarrow> (\<And>x e. f x = Inl e \<Longrightarrow> P e) \<Longrightarrow> rbind m f = Inl e \<Longrightarrow> P e"
  by (cases m) auto

lemma frame_from_config_error:
  assumes "frame_from_config rp config = Inl e"
  shows "e = ValueError \<or> e = TypeError"
  using assms unfolding frame_from_config_def
  by - (erule rbind_errors [where P = "\<lambda>e. e = ValueError \<or> e = TypeError", rotated 2] |
    (drule framing_block_error byte_order_error length_encoding_error header_from_config_error
      hex_bytes_error int_of_error header_bytes_error; blast) | (simp split: if_splits; fail) |
    (split if_split_asm; (erule conjE)?))+

lemma frame_from_config_ok:
  "frame_from_config rp config = Inr s \<Longrightarrow> 0 < fr_prefix_bytes s"
  by (auto simp: frame_from_config_def result_iff split: if_splits)

lemma frame_header_agrees:
  assumes s: "frame_from_config rp config = Inr s" and f: "framing_block config = Inr f"
    and h: "get f ''header_bytes'' PNone = PNone"
    and t: "get f ''tpdu_bytes'' (PInt 0) = PInt 0" "\<not> truthy (get f ''tpdu_outbound_hex'' PNone)"
  shows "fixed_in s = length (fixed_out s)"
  using assms
  by (auto simp: frame_from_config_def result_iff hex_bytes_def fixed_in_def fixed_out_def u_def
      split: if_splits)

section \<open>Properties\<close>


definition chardec_spec :: frame_spec where
  "chardec_spec = \<lparr>fr_prefix_bytes = 4, fr_byte_order = Big, fr_length_encoding = LAscii,
     fr_length_includes_prefix = True, fr_length_includes_header = False,
     fr_tpdu_out = [96, 0, 0, 0, 0], fr_tpdu_bytes = 5, fr_header_out = [73, 83, 79],
     fr_header_bytes = 3\<rparr>"


text \<open>A length prefix is exact or refused: a value the prefix can carry is written in exactly that
  many bytes and reads back, any other one is a \<open>ValueError\<close>; nothing is truncated.
\<close>

theorem length_prefix_exact:
  assumes "0 < k"
  shows "(0 \<le> v \<and> v \<le> int (length_capacity k enc) \<and>
      (\<exists>bs. frame_encode_length v k order enc = Inr bs \<and> length bs = k \<and>
         frame_decode_length bs order enc = Inr (nat v))) \<or>
    ((v < 0 \<or> int (length_capacity k enc) < v) \<and> frame_encode_length v k order enc = Inl ValueError)"
proof (cases "v < 0 \<or> int (length_capacity k enc) < v")
  case True
  then show ?thesis using frame_encode_overflow by blast
next
  case False
  then have "0 \<le> v" "nat v \<le> length_capacity k enc" by auto
  then show ?thesis using frame_encode_fits [OF assms, of "nat v" enc order] False by auto
qed

lemma length_prefix_exact_witness:
  "\<exists>bs. frame_encode_length 43 2 Big LBcd = Inr bs \<and> length bs = 2 \<and> frame_decode_length bs Big LBcd = Inr 43"
  using length_prefix_exact [of 2 43 LBcd Big] by (simp add: length_capacity_def)

text \<open>A framing configuration is never bound silently: it gives a specification whose prefix has at
  least one byte, or a \<open>ValueError\<close> or \<open>TypeError\<close>; and one that configures no TPDU and leaves the
  inbound header width to its default strips exactly what it sends.
\<close>

theorem framing_config_checked:
  "(\<exists>s. frame_from_config rp config = Inr s \<and> 0 < fr_prefix_bytes s \<and>
      (\<forall>f. framing_block config = Inr f \<and> get f ''header_bytes'' PNone = PNone \<and>
         get f ''tpdu_bytes'' (PInt 0) = PInt 0 \<and> \<not> truthy (get f ''tpdu_outbound_hex'' PNone) \<longrightarrow>
         fixed_in s = length (fixed_out s))) \<or>
   frame_from_config rp config = Inl ValueError \<or> frame_from_config rp config = Inl TypeError"
proof (cases "frame_from_config rp config")
  case (Inl e)
  then show ?thesis using frame_from_config_error by blast
next
  case (Inr s)
  then show ?thesis using frame_from_config_ok frame_header_agrees by blast
qed

lemma framing_config_checked_witness:
  "\<exists>s. frame_from_config (\<lambda>_. []) [(''mhdr'', PStr ''ISO'')] = Inr s \<and> fixed_in s = length (fixed_out s)"
proof -
  have "frame_from_config (\<lambda>_. []) [(''mhdr'', PStr ''ISO'')] \<noteq> Inl ValueError \<and>
      frame_from_config (\<lambda>_. []) [(''mhdr'', PStr ''ISO'')] \<noteq> Inl TypeError"
    by (simp add: frame_from_config_def framing_block_def byte_order_of_def py_lower_def lower_char_def
        header_from_config_def u_def ascii_encode_def only_header_def normalise_length_encoding_def
        LENGTH_ENCODINGS_def LENGTH_ENCODING_ALIASES_def hex_bytes_def)
  then show ?thesis
    using framing_config_checked [of "\<lambda>_. []" "[(''mhdr'', PStr ''ISO'')]"]
    by (auto simp: framing_block_def)
qed

end
