(* ===== verification/Py_Random.thy ===== *)
theory Py_Random
  imports Complex_Main
begin

text \<open>
  The random generator the program draws from (\<open>random.Random\<close>), as a parameter whose state is passed
  along, and one concrete instance.
\<close>

section \<open>The generator\<close>

record 'g rng =
  rnd_random :: "'g \<Rightarrow> rat \<times> 'g"
  rnd_range :: "nat \<Rightarrow> 'g \<Rightarrow> nat \<times> 'g"
  rnd_uniform :: "rat \<Rightarrow> rat \<Rightarrow> 'g \<Rightarrow> rat \<times> 'g"

text \<open>What \<open>random.Random\<close> documents of \<open>random\<close>, \<open>randrange\<close> and \<open>uniform\<close>.\<close>

definition rng_ok :: "'g rng \<Rightarrow> bool" where
  "rng_ok r \<longleftrightarrow>
     (\<forall>g. 0 \<le> fst (rnd_random r g) \<and> fst (rnd_random r g) < 1) \<and>
     (\<forall>n g. 0 < n \<longrightarrow> fst (rnd_range r n g) < n) \<and>
     (\<forall>a b g. a \<le> b \<longrightarrow> a \<le> fst (rnd_uniform r a b g) \<and> fst (rnd_uniform r a b g) \<le> b)"

definition counter_rng :: "nat rng" where
  "counter_rng = \<lparr>rnd_random = \<lambda>g. (of_nat (g mod 10) / 10, g + 1),
     rnd_range = \<lambda>n g. (g mod n, g + 1), rnd_uniform = \<lambda>a b g. (a, g + 1)\<rparr>"

lemma counter_rng_ok: "rng_ok counter_rng"
  by (auto simp: rng_ok_def counter_rng_def)

end
