(* ===== verification/Chaos.thy ===== *)
theory Chaos
  imports Framing Py_Random
begin

text \<open>
  Fault injection of the TCP responder (\<open>worker/adapters/tcp/chaos.py\<close>): which faults a reply gets
  (\<open>plan\<close>) and how a framed reply is broken (\<open>corrupt\<close>, \<open>partial_len\<close>). The random generator is a
  parameter, with its state passed along in the order the code draws.
\<close>

section \<open>The decision\<close>

definition MALFORMED_MODES :: "string list" where
  "MALFORMED_MODES = [''garbage'', ''bad_mti'', ''bad_length'', ''flip_bits'']"

datatype reason = R_Drop | R_Latency int | R_Malformed string | R_Partial

record chaos_outcome =
  co_drop :: bool
  co_latency :: rat
  co_malformed :: "string option"
  co_partial :: bool
  co_partial_bytes :: pyv
  co_reasons :: "reason list"

definition no_chaos :: chaos_outcome where
  "no_chaos = \<lparr>co_drop = False, co_latency = 0, co_malformed = None, co_partial = False,
     co_partial_bytes = PNone, co_reasons = []\<rparr>"

definition co_active :: "chaos_outcome \<Rightarrow> bool" where
  "co_active out \<longleftrightarrow> co_drop out \<or> co_malformed out \<noteq> None \<or> co_partial out \<or> 0 < co_latency out"

text \<open>\<open>_hit\<close>.\<close>

definition hit :: "'g rng \<Rightarrow> pyv \<Rightarrow> pyv \<Rightarrow> 'g \<Rightarrow> bool \<times> 'g" where
  "hit r pct flag g =
     (if truthy flag then (True, g)
      else if pct = PNone then (False, g)
      else case float_of pct of
             Inl _ \<Rightarrow> (False, g)
           | Inr p \<Rightarrow>
               if p \<le> 0 then (False, g)
               else if 100 \<le> p then (True, g)
               else (case rnd_random r g of (x, g) \<Rightarrow> (x * 100 < p, g)))"

text \<open>\<open>_latency\<close>; a bound that is no number raises out of the dictionary form.\<close>

definition latency :: "'g rng \<Rightarrow> pyv \<Rightarrow> 'g \<Rightarrow> (rat \<times> 'g) result" where
  "latency r spec g =
     (case spec of
        PNone \<Rightarrow> Inr (0, g)
      | PDict kvs \<Rightarrow>
          (let pct = get kvs ''pct'' PNone;
               (hits, g) = (if pct \<noteq> PNone then hit r pct PNone g else (True, g)) in
           if \<not> hits then Inr (0, g)
           else rbind (float_of (get kvs ''min'' (PInt 0))) (\<lambda>lo.
                rbind (float_of (get kvs ''max'' (PFloat lo))) (\<lambda>hi.
                  let (lo, hi) = (if hi < lo then (hi, lo) else (lo, hi)) in
                  Inr (if lo < hi then rnd_uniform r lo hi g else (lo, g)))))
      | _ \<Rightarrow> (case float_of spec of Inl _ \<Rightarrow> Inr (0, g) | Inr q \<Rightarrow> Inr (max 0 q, g)))"

definition malformed_mode :: "pyv \<Rightarrow> string" where
  "malformed_mode v =
     (case v of PStr m \<Rightarrow> if m \<in> set MALFORMED_MODES then m else ''garbage'' | _ \<Rightarrow> ''garbage'')"

definition plan :: "'g rng \<Rightarrow> (string \<times> pyv) list \<Rightarrow> 'g \<Rightarrow> (chaos_outcome \<times> 'g) result" where
  "plan r cfg g =
     (if cfg = [] then Inr (no_chaos, g)
      else
        (let (drop, g) = hit r (get cfg ''drop_pct'' PNone) (get cfg ''drop'' PNone) g in
         if drop then Inr (no_chaos\<lparr>co_drop := True, co_reasons := [R_Drop]\<rparr>, g)
         else rbind (latency r (get cfg ''latency_ms'' PNone) g) (\<lambda>(ms, g).
           let out = no_chaos\<lparr>co_latency := ms,
                 co_reasons := (if 0 < ms then [R_Latency \<lfloor>ms\<rfloor>] else [])\<rparr>;
               (bad, g) = hit r (get cfg ''malformed_pct'' PNone) (get cfg ''malformed'' PNone) g;
               mode = malformed_mode (get cfg ''malformed_mode'' (PStr ''garbage''));
               out = (if bad then out\<lparr>co_malformed := Some mode,
                        co_reasons := co_reasons out @ [R_Malformed mode]\<rparr> else out);
               (part, g) = hit r (get cfg ''partial_pct'' PNone) (get cfg ''partial'' PNone) g;
               out = (if part then out\<lparr>co_partial := True,
                        co_partial_bytes := get cfg ''partial_bytes'' (PStr ''half''),
                        co_reasons := co_reasons out @ [R_Partial]\<rparr> else out)
           in Inr (out, g))))"

section \<open>Breaking a frame\<close>

fun draw_bytes :: "'g rng \<Rightarrow> nat \<Rightarrow> 'g \<Rightarrow> byte list \<times> 'g" where
  "draw_bytes r 0 g = ([], g)"
| "draw_bytes r (Suc n) g =
     (case rnd_range r 256 g of (b, g) \<Rightarrow>
        case draw_bytes r n g of (bs, g) \<Rightarrow> (byte_of b # bs, g))"

fun flip_bits :: "'g rng \<Rightarrow> nat \<Rightarrow> byte list \<Rightarrow> 'g \<Rightarrow> byte list \<times> 'g" where
  "flip_bits r 0 buf g = (buf, g)"
| "flip_bits r (Suc n) buf g =
     (case rnd_range r (length buf) g of (i, g) \<Rightarrow>
        case rnd_range r 8 g of (b, g) \<Rightarrow>
          flip_bits r n (buf[i := xor (buf ! i) (push_bit b 1)]) g)"

definition bogus_mti :: "string \<Rightarrow> byte list" where
  "bogus_mti mti_enc =
     (if mti_enc = ''bcd'' then [0x99, 0x99]
      else if mti_enc = ''ebcdic'' then [0xF9, 0xF9, 0xF9, 0xF9]
      else [0x39, 0x39, 0x39, 0x39])"

definition bogus_length :: "nat \<Rightarrow> nat \<Rightarrow> nat \<Rightarrow> nat" where
  "bogus_length declared rest capacity =
     (let bogus = (declared + max 8 rest) mod (capacity + 1)
      in if bogus \<le> declared then capacity else bogus)"

definition corrupt ::
  "'g rng \<Rightarrow> byte list \<Rightarrow> string \<Rightarrow> nat \<Rightarrow> byte_order \<Rightarrow> length_mode \<Rightarrow> string \<Rightarrow> nat \<Rightarrow> 'g \<Rightarrow>
   (byte list \<times> 'g) result" where
  "corrupt r frm mode k order enc mti_enc header_bytes g =
     (if frm = [] then Inr (frm, g)
      else
        (let prefix = take k frm; rest = drop k frm in
         if mode = ''bad_length'' then
           rbind (frame_decode_length prefix order enc) (\<lambda>declared.
           rbind (frame_encode_length
                    (int (bogus_length declared (length rest) (length_capacity k enc))) k order enc)
             (\<lambda>p. Inr (p @ rest, g)))
         else if mode = ''bad_mti'' then
           (let head = take header_bytes rest; body = drop header_bytes rest; bogus = bogus_mti mti_enc in
            if length bogus \<le> length body then Inr (prefix @ head @ bogus @ drop (length bogus) body, g)
            else Inr (prefix @ head @ take (length body) (concat (replicate (length body) bogus)), g))
         else if mode = ''flip_bits'' then
           (if rest = [] then Inr (prefix @ rest, g)
            else case flip_bits r (max 1 (length rest div 8)) rest g of (buf, g) \<Rightarrow> Inr (prefix @ buf, g))
         else (case draw_bytes r (length rest) g of (bs, g) \<Rightarrow> Inr (prefix @ bs, g))))"

definition partial_len :: "byte list \<Rightarrow> pyv \<Rightarrow> nat" where
  "partial_len frm spec =
     (case spec of
        PInt n \<Rightarrow> if 0 \<le> n then min (nat n) (length frm) else max 1 (length frm div 2)
      | PBool b \<Rightarrow> min (if b then 1 else 0) (length frm)
      | _ \<Rightarrow> max 1 (length frm div 2))"

section \<open>Lemmas\<close>

lemma length_draw_bytes: "draw_bytes r n g = (bs, g') \<Longrightarrow> length bs = n"
  by (induction n arbitrary: g bs g') (auto split: prod.splits)

lemma length_flip_bits: "flip_bits r n buf g = (bs, g') \<Longrightarrow> length bs = length buf"
  by (induction n arbitrary: buf g) (auto split: prod.splits)

lemma malformed_mode_known: "malformed_mode v \<in> set MALFORMED_MODES"
  by (simp add: malformed_mode_def MALFORMED_MODES_def split: pyv.split)

lemma bogus_length_capacity: "declared \<le> c \<Longrightarrow> bogus_length declared rest c \<le> c"
proof -
  have "(declared + max 8 rest) mod (c + 1) < c + 1" by simp
  then show ?thesis by (simp add: bogus_length_def Let_def)
qed

lemma bogus_length_inflates: "declared < c \<Longrightarrow> declared < bogus_length declared rest c"
  by (simp add: bogus_length_def Let_def)

lemma corrupt_keeps:
  assumes "corrupt r frm mode k order enc mti_enc header_bytes g = Inr (out, g')"
    and "mode \<noteq> ''bad_length''"
  shows "length out = length frm \<and> take k out = take k frm"
proof (cases "frm = []")
  case True
  then show ?thesis using assms by (simp add: corrupt_def)
next
  case False
  define bogus where "bogus = bogus_mti mti_enc"
  have "length (concat (replicate n bogus)) \<ge> n" for n
    by (induction n) (auto simp: bogus_def bogus_mti_def)
  from this [of "length frm - (header_bytes + k)"] show ?thesis using assms False
    by (auto simp: corrupt_def Let_def min_def length_draw_bytes length_flip_bits
        simp flip: bogus_def split: if_splits prod.splits)
qed

lemma corrupt_bad_length_stalls:
  assumes frame: "frame s body = Inr frm" and ok: "frame_ok s body"
    and below: "declared_length s body < length_capacity (fr_prefix_bytes s) (fr_length_encoding s)"
  shows "\<exists>out. corrupt r frm ''bad_length'' (fr_prefix_bytes s) (fr_byte_order s)
      (fr_length_encoding s) mti_enc header_bytes g = Inr (out, g) \<and>
    length out = length frm \<and> read_frame s out = Inl IncompleteReadError"
proof -
  define k where "k = fr_prefix_bytes s"
  define cap where "cap = length_capacity k (fr_length_encoding s)"
  define decl where "decl = declared_length s body"
  have k: "0 < k" and fixed: "fixed_in s = length (fixed_out s)" and decl: "decl < cap"
    and nonempty: "0 < length (fixed_out s) + length body"
    using ok below by (simp_all add: frame_ok_def k_def cap_def decl_def)
  obtain p where p: "frame_encode_length (int decl) k (fr_byte_order s) (fr_length_encoding s) = Inr p"
      "length p = k" "frame_decode_length p (fr_byte_order s) (fr_length_encoding s) = Inr decl"
    using frame_encode_fits [OF k, of decl] decl by (metis cap_def less_imp_le)
  then have frm: "frm = p @ fixed_out s @ body"
    using frame by (simp add: frame_def frame_prefix_def decl_def k_def)
  define b where "b = bogus_length decl (length (fixed_out s @ body)) cap"
  have b: "b \<le> cap" "decl < b"
    using bogus_length_capacity [of decl cap] bogus_length_inflates [of decl cap] decl by (simp_all add: b_def)
  obtain q where q: "frame_encode_length (int b) k (fr_byte_order s) (fr_length_encoding s) = Inr q"
      "length q = k" "frame_decode_length q (fr_byte_order s) (fr_length_encoding s) = Inr b"
    using frame_encode_fits [OF k, of b] b by (metis cap_def)
  have "corrupt r frm ''bad_length'' k (fr_byte_order s) (fr_length_encoding s) mti_enc header_bytes g =
      Inr (q @ fixed_out s @ body, g)"
    using p q nonempty by (auto simp: corrupt_def frm b_def cap_def)
  moreover have "read_frame s (q @ fixed_out s @ body) = Inl IncompleteReadError"
  proof -
    have "int (length (fixed_out s) + length body) < int b -
        (if fr_length_includes_prefix s then int k else 0) +
        (if fr_length_includes_header s then 0 else int (fixed_in s))"
      using b(2) fixed by (auto simp: decl_def declared_length_def k_def)
    then show ?thesis using q fixed
      by (auto simp: read_frame_def readexactly_def remaining_after_prefix_def k_def Let_def
          simp flip: q(2))
  qed
  ultimately show ?thesis using p q by (auto simp: frm k_def)
qed

lemma plan_cases:
  assumes "plan r cfg g = Inr (out, g')"
  shows "(co_drop out \<longrightarrow> co_latency out = 0 \<and> co_malformed out = None \<and> \<not> co_partial out) \<and>
    (\<forall>m. co_malformed out = Some m \<longrightarrow> m \<in> set MALFORMED_MODES) \<and>
    (co_reasons out = [] \<longleftrightarrow> \<not> co_active out)"
proof (cases "cfg = []")
  case True
  then show ?thesis using assms by (auto simp: plan_def no_chaos_def co_active_def)
next
  case cfg: False
  obtain drop g1 where h1: "hit r (get cfg ''drop_pct'' PNone) (get cfg ''drop'' PNone) g = (drop, g1)"
    by fastforce
  show ?thesis
  proof (cases drop)
    case True
    then show ?thesis using assms cfg h1 by (auto simp: plan_def no_chaos_def co_active_def)
  next
    case False
    obtain ms g2 where l: "latency r (get cfg ''latency_ms'' PNone) g1 = Inr (ms, g2)"
      using assms cfg h1 False by (auto simp: plan_def result_iff)
    obtain bad g3 where h2: "hit r (get cfg ''malformed_pct'' PNone) (get cfg ''malformed'' PNone) g2 = (bad, g3)"
      by fastforce
    obtain part g4 where h3: "hit r (get cfg ''partial_pct'' PNone) (get cfg ''partial'' PNone) g3 = (part, g4)"
      by fastforce
    show ?thesis using assms cfg h1 False l h2 h3 malformed_mode_known
      by (cases bad; cases part) (auto simp: plan_def no_chaos_def co_active_def Let_def)
  qed
qed

section \<open>Properties\<close>

text \<open>
  A drop excludes every other fault, only the four documented modes are ever planned, and an
  outcome names a reason exactly when it injects a fault.
\<close>

theorem chaos_plan_consistent:
  assumes "plan r cfg g = Inr (out, g')"
  shows "(co_drop out \<longrightarrow> co_latency out = 0 \<and> co_malformed out = None \<and> \<not> co_partial out) \<and>
    (\<forall>m. co_malformed out = Some m \<longrightarrow> m \<in> set MALFORMED_MODES) \<and>
    (co_reasons out = [] \<longleftrightarrow> \<not> co_active out)"
  by (rule plan_cases [OF assms])

lemma chaos_plan_consistent_witness:
  "\<exists>out. plan counter_rng [(''drop_pct'', PInt 10), (''malformed_pct'', PInt 100)] 3 = Inr (out, 4) \<and>
     co_malformed out = Some ''garbage'' \<and> co_active out"
proof -
  have "plan counter_rng [(''drop_pct'', PInt 10), (''malformed_pct'', PInt 100)] 3 =
      Inr (no_chaos\<lparr>co_malformed := Some ''garbage'', co_reasons := [R_Malformed ''garbage'']\<rparr>, 4)"
    by (simp add: plan_def hit_def counter_rng_def latency_def malformed_mode_def MALFORMED_MODES_def
        no_chaos_def Let_def)
  from this chaos_plan_consistent [OF this] show ?thesis by simp
qed

text \<open>The \<open>bad_length\<close> fault makes the peer wait for bytes that never come: a corrupted frame has the
  length of the original one, and the read side of the other end fails on it with an incomplete
  read, unless the original length already was the largest one the prefix can carry.
\<close>

theorem bad_length_stalls_reader:
  assumes "frame s body = Inr frm" and "frame_ok s body"
    and "declared_length s body < length_capacity (fr_prefix_bytes s) (fr_length_encoding s)"
  shows "\<exists>out. corrupt r frm ''bad_length'' (fr_prefix_bytes s) (fr_byte_order s)
      (fr_length_encoding s) mti_enc header_bytes g = Inr (out, g) \<and>
    length out = length frm \<and> read_frame s out = Inl IncompleteReadError"
  by (rule corrupt_bad_length_stalls [OF assms])

lemma bad_length_stalls_reader_witness:
  "\<exists>frm out. frame chardec_spec [8, 0] = Inr frm \<and>
     corrupt counter_rng frm ''bad_length'' 4 Big LAscii ''ascii'' 8 0 = Inr (out, 0) \<and>
     read_frame chardec_spec out = Inl IncompleteReadError"
proof -
  have ok: "frame_ok chardec_spec [8, 0]"
    by (simp add: frame_ok_def chardec_spec_def fixed_in_def fixed_out_def declared_length_def
        length_capacity_def)
  then obtain frm where frm: "frame chardec_spec [8, 0] = Inr frm" using frame_wire.encodes by blast
  from bad_length_stalls_reader [OF frm ok, of counter_rng "''ascii''" 8 0] frm show ?thesis
    by (auto simp: chardec_spec_def declared_length_def length_capacity_def)
qed

text \<open>
  Every other fault keeps the framing: the broken frame has the same length and the same
  prefix, so the peer receives one whole frame.
\<close>

theorem other_faults_keep_framing:
  assumes "corrupt r frm mode k order enc mti_enc header_bytes g = Inr (out, g')"
    and "mode \<noteq> ''bad_length''"
  shows "length out = length frm \<and> take k out = take k frm"
  by (rule corrupt_keeps [OF assms])

lemma other_faults_keep_framing_witness:
  "\<exists>out. corrupt counter_rng [0, 3, 1, 2, 3] ''flip_bits'' 2 Big LBinary ''ascii'' 0 7 = Inr (out, 9) \<and>
     length out = 5 \<and> take 2 out = [0, 3]"
proof -
  obtain out where out: "corrupt counter_rng [0, 3, 1, 2, 3] ''flip_bits'' 2 Big LBinary ''ascii'' 0 7 = Inr (out, 9)"
    by (simp add: corrupt_def counter_rng_def)
  from this other_faults_keep_framing [OF out] show ?thesis by simp
qed

text \<open>
  A frame that already declares the largest length is not broken by \<open>bad_length\<close> at all: the
  fault rewrites the same prefix.
\<close>

theorem bad_length_at_capacity:
  assumes "frame s body = Inr frm" and "frame_ok s body"
    and "declared_length s body = length_capacity (fr_prefix_bytes s) (fr_length_encoding s)"
  shows "corrupt r frm ''bad_length'' (fr_prefix_bytes s) (fr_byte_order s)
      (fr_length_encoding s) mti_enc header_bytes g = Inr (frm, g)"
proof -
  define k where "k = fr_prefix_bytes s"
  obtain p where p: "frame_encode_length (int (declared_length s body)) k (fr_byte_order s)
        (fr_length_encoding s) = Inr p" "length p = k"
      "frame_decode_length p (fr_byte_order s) (fr_length_encoding s) = Inr (declared_length s body)"
    using frame_encode_fits [of k "declared_length s body"] assms(2)
    by (auto simp: frame_ok_def k_def)
  then have frm: "frm = p @ fixed_out s @ body"
    using assms(1) by (simp add: frame_def frame_prefix_def k_def)
  have "bogus_length (declared_length s body) (length (fixed_out s @ body))
      (declared_length s body) = declared_length s body"
    using bogus_length_capacity [of "declared_length s body" "declared_length s body" "length (fixed_out s @ body)"]
    by (simp add: bogus_length_def Let_def)
  then show ?thesis using p assms by (auto simp: corrupt_def frm frame_ok_def simp flip: k_def)
qed

lemma bad_length_at_capacity_witness:
  "\<exists>frm. frame \<lparr>fr_prefix_bytes = 1, fr_byte_order = Big, fr_length_encoding = LAscii,
      fr_length_includes_prefix = False, fr_length_includes_header = True, fr_tpdu_out = [],
      fr_tpdu_bytes = 0, fr_header_out = [], fr_header_bytes = 0\<rparr> (replicate 9 7) = Inr frm \<and>
    corrupt counter_rng frm ''bad_length'' 1 Big LAscii ''ascii'' 0 0 = Inr (frm, 0)"
  (is "\<exists>frm. frame ?s ?b = Inr frm \<and> _")
proof -
  have ok: "frame_ok ?s ?b"
    by (simp add: frame_ok_def fixed_in_def fixed_out_def declared_length_def length_capacity_def)
  then obtain frm where frm: "frame ?s ?b = Inr frm" using frame_wire.encodes by blast
  from bad_length_at_capacity [OF frm ok, of counter_rng "''ascii''" 0 0] frm show ?thesis
    by (auto simp: declared_length_def length_capacity_def fixed_out_def)
qed

end
