(* ===== verification/Selection.thy ===== *)
theory Selection
  imports Py_Values Py_Random
begin

text \<open>
  Choosing one endpoint of several (\<open>worker/adapters/selection.py\<close>): the five policies and their
  rotation state. Python's string hash, which differs between processes, is a parameter.
\<close>

section \<open>The selector\<close>

datatype policy = Round_Robin | Weighted | Random_Choice | Failover | Sticky

definition POLICIES :: "(string \<times> policy) list" where
  "POLICIES = [(''round_robin'', Round_Robin), (''weighted'', Weighted), (''random'', Random_Choice),
     (''failover'', Failover), (''sticky'', Sticky)]"

type_synonym endpoint = "(string \<times> pyv) list"

record selector =
  sel_endpoints :: "endpoint list"
  sel_policy :: policy
  sel_key :: "string option"
  sel_rr :: nat
  sel_failover :: nat

definition new_selector :: "endpoint list \<Rightarrow> string \<Rightarrow> string option \<Rightarrow> selector" where
  "new_selector endpoints pol key =
     \<lparr>sel_endpoints = endpoints, sel_policy = or_default Round_Robin (map_of POLICIES pol),
      sel_key = key, sel_rr = 0, sel_failover = 0\<rparr>"

text \<open>\<open>path.split(".")\<close> and \<open>_dig\<close>.\<close>

fun split_dots :: "string \<Rightarrow> string list" where
  "split_dots [] = [[]]"
| "split_dots (c # cs) =
     (if c = CHR ''.'' then [] # split_dots cs
      else case split_dots cs of [] \<Rightarrow> [[c]] | p # ps \<Rightarrow> (c # p) # ps)"

fun dig_parts :: "pyv \<Rightarrow> string list \<Rightarrow> pyv" where
  "dig_parts cur [] = cur"
| "dig_parts (PDict kvs) (part # parts) = dig_parts (get kvs part PNone) parts"
| "dig_parts cur (part # parts) = PNone"

definition dig :: "pyv \<Rightarrow> string \<Rightarrow> pyv" where
  "dig data path = dig_parts data (split_dots path)"

definition sticky :: "(pyv \<Rightarrow> string) \<Rightarrow> (string \<Rightarrow> int) \<Rightarrow> selector \<Rightarrow> pyv \<Rightarrow> nat" where
  "sticky rp hash s payload =
     (let raw = (case sel_key s of
                   None \<Rightarrow> PNone
                 | Some k \<Rightarrow> if k = '''' then PNone else dig payload k)
      in if raw = PNone then 0 else nat (hash (pystr rp raw) mod int (length (sel_endpoints s))))"

text \<open>\<open>max(0, int(e.get("weight", 1) or 0))\<close> of every endpoint.\<close>

fun weights :: "endpoint list \<Rightarrow> nat list result" where
  "weights [] = Inr []"
| "weights (e # es) =
     rbind (let w = get e ''weight'' (PInt 1) in if truthy w then int_of w else Inr 0) (\<lambda>w.
     rbind (weights es) (\<lambda>ws. Inr (nat w # ws)))"

text \<open>The loop over the weights: the first index whose running sum reaches \<open>r\<close>.\<close>

fun pick_weight :: "nat list \<Rightarrow> nat \<Rightarrow> rat \<Rightarrow> rat \<Rightarrow> nat" where
  "pick_weight [] i acc r = i - 1"
| "pick_weight (w # ws) i acc r =
     (if r \<le> acc + of_nat w then i else pick_weight ws (i + 1) (acc + of_nat w) r)"

definition weighted :: "'g rng \<Rightarrow> endpoint list \<Rightarrow> 'g \<Rightarrow> (nat \<times> 'g) result" where
  "weighted rng endpoints g =
     rbind (weights endpoints) (\<lambda>ws.
       if sum_list ws = 0 then Inr (rnd_range rng (length endpoints) g)
       else (case rnd_uniform rng 0 (of_nat (sum_list ws)) g of
               (r, g) \<Rightarrow> Inr (pick_weight ws 0 0 r, g)))"

definition select ::
  "(pyv \<Rightarrow> string) \<Rightarrow> (string \<Rightarrow> int) \<Rightarrow> 'g rng \<Rightarrow> selector \<Rightarrow> pyv \<Rightarrow> 'g \<Rightarrow>
   (nat \<times> selector \<times> 'g) result" where
  "select rp hash rng s payload g =
     (let n = length (sel_endpoints s) in
      if n = 0 then Inl ValueError
      else if n = 1 then Inr (0, s, g)
      else case sel_policy s of
             Round_Robin \<Rightarrow> Inr (sel_rr s mod n, s\<lparr>sel_rr := sel_rr s + 1\<rparr>, g)
           | Random_Choice \<Rightarrow> (case rnd_range rng n g of (i, g) \<Rightarrow> Inr (i, s, g))
           | Weighted \<Rightarrow> rbind (weighted rng (sel_endpoints s) g) (\<lambda>(i, g). Inr (i, s, g))
           | Failover \<Rightarrow> Inr (sel_failover s mod n, s, g)
           | Sticky \<Rightarrow> Inr (sticky rp hash s payload, s, g))"

definition advance :: "selector \<Rightarrow> selector" where
  "advance s =
     (if sel_endpoints s = [] then s
      else s\<lparr>sel_failover := (sel_failover s + 1) mod length (sel_endpoints s)\<rparr>)"

section \<open>Every policy picks an endpoint\<close>

lemma pick_weight_range: "ws \<noteq> [] \<Longrightarrow> i \<le> pick_weight ws i acc r \<and> pick_weight ws i acc r < i + length ws"
proof (induction ws arbitrary: i acc)
  case Nil
  then show ?case by simp
next
  case (Cons w ws)
  show ?case
  proof (cases "ws = []")
    case False
    then show ?thesis using Cons.IH [of "i + 1" "acc + of_nat w"] by auto
  qed simp
qed

lemma pick_weight_positive:
  "acc < r \<Longrightarrow> r \<le> acc + of_nat (sum_list ws) \<Longrightarrow>
   \<exists>j < length ws. pick_weight ws i acc r = i + j \<and> 0 < ws ! j"
proof (induction ws arbitrary: i acc)
  case Nil
  then show ?case by simp
next
  case (Cons w ws)
  show ?case
  proof (cases "r \<le> acc + of_nat w")
    case True
    then have "0 < w" using Cons.prems(1) by (cases w) auto
    then show ?thesis using True by force
  next
    case False
    then obtain j where "j < length ws" "pick_weight ws (i + 1) (acc + of_nat w) r = i + 1 + j" "0 < ws ! j"
      using Cons.IH [of "acc + of_nat w" "i + 1"] Cons.prems by (auto simp: add.assoc)
    then show ?thesis using False by (intro exI [of _ "Suc j"]) auto
  qed
qed

lemma length_weights: "weights es = Inr ws \<Longrightarrow> length ws = length es"
  by (induction es arbitrary: ws) (auto simp: result_iff)

lemma weighted_range: "rng_ok rng \<Longrightarrow> es \<noteq> [] \<Longrightarrow> weighted rng es g = Inr (i, g') \<Longrightarrow> i < length es"
proof -
  assume rng: "rng_ok rng" and es: "es \<noteq> []" and w: "weighted rng es g = Inr (i, g')"
  then obtain ws where ws: "weights es = Inr ws" by (auto simp: weighted_def result_iff)
  then have len: "length ws = length es" "ws \<noteq> []" using length_weights [OF ws] es by auto
  have "fst (rnd_range rng (length es) g) < length es" using rng es by (simp add: rng_ok_def)
  then show "i < length es"
    using w ws len pick_weight_range [of ws 0 0] by (auto simp: weighted_def split: if_splits prod.splits)
qed

lemma select_range:
  assumes "rng_ok rng" and "select rp hash rng s payload g = Inr (i, s', g')"
  shows "i < length (sel_endpoints s) \<and> sel_endpoints s' = sel_endpoints s \<and> sel_policy s' = sel_policy s"
proof -
  have "fst (rnd_range rng (length (sel_endpoints s)) g) < length (sel_endpoints s)"
    if "sel_endpoints s \<noteq> []" using assms(1) that by (simp add: rng_ok_def)
  moreover have "sticky rp hash s payload < length (sel_endpoints s)" if "sel_endpoints s \<noteq> []"
    using that by (simp add: sticky_def Let_def nat_less_iff)
  ultimately show ?thesis using assms weighted_range [of rng "sel_endpoints s" g]
    by (auto simp: select_def Let_def result_iff split: if_splits policy.splits prod.splits)
qed

lemma select_error:
  "sel_endpoints s \<noteq> [] \<Longrightarrow> sel_policy s \<noteq> Weighted \<Longrightarrow> \<exists>r. select rp hash rng s payload g = Inr r"
  by (auto simp: select_def Let_def split: policy.splits prod.splits)

section \<open>Rotation\<close>

text \<open>The indices of \<open>m\<close> successive selections.\<close>

fun selections ::
  "(pyv \<Rightarrow> string) \<Rightarrow> (string \<Rightarrow> int) \<Rightarrow> 'g rng \<Rightarrow> pyv list \<Rightarrow> selector \<Rightarrow> 'g \<Rightarrow> nat list result" where
  "selections rp hash rng [] s g = Inr []"
| "selections rp hash rng (p # ps) s g =
     rbind (select rp hash rng s p g) (\<lambda>(i, s, g).
     rbind (selections rp hash rng ps s g) (\<lambda>is. Inr (i # is)))"

lemma selections_round_robin:
  "sel_policy s = Round_Robin \<Longrightarrow> 1 < length (sel_endpoints s) \<Longrightarrow>
   selections rp hash rng ps s g =
     Inr (map (\<lambda>t. (sel_rr s + t) mod length (sel_endpoints s)) [0..<length ps])"
proof (induction ps arbitrary: s)
  case Nil
  then show ?case by simp
next
  case (Cons p ps)
  then show ?case
    by (cases "sel_endpoints s = []") (auto simp: select_def Let_def map_upt_Suc simp del: upt_Suc)
qed

text \<open>Any \<open>n\<close> successive numbers hit every residue exactly once.\<close>

lemma residues_once:
  fixes n :: nat
  assumes "0 < n"
  shows "distinct (map (\<lambda>t. (a + t) mod n) [0..<n]) \<and> set (map (\<lambda>t. (a + t) mod n) [0..<n]) = {0..<n}"
proof -
  have inj: "inj_on (\<lambda>t. (a + t) mod n) {0..<n}"
  proof (rule inj_onI)
    have le: "x = y" if "x \<le> y" "y < n" "(a + x) mod n = (a + y) mod n" for x y
    proof -
      have "n dvd (a + y) - (a + x)"
        using that by (subst mod_eq_dvd_iff_nat [symmetric]) simp_all
      then show ?thesis using that by (auto dest: dvd_imp_le)
    qed
    fix x y assume "x \<in> {0..<n}" "y \<in> {0..<n}" "(a + x) mod n = (a + y) mod n"
    then show "x = y" using le [of x y] le [of y x] by (cases "x \<le> y") auto
  qed
  moreover have "(\<lambda>t. (a + t) mod n) ` {0..<n} = {0..<n}"
    using assms inj by (intro endo_inj_surj) auto
  ultimately show ?thesis by (simp add: distinct_map)
qed

section \<open>Properties\<close>

text \<open>
  Whatever the policy, the selected index is one of the endpoints, and selecting changes neither
  the endpoints nor the policy.
\<close>

theorem selected_endpoint_exists:
  assumes "rng_ok rng" and "select rp hash rng s payload g = Inr (i, s', g')"
  shows "i < length (sel_endpoints s) \<and> sel_endpoints s' = sel_endpoints s \<and> sel_policy s' = sel_policy s"
  by (rule select_range [OF assms])

definition two_hosts :: "string \<Rightarrow> selector" where
  "two_hosts pol = new_selector [[(''host'', PStr ''a''), (''weight'', PInt 0)], [(''host'', PStr ''b'')]]
     pol (Some ''de.2'')"

lemma selected_endpoint_exists_witness:
  "\<exists>i. select (\<lambda>_. []) (\<lambda>s. int (length s)) counter_rng (two_hosts ''sticky'')
     (PDict [(''de'', PDict [(''2'', PStr ''411'')])]) 0 = Inr (i, two_hosts ''sticky'', 0) \<and> i < 2"
proof -
  have "select (\<lambda>_. []) (\<lambda>s. int (length s)) counter_rng (two_hosts ''sticky'')
      (PDict [(''de'', PDict [(''2'', PStr ''411'')])]) 0 = Inr (1, two_hosts ''sticky'', 0)"
    by (simp add: select_def two_hosts_def new_selector_def POLICIES_def sticky_def dig_def)
  from this selected_endpoint_exists [OF counter_rng_ok this] show ?thesis
    by (simp add: two_hosts_def new_selector_def)
qed

text \<open>Round robin is even: any \<open>n\<close> successive selections among \<open>n\<close> endpoints use each of them exactly
  once, wherever the rotation stands.
\<close>

theorem round_robin_even:
  assumes "sel_policy s = Round_Robin" and "1 < length (sel_endpoints s)"
    and "length payloads = length (sel_endpoints s)"
  shows "\<exists>picks. selections rp hash rng payloads s g = Inr picks \<and> distinct picks \<and>
    set picks = {0..<length (sel_endpoints s)}"
proof -
  have "0 < length (sel_endpoints s)" using assms(2) by linarith
  from residues_once [OF this, of "sel_rr s"] show ?thesis
    using selections_round_robin [OF assms(1,2), of rp hash rng payloads g] unfolding assms(3) by blast
qed

lemma round_robin_even_witness:
  "\<exists>picks. selections (\<lambda>_. []) (\<lambda>_. 0) counter_rng [PNone, PNone] (two_hosts ''round_robin'') 0 = Inr picks \<and>
     distinct picks \<and> set picks = {0, 1}"
proof -
  have "\<exists>picks. selections (\<lambda>_. []) (\<lambda>_. 0) counter_rng [PNone, PNone] (two_hosts ''round_robin'') 0 = Inr picks \<and>
      distinct picks \<and> set picks = {0..<length (sel_endpoints (two_hosts ''round_robin''))}"
    by (rule round_robin_even) (simp_all add: two_hosts_def new_selector_def POLICIES_def)
  moreover have "{0..<length (sel_endpoints (two_hosts ''round_robin''))} = {0, 1}"
    by (auto simp: two_hosts_def new_selector_def)
  ultimately show ?thesis by simp
qed

text \<open>
  The weighted policy never picks an endpoint of weight zero while another one has weight, as
  long as the number drawn is not exactly zero.
\<close>

theorem weighted_avoids_zero_weight:
  assumes "rng_ok rng" and "weights es = Inr ws" and "0 < sum_list ws"
    and "weighted rng es g = Inr (i, g')" and "fst (rnd_uniform rng 0 (of_nat (sum_list ws)) g) \<noteq> 0"
  shows "i < length ws \<and> 0 < ws ! i"
proof -
  obtain r g2 where r: "rnd_uniform rng 0 (of_nat (sum_list ws)) g = (r, g2)" by fastforce
  have "0 \<le> fst (rnd_uniform rng 0 (of_nat (sum_list ws)) g) \<and>
      fst (rnd_uniform rng 0 (of_nat (sum_list ws)) g) \<le> of_nat (sum_list ws)"
    using assms(1) by (simp add: rng_ok_def)
  then have "0 < r \<and> r \<le> of_nat (sum_list ws)" using r assms(5) by simp
  moreover have "i = pick_weight ws 0 0 r" using assms(2-4) r by (simp add: weighted_def del: sum_list_eq_0_iff)
  ultimately show ?thesis using pick_weight_positive [of 0 r ws 0] by auto
qed

definition upper_rng :: "unit rng" where
  "upper_rng = \<lparr>rnd_random = \<lambda>g. (0, g), rnd_range = \<lambda>n g. (0, g), rnd_uniform = \<lambda>a b g. (b, g)\<rparr>"

lemma weighted_avoids_zero_weight_witness:
  "weighted upper_rng (sel_endpoints (two_hosts ''weighted'')) () = Inr (1, ()) \<and> 0 < [0, 1 :: nat] ! 1"
proof -
  have ok: "rng_ok upper_rng" by (simp add: rng_ok_def upper_rng_def)
  have w: "weights (sel_endpoints (two_hosts ''weighted'')) = Inr [0, 1]"
    by (simp add: two_hosts_def new_selector_def)
  have p: "weighted upper_rng (sel_endpoints (two_hosts ''weighted'')) () = Inr (1, ())"
    by (simp add: weighted_def w upper_rng_def)
  show ?thesis using weighted_avoids_zero_weight [OF ok w _ p] p by (simp add: upper_rng_def)
qed

text \<open>
  When the number drawn is exactly zero the weighted policy takes the first endpoint even if its
  weight is zero, since the running sum already reaches the number there.
\<close>

theorem weighted_zero_draw:
  "weighted counter_rng (sel_endpoints (two_hosts ''weighted'')) g = Inr (0, g + 1)"
  by (simp add: weighted_def two_hosts_def new_selector_def counter_rng_def)

end
