(* ===== verification/Group.thy ===== *)
theory Group
  imports Selection
begin

text \<open>
  A group of connections acting as one participant (\<open>worker/adapters/group.py\<close>): lazy connection of
  the members, one attempt or, under the failover policy, one attempt for each member, and the
  eviction of a member that failed. The members are other adapters: what connecting to one,
  executing on it and disconnecting do is a parameter over a state \<open>'w\<close> of the world.
\<close>

section \<open>State\<close>

text \<open>The result of a step: whether a response arrived, and the data of it.\<close>

record 'd step_result =
  sr_success :: bool
  sr_data :: 'd

record ('d, 'w) member_ops =
  mo_connect :: "nat \<Rightarrow> 'w \<Rightarrow> py_error option \<times> 'w"
  mo_execute :: "nat \<Rightarrow> string \<Rightarrow> pyv \<Rightarrow> 'w \<Rightarrow> 'd step_result result \<times> 'w"
  mo_disconnect :: "nat \<Rightarrow> 'w \<Rightarrow> 'w"

record 'g group =
  gr_selector :: selector
  gr_children :: "nat list"
  gr_rng :: 'g

definition new_group :: "endpoint list \<Rightarrow> string option \<Rightarrow> string option \<Rightarrow> 'g \<Rightarrow> 'g group" where
  "new_group members pol key g =
     \<lparr>gr_selector = new_selector members (or_default ''round_robin'' pol) key, gr_children = [], gr_rng = g\<rparr>"

section \<open>One attempt\<close>

text \<open>\<open>_evict\<close>: a cached child is dropped; its disconnection never fails the caller.\<close>

definition evict :: "('d, 'w) member_ops \<Rightarrow> nat \<Rightarrow> 'g group \<Rightarrow> 'w \<Rightarrow> 'g group \<times> 'w" where
  "evict ops i gr w =
     (if i \<in> set (gr_children gr)
      then (gr\<lparr>gr_children := removeAll i (gr_children gr)\<rparr>, mo_disconnect ops i w) else (gr, w))"

text \<open>\<open>_child\<close> followed by \<open>execute\<close> on it; the error may come from either.\<close>

definition attempt ::
  "('d, 'w) member_ops \<Rightarrow> nat \<Rightarrow> string \<Rightarrow> pyv \<Rightarrow> 'g group \<Rightarrow> 'w \<Rightarrow>
   'd step_result result \<times> 'g group \<times> 'w" where
  "attempt ops i action payload gr w =
     (if i \<in> set (gr_children gr)
      then (case mo_execute ops i action payload w of (res, w) \<Rightarrow> (res, gr, w))
      else (case mo_connect ops i w of
              (Some e, w) \<Rightarrow> (Inl e, gr, w)
            | (None, w) \<Rightarrow>
                (case mo_execute ops i action payload w of
                   (res, w) \<Rightarrow> (res, gr\<lparr>gr_children := gr_children gr @ [i]\<rparr>, w))))"

section \<open>The loop of \<open>execute\<close>\<close>

text \<open>
  \<open>last\<close> and \<open>last_exc\<close> are passed along. With no attempt left the last failed result is returned, or
  else the last exception raised; the empty case cannot be reached with neither (the \<open>assert\<close>).
\<close>

fun attempts ::
  "(pyv \<Rightarrow> string) \<Rightarrow> (string \<Rightarrow> int) \<Rightarrow> 'g rng \<Rightarrow> ('d, 'w) member_ops \<Rightarrow> string \<Rightarrow> pyv \<Rightarrow> bool \<Rightarrow> nat \<Rightarrow>
   'd step_result option \<Rightarrow> py_error option \<Rightarrow> 'g group \<Rightarrow> 'w \<Rightarrow>
   'd step_result result \<times> 'g group \<times> 'w" where
  "attempts rp hash rng ops action payload failover 0 lst exc gr w =
     (case lst of Some res \<Rightarrow> (Inr res, gr, w) | None \<Rightarrow> (Inl (or_default RuntimeError exc), gr, w))"
| "attempts rp hash rng ops action payload failover (Suc k) lst exc gr w =
     (case select rp hash rng (gr_selector gr) payload (gr_rng gr) of
        Inl e \<Rightarrow> (Inl e, gr, w)
      | Inr (i, sel, g) \<Rightarrow>
          (case attempt ops i action payload (gr\<lparr>gr_selector := sel, gr_rng := g\<rparr>) w of
             (Inl e, gr, w) \<Rightarrow>
               (case evict ops i gr w of (gr, w) \<Rightarrow>
                  if \<not> failover then (Inl e, gr, w)
                  else attempts rp hash rng ops action payload failover k lst (Some e)
                         (gr\<lparr>gr_selector := advance (gr_selector gr)\<rparr>) w)
           | (Inr res, gr, w) \<Rightarrow>
               if sr_success res then (Inr res, gr, w)
               else (case evict ops i gr w of (gr, w) \<Rightarrow>
                  if \<not> failover then (Inr res, gr, w)
                  else attempts rp hash rng ops action payload failover k (Some res) exc
                         (gr\<lparr>gr_selector := advance (gr_selector gr)\<rparr>) w)))"

definition group_execute ::
  "(pyv \<Rightarrow> string) \<Rightarrow> (string \<Rightarrow> int) \<Rightarrow> 'g rng \<Rightarrow> ('d, 'w) member_ops \<Rightarrow> string \<Rightarrow> pyv \<Rightarrow> 'g group \<Rightarrow> 'w \<Rightarrow>
   'd step_result result \<times> 'g group \<times> 'w" where
  "group_execute rp hash rng ops action payload gr w =
     (let failover = (sel_policy (gr_selector gr) = Failover);
          n = (if failover then length (sel_endpoints (gr_selector gr)) else 1)
      in attempts rp hash rng ops action payload failover (max 1 n) None None gr w)"

text \<open>\<open>disconnect\<close>.\<close>

definition group_disconnect :: "('d, 'w) member_ops \<Rightarrow> 'g group \<Rightarrow> 'w \<Rightarrow> 'g group \<times> 'w" where
  "group_disconnect ops gr w =
     (gr\<lparr>gr_children := []\<rparr>, foldl (\<lambda>w i. mo_disconnect ops i w) w (gr_children gr))"

section \<open>Lemmas\<close>

lemma attempt_selector: "attempt ops i action payload gr w = (res, gr', w') \<Longrightarrow>
   gr_selector gr' = gr_selector gr \<and> gr_rng gr' = gr_rng gr \<and>
   (\<exists>cs. gr_children gr' = gr_children gr @ cs \<and> set cs \<subseteq> {i})"
  by (auto simp: attempt_def split: if_splits prod.splits option.splits)

lemma evict_selector: "evict ops i gr w = (gr', w') \<Longrightarrow>
   gr_selector gr' = gr_selector gr \<and> gr_rng gr' = gr_rng gr \<and> set (gr_children gr') = set (gr_children gr) - {i}"
  by (auto simp: evict_def split: if_splits)

text \<open>A member is healthy when connecting to it and executing on it always succeed.\<close>

definition healthy :: "('d, 'w) member_ops \<Rightarrow> string \<Rightarrow> pyv \<Rightarrow> nat \<Rightarrow> bool" where
  "healthy ops action payload i \<longleftrightarrow>
     (\<forall>w. fst (mo_connect ops i w) = None) \<and>
     (\<forall>w. \<exists>res. fst (mo_execute ops i action payload w) = Inr res \<and> sr_success res)"

lemma attempt_healthy:
  "healthy ops action payload i \<Longrightarrow>
   \<exists>res gr' w'. attempt ops i action payload gr w = (Inr res, gr', w') \<and> sr_success res"
  unfolding healthy_def attempt_def
  by (metis (no_types, lifting) option.case(1) prod.case prod.collapse)

lemma select_failover:
  "sel_endpoints s \<noteq> [] \<Longrightarrow> sel_policy s = Failover \<Longrightarrow>
   select rp hash rng s p g = Inr (sel_failover s mod length (sel_endpoints s), s, g)"
  by (cases "sel_endpoints s"; cases "tl (sel_endpoints s)") (auto simp: select_def Let_def)

lemma advance_simps:
  "sel_endpoints (advance s) = sel_endpoints s" "sel_policy (advance s) = sel_policy s"
  "sel_endpoints s \<noteq> [] \<Longrightarrow>
     sel_failover (advance s) = (sel_failover s + 1) mod length (sel_endpoints s)"
  by (simp_all add: advance_def)

text \<open>Failover goes round until a healthy member answers: if one is at most \<open>k\<close> places ahead, within
  \<open>k + 1\<close> attempts some member's success is returned.\<close>

lemma attempts_failover:
  assumes "sel_policy (gr_selector gr) = Failover" and "sel_endpoints (gr_selector gr) \<noteq> []"
    and "healthy ops action payload
           ((sel_failover (gr_selector gr) + k) mod length (sel_endpoints (gr_selector gr)))"
    and "k < m"
  shows "\<exists>res gr' w'. attempts rp hash rng ops action payload True m lst exc gr w = (Inr res, gr', w') \<and>
    sr_success res"
  using assms
proof (induction m arbitrary: k lst exc gr w)
  case 0
  then show ?case by simp
next
  case (Suc m)
  define s where "s = gr_selector gr"
  define i where "i = sel_failover s mod length (sel_endpoints s)"
  have sel: "select rp hash rng s payload (gr_rng gr) = Inr (i, s, gr_rng gr)"
    using select_failover [of s rp hash rng payload "gr_rng gr"] Suc.prems by (simp add: s_def i_def)
  obtain res gr1 w1 where a: "attempt ops i action payload gr w = (res, gr1, w1)"
    by (metis prod_cases3)
  obtain gr2 w2 where e: "evict ops i gr1 w1 = (gr2, w2)" by fastforce
  have s2: "gr_selector gr2 = s" using attempt_selector [OF a] evict_selector [OF e] by (simp add: s_def)
  define gr3 where "gr3 = gr2\<lparr>gr_selector := advance (gr_selector gr2)\<rparr>"
  have go_on: "\<exists>res gr' w'. attempts rp hash rng ops action payload True m lst' exc' gr3 w2 =
      (Inr res, gr', w') \<and> sr_success res" if "0 < k" for lst' exc'
  proof (rule Suc.IH)
    show "sel_policy (gr_selector gr3) = Failover" "sel_endpoints (gr_selector gr3) \<noteq> []"
      using Suc.prems s2 by (simp_all add: gr3_def advance_simps s_def)
    have "(sel_failover (gr_selector gr3) + (k - 1)) mod length (sel_endpoints s) =
        (sel_failover s + k) mod length (sel_endpoints s)"
    proof -
      obtain k' where k': "k = Suc k'" using \<open>0 < k\<close> by (cases k) auto
      have "sel_failover (gr_selector gr3) = (sel_failover s + 1) mod length (sel_endpoints s)"
        using Suc.prems(2) s2 by (simp add: gr3_def advance_simps s_def)
      then show ?thesis by (simp add: k' mod_add_left_eq)
    qed
    then show "healthy ops action payload
        ((sel_failover (gr_selector gr3) + (k - 1)) mod length (sel_endpoints (gr_selector gr3)))"
      using Suc.prems(3) s2 by (simp add: gr3_def advance_simps s_def)
    show "k - 1 < m" using that Suc.prems(4) by simp
  qed
  have a2: "attempt ops i action payload (gr\<lparr>gr_selector := s\<rparr>) w = (res, gr1, w1)"
    using a by (simp add: s_def)
  show ?case
  proof (cases "\<exists>r. res = Inr r \<and> sr_success r")
    case True
    then show ?thesis using sel a2 by (auto simp flip: s_def)
  next
    case False
    have "k \<noteq> 0"
    proof
      assume "k = 0"
      then have "healthy ops action payload i" using Suc.prems(3) by (simp add: i_def s_def)
      from attempt_healthy [OF this, of gr w] a False show False by auto
    qed
    then show ?thesis using sel a2 e False go_on [unfolded gr3_def]
      by (cases res) (auto simp flip: s_def)
  qed
qed

lemma group_execute_failover:
  assumes "sel_policy (gr_selector gr) = Failover" and "j < length (sel_endpoints (gr_selector gr))"
    and "healthy ops action payload j"
  shows "\<exists>res gr' w'. group_execute rp hash rng ops action payload gr w = (Inr res, gr', w') \<and>
    sr_success res"
proof -
  define n where "n = length (sel_endpoints (gr_selector gr))"
  define f where "f = sel_failover (gr_selector gr)"
  have n: "0 < n" "j < n" using assms(2) by (auto simp: n_def)
  define k where "k = (j + n - f mod n) mod n"
  have "f mod n < n" using n by simp
  then have "f + (j + n - f mod n) = (f div n * n + n) + j"
    using div_mult_mod_eq [of f n] by linarith
  also have "\<dots> = j + (f div n + 1) * n" by simp
  also have "\<dots> mod n = j" using n by (subst mod_mult_self1) simp
  finally have "(f + k) mod n = j" by (simp add: k_def mod_add_right_eq)
  moreover have "k < n" using n by (simp add: k_def)
  ultimately show ?thesis
    using attempts_failover [of gr ops action payload k n] assms n
    by (auto simp: group_execute_def Let_def n_def f_def max_def)
qed

lemma attempt_children:
  "attempt ops i action payload gr w = (Inr res, gr', w') \<Longrightarrow> i \<in> set (gr_children gr')"
  by (auto simp: attempt_def split: if_splits prod.splits option.splits)

lemma group_execute_single:
  assumes pol: "sel_policy (gr_selector gr) \<noteq> Failover"
    and sel: "select rp hash rng (gr_selector gr) payload (gr_rng gr) = Inr (i, s, g)"
    and att: "attempt ops i action payload (gr\<lparr>gr_selector := s, gr_rng := g\<rparr>) w = (res, gr1, w1)"
  shows "\<exists>gr2 w2. group_execute rp hash rng ops action payload gr w = (res, gr2, w2) \<and>
    (i \<in> set (gr_children gr2) \<longleftrightarrow> (\<exists>r. res = Inr r \<and> sr_success r))"
proof -
  obtain gr2 w2 where e: "evict ops i gr1 w1 = (gr2, w2)" by fastforce
  then have "i \<notin> set (gr_children gr2)" using evict_selector [OF e] by simp
  then show ?thesis
    using pol sel att e attempt_children [of ops i action payload _ w _ gr1 w1]
    by (cases res) (auto simp: group_execute_def Let_def)
qed

section \<open>Properties\<close>


text \<open>Three members, of which only the last one can be connected.\<close>

definition flaky :: "(nat, nat) member_ops" where
  "flaky = \<lparr>mo_connect = \<lambda>i w. (if i = 2 then None else Some ConnectionError, w + 1),
     mo_execute = \<lambda>i action payload w. (Inr \<lparr>sr_success = True, sr_data = w\<rparr>, w + 1),
     mo_disconnect = \<lambda>i w. w\<rparr>"


text \<open>Under any other policy a step is one attempt on one member, whose result or exception is the
  result of the group; afterwards that member is kept connected exactly when the attempt was a
  success, so the next selection of a failed member connects anew.
\<close>

theorem group_single_attempt:
  assumes "sel_policy (gr_selector gr) \<noteq> Failover"
    and "select rp hash rng (gr_selector gr) payload (gr_rng gr) = Inr (i, s, g)"
    and "attempt ops i action payload (gr\<lparr>gr_selector := s, gr_rng := g\<rparr>) w = (res, gr1, w1)"
  shows "\<exists>gr2 w2. group_execute rp hash rng ops action payload gr w = (res, gr2, w2) \<and>
    (i \<in> set (gr_children gr2) \<longleftrightarrow> (\<exists>r. res = Inr r \<and> sr_success r))"
  by (rule group_execute_single [OF assms])

lemma group_single_attempt_witness:
  "\<exists>gr2 w2. group_execute (\<lambda>_. []) (\<lambda>_. 0) counter_rng flaky ''send'' PNone
     (new_group [[], [], []] None None 0) 0 = (Inl ConnectionError, gr2, w2) \<and> 0 \<notin> set (gr_children gr2)"
proof -
  define gr where "gr = new_group [[], [], []] None None (0 :: nat)"
  have s: "select (\<lambda>_. []) (\<lambda>_. 0) counter_rng (gr_selector gr) PNone (gr_rng gr) =
      Inr (0, (gr_selector gr)\<lparr>sel_rr := 1\<rparr>, 0)"
    by (simp add: gr_def new_group_def new_selector_def POLICIES_def select_def)
  have a: "attempt flaky 0 ''send'' PNone
      (gr\<lparr>gr_selector := (gr_selector gr)\<lparr>sel_rr := 1\<rparr>, gr_rng := 0\<rparr>) 0 =
      (Inl ConnectionError, gr\<lparr>gr_selector := (gr_selector gr)\<lparr>sel_rr := 1\<rparr>, gr_rng := 0\<rparr>, 1)"
    by (simp add: attempt_def flaky_def gr_def new_group_def)
  have "sel_policy (gr_selector gr) \<noteq> Failover"
    by (simp add: gr_def new_group_def new_selector_def POLICIES_def)
  from group_single_attempt [OF this s a] show ?thesis by (auto simp: gr_def)
qed

end
