(* ===== verification/Load_Profile.thy ===== *)
theory Load_Profile
  imports Py_Values
begin

text \<open>
  Load profiles and their shards (\<open>worker/engine/load/profile.py\<close>) and the live re-scaling of a fleet
  (\<open>LoadCoordinator.scale\<close> in \<open>orchestrator/api/load_coordinator.py\<close>). Rates are rational numbers:
  the rounding of floats is not modelled. Fields that are only copied from the profile to its shards
  are kept together in one record.
\<close>

section \<open>Data\<close>

datatype profile_type = Steady | Soak | Spike | Ramp

text \<open>The types by name; an unknown name is no type.\<close>

definition PROFILE_TYPES :: "(string \<times> profile_type) list" where
  "PROFILE_TYPES = [(''steady'', Steady), (''soak'', Soak), (''spike'', Spike), (''ramp'', Ramp)]"

record rates =
  target_tps :: rat
  start_tps :: rat
  end_tps :: rat
  ramp_s :: rat
  base_tps :: rat
  spike_tps :: rat
  spike_every_s :: rat
  spike_duration_s :: rat

text \<open>What a shard takes over from its profile unchanged.\<close>

record shard_limits =
  heartbeat_interval_s :: rat
  max_in_flight :: int
  max_backlog :: int
  drain_s :: rat
  scenario_id :: "string option"

record shard = rates +
  run_id :: string
  worker_index :: nat
  worker_count :: int
  sh_type :: string
  duration_s :: rat
  connections :: int
  open_rate_per_s :: rat
  sh_limits :: shard_limits

record load_profile = rates +
  lp_type :: string
  lp_duration_s :: rat
  lp_workers :: int
  lp_connections :: int
  lp_open_rate_per_s :: rat
  lp_limits :: shard_limits

section \<open>Splitting\<close>

text \<open>\<open>int(q)\<close> of a rate.\<close>

definition trunc :: "rat \<Rightarrow> int" where
  "trunc q = (if 0 \<le> q then \<lfloor>q\<rfloor> else \<lceil>q\<rceil>)"

definition split_share :: "rat \<Rightarrow> int \<Rightarrow> nat \<Rightarrow> rat" where
  "split_share tot parts index =
     (if parts \<le> 0 then 0
      else if of_int \<lfloor>tot\<rfloor> = tot
      then of_int (trunc tot div parts + (if int index < trunc tot mod parts then 1 else 0))
      else tot / of_int parts)"

definition profile_shard :: "load_profile \<Rightarrow> nat \<Rightarrow> shard" where
  "profile_shard p i =
     (let n = lp_workers p in
      \<lparr>target_tps = split_share (target_tps p) n i, start_tps = split_share (start_tps p) n i,
       end_tps = split_share (end_tps p) n i, ramp_s = ramp_s p,
       base_tps = split_share (base_tps p) n i, spike_tps = split_share (spike_tps p) n i,
       spike_every_s = spike_every_s p, spike_duration_s = spike_duration_s p,
       run_id = '''', worker_index = i, worker_count = n, sh_type = lp_type p,
       duration_s = lp_duration_s p, connections = trunc (split_share (of_int (lp_connections p)) n i),
       open_rate_per_s = (if lp_open_rate_per_s p \<noteq> 0 then split_share (lp_open_rate_per_s p) n i else 0),
       sh_limits = lp_limits p\<rparr>)"

definition shards :: "load_profile \<Rightarrow> string \<Rightarrow> shard list" where
  "shards p run = map (\<lambda>i. (profile_shard p i)\<lparr>run_id := run\<rparr>) [0..<nat (lp_workers p)]"

definition validate_profile :: "load_profile \<Rightarrow> unit result" where
  "validate_profile p =
     (let ty = map_of PROFILE_TYPES (lp_type p) in
      if ty = None then Inl ValueError
      else if lp_workers p < 1 then Inl ValueError
      else if lp_duration_s p \<le> 0 \<and> ty \<noteq> Some Soak then Inl ValueError
      else if ty = Some Steady \<and> target_tps p \<le> 0 then Inl ValueError
      else if ty = Some Ramp \<and> end_tps p \<le> 0 then Inl ValueError
      else if ty = Some Spike \<and> (base_tps p \<le> 0 \<or> spike_tps p \<le> 0) then Inl ValueError
      else if ty = Some Soak \<and> lp_connections p \<le> 0 then Inl ValueError
      else Inr ())"

section \<open>The shape over time\<close>

text \<open>\<open>a % b\<close> of floats: the remainder has the sign of \<open>b\<close>.\<close>

definition fmod :: "rat \<Rightarrow> rat \<Rightarrow> rat" where
  "fmod a b = a - b * of_int \<lfloor>a / b\<rfloor>"

definition rate_at :: "string \<Rightarrow> 'a rates_scheme \<Rightarrow> rat \<Rightarrow> rat" where
  "rate_at ty r elapsed =
     (case map_of PROFILE_TYPES ty of
        Some Steady \<Rightarrow> target_tps r
      | Some Ramp \<Rightarrow>
          if ramp_s r \<le> 0 then end_tps r
          else (let frac = min 1 (max 0 (elapsed / ramp_s r)) in
                start_tps r + (end_tps r - start_tps r) * frac)
      | Some Spike \<Rightarrow>
          if spike_every_s r \<le> 0 then base_tps r
          else if spike_every_s r - spike_duration_s r \<le> fmod elapsed (spike_every_s r)
               then spike_tps r else base_tps r
      | _ \<Rightarrow> 0)"

definition target_tps_at :: "shard \<Rightarrow> rat \<Rightarrow> rat" where
  "target_tps_at s elapsed = rate_at (sh_type s) s elapsed"

text \<open>\<open>phase_at\<close>.\<close>

definition phase_at :: "shard \<Rightarrow> rat \<Rightarrow> string" where
  "phase_at s elapsed =
     (if map_of PROFILE_TYPES (sh_type s) = Some Spike
      then (let pos = (if spike_every_s s \<noteq> 0 then fmod elapsed (spike_every_s s) else 0) in
            if spike_every_s s - spike_duration_s s \<le> pos then ''spike'' else ''base'')
      else sh_type s)"

section \<open>Tuning a live run\<close>

text \<open>One knob: present, a number, and split again for this worker.\<close>

definition retune_knob ::
  "(string \<times> pyv) list \<Rightarrow> string \<Rightarrow> (rat \<Rightarrow> shard \<Rightarrow> shard) \<Rightarrow> shard \<Rightarrow> shard result" where
  "retune_knob params key upd s =
     (if get params key PNone = PNone then Inr s
      else rbind (float_of (get params key PNone)) (\<lambda>q.
             Inr (upd (split_share q (worker_count s) (worker_index s)) s)))"

definition apply_retune :: "(string \<times> pyv) list \<Rightarrow> shard \<Rightarrow> shard result" where
  "apply_retune params s =
     (let ty = map_of PROFILE_TYPES (sh_type s) in
      rbind (if truthy (get params ''workers'' PNone)
             then rbind (int_of (get params ''workers'' PNone)) (\<lambda>n. Inr (s\<lparr>worker_count := max 1 n\<rparr>))
             else Inr s) (\<lambda>s.
      rbind (if ty = Some Steady then retune_knob params ''target_tps'' (\<lambda>q s. s\<lparr>target_tps := q\<rparr>) s
             else Inr s) (\<lambda>s.
      rbind (if ty = Some Spike then retune_knob params ''base_tps'' (\<lambda>q s. s\<lparr>base_tps := q\<rparr>) s
             else Inr s) (\<lambda>s.
      rbind (if ty = Some Spike then retune_knob params ''spike_tps'' (\<lambda>q s. s\<lparr>spike_tps := q\<rparr>) s
             else Inr s) (\<lambda>s.
      if ty = Some Ramp then retune_knob params ''end_tps'' (\<lambda>q s. s\<lparr>end_tps := q\<rparr>) s
      else Inr s)))))"

text \<open>
  The part of \<open>scale\<close> that changes the load: the shards pushed for the new workers and the parameters
  every worker is retuned with.
\<close>

definition scale_params :: "load_profile \<Rightarrow> int \<Rightarrow> (string \<times> pyv) list" where
  "scale_params p desired =
     (''workers'', PInt desired) #
     concat (map (\<lambda>(k, v). if 0 < v then [(k, PFloat v)] else [])
       [(''target_tps'', target_tps p), (''base_tps'', base_tps p), (''spike_tps'', spike_tps p),
        (''end_tps'', end_tps p)])"

definition extra_shards :: "load_profile \<Rightarrow> string \<Rightarrow> int \<Rightarrow> shard list" where
  "extra_shards p run desired =
     map (\<lambda>i. (profile_shard (p\<lparr>lp_workers := desired\<rparr>) i)\<lparr>run_id := run\<rparr>)
       [nat (max 1 (lp_workers p))..<nat desired]"

fun retune_all :: "(string \<times> pyv) list \<Rightarrow> shard list \<Rightarrow> shard list result" where
  "retune_all params [] = Inr []"
| "retune_all params (s # ss) =
     rbind (apply_retune params s) (\<lambda>s. rbind (retune_all params ss) (\<lambda>ss. Inr (s # ss)))"

text \<open>The fleet that drives the run after \<open>scale\<close>: the running shards and the new ones, all retuned.\<close>

definition scale_fleet :: "load_profile \<Rightarrow> string \<Rightarrow> int \<Rightarrow> shard list \<Rightarrow> shard list result" where
  "scale_fleet p run desired fleet =
     (let d = max 1 desired in
      if d = max 1 (lp_workers p) then Inr fleet
      else retune_all (scale_params p d) (fleet @ extra_shards p run d))"

section \<open>Shares sum to the total\<close>

lemma trunc_of_int [simp]: "trunc (of_int z) = z"
  by (simp add: trunc_def)

lemma sum_below: "0 \<le> m \<Longrightarrow> m \<le> int n \<Longrightarrow> (\<Sum>i<n. if int i < m then 1 else 0 :: int) = m"
proof -
  assume m: "0 \<le> m" "m \<le> int n"
  have "{i \<in> {..<n}. int i < m} = {..<nat m}" using m by auto
  then have "card {i \<in> {..<n}. int i < m} = nat m" by simp
  then show ?thesis using m by (simp add: sum.If_cases Int_def)
qed

lemma split_share_sum:
  assumes "0 < n"
  shows "(\<Sum>i<n. split_share q (int n) i) = q"
proof (cases "of_int \<lfloor>q\<rfloor> = q")
  case True
  define z where "z = \<lfloor>q\<rfloor>"
  have q: "q = of_int z" using True [symmetric] by (simp only: z_def)
  have "(\<Sum>i<n. z div int n + (if int i < z mod int n then 1 else 0)) = int n * (z div int n) + z mod int n"
  proof -
    have "0 \<le> z mod int n" "z mod int n \<le> int n" using assms by (simp_all add: less_imp_le)
    from sum_below [OF this] show ?thesis by (simp add: sum.distrib)
  qed
  also have "\<dots> = z" by simp
  finally have "of_int (\<Sum>i<n. z div int n + (if int i < z mod int n then 1 else 0)) = (of_int z :: rat)"
    by (rule arg_cong)
  then show ?thesis using assms by (simp add: split_share_def q)
next
  case False
  then show ?thesis using assms by (simp add: split_share_def)
qed

lemma split_share_sum_list:
  "1 \<le> n \<Longrightarrow> (\<Sum>i\<leftarrow>[0..<nat n]. split_share q n i) = q"
  using split_share_sum [of "nat n" q] by (simp add: interv_sum_list_conv_sum_set_nat atLeast0LessThan)

lemma sum_list_lin:
  fixes f :: "nat \<Rightarrow> rat"
  shows "(\<Sum>i\<leftarrow>xs. f i + (g i - f i) * c) = (\<Sum>i\<leftarrow>xs. f i) + ((\<Sum>i\<leftarrow>xs. g i) - (\<Sum>i\<leftarrow>xs. f i)) * c"
  by (induction xs) (simp_all add: algebra_simps)

text \<open>Sharding and the shape over time commute: at every moment the fleet drives the profile's rate.\<close>

lemma shards_rate:
  assumes "1 \<le> lp_workers p"
  shows "(\<Sum>s\<leftarrow>shards p run. target_tps_at s e) = rate_at (lp_type p) p e"
proof -
  note sums = split_share_sum_list [OF assms]
  show ?thesis
  proof (cases "map_of PROFILE_TYPES (lp_type p)")
    case None
    then show ?thesis
      by (simp add: shards_def target_tps_at_def rate_at_def profile_shard_def comp_def Let_def)
  next
    case (Some ty)
    then show ?thesis using sums
      by (cases ty) (auto simp: shards_def target_tps_at_def rate_at_def profile_shard_def comp_def
          Let_def sum_list_lin)
  qed
qed

lemma of_int_sum_list: "(of_int (\<Sum>x\<leftarrow>xs. f x) :: rat) = (\<Sum>x\<leftarrow>xs. of_int (f x))"
  by (induction xs) simp_all

lemma shards_connections:
  assumes "1 \<le> lp_workers p"
  shows "(\<Sum>s\<leftarrow>shards p run. connections s) = lp_connections p"
proof -
  have "(of_int (\<Sum>s\<leftarrow>shards p run. connections s) :: rat) = of_int (lp_connections p)"
  proof -
    have share: "of_int (trunc (split_share (of_int c) n i)) = (split_share (of_int c) n i :: rat)" for c n i
    proof -
      have "trunc 0 = 0" "trunc (of_int z + 1) = z + 1" for z
        using trunc_of_int [of 0] trunc_of_int [of "z + 1"] by (simp_all del: trunc_of_int)
      then show ?thesis by (auto simp: split_share_def)
    qed
    have "(of_int (\<Sum>s\<leftarrow>shards p run. connections s) :: rat) = (\<Sum>s\<leftarrow>shards p run. of_int (connections s))"
      by (rule of_int_sum_list)
    also have "\<dots> = (\<Sum>i\<leftarrow>[0..<nat (lp_workers p)]. split_share (of_int (lp_connections p)) (lp_workers p) i)"
      by (simp add: shards_def profile_shard_def comp_def Let_def share)
    finally show ?thesis using split_share_sum_list [OF assms] by simp
  qed
  then show ?thesis by (simp only: of_int_eq_iff)
qed

section \<open>Scaling a live run\<close>

lemma get_scale_params:
  "get (scale_params p d) ''workers'' PNone = PInt d"
  "0 < target_tps p \<Longrightarrow> get (scale_params p d) ''target_tps'' PNone = PFloat (target_tps p)"
  "0 < base_tps p \<Longrightarrow> get (scale_params p d) ''base_tps'' PNone = PFloat (base_tps p)"
  "0 < spike_tps p \<Longrightarrow> get (scale_params p d) ''spike_tps'' PNone = PFloat (spike_tps p)"
  "0 < end_tps p \<Longrightarrow> get (scale_params p d) ''end_tps'' PNone = PFloat (end_tps p)"
  by (simp_all add: scale_params_def get_def)

lemma retune_steady:
  assumes "map_of PROFILE_TYPES (sh_type s) = Some Steady" and "0 < target_tps p" and "1 \<le> d"
  shows "apply_retune (scale_params p d) s =
    Inr (s\<lparr>worker_count := d, target_tps := split_share (target_tps p) d (worker_index s)\<rparr>)"
  using assms by (simp add: apply_retune_def retune_knob_def get_scale_params max_def)

lemma retune_spike:
  assumes "map_of PROFILE_TYPES (sh_type s) = Some Spike" and "0 < base_tps p" "0 < spike_tps p" and "1 \<le> d"
  shows "apply_retune (scale_params p d) s =
    Inr (s\<lparr>worker_count := d, base_tps := split_share (base_tps p) d (worker_index s),
           spike_tps := split_share (spike_tps p) d (worker_index s)\<rparr>)"
  using assms by (simp add: apply_retune_def retune_knob_def get_scale_params max_def)

lemma retune_all_map:
  "(\<And>s. s \<in> set ss \<Longrightarrow> apply_retune params s = Inr (f s)) \<Longrightarrow> retune_all params ss = Inr (map f ss)"
  by (induction ss) auto

lemma validate_profile_ok:
  "validate_profile p = Inr () \<Longrightarrow> 1 \<le> lp_workers p \<and>
     (map_of PROFILE_TYPES (lp_type p) = Some Steady \<longrightarrow> 0 < target_tps p) \<and>
     (map_of PROFILE_TYPES (lp_type p) = Some Spike \<longrightarrow> 0 < base_tps p \<and> 0 < spike_tps p)"
  by (auto simp: validate_profile_def Let_def split: if_splits)

lemma scaled_rate:
  assumes p: "validate_profile p = Inr ()" and up: "lp_workers p \<le> d"
    and ty: "map_of PROFILE_TYPES (lp_type p) \<in> {Some Steady, Some Spike}"
  shows "\<exists>fleet. scale_fleet p run d (shards p run) = Inr fleet \<and> length fleet = nat d \<and>
    (\<forall>e. (\<Sum>s\<leftarrow>fleet. target_tps_at s e) = rate_at (lp_type p) p e)"
proof (cases "d = lp_workers p")
  case True
  then have "scale_fleet p run d (shards p run) = Inr (shards p run)" "length (shards p run) = nat d"
    using validate_profile_ok [OF p] by (simp_all add: scale_fleet_def shards_def)
  then show ?thesis using shards_rate validate_profile_ok [OF p] by blast
next
  case False
  have w: "1 \<le> lp_workers p" and d: "1 \<le> d" "lp_workers p < d"
    using validate_profile_ok [OF p] up False by auto
  define mk where "mk i = (if i < nat (lp_workers p) then (profile_shard p i)\<lparr>run_id := run\<rparr>
    else (profile_shard (p\<lparr>lp_workers := d\<rparr>) i)\<lparr>run_id := run\<rparr>)" for i
  have fleet: "shards p run @ extra_shards p run d = map mk [0..<nat d]"
  proof -
    have "[0..<nat d] = [0..<nat (lp_workers p)] @ [nat (lp_workers p)..<nat d]"
      using d upt_add_eq_append [of 0 "nat (lp_workers p)" "nat d - nat (lp_workers p)"] by simp
    then show ?thesis using w by (simp add: shards_def extra_shards_def mk_def max_def)
  qed
  have sh: "sh_type (mk i) = lp_type p" "worker_index (mk i) = i"
      "spike_every_s (mk i) = spike_every_s p" "spike_duration_s (mk i) = spike_duration_s p" for i
    by (simp_all add: mk_def profile_shard_def Let_def)
  note sums = split_share_sum_list [OF d(1)]
  have sc: "scale_fleet p run d (shards p run) = retune_all (scale_params p d) (map mk [0..<nat d])"
    using w d False fleet by (simp add: scale_fleet_def max_def)
  from ty consider "map_of PROFILE_TYPES (lp_type p) = Some Steady" | "map_of PROFILE_TYPES (lp_type p) = Some Spike"
    by auto
  then show ?thesis
  proof cases
    case 1
    define f where "f s = s\<lparr>worker_count := d, target_tps := split_share (target_tps p) d (worker_index s)\<rparr>"
      for s :: shard
    have "retune_all (scale_params p d) (map mk [0..<nat d]) = Inr (map f (map mk [0..<nat d]))"
      using retune_steady d 1 validate_profile_ok [OF p] sh by (intro retune_all_map) (auto simp: f_def)
    moreover have "(\<Sum>s\<leftarrow>map f (map mk [0..<nat d]). target_tps_at s e) = rate_at (lp_type p) p e" for e
      using 1 sums sh by (simp add: comp_def f_def target_tps_at_def rate_at_def)
    ultimately show ?thesis using sc by auto
  next
    case 2
    define f where "f s = s\<lparr>worker_count := d, base_tps := split_share (base_tps p) d (worker_index s),
        spike_tps := split_share (spike_tps p) d (worker_index s)\<rparr>" for s :: shard
    have "retune_all (scale_params p d) (map mk [0..<nat d]) = Inr (map f (map mk [0..<nat d]))"
      using retune_spike d 2 validate_profile_ok [OF p] sh by (intro retune_all_map) (auto simp: f_def)
    moreover have "(\<Sum>s\<leftarrow>map f (map mk [0..<nat d]). target_tps_at s e) = rate_at (lp_type p) p e" for e
      using 2 sums sh by (auto simp: comp_def f_def target_tps_at_def rate_at_def)
    ultimately show ?thesis using sc by auto
  qed
qed

section \<open>Properties\<close>

text \<open>C21. Sharding loses nothing: the fleet has one shard for each worker, and at every moment the rates
  of the shards sum to the rate of the whole profile, for every type and also when the totals do not
  divide evenly; so do the connections of a soak run.
\<close>

theorem shards_drive_the_profile:
  assumes "1 \<le> lp_workers p"
  shows "length (shards p run) = nat (lp_workers p) \<and>
    (\<forall>e. (\<Sum>s\<leftarrow>shards p run. target_tps_at s e) = rate_at (lp_type p) p e) \<and>
    (\<Sum>s\<leftarrow>shards p run. connections s) = lp_connections p"
  using shards_rate [OF assms] shards_connections [OF assms] by (simp add: shards_def)

definition no_limits :: shard_limits where
  "no_limits = \<lparr>heartbeat_interval_s = 30, max_in_flight = 2000, max_backlog = 0, drain_s = 30,
     scenario_id = None\<rparr>"

text \<open>A profile of the given type: 100 transactions per second, growing to 200, over two workers.\<close>

definition sample_profile :: "string \<Rightarrow> load_profile" where
  "sample_profile ty =
     \<lparr>target_tps = 101, start_tps = 100, end_tps = 200, ramp_s = 10, base_tps = 5, spike_tps = 7,
      spike_every_s = 4, spike_duration_s = 1, lp_type = ty, lp_duration_s = 60, lp_workers = 2,
      lp_connections = 3, lp_open_rate_per_s = 0, lp_limits = no_limits\<rparr>"

lemma shards_drive_the_profile_witness:
  "(\<Sum>s\<leftarrow>shards (sample_profile ''steady'') ''r''. target_tps_at s 5) = 101 \<and>
   (\<Sum>s\<leftarrow>shards (sample_profile ''steady'') ''r''. connections s) = 3"
proof -
  have "1 \<le> lp_workers (sample_profile ''steady'')" by (simp add: sample_profile_def)
  from shards_drive_the_profile [OF this, of "''r''"] show ?thesis
    by (simp add: rate_at_def PROFILE_TYPES_def sample_profile_def)
qed

text \<open>Scaling a live steady or spike run up keeps its rate: the old and the new shards, all retuned
  with the parameters the coordinator sends, are as many as asked for and together drive exactly the
  rate of the profile at every moment.
\<close>

theorem scaling_keeps_the_rate:
  assumes "validate_profile p = Inr ()" and "lp_workers p \<le> d"
    and "map_of PROFILE_TYPES (lp_type p) \<in> {Some Steady, Some Spike}"
  shows "\<exists>fleet. scale_fleet p run d (shards p run) = Inr fleet \<and> length fleet = nat d \<and>
    (\<forall>e. (\<Sum>s\<leftarrow>fleet. target_tps_at s e) = rate_at (lp_type p) p e)"
  by (rule scaled_rate [OF assms])

lemma scaling_keeps_the_rate_witness:
  "\<exists>fleet. scale_fleet (sample_profile ''spike'') ''r'' 5 (shards (sample_profile ''spike'') ''r'') = Inr fleet \<and>
     length fleet = 5 \<and> (\<Sum>s\<leftarrow>fleet. target_tps_at s 3) = 7"
proof -
  have v: "validate_profile (sample_profile ''spike'') = Inr ()" "lp_workers (sample_profile ''spike'') \<le> 5"
    and t: "map_of PROFILE_TYPES (lp_type (sample_profile ''spike'')) \<in> {Some Steady, Some Spike}"
    by (simp_all add: validate_profile_def sample_profile_def PROFILE_TYPES_def)
  have "rate_at (lp_type (sample_profile ''spike'')) (sample_profile ''spike'') 3 = 7"
    by (simp add: rate_at_def sample_profile_def PROFILE_TYPES_def fmod_def)
  with scaling_keeps_the_rate [OF v t, of "''r''"] show ?thesis by fastforce
qed

text \<open>
  Scaling a ramp up overdrives it: the running shards keep the share of the start rate they were
  given, and the new ones add theirs, so a fleet scaled from two to four workers starts half as fast
  again as the profile asks for.
\<close>

theorem scaling_a_ramp_overdrives:
  "\<exists>fleet. scale_fleet (sample_profile ''ramp'') ''r'' 4 (shards (sample_profile ''ramp'') ''r'') = Inr fleet \<and>
     (\<Sum>s\<leftarrow>fleet. target_tps_at s 0) = 150 \<and> rate_at ''ramp'' (sample_profile ''ramp'') 0 = 100"
  by (simp add: scale_fleet_def shards_def extra_shards_def profile_shard_def sample_profile_def
      split_share_def trunc_def scale_params_def apply_retune_def retune_knob_def PROFILE_TYPES_def
      target_tps_at_def rate_at_def upt_rec Let_def)

end
