(* ===== verification/Histogram.thy ===== *)
theory Histogram
  imports Py_Values "HOL-Library.Multiset" "HOL-Library.AList"
begin

text \<open>
  The mergeable latency histogram of a load run (\<open>worker/engine/load/histogram.py\<close>): the bucket
  bounds, recording, merging raw counts and snapshots, percentiles. Latencies are rational numbers;
  \<open>None\<close> is the infinite minimum of an empty histogram.
\<close>

section \<open>Buckets\<close>

definition SUB :: nat where
  "SUB = 16"

text \<open>The loop over the binades; the unit starts at 1 and doubles.\<close>

function binades :: "nat \<Rightarrow> rat list" where
  "binades unit =
     (if 0 < unit \<and> unit < 120000
      then map (\<lambda>s. of_nat unit * (1 + of_nat s / of_nat SUB)) [1..<SUB + 1] @ binades (2 * unit)
      else [])"
  by auto
termination
  by (relation "measure (\<lambda>unit. 120000 - unit)") auto

declare binades.simps [simp del]

definition BOUNDS :: "rat list" where
  "BOUNDS = map (\<lambda>i. of_nat i / of_nat SUB) [1..<SUB + 1] @ binades 1"

text \<open>\<open>bisect_right\<close> on a sorted list: how many elements do not exceed \<open>x\<close>.\<close>

definition bisect_right :: "rat list \<Rightarrow> rat \<Rightarrow> nat" where
  "bisect_right xs x = length (takeWhile (\<lambda>b. b \<le> x) xs)"

definition bucket :: "rat \<Rightarrow> nat" where
  "bucket x = (let idx = bisect_right BOUNDS x in if length BOUNDS \<le> idx then length BOUNDS - 1 else idx)"

section \<open>The histogram\<close>

record hist =
  h_counts :: "nat list"
  h_count :: nat
  h_min :: "rat option"
  h_max :: rat
  h_sum :: rat

definition new_hist :: hist where
  "new_hist = \<lparr>h_counts = replicate (length BOUNDS) 0, h_count = 0, h_min = None, h_max = 0, h_sum = 0\<rparr>"

definition min_opt :: "rat option \<Rightarrow> rat \<Rightarrow> rat option" where
  "min_opt m x = Some (case m of None \<Rightarrow> x | Some y \<Rightarrow> min y x)"

definition record_latency :: "hist \<Rightarrow> rat \<Rightarrow> hist" where
  "record_latency h latency_ms =
     (let x = (if latency_ms < 0 then 0 else latency_ms); i = bucket x in
      h\<lparr>h_counts := (h_counts h)[i := h_counts h ! i + 1], h_count := h_count h + 1,
        h_sum := h_sum h + x, h_min := min_opt (h_min h) x, h_max := max (h_max h) x\<rparr>)"

definition hist_of :: "rat list \<Rightarrow> hist" where
  "hist_of xs = foldl record_latency new_hist xs"

definition low_or :: "bool \<Rightarrow> rat \<Rightarrow> rat option \<Rightarrow> rat option" where
  "low_or samples lo m =
     (if samples \<and> (case m of None \<Rightarrow> True | Some y \<Rightarrow> lo < y) then Some lo else m)"

text \<open>\<open>merge_counts\<close> with the raw state of another histogram (its counts are no longer than these).\<close>

definition merge_counts :: "hist \<Rightarrow> nat list \<Rightarrow> rat \<Rightarrow> rat \<Rightarrow> rat \<Rightarrow> nat \<Rightarrow> hist" where
  "merge_counts h counts lo hi tot samples =
     h\<lparr>h_counts := map2 (+) (h_counts h) (counts @ replicate (length (h_counts h) - length counts) 0),
       h_count := h_count h + samples, h_sum := h_sum h + tot,
       h_min := low_or (samples \<noteq> 0) lo (h_min h), h_max := max (h_max h) hi\<rparr>"

record hist_snapshot =
  hs_buckets :: "(nat \<times> nat) list"
  hs_min :: rat
  hs_max :: rat
  hs_sum :: rat
  hs_samples :: nat

definition hist_min :: "hist \<Rightarrow> rat" where
  "hist_min h = or_default 0 (h_min h)"

definition hist_mean :: "hist \<Rightarrow> rat" where
  "hist_mean h = (if h_count h \<noteq> 0 then h_sum h / of_nat (h_count h) else 0)"

definition snapshot :: "hist \<Rightarrow> hist_snapshot" where
  "snapshot h =
     \<lparr>hs_buckets = filter (\<lambda>(i, c). c \<noteq> 0) (enumerate 0 (h_counts h)), hs_min = hist_min h,
      hs_max = h_max h, hs_sum = h_sum h, hs_samples = h_count h\<rparr>"

definition add_bucket :: "nat list \<Rightarrow> nat \<times> nat \<Rightarrow> nat list" where
  "add_bucket counts b = counts[fst b := counts ! fst b + snd b]"

definition merge_snapshot :: "hist \<Rightarrow> hist_snapshot \<Rightarrow> hist" where
  "merge_snapshot h s =
     h\<lparr>h_counts := foldl add_bucket (h_counts h) (hs_buckets s), h_count := h_count h + hs_samples s,
       h_sum := h_sum h + hs_sum s, h_min := low_or (hs_samples s \<noteq> 0) (hs_min s) (h_min h),
       h_max := max (h_max h) (hs_max s)\<rparr>"

section \<open>Percentiles\<close>

fun percentile_bucket :: "nat list \<Rightarrow> nat \<Rightarrow> nat \<Rightarrow> rat \<Rightarrow> nat option" where
  "percentile_bucket [] i cum target = None"
| "percentile_bucket (c # cs) i cum target =
     (if target \<le> of_nat (cum + c) then Some i else percentile_bucket cs (i + 1) (cum + c) target)"

definition bucket_low :: "nat \<Rightarrow> rat" where
  "bucket_low i = (if i \<noteq> 0 then BOUNDS ! (i - 1) else 0)"

definition percentile :: "hist \<Rightarrow> rat \<Rightarrow> rat" where
  "percentile h p =
     (if h_count h = 0 then 0
      else case percentile_bucket (h_counts h) 0 0 (p / 100 * of_nat (h_count h)) of
             None \<Rightarrow> h_max h
           | Some i \<Rightarrow> max (hist_min h) (min ((bucket_low i + BOUNDS ! i) / 2) (h_max h)))"

section \<open>The bounds\<close>

lemma binades_above: "x \<in> set (binades unit) \<Longrightarrow> of_nat unit < x"
proof (induction unit rule: binades.induct)
  case (1 unit)
  show ?case
  proof (cases "0 < unit \<and> unit < 120000")
    case True
    have "of_nat unit < of_nat unit * (1 + of_nat s / of_nat SUB :: rat)" if "1 \<le> s" for s
      using True that by (simp add: SUB_def)
    moreover have "(of_nat unit :: rat) < x" if "x \<in> set (binades (2 * unit))"
    proof -
      have "of_nat (2 * unit) < x" using 1 True that by blast
      moreover have "(of_nat unit :: rat) \<le> of_nat (2 * unit)" by simp
      ultimately show ?thesis by linarith
    qed
    ultimately show ?thesis using 1(2) True by (subst (asm) binades.simps) auto
  next
    case False
    then show ?thesis using 1(2) by (subst (asm) binades.simps) auto
  qed
qed

text \<open>Neighbouring bounds: strictly increasing, and no bucket is wider than a sixteenth of its lower
  bound, or of one millisecond.\<close>

definition narrow :: "rat \<Rightarrow> rat \<Rightarrow> bool" where
  "narrow a b \<longleftrightarrow> a < b \<and> b - a \<le> max 1 a / 16"

lemma successively_map_upt:
  "(\<And>i. m \<le> i \<Longrightarrow> Suc i < n \<Longrightarrow> P (f i) (f (Suc i))) \<Longrightarrow> successively P (map f [m..<n])"
  by (auto simp: successively_conv_nth)

lemma binades_narrow:
  "0 < unit \<Longrightarrow> successively narrow (of_nat unit # binades unit)"
proof (induction unit rule: binades.induct)
  case (1 unit)
  show ?case
  proof (cases "unit < 120000")
    case True
    define f where "f s = (of_nat unit * (1 + of_nat s / of_nat SUB) :: rat)" for s :: nat
    have u: "1 \<le> (of_nat unit :: rat)" using 1(2) by simp
    have step: "narrow (f i) (f (Suc i))" for i
    proof -
      have "f (Suc i) - f i = of_nat unit / 16"
        by (simp add: f_def SUB_def field_simps)
      moreover have "of_nat unit \<le> f i" using u by (simp add: f_def)
      ultimately show ?thesis using u by (simp add: narrow_def)
    qed
    have eq: "of_nat unit # map f [1..<SUB + 1] = map f [0..<SUB + 1]"
      by (simp add: f_def upt_conv_Cons flip: One_nat_def)
    have f0: "f SUB = of_nat (2 * unit)" by (simp add: f_def SUB_def)
    have "successively narrow (map f [0..<SUB + 1])" using step by (intro successively_map_upt)
    moreover have "successively narrow (of_nat (2 * unit) # binades (2 * unit))" using 1 True by simp
    ultimately have "successively narrow (map f [0..<SUB + 1] @ binades (2 * unit))"
      using f0 by (cases "binades (2 * unit)") (simp_all add: successively_append_iff)
    moreover have "binades unit = map f [1..<SUB + 1] @ binades (2 * unit)"
      using True 1(2) by (subst binades.simps) (simp add: f_def del: upt_Suc)
    ultimately show ?thesis using eq by (metis append_Cons)
  next
    case False
    then show ?thesis by (subst binades.simps) simp
  qed
qed

lemma bounds_narrow: "successively narrow (0 # BOUNDS)"
proof -
  define f where "f i = (of_nat i / of_nat SUB :: rat)" for i :: nat
  have "narrow (f i) (f (Suc i))" for i
    by (simp add: f_def SUB_def narrow_def field_simps)
  then have "successively narrow (map f [0..<SUB + 1])" by (intro successively_map_upt)
  moreover have "map f [0..<SUB + 1] = 0 # map f [1..<SUB + 1]"
    by (simp add: f_def upt_conv_Cons flip: One_nat_def)
  moreover have "f SUB = of_nat 1" by (simp add: f_def SUB_def)
  then have "successively narrow (map f [0..<SUB + 1] @ binades 1)"
    using binades_narrow [of 1] calculation(1)
    by (cases "binades 1") (simp_all add: successively_append_iff)
  moreover have "BOUNDS = map f [1..<SUB + 1] @ binades 1" by (simp add: BOUNDS_def f_def del: upt_Suc)
  ultimately show ?thesis by (metis append_Cons)
qed

lemma bounds_nonempty: "BOUNDS \<noteq> []"
  by (simp add: BOUNDS_def SUB_def upt_rec)

lemma bucket_bounds:
  "i < length BOUNDS \<Longrightarrow> bucket_low i < BOUNDS ! i \<and> BOUNDS ! i - bucket_low i \<le> max 1 (bucket_low i) / 16"
proof -
  assume "i < length BOUNDS"
  then have "narrow ((0 # BOUNDS) ! i) ((0 # BOUNDS) ! Suc i)"
    using bounds_narrow by (subst (asm) successively_conv_nth) simp
  then show ?thesis by (cases i) (simp_all add: narrow_def bucket_low_def)
qed

lemma bounds_sorted: "sorted BOUNDS"
proof -
  have "successively (\<le>) (0 # BOUNDS)"
    using bounds_narrow by (rule successively_mono) (simp add: narrow_def)
  then have "successively (\<le>) BOUNDS" by (cases BOUNDS) (auto simp: successively_Cons)
  then show ?thesis by (simp add: successively_conv_sorted_wrt)
qed

definition LIMIT :: rat where
  "LIMIT = last BOUNDS"

lemma bisect_less: "x < LIMIT \<Longrightarrow> bisect_right BOUNDS x < length BOUNDS"
proof -
  assume "x < LIMIT"
  then have "\<not> (\<forall>b \<in> set BOUNDS. b \<le> x)" using last_in_set [OF bounds_nonempty] by (force simp: LIMIT_def)
  then have "takeWhile (\<lambda>b. b \<le> x) BOUNDS \<noteq> BOUNDS" using takeWhile_eq_all_conv by metis
  then show ?thesis
    using length_takeWhile_le [of "\<lambda>b. b \<le> x" BOUNDS]
    by (metis bisect_right_def le_neq_implies_less takeWhile_eq_take take_all_iff order_refl)
qed

lemma bucket_contains:
  assumes "0 \<le> x" and "x < LIMIT"
  shows "bucket x < length BOUNDS" "bucket_low (bucket x) \<le> x" "x < BOUNDS ! bucket x"
proof -
  have b: "bucket x = bisect_right BOUNDS x" using bisect_less [OF assms(2)] by (simp add: bucket_def)
  then show "bucket x < length BOUNDS" using bisect_less [OF assms(2)] by simp
  then show "x < BOUNDS ! bucket x"
    unfolding b bisect_right_def using nth_length_takeWhile [of "\<lambda>b. b \<le> x" BOUNDS] by simp
  show "bucket_low (bucket x) \<le> x"
  proof (cases "bucket x")
    case 0
    then show ?thesis using assms(1) by (simp add: bucket_low_def)
  next
    case (Suc j)
    then have j: "j < length (takeWhile (\<lambda>b. b \<le> x) BOUNDS)" using b by (simp add: bisect_right_def)
    then have "takeWhile (\<lambda>b. b \<le> x) BOUNDS ! j \<le> x" by (metis nth_mem set_takeWhileD)
    then show ?thesis using Suc j by (simp add: bucket_low_def takeWhile_nth)
  qed
qed

lemma bucket_mono: "x \<le> y \<Longrightarrow> bucket x \<le> bucket y"
proof -
  assume xy: "x \<le> y"
  have "length (takeWhile (\<lambda>b. b \<le> x) bs) \<le> length (takeWhile (\<lambda>b. b \<le> y) bs)" for bs
    using xy by (induction bs) auto
  then have "bisect_right BOUNDS x \<le> bisect_right BOUNDS y" by (simp add: bisect_right_def)
  then show ?thesis by (auto simp: bucket_def Let_def)
qed

lemma bucket_range: "bucket x < length BOUNDS"
  using bounds_nonempty by (auto simp: bucket_def Let_def)

section \<open>What a histogram holds\<close>

definition clamped :: "rat list \<Rightarrow> rat list" where
  "clamped xs = map (\<lambda>x. if x < 0 then 0 else x) xs"

definition counted :: "rat list \<Rightarrow> nat \<Rightarrow> nat" where
  "counted xs i = length (filter (\<lambda>x. bucket x = i) xs)"

text \<open>The state after recording a list of latencies, in closed form.\<close>

definition hist_spec :: "rat list \<Rightarrow> hist" where
  "hist_spec xs =
     \<lparr>h_counts = map (counted xs) [0..<length BOUNDS], h_count = length xs,
      h_min = (if xs = [] then None else Some (Min (set xs))),
      h_max = Max (insert 0 (set xs)), h_sum = sum_list xs\<rparr>"

lemma counted_Nil [simp]: "counted [] i = 0"
  by (simp add: counted_def)

lemma counted_append [simp]: "counted (xs @ ys) i = counted xs i + counted ys i"
  by (simp add: counted_def)

lemma hist_spec_snoc:
  "record_latency (hist_spec xs) x = hist_spec (xs @ [if x < 0 then 0 else x])"
proof -
  define y where "y = (if x < 0 then 0 else x)"
  have "(map (counted xs) [0..<length BOUNDS])[bucket y := map (counted xs) [0..<length BOUNDS] ! bucket y + 1] =
      map (counted (xs @ [y])) [0..<length BOUNDS]"
    using bucket_range [of y] by (intro nth_equalityI) (auto simp: nth_list_update counted_def)
  moreover have "Max (insert 0 (set (xs @ [y]))) = max (Max (insert 0 (set xs))) y"
  proof -
    have "insert 0 (set (xs @ [y])) = insert y (insert 0 (set xs))" by auto
    then show ?thesis by (simp add: max.commute del: Max_insert) (simp add: max.commute)
  qed
  moreover have "Min (set (xs @ [y])) = (if xs = [] then y else min (Min (set xs)) y)"
    by (cases "xs = []") (simp_all add: min.commute)
  ultimately show ?thesis
    by (auto simp: record_latency_def hist_spec_def min_opt_def Let_def simp flip: y_def)
qed

lemma hist_spec_Nil: "hist_spec [] = new_hist"
  by (auto simp: hist_spec_def new_hist_def intro: nth_equalityI)

lemma hist_of_spec: "hist_of xs = hist_spec (clamped xs)"
proof (induction xs rule: rev_induct)
  case Nil
  then show ?case by (simp add: hist_of_def clamped_def hist_spec_Nil)
next
  case (snoc x xs)
  then show ?case by (simp add: hist_of_def clamped_def hist_spec_snoc)
qed

section \<open>Merging\<close>

lemma add_buckets:
  "length cs = length ds \<Longrightarrow>
   foldl add_bucket (cs0 @ cs) (filter (\<lambda>(i, c). c \<noteq> 0) (enumerate (length cs0) ds)) =
   cs0 @ map2 (+) cs ds"
proof (induction cs ds arbitrary: cs0 rule: list_induct2)
  case Nil
  then show ?case by simp
next
  case (Cons c cs d ds)
  have "add_bucket (cs0 @ c # cs) (length cs0, d) = (cs0 @ [c + d]) @ cs"
    by (simp add: add_bucket_def)
  then show ?case using Cons.IH [of "cs0 @ [c + d]"] Cons.IH [of "cs0 @ [c]"] by simp
qed

lemma low_or_Some: "low_or True lo (Some m) = Some (min m lo)"
  by (simp add: low_or_def min_def)

lemma merge_snapshot_spec:
  assumes "\<forall>x \<in> set ys. 0 \<le> x"
  shows "merge_snapshot (hist_spec xs) (snapshot (hist_spec ys)) = hist_spec (xs @ ys)"
proof -
  have "foldl add_bucket (map (counted xs) [0..<length BOUNDS])
      (filter (\<lambda>(i, c). c \<noteq> 0) (enumerate 0 (map (counted ys) [0..<length BOUNDS]))) =
      map (counted (xs @ ys)) [0..<length BOUNDS]"
    using add_buckets [of "map (counted xs) [0..<length BOUNDS]" "map (counted ys) [0..<length BOUNDS]" "[]"]
    by (auto intro: nth_equalityI)
  moreover have "low_or (ys \<noteq> []) (Min (set ys)) (if xs = [] then None else Some (Min (set xs))) =
      (if xs @ ys = [] then None else Some (Min (set (xs @ ys))))"
    by (cases "xs = []"; cases "ys = []") (simp_all add: low_or_Some Min_Un, simp_all add: low_or_def)
  moreover have "Max (insert 0 (set (xs @ ys))) = max (Max (insert 0 (set xs))) (Max (insert 0 (set ys)))"
  proof -
    have "insert 0 (set (xs @ ys)) = insert 0 (set xs) \<union> insert 0 (set ys)" by auto
    then show ?thesis by (metis Max_Un finite_insert finite_set insert_not_empty)
  qed
  ultimately show ?thesis
    by (cases "ys = []")
      (auto simp: merge_snapshot_def snapshot_def hist_spec_def hist_min_def low_or_def)
qed

lemma clamped_nonneg: "x \<in> set (clamped xs) \<Longrightarrow> 0 \<le> x"
  by (auto simp: clamped_def)

lemma merge_hist_of: "merge_snapshot (hist_of xs) (snapshot (hist_of ys)) = hist_of (xs @ ys)"
  using merge_snapshot_spec [of "clamped ys" "clamped xs"] clamped_nonneg
  by (auto simp: hist_of_spec clamped_def)

lemma merge_fleet:
  "foldl merge_snapshot (hist_of xs) (map (\<lambda>ys. snapshot (hist_of ys)) yss) = hist_of (xs @ concat yss)"
  by (induction yss arbitrary: xs) (simp_all add: merge_hist_of)

section \<open>Percentiles\<close>

lemma percentile_bucket_Some:
  "percentile_bucket cs i cum target = Some j \<Longrightarrow>
   i \<le> j \<and> j < i + length cs \<and> target \<le> of_nat (cum + sum_list (take (Suc (j - i)) cs)) \<and>
   (i < j \<longrightarrow> of_nat (cum + sum_list (take (j - i) cs)) < target)"
proof (induction cs arbitrary: i cum)
  case Nil
  then show ?case by simp
next
  case (Cons c cs)
  show ?case
  proof (cases "target \<le> of_nat (cum + c)")
    case True
    then show ?thesis using Cons.prems by auto
  next
    case False
    note IH = Cons.IH [of "i + 1" "cum + c"]
    from IH False Cons.prems have j: "i + 1 \<le> j" by auto
    then obtain k where k: "j - i = Suc k" "j - (i + 1) = k" by (cases "j - i") auto
    show ?thesis using IH False Cons.prems j k
      by (cases "j = i + 1") (auto simp: add.assoc)
  qed
qed

lemma percentile_bucket_exists:
  "target \<le> of_nat (cum + sum_list cs) \<Longrightarrow> cs \<noteq> [] \<Longrightarrow> \<exists>j. percentile_bucket cs i cum target = Some j"
proof (induction cs arbitrary: i cum)
  case Nil
  then show ?case by simp
next
  case (Cons c cs)
  show ?case
  proof (cases "target \<le> of_nat (cum + c)")
    case False
    then have "cs \<noteq> []" using Cons.prems(1) by auto
    then show ?thesis using False Cons.IH [of "cum + c" "i + 1"] Cons.prems(1) by (simp add: add.assoc)
  qed simp
qed

lemma sum_counted:
  "n \<le> length BOUNDS \<Longrightarrow>
   sum_list (take n (map (counted xs) [0..<length BOUNDS])) = length (filter (\<lambda>x. bucket x < n) xs)"
proof (induction n)
  case 0
  then show ?case by simp
next
  case (Suc n)
  have "length (filter (\<lambda>x. bucket x < Suc n) xs) = length (filter (\<lambda>x. bucket x < n) xs) + counted xs n"
    by (induction xs) (auto simp: counted_def)
  then show ?case using Suc by (simp add: take_Suc_conv_app_nth)
qed

lemma filter_takeWhile_sorted:
  "sorted s \<Longrightarrow> filter (\<lambda>x. bucket x < k) s = takeWhile (\<lambda>x. bucket x < k) s"
proof (induction s)
  case Nil
  then show ?case by simp
next
  case (Cons a s)
  have "filter (\<lambda>x. bucket x < k) s = []" if "\<not> bucket a < k"
    using Cons.prems that bucket_mono by (fastforce simp: filter_empty_conv)
  then show ?case using Cons by auto
qed

lemma rank_bucket:
  assumes lo: "length (filter (\<lambda>x. bucket x < i) xs) \<le> j" and hi: "j < length (filter (\<lambda>x. bucket x < Suc i) xs)"
  shows "bucket (sort xs ! j) = i"
proof -
  have len: "length (filter (\<lambda>x. bucket x < k) xs) = length (takeWhile (\<lambda>x. bucket x < k) (sort xs))" for k
  proof -
    have "length (filter (\<lambda>x. bucket x < k) xs) = length (filter (\<lambda>x. bucket x < k) (sort xs))"
      by (metis mset_filter mset_sort size_mset)
    then show ?thesis by (simp add: filter_takeWhile_sorted)
  qed
  have "sort xs ! j = takeWhile (\<lambda>x. bucket x < Suc i) (sort xs) ! j"
    using hi len by (simp add: takeWhile_nth)
  then have "bucket (sort xs ! j) < Suc i"
    using hi len by (metis nth_mem set_takeWhileD)
  moreover have "\<not> bucket (sort xs ! j) < i"
  proof
    assume b: "bucket (sort xs ! j) < i"
    have j: "j < length (sort xs)" using hi by (metis len length_sort length_takeWhile_le less_le_trans)
    have m: "length (takeWhile (\<lambda>x. bucket x < i) (sort xs)) \<le> j" using lo len by simp
    then have l: "length (takeWhile (\<lambda>x. bucket x < i) (sort xs)) < length (sort xs)" using j by linarith
    then have "\<not> bucket (sort xs ! length (takeWhile (\<lambda>x. bucket x < i) (sort xs))) < i"
      by (rule nth_length_takeWhile)
    moreover have "sort xs ! length (takeWhile (\<lambda>x. bucket x < i) (sort xs)) \<le> sort xs ! j"
      using m j by (intro sorted_nth_mono) auto
    ultimately show False using bucket_mono b by (meson le_less_trans)
  qed
  ultimately show ?thesis by simp
qed

lemma percentile_close:
  assumes ne: "xs \<noteq> []" and range: "\<forall>x \<in> set xs. 0 \<le> x \<and> x < LIMIT" and p: "0 < p" "p \<le> 100"
  defines "j \<equiv> nat \<lceil>p / 100 * of_nat (length xs)\<rceil> - 1"
  shows "j < length xs \<and> \<bar>percentile (hist_spec xs) p - sort xs ! j\<bar> \<le> max 1 (sort xs ! j) / 32"
proof -
  define n where "n = length xs"
  define t where "t = p / 100 * of_nat n"
  have n: "0 < n" using ne by (simp add: n_def)
  have t: "0 < t" "t \<le> of_nat n"
    using p n mult_right_mono [of "p / 100" 1 "of_nat n"] by (simp_all add: t_def)
  have "j = nat \<lceil>t\<rceil> - 1" by (simp only: j_def t_def n_def)
  moreover have "0 < \<lceil>t\<rceil>" using t by simp
  ultimately have j: "int j = \<lceil>t\<rceil> - 1" by linarith
  have jt: "of_nat j < t" "t \<le> of_nat (Suc j)" using j by linarith+
  have jn: "j < n" using jt(1) t(2) by (metis less_le_trans of_nat_less_iff)
  define v where "v = sort xs ! j"
  have v: "v \<in> set xs" using jn by (metis length_sort n_def nth_mem set_sort v_def)
  define cs where "cs = map (counted xs) [0..<length BOUNDS]"
  have cs: "length cs = length BOUNDS" by (simp add: cs_def)
  have "sum_list cs = n"
    using sum_counted [of "length BOUNDS" xs] bucket_range by (simp add: cs_def n_def)
  then obtain i where i: "percentile_bucket cs 0 0 t = Some i"
    using percentile_bucket_exists [of t 0 cs 0] t(2) bounds_nonempty cs by fastforce
  note pb = percentile_bucket_Some [OF i]
  have iN: "i < length BOUNDS" using pb cs by simp
  have sums: "sum_list (take k cs) = length (filter (\<lambda>x. bucket x < k) xs)" if "k \<le> length BOUNDS" for k
    using sum_counted [OF that] by (simp add: cs_def)
  have "t \<le> of_nat (length (filter (\<lambda>x. bucket x < Suc i) xs))"
    using pb sums [of "Suc i"] iN by simp
  then have hi: "j < length (filter (\<lambda>x. bucket x < Suc i) xs)"
    using jt(1) by (metis less_le_trans of_nat_less_iff)
  have "of_nat (length (filter (\<lambda>x. bucket x < i) xs)) < t"
    using pb sums [of i] iN t(1) by (cases "i = 0") auto
  then have lo: "length (filter (\<lambda>x. bucket x < i) xs) \<le> j"
    using jt(2) by (metis less_le_trans less_Suc_eq_le of_nat_less_iff)
  have b: "bucket v = i" using rank_bucket [OF lo hi] by (simp add: v_def)
  have vb: "bucket_low i \<le> v" "v < BOUNDS ! i" using bucket_contains [of v] range v b by auto
  have w: "BOUNDS ! i - bucket_low i \<le> max 1 v / 16"
    using bucket_bounds [OF iN] vb(1) by (auto simp: max_def split: if_splits)
  have mm: "Min (set xs) \<le> v" "v \<le> Max (insert 0 (set xs))" using v by auto
  have "percentile (hist_spec xs) p =
      max (Min (set xs)) (min ((bucket_low i + BOUNDS ! i) / 2) (Max (insert 0 (set xs))))"
    using i ne n by (simp add: percentile_def hist_spec_def hist_min_def t_def n_def cs_def del: Max_insert)
  moreover have "\<bar>max lo' (min ((a + c) / 2) hi') - v\<bar> \<le> (c - a) / 2"
    if "lo' \<le> v" "v \<le> hi'" "a \<le> v" "v < c" for lo' hi' a c :: rat
    using that by (auto simp: max_def min_def abs_if field_simps)
  ultimately have "\<bar>percentile (hist_spec xs) p - v\<bar> \<le> (BOUNDS ! i - bucket_low i) / 2"
    using mm vb by simp
  then show ?thesis using w jn by (simp add: v_def n_def)
qed

section \<open>The range\<close>

lemma last_binades:
  "0 < unit \<Longrightarrow> unit < 120000 \<Longrightarrow> binades unit \<noteq> [] \<and>
   last (binades unit) = (if 2 * unit < 120000 then last (binades (2 * unit)) else of_nat (2 * unit))"
proof -
  assume u: "0 < unit" "unit < 120000"
  have "binades unit = map (\<lambda>s. of_nat unit * (1 + of_nat s / of_nat SUB)) [1..<SUB + 1] @ binades (2 * unit)"
    using u by (subst binades.simps) (simp del: upt_Suc)
  moreover have "binades (2 * unit) = [] \<longleftrightarrow> \<not> 2 * unit < 120000"
    using u by (subst binades.simps) (simp add: SUB_def)
  ultimately show ?thesis by (auto simp: SUB_def last_map)
qed

lemma LIMIT_value: "LIMIT = 131072"
  using last_binades [of 1]
  by (simp add: LIMIT_def BOUNDS_def last_binades)

section \<open>Fleet statistics\<close>

text \<open>\<open>LoadStats\<close> and \<open>merge_samples\<close>; a sample is what one worker last reported.\<close>

datatype counter =
    Generated | Sent | Received | Errors | Live | Dead | Reconnects | In_Flight | Max_In_Flight
  | Peak_In_Flight | Throttled | Aborted

record load_sample =
  ls_counters :: "counter \<Rightarrow> int"
  ls_target_tps :: rat
  ls_tps :: rat
  ls_elapsed_s :: rat
  ls_last_error :: "string option"
  ls_categories :: "(string \<times> int) list"
  ls_hist :: "hist_snapshot option"

record load_stats =
  st_counters :: "counter \<Rightarrow> int"
  st_target_tps :: rat
  st_tps :: rat
  st_elapsed_s :: rat
  st_last_error :: "string option"
  st_categories :: "(string \<times> int) list"
  st_hist :: hist

definition new_stats :: load_stats where
  "new_stats = \<lparr>st_counters = \<lambda>_. 0, st_target_tps = 0, st_tps = 0, st_elapsed_s = 0,
     st_last_error = None, st_categories = [], st_hist = new_hist\<rparr>"

definition add_category :: "(string \<times> int) list \<Rightarrow> string \<times> int \<Rightarrow> (string \<times> int) list" where
  "add_category cats kn = AList.update (fst kn) (or_default 0 (map_of cats (fst kn)) + snd kn) cats"

definition merge_sample :: "load_stats \<Rightarrow> load_sample \<Rightarrow> load_stats" where
  "merge_sample out s =
     \<lparr>st_counters = \<lambda>c. st_counters out c + ls_counters s c,
      st_target_tps = st_target_tps out + ls_target_tps s, st_tps = st_tps out + ls_tps s,
      st_elapsed_s = max (st_elapsed_s out) (ls_elapsed_s s),
      st_last_error = (case ls_last_error s of None \<Rightarrow> st_last_error out
                       | Some e \<Rightarrow> if e = '''' then st_last_error out else Some e),
      st_categories = foldl add_category (st_categories out) (ls_categories s),
      st_hist = (case ls_hist s of None \<Rightarrow> st_hist out | Some h \<Rightarrow> merge_snapshot (st_hist out) h)\<rparr>"

definition merge_samples :: "load_sample list \<Rightarrow> load_stats" where
  "merge_samples samples = foldl merge_sample new_stats samples"

definition pending :: "load_stats \<Rightarrow> int" where
  "pending s =
     max 0 (st_counters s Sent - st_counters s Received - st_counters s Errors - st_counters s Aborted)"

definition saturation :: "load_stats \<Rightarrow> rat" where
  "saturation s =
     (if st_counters s Max_In_Flight \<noteq> 0
      then of_int (st_counters s In_Flight) / of_int (st_counters s Max_In_Flight) else 0)"

lemma merge_samples_counters:
  "st_counters (foldl merge_sample out samples) c = st_counters out c + (\<Sum>s\<leftarrow>samples. ls_counters s c)"
  by (induction samples arbitrary: out) (simp_all add: merge_sample_def)

lemma merge_samples_hist:
  "(\<And>s. s \<in> set samples \<Longrightarrow> ls_hist s = Some (snapshot (hist_of (f s)))) \<Longrightarrow>
   st_hist out = hist_of xs \<Longrightarrow>
   st_hist (foldl merge_sample out samples) = hist_of (xs @ concat (map f samples))"
proof (induction samples arbitrary: out xs)
  case Nil
  then show ?case by simp
next
  case (Cons s samples)
  have "st_hist (merge_sample out s) = hist_of (xs @ f s)"
    using Cons.prems by (simp add: merge_sample_def merge_hist_of)
  then show ?case using Cons.IH [of "merge_sample out s" "xs @ f s"] Cons.prems(1) by simp
qed

lemma merge_samples_categories:
  "or_default 0 (map_of (foldl add_category cats kns) k) =
     or_default 0 (map_of cats k) + (\<Sum>kn\<leftarrow>kns. if fst kn = k then snd kn else 0)"
proof (induction kns arbitrary: cats)
  case Nil
  then show ?case by simp
next
  case (Cons kn kns)
  have "or_default 0 (map_of (add_category cats kn) k) =
      or_default 0 (map_of cats k) + (if fst kn = k then snd kn else 0)"
    by (simp add: add_category_def update_conv')
  then show ?case using Cons by simp
qed

section \<open>Properties\<close>

text \<open>C22. Merging is exact: the fleet statistics of any number of workers hold the histogram that one
  worker would have recorded for all their latencies, so fleet percentiles are those of the whole
  population, and every counter is the sum of the workers' counters.
\<close>

theorem merged_fleet_is_exact:
  assumes "\<And>s. s \<in> set samples \<Longrightarrow> ls_hist s = Some (snapshot (hist_of (f s)))"
  shows "st_hist (merge_samples samples) = hist_of (concat (map f samples)) \<and>
    (\<forall>c. st_counters (merge_samples samples) c = (\<Sum>s\<leftarrow>samples. ls_counters s c))"
proof -
  have "st_hist new_stats = hist_of []" by (simp add: new_stats_def hist_of_def)
  from merge_samples_hist [OF assms this] show ?thesis
    using merge_samples_counters [of new_stats samples]
    by (simp add: merge_samples_def new_stats_def)
qed

definition sample_of :: "rat list \<Rightarrow> load_sample" where
  "sample_of xs = \<lparr>ls_counters = (\<lambda>c. if c \<in> {Sent, Received} then int (length xs) else 0),
     ls_target_tps = 10, ls_tps = 9, ls_elapsed_s = 1, ls_last_error = None, ls_categories = [],
     ls_hist = Some (snapshot (hist_of xs))\<rparr>"

lemma merged_fleet_is_exact_witness:
  "st_hist (merge_samples [sample_of [1, 5], sample_of [7 / 2]]) = hist_of [1, 5, 7 / 2] \<and>
   st_counters (merge_samples [sample_of [1, 5], sample_of [7 / 2]]) Sent = 3"
proof -
  define f where "f s = (if s = sample_of [1, 5] then [1, 5] else [7 / 2 :: rat])" for s
  have "ls_hist s = Some (snapshot (hist_of (f s)))" if "s \<in> set [sample_of [1, 5], sample_of [7 / 2]]" for s
    using that by (auto simp: f_def sample_of_def)
  from merged_fleet_is_exact [of "[sample_of [1, 5], sample_of [7 / 2]]" f, OF this]
  have m: "st_hist (merge_samples [sample_of [1, 5], sample_of [7 / 2]]) =
        hist_of (f (sample_of [1, 5]) @ f (sample_of [7 / 2]))"
    "st_counters (merge_samples [sample_of [1, 5], sample_of [7 / 2]]) Sent = 3"
    by (simp_all add: sample_of_def)
  have "ls_counters (sample_of [1, 5]) Sent \<noteq> ls_counters (sample_of [7 / 2]) Sent"
    by (simp add: sample_of_def)
  then have "sample_of [7 / 2] \<noteq> sample_of [1, 5]" by metis
  then have "f (sample_of [1, 5]) = [1, 5]" "f (sample_of [7 / 2]) = [7 / 2]" by (simp_all add: f_def)
  then show ?thesis using m by simp
qed

text \<open>A percentile is accurate to the bucket width: for latencies in the range of the buckets (up to
  131072 ms) the value reported for the \<open>p\<close>-th percentile differs from the sample of that rank by at
  most a thirty-second of it, or of a millisecond.
\<close>

theorem percentile_accuracy:
  assumes "xs \<noteq> []" and "\<forall>x \<in> set xs. 0 \<le> x \<and> x < 131072" and "0 < p" and "p \<le> 100"
  shows "\<exists>j < length xs. j = nat \<lceil>p / 100 * of_nat (length xs)\<rceil> - 1 \<and>
    \<bar>percentile (hist_of xs) p - sort xs ! j\<bar> \<le> max 1 (sort xs ! j) / 32"
proof -
  have "clamped xs = xs" using assms(2) by (induction xs) (auto simp: clamped_def)
  then have "hist_of xs = hist_spec xs" by (simp add: hist_of_spec)
  then show ?thesis using percentile_close [OF assms(1) _ assms(3,4)] assms(2) by (simp add: LIMIT_value)
qed

lemma percentile_accuracy_witness:
  "\<bar>percentile (hist_of [100, 20, 60]) 50 - 60\<bar> \<le> 60 / 32"
proof -
  have "\<lceil>3 / 2 :: rat\<rceil> = 2" by (simp add: ceiling_unique)
  then show ?thesis using percentile_accuracy [of "[100, 20, 60]" 50] by simp
qed

end
