(* ===== verification/Start_Order.thy ===== *)
theory Start_Order
  imports Main "HOL-Library.Multiset"
begin

text \<open>
  Ordering the nodes of a wiring so that every node comes after the nodes it calls: facts on orders and
  on finite acyclic relations that the network flows and the agent workflows share.
\<close>

named_theorems start_order \<open>facts on callees-first orders\<close>

text \<open>Every node is preceded by all the nodes it calls.\<close>

fun callees_first :: "('a \<Rightarrow> 'a list) \<Rightarrow> 'a list \<Rightarrow> 'a list \<Rightarrow> bool" where
  "callees_first calls before [] = True"
| "callees_first calls before (p # ps) =
     (set (calls p) \<subseteq> set before \<and> callees_first calls (before @ [p]) ps)"

lemma callees_first_append [start_order]:
  "callees_first calls before (ps @ qs) \<longleftrightarrow>
     callees_first calls before ps \<and> callees_first calls (before @ ps) qs"
  by (induction ps arbitrary: before) auto

lemma callees_first_round [start_order]:
  "\<forall>p \<in> set ps. set (calls p) \<subseteq> set before \<Longrightarrow> callees_first calls before ps"
proof (induction ps arbitrary: before)
  case (Cons a ps)
  then have "\<forall>p \<in> set ps. set (calls p) \<subseteq> set (before @ [a])" by auto
  then show ?case using Cons by simp
qed simp

lemma callees_first_split:
  "callees_first calls before ps \<Longrightarrow> ps = xs @ p # ys \<Longrightarrow> set (calls p) \<subseteq> set before \<union> set xs"
  by (auto simp: callees_first_append)

text \<open>The place of a node in an order.\<close>

fun place :: "'a \<Rightarrow> 'a list \<Rightarrow> nat" where
  "place p [] = 0"
| "place p (q # qs) = (if p = q then 0 else Suc (place p qs))"

lemma place_prefix: "q \<in> set xs \<Longrightarrow> p \<notin> set xs \<Longrightarrow> place q (xs @ p # ys) < place p (xs @ p # ys)"
  by (induction xs) auto

lemma callees_first_place:
  assumes "callees_first calls [] ps" and "p \<in> set ps" and "q \<in> set (calls p)"
  shows "place q ps < place p ps"
proof -
  obtain xs ys where ps: "ps = xs @ p # ys" and p: "p \<notin> set xs" using assms(2) by (meson split_list_first)
  have "q \<in> set xs" using callees_first_split [OF assms(1) ps] assms(3) by auto
  then show ?thesis unfolding ps using p by (rule place_prefix)
qed

text \<open>A callees-first order of every caller excludes cycles.\<close>

lemma callees_first_acyclic [start_order]:
  assumes "callees_first calls [] ps" and "\<And>p q. (p, q) \<in> R \<Longrightarrow> p \<in> set ps \<and> q \<in> set (calls p)"
  shows "acyclic R"
proof -
  have "R\<inverse> \<subseteq> inv_image less_than (\<lambda>p. place p ps)"
    using callees_first_place [OF assms(1)] assms(2) by auto
  then have "wf (R\<inverse>)" by (rule wf_subset [OF wf_inv_image [OF wf_less_than]])
  then show ?thesis using wf_acyclic by fastforce
qed

text \<open>A nonempty set of nodes that all call one another has a cycle.\<close>

lemma no_sink_not_acyclic:
  assumes "finite R" and "x \<in> S" and "\<And>p. p \<in> S \<Longrightarrow> \<exists>q \<in> S. (p, q) \<in> R"
  shows "\<not> acyclic R"
proof
  assume "acyclic R"
  then have "wf (R\<inverse>)" using assms(1) finite_acyclic_wf_converse by blast
  then obtain m where "m \<in> S" "\<And>q. (m, q) \<in> R \<Longrightarrow> q \<notin> S"
    using assms(2) by (auto elim: wfE_min)
  then show False using assms(3) by blast
qed

section \<open>What a start order promises\<close>

text \<open>
  The contract of a routine that orders the nodes of a graph: it splits them into an ordered and a left
  over part, the ordered part puts callees first, and every node left over waits for another one.
\<close>

locale start_order =
  fixes nodes :: "'g \<Rightarrow> 'a list"
    and calls :: "'g \<Rightarrow> 'a \<Rightarrow> 'a list"
    and order :: "'g \<Rightarrow> 'a list \<times> 'a list"
  assumes calls_nodes: "q \<in> set (calls g p) \<Longrightarrow> q \<in> set (nodes g)"
    and order_mset: "mset (fst (order g)) + mset (snd (order g)) = mset (nodes g)"
    and order_callees_first: "callees_first (calls g) [] (fst (order g))"
    and order_stuck: "p \<in> set (snd (order g)) \<Longrightarrow> \<not> set (calls g p) \<subseteq> set (fst (order g))"
begin

definition wiring :: "'g \<Rightarrow> ('a \<times> 'a) set" where
  "wiring g = {(p, q). p \<in> set (nodes g) \<and> q \<in> set (calls g p)}"

lemma wiring_finite: "finite (wiring g)"
  by (rule finite_subset [of _ "set (nodes g) \<times> set (nodes g)"]) (auto simp: wiring_def dest: calls_nodes)

lemma order_set: "set (fst (order g)) \<union> set (snd (order g)) = set (nodes g)"
  using arg_cong [OF order_mset, of set_mset g] by simp

lemma waits_for_another:
  assumes "p \<in> set (snd (order g))"
  shows "\<exists>q \<in> set (snd (order g)). (p, q) \<in> wiring g"
proof -
  obtain q where "q \<in> set (calls g p)" "q \<notin> set (fst (order g))" using order_stuck [OF assms] by blast
  then show ?thesis using assms order_set [of g] calls_nodes [of q g p] by (auto simp: wiring_def)
qed

lemma complete_iff_acyclic: "snd (order g) = [] \<longleftrightarrow> acyclic (wiring g)"
proof
  assume "snd (order g) = []"
  then show "acyclic (wiring g)"
    using order_set [of g] by (intro callees_first_acyclic [OF order_callees_first [of g]]) (auto simp: wiring_def)
next
  assume a: "acyclic (wiring g)"
  show "snd (order g) = []"
  proof (rule ccontr)
    assume "snd (order g) \<noteq> []"
    then obtain x where "x \<in> set (snd (order g))" by (cases "snd (order g)") auto
    from no_sink_not_acyclic [OF wiring_finite this waits_for_another] a show False by blast
  qed
qed

lemma complete_distinct: "distinct (nodes g) \<Longrightarrow> snd (order g) = [] \<Longrightarrow> distinct (fst (order g))"
  using order_mset [of g] mset_eq_imp_distinct_iff by fastforce

lemma callee_placed:
  "fst (order g) = xs @ p # ys \<Longrightarrow> q \<in> set (calls g p) \<Longrightarrow> q \<in> set xs"
  using callees_first_split [OF order_callees_first] by fastforce

end

end
