(* ===== verification/Network_Flow.thy ===== *)
theory Network_Flow
  imports Py_Values Start_Order
begin

text \<open>
  Network flows (\<open>scenario-service/models/network_flow.py\<close>): canvases of participants, traffic
  initiators, simulators and groups whose edges say who sends traffic to whom. The structural
  validation, the start order (callees first) and the launch plan.
\<close>

section \<open>Drafts and issues\<close>

record net_node =
  net_id :: string
  net_kind :: string
  net_config :: "(string \<times> pyv) list"

record wire =
  w_source :: string
  w_target :: string

record net_draft =
  net_nodes :: "net_node list"
  net_edges :: "wire list"

definition NETWORK_NODE_KINDS :: "string list" where
  "NETWORK_NODE_KINDS = [''participant'', ''scenario'', ''simulator'', ''group'']"

definition TARGET_ONLY_KINDS :: "string list" where
  "TARGET_ONLY_KINDS = [''simulator'']"

text \<open>One constructor per message; the step it is reported at comes first.\<close>

datatype net_issue =
    Duplicate_Node string | Needs_Flow_Id string | Bad_Instances string | Needs_Scenario_Id string
  | Needs_Simulator_Id string | Needs_Group_Id string | Kind_Not_Allowed string string
  | Edge_From_Unknown string | Edge_To_Unknown string string | Self_Wire string
  | Edge_Into_Scenario string string | Edge_Out_Of_Simulator string | Group_Fans_Out string string string
  | Wiring_Cycle | No_Nodes

fun net_error :: "net_issue \<Rightarrow> bool" where
  "net_error Wiring_Cycle = False"
| "net_error No_Nodes = False"
| "net_error _ = True"

text \<open>\<open>not str(cfg.get(key, "")).strip()\<close>.\<close>

definition blank_key :: "(pyv \<Rightarrow> string) \<Rightarrow> (string \<times> pyv) list \<Rightarrow> string \<Rightarrow> bool" where
  "blank_key rp cfg key \<longleftrightarrow> strip (u (pystr rp (get cfg key (PStr '''')))) = []"

text \<open>\<open>int(cfg.get("instances", 1)) < 1\<close>, with \<open>TypeError\<close> and \<open>ValueError\<close> counted as a failure.\<close>

definition bad_instances :: "(string \<times> pyv) list \<Rightarrow> bool" where
  "bad_instances cfg = (case int_of (get cfg ''instances'' (PInt 1)) of Inl e \<Rightarrow> True | Inr n \<Rightarrow> n < 1)"

definition config_issues :: "(pyv \<Rightarrow> string) \<Rightarrow> net_node \<Rightarrow> net_issue list" where
  "config_issues rp n =
     (let cfg = net_config n; x = net_id n in
      if net_kind n = ''participant'' then
        (if blank_key rp cfg ''flow_id'' then [Needs_Flow_Id x] else []) @
        (if bad_instances cfg then [Bad_Instances x] else [])
      else if net_kind n = ''scenario'' then
        (if blank_key rp cfg ''scenario_id'' then [Needs_Scenario_Id x] else [])
      else if net_kind n = ''simulator'' then
        (if blank_key rp cfg ''simulator_id'' then [Needs_Simulator_Id x] else [])
      else if net_kind n = ''group'' then
        (if blank_key rp cfg ''group_id'' then [Needs_Group_Id x] else [])
      else [Kind_Not_Allowed x (net_kind n)])"

fun node_issues :: "(pyv \<Rightarrow> string) \<Rightarrow> string list \<Rightarrow> net_node list \<Rightarrow> net_issue list" where
  "node_issues rp seen [] = []"
| "node_issues rp seen (n # ns) =
     (if net_id n \<in> set seen then [Duplicate_Node (net_id n)] else []) @
     config_issues rp n @ node_issues rp (net_id n # seen) ns"

text \<open>\<open>{n.id: n.kind for n in nodes}\<close>: of several nodes with one id, the last.\<close>

definition by_id :: "net_node list \<Rightarrow> string \<Rightarrow> net_node option" where
  "by_id ns = map_of (rev (map (\<lambda>n. (net_id n, n)) ns))"

definition kind_of :: "net_draft \<Rightarrow> string \<Rightarrow> string option" where
  "kind_of d x = map_option net_kind (by_id (net_nodes d) x)"

definition wire_issues :: "net_draft \<Rightarrow> wire \<Rightarrow> net_issue list" where
  "wire_issues d e =
     (case kind_of d (w_source e) of
        None \<Rightarrow> [Edge_From_Unknown (w_source e)]
      | Some sk \<Rightarrow>
          (case kind_of d (w_target e) of
             None \<Rightarrow> [Edge_To_Unknown (w_source e) (w_target e)]
           | Some tk \<Rightarrow>
               (if w_source e = w_target e then [Self_Wire (w_source e)] else []) @
               (if tk = ''scenario'' then [Edge_Into_Scenario (w_source e) (w_target e)] else []) @
               (if sk \<in> set TARGET_ONLY_KINDS then [Edge_Out_Of_Simulator (w_source e)] else []) @
               (if sk = ''group'' \<and> tk \<noteq> ''participant''
                then [Group_Fans_Out (w_source e) tk (w_target e)] else [])))"

section \<open>The start order\<close>

definition participant_ids :: "net_draft \<Rightarrow> string list" where
  "participant_ids d = map net_id (filter (\<lambda>n. net_kind n = ''participant'') (net_nodes d))"

definition group_ids :: "net_draft \<Rightarrow> string list" where
  "group_ids d = map net_id (filter (\<lambda>n. net_kind n = ''group'') (net_nodes d))"

definition is_participant :: "net_draft \<Rightarrow> string \<Rightarrow> bool" where
  "is_participant d x \<longleftrightarrow> kind_of d x = Some ''participant''"

definition participant_edges :: "net_draft \<Rightarrow> (string \<times> string) list" where
  "participant_edges d =
     [(w_source e, w_target e). e \<leftarrow> net_edges d,
        is_participant d (w_source e) \<and> is_participant d (w_target e)] @
     [(a, b). gid \<leftarrow> group_ids d,
        a \<leftarrow> [w_source e. e \<leftarrow> net_edges d, w_target e = gid \<and> is_participant d (w_source e)],
        b \<leftarrow> [w_target e. e \<leftarrow> net_edges d, w_source e = gid \<and> is_participant d (w_target e)],
        a \<noteq> b]"

text \<open>The nodes that a participant calls.\<close>

definition net_calls :: "net_draft \<Rightarrow> string \<Rightarrow> string list" where
  "net_calls d p = map snd (filter (\<lambda>e. fst e = p) (participant_edges d))"

lemma filter_shorter: "\<exists>x \<in> set xs. \<not> P x \<Longrightarrow> length (filter P xs) < length xs"
  by (meson length_filter_less)

text \<open>The loop of \<open>_toposort\<close>; \<open>placed\<close> is the set of the ordered nodes.\<close>

function topo_rounds :: "('a \<Rightarrow> 'a list) \<Rightarrow> 'a list \<Rightarrow> 'a list \<Rightarrow> 'a list \<times> 'a list" where
  "topo_rounds calls ordered remaining =
     (let ready = filter (\<lambda>p. set (calls p) \<subseteq> set ordered) remaining in
      if ready = [] then (ordered, remaining)
      else topo_rounds calls (ordered @ ready)
             (filter (\<lambda>p. p \<notin> set (ordered @ ready)) remaining))"
  by auto

termination
proof (relation "measure (\<lambda>(c, o', r). length r)", goal_cases)
  case (2 calls ordered remaining ready)
  then obtain p where "p \<in> set ready" by (meson list.set_sel(1))
  then have "\<exists>p \<in> set remaining. \<not> p \<notin> set (ordered @ ready)" using 2(1) by auto
  from filter_shorter [OF this] show ?case by simp
qed simp

declare topo_rounds.simps [simp del]

definition toposort :: "net_draft \<Rightarrow> string list \<times> string list" where
  "toposort d = topo_rounds (net_calls d) [] (participant_ids d)"

definition participant_cycle :: "net_draft \<Rightarrow> bool" where
  "participant_cycle d \<longleftrightarrow> snd (toposort d) \<noteq> []"

definition net_issues :: "(pyv \<Rightarrow> string) \<Rightarrow> net_draft \<Rightarrow> net_issue list" where
  "net_issues rp d =
     node_issues rp [] (net_nodes d) @ concat (map (wire_issues d) (net_edges d)) @
     (if participant_cycle d then [Wiring_Cycle] else []) @
     (if net_nodes d = [] then [No_Nodes] else [])"

definition validate_network_flow :: "(pyv \<Rightarrow> string) \<Rightarrow> net_draft \<Rightarrow> bool \<times> net_issue list" where
  "validate_network_flow rp d = (\<not> list_ex net_error (net_issues rp d), net_issues rp d)"

section \<open>The launch plan\<close>

record launched =
  la_node :: string
  la_flow :: string
  la_instances :: int
  la_port :: pyv

record initiator =
  in_node :: string
  in_scenario :: string
  in_environment :: pyv
  in_autostart :: bool

record net_plan =
  np_participants :: "launched list"
  np_initiators :: "initiator list"
  np_simulators :: "(string \<times> string) list"
  np_warnings :: "string list list"

text \<open>\<open>max(1, int(cfg.get("instances", 1) or 1))\<close>.\<close>

definition instances_of :: "(string \<times> pyv) list \<Rightarrow> int result" where
  "instances_of cfg =
     (let v = get cfg ''instances'' (PInt 1) in
      rbind (if truthy v then int_of v else Inr 1) (\<lambda>n. Inr (max 1 n)))"

definition launch :: "(pyv \<Rightarrow> string) \<Rightarrow> net_draft \<Rightarrow> string \<Rightarrow> launched result" where
  "launch rp d pid =
     rbind (of_option KeyError (by_id (net_nodes d) pid)) (\<lambda>n.
     rbind (instances_of (net_config n)) (\<lambda>k.
     Inr \<lparr>la_node = pid, la_flow = pystr rp (get (net_config n) ''flow_id'' (PStr '''')),
          la_instances = k, la_port = get (net_config n) ''port'' PNone\<rparr>))"

fun launch_all :: "(pyv \<Rightarrow> string) \<Rightarrow> net_draft \<Rightarrow> string list \<Rightarrow> launched list result" where
  "launch_all rp d [] = Inr []"
| "launch_all rp d (p # ps) = rbind (launch rp d p) (\<lambda>l. rbind (launch_all rp d ps) (\<lambda>ls. Inr (l # ls)))"

definition initiators :: "(pyv \<Rightarrow> string) \<Rightarrow> net_node list \<Rightarrow> initiator list" where
  "initiators rp ns =
     map (\<lambda>n. \<lparr>in_node = net_id n, in_scenario = pystr rp (get (net_config n) ''scenario_id'' (PStr '''')),
                in_environment = get (net_config n) ''environment'' PNone,
                in_autostart = truthy (get (net_config n) ''autostart'' (PBool True))\<rparr>)
       (filter (\<lambda>n. net_kind n = ''scenario'') ns)"

definition simulators :: "(pyv \<Rightarrow> string) \<Rightarrow> net_node list \<Rightarrow> (string \<times> string) list" where
  "simulators rp ns =
     map (\<lambda>n. (net_id n, pystr rp (get (net_config n) ''simulator_id'' (PStr ''''))))
       (filter (\<lambda>n. net_kind n = ''simulator'') ns)"

definition plan_network_flow :: "(pyv \<Rightarrow> string) \<Rightarrow> net_draft \<Rightarrow> net_plan result" where
  "plan_network_flow rp d =
     (let (ordered, cyclic) = toposort d in
      rbind (launch_all rp d (ordered @ cyclic)) (\<lambda>ps.
      Inr \<lparr>np_participants = ps, np_initiators = initiators rp (net_nodes d),
           np_simulators = simulators rp (net_nodes d),
           np_warnings = (if cyclic = [] then [] else [cyclic])\<rparr>))"

section \<open>What the rounds compute\<close>

lemma topo_rounds_cases:
  obtains (stop) "filter (\<lambda>p. set (calls p) \<subseteq> set ord) rem = []" "topo_rounds calls ord rem = (ord, rem)"
  | (round) "filter (\<lambda>p. set (calls p) \<subseteq> set ord) rem \<noteq> []"
      "topo_rounds calls ord rem =
         topo_rounds calls (ord @ filter (\<lambda>p. set (calls p) \<subseteq> set ord) rem)
           (filter (\<lambda>p. p \<notin> set (ord @ filter (\<lambda>p. set (calls p) \<subseteq> set ord) rem)) rem)"
  by (cases "filter (\<lambda>p. set (calls p) \<subseteq> set ord) rem = []")
     (simp_all add: topo_rounds.simps [of calls ord rem] Let_def)

lemma unplaced_rest:
  "set ord \<inter> set rem = {} \<Longrightarrow>
     filter (\<lambda>p. p \<notin> set (ord @ filter P rem)) rem = filter (\<lambda>p. \<not> P p) rem"
  by (intro filter_cong) auto

lemma topo_rounds_mset:
  assumes "set ord \<inter> set rem = {}"
  shows "mset (fst (topo_rounds calls ord rem)) + mset (snd (topo_rounds calls ord rem)) =
         mset ord + mset rem"
  using assms
proof (induction calls ord rem rule: topo_rounds.induct)
  case (1 calls ord rem)
  show ?case
  proof (cases rule: topo_rounds_cases [where calls = calls and ord = ord and rem = rem])
    case stop
    then show ?thesis by simp
  next
    case round
    let ?ready = "filter (\<lambda>p. set (calls p) \<subseteq> set ord) rem"
    have "set (ord @ ?ready) \<inter> set (filter (\<lambda>p. p \<notin> set (ord @ ?ready)) rem) = {}" by auto
    from 1(1) [OF refl round(1) this] show ?thesis
      unfolding round(2) unplaced_rest [OF 1(2)]
      using multiset_partition [of "mset rem" "\<lambda>p. set (calls p) \<subseteq> set ord"]
      by (simp add: ac_simps)
  qed
qed

lemma topo_rounds_callees_first:
  assumes "callees_first calls [] ord"
  shows "callees_first calls [] (fst (topo_rounds calls ord rem))"
  using assms
proof (induction calls ord rem rule: topo_rounds.induct)
  case (1 calls ord rem)
  show ?case
  proof (cases rule: topo_rounds_cases [where calls = calls and ord = ord and rem = rem])
    case stop
    then show ?thesis using 1 by simp
  next
    case round
    have "callees_first calls [] (ord @ filter (\<lambda>p. set (calls p) \<subseteq> set ord) rem)"
      using 1(2) by (simp add: callees_first_append callees_first_round)
    from 1(1) [OF refl round(1) this] show ?thesis unfolding round(2) .
  qed
qed

lemma topo_rounds_stuck:
  "p \<in> set (snd (topo_rounds calls ord rem)) \<Longrightarrow>
     \<not> set (calls p) \<subseteq> set (fst (topo_rounds calls ord rem))"
proof (induction calls ord rem rule: topo_rounds.induct)
  case (1 calls ord rem)
  show ?case
  proof (cases rule: topo_rounds_cases [where calls = calls and ord = ord and rem = rem])
    case stop
    then show ?thesis using 1 by (auto simp: filter_empty_conv)
  next
    case round
    from 1(1) [OF refl round(1)] 1(2) show ?thesis unfolding round(2) by blast
  qed
qed

lemma topo_rounds_independent: "\<forall>p \<in> set rem. calls p = [] \<Longrightarrow> topo_rounds calls [] rem = (rem, [])"
  by (cases rem) (auto simp: topo_rounds.simps filter_id_conv)

lemma by_id_SomeD: "by_id ns x = Some n \<Longrightarrow> n \<in> set ns \<and> net_id n = x"
  unfolding by_id_def by (drule map_of_SomeD) auto

lemma by_id_None: "by_id ns x = None \<longleftrightarrow> x \<notin> net_id ` set ns"
  by (force simp: by_id_def map_of_eq_None_iff)

lemma by_id_distinct: "distinct (map net_id ns) \<Longrightarrow> n \<in> set ns \<Longrightarrow> by_id ns (net_id n) = Some n"
  unfolding by_id_def by (intro map_of_is_SomeI) (auto simp: o_def rev_map [symmetric])

lemma is_participant_id: "is_participant d x \<Longrightarrow> x \<in> set (participant_ids d)"
  unfolding is_participant_def kind_of_def participant_ids_def by (auto dest!: by_id_SomeD)

lemma participant_edges_ids:
  "(a, b) \<in> set (participant_edges d) \<Longrightarrow> is_participant d a \<and> is_participant d b"
  by (auto simp: participant_edges_def)

lemma net_calls_iff: "b \<in> set (net_calls d a) \<longleftrightarrow> (a, b) \<in> set (participant_edges d)"
  by (force simp: net_calls_def)

text \<open>The start order of a network flow keeps the contract of \<open>Start_Order\<close>.\<close>

interpretation net: start_order participant_ids net_calls toposort
proof unfold_locales
  show "q \<in> set (participant_ids d)" if "q \<in> set (net_calls d p)" for q d p
    using that participant_edges_ids is_participant_id by (simp add: net_calls_iff)
  show "mset (fst (toposort d)) + mset (snd (toposort d)) = mset (participant_ids d)" for d
    using topo_rounds_mset [of "[]" "participant_ids d" "net_calls d"] by (simp add: toposort_def)
  show "callees_first (net_calls d) [] (fst (toposort d))" for d
    unfolding toposort_def by (rule topo_rounds_callees_first) simp
  show "\<not> set (net_calls d p) \<subseteq> set (fst (toposort d))" if "p \<in> set (snd (toposort d))" for p d
    using topo_rounds_stuck that unfolding toposort_def by metis
qed

lemma net_wiring: "net.wiring d = set (participant_edges d)"
  using participant_edges_ids is_participant_id unfolding net.wiring_def by (auto simp: net_calls_iff)

lemma participant_cycle_iff: "participant_cycle d \<longleftrightarrow> \<not> acyclic (set (participant_edges d))"
  using net.complete_iff_acyclic [of d] unfolding participant_cycle_def net_wiring by blast

section \<open>What validation accepts\<close>

text \<open>The rules of a node and of an edge, as a reader of the module states them.\<close>

definition node_ok :: "(pyv \<Rightarrow> string) \<Rightarrow> net_node \<Rightarrow> bool" where
  "node_ok rp n \<longleftrightarrow> net_kind n \<in> set NETWORK_NODE_KINDS \<and>
     \<not> blank_key rp (net_config n)
       (if net_kind n = ''participant'' then ''flow_id'' else net_kind n @ ''_id'') \<and>
     (net_kind n = ''participant'' \<longrightarrow> \<not> bad_instances (net_config n))"

definition wire_ok :: "net_draft \<Rightarrow> wire \<Rightarrow> bool" where
  "wire_ok d e \<longleftrightarrow> (\<exists>sk tk. kind_of d (w_source e) = Some sk \<and> kind_of d (w_target e) = Some tk \<and>
     w_source e \<noteq> w_target e \<and> tk \<noteq> ''scenario'' \<and> sk \<noteq> ''simulator'' \<and>
     (sk = ''group'' \<longrightarrow> tk = ''participant''))"

lemma config_issues_ok: "config_issues rp n = [] \<longleftrightarrow> node_ok rp n"
  by (auto simp: config_issues_def node_ok_def NETWORK_NODE_KINDS_def Let_def)

lemma config_issues_error: "i \<in> set (config_issues rp n) \<Longrightarrow> net_error i"
  by (auto simp: config_issues_def Let_def split: if_splits)

lemma node_issues_error: "i \<in> set (node_issues rp seen ns) \<Longrightarrow> net_error i"
  by (induction ns arbitrary: seen) (auto dest: config_issues_error split: if_splits)

lemma wire_issues_error: "i \<in> set (wire_issues d e) \<Longrightarrow> net_error i"
  by (auto simp: wire_issues_def split: option.splits if_splits)

lemma node_issues_ok:
  "node_issues rp seen ns = [] \<longleftrightarrow>
     distinct (map net_id ns) \<and> set seen \<inter> net_id ` set ns = {} \<and> (\<forall>n \<in> set ns. node_ok rp n)"
  by (induction ns arbitrary: seen) (auto simp: config_issues_ok)

lemma wire_issues_ok: "wire_issues d e = [] \<longleftrightarrow> wire_ok d e"
  by (auto simp: wire_issues_def wire_ok_def TARGET_ONLY_KINDS_def split: option.splits)

lemma net_issues_valid:
  "\<not> list_ex net_error (net_issues rp d) \<longleftrightarrow>
     node_issues rp [] (net_nodes d) = [] \<and> (\<forall>e \<in> set (net_edges d). wire_issues d e = [])"
proof -
  have "\<not> list_ex net_error (node_issues rp [] (net_nodes d)) \<longleftrightarrow> node_issues rp [] (net_nodes d) = []"
    using node_issues_error [of _ rp "[]" "net_nodes d"] unfolding list_ex_iff
    by (metis list.set_sel(1) list.set(1) empty_iff)
  moreover have "list_ex net_error (wire_issues d e) \<longleftrightarrow> wire_issues d e \<noteq> []" for e
    using wire_issues_error [of _ d e] unfolding list_ex_iff
    by (metis list.set_sel(1) list.set(1) empty_iff)
  ultimately show ?thesis by (auto simp: net_issues_def list_ex_iff)
qed

section \<open>Properties\<close>

text \<open>C37. Validation accepts a network flow exactly when its node ids are distinct, every node has an
  allowed kind and the configuration its kind needs, and every edge connects two different known nodes
  in an allowed direction; it warns of a cycle exactly when the wiring between participants, with group
  hops collapsed, has one.\<close>

theorem network_flow_valid_iff:
  "(fst (validate_network_flow rp d) \<longleftrightarrow>
      distinct (map net_id (net_nodes d)) \<and> list_all (node_ok rp) (net_nodes d) \<and>
      list_all (wire_ok d) (net_edges d)) \<and>
   (Wiring_Cycle \<in> set (snd (validate_network_flow rp d)) \<longleftrightarrow> \<not> acyclic (set (participant_edges d)))"
proof
  show "fst (validate_network_flow rp d) \<longleftrightarrow>
      distinct (map net_id (net_nodes d)) \<and> list_all (node_ok rp) (net_nodes d) \<and>
      list_all (wire_ok d) (net_edges d)"
    unfolding validate_network_flow_def fst_conv net_issues_valid
    by (auto simp: node_issues_ok wire_issues_ok list_all_iff)
  have "Wiring_Cycle \<notin> set (node_issues rp [] (net_nodes d))" "Wiring_Cycle \<notin> set (wire_issues d e)" for e
    using node_issues_error wire_issues_error net_error.simps(1) by blast+
  then show "Wiring_Cycle \<in> set (snd (validate_network_flow rp d)) \<longleftrightarrow>
      \<not> acyclic (set (participant_edges d))"
    by (auto simp: validate_network_flow_def net_issues_def participant_cycle_iff)
qed

lemma launch_valid:
  assumes "distinct (map net_id (net_nodes d))" and "list_all (node_ok rp) (net_nodes d)"
    and "pid \<in> set (participant_ids d)"
  shows "\<exists>l. launch rp d pid = Inr l \<and> la_node l = pid \<and> 1 \<le> la_instances l"
proof -
  obtain n where n: "n \<in> set (net_nodes d)" "net_kind n = ''participant''" "net_id n = pid"
    using assms(3) by (auto simp: participant_ids_def)
  then have "by_id (net_nodes d) pid = Some n" using by_id_distinct [OF assms(1) n(1)] by simp
  moreover have "\<not> bad_instances (net_config n)" using assms(2) n by (auto simp: list_all_iff node_ok_def)
  ultimately show ?thesis
    by (auto simp: launch_def instances_of_def bad_instances_def Let_def split: sum.splits)
qed

lemma launch_all_valid:
  assumes "\<And>p. p \<in> set ps \<Longrightarrow> \<exists>l. launch rp d p = Inr l \<and> la_node l = p \<and> 1 \<le> la_instances l"
  shows "\<exists>ls. launch_all rp d ps = Inr ls \<and> map la_node ls = ps \<and> list_all (\<lambda>l. 1 \<le> la_instances l) ls"
  using assms
proof (induction ps)
  case (Cons p ps)
  from Cons.prems [of p] obtain l where "launch rp d p = Inr l" "la_node l = p" "1 \<le> la_instances l" by auto
  moreover from Cons.IH Cons.prems obtain ls where
    "launch_all rp d ps = Inr ls" "map la_node ls = ps" "list_all (\<lambda>l. 1 \<le> la_instances l) ls" by auto
  ultimately show ?case by auto
qed simp

text \<open>C20. A valid network flow has a launch plan that starts every participant once, with at least one
  instance. The plan carries a warning exactly when the wiring has a cycle; without one, every
  participant is started after all the participants it sends traffic to, directly or through a group.\<close>

theorem network_plan_callees_first:
  assumes "fst (validate_network_flow rp d)"
  shows "\<exists>p. plan_network_flow rp d = Inr p \<and>
     mset (map la_node (np_participants p)) = mset (participant_ids d) \<and>
     list_all (\<lambda>l. 1 \<le> la_instances l) (np_participants p) \<and>
     (np_warnings p = [] \<longleftrightarrow> acyclic (set (participant_edges d))) \<and>
     (np_warnings p = [] \<longrightarrow>
        callees_first (net_calls d) [] (map la_node (np_participants p)))"
proof -
  obtain ord cyc where top: "toposort d = (ord, cyc)" by (cases "toposort d") auto
  have v: "distinct (map net_id (net_nodes d))" "list_all (node_ok rp) (net_nodes d)"
    using assms unfolding validate_network_flow_def fst_conv net_issues_valid
    by (auto simp: node_issues_ok list_all_iff)
  have m: "mset (ord @ cyc) = mset (participant_ids d)" using net.order_mset [of d] top by simp
  then have ids: "set (ord @ cyc) = set (participant_ids d)" by (metis set_mset_mset)
  obtain ls where ls: "launch_all rp d (ord @ cyc) = Inr ls" "map la_node ls = ord @ cyc"
    "list_all (\<lambda>l. 1 \<le> la_instances l) ls"
    using launch_all_valid [of "ord @ cyc" rp d] launch_valid [OF v] ids by auto
  have "cyc = [] \<longleftrightarrow> acyclic (set (participant_edges d))"
    using net.complete_iff_acyclic [of d] top by (simp add: net_wiring)
  moreover have "callees_first (net_calls d) [] ord" using net.order_callees_first [of d] top by simp
  moreover have "image_mset la_node (mset ls) = mset (participant_ids d)" using ls(2) m by (metis mset_map)
  ultimately show ?thesis using ls(1) ls(2) ls(3) by (auto simp: plan_network_flow_def top)
qed

text \<open>Three listeners behind a switch: the gateway calls the switch, which reaches the issuer by a group.\<close>

definition demo_net :: net_draft where
  "demo_net = \<lparr>net_nodes =
     [\<lparr>net_id = ''gw'', net_kind = ''participant'', net_config = [(''flow_id'', PStr ''f1'')]\<rparr>,
      \<lparr>net_id = ''sw'', net_kind = ''participant'', net_config = [(''flow_id'', PStr ''f2''), (''instances'', PStr ''2'')]\<rparr>,
      \<lparr>net_id = ''g'', net_kind = ''group'', net_config = [(''group_id'', PStr ''g1'')]\<rparr>,
      \<lparr>net_id = ''iss'', net_kind = ''participant'', net_config = [(''flow_id'', PStr ''f3'')]\<rparr>],
     net_edges = [\<lparr>w_source = ''gw'', w_target = ''sw''\<rparr>, \<lparr>w_source = ''sw'', w_target = ''g''\<rparr>,
       \<lparr>w_source = ''g'', w_target = ''iss''\<rparr>]\<rparr>"

lemma demo_net_valid: "fst (validate_network_flow (\<lambda>v. '''') demo_net)"
  by code_simp

lemma demo_net_order: "toposort demo_net = ([''iss'', ''sw'', ''gw''], [])"
  by code_simp

lemma demo_net_acyclic: "acyclic (set (participant_edges demo_net))"
  using net.complete_iff_acyclic [of demo_net] by (simp add: demo_net_order net_wiring)

theorem network_plan_callees_first_witness:
  "\<exists>p. plan_network_flow (\<lambda>v. '''') demo_net = Inr p \<and>
     mset (map la_node (np_participants p)) = mset [''gw'', ''sw'', ''iss''] \<and>
     callees_first (net_calls demo_net) [] (map la_node (np_participants p))"
  using network_plan_callees_first [OF demo_net_valid] demo_net_acyclic
  by (auto simp: demo_net_def participant_ids_def)

text \<open>Without edges the participants start in the order of the node list, as the legacy topology
  does.\<close>

theorem unwired_start_order: "net_edges d = [] \<Longrightarrow> toposort d = (participant_ids d, [])"
  unfolding toposort_def by (rule topo_rounds_independent) (simp add: net_calls_def participant_edges_def)

theorem unwired_start_order_witness:
  "toposort \<lparr>net_nodes = net_nodes demo_net, net_edges = []\<rparr> = ([''gw'', ''sw'', ''iss''], [])"
  using unwired_start_order [of "\<lparr>net_nodes = net_nodes demo_net, net_edges = []\<rparr>"]
  by (simp add: participant_ids_def demo_net_def)

text \<open>A flow id that is null is not missing for validation: \<open>str(None)\<close> is a nonempty text, and the
  plan launches the flow \<open>None\<close>.\<close>

theorem null_flow_id_is_accepted:
  "let d = \<lparr>net_nodes = [\<lparr>net_id = ''gw'', net_kind = ''participant'', net_config = [(''flow_id'', PNone)]\<rparr>],
            net_edges = []\<rparr> in
   fst (validate_network_flow rp d) \<and>
   (case plan_network_flow rp d of Inl e \<Rightarrow> False | Inr p \<Rightarrow> map la_flow (np_participants p) = [''None''])"
  by code_simp

end
