(* ===== verification/Hub_Spec.thy ===== *)
theory Hub_Spec
  imports Py_Values "HOL-Library.List_Lexorder" "HOL-Library.Sublist"
begin

text \<open>
  The registry contracts of the agent hub (\<open>agent_hub/models.py\<close>) and the checks on an agent alone
  (\<open>agent_hub/validate.py\<close>): references to agents, the shape of workflow nodes and of triggers, the
  rules an agent specification is published under, and when one version widens another. The tools of
  the toolkit registry are a parameter that gives each name its tier.
\<close>

section \<open>Texts\<close>

definition quoted :: "string \<Rightarrow> string" where
  "quoted s = [CHR 0x27] @ s @ [CHR 0x27]"

text \<open>\<open>", ".join(xs)\<close>.\<close>

fun comma_join :: "string list \<Rightarrow> string" where
  "comma_join [] = ''''"
| "comma_join [x] = x"
| "comma_join (x # xs) = x @ '', '' @ comma_join xs"

text \<open>\<open>s.split(sep)\<close> for a separator of one character.\<close>

fun split_char :: "char \<Rightarrow> string \<Rightarrow> string list" where
  "split_char sep [] = [[]]"
| "split_char sep (c # cs) =
     (if c = sep then [] # split_char sep cs
      else case split_char sep cs of [] \<Rightarrow> [[c]] | p # ps \<Rightarrow> (c # p) # ps)"

text \<open>\<open>sorted(set(xs))\<close>.\<close>

definition sorted_set :: "string list \<Rightarrow> string list" where
  "sorted_set xs = sort (remdups xs)"

lemma sorted_set_empty: "sorted_set xs = [] \<longleftrightarrow> xs = []"
proof -
  have "set (sorted_set xs) = set xs" by (simp add: sorted_set_def)
  then show ?thesis by (metis set_empty)
qed

text \<open>\<open>s.lower()\<close> on the letters of ASCII.\<close>

definition lower_char :: "char \<Rightarrow> char" where
  "lower_char c = (let n = of_char c :: nat in if 65 \<le> n \<and> n \<le> 90 then char_of (n + 32) else c)"

definition lower :: "string \<Rightarrow> string" where
  "lower s = map lower_char s"

definition is_digit :: "char \<Rightarrow> bool" where
  "is_digit c \<longleftrightarrow> is_dec (of_char c)"

definition is_lower_alnum :: "char \<Rightarrow> bool" where
  "is_lower_alnum c \<longleftrightarrow> (let n = of_char c :: nat in (97 \<le> n \<and> n \<le> 122) \<or> (48 \<le> n \<and> n \<le> 57))"

definition is_alnum :: "char \<Rightarrow> bool" where
  "is_alnum c \<longleftrightarrow> is_lower_alnum (lower_char c)"

section \<open>References to agents\<close>

datatype mode = Advisor | Plan | Full

fun MODE_RANK :: "mode \<Rightarrow> nat" where
  "MODE_RANK Advisor = 0"
| "MODE_RANK Plan = 1"
| "MODE_RANK Full = 2"

fun mode_name :: "mode \<Rightarrow> string" where
  "mode_name Advisor = ''advisor''"
| "mode_name Plan = ''plan''"
| "mode_name Full = ''full''"

text \<open>\<open>[a-z0-9][a-z0-9-]{1,63}\<close>.\<close>

definition is_agent_name :: "string \<Rightarrow> bool" where
  "is_agent_name s \<longleftrightarrow>
     (case s of
        [] \<Rightarrow> False
      | c # cs \<Rightarrow> is_lower_alnum c \<and> 1 \<le> length cs \<and> length cs \<le> 63 \<and>
                  list_all (\<lambda>c. is_lower_alnum c \<or> c = CHR ''-'') cs)"

text \<open>\<open>REF_RE.fullmatch\<close>: the name and the digits after the \<open>@\<close>, when there are any.\<close>

definition match_ref :: "string \<Rightarrow> (string \<times> string option) option" where
  "match_ref r =
     (let name = takeWhile (\<lambda>c. c \<noteq> CHR ''@'') r; rest = drop (length name) r in
      if \<not> is_agent_name name then None
      else if rest = [] then Some (name, None)
      else if tl rest \<noteq> [] \<and> list_all is_digit (tl rest) then Some (name, Some (tl rest)) else None)"

definition parse_ref :: "string \<Rightarrow> (string \<times> nat option) result" where
  "parse_ref r =
     rbind (of_option ValueError (match_ref r)) (\<lambda>(name, ver).
     Inr (name, map_option (\<lambda>ds. undec (u ds)) ver))"

text \<open>The reference to a version, as it is written.\<close>

definition ref_text :: "string \<Rightarrow> nat option \<Rightarrow> string" where
  "ref_text name ver = (case ver of None \<Rightarrow> name | Some v \<Rightarrow> name @ ''@'' @ dec_string v)"

section \<open>Agent specifications\<close>

datatype trigger_kind = Manual | Schedule | Event | Mcp | Webhook

fun kind_name :: "trigger_kind \<Rightarrow> string" where
  "kind_name Manual = ''manual''"
| "kind_name Schedule = ''schedule''"
| "kind_name Event = ''event''"
| "kind_name Mcp = ''mcp''"
| "kind_name Webhook = ''webhook''"

record trigger =
  tr_kind :: trigger_kind
  tr_interval_sec :: "nat option"
  tr_daily_at :: "string option"
  tr_event :: "string option"

definition given :: "'a option \<Rightarrow> bool" where
  "given x \<longleftrightarrow> x \<noteq> None"

definition nonempty_text :: "string option \<Rightarrow> bool" where
  "nonempty_text x \<longleftrightarrow> (case x of None \<Rightarrow> False | Some s \<Rightarrow> s \<noteq> [])"

text \<open>\<open>_hhmm\<close>: \<open>([01]\d|2[0-3]):[0-5]\d\<close>.\<close>

definition is_hhmm :: "string \<Rightarrow> bool" where
  "is_hhmm s \<longleftrightarrow>
     (case s of
        [h, h', c, m, m'] \<Rightarrow>
          ((h \<in> set ''01'' \<and> is_digit h') \<or> (h = CHR ''2'' \<and> h' \<in> set ''0123'')) \<and>
          c = CHR '':'' \<and> m \<in> set ''012345'' \<and> is_digit m'
      | _ \<Rightarrow> False)"

text \<open>The field constraints and validators of a trigger.\<close>

definition check_trigger :: "trigger \<Rightarrow> unit result" where
  "check_trigger t =
     (if (case tr_interval_sec t of None \<Rightarrow> False | Some n \<Rightarrow> n < 30) then Inl ValueError
      else if (case tr_daily_at t of None \<Rightarrow> False | Some s \<Rightarrow> \<not> is_hhmm s) then Inl ValueError
      else if tr_kind t = Schedule \<and> \<not> (given (tr_interval_sec t) \<or> nonempty_text (tr_daily_at t))
      then Inl ValueError
      else if tr_kind t = Event \<and> \<not> nonempty_text (tr_event t) then Inl ValueError
      else if tr_kind t \<in> {Manual, Mcp, Webhook} \<and>
        (given (tr_interval_sec t) \<or> nonempty_text (tr_daily_at t) \<or> nonempty_text (tr_event t))
      then Inl ValueError
      else Inr ())"

record agent_spec =
  as_model :: "string option"
  as_tools :: "string list"
  as_mode :: mode
  as_projects :: "string list"
  as_environments :: "string list"
  as_max_steps :: nat
  as_max_tokens :: nat
  as_wall_clock_s :: nat
  as_daily_tokens :: "nat option"
  as_triggers :: "trigger list"
  as_invoke :: "string list"
  as_edit :: "string list"

datatype tier = Read | Write | Execute

fun tier_name :: "tier \<Rightarrow> string" where
  "tier_name Read = ''read''"
| "tier_name Write = ''write''"
| "tier_name Execute = ''execute''"

type_synonym registry = "string \<Rightarrow> tier option"

definition UNATTENDED_TRIGGERS :: "trigger_kind list" where
  "UNATTENDED_TRIGGERS = [Schedule, Event, Webhook]"

definition strip_text :: "string \<Rightarrow> string" where
  "strip_text s = map char_of (strip (u s))"

text \<open>\<open>_model_allowlist\<close>; \<open>raw\<close> is the variable of the environment.\<close>

definition model_allowlist :: "string \<Rightarrow> string list option" where
  "model_allowlist raw =
     (if strip_text raw = [] then None
      else Some (filter (\<lambda>m. m \<noteq> []) (map strip_text (split_char (CHR '','') (strip_text raw)))))"

definition tool_problems :: "registry \<Rightarrow> agent_spec \<Rightarrow> string list" where
  "tool_problems reg a =
     concat (map (\<lambda>name.
       case reg name of
         None \<Rightarrow> [''unknown tool '' @ quoted name @ '' (not in the toolkit registry)'']
       | Some t \<Rightarrow>
           if as_mode a = Advisor \<and> t \<noteq> Read
           then [''advisor mode is read-only; '' @ quoted name @ '' is tier '' @ quoted (tier_name t)]
           else []) (as_tools a))"

definition has_write :: "registry \<Rightarrow> agent_spec \<Rightarrow> bool" where
  "has_write reg a \<longleftrightarrow> list_ex (\<lambda>n. reg n = Some Write \<or> reg n = Some Execute) (as_tools a)"

definition unattended :: "agent_spec \<Rightarrow> string list" where
  "unattended a =
     sorted_set (map kind_name (filter (\<lambda>k. k \<in> set UNATTENDED_TRIGGERS) (map tr_kind (as_triggers a))))"

definition validate_agent_spec :: "registry \<Rightarrow> string \<Rightarrow> agent_spec \<Rightarrow> string list" where
  "validate_agent_spec reg raw a =
     tool_problems reg a @
     (if as_mode a = Full \<and> has_write reg a \<and> as_projects a = [] \<and> as_environments a = []
      then [''full mode with write/execute tools needs a non-empty write_scope''] else []) @
     (if as_mode a = Full \<and> unattended a \<noteq> []
      then [''full mode cannot be woken unattended (triggers: '' @ comma_join (unattended a) @
            ''); writes need a human wake or an approved workflow gate (ADR-0010 D3)''] else []) @
     (case (as_model a, model_allowlist raw) of
        (Some m, Some allow) \<Rightarrow>
          if m \<noteq> [] \<and> m \<notin> set allow
          then [''model '' @ quoted m @ '' is not in AGENT_HUB_MODEL_ALLOWLIST''] else []
      | _ \<Rightarrow> []) @
     (if as_edit a = [] then [''rbac.edit must name at least one role''] else [])"

section \<open>Wider versions\<close>

definition scope_grows :: "string list \<Rightarrow> string list \<Rightarrow> bool" where
  "scope_grows before after \<longleftrightarrow>
     ''*'' \<notin> set before \<and> (''*'' \<in> set after \<or> list_ex (\<lambda>x. x \<notin> set before) after)"

text \<open>A list of names compared as the dictionaries of the two \<open>rbac\<close> blocks are: in order.\<close>

definition widens :: "agent_spec \<Rightarrow> agent_spec \<Rightarrow> string list" where
  "widens p n =
     (let added = sorted_set (filter (\<lambda>t. t \<notin> set (as_tools p)) (as_tools n));
          kinds = sorted_set (filter (\<lambda>k. k \<notin> kind_name ` set (map tr_kind (as_triggers p)))
                    (map (\<lambda>t. kind_name (tr_kind t)) (as_triggers n))) in
      (if MODE_RANK (as_mode n) > MODE_RANK (as_mode p) then [''mode '' @ quoted (mode_name (as_mode p)) @ '' -> '' @ quoted (mode_name (as_mode n))] else []) @
      (if added \<noteq> [] then [''tools added: '' @ comma_join added] else []) @
      (if scope_grows (as_projects p) (as_projects n) then [''write_scope.projects grows''] else []) @
      (if scope_grows (as_environments p) (as_environments n)
       then [''write_scope.environments grows''] else []) @
      (if (as_invoke n, as_edit n) \<noteq> (as_invoke p, as_edit p) then [''rbac changes''] else []) @
      (if kinds \<noteq> [] then [''trigger kinds added: '' @ comma_join kinds] else []) @
      (if or_default 0 (as_daily_tokens n) > or_default 0 (as_daily_tokens p) \<or>
          (or_default 0 (as_daily_tokens p) \<noteq> 0 \<and> or_default 0 (as_daily_tokens n) = 0)
       then [''daily token budget grows''] else []) @
      (if as_max_tokens n > as_max_tokens p \<or> as_max_steps n > as_max_steps p
       then [''per-wake limits grow''] else []))"

section \<open>What widening misses, and what it does not\<close>

text \<open>The places a scope list allows.\<close>

definition allows :: "string list \<Rightarrow> string \<Rightarrow> bool" where
  "allows scope x \<longleftrightarrow> ''*'' \<in> set scope \<or> x \<in> set scope"

text \<open>A daily budget, where none is no limit.\<close>

definition within_budget :: "nat option \<Rightarrow> nat \<Rightarrow> bool" where
  "within_budget b spent \<longleftrightarrow> or_default 0 b = 0 \<or> spent \<le> or_default 0 b"

lemma scope_grows_sound: "\<not> scope_grows before after \<Longrightarrow> allows after x \<Longrightarrow> allows before x"
  by (auto simp: scope_grows_def allows_def list_ex_iff)

lemma budget_sound:
  "\<not> (or_default 0 b' > or_default 0 b \<or> (or_default 0 b \<noteq> 0 \<and> or_default 0 b' = (0 :: nat))) \<Longrightarrow>
     within_budget b' k \<Longrightarrow> within_budget b k"
  by (auto simp: within_budget_def)

text \<open>A version that \<open>widens\<close> finds no reason against grants nothing the previous one did not: its
  mode, tools, projects, environments, kinds of triggers, daily budget, steps and tokens are all within
  those of the previous version, and the roles are the same.\<close>

theorem widens_sound:
  assumes "widens p n = []"
  shows "MODE_RANK (as_mode n) \<le> MODE_RANK (as_mode p) \<and> set (as_tools n) \<subseteq> set (as_tools p) \<and>
    (\<forall>x. allows (as_projects n) x \<longrightarrow> allows (as_projects p) x) \<and>
    (\<forall>x. allows (as_environments n) x \<longrightarrow> allows (as_environments p) x) \<and>
    tr_kind ` set (as_triggers n) \<subseteq> tr_kind ` set (as_triggers p) \<and>
    (\<forall>k. within_budget (as_daily_tokens n) k \<longrightarrow> within_budget (as_daily_tokens p) k) \<and>
    as_max_tokens n \<le> as_max_tokens p \<and> as_max_steps n \<le> as_max_steps p \<and>
    as_invoke n = as_invoke p \<and> as_edit n = as_edit p"
proof -
  have inj: "kind_name k = kind_name k' \<longleftrightarrow> k = k'" for k k' by (cases k; cases k') simp_all
  note w = assms [unfolded widens_def Let_def append_is_Nil_conv]
  have "set (as_tools n) \<subseteq> set (as_tools p)"
    using w by (auto simp: sorted_set_empty filter_empty_conv split: if_splits)
  moreover have "tr_kind ` set (as_triggers n) \<subseteq> tr_kind ` set (as_triggers p)"
  proof -
    have "\<forall>t \<in> set (as_triggers n). \<exists>t' \<in> set (as_triggers p). kind_name (tr_kind t) = kind_name (tr_kind t')"
      using w by (auto simp: sorted_set_empty filter_empty_conv split: if_splits)
    then show ?thesis by (auto simp: inj)
  qed
  moreover have "\<not> scope_grows (as_projects p) (as_projects n)" "\<not> scope_grows (as_environments p) (as_environments n)"
    using w by (auto split: if_splits)
  moreover have "\<not> (or_default 0 (as_daily_tokens n) > or_default 0 (as_daily_tokens p) \<or>
      (or_default 0 (as_daily_tokens p) \<noteq> 0 \<and> or_default 0 (as_daily_tokens n) = 0))"
    using w by (auto split: if_splits)
  moreover have "MODE_RANK (as_mode n) \<le> MODE_RANK (as_mode p)" "as_max_tokens n \<le> as_max_tokens p"
    "as_max_steps n \<le> as_max_steps p" "as_invoke n = as_invoke p" "as_edit n = as_edit p"
    using w by (auto simp: not_less split: if_splits)
  ultimately show ?thesis using scope_grows_sound budget_sound by meson
qed

definition demo_agent :: agent_spec where
  "demo_agent = \<lparr>as_model = None, as_tools = [''list_runs'', ''get_run''], as_mode = Plan, as_projects = [''*''],
     as_environments = [''mock''], as_max_steps = 8, as_max_tokens = 60000, as_wall_clock_s = 300,
     as_daily_tokens = Some 5000, as_triggers = [\<lparr>tr_kind = Manual, tr_interval_sec = None, tr_daily_at = None,
     tr_event = None\<rparr>], as_invoke = [''operator''], as_edit = [''admin'']\<rparr>"

theorem widens_sound_witness:
  "Collect (allows (as_projects (demo_agent\<lparr>as_projects := [''p'']\<rparr>))) \<subseteq> Collect (allows (as_projects demo_agent)) \<and>
   as_max_steps (demo_agent\<lparr>as_projects := [''p'']\<rparr>) \<le> as_max_steps demo_agent"
proof -
  have w: "widens demo_agent (demo_agent\<lparr>as_projects := [''p'']\<rparr>) = []"
    by (simp add: widens_def scope_grows_def sorted_set_def demo_agent_def)
  show ?thesis using widens_sound [OF w] by blast
qed

text \<open>The wall clock of a wake is not compared, and a first daily budget counts as growth.\<close>

theorem widens_ignores_wall_clock: "widens p p = [] \<and> widens p (p\<lparr>as_wall_clock_s := 3600\<rparr>) = []"
  by (auto simp: widens_def scope_grows_def sorted_set_def list_ex_iff filter_empty_conv image_iff)

theorem first_budget_counts_as_growth:
  "widens (p\<lparr>as_daily_tokens := None\<rparr>) (p\<lparr>as_daily_tokens := Some 5000\<rparr>) = [''daily token budget grows'']"
  by (auto simp: widens_def scope_grows_def sorted_set_def list_ex_iff filter_empty_conv image_iff)

section \<open>References read back\<close>

lemma agent_name_no_at: "is_agent_name name \<Longrightarrow> CHR ''@'' \<notin> set name"
  by (auto simp: is_agent_name_def is_lower_alnum_def list_all_iff Let_def split: list.splits)

lemma dec_char: "c \<in> set (dec n) \<Longrightarrow> is_dec (c mod 256) \<and> c mod 256 = c"
  using dec_is_dec [of c n] by (auto simp: is_dec_def)

lemma is_digit_dec_string: "list_all is_digit (dec_string n)"
  by (auto simp: dec_string_def is_digit_def list_all_iff dec_char dec_is_dec)

lemma undec_dec_string: "undec (u (dec_string n)) = n"
proof -
  have "map (of_char \<circ> char_of) (dec n) = dec n" by (rule map_idI) (simp add: dec_char)
  then have "u (dec_string n) = dec n" by (simp add: dec_string_def u_def)
  then show ?thesis by (simp add: undec_dec)
qed

lemma dec_string_inj: "dec_string m = dec_string n \<Longrightarrow> m = n"
  using undec_dec_string by metis

lemma dec_string_nonempty: "dec_string n \<noteq> []"
  using dec_nonempty by (simp add: dec_string_def)

text \<open>A reference to an agent, with or without a version, is read back by \<open>parse_ref\<close>.\<close>

theorem parse_ref_text:
  assumes "is_agent_name name"
  shows "parse_ref (ref_text name ver) = Inr (name, ver)"
proof -
  have t: "takeWhile (\<lambda>c. c \<noteq> CHR ''@'') (name @ xs) = name" if "xs = [] \<or> hd xs = CHR ''@''" for xs
  proof -
    have "\<forall>c \<in> set name. c \<noteq> CHR ''@''" using agent_name_no_at [OF assms] by metis
    then show ?thesis using that by (cases xs) auto
  qed
  have n: "takeWhile (\<lambda>c. c \<noteq> CHR ''@'') name = name" using t [of "[]"] by simp
  show ?thesis
  proof (cases ver)
    case None
    then show ?thesis using assms by (simp add: parse_ref_def match_ref_def ref_text_def Let_def n)
  next
    case (Some v)
    have "takeWhile (\<lambda>c. c \<noteq> CHR ''@'') (name @ ''@'' @ dec_string v) = name" by (rule t) simp
    then show ?thesis using Some assms is_digit_dec_string dec_string_nonempty undec_dec_string
      by (simp add: parse_ref_def match_ref_def ref_text_def Let_def)
  qed
qed

theorem parse_ref_text_witness: "parse_ref ''triage@2'' = Inr (''triage'', Some 2)"
proof -
  have "is_agent_name ''triage''" by code_simp
  moreover have "ref_text ''triage'' (Some 2) = ''triage@2''" by code_simp
  ultimately show ?thesis using parse_ref_text [of "''triage''" "Some 2"] by simp
qed

section \<open>What a valid agent can do\<close>

lemma validate_agent_spec_iff:
  "validate_agent_spec reg raw a = [] \<longleftrightarrow>
     (\<forall>n \<in> set (as_tools a). \<exists>t. reg n = Some t \<and> (as_mode a = Advisor \<longrightarrow> t = Read)) \<and>
     (as_mode a = Full \<and> has_write reg a \<longrightarrow> as_projects a \<noteq> [] \<or> as_environments a \<noteq> []) \<and>
     (as_mode a = Full \<longrightarrow> unattended a = []) \<and>
     (\<forall>m allow. as_model a = Some m \<and> model_allowlist raw = Some allow \<longrightarrow> m = [] \<or> m \<in> set allow) \<and>
     as_edit a \<noteq> []"
proof -
  have "tool_problems reg a = [] \<longleftrightarrow>
    (\<forall>n \<in> set (as_tools a). \<exists>t. reg n = Some t \<and> (as_mode a = Advisor \<longrightarrow> t = Read))"
    unfolding tool_problems_def concat_eq_Nil_conv by (force split: option.splits if_splits)
  then show ?thesis by (auto simp: validate_agent_spec_def split: option.splits)
qed

end
