(* ===== verification/Workflow.thy ===== *)
theory Workflow
  imports Hub_Spec Start_Order "HOL-Library.AList"
begin

text \<open>
  Agent workflows (\<open>agent_hub/models.py\<close>, \<open>agent_hub/validate.py\<close>): the shape of nodes, the check for
  cycles, the rules that need the registry, and the rule that full mode outside the mock environment is
  gated by a human approval on every path. The tools of the registry and the resolver of agent
  references are parameters.
\<close>

section \<open>Workflows\<close>

datatype node_type = Agent_Task | Tool_Call | Condition | Approval | Parallel | Join

fun type_name :: "node_type \<Rightarrow> string" where
  "type_name Agent_Task = ''agent_task''"
| "type_name Tool_Call = ''tool''"
| "type_name Condition = ''condition''"
| "type_name Approval = ''approval''"
| "type_name Parallel = ''parallel''"
| "type_name Join = ''join''"

record wf_node =
  nd_id :: string
  nd_type :: node_type
  nd_agent :: "string option"
  nd_mode :: "mode option"
  nd_environment :: "string option"
  nd_reviews :: "string option"
  nd_tool :: "string option"
  nd_expr :: "string option"
  nd_roles :: "string list"
  nd_timeout_s :: "nat option"
  nd_input :: "(string \<times> pyv) list"
  nd_args :: "(string \<times> pyv) list"

record wf_edge =
  we_from :: string
  we_to :: string
  we_when :: "string option"

record workflow =
  wf_nodes :: "wf_node list"
  wf_edges :: "wf_edge list"

definition END :: string where
  "END = ''end''"

definition is_node_id :: "string \<Rightarrow> bool" where
  "is_node_id s \<longleftrightarrow> s \<noteq> [] \<and> length s \<le> 64 \<and> s \<noteq> END \<and>
     list_all (\<lambda>c. is_alnum c \<or> c \<in> set ''_.-'') s"

text \<open>The field constraints and validators of a node.\<close>

definition check_node :: "wf_node \<Rightarrow> unit result" where
  "check_node n =
     (if \<not> is_node_id (nd_id n) then Inl ValueError
      else if (case nd_agent n of None \<Rightarrow> False | Some a \<Rightarrow> match_ref a = None) then Inl ValueError
      else if (case nd_expr n of None \<Rightarrow> False | Some e \<Rightarrow> 512 < length e) then Inl ValueError
      else if (case nd_timeout_s n of None \<Rightarrow> False | Some t \<Rightarrow> t < 60 \<or> 30 * 86400 < t) then Inl ValueError
      else if nd_type n = Agent_Task \<and> \<not> nonempty_text (nd_agent n) then Inl ValueError
      else if nd_type n = Tool_Call \<and> \<not> nonempty_text (nd_tool n) then Inl ValueError
      else if nd_type n = Condition \<and> \<not> nonempty_text (nd_expr n) then Inl ValueError
      else if nd_type n = Approval \<and> nd_roles n = [] then Inl ValueError
      else if nd_type n \<noteq> Agent_Task \<and>
        (nonempty_text (nd_agent n) \<or> nonempty_text (nd_reviews n) \<or> nd_mode n \<noteq> None)
      then Inl ValueError
      else Inr ())"

definition node_ids :: "workflow \<Rightarrow> string list" where
  "node_ids w = map nd_id (wf_nodes w)"

text \<open>\<open>{n.id: n for n in spec.nodes}\<close>.\<close>

definition node_of :: "workflow \<Rightarrow> string \<Rightarrow> wf_node option" where
  "node_of w i = map_of (rev (map (\<lambda>n. (nd_id n, n)) (wf_nodes w))) i"

section \<open>Edges and cycles\<close>

definition edge_problem :: "workflow \<Rightarrow> wf_edge \<Rightarrow> string list" where
  "edge_problem w e =
     (if we_from e \<notin> set (node_ids w) then [''edge from unknown node '' @ quoted (we_from e)]
      else if we_to e \<noteq> END \<and> we_to e \<notin> set (node_ids w)
      then [''edge to unknown node '' @ quoted (we_to e)] else [])"

definition duplicate_ids :: "string list \<Rightarrow> string list" where
  "duplicate_ids ids = sorted_set (filter (\<lambda>i. count_list ids i > 1) ids)"

definition structure_problems :: "workflow \<Rightarrow> string list" where
  "structure_problems w =
     (if distinct (node_ids w) then []
      else [''duplicate node ids: '' @ comma_join (duplicate_ids (node_ids w))]) @
     concat (map (edge_problem w) (wf_edges w))"

text \<open>The edges that lead from a node; those with a problem are skipped.\<close>

definition sound_edges :: "workflow \<Rightarrow> wf_edge list" where
  "sound_edges w = filter (\<lambda>e. edge_problem w e = []) (wf_edges w)"

definition out_nodes :: "workflow \<Rightarrow> string \<Rightarrow> string list" where
  "out_nodes w i = map we_to (filter (\<lambda>e. we_from e = i) (sound_edges w))"

definition indegree :: "workflow \<Rightarrow> (string \<times> int) list" where
  "indegree w =
     map (\<lambda>i. (i, int (length (filter (\<lambda>e. we_to e = i \<and> we_to e \<noteq> END) (sound_edges w))))) (node_ids w)"

text \<open>The inner loop: the successors of a node lose one pending edge and are queued at zero.\<close>

definition decrement :: "string \<Rightarrow> (string \<times> int) list \<Rightarrow> (string \<times> int) list" where
  "decrement m pending = map (\<lambda>(k, d). (k, if k = m then d - 1 else d)) pending"

fun release :: "string list \<Rightarrow> (string \<times> int) list \<Rightarrow> string list \<Rightarrow> (string \<times> int) list \<times> string list" where
  "release [] pending queue = (pending, queue)"
| "release (m # ms) pending queue =
     (if m = END then release ms pending queue
      else release ms (decrement m pending)
             (if map_of (decrement m pending) m = Some 0 then queue @ [m] else queue))"

definition pending_count :: "(string \<times> int) list \<Rightarrow> nat" where
  "pending_count pending = length (filter (\<lambda>(k, d). 0 < d) pending)"

lemma decrement_count:
  "pending_count (decrement m pending) \<le> pending_count pending \<and>
   (map_of (decrement m pending) m = Some 0 \<longrightarrow> pending_count (decrement m pending) < pending_count pending)"
  by (induction pending) (auto simp: pending_count_def decrement_def)

lemma release_measure:
  "release ms pending queue = (pending', queue') \<Longrightarrow>
     length queue' + pending_count pending' \<le> length queue + pending_count pending"
proof (induction ms pending queue rule: release.induct)
  case (2 m ms pending queue)
  then show ?case using decrement_count [of m pending] by (fastforce split: if_splits)
qed simp

text \<open>The outer loop, which takes the last node queued; the result is the nodes taken, in order.\<close>

function kahn :: "(string \<Rightarrow> string list) \<Rightarrow> (string \<times> int) list \<Rightarrow> string list \<Rightarrow> string list" where
  "kahn out pending queue =
     (if queue = [] then []
      else let (pending', queue') = release (out (last queue)) pending (butlast queue) in
           last queue # kahn out pending' queue')"
  by auto
termination
proof (relation "measure (\<lambda>(out, pending, queue). length queue + pending_count pending)", goal_cases)
  case (2 out pending queue x pending' queue')
  have "length queue' + pending_count pending' \<le> length (butlast queue) + pending_count pending"
    using release_measure 2(2,3) by metis
  moreover have "length (butlast queue) < length queue" using 2(1) by simp
  ultimately show ?case by simp
qed simp

declare kahn.simps [simp del]

definition taken :: "workflow \<Rightarrow> string list" where
  "taken w = kahn (out_nodes w) (indegree w) (map fst (filter (\<lambda>(k, d). d = 0) (indegree w)))"

definition cycle_problems :: "workflow \<Rightarrow> string list" where
  "cycle_problems w =
     (if structure_problems w = [] \<and> length (taken w) \<noteq> length (node_ids w)
      then [''workflow has a cycle''] else [])"

section \<open>Rules that need the registry\<close>

type_synonym resolver = "string \<Rightarrow> (string \<times> nat \<times> agent_spec) option"

text \<open>What a node that resolves an agent is checked for; \<open>agent\<close> is the reference of the node.\<close>

definition review_problems :: "workflow \<Rightarrow> wf_node \<Rightarrow> string \<Rightarrow> string list result" where
  "review_problems w n agent =
     (case nd_reviews n of
        None \<Rightarrow> Inr []
      | Some r \<Rightarrow>
          if r = [] then Inr []
          else (case node_of w r of
             None \<Rightarrow> Inr [''node '' @ quoted (nd_id n) @ '': reviews unknown agent_task '' @ quoted r]
           | Some target \<Rightarrow>
               if nd_type target \<noteq> Agent_Task
               then Inr [''node '' @ quoted (nd_id n) @ '': reviews unknown agent_task '' @ quoted r]
               else case nd_agent target of
                 None \<Rightarrow> Inr []
               | Some other \<Rightarrow>
                   if other = [] then Inr []
                   else rbind (parse_ref other) (\<lambda>(executor, ver).
                        rbind (parse_ref agent) (\<lambda>(reviewer, ver').
                        Inr (if executor = reviewer
                             then [''node '' @ quoted (nd_id n) @ '': reviewer '' @ quoted agent @
                                   '' is the executor of '' @ quoted r @
                                   '' (executor and reviewer must differ)'']
                             else [])))))"

text \<open>The reference with its version, or the words for an active version of the name.\<close>

definition missing_agent :: "wf_node \<Rightarrow> string \<Rightarrow> string list result" where
  "missing_agent n agent =
     rbind (parse_ref agent) (\<lambda>(name, ver).
     Inr [''node '' @ quoted (nd_id n) @ '': cannot resolve '' @
          (if or_default 0 ver \<noteq> 0 then ref_text name ver else ''an active version of '' @ quoted name)])"

definition mode_problem :: "wf_node \<Rightarrow> string \<Rightarrow> agent_spec \<Rightarrow> string list" where
  "mode_problem n agent a =
     (case nd_mode n of
        None \<Rightarrow> []
      | Some m \<Rightarrow>
          if MODE_RANK m > MODE_RANK (as_mode a)
          then [''node '' @ quoted (nd_id n) @ '': mode '' @ quoted (mode_name m) @ '' escalates agent '' @
                quoted agent @ '' beyond its registered mode '' @ quoted (mode_name (as_mode a))] else [])"

text \<open>An agent task without an agent fails the assertion of the code.\<close>

definition node_problems :: "registry \<Rightarrow> resolver \<Rightarrow> workflow \<Rightarrow> wf_node \<Rightarrow> string list result" where
  "node_problems reg resolve w n =
     (if nd_type n = Tool_Call then
        Inr (if (case nd_tool n of None \<Rightarrow> True | Some t \<Rightarrow> reg t = None)
             then [''node '' @ quoted (nd_id n) @ '': unknown tool '' @
                   quoted (or_default ''None'' (nd_tool n))] else [])
      else if nd_type n \<noteq> Agent_Task then Inr []
      else rbind (of_option AssertionError (nd_agent n)) (\<lambda>agent.
           case resolve agent of
             None \<Rightarrow> missing_agent n agent
           | Some (name, ver, a) \<Rightarrow>
               rbind (review_problems w n agent) (\<lambda>rs. Inr (mode_problem n agent a @ rs))))"

fun all_node_problems ::
  "registry \<Rightarrow> resolver \<Rightarrow> workflow \<Rightarrow> wf_node list \<Rightarrow> string list result" where
  "all_node_problems reg resolve w [] = Inr []"
| "all_node_problems reg resolve w (n # ns) =
     rbind (node_problems reg resolve w n) (\<lambda>ps.
     rbind (all_node_problems reg resolve w ns) (\<lambda>qs. Inr (ps @ qs)))"

text \<open>The agent a node runs, when its reference resolves: the last node of an id counts.\<close>

definition resolved :: "resolver \<Rightarrow> workflow \<Rightarrow> string \<Rightarrow> agent_spec option" where
  "resolved resolve w i =
     map_of (rev (concat (map (\<lambda>n.
       if nd_type n = Agent_Task
       then (case nd_agent n of None \<Rightarrow> []
             | Some r \<Rightarrow> (case resolve r of None \<Rightarrow> [] | Some (name, ver, a) \<Rightarrow> [(nd_id n, a)]))
       else []) (wf_nodes w)))) i"

definition label_problems :: "workflow \<Rightarrow> wf_edge \<Rightarrow> string list" where
  "label_problems w e =
     (case (node_of w (we_from e), we_when e) of
        (Some src, Some l) \<Rightarrow>
          (let edge = ''edge '' @ we_from e @ '' -> '' @ we_to e in
           if nd_type src = Condition \<and> lower l \<notin> {''true'', ''false''}
           then [edge @ '': a condition branches on '' @ quoted ''true'' @ ''/'' @ quoted ''false'']
           else if nd_type src = Approval \<and> lower l \<notin> {''approved'', ''rejected''}
           then [edge @ '': an approval branches on '' @ quoted ''approved'' @ ''/'' @ quoted ''rejected'']
           else if nd_type src \<noteq> Condition \<and> nd_type src \<noteq> Approval
           then [edge @ '': '' @ quoted (type_name (nd_type src)) @ '' nodes take no '' @ quoted ''when''] else [])
      | _ \<Rightarrow> [])"

section \<open>Gates\<close>

definition incoming :: "workflow \<Rightarrow> string \<Rightarrow> wf_edge list" where
  "incoming w i =
     filter (\<lambda>e. we_to e \<noteq> END \<and> we_from e \<in> set (node_ids w) \<and> we_to e = i) (wf_edges w)"

text \<open>The path is gated right here: an approval's edge, unlabelled or labelled approved.\<close>

definition approving :: "workflow \<Rightarrow> wf_edge \<Rightarrow> bool" where
  "approving w e \<longleftrightarrow>
     (case node_of w (we_from e) of None \<Rightarrow> False | Some src \<Rightarrow> nd_type src = Approval) \<and>
     lower (case we_when e of None \<Rightarrow> ''approved'' | Some l \<Rightarrow> if l = [] then ''approved'' else l) = ''approved''"

text \<open>What a search for gates sees of a graph: its nodes, the edges into each, and the edges that pass a gate.\<close>

record gate_graph =
  gg_ids :: "string list"
  gg_in :: "string \<Rightarrow> wf_edge list"
  gg_pass :: "wf_edge \<Rightarrow> bool"

text \<open>
  The recursive \<open>walk\<close>, with its memo as the state. The loop over the incoming edges of \<open>n\<close> is
  \<open>walk_edges\<close>. A node that is no node of the workflow has no entry to look up in the code and is
  never walked to.
\<close>

function (sequential) walk ::
    "gate_graph \<Rightarrow> string \<Rightarrow> string list \<Rightarrow> (string \<times> bool) list \<Rightarrow> bool \<times> (string \<times> bool) list"
  and walk_edges ::
    "gate_graph \<Rightarrow> string \<Rightarrow> string list \<Rightarrow> wf_edge list \<Rightarrow> (string \<times> bool) list \<Rightarrow>
     bool \<times> (string \<times> bool) list"
where
  "walk g n stack memo =
     (case map_of memo n of
        Some b \<Rightarrow> (b, memo)
      | None \<Rightarrow>
          if n \<notin> set (gg_ids g) then (False, memo)
          else let (ok, memo') = walk_edges g n stack (gg_in g n) memo;
                   ok' = (gg_in g n \<noteq> [] \<and> ok) in
               (ok', (n, ok') # memo'))"
| "walk_edges g n stack [] memo = (True, memo)"
| "walk_edges g n stack (e # es) memo =
     (if gg_pass g e then walk_edges g n stack es memo
      else if we_from e \<in> set stack \<or> n \<notin> set (gg_ids g) then (False, memo)
      else let (b, memo') = walk g (we_from e) (n # stack) memo in
           if b then walk_edges g n stack es memo' else (False, memo'))"
  by pat_completeness auto
termination
proof (relation "measures [\<lambda>x. case x of
      Inl (g, n, stack, memo) \<Rightarrow> card (set (gg_ids g) - set stack)
    | Inr (g, n, stack, es, memo) \<Rightarrow> card (set (gg_ids g) - set stack),
    \<lambda>x. case x of
      Inl (g, n, stack, memo) \<Rightarrow> if n \<in> set stack then 2 else 1
    | Inr (g, n, stack, es, memo) \<Rightarrow> if n \<in> set stack then 2 else 1,
    \<lambda>x. case x of
      Inl (g, n, stack, memo) \<Rightarrow> Suc (length (gg_in g n))
    | Inr (g, n, stack, es, memo) \<Rightarrow> length es]", goal_cases)
  case (4 g n stack e es memo)
  then have n: "n \<in> set (gg_ids g)" and e: "we_from e \<notin> set stack" by auto
  show ?case
  proof (cases "n \<in> set stack")
    case True
    then have "insert n (set stack) = set stack" "we_from e \<noteq> n" using e by auto
    then show ?thesis using True e by (simp add: insert_absorb)
  next
    case False
    then have "card (set (gg_ids g) - insert n (set stack)) < card (set (gg_ids g) - set stack)"
      using n by (intro psubset_card_mono) auto
    then show ?thesis by simp
  qed
qed auto

declare walk.simps [simp del]

fun walk_all :: "gate_graph \<Rightarrow> string list \<Rightarrow> (string \<times> bool) list \<Rightarrow> (string \<times> bool) list" where
  "walk_all g [] memo = []"
| "walk_all g (i # is) memo = (let (b, memo') = walk g i [] memo in (i, b) # walk_all g is memo')"

definition gate_graph_of :: "workflow \<Rightarrow> gate_graph" where
  "gate_graph_of w = \<lparr>gg_ids = node_ids w, gg_in = incoming w, gg_pass = approving w\<rparr>"

definition approval_gated :: "workflow \<Rightarrow> (string \<times> bool) list" where
  "approval_gated w = walk_all (gate_graph_of w) (node_ids w) []"

definition MOCK_ENVIRONMENTS :: "string list" where
  "MOCK_ENVIRONMENTS = [''mock'']"

definition mock_env :: "string option \<Rightarrow> bool" where
  "mock_env env \<longleftrightarrow> (case env of None \<Rightarrow> False | Some e \<Rightarrow> e \<in> set MOCK_ENVIRONMENTS)"

text \<open>A node that must be gated: a write or execute tool, or a task in full mode, outside mock.\<close>

definition full_act :: "registry \<Rightarrow> resolver \<Rightarrow> workflow \<Rightarrow> wf_node \<Rightarrow> bool" where
  "full_act reg resolve w n \<longleftrightarrow> \<not> mock_env (nd_environment n) \<and>
     (if nd_type n = Tool_Call
      then (case reg (or_default [] (nd_tool n)) of None \<Rightarrow> False | Some t \<Rightarrow> t \<noteq> Read)
      else nd_type n = Agent_Task \<and>
           (case resolved resolve w (nd_id n) of
              None \<Rightarrow> False | Some a \<Rightarrow> or_default (as_mode a) (nd_mode n) = Full))"

definition gate_problem :: "registry \<Rightarrow> wf_node \<Rightarrow> string" where
  "gate_problem reg n =
     (if nd_type n = Tool_Call
      then ''node '' @ quoted (nd_id n) @ '': tool '' @ quoted (or_default [] (nd_tool n)) @ '' is tier '' @
           quoted (case reg (or_default [] (nd_tool n)) of None \<Rightarrow> [] | Some t \<Rightarrow> tier_name t) @ '' and''
      else ''node '' @ quoted (nd_id n) @ '': full mode'' @
           (case nd_environment n of
              None \<Rightarrow> [] | Some env \<Rightarrow> if env = [] then [] else '' on '' @ quoted env)) @
     '' needs an approval node on every path to it (ADR-0010 D3)''"

definition gate_problems :: "registry \<Rightarrow> resolver \<Rightarrow> workflow \<Rightarrow> string list" where
  "gate_problems reg resolve w =
     concat (map (\<lambda>n.
       if full_act reg resolve w n \<and> map_of (approval_gated w) (nd_id n) \<noteq> Some True
       then [gate_problem reg n] else []) (wf_nodes w))"

definition validate_workflow_spec :: "registry \<Rightarrow> resolver \<Rightarrow> workflow \<Rightarrow> string list result" where
  "validate_workflow_spec reg resolve w =
     rbind (all_node_problems reg resolve w (wf_nodes w)) (\<lambda>ps.
     let problems = structure_problems w @ cycle_problems w @ ps @
           concat (map (label_problems w) (wf_edges w)) in
     Inr (if list_ex (sublist ''cycle'') problems then problems
          else problems @ gate_problems reg resolve w))"

section \<open>The check for cycles is exact\<close>

definition predecessors :: "workflow \<Rightarrow> string \<Rightarrow> string list" where
  "predecessors w i = map we_from (filter (\<lambda>e. we_to e = i \<and> we_to e \<noteq> END) (sound_edges w))"

text \<open>How many edges into a node still wait for their source.\<close>

definition waiting :: "workflow \<Rightarrow> string list \<Rightarrow> string \<Rightarrow> nat" where
  "waiting w done i =
     length (filter (\<lambda>e. we_to e = i \<and> we_to e \<noteq> END \<and> we_from e \<notin> set done) (sound_edges w))"

lemma waiting_zero: "waiting w done i = 0 \<longleftrightarrow> set (predecessors w i) \<subseteq> set done"
  by (auto simp: waiting_def predecessors_def filter_empty_conv)

lemma waiting_snoc:
  assumes "n \<notin> set done"
  shows "waiting w done i =
    waiting w (done @ [n]) i + count_list (filter (\<lambda>m. m \<noteq> END) (out_nodes w n)) i"
proof -
  have "length (filter (\<lambda>e. we_to e = i \<and> we_to e \<noteq> END \<and> we_from e \<notin> set done) es) =
    length (filter (\<lambda>e. we_to e = i \<and> we_to e \<noteq> END \<and> we_from e \<notin> set (done @ [n])) es) +
    count_list (filter (\<lambda>m. m \<noteq> END) (map we_to (filter (\<lambda>e. we_from e = n) es))) i" for es
    using assms by (induction es) auto
  then show ?thesis by (simp add: waiting_def out_nodes_def)
qed

lemma map_of_decrement: "map_of (decrement m p) k = map_option (\<lambda>d. if k = m then d - 1 else d) (map_of p k)"
  by (induction p) (auto simp: decrement_def)

lemma release_effect:
  "release ms p queue = (p', queue') \<Longrightarrow>
     (\<forall>k. map_of p' k = map_option (\<lambda>d. d - int (count_list (filter (\<lambda>m. m \<noteq> END) ms) k)) (map_of p k)) \<and>
     (\<exists>new. queue' = queue @ new \<and> distinct new \<and>
        set new = {k. \<exists>d > 0. map_of p k = Some d \<and> d \<le> int (count_list (filter (\<lambda>m. m \<noteq> END) ms) k)})"
proof (induction ms p queue rule: release.induct)
  case (1 p queue)
  then show ?case by (force simp: option.map_ident)
next
  case (2 m ms p queue)
  show ?case
  proof (cases "m = END")
    case True
    then show ?thesis using 2 by simp
  next
    case False
    let ?c = "\<lambda>k. int (count_list (filter (\<lambda>m. m \<noteq> END) ms) k)"
    let ?q = "if map_of (decrement m p) m = Some 0 then queue @ [m] else queue"
    from 2(2) [OF False] 2(3) False have
      m: "map_of p' k = map_option (\<lambda>d. d - ?c k) (map_of (decrement m p) k)" and
      n: "\<exists>new. queue' = ?q @ new \<and> distinct new \<and>
         set new = {k. \<exists>d > 0. map_of (decrement m p) k = Some d \<and> d \<le> ?c k}" for k
      by simp_all
    obtain new where new: "queue' = ?q @ new" "distinct new"
      "set new = {k. \<exists>d > 0. map_of (decrement m p) k = Some d \<and> d \<le> ?c k}" using n by blast
    define new' where "new' = (if map_of (decrement m p) m = Some 0 then [m] else []) @ new"
    have "map_of p' k = map_option (\<lambda>d. d - int (count_list (filter (\<lambda>m. m \<noteq> END) (m # ms)) k)) (map_of p k)" for k
      using False by (cases "map_of p k") (auto simp: m map_of_decrement)
    moreover have "queue' = queue @ new'" "distinct new'"
      using new by (auto simp: new'_def)
    moreover have "k \<in> set new' \<longleftrightarrow>
      (\<exists>d > 0. map_of p k = Some d \<and> d \<le> int (count_list (filter (\<lambda>m. m \<noteq> END) (m # ms)) k))" for k
      using False by (cases "map_of p k") (auto simp: new'_def new(3) map_of_decrement)
    ultimately show ?thesis by blast
  qed
qed

definition kahn_inv :: "workflow \<Rightarrow> string list \<Rightarrow> (string \<times> int) list \<Rightarrow> string list \<Rightarrow> bool" where
  "kahn_inv w done pending queue \<longleftrightarrow>
     (\<forall>i. map_of pending i = (if i \<in> set (node_ids w) then Some (int (waiting w done i)) else None)) \<and>
     distinct (done @ queue) \<and> set (done @ queue) = {i \<in> set (node_ids w). waiting w done i = 0} \<and>
     callees_first (predecessors w) [] done"

lemma kahn_step:
  assumes inv: "kahn_inv w done pending queue" and ne: "queue \<noteq> []"
    and r: "release (out_nodes w (last queue)) pending (butlast queue) = (pending', queue')"
  shows "kahn_inv w (done @ [last queue]) pending' queue'"
proof -
  let ?n = "last queue" and ?c = "\<lambda>k. count_list (filter (\<lambda>m. m \<noteq> END) (out_nodes w (last queue))) k"
  have q: "queue = butlast queue @ [?n]" using ne by simp
  have n: "?n \<notin> set done" "?n \<in> set (node_ids w)" "waiting w done ?n = 0"
    using inv ne last_in_set [OF ne] unfolding kahn_inv_def by (auto simp: set_eq_iff)
  note ws = waiting_snoc [OF n(1), of w]
  obtain new where m: "\<And>k. map_of pending' k = map_option (\<lambda>d. d - int (?c k)) (map_of pending k)"
    and new: "queue' = butlast queue @ new" "distinct new"
      "set new = {k. \<exists>d > 0. map_of pending k = Some d \<and> d \<le> int (?c k)}"
    using release_effect [OF r] by auto
  have old: "set done \<union> set (butlast queue) \<union> {?n} = {i \<in> set (node_ids w). waiting w done i = 0}"
    and dis: "distinct (done @ butlast queue @ [?n])"
    using inv q unfolding kahn_inv_def by (metis set_append list.set(1) list.set(2) sup_assoc)+
  have news: "set new = {i \<in> set (node_ids w). waiting w done i \<noteq> 0 \<and> waiting w (done @ [?n]) i = 0}"
    using inv unfolding new(3) kahn_inv_def by (auto simp: ws split: if_splits)
  have "map_of pending' i = (if i \<in> set (node_ids w) then Some (int (waiting w (done @ [?n]) i)) else None)" for i
    using inv unfolding m kahn_inv_def by (simp add: ws)
  moreover have "distinct ((done @ [?n]) @ queue')"
    using dis old news new(2) unfolding new(1) by (auto simp: set_eq_iff)
  moreover have "set ((done @ [?n]) @ queue') = {i \<in> set (node_ids w). waiting w (done @ [?n]) i = 0}"
    using old news unfolding new(1) by (auto simp: ws set_eq_iff)
  moreover have "callees_first (predecessors w) [] (done @ [?n])"
    using inv n(3) unfolding kahn_inv_def by (simp add: callees_first_append waiting_zero)
  ultimately show ?thesis unfolding kahn_inv_def by blast
qed

lemma kahn_complete:
  "kahn_inv w done pending queue \<Longrightarrow>
     kahn_inv w (done @ kahn (out_nodes w) pending queue)
       (map (\<lambda>i. (i, int (waiting w (done @ kahn (out_nodes w) pending queue) i))) (node_ids w)) []"
proof (induction "out_nodes w" pending queue arbitrary: "done" rule: kahn.induct)
  case (1 pending queue)
  show ?case
  proof (cases "queue = []")
    case True
    then show ?thesis using 1(2) by (simp add: kahn.simps [of _ pending] kahn_inv_def map_of_map_restrict restrict_map_def)
  next
    case False
    obtain p' q' where r: "release (out_nodes w (last queue)) pending (butlast queue) = (p', q')"
      by (cases "release (out_nodes w (last queue)) pending (butlast queue)") auto
    have "kahn (out_nodes w) pending queue = last queue # kahn (out_nodes w) p' q'"
      using False r by (simp add: kahn.simps [of _ pending])
    then show ?thesis using 1(1) [OF False r [symmetric] refl kahn_step [OF 1(2) False r]] by simp
  qed
qed

lemma edge_problem_ok:
  "edge_problem w e = [] \<longleftrightarrow>
     we_from e \<in> set (node_ids w) \<and> (we_to e = END \<or> we_to e \<in> set (node_ids w))"
  by (simp add: edge_problem_def)

lemma structure_ok:
  "structure_problems w = [] \<longleftrightarrow>
     distinct (node_ids w) \<and> (\<forall>e \<in> set (wf_edges w). we_from e \<in> set (node_ids w) \<and>
        (we_to e = END \<or> we_to e \<in> set (node_ids w)))"
proof -
  have "structure_problems w = [] \<longleftrightarrow>
    distinct (node_ids w) \<and> (\<forall>e \<in> set (wf_edges w). edge_problem w e = [])"
    unfolding structure_problems_def append_is_Nil_conv concat_eq_Nil_conv by simp
  then show ?thesis unfolding edge_problem_ok .
qed

lemma sound_edges_all: "structure_problems w = [] \<Longrightarrow> sound_edges w = wf_edges w"
  unfolding structure_ok sound_edges_def edge_problem_ok filter_id_conv by (rule conjunct2)

lemma indegree_waiting: "indegree w = map (\<lambda>i. (i, int (waiting w [] i))) (node_ids w)"
  by (auto simp: indegree_def waiting_def intro!: arg_cong [where f = length] filter_cong)

lemma zero_waiting: "map fst (filter (\<lambda>(k, d). d = 0) (map (\<lambda>i. (i, int (f i))) ids)) = filter (\<lambda>i. f i = 0) ids"
  by (induction ids) auto

lemma map_of_indices: "map_of (map (\<lambda>i. (i, f i)) ids) k = (if k \<in> set ids then Some (f k) else None)"
  by (induction ids) auto

lemma kahn_init: "distinct (node_ids w) \<Longrightarrow>
    kahn_inv w [] (indegree w) (map fst (filter (\<lambda>(k, d). d = 0) (indegree w)))"
  unfolding kahn_inv_def indegree_waiting zero_waiting map_of_indices by simp

lemma kahn_taken:
  assumes "distinct (node_ids w)"
  shows "distinct (taken w) \<and> callees_first (predecessors w) [] (taken w)"
    and "i \<in> set (taken w) \<longleftrightarrow> i \<in> set (node_ids w) \<and> set (predecessors w i) \<subseteq> set (taken w)"
proof -
  have inv: "kahn_inv w (taken w) (map (\<lambda>i. (i, int (waiting w (taken w) i))) (node_ids w)) []"
    using kahn_complete [OF kahn_init [OF assms]] by (simp only: append_Nil taken_def)
  then show "distinct (taken w) \<and> callees_first (predecessors w) [] (taken w)"
    unfolding kahn_inv_def append_Nil2 by (elim conjE) (rule conjI)
  from inv have "set (taken w) = {i \<in> set (node_ids w). waiting w (taken w) i = 0}"
    unfolding kahn_inv_def append_Nil2 by (elim conjE)
  then have "i \<in> set (taken w) \<longleftrightarrow> i \<in> {i \<in> set (node_ids w). waiting w (taken w) i = 0}" by (rule arg_cong)
  then show "i \<in> set (taken w) \<longleftrightarrow> i \<in> set (node_ids w) \<and> set (predecessors w i) \<subseteq> set (taken w)"
    unfolding mem_Collect_eq waiting_zero .
qed

text \<open>Workflows whose structure has a problem are not searched for cycles; they count as empty here.\<close>

definition searched :: "workflow \<Rightarrow> workflow" where
  "searched w = (if structure_problems w = [] then w else \<lparr>wf_nodes = [], wf_edges = []\<rparr>)"

definition taken_and_left :: "workflow \<Rightarrow> string list \<times> string list" where
  "taken_and_left w =
     (taken (searched w), filter (\<lambda>i. i \<notin> set (taken (searched w))) (node_ids (searched w)))"

lemma searched_ok: "structure_problems (searched w) = []"
  by (simp add: searched_def structure_ok) (simp add: node_ids_def)

lemma searched_distinct: "distinct (node_ids (searched w))"
  using searched_ok structure_ok by blast

interpretation wf: start_order "\<lambda>w. node_ids (searched w)" "\<lambda>w. predecessors (searched w)" taken_and_left
proof unfold_locales
  show "q \<in> set (node_ids (searched w))" if "q \<in> set (predecessors (searched w) p)" for q w p
    using that searched_ok [of w] unfolding structure_ok by (auto simp: predecessors_def sound_edges_def)
  show "mset (fst (taken_and_left w)) + mset (snd (taken_and_left w)) = mset (node_ids (searched w))" for w
  proof -
    have "mset (taken (searched w)) = mset (filter (\<lambda>i. i \<in> set (taken (searched w))) (node_ids (searched w)))"
      using kahn_taken(1) [OF searched_distinct [of w]] kahn_taken(2) [OF searched_distinct [of w]]
        searched_distinct [of w]
      by (subst set_eq_iff_mset_eq_distinct [symmetric]) auto
    then show ?thesis by (simp add: taken_and_left_def)
  qed
  show "callees_first (predecessors (searched w)) [] (fst (taken_and_left w))" for w
    using kahn_taken(1) [OF searched_distinct] by (simp add: taken_and_left_def)
  show "\<not> set (predecessors (searched w) p) \<subseteq> set (fst (taken_and_left w))"
    if "p \<in> set (snd (taken_and_left w))" for p w
    using that kahn_taken(2) [OF searched_distinct [of w], of p] by (auto simp: taken_and_left_def)
qed

text \<open>The edges between nodes.\<close>

definition flow :: "workflow \<Rightarrow> (string \<times> string) set" where
  "flow w = {(we_from e, we_to e) | e. e \<in> set (wf_edges w) \<and> we_to e \<noteq> END}"

lemma flow_wiring: "structure_problems w = [] \<Longrightarrow> flow w = (wf.wiring w)\<inverse>"
  unfolding wf.wiring_def
  by (auto simp: flow_def searched_def predecessors_def sound_edges_all structure_ok)

lemma cycle_problems_iff:
  assumes "structure_problems w = []"
  shows "cycle_problems w = [] \<longleftrightarrow> acyclic (flow w)"
proof -
  have s: "searched w = w" using assms by (simp add: searched_def)
  have d: "distinct (node_ids w)" using assms structure_ok by blast
  have "length (taken w) = length (node_ids w) \<longleftrightarrow> snd (taken_and_left w) = []"
  proof -
    have "set (taken w) \<subseteq> set (node_ids w)" using kahn_taken(2) [OF d] by blast
    moreover have "distinct (taken w)" using kahn_taken(1) [OF d] by blast
    ultimately have "length (taken w) = length (node_ids w) \<longleftrightarrow> set (node_ids w) \<subseteq> set (taken w)"
      using d by (metis card_subset_eq distinct_card finite_set order_refl subset_antisym)
    then show ?thesis by (auto simp: taken_and_left_def s filter_empty_conv)
  qed
  then show ?thesis
    using wf.complete_iff_acyclic [of w] flow_wiring [OF assms] assms
    by (simp add: cycle_problems_def acyclic_converse)
qed

section \<open>The gate check is exact\<close>

text \<open>A node that some path reaches from a start node without crossing an approval.\<close>

inductive ungated :: "gate_graph \<Rightarrow> string \<Rightarrow> bool" for g where
  start: "i \<in> set (gg_ids g) \<Longrightarrow> gg_in g i = [] \<Longrightarrow> ungated g i"
| along: "i \<in> set (gg_ids g) \<Longrightarrow> e \<in> set (gg_in g i) \<Longrightarrow> \<not> gg_pass g e \<Longrightarrow> ungated g (we_from e) \<Longrightarrow>
    ungated g i"

inductive_simps ungated_iff: "ungated g i"

text \<open>The edges a search follows, which lead from nodes.\<close>

definition feeds :: "gate_graph \<Rightarrow> (string \<times> string) set" where
  "feeds g = {(we_from e, n) | e n. e \<in> set (gg_in g n)}"

definition closed_gates :: "gate_graph \<Rightarrow> bool" where
  "closed_gates g \<longleftrightarrow> (\<forall>n. \<forall>e \<in> set (gg_in g n). we_from e \<in> set (gg_ids g))"

definition memo_ok :: "gate_graph \<Rightarrow> (string \<times> bool) list \<Rightarrow> bool" where
  "memo_ok g memo \<longleftrightarrow> (\<forall>m b. map_of memo m = Some b \<longrightarrow> (b \<longleftrightarrow> \<not> ungated g m))"

definition stack_ok :: "gate_graph \<Rightarrow> string \<Rightarrow> string list \<Rightarrow> bool" where
  "stack_ok g n stack \<longleftrightarrow> (\<forall>s \<in> set stack. (n, s) \<in> (feeds g)\<^sup>+)"

lemma incoming_flow: "closed_gates g \<Longrightarrow> e \<in> set (gg_in g n) \<Longrightarrow> (we_from e, n) \<in> feeds g \<and> we_from e \<in> set (gg_ids g)"
  by (auto simp: closed_gates_def feeds_def)

lemma stack_step:
  assumes "acyclic (feeds g)" and "stack_ok g n stack" and "e \<in> set (gg_in g n)" and "closed_gates g"
  shows "we_from e \<notin> set stack \<and> stack_ok g (we_from e) (n # stack)"
proof -
  have f: "(we_from e, n) \<in> feeds g" using incoming_flow assms(3,4) by blast
  have "we_from e \<notin> set stack"
  proof
    assume "we_from e \<in> set stack"
    then have "(n, we_from e) \<in> (feeds g)\<^sup>+" using assms(2) by (simp add: stack_ok_def)
    then have "(n, n) \<in> (feeds g)\<^sup>+" using f by (rule trancl_into_trancl)
    then show False using assms(1) by (simp add: acyclic_def)
  qed
  moreover have "stack_ok g (we_from e) (n # stack)"
    using assms(2) f by (auto simp: stack_ok_def dest: trancl_into_trancl2)
  ultimately show ?thesis ..
qed

lemma walk_exact:
  assumes acyc: "acyclic (feeds g)" and closed: "closed_gates g"
  shows "n \<in> set (gg_ids g) \<Longrightarrow> stack_ok g n stack \<Longrightarrow> memo_ok g memo \<Longrightarrow>
      (fst (walk g n stack memo) \<longleftrightarrow> \<not> ungated g n) \<and> memo_ok g (snd (walk g n stack memo))"
    and "n \<in> set (gg_ids g) \<Longrightarrow> stack_ok g n stack \<Longrightarrow> memo_ok g memo \<Longrightarrow> set es \<subseteq> set (gg_in g n) \<Longrightarrow>
      (fst (walk_edges g n stack es memo) \<longleftrightarrow> (\<forall>e \<in> set es. gg_pass g e \<or> \<not> ungated g (we_from e))) \<and>
      memo_ok g (snd (walk_edges g n stack es memo))"
  using acyc closed
proof (induction g n stack memo and g n stack es memo rule: walk_walk_edges.induct)
  case (1 g n stack memo)
  show ?case
  proof (cases "map_of memo n")
    case (Some b)
    then show ?thesis using 1 by (auto simp: walk.simps memo_ok_def)
  next
    case None
    obtain ok memo' where r: "walk_edges g n stack (gg_in g n) memo = (ok, memo')"
      by (cases "walk_edges g n stack (gg_in g n) memo") auto
    have i: "ok \<longleftrightarrow> (\<forall>e \<in> set (gg_in g n). gg_pass g e \<or> \<not> ungated g (we_from e))" "memo_ok g memo'"
      using 1(1) [OF None] 1(2-) r by auto
    have "(gg_in g n \<noteq> [] \<and> ok) \<longleftrightarrow> \<not> ungated g n"
      using i(1) 1(2) by (subst ungated_iff) auto
    moreover from this have "memo_ok g ((n, gg_in g n \<noteq> [] \<and> ok) # memo')"
      using i(2) by (simp add: memo_ok_def)
    moreover have "walk g n stack memo = (gg_in g n \<noteq> [] \<and> ok, (n, gg_in g n \<noteq> [] \<and> ok) # memo')"
      using None r 1(2) by (simp add: walk.simps Let_def)
    ultimately show ?thesis by simp
  qed
next
  case (2 g n stack memo)
  then show ?case by simp
next
  case (3 g n stack e es memo)
  show ?case
  proof (cases "gg_pass g e")
    case True
    then show ?thesis using 3 by simp
  next
    case False
    have e: "e \<in> set (gg_in g n)" using 3 by simp
    have s: "\<not> (we_from e \<in> set stack \<or> n \<notin> set (gg_ids g))" "stack_ok g (we_from e) (n # stack)"
      using stack_step [OF 3(8) 3(5) e 3(9)] 3(4) by auto
    obtain b memo' where r: "walk g (we_from e) (n # stack) memo = (b, memo')"
      by (cases "walk g (we_from e) (n # stack) memo") auto
    have b: "b \<longleftrightarrow> \<not> ungated g (we_from e)" "memo_ok g memo'"
      using 3(2) [OF False s(1) _ s(2) 3(6) 3(8,9)] incoming_flow [OF 3(9) e] r by auto
    show ?thesis
    proof (cases b)
      case True
      have "(fst (walk_edges g n stack es memo') \<longleftrightarrow> (\<forall>e \<in> set es. gg_pass g e \<or> \<not> ungated g (we_from e))) \<and>
        memo_ok g (snd (walk_edges g n stack es memo'))"
        using 3(3) [OF False s(1) r [symmetric] refl True 3(4,5) b(2) _ 3(8,9)] 3(7) by simp
      then show ?thesis using True False s(1) r b(1) by simp
    next
      case nb: False
      then show ?thesis using False s(1) r b by simp
    qed
  qed
qed

lemma walk_all_exact:
  assumes "acyclic (feeds g)" and "closed_gates g"
  shows "set is \<subseteq> set (gg_ids g) \<Longrightarrow> memo_ok g memo \<Longrightarrow>
    walk_all g is memo = map (\<lambda>i. (i, \<not> ungated g i)) is"
proof (induction "is" arbitrary: memo)
  case (Cons i "is")
  obtain b memo' where r: "walk g i [] memo = (b, memo')" by (cases "walk g i [] memo") auto
  have "b \<longleftrightarrow> \<not> ungated g i" "memo_ok g memo'"
    using walk_exact(1) [OF assms, of i "[]" memo] Cons r by (auto simp: stack_ok_def)
  then show ?case using Cons r by simp
qed simp

lemma gate_graph_of: "feeds (gate_graph_of w) \<subseteq> flow w" "closed_gates (gate_graph_of w)" "gg_ids (gate_graph_of w) = node_ids w"
  by (auto simp: feeds_def closed_gates_def gate_graph_of_def incoming_def flow_def)

lemma approval_gated_exact:
  "acyclic (flow w) \<Longrightarrow> i \<in> set (node_ids w) \<Longrightarrow> map_of (approval_gated w) i = Some (\<not> ungated (gate_graph_of w) i)"
  using walk_all_exact [of "gate_graph_of w" "node_ids w" "[]"] acyclic_subset [OF _ gate_graph_of(1)] gate_graph_of
  by (simp add: approval_gated_def memo_ok_def map_of_indices)

section \<open>What publishing guarantees\<close>

lemma all_node_problems_ok:
  "all_node_problems reg resolve w ns = Inr [] \<longleftrightarrow> (\<forall>n \<in> set ns. node_problems reg resolve w n = Inr [])"
  by (induction ns) (auto simp: result_iff)

lemma no_problems: "(if list_ex P ps then ps else ps @ gs) = [] \<Longrightarrow> ps = [] \<and> gs = []"
  by (cases ps) (auto split: if_splits)

lemma validate_workflow_ok:
  assumes "validate_workflow_spec reg resolve w = Inr []"
  shows "structure_problems w = []" and "cycle_problems w = []"
    and "\<forall>n \<in> set (wf_nodes w). node_problems reg resolve w n = Inr []"
    and "gate_problems reg resolve w = []"
proof -
  obtain ps where p: "all_node_problems reg resolve w (wf_nodes w) = Inr ps"
    and v: "(let problems = structure_problems w @ cycle_problems w @ ps @ concat (map (label_problems w) (wf_edges w))
       in if list_ex (sublist ''cycle'') problems then problems else problems @ gate_problems reg resolve w) = []"
    using assms unfolding validate_workflow_spec_def result_iff by (auto simp: Let_def)
  have "structure_problems w @ cycle_problems w @ ps @ concat (map (label_problems w) (wf_edges w)) = [] \<and>
      gate_problems reg resolve w = []"
    using v unfolding Let_def by (rule no_problems)
  then show "structure_problems w = []" "cycle_problems w = []"
    "\<forall>n \<in> set (wf_nodes w). node_problems reg resolve w n = Inr []" "gate_problems reg resolve w = []"
    using p all_node_problems_ok by auto
qed

text \<open>C6. In a workflow that validation accepts no run goes round in a cycle, and no path from a start
  node reaches a write or execute tool, or a task in full mode, outside the mock environment without
  crossing the approved edge of a human approval.\<close>

theorem full_mode_is_gated:
  assumes "validate_workflow_spec reg resolve w = Inr []"
  shows "acyclic (flow w) \<and> (\<forall>n \<in> set (wf_nodes w). full_act reg resolve w n \<longrightarrow> \<not> ungated (gate_graph_of w) (nd_id n))"
proof -
  note v = validate_workflow_ok [OF assms]
  have a: "acyclic (flow w)" using cycle_problems_iff [OF v(1)] v(2) by blast
  have "\<not> ungated (gate_graph_of w) (nd_id n)" if n: "n \<in> set (wf_nodes w)" and f: "full_act reg resolve w n" for n
  proof -
    have "map_of (approval_gated w) (nd_id n) = Some True"
      using v(4) n f unfolding gate_problems_def by (fastforce split: if_splits)
    moreover have "nd_id n \<in> set (node_ids w)" using n by (simp add: node_ids_def)
    ultimately show ?thesis using approval_gated_exact [OF a] by simp
  qed
  with a show ?thesis by blast
qed

definition mode_of_run :: "wf_node \<Rightarrow> agent_spec \<Rightarrow> mode" where
  "mode_of_run n a = or_default (as_mode a) (nd_mode n)"

text \<open>C38. In a workflow that validation accepts every task names an agent that resolves and runs in no
  higher mode than the agent is registered with, and a task that reviews another one is a different
  agent than the one it reviews.\<close>

theorem tasks_stay_within_their_agent:
  assumes "validate_workflow_spec reg resolve w = Inr []" and "n \<in> set (wf_nodes w)" and "nd_type n = Agent_Task"
  shows "\<exists>r name ver a. nd_agent n = Some r \<and> resolve r = Some (name, ver, a) \<and>
    MODE_RANK (mode_of_run n a) \<le> MODE_RANK (as_mode a) \<and>
    (\<forall>t. nd_reviews n = Some t \<and> t \<noteq> [] \<longrightarrow>
       (\<exists>target. node_of w t = Some target \<and> nd_type target = Agent_Task \<and>
          (\<forall>other. nd_agent target = Some other \<and> other \<noteq> [] \<longrightarrow>
             (\<exists>x vx y vy. parse_ref other = Inr (x, vx) \<and> parse_ref r = Inr (y, vy) \<and> x \<noteq> y))))"
proof -
  have p: "node_problems reg resolve w n = Inr []"
    using validate_workflow_ok(3) [OF assms(1)] assms(2) by blast
  then obtain r where r: "nd_agent n = Some r" using assms(3) by (auto simp: node_problems_def result_iff)
  have "resolve r \<noteq> None"
    using p assms(3) r by (cases "resolve r") (auto simp: node_problems_def missing_agent_def result_iff)
  then obtain name ver a where a: "resolve r = Some (name, ver, a)" by auto
  have q: "mode_problem n r a = []" "review_problems w n r = Inr []"
    using p assms(3) r a by (auto simp: node_problems_def result_iff)
  have "MODE_RANK (mode_of_run n a) \<le> MODE_RANK (as_mode a)"
    using q(1) by (auto simp: mode_problem_def mode_of_run_def not_less split: option.splits if_splits)
  moreover have "\<exists>target. node_of w t = Some target \<and> nd_type target = Agent_Task \<and>
      (\<forall>other. nd_agent target = Some other \<and> other \<noteq> [] \<longrightarrow>
         (\<exists>x vx y vy. parse_ref other = Inr (x, vx) \<and> parse_ref r = Inr (y, vy) \<and> x \<noteq> y))"
    if "nd_reviews n = Some t" "t \<noteq> []" for t
    using q(2) that
    by (auto simp: review_problems_def result_iff split: option.splits if_splits prod.splits)
  ultimately show ?thesis using r a by blast
qed

text \<open>A triage task, whose finding a human approves before a fixer writes to production.\<close>

definition demo_task :: "string \<Rightarrow> string \<Rightarrow> wf_node" where
  "demo_task i agent = \<lparr>nd_id = i, nd_type = Agent_Task, nd_agent = Some agent, nd_mode = None,
     nd_environment = Some ''prod'', nd_reviews = None, nd_tool = None, nd_expr = None, nd_roles = [],
     nd_timeout_s = None, nd_input = [], nd_args = []\<rparr>"

definition demo_workflow :: workflow where
  "demo_workflow = \<lparr>wf_nodes =
     [demo_task ''look'' ''triage'', (demo_task ''ok'' [])\<lparr>nd_type := Approval, nd_agent := None, nd_roles := [''admin'']\<rparr>,
      (demo_task ''fix'' ''fixer@2'')\<lparr>nd_reviews := Some ''look''\<rparr>],
     wf_edges = [\<lparr>we_from = ''look'', we_to = ''ok'', we_when = None\<rparr>,
       \<lparr>we_from = ''ok'', we_to = ''fix'', we_when = Some ''approved''\<rparr>,
       \<lparr>we_from = ''ok'', we_to = ''end'', we_when = Some ''rejected''\<rparr>]\<rparr>"

definition demo_resolve :: resolver where
  "demo_resolve r =
     (if r = ''triage'' then Some (''triage'', 1, demo_agent)
      else if r = ''fixer@2'' then Some (''fixer'', 2, demo_agent\<lparr>as_mode := Full\<rparr>) else None)"

definition fixer :: wf_node where
  "fixer = (demo_task ''fix'' ''fixer@2'')\<lparr>nd_reviews := Some ''look''\<rparr>"
lemma demo_nodes: "wf_nodes demo_workflow = [demo_task ''look'' ''triage'',
    (demo_task ''ok'' [])\<lparr>nd_type := Approval, nd_agent := None, nd_roles := [''admin'']\<rparr>, fixer]"
  by (simp add: demo_workflow_def fixer_def)

lemma demo_fix_gated: "map_of (approval_gated demo_workflow) ''fix'' = Some True" by code_simp

lemma demo_full_act: "full_act (\<lambda>t. None) demo_resolve demo_workflow n \<longleftrightarrow> n = fixer" if "n \<in> set (wf_nodes demo_workflow)"
  using that by (auto simp: demo_nodes full_act_def mock_env_def MOCK_ENVIRONMENTS_def demo_task_def resolved_def demo_resolve_def fixer_def demo_agent_def)

lemma demo_gates: "gate_problems (\<lambda>t. None) demo_resolve demo_workflow = []"
  unfolding gate_problems_def concat_eq_Nil_conv
  using demo_full_act demo_fix_gated by (auto simp: fixer_def demo_task_def)

lemma demo_review: "review_problems demo_workflow fixer ''fixer@2'' = Inr []"
  by (simp add: review_problems_def parse_ref_def match_ref_def is_agent_name_def is_lower_alnum_def demo_workflow_def demo_task_def fixer_def node_of_def is_digit_def is_dec_def)

lemma fixer_fields: "nd_type fixer = Agent_Task" "nd_agent fixer = Some ''fixer@2''" "nd_mode fixer = None"
  by (simp_all add: fixer_def demo_task_def)

lemma demo_fixer_rules: "node_problems (\<lambda>t. None) demo_resolve demo_workflow fixer = Inr []"
  by (simp add: node_problems_def fixer_fields demo_review mode_problem_def demo_resolve_def)

lemma demo_node_rules: "all_node_problems (\<lambda>t. None) demo_resolve demo_workflow (wf_nodes demo_workflow) = Inr []"
  by (simp add: demo_nodes demo_fixer_rules)
    (simp add: node_problems_def demo_task_def demo_resolve_def mode_problem_def review_problems_def)

lemma demo_workflow_valid: "validate_workflow_spec (\<lambda>t. None) demo_resolve demo_workflow = Inr []"
proof -
  have "structure_problems demo_workflow = []" "cycle_problems demo_workflow = []"
    "concat (map (label_problems demo_workflow) (wf_edges demo_workflow)) = []" by code_simp+
  then show ?thesis unfolding validate_workflow_spec_def demo_node_rules by (simp add: demo_gates Let_def)
qed
theorem full_mode_is_gated_witness: "\<not> ungated (gate_graph_of demo_workflow) ''fix''"
proof -
  have "full_act (\<lambda>t. None) demo_resolve demo_workflow fixer" "fixer \<in> set (wf_nodes demo_workflow)"
    using demo_full_act by (auto simp: demo_nodes)
  then have "\<not> ungated (gate_graph_of demo_workflow) (nd_id fixer)"
    using full_mode_is_gated [OF demo_workflow_valid] by blast
  then show ?thesis by (simp add: fixer_def demo_task_def)
qed

theorem tasks_stay_within_their_agent_witness:
  "\<exists>r name ver a. nd_agent fixer = Some r \<and> demo_resolve r = Some (name, ver, a) \<and>
     MODE_RANK (mode_of_run fixer a) \<le> MODE_RANK (as_mode a)"
  using tasks_stay_within_their_agent [OF demo_workflow_valid, of fixer]
  by (auto simp: demo_nodes fixer_def demo_task_def)

end
