(* ===== verification/Conditions.thy ===== *)
theory Conditions
  imports Hub_Spec
begin

text \<open>
  References and conditions of workflows (\<open>agent_hub/exprs.py\<close>): lookup of dotted paths, rendering of
  \<open>${path}\<close> references in JSON values, and the evaluator of conditions. The parser of Python's \<open>ast\<close>
  module and the decimal text of a float are parameters.
\<close>

section \<open>Lookup\<close>

fun lookup_parts :: "pyv \<Rightarrow> string list \<Rightarrow> pyv" where
  "lookup_parts cur [] = cur"
| "lookup_parts cur (part # parts) =
     (let hop = (case cur of
          PDict kvs \<Rightarrow> get kvs part PNone
        | PList vs \<Rightarrow>
            if part \<noteq> [] \<and> list_all is_digit part
            then (let i = undec (u part) in if i < length vs then vs ! i else PNone)
            else PNone
        | _ \<Rightarrow> PNone) in
      if hop = PNone then PNone else lookup_parts hop parts)"

definition lookup :: "pyv \<Rightarrow> string \<Rightarrow> pyv" where
  "lookup ctx path = lookup_parts ctx (split_char (CHR ''.'') path)"

section \<open>References in a text\<close>

definition is_path_char :: "char \<Rightarrow> bool" where
  "is_path_char c \<longleftrightarrow> is_alnum c \<or> c \<in> set ''_.-''"

definition ws_char :: "char \<Rightarrow> bool" where
  "ws_char c \<longleftrightarrow> is_ws (of_char c)"

text \<open>The pattern \<open>\$\{\s*([A-Za-z0-9_.-]+)\s*\}\<close> at the front of a text: the path and the rest.\<close>

definition ref_at :: "string \<Rightarrow> (string \<times> string) option" where
  "ref_at s =
     (if take 2 s \<noteq> ''${'' then None
      else let body = dropWhile ws_char (drop 2 s); path = takeWhile is_path_char body;
               rest = dropWhile ws_char (drop (length path) body) in
           if path = [] then None
           else case rest of [] \<Rightarrow> None | c # cs \<Rightarrow> if c = CHR ''}'' then Some (path, cs) else None)"

lemma guard_Some: "(if g then None else x) = Some y \<Longrightarrow> x = Some y"
  by (cases g) simp_all

lemma closing_brace:
  "(case cs of [] \<Rightarrow> None | c # cs' \<Rightarrow> if c = d then Some (p, cs') else None) = Some (path, rest) \<Longrightarrow>
     cs = d # rest"
  by (cases cs) (auto split: if_splits)

lemma ref_at_shorter: "ref_at s = Some (path, rest) \<Longrightarrow> length rest < length s"
proof -
  assume "ref_at s = Some (path, rest)"
  from this [unfolded ref_at_def Let_def, THEN guard_Some, THEN guard_Some, THEN closing_brace]
  have "length rest <
    length (dropWhile ws_char (drop (length (takeWhile is_path_char (dropWhile ws_char (drop 2 s)))) (dropWhile ws_char (drop 2 s))))"
    by simp
  also have "\<dots> \<le> length (dropWhile ws_char (drop 2 s))"
    by (rule order_trans [OF length_dropWhile_le]) simp
  also have "\<dots> \<le> length s"
    by (rule order_trans [OF length_dropWhile_le]) simp
  finally show ?thesis .
qed

text \<open>\<open>_REF.fullmatch\<close> and \<open>_REF.sub\<close>.\<close>

definition full_ref :: "string \<Rightarrow> string option" where
  "full_ref s = (case ref_at s of Some (path, rest) \<Rightarrow> if rest = [] then Some path else None | None \<Rightarrow> None)"

function sub_refs :: "(string \<Rightarrow> string) \<Rightarrow> string \<Rightarrow> string" where
  "sub_refs f s =
     (case s of
        [] \<Rightarrow> []
      | c # cs \<Rightarrow>
          (case ref_at s of
             Some (path, rest) \<Rightarrow> f path @ sub_refs f rest
           | None \<Rightarrow> c # sub_refs f cs))"
  by auto
termination
  by (relation "measure (length \<circ> snd)") (auto dest: ref_at_shorter)

declare sub_refs.simps [simp del]

section \<open>JSON texts\<close>

text \<open>\<open>json.dumps\<close>; \<open>fl\<close> prints a float. Keys are texts.\<close>

definition hex_char :: "nat \<Rightarrow> char" where
  "hex_char n = ''0123456789abcdef'' ! n"

definition json_char :: "char \<Rightarrow> string" where
  "json_char c =
     (let n = of_char c :: nat in
      if n = 34 then [CHR 0x5C, CHR 0x22]
      else if n = 92 then [CHR 0x5C, CHR 0x5C]
      else if n = 10 then [CHR 0x5C, CHR ''n'']
      else if n = 13 then [CHR 0x5C, CHR ''r'']
      else if n = 9 then [CHR 0x5C, CHR ''t'']
      else if n = 8 then [CHR 0x5C, CHR ''b'']
      else if n = 12 then [CHR 0x5C, CHR ''f'']
      else if 32 \<le> n \<and> n \<le> 126 then [c]
      else [CHR 0x5C, CHR ''u'', CHR ''0'', CHR ''0'', hex_char (n div 16), hex_char (n mod 16)])"

definition json_string :: "string \<Rightarrow> string" where
  "json_string s = [CHR 0x22] @ concat (map json_char s) @ [CHR 0x22]"

fun dumps :: "(rat \<Rightarrow> string) \<Rightarrow> pyv \<Rightarrow> string"
  and dumps_all :: "(rat \<Rightarrow> string) \<Rightarrow> pyv list \<Rightarrow> string list"
  and dumps_items :: "(rat \<Rightarrow> string) \<Rightarrow> (string \<times> pyv) list \<Rightarrow> string list" where
  "dumps fl PNone = ''null''"
| "dumps fl (PBool b) = (if b then ''true'' else ''false'')"
| "dumps fl (PInt n) = (if n < 0 then ''-'' @ dec_string (nat (- n)) else dec_string (nat n))"
| "dumps fl (PFloat q) = fl q"
| "dumps fl (PStr s) = json_string s"
| "dumps fl (PList vs) = ''['' @ comma_join (dumps_all fl vs) @ '']''"
| "dumps fl (PDict kvs) = ''{'' @ comma_join (dumps_items fl kvs) @ ''}''"
| "dumps_all fl [] = []"
| "dumps_all fl (v # vs) = dumps fl v # dumps_all fl vs"
| "dumps_items fl [] = []"
| "dumps_items fl ((k, v) # kvs) = (json_string k @ '': '' @ dumps fl v) # dumps_items fl kvs"

section \<open>Rendering\<close>

definition sub_text :: "(rat \<Rightarrow> string) \<Rightarrow> pyv \<Rightarrow> string \<Rightarrow> string" where
  "sub_text fl ctx path =
     (case lookup ctx path of PNone \<Rightarrow> [] | PStr s \<Rightarrow> s | v \<Rightarrow> dumps fl v)"

fun render :: "(rat \<Rightarrow> string) \<Rightarrow> pyv \<Rightarrow> pyv \<Rightarrow> pyv"
  and render_all :: "(rat \<Rightarrow> string) \<Rightarrow> pyv \<Rightarrow> pyv list \<Rightarrow> pyv list"
  and render_items :: "(rat \<Rightarrow> string) \<Rightarrow> pyv \<Rightarrow> (string \<times> pyv) list \<Rightarrow> (string \<times> pyv) list" where
  "render fl ctx (PStr s) =
     (case full_ref (strip_text s) of
        Some path \<Rightarrow> lookup ctx path
      | None \<Rightarrow> PStr (sub_refs (sub_text fl ctx) s))"
| "render fl ctx (PDict kvs) = PDict (render_items fl ctx kvs)"
| "render fl ctx (PList vs) = PList (render_all fl ctx vs)"
| "render fl ctx PNone = PNone"
| "render fl ctx (PBool b) = PBool b"
| "render fl ctx (PInt n) = PInt n"
| "render fl ctx (PFloat q) = PFloat q"
| "render_all fl ctx [] = []"
| "render_all fl ctx (v # vs) = render fl ctx v # render_all fl ctx vs"
| "render_items fl ctx [] = []"
| "render_items fl ctx ((k, v) # kvs) = (k, render fl ctx v) # render_items fl ctx kvs"

section \<open>Equality, order and membership\<close>

fun number :: "pyv \<Rightarrow> rat option" where
  "number (PBool b) = Some (if b then 1 else 0)"
| "number (PInt n) = Some (of_int n)"
| "number (PFloat q) = Some q"
| "number _ = None"

text \<open>\<open>a == b\<close>: numbers by value, lists element by element, dictionaries by key.\<close>

fun py_eq :: "pyv \<Rightarrow> pyv \<Rightarrow> bool"
  and py_eq_all :: "pyv list \<Rightarrow> pyv list \<Rightarrow> bool"
  and py_eq_items :: "(string \<times> pyv) list \<Rightarrow> (string \<times> pyv) list \<Rightarrow> bool" where
  "py_eq (PStr s) b = (b = PStr s)"
| "py_eq PNone b = (b = PNone)"
| "py_eq (PList vs) b = (case b of PList ws \<Rightarrow> py_eq_all vs ws | _ \<Rightarrow> False)"
| "py_eq (PDict kvs) b =
     (case b of PDict kvs' \<Rightarrow> length kvs = length kvs' \<and> py_eq_items kvs kvs' | _ \<Rightarrow> False)"
| "py_eq (PBool x) b = (number b = Some (if x then 1 else 0))"
| "py_eq (PInt n) b = (number b = Some (of_int n))"
| "py_eq (PFloat q) b = (number b = Some q)"
| "py_eq_all [] ws = (ws = [])"
| "py_eq_all (v # vs) ws = (case ws of [] \<Rightarrow> False | w # ws \<Rightarrow> py_eq v w \<and> py_eq_all vs ws)"
| "py_eq_items [] kvs' = True"
| "py_eq_items ((k, v) # kvs) kvs' =
     ((case map_of kvs' k of None \<Rightarrow> False | Some v' \<Rightarrow> py_eq v v') \<and> py_eq_items kvs kvs')"

text \<open>\<open>_num\<close>.\<close>

definition num_of :: "pyv \<Rightarrow> rat result" where
  "num_of v = (case float_of v of Inl e \<Rightarrow> Inl ExpressionError | Inr q \<Rightarrow> Inr q)"

text \<open>
  \<open>_contains\<close>. A text contains texts only, and a list or a dictionary is no key: both raise a
  \<open>TypeError\<close>.
\<close>

definition contains :: "pyv \<Rightarrow> pyv \<Rightarrow> bool result" where
  "contains container item =
     (case container of
        PList vs \<Rightarrow> Inr (list_ex (\<lambda>v. py_eq v item) vs)
      | PDict kvs \<Rightarrow>
          (case item of
             PStr s \<Rightarrow> Inr (s \<in> set (map fst kvs))
           | PList _ \<Rightarrow> Inl TypeError
           | PDict _ \<Rightarrow> Inl TypeError
           | _ \<Rightarrow> Inr False)
      | PStr t \<Rightarrow> (case item of PStr s \<Rightarrow> Inr (sublist s t) | _ \<Rightarrow> Inl TypeError)
      | _ \<Rightarrow> Inr False)"

section \<open>Conditions\<close>

datatype cmp = Eq | NotEq | Lt | LtE | Gt | GtE | In | NotIn | Is | IsNot

datatype expr =
    Const pyv | Name string | And "expr list" | Or "expr list" | Not expr
  | Compare expr "(cmp \<times> expr) list" | Listing "expr list" | Unsupported

fun CMP :: "cmp \<Rightarrow> (pyv \<Rightarrow> pyv \<Rightarrow> bool result) option" where
  "CMP Eq = Some (\<lambda>a b. Inr (py_eq a b))"
| "CMP NotEq = Some (\<lambda>a b. Inr (\<not> py_eq a b))"
| "CMP Lt = Some (\<lambda>a b. rbind (num_of a) (\<lambda>x. rbind (num_of b) (\<lambda>y. Inr (x < y))))"
| "CMP LtE = Some (\<lambda>a b. rbind (num_of a) (\<lambda>x. rbind (num_of b) (\<lambda>y. Inr (x \<le> y))))"
| "CMP Gt = Some (\<lambda>a b. rbind (num_of a) (\<lambda>x. rbind (num_of b) (\<lambda>y. Inr (x > y))))"
| "CMP GtE = Some (\<lambda>a b. rbind (num_of a) (\<lambda>x. rbind (num_of b) (\<lambda>y. Inr (x \<ge> y))))"
| "CMP In = Some (\<lambda>a b. contains b a)"
| "CMP NotIn = Some (\<lambda>a b. rbind (contains b a) (\<lambda>c. Inr (\<not> c)))"
| "CMP Is = None"
| "CMP IsNot = None"

definition LITERALS :: "(string \<times> pyv) list" where
  "LITERALS = [(''true'', PBool True), (''false'', PBool False), (''null'', PNone), (''none'', PNone)]"

definition name_value :: "(string \<times> pyv) list \<Rightarrow> string \<Rightarrow> pyv result" where
  "name_value refs x =
     (case map_of refs x of
        Some v \<Rightarrow> Inr v
      | None \<Rightarrow> of_option ExpressionError (map_of LITERALS (lower x)))"

text \<open>\<open>_walk\<close>; every operand of \<open>and\<close> and \<open>or\<close> is evaluated.\<close>

fun walk_expr :: "(string \<times> pyv) list \<Rightarrow> expr \<Rightarrow> pyv result"
  and walk_exprs :: "(string \<times> pyv) list \<Rightarrow> expr list \<Rightarrow> pyv list result"
  and walk_cmps :: "(string \<times> pyv) list \<Rightarrow> pyv \<Rightarrow> (cmp \<times> expr) list \<Rightarrow> pyv result" where
  "walk_expr refs (Const v) = Inr v"
| "walk_expr refs (Name x) = name_value refs x"
| "walk_expr refs (And es) = rbind (walk_exprs refs es) (\<lambda>vs. Inr (PBool (list_all truthy vs)))"
| "walk_expr refs (Or es) = rbind (walk_exprs refs es) (\<lambda>vs. Inr (PBool (list_ex truthy vs)))"
| "walk_expr refs (Not e) = rbind (walk_expr refs e) (\<lambda>v. Inr (PBool (\<not> truthy v)))"
| "walk_expr refs (Compare e cs) = rbind (walk_expr refs e) (\<lambda>left. walk_cmps refs left cs)"
| "walk_expr refs (Listing es) = rbind (walk_exprs refs es) (\<lambda>vs. Inr (PList vs))"
| "walk_expr refs Unsupported = Inl ExpressionError"
| "walk_exprs refs [] = Inr []"
| "walk_exprs refs (e # es) = rbind (walk_expr refs e) (\<lambda>v. rbind (walk_exprs refs es) (\<lambda>vs. Inr (v # vs)))"
| "walk_cmps refs left [] = Inr (PBool True)"
| "walk_cmps refs left ((op, e) # cs) =
     (case CMP op of
        None \<Rightarrow> Inl ExpressionError
      | Some fn \<Rightarrow>
          rbind (walk_expr refs e) (\<lambda>right.
          rbind (fn left right) (\<lambda>holds.
          if holds then walk_cmps refs right cs else Inr (PBool False))))"

text \<open>\<open>bind\<close>: each reference becomes a fresh name, bound to what it looks up.\<close>

definition ref_name :: "nat \<Rightarrow> string" where
  "ref_name n = ''__ref'' @ dec_string n"

function bind_refs :: "pyv \<Rightarrow> nat \<Rightarrow> string \<Rightarrow> string \<times> (string \<times> pyv) list" where
  "bind_refs ctx n s =
     (case s of
        [] \<Rightarrow> ([], [])
      | c # cs \<Rightarrow>
          (case ref_at s of
             Some (path, rest) \<Rightarrow>
               (let (src, refs) = bind_refs ctx (Suc n) rest in
                (ref_name n @ src, (ref_name n, lookup ctx path) # refs))
           | None \<Rightarrow> (let (src, refs) = bind_refs ctx n cs in (c # src, refs))))"
  by auto
termination
  by (relation "measure (\<lambda>(ctx, n, s). length s)") (auto dest: ref_at_shorter)

declare bind_refs.simps [simp del]

definition evaluate :: "(string \<Rightarrow> expr option) \<Rightarrow> string \<Rightarrow> pyv \<Rightarrow> bool result" where
  "evaluate parse expr ctx =
     (let (source, refs) = bind_refs ctx 0 expr in
      rbind (of_option ExpressionError (parse source)) (\<lambda>tree.
      rbind (walk_expr refs tree) (\<lambda>v. Inr (truthy v))))"

section \<open>Python's own evaluation\<close>

text \<open>
  The reference: \<open>and\<close> and \<open>or\<close> stop at the first operand that decides, and give that operand.
\<close>

fun py_expr :: "(string \<times> pyv) list \<Rightarrow> expr \<Rightarrow> pyv result"
  and py_exprs :: "(string \<times> pyv) list \<Rightarrow> expr list \<Rightarrow> pyv list result"
  and py_and :: "(string \<times> pyv) list \<Rightarrow> expr list \<Rightarrow> pyv result"
  and py_or :: "(string \<times> pyv) list \<Rightarrow> expr list \<Rightarrow> pyv result"
  and py_cmps :: "(string \<times> pyv) list \<Rightarrow> pyv \<Rightarrow> (cmp \<times> expr) list \<Rightarrow> pyv result" where
  "py_expr refs (Const v) = Inr v"
| "py_expr refs (Name x) = name_value refs x"
| "py_expr refs (And es) = py_and refs es"
| "py_expr refs (Or es) = py_or refs es"
| "py_expr refs (Not e) = rbind (py_expr refs e) (\<lambda>v. Inr (PBool (\<not> truthy v)))"
| "py_expr refs (Compare e cs) = rbind (py_expr refs e) (\<lambda>left. py_cmps refs left cs)"
| "py_expr refs (Listing es) = rbind (py_exprs refs es) (\<lambda>vs. Inr (PList vs))"
| "py_expr refs Unsupported = Inl ExpressionError"
| "py_exprs refs [] = Inr []"
| "py_exprs refs (e # es) = rbind (py_expr refs e) (\<lambda>v. rbind (py_exprs refs es) (\<lambda>vs. Inr (v # vs)))"
| "py_and refs [] = Inr (PBool True)"
| "py_and refs (e # es) =
     rbind (py_expr refs e) (\<lambda>v. if truthy v \<and> es \<noteq> [] then py_and refs es else Inr v)"
| "py_or refs [] = Inr (PBool False)"
| "py_or refs (e # es) =
     rbind (py_expr refs e) (\<lambda>v. if \<not> truthy v \<and> es \<noteq> [] then py_or refs es else Inr v)"
| "py_cmps refs left [] = Inr (PBool True)"
| "py_cmps refs left ((op, e) # cs) =
     (case CMP op of
        None \<Rightarrow> Inl ExpressionError
      | Some fn \<Rightarrow>
          rbind (py_expr refs e) (\<lambda>right.
          rbind (fn left right) (\<lambda>holds.
          if holds then py_cmps refs right cs else Inr (PBool False))))"

text \<open>No \<open>and\<close>, \<open>or\<close> inside a comparison or a list, where their value and not only its truth counts.\<close>

fun plain_expr :: "expr \<Rightarrow> bool" where
  "plain_expr (And es) = False"
| "plain_expr (Or es) = False"
| "plain_expr (Not e) = plain_expr e"
| "plain_expr (Compare e cs) = (plain_expr e \<and> (\<forall>c \<in> set cs. plain_expr (snd c)))"
| "plain_expr (Listing es) = (\<forall>e \<in> set es. plain_expr e)"
| "plain_expr _ = True"

fun truth_positions :: "expr \<Rightarrow> bool" where
  "truth_positions (And es) = (\<forall>e \<in> set es. truth_positions e)"
| "truth_positions (Or es) = (\<forall>e \<in> set es. truth_positions e)"
| "truth_positions (Not e) = truth_positions e"
| "truth_positions e = plain_expr e"

section \<open>Conditions agree with Python\<close>

lemma plain_agrees:
  "plain_expr e \<Longrightarrow> walk_expr refs e = py_expr refs e"
  "(\<And>e. e \<in> set es \<Longrightarrow> plain_expr e) \<Longrightarrow> walk_exprs refs es = py_exprs refs es"
  "(\<And>c. c \<in> set cs \<Longrightarrow> plain_expr (snd c)) \<Longrightarrow> walk_cmps refs left cs = py_cmps refs left cs"
proof (induction refs e and refs es and refs left cs rule: walk_expr_walk_exprs_walk_cmps.induct)
  case (12 refs left op e cs)
  show ?case
  proof (cases "CMP op")
    case (Some fn)
    have e: "walk_expr refs e = py_expr refs e" using 12(1) [OF Some] 12(3) by fastforce
    have cs: "walk_cmps refs right cs = py_cmps refs right cs"
      if "walk_expr refs e = Inr right" "fn left right = Inr holds" holds for right holds
      using 12(2) [OF Some that] 12(3) by simp
    have "rbind (walk_expr refs e) (\<lambda>right. rbind (fn left right) (\<lambda>holds.
        if holds then walk_cmps refs right cs else Inr (PBool False))) =
      rbind (walk_expr refs e) (\<lambda>right. rbind (fn left right) (\<lambda>holds.
        if holds then py_cmps refs right cs else Inr (PBool False)))"
      using cs by (intro rbind_cong refl) auto
    then show ?thesis using Some e by simp
  qed simp
qed (auto intro!: rbind_cong)

lemma truth_agrees:
  "truth_positions e \<Longrightarrow> walk_expr refs e = Inr v \<Longrightarrow> \<exists>v'. py_expr refs e = Inr v' \<and> truthy v' = truthy v"
proof (induction e arbitrary: v rule: truth_positions.induct)
  case (1 es)
  then obtain vs where vs: "walk_exprs refs es = Inr vs" "v = PBool (list_all truthy vs)"
    by (auto simp: result_iff)
  have "\<exists>v'. py_and refs es = Inr v' \<and> truthy v' = list_all truthy vs"
    using vs(1) 1(1,2)
  proof (induction es arbitrary: vs)
    case (Cons e es)
    then obtain w ws where w: "walk_expr refs e = Inr w" "walk_exprs refs es = Inr ws" "vs = w # ws"
      by (auto simp: result_iff)
    obtain w' where "py_expr refs e = Inr w'" "truthy w' = truthy w"
      using Cons.prems(2) [of e] Cons.prems(3) w(1) by auto
    moreover have "\<exists>v'. py_and refs es = Inr v' \<and> truthy v' = list_all truthy ws"
      using Cons.IH [OF w(2)] Cons.prems(2,3) by simp
    ultimately show ?case using w by (cases "es = []") auto
  qed simp
  then show ?case using vs by simp
next
  case (2 es)
  then obtain vs where vs: "walk_exprs refs es = Inr vs" "v = PBool (list_ex truthy vs)"
    by (auto simp: result_iff)
  have "\<exists>v'. py_or refs es = Inr v' \<and> truthy v' = list_ex truthy vs"
    using vs(1) 2(1,2)
  proof (induction es arbitrary: vs)
    case (Cons e es)
    then obtain w ws where w: "walk_expr refs e = Inr w" "walk_exprs refs es = Inr ws" "vs = w # ws"
      by (auto simp: result_iff)
    obtain w' where "py_expr refs e = Inr w'" "truthy w' = truthy w"
      using Cons.prems(2) [of e] Cons.prems(3) w(1) by auto
    moreover have "\<exists>v'. py_or refs es = Inr v' \<and> truthy v' = list_ex truthy ws"
      using Cons.IH [OF w(2)] Cons.prems(2,3) by simp
    ultimately show ?case using w by (cases "es = []") auto
  qed simp
  then show ?case using vs by simp
next
  case (3 e)
  then show ?case by (fastforce simp: result_iff)
qed (auto simp: plain_agrees(1) simp del: walk_expr.simps py_expr.simps)

lemma walk_errors:
  "walk_expr refs e = Inl err \<Longrightarrow> err = ExpressionError \<or> err = TypeError"
  "walk_exprs refs es = Inl err \<Longrightarrow> err = ExpressionError \<or> err = TypeError"
  "walk_cmps refs left cs = Inl err \<Longrightarrow> err = ExpressionError \<or> err = TypeError"
proof -
  have num: "num_of v = Inl err \<Longrightarrow> err = ExpressionError" for v err
    by (auto simp: num_of_def split: sum.splits)
  have con: "contains c v = Inl err \<Longrightarrow> err = TypeError" for c v err
    by (auto simp: contains_def split: pyv.splits)
  have cmp: "CMP op = Some fn \<Longrightarrow> fn a b = Inl err \<Longrightarrow> err = ExpressionError \<or> err = TypeError" for op fn a b err
    by (cases op) (auto simp: result_iff dest: num con)
  have name: "name_value refs x = Inl err \<Longrightarrow> err = ExpressionError" for refs x err
    by (auto simp: name_value_def result_iff split: option.splits)
  show "walk_expr refs e = Inl err \<Longrightarrow> err = ExpressionError \<or> err = TypeError"
    "walk_exprs refs es = Inl err \<Longrightarrow> err = ExpressionError \<or> err = TypeError"
    "walk_cmps refs left cs = Inl err \<Longrightarrow> err = ExpressionError \<or> err = TypeError"
    by (induction refs e and refs es and refs left cs rule: walk_expr_walk_exprs_walk_cmps.induct)
      (auto simp: result_iff dest: name cmp split: option.splits if_splits)
qed


definition demo_ctx :: pyv where
  "demo_ctx = PDict [(''triage'', PDict [(''flaky'', PBool True), (''score'', PInt 7), (''tags'', PList [PStr ''p0''])])]"

text \<open>\<open>${triage.flaky} and not ${triage.owner}\<close>, with the tree that Python parses it to.\<close>

definition demo_tree :: expr where
  "demo_tree = And [Name ''__ref0'', Not (Name ''__ref1'')]"


text \<open>Comparing the order of a field that is missing fails the condition, also behind a guard that
  Python would stop at.\<close>

theorem guard_does_not_protect:
  "let parse = (\<lambda>src. Some (And [Compare (Name ''__ref0'') [(NotEq, Name ''null'')],
                              Compare (Name ''__ref0'') [(Gt, Const (PInt 3))]]));
       tree = And [Compare (Name ''__ref0'') [(NotEq, Name ''null'')], Compare (Name ''__ref0'') [(Gt, Const (PInt 3))]]
   in evaluate parse ''${a.b}'' (PDict []) = Inl ExpressionError \<and>
      py_expr [(''__ref0'', PNone)] tree = Inr (PBool False)"
  by (simp add: evaluate_def bind_refs.simps ref_at_def ws_char_def is_ws_def is_path_char_def is_alnum_def
      is_lower_alnum_def lower_char_def lookup_def ref_name_def name_value_def num_of_def LITERALS_def lower_def
      dec_string_def Let_def)

section \<open>Rendering\<close>

text \<open>Values without a dollar sign in any text (the keys of dictionaries are never rendered).\<close>

fun dollar_free :: "pyv \<Rightarrow> bool" where
  "dollar_free (PStr s) = (CHR ''$'' \<notin> set s)"
| "dollar_free (PList vs) = (\<forall>v \<in> set vs. dollar_free v)"
| "dollar_free (PDict kvs) = (\<forall>kv \<in> set kvs. dollar_free (snd kv))"
| "dollar_free _ = True"

lemma ref_at_dollar: "CHR ''$'' \<notin> set s \<Longrightarrow> ref_at s = None"
  by (cases s) (auto simp: ref_at_def numeral_2_eq_2)

lemma sub_refs_dollar: "CHR ''$'' \<notin> set s \<Longrightarrow> sub_refs f s = s"
  by (induction s) (simp_all add: sub_refs.simps ref_at_dollar)

lemma set_strip_text: "set (strip_text s) \<subseteq> set s"
proof -
  have "set (strip t) \<subseteq> set t" for t
    by (auto simp: strip_def dest!: set_dropWhileD)
  from this [of "u s"] have "set (strip (u s)) \<subseteq> of_char ` set s" by (simp add: u_def)
  then show ?thesis unfolding strip_text_def by fastforce
qed

lemma render_dollar_free:
  "dollar_free v \<Longrightarrow> render fl ctx v = v"
  "\<forall>v \<in> set vs. dollar_free v \<Longrightarrow> render_all fl ctx vs = vs"
  "\<forall>kv \<in> set kvs. dollar_free (snd kv) \<Longrightarrow> render_items fl ctx kvs = kvs"
proof (induction fl ctx v and fl ctx vs and fl ctx kvs rule: render_render_all_render_items.induct)
  case (1 fl ctx s)
  then have "ref_at (strip_text s) = None" using set_strip_text [of s] by (intro ref_at_dollar) auto
  then show ?case using 1 by (simp add: full_ref_def sub_refs_dollar)
qed auto

lemma ref_at_path:
  assumes "path \<noteq> []" and "list_all is_path_char path"
  shows "ref_at (''${'' @ path @ ''}'') = Some (path, [])"
proof -
  have ws: "\<not> ws_char c" if "is_path_char c" for c
    using that by (auto simp: ws_char_def is_ws_def is_path_char_def is_alnum_def is_lower_alnum_def
        lower_char_def Let_def split: if_splits)
  have "\<not> is_path_char CHR ''}''" by code_simp
  then have t: "takeWhile is_path_char (path @ ''}'') = path"
    using assms(2) by (simp add: list_all_iff)
  have "\<not> ws_char CHR ''}''" by code_simp
  moreover have "dropWhile ws_char (path @ ''}'') = path @ ''}''"
    using assms ws by (cases path) auto
  ultimately show ?thesis using assms(1) by (simp add: ref_at_def t)
qed

lemma is_path_char_plain: "is_path_char c \<Longrightarrow> \<not> is_ws (of_char c)"
  by (auto simp: is_ws_def is_path_char_def is_alnum_def is_lower_alnum_def lower_char_def Let_def split: if_splits)

lemma strip_text_id:
  assumes "s \<noteq> []" and "\<not> is_ws (of_char (hd s))" and "\<not> is_ws (of_char (last s))"
  shows "strip_text s = s"
proof -
  have "strip (u s) = u s" using assms by (intro strip_id) (simp_all add: u_def hd_map last_map)
  then show ?thesis by (simp add: strip_text_def u_def comp_def)
qed

text \<open>Rendering leaves values without references as they are, and a text that is exactly one
  reference becomes the value it looks up, whatever its type.\<close>

theorem render_references:
  assumes "path \<noteq> []" and "list_all is_path_char path"
  shows "render fl ctx (PStr (''${'' @ path @ ''}'')) = lookup ctx path \<and>
    (\<forall>v. dollar_free v \<longrightarrow> render fl ctx v = v)"
proof -
  have "strip_text (''${'' @ path @ ''}'') = ''${'' @ path @ ''}''"
    by (rule strip_text_id) (simp_all add: is_ws_def)
  then show ?thesis using ref_at_path [OF assms] render_dollar_free(1) by (simp add: full_ref_def)
qed

theorem render_references_witness:
  "render (\<lambda>q. []) demo_ctx (PStr ''${triage.tags}'') = PList [PStr ''p0'']"
proof -
  have "list_all is_path_char ''triage.tags''" by code_simp
  moreover have "lookup demo_ctx ''triage.tags'' = PList [PStr ''p0'']" by code_simp
  ultimately show ?thesis using render_references [of "''triage.tags''" "\<lambda>q. []" demo_ctx] by simp
qed

end
