(* ===== verification/Secrets.thy ===== *)
theory Secrets
  imports Hub_Spec
begin

text \<open>
  Secrets in stored documents (\<open>payprobe_common/crypto.py\<close>): which keys are secret, encryption of a
  document at rest, the masks an API shows and how an update that carries masks is merged; and the
  masking of tool results (\<open>mask_secrets\<close> of \<open>agent_toolkit.py\<close>). The cipher and the hash of a
  fingerprint are parameters. The mask character is written with its three bytes of UTF-8.
\<close>

section \<open>Secret keys\<close>

definition SECRET_EXACT :: "string list" where
  "SECRET_EXACT =
     [''password'', ''passwd'', ''secret'', ''secret_key'', ''secretkey'', ''api_key'',
      ''apikey'', ''token'', ''passphrase'', ''private_key'', ''credential'', ''credentials'',
      ''client_secret'', ''auth_token'', ''pin'', ''pin_key'', ''kek'', ''zmk'', ''tmk'',
      ''nkey_seed'', ''creds'', ''user_jwt'',
      ''mak'', ''mac_key'', ''cvk'', ''pvk'', ''mdk'', ''imk'', ''bdk'', ''zpk'', ''session_key'',
      ''dsn'']"

definition SECRET_SUFFIXES :: "string list" where
  "SECRET_SUFFIXES =
     [''_password'', ''_secret'', ''_token'', ''_api_key'', ''_apikey'', ''_passphrase'', ''_private_key'', ''_credential'']"

definition SECRET_DENY :: "string list" where
  "SECRET_DENY = [''public_key'', ''key'', ''keys'', ''key_id'', ''kid'', ''primary_key'']"

definition SECRET_IN_CONTEXT :: "(string \<times> string list) list" where
  "SECRET_IN_CONTEXT = [(''mac'', [''key''])]"

definition is_secret_key :: "string \<Rightarrow> string option \<Rightarrow> bool" where
  "is_secret_key name parent =
     (let n = lower name in
      if (case parent of
            None \<Rightarrow> False
          | Some p \<Rightarrow> p \<noteq> [] \<and> n \<in> set (or_default [] (map_of SECRET_IN_CONTEXT (lower p)))) then True
      else if n \<in> set SECRET_DENY then False
      else if n \<in> set SECRET_EXACT then True
      else list_ex (\<lambda>suf. suffix suf n) SECRET_SUFFIXES)"

section \<open>Encryption at rest\<close>

definition PREFIX :: string where
  "PREFIX = ''enc:v1:''"

definition is_encrypted :: "string \<Rightarrow> bool" where
  "is_encrypted s \<longleftrightarrow> prefix PREFIX s"

text \<open>The box: disabled without a key, otherwise the cipher and its inverse.\<close>

type_synonym box = "((string \<Rightarrow> string) \<times> (string \<Rightarrow> string)) option"

definition encrypt :: "box \<Rightarrow> string \<Rightarrow> string" where
  "encrypt box s =
     (case box of None \<Rightarrow> s | Some (lock, unlock) \<Rightarrow> if is_encrypted s then s else PREFIX @ lock s)"

definition decrypt :: "box \<Rightarrow> string \<Rightarrow> string" where
  "decrypt box s =
     (if \<not> is_encrypted s then s
      else case box of None \<Rightarrow> s | Some (lock, unlock) \<Rightarrow> unlock (drop (length PREFIX) s))"

text \<open>\<open>_walk\<close>.\<close>

fun walk_doc :: "box \<Rightarrow> bool \<Rightarrow> bool \<Rightarrow> string option \<Rightarrow> pyv \<Rightarrow> pyv"
  and walk_docs :: "box \<Rightarrow> bool \<Rightarrow> bool \<Rightarrow> string option \<Rightarrow> pyv list \<Rightarrow> pyv list"
  and walk_fields :: "box \<Rightarrow> bool \<Rightarrow> string option \<Rightarrow> (string \<times> pyv) list \<Rightarrow> (string \<times> pyv) list" where
  "walk_doc box encr secret_ctx parent (PDict kvs) = PDict (walk_fields box encr parent kvs)"
| "walk_doc box encr secret_ctx parent (PList vs) = PList (walk_docs box encr secret_ctx parent vs)"
| "walk_doc box encr secret_ctx parent (PStr s) =
     PStr (if encr then (if secret_ctx then encrypt box s else s) else decrypt box s)"
| "walk_doc box encr secret_ctx parent v = v"
| "walk_docs box encr secret_ctx parent [] = []"
| "walk_docs box encr secret_ctx parent (v # vs) =
     walk_doc box encr secret_ctx parent v # walk_docs box encr secret_ctx parent vs"
| "walk_fields box encr parent [] = []"
| "walk_fields box encr parent ((k, v) # kvs) =
     (k, walk_doc box encr (is_secret_key k parent) (Some k) v) # walk_fields box encr parent kvs"

definition encrypt_doc :: "box \<Rightarrow> pyv \<Rightarrow> pyv" where
  "encrypt_doc box d = (if box = None then d else walk_doc box True False None d)"

definition decrypt_doc :: "box \<Rightarrow> pyv \<Rightarrow> pyv" where
  "decrypt_doc box d = walk_doc box False False None d"

section \<open>Masks\<close>

definition MASK_PREFIX :: string where
  "MASK_PREFIX = concat (replicate 4 [CHR 0xE2, CHR 0x80, CHR 0xA2])"

text \<open>\<open>fingerprint\<close>: the first eight hexadecimal digits of the hash of a nonempty text.\<close>

definition fingerprint :: "(string \<Rightarrow> string) \<Rightarrow> string \<Rightarrow> string" where
  "fingerprint sha v = (if v = [] then [] else take 8 (sha v))"

definition mask_value :: "(string \<Rightarrow> string) \<Rightarrow> string \<Rightarrow> string" where
  "mask_value sha v = (if v = [] then [] else MASK_PREFIX @ fingerprint sha v)"

definition is_masked :: "pyv \<Rightarrow> bool" where
  "is_masked v = (case v of PStr s \<Rightarrow> prefix MASK_PREFIX s | _ \<Rightarrow> False)"

fun mask_doc :: "(string \<Rightarrow> string) \<Rightarrow> bool \<Rightarrow> string option \<Rightarrow> pyv \<Rightarrow> pyv"
  and mask_docs :: "(string \<Rightarrow> string) \<Rightarrow> bool \<Rightarrow> string option \<Rightarrow> pyv list \<Rightarrow> pyv list"
  and mask_fields :: "(string \<Rightarrow> string) \<Rightarrow> string option \<Rightarrow> (string \<times> pyv) list \<Rightarrow> (string \<times> pyv) list" where
  "mask_doc sha secret_ctx parent (PDict kvs) = PDict (mask_fields sha parent kvs)"
| "mask_doc sha secret_ctx parent (PList vs) = PList (mask_docs sha secret_ctx parent vs)"
| "mask_doc sha secret_ctx parent (PStr s) =
     (if secret_ctx \<and> s \<noteq> [] then if is_masked (PStr s) then PStr s else PStr (mask_value sha s) else PStr s)"
| "mask_doc sha secret_ctx parent v = v"
| "mask_docs sha secret_ctx parent [] = []"
| "mask_docs sha secret_ctx parent (v # vs) =
     mask_doc sha secret_ctx parent v # mask_docs sha secret_ctx parent vs"
| "mask_fields sha parent [] = []"
| "mask_fields sha parent ((k, v) # kvs) =
     (k, mask_doc sha (is_secret_key k parent) (Some k) v) # mask_fields sha parent kvs"

fun merge_masked :: "pyv \<Rightarrow> pyv \<Rightarrow> pyv"
  and merge_list :: "pyv list \<Rightarrow> pyv list \<Rightarrow> pyv list"
  and merge_fields :: "(string \<times> pyv) list \<Rightarrow> (string \<times> pyv) list \<Rightarrow> (string \<times> pyv) list" where
  "merge_masked (PDict kvs) stored =
     (case stored of PDict kvs' \<Rightarrow> PDict (merge_fields kvs kvs') | _ \<Rightarrow> PDict kvs)"
| "merge_masked (PList vs) stored =
     (case stored of PList vs' \<Rightarrow> PList (merge_list vs vs') | _ \<Rightarrow> PList vs)"
| "merge_masked (PStr s) stored =
     (if is_masked (PStr s) then (case stored of PStr t \<Rightarrow> PStr t | _ \<Rightarrow> PStr s) else PStr s)"
| "merge_masked v stored = v"
| "merge_list [] stored = []"
| "merge_list (v # vs) stored =
     (case stored of
        [] \<Rightarrow> merge_masked v PNone # merge_list vs []
      | w # ws \<Rightarrow> merge_masked v w # merge_list vs ws)"
| "merge_fields [] stored = []"
| "merge_fields ((k, v) # kvs) stored = (k, merge_masked v (get stored k PNone)) # merge_fields kvs stored"

text \<open>\<open>mask_secrets\<close> of the agent toolkit.\<close>

fun mask_secrets :: "(string \<Rightarrow> string) \<Rightarrow> pyv \<Rightarrow> pyv"
  and mask_secrets_list :: "(string \<Rightarrow> string) \<Rightarrow> pyv list \<Rightarrow> pyv list"
  and mask_secrets_fields :: "(string \<Rightarrow> string) \<Rightarrow> (string \<times> pyv) list \<Rightarrow> (string \<times> pyv) list" where
  "mask_secrets sha (PDict kvs) = PDict (mask_secrets_fields sha kvs)"
| "mask_secrets sha (PList vs) = PList (mask_secrets_list sha vs)"
| "mask_secrets sha v = v"
| "mask_secrets_list sha [] = []"
| "mask_secrets_list sha (v # vs) = mask_secrets sha v # mask_secrets_list sha vs"
| "mask_secrets_fields sha [] = []"
| "mask_secrets_fields sha ((k, v) # kvs) =
     (k, case v of
           PStr s \<Rightarrow> if is_secret_key k None \<and> s \<noteq> []
                     then PStr (''<secret:'' @ fingerprint sha s @ ''>'') else mask_secrets sha v
         | _ \<Rightarrow> mask_secrets sha v) # mask_secrets_fields sha kvs"

section \<open>The texts under secret keys\<close>

fun secret_texts :: "bool \<Rightarrow> string option \<Rightarrow> pyv \<Rightarrow> string list"
  and secret_texts_list :: "bool \<Rightarrow> string option \<Rightarrow> pyv list \<Rightarrow> string list"
  and secret_texts_fields :: "string option \<Rightarrow> (string \<times> pyv) list \<Rightarrow> string list" where
  "secret_texts secret_ctx parent (PDict kvs) = secret_texts_fields parent kvs"
| "secret_texts secret_ctx parent (PList vs) = secret_texts_list secret_ctx parent vs"
| "secret_texts secret_ctx parent (PStr s) = (if secret_ctx then [s] else [])"
| "secret_texts secret_ctx parent _ = []"
| "secret_texts_list secret_ctx parent [] = []"
| "secret_texts_list secret_ctx parent (v # vs) =
     secret_texts secret_ctx parent v @ secret_texts_list secret_ctx parent vs"
| "secret_texts_fields parent [] = []"
| "secret_texts_fields parent ((k, v) # kvs) =
     secret_texts (is_secret_key k parent) (Some k) v @ secret_texts_fields parent kvs"

text \<open>Every text of a document satisfies \<open>P\<close>.\<close>

fun all_texts :: "(string \<Rightarrow> bool) \<Rightarrow> pyv \<Rightarrow> bool"
  and all_texts_list :: "(string \<Rightarrow> bool) \<Rightarrow> pyv list \<Rightarrow> bool"
  and all_texts_fields :: "(string \<Rightarrow> bool) \<Rightarrow> (string \<times> pyv) list \<Rightarrow> bool" where
  "all_texts P (PDict kvs) = all_texts_fields P kvs"
| "all_texts P (PList vs) = all_texts_list P vs"
| "all_texts P (PStr s) = P s"
| "all_texts P _ = True"
| "all_texts_list P [] = True"
| "all_texts_list P (v # vs) = (all_texts P v \<and> all_texts_list P vs)"
| "all_texts_fields P [] = True"
| "all_texts_fields P ((k, v) # kvs) = (all_texts P v \<and> all_texts_fields P kvs)"

text \<open>The keys of every dictionary are distinct, as they are in Python.\<close>

fun wf_doc :: "pyv \<Rightarrow> bool"
  and wf_docs :: "pyv list \<Rightarrow> bool"
  and wf_fields :: "(string \<times> pyv) list \<Rightarrow> bool" where
  "wf_doc (PDict kvs) = wf_fields kvs"
| "wf_doc (PList vs) = wf_docs vs"
| "wf_doc _ = True"
| "wf_docs [] = True"
| "wf_docs (v # vs) = (wf_doc v \<and> wf_docs vs)"
| "wf_fields [] = True"
| "wf_fields ((k, v) # kvs) = (k \<notin> fst ` set kvs \<and> wf_doc v \<and> wf_fields kvs)"

section \<open>Encryption round trip\<close>

lemma decrypt_encrypt: "unlock (lock s) = s \<Longrightarrow> \<not> is_encrypted s \<Longrightarrow> decrypt (Some (lock, unlock)) (encrypt (Some (lock, unlock)) s) = s"
  by (simp add: decrypt_def encrypt_def is_encrypted_def)

lemma encrypt_tagged: "is_encrypted (encrypt (Some (lock, unlock)) s)"
  by (simp add: encrypt_def is_encrypted_def)

lemma decrypt_walk:
  assumes "\<And>s. unlock (lock s) = s"
  shows "all_texts (\<lambda>s. \<not> is_encrypted s) d \<Longrightarrow>
      walk_doc (Some (lock, unlock)) False c' p' (walk_doc (Some (lock, unlock)) True c p d) = d"
    and "all_texts_list (\<lambda>s. \<not> is_encrypted s) ds \<Longrightarrow>
      walk_docs (Some (lock, unlock)) False c' p' (walk_docs (Some (lock, unlock)) True c p ds) = ds"
    and "all_texts_fields (\<lambda>s. \<not> is_encrypted s) kvs \<Longrightarrow>
      walk_fields (Some (lock, unlock)) False p' (walk_fields (Some (lock, unlock)) True p kvs) = kvs"
proof (induction "\<lambda>s. \<not> is_encrypted s" d and "\<lambda>s. \<not> is_encrypted s" ds and "\<lambda>s. \<not> is_encrypted s" kvs
    arbitrary: c p c' p' and c p c' p' and p p' rule: all_texts_all_texts_list_all_texts_fields.induct)
  case (3 s)
  then show ?case using decrypt_encrypt [of unlock lock s] assms by (auto simp: decrypt_def)
qed auto

lemma walk_sealed:
  "\<forall>s \<in> set (secret_texts c p (walk_doc (Some (lock, unlock)) True c p d)). is_encrypted s"
  "\<forall>s \<in> set (secret_texts_list c p (walk_docs (Some (lock, unlock)) True c p ds)). is_encrypted s"
  "\<forall>s \<in> set (secret_texts_fields p (walk_fields (Some (lock, unlock)) True p kvs)). is_encrypted s"
  by (induction c p d and c p ds and p kvs rule: secret_texts_secret_texts_list_secret_texts_fields.induct)
    (auto simp: encrypt_tagged)

lemma mask_sealed:
  "\<forall>s \<in> set (secret_texts c p (mask_doc sha c p d)). s = [] \<or> is_masked (PStr s)"
  "\<forall>s \<in> set (secret_texts_list c p (mask_docs sha c p ds)). s = [] \<or> is_masked (PStr s)"
  "\<forall>s \<in> set (secret_texts_fields p (mask_fields sha p kvs)). s = [] \<or> is_masked (PStr s)"
  by (induction c p d and c p ds and p kvs rule: secret_texts_secret_texts_list_secret_texts_fields.induct)
    (auto simp: mask_value_def is_masked_def)

lemma get_later: "k \<notin> fst ` set kvs \<Longrightarrow> k' \<in> fst ` set kvs \<Longrightarrow> get ((k, v) # kvs) k' d = get kvs k' d"
  by auto

lemma merge_fields_cong:
  "(\<And>k. k \<in> fst ` set kvs \<Longrightarrow> get stored k PNone = get stored' k PNone) \<Longrightarrow>
     merge_fields kvs stored = merge_fields kvs stored'"
  by (induction kvs) auto

lemma map_fst_mask_fields: "map fst (mask_fields sha p kvs) = map fst kvs"
  by (induction kvs) auto

lemma fst_mask_fields: "fst ` set (mask_fields sha p kvs) = fst ` set kvs"
  using arg_cong [OF map_fst_mask_fields, of set] by simp

lemma merge_mask:
  "wf_doc d \<Longrightarrow> merge_masked (mask_doc sha c p d) d = d"
  "wf_docs ds \<Longrightarrow> merge_list (mask_docs sha c p ds) ds = ds"
  "wf_fields kvs \<Longrightarrow> merge_fields (mask_fields sha p kvs) kvs = kvs"
proof (induction c p d and c p ds and p kvs rule: secret_texts_secret_texts_list_secret_texts_fields.induct)
  case (3 c p s)
  then show ?case by (auto simp: is_masked_def mask_value_def)
next
  case (8 p k v kvs)
  have "merge_fields (mask_fields sha p kvs) ((k, v) # kvs) = merge_fields (mask_fields sha p kvs) kvs"
    using 8(3) by (intro merge_fields_cong) (auto simp: fst_mask_fields)
  then show ?case using 8 by simp
qed auto

section \<open>Properties\<close>

lemma encrypt_walk_again:
  "walk_doc (Some (lock, unlock)) True c p (walk_doc (Some (lock, unlock)) True c p d) = walk_doc (Some (lock, unlock)) True c p d"
  "walk_docs (Some (lock, unlock)) True c p (walk_docs (Some (lock, unlock)) True c p ds) = walk_docs (Some (lock, unlock)) True c p ds"
  "walk_fields (Some (lock, unlock)) True p (walk_fields (Some (lock, unlock)) True p kvs) = walk_fields (Some (lock, unlock)) True p kvs"
  by (induction c p d and c p ds and p kvs rule: secret_texts_secret_texts_list_secret_texts_fields.induct)
    (auto simp: encrypt_def is_encrypted_def)


definition demo_connection :: pyv where
  "demo_connection = PDict [(''host'', PStr ''switch''), (''password'', PStr ''hunter2''),
     (''mac'', PDict [(''key'', PStr ''0123456789ABCDEF''), (''length'', PInt 16)])]"


text \<open>What the API shows of a document keeps no secret text, and sending it back unchanged as an
  update keeps what is stored.\<close>

theorem masked_document_round_trip:
  assumes "wf_doc d"
  shows "merge_masked (mask_doc sha False None d) d = d \<and>
    (\<forall>s \<in> set (secret_texts False None (mask_doc sha False None d)). s = [] \<or> is_masked (PStr s))"
  using merge_mask(1) [OF assms] mask_sealed(1) by blast

theorem masked_document_round_trip_witness:
  "merge_masked (mask_doc (\<lambda>s. ''abcdef0123'') False None demo_connection) demo_connection = demo_connection"
  using masked_document_round_trip [of demo_connection] by (simp add: demo_connection_def)

text \<open>The masking of tool results does not know the key of a \<open>mac\<close> block, which is secret only under
  that parent: it reaches the model in plain text, although \<open>mask_doc\<close> hides it.\<close>

theorem mask_secrets_shows_mac_key:
  "mask_secrets sha (PDict [(''mac'', PDict [(''key'', PStr s)])]) = PDict [(''mac'', PDict [(''key'', PStr s)])] \<and>
   secret_texts False None (PDict [(''mac'', PDict [(''key'', PStr s)])]) = [s]"
  by (simp add: is_secret_key_def SECRET_IN_CONTEXT_def SECRET_DENY_def lower_def lower_char_def)

text \<open>Likewise for the elements of a list under a secret key.\<close>

theorem mask_secrets_shows_lists:
  "mask_secrets sha (PDict [(''token'', PList [PStr s])]) = PDict [(''token'', PList [PStr s])]"
  by simp

end
