(* ===== verification/Resilience.thy ===== *)
theory Resilience
  imports Py_Values
begin

text \<open>
  Resilience scoring (\<open>orchestrator/api/resilience.py\<close>): the samples of a chaos run are folded into
  stages, and the stages into component scores, gates, a score, a grade and a verdict. Floats are
  rational numbers; \<open>round\<close> rounds halves to even.
\<close>

section \<open>Samples and stages\<close>

text \<open>A sample, with the defaults of the missing keys filled in; \<open>p95\<close> is 0 when it is missing or null.\<close>

record sample =
  sm_stage :: string
  sm_t :: rat
  sm_client_received :: int
  sm_client_errors :: int
  sm_sim_faults :: int
  sm_sim_received :: int
  sm_p95 :: rat

record thresholds =
  min_availability_ratio :: rat
  min_recovery_ratio :: rat
  max_latency_multiple :: rat
  pass_score :: rat

definition default_thresholds :: thresholds where
  "default_thresholds = \<lparr>min_availability_ratio = 9 / 10, min_recovery_ratio = 98 / 100,
     max_latency_multiple = 4, pass_score = 70\<rparr>"

definition thresholds_from_dict :: "(string \<times> pyv) list \<Rightarrow> thresholds result" where
  "thresholds_from_dict d =
     rbind (float_of (get d ''min_availability_ratio'' (PFloat (min_availability_ratio default_thresholds)))) (\<lambda>a.
     rbind (float_of (get d ''min_recovery_ratio'' (PFloat (min_recovery_ratio default_thresholds)))) (\<lambda>r.
     rbind (float_of (get d ''max_latency_multiple'' (PFloat (max_latency_multiple default_thresholds)))) (\<lambda>m.
     rbind (float_of (get d ''pass_score'' (PFloat (pass_score default_thresholds)))) (\<lambda>p.
     Inr \<lparr>min_availability_ratio = a, min_recovery_ratio = r, max_latency_multiple = m, pass_score = p\<rparr>))))"

record stage =
  sg_label :: string
  sg_client_received :: int
  sg_client_errors :: int
  sg_sim_faults :: int
  sg_sim_received :: int
  sg_p95_max :: rat
  sg_p95_samples :: "rat list"
  sg_seconds :: rat

text \<open>\<open>round(q, n)\<close>.\<close>

definition half_even :: "rat \<Rightarrow> int" where
  "half_even q =
     (let f = \<lfloor>q\<rfloor>; d = q - of_int f in
      if d < 1 / 2 then f else if 1 / 2 < d then f + 1 else if even f then f else f + 1)"

definition py_round :: "nat \<Rightarrow> rat \<Rightarrow> rat" where
  "py_round n q = of_int (half_even (q * 10 ^ n)) / 10 ^ n"

definition client_total :: "stage \<Rightarrow> int" where
  "client_total s = sg_client_received s + sg_client_errors s"

definition success_rate :: "stage \<Rightarrow> rat" where
  "success_rate s = (if client_total s \<noteq> 0 then of_int (sg_client_received s) / of_int (client_total s) else 0)"

definition error_rate :: "stage \<Rightarrow> rat" where
  "error_rate s = (if client_total s \<noteq> 0 then of_int (sg_client_errors s) / of_int (client_total s) else 0)"

definition fault_rate :: "stage \<Rightarrow> rat" where
  "fault_rate s = (if sg_sim_received s \<noteq> 0 then of_int (sg_sim_faults s) / of_int (sg_sim_received s) else 0)"

definition stage_p95 :: "stage \<Rightarrow> rat" where
  "stage_p95 s =
     (if sg_p95_samples s \<noteq> []
      then py_round 2 (sum_list (sg_p95_samples s) / of_nat (length (sg_p95_samples s))) else 0)"

definition clamp01 :: "rat \<Rightarrow> rat" where
  "clamp01 x = (if x < 0 then 0 else if x > 1 then 1 else x)"

text \<open>The delta of one stage; its rows are not empty.\<close>

definition aggregate_stage :: "string \<Rightarrow> sample list \<Rightarrow> stage" where
  "aggregate_stage label rows =
     (let rows = sort_key sm_t rows; first = hd rows; final = last rows in
      \<lparr>sg_label = label,
       sg_client_received = max 0 (sm_client_received final - sm_client_received first),
       sg_client_errors = max 0 (sm_client_errors final - sm_client_errors first),
       sg_sim_faults = max 0 (sm_sim_faults final - sm_sim_faults first),
       sg_sim_received = max 0 (sm_sim_received final - sm_sim_received first),
       sg_p95_max = Max (set (map sm_p95 rows)),
       sg_p95_samples = filter (\<lambda>p. p \<noteq> 0) (map sm_p95 rows),
       sg_seconds = sm_t final - sm_t first\<rparr>)"

text \<open>The stages in the order of their first sample.\<close>

definition stage_labels :: "sample list \<Rightarrow> string list" where
  "stage_labels samples = firsts (map sm_stage samples)"

definition aggregate_stages :: "sample list \<Rightarrow> (string \<times> stage) list" where
  "aggregate_stages samples =
     map (\<lambda>l. (l, aggregate_stage l (filter (\<lambda>s. sm_stage s = l) samples))) (stage_labels samples)"

definition grade_of :: "rat \<Rightarrow> string" where
  "grade_of score =
     (if score \<ge> 95 then ''A+'' else if score \<ge> 90 then ''A'' else if score \<ge> 80 then ''B''
      else if score \<ge> 70 then ''C'' else if score \<ge> 55 then ''D'' else ''F'')"

section \<open>Components and gates\<close>

record gate =
  gt_id :: string
  gt_value :: rat
  gt_threshold :: rat
  gt_passed :: bool

text \<open>One component of the score: its value, the gate it adds and the note it adds, if any.\<close>

type_synonym component = "rat \<times> gate list \<times> string list"

definition percent :: "rat \<Rightarrow> rat" where
  "percent x = py_round 1 (clamp01 x * 100)"

definition ratio_to :: "rat \<Rightarrow> rat \<Rightarrow> rat" where
  "ratio_to x base = (if base \<noteq> 0 then x / base else 0)"

definition availability :: "thresholds \<Rightarrow> rat \<Rightarrow> stage option \<Rightarrow> component" where
  "availability th base_success storm =
     (case storm of
        Some s \<Rightarrow>
          if client_total s \<noteq> 0
          then (percent (ratio_to (success_rate s) base_success),
                [\<lparr>gt_id = ''availability'', gt_value = py_round 4 (success_rate s),
                  gt_threshold = py_round 4 (base_success * min_availability_ratio th),
                  gt_passed = (success_rate s \<ge> base_success * min_availability_ratio th)\<rparr>], [])
          else (0, [], [''no client traffic recorded during the storm stage''])
      | None \<Rightarrow> (0, [], [''no client traffic recorded during the storm stage'']))"

definition absorption :: "rat \<Rightarrow> stage option \<Rightarrow> component" where
  "absorption avail storm =
     (case storm of
        Some s \<Rightarrow>
          if fault_rate s > 0
          then (percent (1 - error_rate s / fault_rate s),
                [\<lparr>gt_id = ''no_wedge'', gt_value = py_round 4 (success_rate s), gt_threshold = 0,
                  gt_passed = (\<not> (fault_rate s < 1 \<and> success_rate s \<le> 0))\<rparr>], [])
          else if client_total s \<noteq> 0
          then (avail, [], [''no faults were injected during the storm stage''])
          else (0, [], [])
      | None \<Rightarrow> (0, [], []))"

definition recovery :: "thresholds \<Rightarrow> rat \<Rightarrow> rat \<Rightarrow> stage option \<Rightarrow> component" where
  "recovery th base_success avail recov =
     (case recov of
        Some s \<Rightarrow>
          if client_total s \<noteq> 0
          then (percent (ratio_to (success_rate s) base_success),
                [\<lparr>gt_id = ''recovery'', gt_value = py_round 4 (success_rate s),
                  gt_threshold = py_round 4 (base_success * min_recovery_ratio th),
                  gt_passed = (success_rate s \<ge> base_success * min_recovery_ratio th)\<rparr>], [])
          else (avail, [], [''no recovery stage sampled''])
      | None \<Rightarrow> (avail, [], [''no recovery stage sampled'']))"

definition latency_score :: "thresholds \<Rightarrow> rat \<Rightarrow> rat \<Rightarrow> string list \<Rightarrow> stage option \<Rightarrow> component" where
  "latency_score th base_p95 avail notes storm =
     (case storm of
        Some s \<Rightarrow>
          if stage_p95 s > 0 \<and> base_p95 > 0
          then (let ceil = base_p95 * max_latency_multiple th; span = max (1 / 10 ^ 6) (ceil - base_p95) in
                (percent (1 - (stage_p95 s - base_p95) / span),
                 [\<lparr>gt_id = ''latency'', gt_value = stage_p95 s, gt_threshold = py_round 2 ceil,
                   gt_passed = (stage_p95 s \<le> ceil)\<rparr>], []))
          else (if notes = [] then 100 else avail, [], [])
      | None \<Rightarrow> (if notes = [] then 100 else avail, [], []))"

record report =
  rp_score :: rat
  rp_grade :: string
  rp_verdict :: string
  rp_components :: "(string \<times> rat) list"
  rp_gates :: "gate list"
  rp_blocking :: "string list"
  rp_notes :: "string list"
  rp_baseline_success_rate :: rat
  rp_baseline_p95 :: rat

definition WEIGHTS :: "(string \<times> rat) list" where
  "WEIGHTS = [(''availability'', 35 / 100), (''absorption'', 30 / 100), (''recovery'', 25 / 100),
     (''latency'', 10 / 100)]"

definition weighted_sum :: "(string \<times> rat) list \<Rightarrow> rat" where
  "weighted_sum cs = (\<Sum>(k, w)\<leftarrow>WEIGHTS. or_default 0 (map_of cs k) * w)"

definition score_stages :: "thresholds \<Rightarrow> (string \<times> stage) list \<Rightarrow> report" where
  "score_stages th stages =
     (let base = map_of stages ''baseline''; storm = map_of stages ''storm''; recov = map_of stages ''recovery'';
          base_success = (case base of None \<Rightarrow> 1 | Some s \<Rightarrow> success_rate s);
          base_p95 = (case base of None \<Rightarrow> 0 | Some s \<Rightarrow> stage_p95 s);
          (av, g1, n1) = availability th base_success storm;
          (ab, g2, n2) = absorption av storm;
          (re, g3, n3) = recovery th base_success av recov;
          (la, g4, n4) = latency_score th base_p95 av (n1 @ n2 @ n3) storm;
          components = [(''availability'', av), (''absorption'', ab), (''recovery'', re), (''latency'', la)];
          gates = g1 @ g2 @ g3 @ g4;
          score = py_round 1 (weighted_sum components);
          blocking = map gt_id (filter (\<lambda>g. \<not> gt_passed g) gates) in
      \<lparr>rp_score = score, rp_grade = grade_of score,
       rp_verdict = (if score \<ge> pass_score th \<and> blocking = [] then ''PASS'' else ''FAIL''),
       rp_components = components, rp_gates = gates, rp_blocking = blocking,
       rp_notes = n1 @ n2 @ n3 @ n4, rp_baseline_success_rate = py_round 4 base_success,
       rp_baseline_p95 = base_p95\<rparr>)"

definition score_resilience :: "sample list \<Rightarrow> (string \<times> pyv) list \<Rightarrow> report result" where
  "score_resilience samples th =
     rbind (thresholds_from_dict th) (\<lambda>th. Inr (score_stages th (aggregate_stages samples)))"

section \<open>Rounding keeps bounds\<close>

lemma half_even_mono: "a \<le> b \<Longrightarrow> half_even a \<le> half_even b"
proof -
  assume ab: "a \<le> b"
  then have f: "\<lfloor>a\<rfloor> \<le> \<lfloor>b\<rfloor>" by (rule floor_mono)
  show ?thesis
  proof (cases "\<lfloor>a\<rfloor> = \<lfloor>b\<rfloor>")
    case True
    then show ?thesis using ab by (auto simp: half_even_def Let_def)
  next
    case False
    then show ?thesis using f by (auto simp: half_even_def Let_def)
  qed
qed

lemma half_even_of_int [simp]: "half_even (of_int z) = z"
  by (simp add: half_even_def)

lemma py_round_mono: "a \<le> b \<Longrightarrow> py_round n a \<le> py_round n b"
  by (simp add: py_round_def divide_right_mono half_even_mono)

lemma py_round_of_int [simp]: "py_round n (of_int z) = of_int z"
proof -
  have "(of_int z :: rat) * 10 ^ n = of_int (z * 10 ^ n)" by simp
  then have "half_even (of_int z * 10 ^ n) = z * 10 ^ n" by (simp only: half_even_of_int)
  then show ?thesis by (simp add: py_round_def)
qed

lemma py_round_between: "of_int a \<le> q \<Longrightarrow> q \<le> of_int b \<Longrightarrow> of_int a \<le> py_round n q \<and> py_round n q \<le> of_int b"
  using py_round_mono [of "of_int a" q n] py_round_mono [of q "of_int b" n] by simp

lemma percent_between: "0 \<le> percent x \<and> percent x \<le> 100"
  using py_round_between [of 0 "clamp01 x * 100" 100 1] by (simp add: percent_def clamp01_def)

section \<open>What the report says\<close>

definition base_success_of :: "(string \<times> stage) list \<Rightarrow> rat" where
  "base_success_of stages = (case map_of stages ''baseline'' of None \<Rightarrow> 1 | Some s \<Rightarrow> success_rate s)"

definition base_p95_of :: "(string \<times> stage) list \<Rightarrow> rat" where
  "base_p95_of stages = (case map_of stages ''baseline'' of None \<Rightarrow> 0 | Some s \<Rightarrow> stage_p95 s)"

lemma weighted_sum_four:
  "weighted_sum [(''availability'', av), (''absorption'', ab), (''recovery'', re), (''latency'', la)] =
     35 / 100 * av + 30 / 100 * ab + 25 / 100 * re + 10 / 100 * la"
  by (simp add: weighted_sum_def WEIGHTS_def)

text \<open>The parts of a report, named.\<close>

lemma score_stages_parts:
  obtains av g1 n1 ab g2 n2 re g3 n3 la g4 n4 where
    "availability th (base_success_of stages) (map_of stages ''storm'') = (av, g1, n1)"
    "absorption av (map_of stages ''storm'') = (ab, g2, n2)"
    "recovery th (base_success_of stages) av (map_of stages ''recovery'') = (re, g3, n3)"
    "latency_score th (base_p95_of stages) av (n1 @ n2 @ n3) (map_of stages ''storm'') = (la, g4, n4)"
    "rp_components (score_stages th stages) =
       [(''availability'', av), (''absorption'', ab), (''recovery'', re), (''latency'', la)]"
    "rp_gates (score_stages th stages) = g1 @ g2 @ g3 @ g4"
    "rp_score (score_stages th stages) = py_round 1 (35 / 100 * av + 30 / 100 * ab + 25 / 100 * re + 10 / 100 * la)"
    "rp_verdict (score_stages th stages) = ''PASS'' \<longleftrightarrow>
       rp_score (score_stages th stages) \<ge> pass_score th \<and> list_all gt_passed (g1 @ g2 @ g3 @ g4)"
proof -
  obtain av g1 n1 where 1: "availability th (base_success_of stages) (map_of stages ''storm'') = (av, g1, n1)"
    by (rule prod_cases3)
  obtain ab g2 n2 where 2: "absorption av (map_of stages ''storm'') = (ab, g2, n2)" by (rule prod_cases3)
  obtain re g3 n3 where 3: "recovery th (base_success_of stages) av (map_of stages ''recovery'') = (re, g3, n3)"
    by (rule prod_cases3)
  obtain la g4 n4 where 4: "latency_score th (base_p95_of stages) av (n1 @ n2 @ n3) (map_of stages ''storm'') = (la, g4, n4)"
    by (rule prod_cases3)
  note parts = 1 [unfolded base_success_of_def] 2 3 [unfolded base_success_of_def] 4 [unfolded base_p95_of_def]
  show thesis
    by (rule that [OF 1 2 3 4])
      (auto simp: score_stages_def Let_def parts weighted_sum_four filter_empty_conv list_all_iff)
qed

lemma component_bounds:
  "availability th b storm = (av, g, n) \<Longrightarrow> 0 \<le> av \<and> av \<le> 100"
  "absorption av' storm = (ab, g, n) \<Longrightarrow> 0 \<le> av' \<Longrightarrow> av' \<le> 100 \<Longrightarrow> 0 \<le> ab \<and> ab \<le> 100"
  "recovery th b av' recov = (re, g, n) \<Longrightarrow> 0 \<le> av' \<Longrightarrow> av' \<le> 100 \<Longrightarrow> 0 \<le> re \<and> re \<le> 100"
  "latency_score th p av' notes storm = (la, g, n) \<Longrightarrow> 0 \<le> av' \<Longrightarrow> av' \<le> 100 \<Longrightarrow> 0 \<le> la \<and> la \<le> 100"
  using percent_between
  by (auto simp: availability_def absorption_def recovery_def latency_score_def Let_def
      split: option.splits if_splits)

text \<open>Every component and the score lie between 0 and 100, and the verdict is PASS exactly when the
  score reaches the bar and no gate is blocking.\<close>

theorem resilience_score_bounded:
  "list_all (\<lambda>(k, c). 0 \<le> c \<and> c \<le> 100) (rp_components (score_stages th stages)) \<and>
   0 \<le> rp_score (score_stages th stages) \<and> rp_score (score_stages th stages) \<le> 100 \<and>
   (rp_verdict (score_stages th stages) = ''PASS'' \<longleftrightarrow>
      rp_score (score_stages th stages) \<ge> pass_score th \<and> list_all gt_passed (rp_gates (score_stages th stages)))"
proof -
  obtain av g1 n1 ab g2 n2 re g3 n3 la g4 n4 where parts:
    "availability th (base_success_of stages) (map_of stages ''storm'') = (av, g1, n1)"
    "absorption av (map_of stages ''storm'') = (ab, g2, n2)"
    "recovery th (base_success_of stages) av (map_of stages ''recovery'') = (re, g3, n3)"
    "latency_score th (base_p95_of stages) av (n1 @ n2 @ n3) (map_of stages ''storm'') = (la, g4, n4)"
    and r: "rp_components (score_stages th stages) =
       [(''availability'', av), (''absorption'', ab), (''recovery'', re), (''latency'', la)]"
      "rp_gates (score_stages th stages) = g1 @ g2 @ g3 @ g4"
      "rp_score (score_stages th stages) = py_round 1 (35 / 100 * av + 30 / 100 * ab + 25 / 100 * re + 10 / 100 * la)"
      "rp_verdict (score_stages th stages) = ''PASS'' \<longleftrightarrow>
         rp_score (score_stages th stages) \<ge> pass_score th \<and> list_all gt_passed (g1 @ g2 @ g3 @ g4)"
    by (rule score_stages_parts [of th stages])
  have av: "0 \<le> av" "av \<le> 100" using component_bounds(1) [OF parts(1)] by auto
  have ab: "0 \<le> ab" "ab \<le> 100" using component_bounds(2) [OF parts(2) av] by auto
  have re: "0 \<le> re" "re \<le> 100" using component_bounds(3) [OF parts(3) av] by auto
  have la: "0 \<le> la" "la \<le> 100" using component_bounds(4) [OF parts(4) av] by auto
  have "0 \<le> 35 / 100 * av + 30 / 100 * ab + 25 / 100 * re + 10 / 100 * la"
    "35 / 100 * av + 30 / 100 * ab + 25 / 100 * re + 10 / 100 * la \<le> 100"
    using av ab re la by simp_all
  then have "0 \<le> rp_score (score_stages th stages) \<and> rp_score (score_stages th stages) \<le> 100"
    unfolding r(3) using py_round_between [of 0 _ 100 1] by simp
  then show ?thesis using r(1,2,4) av ab re la by simp
qed

text \<open>Without traffic in the storm, or any success before it, only the other three components can score.\<close>

lemma silent_storm_score:
  assumes "(case map_of stages ''storm'' of None \<Rightarrow> True | Some s \<Rightarrow> client_total s = 0) \<or> base_success_of stages = 0"
  shows "rp_score (score_stages th stages) \<le> 65"
proof -
  obtain av g1 n1 ab g2 n2 re g3 n3 la g4 n4 where parts:
    "availability th (base_success_of stages) (map_of stages ''storm'') = (av, g1, n1)"
    "absorption av (map_of stages ''storm'') = (ab, g2, n2)"
    "recovery th (base_success_of stages) av (map_of stages ''recovery'') = (re, g3, n3)"
    "latency_score th (base_p95_of stages) av (n1 @ n2 @ n3) (map_of stages ''storm'') = (la, g4, n4)"
    and r: "rp_score (score_stages th stages) = py_round 1 (35 / 100 * av + 30 / 100 * ab + 25 / 100 * re + 10 / 100 * la)"
    by (rule score_stages_parts [of th stages])
  have "percent 0 = 0" using py_round_of_int [of 1 0] by (simp add: percent_def clamp01_def)
  then have "av = 0" using parts(1) assms by (auto simp: availability_def ratio_to_def split: option.splits if_splits)
  then have "ab \<le> 100" "re \<le> 100" "la \<le> 100"
    using component_bounds(2) [OF parts(2)] component_bounds(3) [OF parts(3)] component_bounds(4) [OF parts(4)] by auto
  then have "35 / 100 * av + 30 / 100 * ab + 25 / 100 * re + 10 / 100 * la \<le> 65" using \<open>av = 0\<close> by simp
  from py_round_mono [OF this, of 1] show ?thesis unfolding r using py_round_of_int [of 1 65] by simp
qed

text \<open>C40. A PASS is earned under fire: with a pass bar above 65 (the default is 70), clients did send
  traffic during the storm and had successes before it, their success rate held, it recovered wherever a recovery was sampled, and
  the latency stayed under the ceiling wherever it was measured.\<close>

theorem resilience_pass_is_earned:
  assumes "rp_verdict (score_stages th stages) = ''PASS''" and "65 < pass_score th"
  shows "\<exists>storm. map_of stages ''storm'' = Some storm \<and> client_total storm \<noteq> 0 \<and> base_success_of stages \<noteq> 0 \<and>
    base_success_of stages * min_availability_ratio th \<le> success_rate storm \<and>
    (\<forall>recov. map_of stages ''recovery'' = Some recov \<and> client_total recov \<noteq> 0 \<longrightarrow>
       base_success_of stages * min_recovery_ratio th \<le> success_rate recov) \<and>
    (0 < stage_p95 storm \<and> 0 < base_p95_of stages \<longrightarrow>
       stage_p95 storm \<le> base_p95_of stages * max_latency_multiple th)"
proof -
  obtain av g1 n1 ab g2 n2 re g3 n3 la g4 n4 where parts:
    "availability th (base_success_of stages) (map_of stages ''storm'') = (av, g1, n1)"
    "recovery th (base_success_of stages) av (map_of stages ''recovery'') = (re, g3, n3)"
    "latency_score th (base_p95_of stages) av (n1 @ n2 @ n3) (map_of stages ''storm'') = (la, g4, n4)"
    and v: "rp_verdict (score_stages th stages) = ''PASS'' \<longleftrightarrow>
       rp_score (score_stages th stages) \<ge> pass_score th \<and> list_all gt_passed (g1 @ g2 @ g3 @ g4)"
    by (rule score_stages_parts [of th stages])
  obtain storm where storm: "map_of stages ''storm'' = Some storm" "client_total storm \<noteq> 0" "base_success_of stages \<noteq> 0"
    using silent_storm_score [of stages th] v assms by (fastforce split: option.splits)
  have "list_all gt_passed g1" "list_all gt_passed g3" "list_all gt_passed g4" using v assms(1) by auto
  then show ?thesis using parts storm
    by (auto simp: availability_def recovery_def latency_score_def Let_def split: option.splits if_splits)
qed

definition demo_stage :: "int \<Rightarrow> int \<Rightarrow> stage" where
  "demo_stage ok bad = \<lparr>sg_label = ''x'', sg_client_received = ok, sg_client_errors = bad, sg_sim_faults = 20,
     sg_sim_received = 100, sg_p95_max = 30, sg_p95_samples = [30], sg_seconds = 10\<rparr>"

definition demo_stages :: "(string \<times> stage) list" where
  "demo_stages = [(''baseline'', demo_stage 100 0), (''storm'', demo_stage 98 2), (''recovery'', demo_stage 100 0)]"

theorem resilience_pass_is_earned_witness:
  "\<exists>storm. map_of demo_stages ''storm'' = Some storm \<and> 9 / 10 \<le> success_rate storm"
proof -
  have "rp_verdict (score_stages default_thresholds demo_stages) = ''PASS''" by code_simp
  moreover have "base_success_of demo_stages = 1" by code_simp
  ultimately show ?thesis
    using resilience_pass_is_earned [of default_thresholds demo_stages] by (auto simp: default_thresholds_def)
qed

end
