(* ===== verification/Gates.thy ===== *)
theory Gates
  imports Py_Values
begin

text \<open>
  Sign-off of a run (\<open>report_service/gates.py\<close>, with \<open>score_cases\<close>, \<open>certify\<close> and \<open>index_steps\<close> of
  \<open>report_service/generators.py\<close>): scoring the cases of a pack, the certification summary, regressions
  against a baseline, and the gates that decide between GO and NO_GO. \<open>None\<close> is a missing key or a null.
\<close>

section \<open>Runs, packs and policies\<close>

record run_step =
  rs_id :: string
  rs_status :: "string option"

record run_scenario =
  rc_id :: "string option"
  rc_name :: "string option"
  rc_status :: "string option"
  rc_priority :: "string option"
  rc_steps :: "run_step list"

record run_detail =
  rd_environment :: "string option"
  rd_scenarios :: "run_scenario list"

record pack_case =
  pc_id :: "string option"
  pc_scenario_name :: "string option"
  pc_priority :: "string option"

record gate_policy =
  gp_tiers :: "(string \<times> rat) list"
  gp_require_coverage :: bool
  gp_forbid_not_run :: bool
  gp_max_regressions :: int
  gp_allowed_environments :: "string list option"

definition default_policy :: gate_policy where
  "default_policy = \<lparr>gp_tiers = [(''all'', 100)], gp_require_coverage = True, gp_forbid_not_run = True,
     gp_max_regressions = 0, gp_allowed_environments = None\<rparr>"

definition SKIP_STATUSES :: "string list" where
  "SKIP_STATUSES = [''not_run'', ''blocked'', ''pending'']"

definition TIER_ALL :: string where
  "TIER_ALL = ''all''"

text \<open>\<open>x or y\<close> on texts that may be missing.\<close>

definition text_or :: "string option \<Rightarrow> string option \<Rightarrow> string option" where
  "text_or x y = (case x of Some s \<Rightarrow> if s = [] then y else x | None \<Rightarrow> y)"

section \<open>Cases\<close>

record scored_case =
  cs_id :: "string option"
  cs_scenario :: "string option"
  cs_status :: "string option"
  cs_passed :: bool
  cs_priority :: "string option"

definition scored :: "string option \<Rightarrow> string option \<Rightarrow> string option \<Rightarrow> string option \<Rightarrow> scored_case" where
  "scored i name status priority =
     \<lparr>cs_id = i, cs_scenario = name, cs_status = status, cs_passed = (status = Some ''passed''), cs_priority = priority\<rparr>"

text \<open>The status of a scenario by its name; of several with one name, the last.\<close>

definition status_by_name :: "run_detail \<Rightarrow> string option \<Rightarrow> string option option" where
  "status_by_name d = map_of (rev (map (\<lambda>s. (rc_name s, rc_status s)) (rd_scenarios d)))"

definition score_cases :: "run_detail \<Rightarrow> pack_case list \<Rightarrow> scored_case list" where
  "score_cases d pack =
     map (\<lambda>c. let name = text_or (pc_scenario_name c) (pc_id c) in
       scored (pc_id c) name (or_default (Some ''not_run'') (status_by_name d name)) (pc_priority c)) pack"

definition cases_of :: "run_detail \<Rightarrow> pack_case list option \<Rightarrow> scored_case list" where
  "cases_of d pack =
     (case pack of
        Some p \<Rightarrow> score_cases d p
      | None \<Rightarrow> map (\<lambda>s. scored (text_or (rc_id s) (rc_name s)) (rc_name s)
                     (case rc_status s of None \<Rightarrow> Some ''not_run'' | Some t \<Rightarrow> Some t) (rc_priority s))
                 (rd_scenarios d))"

text \<open>\<open>certify\<close>: the counts, the tiers in the order of their first case, and what failed or never ran.\<close>

record tier_score =
  ts_passed :: nat
  ts_total :: nat

record certification =
  ce_passed :: nat
  ce_total :: nat
  ce_certified :: bool
  ce_by_priority :: "(string \<times> tier_score) list"
  ce_failed :: "string option list"
  ce_not_run :: "string option list"

definition case_tier :: "scored_case \<Rightarrow> string" where
  "case_tier c = or_default ''unspecified'' (text_or (cs_priority c) None)"

definition tier_of_cases :: "scored_case list \<Rightarrow> string \<Rightarrow> tier_score" where
  "tier_of_cases cases t =
     (let cs = filter (\<lambda>c. case_tier c = t) cases in
      \<lparr>ts_passed = length (filter cs_passed cs), ts_total = length cs\<rparr>)"

definition certify :: "run_detail \<Rightarrow> pack_case list \<Rightarrow> certification" where
  "certify d pack =
     (let cases = score_cases d pack; passed = length (filter cs_passed cases); tot = length cases in
      \<lparr>ce_passed = passed, ce_total = tot, ce_certified = (tot > 0 \<and> passed = tot),
       ce_by_priority = map (\<lambda>t. (t, tier_of_cases cases t)) (firsts (map case_tier cases)),
       ce_failed = map cs_id (filter (\<lambda>c. \<not> cs_passed c \<and> cs_status c \<noteq> Some ''not_run'') cases),
       ce_not_run = map cs_id (filter (\<lambda>c. cs_status c = Some ''not_run'') cases)\<rparr>)"

section \<open>Statuses and regressions\<close>

definition given_status :: "string option \<Rightarrow> string list" where
  "given_status s = (case s of None \<Rightarrow> [] | Some t \<Rightarrow> if t = [] then [] else [t])"

definition all_statuses :: "run_detail \<Rightarrow> string list" where
  "all_statuses d =
     concat (map (\<lambda>s. given_status (rc_status s) @ concat (map (given_status \<circ> rs_status) (rc_steps s)))
       (rd_scenarios d))"

definition step_entries :: "run_detail \<Rightarrow> ((string \<times> string) \<times> string) list" where
  "step_entries d =
     concat (map (\<lambda>s. map (\<lambda>st.
         ((or_default ''?'' (text_or (text_or (rc_name s) (rc_id s)) (Some ''?'')), rs_id st),
          or_default ''?'' (rs_status st))) (rc_steps s))
       (rd_scenarios d))"

definition index_steps :: "run_detail \<Rightarrow> (string \<times> string) \<Rightarrow> string option" where
  "index_steps d = map_of (rev (step_entries d))"

definition step_keys :: "run_detail \<Rightarrow> (string \<times> string) list" where
  "step_keys d = firsts (map fst (step_entries d))"

definition regressions :: "run_detail \<Rightarrow> run_detail \<Rightarrow> (string \<times> string) list \<times> (string \<times> string) list" where
  "regressions d baseline =
     (filter (\<lambda>k. index_steps baseline k = Some ''passed'' \<and>
        (case index_steps d k of None \<Rightarrow> False | Some c \<Rightarrow> c \<noteq> ''passed'')) (step_keys baseline),
      filter (\<lambda>k. index_steps baseline k \<noteq> Some ''passed'' \<and> index_steps d k = Some ''passed'')
        (step_keys baseline))"

section \<open>Gates\<close>

type_synonym signoff_gate = "string \<times> bool"

definition tier_gate :: "scored_case list \<Rightarrow> string \<times> rat \<Rightarrow> signoff_gate" where
  "tier_gate cases tier =
     (let relevant = (if fst tier = TIER_ALL then cases
                      else filter (\<lambda>c. cs_priority c = Some (fst tier)) cases) in
      (''tier:'' @ fst tier,
       relevant = [] \<or>
       of_nat (length (filter cs_passed relevant)) / of_nat (length relevant) * 100 \<ge> snd tier))"

definition gates_of ::
    "gate_policy \<Rightarrow> run_detail \<Rightarrow> pack_case list option \<Rightarrow> run_detail option \<Rightarrow> signoff_gate list" where
  "gates_of pol d pack baseline =
     (let cases = cases_of d pack in
      map (tier_gate cases) (gp_tiers pol) @
      (if gp_require_coverage pol \<and> pack \<noteq> None
       then [(''coverage'', filter (\<lambda>c. cs_status c = Some ''not_run'') cases = [])] else []) @
      (if gp_forbid_not_run pol
       then [(''no_silent_skips'', filter (\<lambda>s. s \<in> set SKIP_STATUSES) (all_statuses d) = [])] else []) @
      (case baseline of
         None \<Rightarrow> []
       | Some b \<Rightarrow> [(''regressions'', int (length (fst (regressions d b))) \<le> gp_max_regressions pol)]) @
      (case gp_allowed_environments pol of
         None \<Rightarrow> []
       | Some envs \<Rightarrow>
           [(''environment'', case rd_environment d of None \<Rightarrow> False | Some e \<Rightarrow> e \<in> set envs)]))"

record gate_result =
  gr_verdict :: string
  gr_gates :: "signoff_gate list"
  gr_blocking :: "string list"

definition evaluate_gates ::
    "gate_policy \<Rightarrow> run_detail \<Rightarrow> pack_case list option \<Rightarrow> run_detail option \<Rightarrow> gate_result" where
  "evaluate_gates pol d pack baseline =
     (let gates = gates_of pol d pack baseline; blocking = map fst (filter (\<lambda>g. \<not> snd g) gates) in
      \<lparr>gr_verdict = (if blocking = [] then ''GO'' else ''NO_GO''), gr_gates = gates, gr_blocking = blocking\<rparr>)"

section \<open>Lemmas\<close>

lemma verdict_go: "gr_verdict (evaluate_gates pol d pack baseline) = ''GO'' \<longleftrightarrow>
    list_all snd (gates_of pol d pack baseline)"
  by (auto simp: evaluate_gates_def Let_def filter_empty_conv list_all_iff)

lemma full_tier: "relevant \<noteq> [] \<Longrightarrow>
    (of_nat (length (filter P relevant)) / of_nat (length relevant) * 100 \<ge> (100 :: rat)) \<longleftrightarrow> list_all P relevant"
proof -
  assume ne: "relevant \<noteq> []"
  have "(of_nat (length (filter P relevant)) / of_nat (length relevant) * 100 \<ge> (100 :: rat)) \<longleftrightarrow>
      length relevant \<le> length (filter P relevant)"
    using ne by (simp add: field_simps)
  also have "\<dots> \<longleftrightarrow> list_all P relevant"
    using length_filter_less [of _ relevant P] by (auto simp: list_all_iff not_less [symmetric])
  finally show ?thesis .
qed

lemma certified_iff: "ce_certified (certify d pack) \<longleftrightarrow> pack \<noteq> [] \<and> list_all cs_passed (score_cases d pack)"
proof -
  have "length (filter cs_passed xs) = length xs \<longleftrightarrow> list_all cs_passed xs" for xs
    by (metis filter_True length_filter_less less_irrefl list_all_iff)
  moreover have "length (score_cases d pack) = 0 \<longleftrightarrow> pack = []" by (simp add: score_cases_def)
  ultimately show ?thesis by (auto simp: certify_def Let_def)
qed

lemma passed_status: "c \<in> set (score_cases d pack) \<Longrightarrow> cs_passed c \<longleftrightarrow> cs_status c = Some ''passed''"
  by (auto simp: score_cases_def scored_def Let_def)

definition skips :: "run_detail \<Rightarrow> string list" where
  "skips d = filter (\<lambda>s. s \<in> set SKIP_STATUSES) (all_statuses d)"


definition demo_run :: "string \<Rightarrow> run_detail" where
  "demo_run st = \<lparr>rd_environment = Some ''mock'',
     rd_scenarios = [\<lparr>rc_id = Some ''s1'', rc_name = Some ''Purchase'', rc_status = Some st, rc_priority = None,
       rc_steps = [\<lparr>rs_id = ''a'', rs_status = Some st\<rparr>]\<rparr>]\<rparr>"

definition demo_pack :: "pack_case list" where
  "demo_pack = [\<lparr>pc_id = Some ''c1'', pc_scenario_name = Some ''Purchase'', pc_priority = Some ''P0''\<rparr>]"


text \<open>A run without scenarios and without a pack is GO under the default policy: every gate holds for
  want of evidence.\<close>

theorem empty_run_is_go:
  "gr_verdict (evaluate_gates default_policy \<lparr>rd_environment = env, rd_scenarios = []\<rparr> None None) = ''GO''"
  by (simp add: verdict_go gates_of_def default_policy_def tier_gate_def cases_of_def all_statuses_def Let_def)

lemma step_keys_index: "k \<in> set (step_keys d) \<longleftrightarrow> index_steps d k \<noteq> None"
  by (auto simp: step_keys_def index_steps_def map_of_eq_None_iff)

text \<open>Comparing two runs the other way round exchanges what regressed and what was fixed, and a run
  never regresses against itself.\<close>

theorem regressions_symmetric:
  "set (snd (regressions d b)) \<inter> set (step_keys d) = set (fst (regressions b d)) \<inter> set (step_keys b) \<and>
   regressions d d = ([], [])"
proof -
  have "k \<in> set (snd (regressions d b)) \<longleftrightarrow> k \<in> set (fst (regressions b d))" for k
    using step_keys_index [of k d] step_keys_index [of k b]
    by (auto simp: regressions_def split: option.splits)
  moreover have "k \<in> set (snd (regressions d b)) \<Longrightarrow> k \<in> set (step_keys d) \<and> k \<in> set (step_keys b)" for k
    using step_keys_index [of k d] by (auto simp: regressions_def)
  moreover have "regressions d d = ([], [])"
    by (auto simp: regressions_def filter_empty_conv split: option.splits)
  ultimately show ?thesis by blast
qed

end
