(* ===== verification/Toolkit.thy ===== *)
theory Toolkit
  imports Secrets
begin

text \<open>
  The tools of the assistants and agents (\<open>payprobe_common/agent_toolkit.py\<close>): the backend they act
  on, the journal of their writes, every handler, and \<open>dispatch\<close>, which never raises. The backend is
  a record of functions on a state of its own; its read operations cannot change that state. Texts of
  messages and summaries are left out, and an argument that the schemas type as a text and that is not
  one is refused with a \<open>TypeError\<close>.
\<close>

section \<open>Failures and actions\<close>

datatype failure = GuardrailError | ToolError | Raised py_error

type_synonym doc = "(string \<times> pyv) list"

text \<open>A computation that may raise and changes a state; what it changed before raising stays changed.\<close>

type_synonym ('s, 'a) act = "'s \<Rightarrow> (failure + 'a) \<times> 's"

definition return :: "'a \<Rightarrow> ('s, 'a) act" where
  "return x = (\<lambda>s. (Inr x, s))"

definition raise :: "failure \<Rightarrow> ('s, 'a) act" where
  "raise e = (\<lambda>s. (Inl e, s))"

definition bind :: "('s, 'a) act \<Rightarrow> ('a \<Rightarrow> ('s, 'b) act) \<Rightarrow> ('s, 'b) act" where
  "bind m f = (\<lambda>s. case m s of (Inl e, s') \<Rightarrow> (Inl e, s') | (Inr x, s') \<Rightarrow> f x s')"

text \<open>A computation that only reads.\<close>

definition reads :: "('s \<Rightarrow> failure + 'a) \<Rightarrow> ('s, 'a) act" where
  "reads f = (\<lambda>s. (f s, s))"

section \<open>The backend\<close>

record 's backend =
  be_query :: "string \<Rightarrow> pyv list \<Rightarrow> 's \<Rightarrow> failure + pyv"
  be_get_connection :: "string \<Rightarrow> 's \<Rightarrow> failure + doc option"
  be_put_connection :: "string \<Rightarrow> pyv \<Rightarrow> ('s, doc) act"
  be_delete_connection :: "string \<Rightarrow> ('s, unit) act"
  be_get_table :: "string \<Rightarrow> 's \<Rightarrow> failure + doc option"
  be_put_table :: "string \<Rightarrow> pyv \<Rightarrow> ('s, doc) act"
  be_delete_table :: "string \<Rightarrow> ('s, unit) act"
  be_get_global_variables :: "'s \<Rightarrow> failure + doc"
  be_set_global_variables :: "pyv \<Rightarrow> pyv \<Rightarrow> ('s, doc) act"
  be_get_starter_flow :: "string \<Rightarrow> 's \<Rightarrow> failure + doc option"
  be_create_starter_flow :: "pyv \<Rightarrow> string option \<Rightarrow> ('s, doc) act"
  be_delete_starter_flow :: "string \<Rightarrow> ('s, unit) act"
  be_get_scenario :: "string \<Rightarrow> 's \<Rightarrow> failure + doc option"
  be_create_scenario :: "pyv \<Rightarrow> pyv \<Rightarrow> pyv \<Rightarrow> ('s, doc) act"
  be_update_scenario :: "string \<Rightarrow> pyv \<Rightarrow> pyv \<Rightarrow> ('s, doc) act"
  be_delete_scenario :: "string \<Rightarrow> ('s, unit) act"
  be_validate_scenario :: "pyv \<Rightarrow> 's \<Rightarrow> failure + doc"
  be_get_network :: "string \<Rightarrow> 's \<Rightarrow> failure + doc option"
  be_put_network :: "string \<Rightarrow> pyv \<Rightarrow> ('s, doc) act"
  be_delete_network :: "string \<Rightarrow> ('s, unit) act"
  be_validate_network :: "pyv \<Rightarrow> 's \<Rightarrow> failure + doc"
  be_execute :: "string \<Rightarrow> pyv list \<Rightarrow> ('s, pyv) act"

section \<open>The journal and the context\<close>

datatype resource = Connection | Table | Variables | Starter_Flow | Scenario | Network_Flow

record change =
  ch_seq :: nat
  ch_tool :: string
  ch_resource :: resource
  ch_key :: string
  ch_before :: "doc option"
  ch_after :: "doc option"

text \<open>\<open>cx_on_record\<close> tells whether persisting a record fails, and how.\<close>

record 's ctx =
  cx_store :: 's
  cx_records :: "change list"
  cx_seq :: nat
  cx_on_record :: "change \<Rightarrow> failure option"
  cx_referenced :: "string list"

definition on_store :: "('s, 'a) act \<Rightarrow> ('s ctx, 'a) act" where
  "on_store f = (\<lambda>c. case f (cx_store c) of (r, s') \<Rightarrow> (r, c\<lparr>cx_store := s'\<rparr>))"

text \<open>\<open>ChangeJournal.record\<close>: the number is used up even if persisting fails.\<close>

definition record_change :: "string \<Rightarrow> resource \<Rightarrow> string \<Rightarrow> doc option \<Rightarrow> ('s ctx, unit) act" where
  "record_change tool r key before =
     (\<lambda>c. let n = cx_seq c + 1;
              rec = \<lparr>ch_seq = n, ch_tool = tool, ch_resource = r, ch_key = key, ch_before = before, ch_after = None\<rparr> in
          case cx_on_record c rec of
            Some e \<Rightarrow> (Inl e, c\<lparr>cx_seq := n\<rparr>)
          | None \<Rightarrow> (Inr (), c\<lparr>cx_seq := n, cx_records := cx_records c @ [rec]\<rparr>))"

text \<open>\<open>_AFTER_GETTERS\<close> and \<open>_capture_after\<close>.\<close>

definition AFTER_GETTERS :: "'s backend \<Rightarrow> resource \<Rightarrow> string \<Rightarrow> 's \<Rightarrow> failure + doc option" where
  "AFTER_GETTERS b r k s =
     (case r of
        Connection \<Rightarrow> be_get_connection b k s
      | Table \<Rightarrow> be_get_table b k s
      | Starter_Flow \<Rightarrow> be_get_starter_flow b k s
      | Scenario \<Rightarrow> be_get_scenario b k s
      | Network_Flow \<Rightarrow> be_get_network b k s
      | Variables \<Rightarrow> rbind (be_get_global_variables b s) (\<lambda>d. Inr (Some d)))"

definition after_of :: "'s backend \<Rightarrow> 's \<Rightarrow> change \<Rightarrow> change" where
  "after_of b s r =
     r\<lparr>ch_after := (case AFTER_GETTERS b (ch_resource r) (ch_key r) s of Inl e \<Rightarrow> None | Inr d \<Rightarrow> d)\<rparr>"

definition capture_after :: "'s backend \<Rightarrow> nat \<Rightarrow> 's ctx \<Rightarrow> 's ctx" where
  "capture_after b first_new c =
     c\<lparr>cx_records := take first_new (cx_records c) @ map (after_of b (cx_store c)) (drop first_new (cx_records c))\<rparr>"

section \<open>Arguments\<close>

definition need :: "doc \<Rightarrow> string \<Rightarrow> failure + string" where
  "need args k =
     (case map_of args k of
        None \<Rightarrow> Inl (Raised KeyError)
      | Some v \<Rightarrow> (case v of PStr s \<Rightarrow> Inr s | _ \<Rightarrow> Inl (Raised TypeError)))"

text \<open>\<open>args.get(k) or d\<close>.\<close>

definition given_or :: "doc \<Rightarrow> string \<Rightarrow> pyv \<Rightarrow> pyv" where
  "given_or args k d = (if truthy (get args k PNone) then get args k PNone else d)"

definition lift :: "py_error + 'a \<Rightarrow> failure + 'a" where
  "lift x = (case x of Inl e \<Rightarrow> Inl (Raised e) | Inr y \<Rightarrow> Inr y)"

text \<open>\<open>x.get(...)\<close> needs a dictionary; \<open>x or {}\<close> makes one of what is falsy.\<close>

definition as_doc :: "pyv \<Rightarrow> failure + doc" where
  "as_doc v = (case v of PDict d \<Rightarrow> Inr d | _ \<Rightarrow> if truthy v then Inl (Raised AttributeError) else Inr [])"

definition iterate :: "pyv \<Rightarrow> failure + pyv list" where
  "iterate v = (case v of PList vs \<Rightarrow> Inr vs | _ \<Rightarrow> Inl (Raised TypeError))"

definition as_list :: "pyv \<Rightarrow> failure + pyv list" where
  "as_list v = (if truthy v then iterate v else Inr [])"

fun py_len :: "pyv \<Rightarrow> failure + int" where
  "py_len (PStr s) = Inr (int (length s))"
| "py_len (PList vs) = Inr (int (length vs))"
| "py_len (PDict d) = Inr (int (length d))"
| "py_len _ = Inl (Raised TypeError)"

definition found :: "doc option \<Rightarrow> failure + pyv" where
  "found d = (case d of None \<Rightarrow> Inl ToolError | Some d \<Rightarrow> Inr (PDict d))"

definition found_value :: "pyv \<Rightarrow> failure + pyv" where
  "found_value v = (if v = PNone then Inl ToolError else Inr v)"

fun map_result :: "('a \<Rightarrow> 'e + 'b) \<Rightarrow> 'a list \<Rightarrow> 'e + 'b list" where
  "map_result f [] = Inr []"
| "map_result f (x # xs) = rbind (f x) (\<lambda>y. rbind (map_result f xs) (\<lambda>ys. Inr (y # ys)))"

section \<open>Read tools\<close>

text \<open>A read tool sees the arguments and the state and gives a value.\<close>

type_synonym 's reader = "'s backend \<Rightarrow> doc \<Rightarrow> 's \<Rightarrow> failure + pyv"

text \<open>\<open>ctx.backend.<method>(...)\<close> without arguments, and a lookup that must find something.\<close>

definition ask :: "string \<Rightarrow> 's reader" where
  "ask m = (\<lambda>b args s. be_query b m [] s)"

definition look_up :: "string \<Rightarrow> string \<Rightarrow> 's reader" where
  "look_up m k = (\<lambda>b args s. rbind (need args k) (\<lambda>x. rbind (be_query b m [PStr x] s) found_value))"

definition get_doc :: "('s backend \<Rightarrow> string \<Rightarrow> 's \<Rightarrow> failure + doc option) \<Rightarrow> string \<Rightarrow> 's reader" where
  "get_doc getter k = (\<lambda>b args s. rbind (need args k) (\<lambda>x. rbind (getter b x s) found))"

definition scenario_summary :: "doc \<Rightarrow> failure + pyv" where
  "scenario_summary d =
     rbind (case get d ''steps'' PNone of PNone \<Rightarrow> Inr (get d ''step_count'' (PInt 0)) | v \<Rightarrow> rbind (py_len v) (\<lambda>n. Inr (PInt n)))
       (\<lambda>steps. Inr (PDict [(''id'', get d ''id'' PNone), (''name'', get d ''name'' PNone),
         (''version'', get d ''version'' PNone), (''steps'', steps), (''project_id'', get d ''project_id'' PNone)]))"

definition list_scenarios :: "'s reader" where
  "list_scenarios = (\<lambda>b args s.
     rbind (be_query b ''list_scenarios'' [get args ''project_id'' PNone] s) (\<lambda>v.
     rbind (iterate v) (\<lambda>vs.
     rbind (map_result (\<lambda>v. rbind (as_doc v) scenario_summary) vs) (\<lambda>ws. Inr (PList ws)))))"

text \<open>How many nodes there are of each kind, in the order of the first of a kind.\<close>

definition node_kind :: "pyv \<Rightarrow> failure + string" where
  "node_kind v =
     (case v of
        PDict d \<Rightarrow> (case get d ''kind'' (PStr ''?'') of PStr k \<Rightarrow> Inr k | _ \<Rightarrow> Inl (Raised TypeError))
      | _ \<Rightarrow> Inl (Raised AttributeError))"

definition kind_counts :: "string list \<Rightarrow> doc" where
  "kind_counts ks = map (\<lambda>k. (k, PInt (int (count_list ks k)))) (firsts ks)"

definition network_summary :: "doc \<Rightarrow> failure + pyv" where
  "network_summary d =
     rbind (as_list (get d ''nodes'' PNone)) (\<lambda>ns.
     rbind (map_result node_kind ns) (\<lambda>ks.
     rbind (py_len (given_or d ''edges'' (PList []))) (\<lambda>m.
     Inr (PDict [(''id'', get d ''id'' PNone), (''name'', get d ''name'' PNone),
       (''description'', get d ''description'' (PStr [])), (''nodes'', PDict (kind_counts ks)),
       (''edges'', PInt m), (''updated_at'', get d ''updated_at'' PNone)]))))"

definition list_networks :: "'s reader" where
  "list_networks = (\<lambda>b args s.
     rbind (be_query b ''list_networks'' [] s) (\<lambda>v.
     rbind (iterate v) (\<lambda>vs.
     rbind (map_result (\<lambda>v. rbind (as_doc v) network_summary) vs) (\<lambda>ws. Inr (PList ws)))))"

text \<open>\<open>rows[:int(args.get("limit") or 20)]\<close>.\<close>

definition limited :: "string \<Rightarrow> 's reader" where
  "limited m = (\<lambda>b args s.
     rbind (be_query b m [] s) (\<lambda>v.
     rbind (lift (int_of (given_or args ''limit'' (PInt 20)))) (\<lambda>n.
     (case v of
        PList rows \<Rightarrow> Inr (PList (slice_to n rows))
      | PStr t \<Rightarrow> Inr (PStr (slice_to n t))
      | _ \<Rightarrow> Inl (Raised TypeError)))))"

definition list_insight_predictions :: "'s reader" where
  "list_insight_predictions = (\<lambda>b args s.
     be_query b ''list_insight_predictions'' [given_or args ''environment'' PNone] s)"

definition get_scenario_prediction :: "'s reader" where
  "get_scenario_prediction = (\<lambda>b args s.
     rbind (need args ''scenario_id'') (\<lambda>x.
     rbind (be_query b ''get_scenario_prediction'' [PStr x, given_or args ''environment'' PNone] s) found_value))"

definition run_trend :: "'s reader" where
  "run_trend = (\<lambda>b args s.
     rbind (lift (int_of (given_or args ''days'' (PInt 30)))) (\<lambda>days.
     be_query b ''run_trend'' [PInt days, given_or args ''label'' PNone] s))"

definition run_flakiness :: "'s reader" where
  "run_flakiness = (\<lambda>b args s.
     rbind (lift (int_of (given_or args ''days'' (PInt 30)))) (\<lambda>days.
     rbind (lift (int_of (given_or args ''min_runs'' (PInt 3)))) (\<lambda>n.
     be_query b ''run_flakiness'' [PInt days, given_or args ''label'' PNone, PInt n] s)))"

text \<open>The read tier of the registry, in the order of the module.\<close>

definition REGISTRY_READS :: "(string \<times> 's reader) list" where
  "REGISTRY_READS =
     [(''list_connections'', ask ''list_connections''),
      (''get_connection'', get_doc be_get_connection ''name''),
      (''list_environments'', ask ''list_environments''),
      (''get_environment'', look_up ''get_environment'' ''name''),
      (''list_catalog'', ask ''list_catalog''),
      (''list_formats'', \<lambda>b args s. be_query b ''list_formats'' [get args ''protocol'' PNone] s),
      (''get_format'', look_up ''get_format'' ''fid''),
      (''list_tables'', ask ''list_tables''),
      (''list_starter_flows'', ask ''list_starter_flows''),
      (''get_global_variables'', \<lambda>b args s. rbind (be_get_global_variables b s) (\<lambda>d. Inr (PDict d))),
      (''list_scenarios'', list_scenarios),
      (''get_scenario'', get_doc be_get_scenario ''scenario_id''),
      (''validate_scenario'', \<lambda>b args s.
         rbind (be_validate_scenario b (given_or args ''scenario'' (PDict [])) s) (\<lambda>d. Inr (PDict d))),
      (''list_networks'', list_networks),
      (''get_network'', get_doc be_get_network ''network_id''),
      (''plan_network'', look_up ''plan_network'' ''network_id''),
      (''validate_network'', \<lambda>b args s.
         rbind (be_validate_network b (given_or args ''network'' (PDict [])) s) (\<lambda>d. Inr (PDict d)))]"

definition RUNTIME_READS :: "(string \<times> 's reader) list" where
  "RUNTIME_READS =
     [(''platform_status'', ask ''platform_status''),
      (''list_runs'', limited ''list_runs''),
      (''get_run_regression'', look_up ''get_run_regression'' ''run_id''),
      (''list_network_runs'', ask ''list_network_runs''),
      (''list_running_participants'', ask ''list_running_participants''),
      (''list_running_simulators'', ask ''list_running_simulators''),
      (''list_load_runs'', limited ''list_load_runs''),
      (''get_load_run'', look_up ''get_load_run'' ''run_id'')]"

definition INSIGHT_READS :: "(string \<times> 's reader) list" where
  "INSIGHT_READS =
     [(''get_run_insights'', look_up ''get_run_insights'' ''run_id''),
      (''list_insight_predictions'', list_insight_predictions),
      (''insight_status'', ask ''insight_status''),
      (''get_scenario_prediction'', get_scenario_prediction),
      (''list_insight_categories'', ask ''list_insight_categories''),
      (''run_trend'', run_trend),
      (''run_flakiness'', run_flakiness),
      (''playground_targets'', ask ''playground_targets'')]"

section \<open>Write tools\<close>

text \<open>A handler acts on the context.\<close>

type_synonym 's handler = "'s backend \<Rightarrow> doc \<Rightarrow> ('s ctx, pyv) act"

definition verb :: "doc option \<Rightarrow> string" where
  "verb before = (case before of None \<Rightarrow> ''created'' | Some d \<Rightarrow> if d = [] then ''created'' else ''updated'')"

definition saved_result :: "pyv \<Rightarrow> string \<Rightarrow> pyv" where
  "saved_result saved v = PDict [(''saved'', saved), (''action'', PStr v)]"

definition deleted_result :: "string \<Rightarrow> pyv" where
  "deleted_result k = PDict [(''deleted'', PStr k)]"

definition the_before :: "doc option \<Rightarrow> ('s ctx, doc) act" where
  "the_before before = (case before of None \<Rightarrow> raise ToolError | Some d \<Rightarrow> return d)"

definition on_read :: "('s \<Rightarrow> failure + 'a) \<Rightarrow> ('s ctx, 'a) act" where
  "on_read f = reads (\<lambda>c. f (cx_store c))"

definition upsert_connection :: "'s handler" where
  "upsert_connection b args =
     bind (reads (\<lambda>c. need args ''name'')) (\<lambda>name.
     bind (on_read (be_get_connection b name)) (\<lambda>before.
     bind (record_change ''upsert_connection'' Connection name before) (\<lambda>_.
     bind (on_store (be_put_connection b name (given_or args ''config'' (PDict [])))) (\<lambda>saved.
     return (saved_result (PDict saved) (verb before))))))"

definition delete_connection :: "'s handler" where
  "delete_connection b args =
     bind (reads (\<lambda>c. need args ''name'')) (\<lambda>name.
     bind (reads (\<lambda>c. if name \<in> set (cx_referenced c) then Inl GuardrailError else Inr ())) (\<lambda>_.
     bind (on_read (be_get_connection b name)) (\<lambda>before.
     bind (the_before before) (\<lambda>_.
     bind (record_change ''delete_connection'' Connection name before) (\<lambda>_.
     bind (on_store (be_delete_connection b name)) (\<lambda>_.
     return (deleted_result name)))))))"

definition save_table :: "'s handler" where
  "save_table b args =
     bind (reads (\<lambda>c. need args ''name'')) (\<lambda>name.
     bind (on_read (be_get_table b name)) (\<lambda>before.
     bind (record_change ''save_table'' Table name before) (\<lambda>_.
     bind (on_store (be_put_table b name (given_or args ''draft'' (PDict [])))) (\<lambda>saved.
     return (saved_result (PDict saved) (verb before))))))"

definition delete_table :: "'s handler" where
  "delete_table b args =
     bind (reads (\<lambda>c. need args ''name'')) (\<lambda>name.
     bind (on_read (be_get_table b name)) (\<lambda>before.
     bind (the_before before) (\<lambda>_.
     bind (record_change ''delete_table'' Table name before) (\<lambda>_.
     bind (on_store (be_delete_table b name)) (\<lambda>_.
     return (deleted_result name))))))"

definition set_global_variables :: "'s handler" where
  "set_global_variables b args =
     bind (on_read (be_get_global_variables b)) (\<lambda>before.
     bind (record_change ''set_global_variables'' Variables ''global'' (Some before)) (\<lambda>_.
     bind (on_store (be_set_global_variables b (given_or args ''variables'' (PDict []))
                      (given_or args ''secrets'' (PList [])))) (\<lambda>saved.
     return (PDict saved))))"

text \<open>The id of a created resource.\<close>

definition id_of :: "doc \<Rightarrow> string" where
  "id_of d = (case get d ''id'' PNone of PStr s \<Rightarrow> s | _ \<Rightarrow> [])"

definition create_starter_flow :: "'s handler" where
  "create_starter_flow b args =
     bind (on_store (be_create_starter_flow b (given_or args ''draft'' (PDict [])) None)) (\<lambda>created.
     bind (record_change ''create_starter_flow'' Starter_Flow (id_of created) None) (\<lambda>_.
     return (PDict [(''saved'', PDict created)])))"

definition delete_starter_flow :: "'s handler" where
  "delete_starter_flow b args =
     bind (reads (\<lambda>c. need args ''fid'')) (\<lambda>fid.
     bind (on_read (be_get_starter_flow b fid)) (\<lambda>before.
     bind (the_before before) (\<lambda>_.
     bind (record_change ''delete_starter_flow'' Starter_Flow fid before) (\<lambda>_.
     bind (on_store (be_delete_starter_flow b fid)) (\<lambda>_.
     return (deleted_result fid))))))"

definition validated_scenario :: "'s backend \<Rightarrow> doc \<Rightarrow> 's \<Rightarrow> failure + pyv" where
  "validated_scenario b args s =
     (let draft = given_or args ''scenario'' (PDict []) in
      rbind (be_validate_scenario b draft s) (\<lambda>v.
      if truthy (get v ''valid'' (PBool True)) then Inr draft else Inl ToolError))"

definition create_scenario :: "'s handler" where
  "create_scenario b args =
     bind (on_read (validated_scenario b args)) (\<lambda>draft.
     bind (on_store (be_create_scenario b draft (get args ''project_id'' PNone)
                      (given_or args ''comment'' (PStr ''created via assistant'')))) (\<lambda>created.
     bind (record_change ''create_scenario'' Scenario (id_of created) None) (\<lambda>_.
     reads (\<lambda>c. scenario_summary created))))"

definition update_scenario :: "'s handler" where
  "update_scenario b args =
     bind (reads (\<lambda>c. need args ''scenario_id'')) (\<lambda>sid.
     bind (on_read (be_get_scenario b sid)) (\<lambda>before.
     bind (the_before before) (\<lambda>_.
     bind (on_read (validated_scenario b args)) (\<lambda>draft.
     bind (reads (\<lambda>c. as_doc draft)) (\<lambda>_.
     bind (record_change ''update_scenario'' Scenario sid before) (\<lambda>_.
     bind (on_store (be_update_scenario b sid draft
                      (given_or args ''comment'' (PStr ''updated via assistant'')))) (\<lambda>updated.
     reads (\<lambda>c. scenario_summary updated))))))))"

text \<open>\<open>_issue_errors\<close>: the issues of a validation that are errors; a bare text is one.\<close>

definition issue_error :: "pyv \<Rightarrow> bool" where
  "issue_error i = (case i of PDict d \<Rightarrow> get d ''severity'' (PStr ''error'') = PStr ''error'' | _ \<Rightarrow> True)"

definition issue_errors :: "doc \<Rightarrow> failure + pyv list" where
  "issue_errors check = rbind (iterate (get check ''issues'' (PList []))) (\<lambda>is. Inr (filter issue_error is))"

definition save_network :: "'s handler" where
  "save_network b args =
     bind (reads (\<lambda>c. need args ''network_id'')) (\<lambda>nid.
     let net = given_or args ''network'' (PDict []) in
     bind (on_read (be_validate_network b net)) (\<lambda>check.
     bind (reads (\<lambda>c. issue_errors check)) (\<lambda>errors.
     bind (if errors \<noteq> [] then raise ToolError else return ()) (\<lambda>_.
     bind (on_read (be_get_network b nid)) (\<lambda>before.
     bind (reads (\<lambda>c. as_doc net)) (\<lambda>_.
     bind (record_change ''save_network'' Network_Flow nid before) (\<lambda>_.
     bind (on_store (be_put_network b nid net)) (\<lambda>saved.
     bind (reads (\<lambda>c. network_summary saved)) (\<lambda>sm.
     return (saved_result sm (verb before)))))))))))"

definition delete_network :: "'s handler" where
  "delete_network b args =
     bind (reads (\<lambda>c. need args ''network_id'')) (\<lambda>nid.
     bind (on_read (be_get_network b nid)) (\<lambda>before.
     bind (the_before before) (\<lambda>_.
     bind (record_change ''delete_network'' Network_Flow nid before) (\<lambda>_.
     bind (on_store (be_delete_network b nid)) (\<lambda>_.
     return (deleted_result nid))))))"

definition REGISTRY_WRITES :: "(string \<times> 's handler) list" where
  "REGISTRY_WRITES =
     [(''upsert_connection'', upsert_connection), (''delete_connection'', delete_connection),
      (''save_table'', save_table), (''delete_table'', delete_table),
      (''set_global_variables'', set_global_variables),
      (''create_starter_flow'', create_starter_flow), (''delete_starter_flow'', delete_starter_flow),
      (''create_scenario'', create_scenario), (''update_scenario'', update_scenario),
      (''save_network'', save_network), (''delete_network'', delete_network)]"

section \<open>Execute tools\<close>

definition train_insights :: "'s handler" where
  "train_insights b args = on_store (be_execute b ''train_insights'' [])"

definition playground_execute :: "'s handler" where
  "playground_execute b args =
     (case map_of args ''action'' of
        None \<Rightarrow> raise (Raised KeyError)
      | Some action \<Rightarrow>
          on_store (be_execute b ''playground_execute''
            [given_or args ''target'' (PDict []), action, given_or args ''payload'' (PDict []),
             get args ''message_format_id'' PNone, get args ''label'' PNone]))"

text \<open>\<open>body.update(extra)\<close>.\<close>

definition update_with :: "doc \<Rightarrow> doc \<Rightarrow> doc" where
  "update_with body extra = filter (\<lambda>kv. fst kv \<notin> fst ` set extra) body @ extra"

definition copied :: "doc \<Rightarrow> string \<Rightarrow> doc" where
  "copied args k = (if truthy (get args k PNone) then [(k, get args k PNone)] else [])"

definition load_base :: "doc \<Rightarrow> rat \<Rightarrow> int \<Rightarrow> rat \<Rightarrow> doc" where
  "load_base args duration workers target =
     [(''type'', given_or args ''profile_type'' (PStr ''steady'')),
      (''duration_s'', PFloat duration), (''workers'', PInt workers), (''target_tps'', PFloat target)] @
     copied args ''scenario_ids'' @ copied args ''scenarios'' @ copied args ''environment_name'' @ copied args ''label'' @ []"

definition load_body :: "doc \<Rightarrow> failure + doc" where
  "load_body args =
     (if copied args ''scenario_ids'' = [] \<and> copied args ''scenarios'' = [] then Inl ToolError
      else
        rbind (lift (float_of (given_or args ''duration_s'' (PInt 60)))) (\<lambda>duration.
        rbind (lift (int_of (given_or args ''workers'' (PInt 1)))) (\<lambda>workers.
        rbind (lift (float_of (given_or args ''target_tps'' (PInt 0)))) (\<lambda>target.
        (case given_or args ''extra'' (PDict []) of
           PDict extra \<Rightarrow> Inr (update_with (load_base args duration workers target) extra)
         | _ \<Rightarrow> Inl (Raised TypeError))))))"

definition start_load_run :: "'s handler" where
  "start_load_run b args =
     bind (reads (\<lambda>c. load_body args)) (\<lambda>body. on_store (be_execute b ''start_load_run'' [PDict body]))"

definition REGISTRY_EXECUTES :: "(string \<times> 's handler) list" where
  "REGISTRY_EXECUTES =
     [(''train_insights'', train_insights), (''playground_execute'', playground_execute),
      (''start_load_run'', start_load_run)]"

section \<open>Dispatch\<close>

text \<open>The registry: a tool by its name, with its tier.\<close>

definition READS :: "(string \<times> 's reader) list" where
  "READS = REGISTRY_READS @ RUNTIME_READS @ INSIGHT_READS"

definition REGISTRY :: "(string \<times> tier \<times> 's handler) list" where
  "REGISTRY =
     map (\<lambda>(n, h). (n, Read, \<lambda>b args. on_read (h b args))) READS @
     map (\<lambda>(n, h). (n, Write, h)) REGISTRY_WRITES @
     map (\<lambda>(n, h). (n, Execute, h)) REGISTRY_EXECUTES"

definition ALL_TIERS :: "tier list" where
  "ALL_TIERS = [Read, Write, Execute]"

definition tools_for :: "tier list \<Rightarrow> string list" where
  "tools_for tiers = map fst (filter (\<lambda>(n, t, h :: unit handler). t \<in> set tiers) REGISTRY)"

text \<open>The envelope: an answer, a refusal by a guardrail, or a failure.\<close>

datatype envelope = Answer tier pyv | Refused | Failed

definition dispatch :: "'s backend \<Rightarrow> string \<Rightarrow> doc \<Rightarrow> tier list option \<Rightarrow> 's ctx \<Rightarrow> envelope \<times> 's ctx" where
  "dispatch b name args tiers c =
     (case map_of REGISTRY name of
        None \<Rightarrow> (Failed, c)
      | Some (t, h) \<Rightarrow>
          if (case tiers of None \<Rightarrow> False | Some ts \<Rightarrow> t \<notin> set ts) then (Refused, c)
          else
            (case h b args c of
               (Inr v, c') \<Rightarrow>
                 (Answer t v, if t = Write then capture_after b (length (cx_records c)) c' else c')
             | (Inl GuardrailError, c') \<Rightarrow> (Refused, c')
             | (Inl e, c') \<Rightarrow> (Failed, c')))"

section \<open>The grant of an agent\<close>

definition tiers_for_mode :: "mode \<Rightarrow> tier list" where
  "tiers_for_mode m = (if m = Full then ALL_TIERS else [Read])"

record tool_scope =
  sc_allow :: "string list"
  sc_mode :: mode
  sc_projects :: "string list"
  sc_environments :: "string list"
  sc_result_cap :: nat
  sc_load_cap :: "int option"

definition schemas :: "tool_scope \<Rightarrow> string list" where
  "schemas sc =
     filter (\<lambda>n. n \<in> set (sc_allow sc)) (tools_for (if sc_mode sc \<in> {Plan, Full} then ALL_TIERS else [Read]))"

definition SCOPE_PROJECT_KEYS :: "string list" where
  "SCOPE_PROJECT_KEYS = [''project_id'', ''project'']"

definition SCOPE_ENV_KEYS :: "string list" where
  "SCOPE_ENV_KEYS = [''environment'', ''environment_name'', ''env'']"

definition text_of :: "pyv \<Rightarrow> string list" where
  "text_of v = (case v of PStr s \<Rightarrow> if s = [] then [] else [s] | _ \<Rightarrow> [])"

definition inner :: "doc \<Rightarrow> string \<Rightarrow> doc" where
  "inner args k = (case get args k PNone of PDict d \<Rightarrow> d | _ \<Rightarrow> [])"

definition scope_values :: "doc \<Rightarrow> string list \<Rightarrow> string list" where
  "scope_values args keys =
     concat (map (\<lambda>k. text_of (get args k PNone)) keys) @
     concat (map (\<lambda>nested. concat (map (\<lambda>k. text_of (get (inner args nested) k PNone)) keys))
       [''spec'', ''target'', ''extra''])"

definition outside :: "string list \<Rightarrow> string list \<Rightarrow> bool" where
  "outside vs allowed \<longleftrightarrow> ''*'' \<notin> set allowed \<and> list_ex (\<lambda>v. v \<notin> set allowed) vs"

text \<open>Whether a call is refused for its scope.\<close>

definition check_write_scope :: "tool_scope \<Rightarrow> tier \<Rightarrow> doc \<Rightarrow> bool" where
  "check_write_scope sc t args =
     (if t = Read then False
      else (let projects = scope_values args SCOPE_PROJECT_KEYS; envs = scope_values args SCOPE_ENV_KEYS in
            if outside projects (sc_projects sc) then True
            else if outside envs (sc_environments sc) then True
            else projects = [] \<and> envs = [] \<and> ''*'' \<notin> set (sc_projects sc)))"

section \<open>The cap on load\<close>

datatype rate = Rate rat | Unbounded

text \<open>The spellings of infinity and not-a-number that \<open>float\<close> reads.\<close>

definition nonfinite_text :: "string \<Rightarrow> bool" where
  "nonfinite_text s =
     (let t = strip (u s);
          t = (case t of [] \<Rightarrow> [] | c # cs \<Rightarrow> if c = 43 \<or> c = 45 then cs else t) in
      lower (map char_of t) \<in> {''inf'', ''infinity'', ''nan''})"

text \<open>\<open>float(n)\<close> raises for an integer that rounds beyond the largest float.\<close>

definition FLOAT_LIMIT :: int where
  "FLOAT_LIMIT = 2 ^ 1024 - 2 ^ 970"

text \<open>One rate knob: no rate, a rate, or unbounded.\<close>

definition knob :: "pyv \<Rightarrow> py_error + rate option" where
  "knob v =
     (case v of
        PInt n \<Rightarrow> if \<bar>n\<bar> \<ge> FLOAT_LIMIT then Inl OverflowError else Inr (Some (Rate (of_int n)))
      | PFloat q \<Rightarrow> Inr (Some (Rate q))
      | PStr s \<Rightarrow>
          if nonfinite_text s then Inr (Some Unbounded)
          else (case float_text (u s) of None \<Rightarrow> Inr None | Some q \<Rightarrow> Inr (Some (Rate q)))
      | _ \<Rightarrow> Inr None)"

definition LOAD_RATE_KEYS :: "string list" where
  "LOAD_RATE_KEYS = [''target_tps'', ''end_tps'', ''spike_tps'', ''start_tps'', ''base_tps'']"

fun peak_of :: "rat \<Rightarrow> pyv list \<Rightarrow> py_error + rate" where
  "peak_of peak [] = Inr (Rate peak)"
| "peak_of peak (v # vs) =
     rbind (knob v) (\<lambda>k.
       (case k of
          None \<Rightarrow> peak_of peak vs
        | Some Unbounded \<Rightarrow> Inr Unbounded
        | Some (Rate q) \<Rightarrow> peak_of (max peak q) vs))"

definition requested_tps :: "doc \<Rightarrow> py_error + rate" where
  "requested_tps args =
     peak_of 0 (map (\<lambda>k. get args k PNone) LOAD_RATE_KEYS @
                map (\<lambda>k. get (inner args ''extra'') k PNone) LOAD_RATE_KEYS)"

text \<open>Whether a call asks for more load than the scope's cap; a cap of 0 is none.\<close>

definition check_load_cap :: "tool_scope \<Rightarrow> string \<Rightarrow> doc \<Rightarrow> py_error + bool" where
  "check_load_cap sc name args =
     (if name \<noteq> ''start_load_run'' \<or> or_default 0 (sc_load_cap sc) = 0 then Inr False
      else rbind (requested_tps args) (\<lambda>r.
        Inr (case r of Unbounded \<Rightarrow> True | Rate q \<Rightarrow> q > of_int (or_default 0 (sc_load_cap sc)))))"

section \<open>Scoped dispatch\<close>

text \<open>\<open>_cap_result\<close>, with the JSON text of a value as a parameter; texts are taken as ASCII.\<close>

definition cap_result :: "(pyv \<Rightarrow> string) \<Rightarrow> pyv \<Rightarrow> nat \<Rightarrow> pyv \<times> bool" where
  "cap_result js v cap =
     (if length (js v) \<le> cap then (v, False)
      else (PDict [(''truncated_json'', PStr (take cap (js v))),
                   (''note'', PStr (''result exceeded '' @ dec_string cap @ '' bytes and was cut''))], True))"

definition UNTRUSTED_RESULT_TOOLS :: "tier \<Rightarrow> bool" where
  "UNTRUSTED_RESULT_TOOLS t \<longleftrightarrow> t \<in> {Read, Execute}"

definition wrap_untrusted :: "string \<Rightarrow> pyv \<Rightarrow> pyv" where
  "wrap_untrusted name v = PDict [(''kind'', PStr ''untrusted''), (''source'', PStr name), (''data'', v)]"

text \<open>An envelope as the runner gets it: the answer is masked, cut and wrapped; the flag tells of a cut.\<close>

definition finish ::
    "(string \<Rightarrow> string) \<Rightarrow> (pyv \<Rightarrow> string) \<Rightarrow> tool_scope \<Rightarrow> string \<Rightarrow> envelope \<Rightarrow> envelope \<times> bool" where
  "finish sha js sc name e =
     (case e of
        Answer t v \<Rightarrow>
          (case cap_result js (mask_secrets sha v) (sc_result_cap sc) of
             (w, truncated) \<Rightarrow> (Answer t (if UNTRUSTED_RESULT_TOOLS t then wrap_untrusted name w else w), truncated))
      | _ \<Rightarrow> (e, False))"

definition scoped_dispatch ::
    "(string \<Rightarrow> string) \<Rightarrow> (pyv \<Rightarrow> string) \<Rightarrow> 's backend \<Rightarrow> tool_scope \<Rightarrow> string \<Rightarrow> doc \<Rightarrow> 's ctx \<Rightarrow>
       (py_error + envelope \<times> bool) \<times> 's ctx" where
  "scoped_dispatch sha js b sc name args c =
     (if name \<notin> set (sc_allow sc) then (Inr (Refused, False), c)
      else (case map_of REGISTRY name of
         None \<Rightarrow> (Inr (Failed, False), c)
       | Some (t, h :: 's handler) \<Rightarrow>
           if t \<in> set (tiers_for_mode (sc_mode sc)) \<and> check_write_scope sc t args then (Inr (Refused, False), c)
           else (case (if t \<in> set (tiers_for_mode (sc_mode sc)) then check_load_cap sc name args else Inr False) of
              Inl e \<Rightarrow> (Inl e, c)
            | Inr True \<Rightarrow> (Inr (Refused, False), c)
            | Inr False \<Rightarrow>
                (case dispatch b name args (Some (tiers_for_mode (sc_mode sc))) c of
                   (e, c') \<Rightarrow> (Inr (finish sha js sc name e), c')))))"

section \<open>Only granted calls change anything\<close>

lemma registry_read: "map_of REGISTRY name = Some (Read, h) \<Longrightarrow> \<exists>r. h = (\<lambda>b args. on_read (r b args))"
  by (auto dest!: map_of_SomeD simp: REGISTRY_def)

lemma dispatch_read:
  assumes "snd (dispatch (b :: 'a backend) name args tiers c) \<noteq> c"
  shows "\<exists>t h. map_of (REGISTRY :: (string \<times> tier \<times> 'a handler) list) name = Some (t, h) \<and> t \<noteq> Read \<and> (case tiers of None \<Rightarrow> True | Some ts \<Rightarrow> t \<in> set ts)"
proof -
  obtain t h where th: "map_of (REGISTRY :: (string \<times> tier \<times> 'a handler) list) name = Some (t, h)"
    using assms by (auto simp: dispatch_def split: option.splits)
  have tiers: "case tiers of None \<Rightarrow> True | Some ts \<Rightarrow> t \<in> set ts"
    using assms th by (cases tiers) (auto simp: dispatch_def split: if_splits)
  have "t \<noteq> Read"
  proof
    assume t: "t = Read"
    then obtain r where "h = (\<lambda>b args. on_read (r b args))" using registry_read th by blast
    then have "snd (h b args c) = c" by (simp add: on_read_def reads_def)
    then show False
      using assms th t tiers
      by (cases "h b args c") (auto simp: dispatch_def split: option.splits sum.splits failure.splits)
  qed
  then show ?thesis using th tiers by blast
qed

text \<open>C3. Whatever a model asks for, a call changes the store or the journal only if the tool is in the
  agent's allowlist, the agent runs in full mode, the tool is a write or execute tool, every project and
  environment the call names is in the agent's scope and it names one unless the scope has all projects,
  and a load run stays under the cap.\<close>

theorem only_granted_calls_change:
  assumes "snd (scoped_dispatch sha js (b :: 'a backend) sc name args c) \<noteq> c"
  shows "name \<in> set (sc_allow sc) \<and> sc_mode sc = Full \<and>
    (\<exists>t h. map_of (REGISTRY :: (string \<times> tier \<times> 'a handler) list) name = Some (t, h) \<and> t \<noteq> Read) \<and>
    (''*'' \<in> set (sc_projects sc) \<or> set (scope_values args SCOPE_PROJECT_KEYS) \<subseteq> set (sc_projects sc)) \<and>
    (''*'' \<in> set (sc_environments sc) \<or> set (scope_values args SCOPE_ENV_KEYS) \<subseteq> set (sc_environments sc)) \<and>
    (''*'' \<in> set (sc_projects sc) \<or> scope_values args SCOPE_PROJECT_KEYS @ scope_values args SCOPE_ENV_KEYS \<noteq> []) \<and>
    check_load_cap sc name args = Inr False"
proof -
  have allow: "name \<in> set (sc_allow sc)" using assms by (auto simp: scoped_dispatch_def split: if_splits)
  obtain t h where th: "map_of (REGISTRY :: (string \<times> tier \<times> 'a handler) list) name = Some (t, h)"
    using assms by (auto simp: scoped_dispatch_def split: option.splits if_splits)
  have "snd (dispatch b name args (Some (tiers_for_mode (sc_mode sc))) c) \<noteq> c"
    using assms th by (auto simp: scoped_dispatch_def split: prod.splits sum.splits bool.splits if_splits)
  from dispatch_read [OF this] have t: "t \<noteq> Read" "t \<in> set (tiers_for_mode (sc_mode sc))" using th by auto
  then have full: "sc_mode sc = Full" by (auto simp: tiers_for_mode_def split: if_splits)
  have "\<not> check_write_scope sc t args" and "check_load_cap sc name args = Inr False"
    using assms th t(2) by (auto simp: scoped_dispatch_def split: prod.splits sum.splits bool.splits if_splits)
  then show ?thesis
    using allow full th t(1)
    by (auto simp: check_write_scope_def outside_def list_ex_iff Let_def split: if_splits)
qed

text \<open>A backend that only counts what it executes, and an agent that may start load.\<close>

definition counting_backend :: "nat backend" where
  "counting_backend =
     \<lparr>be_query = (\<lambda>m xs s. Inr PNone), be_get_connection = (\<lambda>k s. Inr None), be_put_connection = (\<lambda>k v. raise ToolError),
      be_delete_connection = (\<lambda>k. raise ToolError), be_get_table = (\<lambda>k s. Inr None),
      be_put_table = (\<lambda>k v. raise ToolError), be_delete_table = (\<lambda>k. raise ToolError),
      be_get_global_variables = (\<lambda>s. Inr []), be_set_global_variables = (\<lambda>v w. raise ToolError),
      be_get_starter_flow = (\<lambda>k s. Inr None), be_create_starter_flow = (\<lambda>v k s. (Inr [(''id'', PStr ''f'')], s + 1)),
      be_delete_starter_flow = (\<lambda>k. raise ToolError), be_get_scenario = (\<lambda>k s. Inr None),
      be_create_scenario = (\<lambda>v p w. raise ToolError), be_update_scenario = (\<lambda>k v w. raise ToolError),
      be_delete_scenario = (\<lambda>k. raise ToolError), be_validate_scenario = (\<lambda>v s. Inr []),
      be_get_network = (\<lambda>k s. Inr None), be_put_network = (\<lambda>k v. raise ToolError),
      be_delete_network = (\<lambda>k. raise ToolError), be_validate_network = (\<lambda>v s. Inr []),
      be_execute = (\<lambda>m xs s. (Inr PNone, s + 1))\<rparr>"

definition demo_scope :: tool_scope where
  "demo_scope = \<lparr>sc_allow = [''start_load_run''], sc_mode = Full, sc_projects = [''p''], sc_environments = [''mock''],
     sc_result_cap = 65536, sc_load_cap = Some 100\<rparr>"

definition demo_ctx :: "nat ctx" where
  "demo_ctx = \<lparr>cx_store = 0, cx_records = [], cx_seq = 0, cx_on_record = (\<lambda>r. None), cx_referenced = []\<rparr>"

definition demo_load :: doc where
  "demo_load = [(''scenario_ids'', PList [PStr ''s'']), (''environment_name'', PStr ''mock''), (''target_tps'', PInt 50)]"

lemma start_load_run_tool: "map_of REGISTRY ''start_load_run'' = Some (Execute, start_load_run)"
  by (simp add: REGISTRY_def READS_def REGISTRY_READS_def RUNTIME_READS_def INSIGHT_READS_def
      REGISTRY_WRITES_def REGISTRY_EXECUTES_def map_of_append del: append_Cons append_Nil)

lemma load_dispatch:
  "dispatch b ''start_load_run'' args (Some ALL_TIERS) c =
     (case load_body args of
        Inl e \<Rightarrow> (if e = GuardrailError then Refused else Failed, c)
      | Inr body \<Rightarrow>
          (case be_execute b ''start_load_run'' [PDict body] (cx_store c) of
             (Inr v, s') \<Rightarrow> (Answer Execute v, c\<lparr>cx_store := s'\<rparr>)
           | (Inl e, s') \<Rightarrow> (if e = GuardrailError then Refused else Failed, c\<lparr>cx_store := s'\<rparr>)))"
  by (auto simp: dispatch_def start_load_run_tool ALL_TIERS_def start_load_run_def bind_def reads_def on_store_def
      split: sum.splits prod.splits failure.splits)

lemma load_not_read: "dispatch b ''start_load_run'' args (Some [Read]) c = (Refused, c)"
  by (simp add: dispatch_def start_load_run_tool)

text \<open>A call of \<open>start_load_run\<close> that gets through is in scope, under the cap, and dispatched.\<close>

lemma scoped_load:
  assumes "scoped_dispatch sha js b sc ''start_load_run'' args c = (Inr (Answer t v, truncated), c')"
  shows "check_load_cap sc ''start_load_run'' args = Inr False \<and>
    (\<exists>e. dispatch b ''start_load_run'' args (Some ALL_TIERS) c = (Answer Execute e, c'))"
  using assms
  by (auto simp: scoped_dispatch_def start_load_run_tool load_not_read tiers_for_mode_def finish_def ALL_TIERS_def load_dispatch [unfolded ALL_TIERS_def]
      split: if_splits sum.splits bool.splits prod.splits)

lemma demo_body: "load_body demo_load = Inr [(''type'', PStr ''steady''), (''duration_s'', PFloat 60), (''workers'', PInt 1),
    (''target_tps'', PFloat 50), (''scenario_ids'', PList [PStr ''s'']), (''environment_name'', PStr ''mock'')]"
  by (simp add: load_body_def load_base_def copied_def given_or_def demo_load_def update_with_def lift_def)

lemma FLOAT_LIMIT_large: "1000000 < FLOAT_LIMIT"
proof -
  have "(2 :: int) ^ 1024 = 2 ^ 970 * 2 ^ 54" by (simp only: power_add [symmetric]) simp
  then have "FLOAT_LIMIT = 2 ^ 970 * (2 ^ 54 - 1)" unfolding FLOAT_LIMIT_def by (simp only: right_diff_distrib mult_1_right)
  moreover have "1 * (2 ^ 54 - 1) \<le> 2 ^ 970 * (2 ^ 54 - 1 :: int)"
    by (rule mult_right_mono [OF one_le_power]) simp_all
  moreover have "1000000 < (2 ^ 54 - 1 :: int)" by simp
  ultimately show ?thesis by (simp only: mult_1_left)
qed

lemma knob_None: "knob PNone = Inr None"
  by (simp add: knob_def)

lemma knob_below: "\<bar>n\<bar> < FLOAT_LIMIT \<Longrightarrow> knob (PInt n) = Inr (Some (Rate (of_int n)))"
  by (simp add: knob_def)

lemma knob_50: "knob (PInt 50) = Inr (Some (Rate 50))"
proof -
  have "\<bar>50\<bar> < FLOAT_LIMIT" by (rule less_trans [OF _ FLOAT_LIMIT_large]) simp
  from knob_below [OF this] show ?thesis by simp
qed

lemma rbind_weak_cong: "m = m' \<Longrightarrow> rbind m f = rbind m' f"
  by simp

lemma demo_cap: "check_load_cap demo_scope ''start_load_run'' demo_load = Inr False"
proof -
  have knobs: "map (\<lambda>k. get demo_load k PNone) LOAD_RATE_KEYS = [PInt 50, PNone, PNone, PNone, PNone]"
    and extra: "inner demo_load ''extra'' = []"
    by (simp_all add: demo_load_def LOAD_RATE_KEYS_def inner_def)
  have "requested_tps demo_load = Inr (Rate 50)"
    unfolding requested_tps_def knobs extra
    by (simp add: knob_None knob_50 LOAD_RATE_KEYS_def cong: rbind_weak_cong)
  then show ?thesis by (simp add: check_load_cap_def demo_scope_def)
qed

lemma demo_load_runs:
  "scoped_dispatch (\<lambda>s. []) (\<lambda>v. []) counting_backend demo_scope ''start_load_run'' demo_load demo_ctx =
     (Inr (Answer Execute (wrap_untrusted ''start_load_run'' PNone), False), demo_ctx\<lparr>cx_store := 1\<rparr>)"
proof -
  have "\<not> check_write_scope demo_scope Execute demo_load"
    by (simp add: check_write_scope_def scope_values_def outside_def demo_scope_def demo_load_def SCOPE_PROJECT_KEYS_def
        SCOPE_ENV_KEYS_def text_of_def inner_def)
  moreover have "''start_load_run'' \<in> set (sc_allow demo_scope)" "sc_mode demo_scope = Full"
    by (simp_all add: demo_scope_def)
  ultimately show ?thesis
    by (simp add: scoped_dispatch_def start_load_run_tool tiers_for_mode_def ALL_TIERS_def demo_cap
        load_dispatch [unfolded ALL_TIERS_def] demo_body counting_backend_def demo_ctx_def finish_def cap_result_def
        UNTRUSTED_RESULT_TOOLS_def)
qed

theorem only_granted_calls_change_witness:
  "sc_mode demo_scope = Full \<and> set (scope_values demo_load SCOPE_ENV_KEYS) \<subseteq> {''mock''}"
proof -
  have "snd (scoped_dispatch (\<lambda>s. []) (\<lambda>v. []) counting_backend demo_scope ''start_load_run'' demo_load demo_ctx) \<noteq> demo_ctx"
    unfolding demo_load_runs by (simp add: demo_ctx_def)
  from only_granted_calls_change [OF this] show ?thesis by (simp add: demo_scope_def)
qed

section \<open>Load stays under the cap\<close>

text \<open>A knob that is no rate, or a rate of at most \<open>q\<close>.\<close>

definition knob_under :: "rat \<Rightarrow> pyv \<Rightarrow> bool" where
  "knob_under q v \<longleftrightarrow> (case knob v of Inl e \<Rightarrow> False | Inr None \<Rightarrow> True | Inr (Some Unbounded) \<Rightarrow> False
     | Inr (Some (Rate r)) \<Rightarrow> r \<le> q)"

lemma peak_of_bound: "peak_of p vs = Inr (Rate q) \<Longrightarrow> p \<le> q \<and> list_all (knob_under q) vs"
proof (induction vs arbitrary: p)
  case (Cons v vs)
  from Cons.prems obtain k where k: "knob v = Inr k"
    and r: "(case k of None \<Rightarrow> peak_of p vs | Some Unbounded \<Rightarrow> Inr Unbounded
      | Some (Rate q') \<Rightarrow> peak_of (max p q') vs) = Inr (Rate q)"
    by (auto simp: result_iff)
  show ?case
  proof (cases k)
    case None
    then show ?thesis using Cons.IH r k by (simp add: knob_under_def)
  next
    case (Some x)
    with r obtain q' where x: "x = Rate q'" by (cases x) auto
    then show ?thesis using Some r k Cons.IH [of "max p q'"] by (simp add: knob_under_def)
  qed
qed simp

lemma knob_float: "knob_under q v \<Longrightarrow> float_of v = Inr x \<Longrightarrow> 1 \<le> q \<Longrightarrow> x \<le> q"
  by (cases v) (auto simp: knob_under_def knob_def of_option_def split: if_splits option.splits)

lemma map_of_without:
  "map_of (filter (\<lambda>kv. fst kv \<notin> A) body) k = (if k \<in> A then None else map_of body k)"
  by (induction body) auto

lemma get_update_with:
  "get (update_with body extra) k d = (if k \<in> fst ` set extra then get extra k d else get body k d)"
proof (cases "k \<in> fst ` set extra")
  case False
  then have "map_of extra k = None" by (simp add: map_of_eq_None_iff)
  with False show ?thesis
    by (simp add: get_def update_with_def map_of_without map_add_def split: option.splits)
qed (simp add: get_def update_with_def map_of_without map_add_def split: option.splits)

lemma get_copied: "k \<noteq> k' \<Longrightarrow> get (copied args k @ rest) k' d = get rest k' d"
  by (simp add: copied_def)

definition under :: "rat \<Rightarrow> pyv \<Rightarrow> bool" where
  "under q v \<longleftrightarrow> (case float_of v of Inl e \<Rightarrow> True | Inr x \<Rightarrow> x \<le> q)"

lemma knob_under_under: "knob_under q v \<Longrightarrow> 1 \<le> q \<Longrightarrow> under q v"
  using knob_float by (auto simp: under_def split: sum.splits)

lemma cap_knobs:
  assumes "check_load_cap sc ''start_load_run'' args = Inr False" and "sc_load_cap sc = Some cap" and "cap \<noteq> 0"
    and "k \<in> set LOAD_RATE_KEYS"
  shows "1 \<le> (of_int cap :: rat) \<and> under (of_int cap) (get args k PNone) \<and> under (of_int cap) (get (inner args ''extra'') k PNone)"
proof -
  obtain r where r: "requested_tps args = Inr r" "\<not> (case r of Unbounded \<Rightarrow> True | Rate q \<Rightarrow> q > of_int cap)"
    using assms(1,3) unfolding check_load_cap_def assms(2) or_default_simps by (auto simp: result_iff)
  then obtain q where q: "requested_tps args = Inr (Rate q)" "q \<le> of_int cap"
    by (cases r) (auto simp: not_less)
  have p: "0 \<le> q" "list_all (knob_under q) (map (\<lambda>k. get args k PNone) LOAD_RATE_KEYS @
      map (\<lambda>k. get (inner args ''extra'') k PNone) LOAD_RATE_KEYS)"
    using peak_of_bound q(1) [unfolded requested_tps_def] by blast+
  then have "0 \<le> (of_int cap :: rat)" using q(2) by linarith
  with assms(3) have cap: "1 \<le> (of_int cap :: rat)" by simp
  have mono: "knob_under q v \<Longrightarrow> knob_under (of_int cap) v" for v
    using q(2) by (auto simp: knob_under_def split: sum.splits option.splits rate.splits)
  show ?thesis using p(2) assms(4) cap mono knob_under_under by (auto simp: list_all_iff)
qed

lemma load_body_parts:
  assumes "load_body args = Inr body"
  obtains duration workers target extra where
    "float_of (given_or args ''target_tps'' (PInt 0)) = Inr target" and
    "given_or args ''extra'' (PDict []) = PDict extra" and
    "body = update_with (load_base args duration workers target) extra"
proof -
  from assms obtain duration workers target where
    "lift (float_of (given_or args ''target_tps'' (PInt 0))) = Inr target" and
    "(case given_or args ''extra'' (PDict []) of
        PDict extra \<Rightarrow> Inr (update_with (load_base args duration workers target) extra)
      | _ \<Rightarrow> Inl (Raised TypeError)) = Inr body"
    unfolding load_body_def
    by (simp only: result_iff Inl_Inr_False split: if_splits) (elim exE conjE, rule that)
  moreover from this(2) obtain extra where "given_or args ''extra'' (PDict []) = PDict extra"
    and "body = update_with (load_base args duration workers target) extra"
    by (auto split: pyv.splits)
  ultimately show thesis by (intro that) (auto simp: lift_def split: sum.splits)
qed

lemma get_load_base:
  "k \<in> set LOAD_RATE_KEYS \<Longrightarrow>
     get (load_base args d w t) k (PFloat 0) = (if k = ''target_tps'' then PFloat t else PFloat 0)"
  unfolding load_base_def LOAD_RATE_KEYS_def list.set insert_iff empty_iff
  by (elim disjE) (simp_all only: append_Cons append_Nil get_simps get_copied simp_thms if_True if_False list.inject char.inject list.distinct)

lemma load_body_rates:
  assumes "load_body args = Inr body" and "k \<in> set LOAD_RATE_KEYS" and "1 \<le> q"
    and "under q (get args k PNone)" and "under q (get (inner args ''extra'') k PNone)"
  shows "under q (get body k (PFloat 0))"
  using assms(1)
proof (rule load_body_parts)
  fix duration workers target extra
  assume target: "float_of (given_or args ''target_tps'' (PInt 0)) = Inr target"
    and extra: "given_or args ''extra'' (PDict []) = PDict extra"
    and body: "body = update_with (load_base args duration workers target) extra"
  have ex: "extra = inner args ''extra''"
    using extra by (cases "get args ''extra'' PNone") (auto simp: given_or_def inner_def split: if_splits)
  show ?thesis
  proof (cases "k \<in> fst ` set extra")
    case True
    then have "get extra k (PFloat 0) = get extra k PNone"
      by (auto simp: get_def dom_map_of_conv_image_fst [symmetric])
    then show ?thesis using True assms(5) ex by (simp add: body get_update_with)
  next
    case False
    have "under q (PFloat target)" if "k = ''target_tps''"
      using target assms(3,4) that by (auto simp: given_or_def under_def split: if_splits)
    then show ?thesis
      using False assms(3) by (simp add: body get_update_with get_load_base [OF assms(2)] under_def)
  qed
qed

text \<open>C34. When a call of \<open>start_load_run\<close> is answered, every rate in the body that reaches the orchestrator
  is at most the cap of the agent: \<open>target_tps\<close> and the rates given in \<open>extra\<close>, as numbers or texts.\<close>

theorem load_stays_under_cap:
  assumes "scoped_dispatch sha js b sc ''start_load_run'' args c = (Inr (Answer t v, truncated), c')"
    and "sc_load_cap sc = Some cap" and "cap \<noteq> 0"
  shows "\<exists>body. load_body args = Inr body \<and> list_all (\<lambda>k. under (of_int cap) (get body k (PFloat 0))) LOAD_RATE_KEYS \<and>
    cx_store c' = snd (be_execute b ''start_load_run'' [PDict body] (cx_store c))"
proof -
  from scoped_load [OF assms(1)] obtain e where cap: "check_load_cap sc ''start_load_run'' args = Inr False"
    and d: "dispatch b ''start_load_run'' args (Some ALL_TIERS) c = (Answer Execute e, c')" by blast
  from d obtain body where body: "load_body args = Inr body"
    and store: "cx_store c' = snd (be_execute b ''start_load_run'' [PDict body] (cx_store c))"
    by (auto simp: load_dispatch split: sum.splits prod.splits if_splits)
  have "list_all (\<lambda>k. under (of_int cap) (get body k (PFloat 0))) LOAD_RATE_KEYS"
    unfolding list_all_iff using cap_knobs [OF cap assms(2,3)] load_body_rates [OF body] by blast
  then show ?thesis using body store by blast
qed

theorem load_stays_under_cap_witness:
  "\<exists>body. load_body demo_load = Inr body \<and> list_all (\<lambda>k. under 100 (get body k (PFloat 0))) LOAD_RATE_KEYS"
proof -
  have "sc_load_cap demo_scope = Some 100" by (simp add: demo_scope_def)
  from load_stays_under_cap [OF demo_load_runs this] show ?thesis by auto
qed

text \<open>The cap looks at rates only: a soak run, whose load is its connections and their heartbeats, is not held
  back by it, whatever it asks for.\<close>

theorem soak_load_is_uncapped:
  "check_load_cap sc ''start_load_run''
     [(''scenario_ids'', PList [PStr s]), (''profile_type'', PStr ''soak''),
      (''extra'', PDict [(''connections'', PInt n), (''heartbeat_interval_s'', PFloat q)])] = Inr (or_default 0 (sc_load_cap sc) < 0)"
proof -
  have none: "peak_of 0 [PNone, PNone, PNone, PNone, PNone, PNone, PNone, PNone, PNone, PNone] = Inr (Rate 0)"
    by (simp add: knob_None cong: rbind_weak_cong)
  have "requested_tps [(''scenario_ids'', PList [PStr s]), (''profile_type'', PStr ''soak''),
      (''extra'', PDict [(''connections'', PInt n), (''heartbeat_interval_s'', PFloat q)])] = Inr (Rate 0)"
    using none by (simp add: requested_tps_def LOAD_RATE_KEYS_def inner_def del: peak_of.simps)
  then show ?thesis by (simp add: check_load_cap_def)
qed

text \<open>A global write, which needs all projects, passes the scope check when it carries a project of the
  agent that its handler ignores.\<close>

theorem ignored_project_opens_global_writes:
  "\<not> check_write_scope (sc\<lparr>sc_projects := [p]\<rparr>) Write [(''name'', PStr k), (''config'', cfg), (''project_id'', PStr p)] \<or> p = []"
  by (auto simp: check_write_scope_def scope_values_def outside_def SCOPE_PROJECT_KEYS_def SCOPE_ENV_KEYS_def
      text_of_def inner_def)

theorem global_write_ignores_project:
  "upsert_connection b [(''name'', PStr k), (''config'', cfg), (''project_id'', PStr p)] =
   upsert_connection b [(''name'', PStr k), (''config'', cfg)]"
  by (simp add: upsert_connection_def need_def given_or_def)

section \<open>No change without a record\<close>

text \<open>An action that leaves the store as it is while persisting a record fails.\<close>

definition refusing :: "'s ctx \<Rightarrow> bool" where
  "refusing c \<longleftrightarrow> (\<forall>r. cx_on_record c r \<noteq> None)"

definition harmless :: "('s ctx, 'a) act \<Rightarrow> bool" where
  "harmless m \<longleftrightarrow> (\<forall>c. refusing c \<longrightarrow> cx_store (snd (m c)) = cx_store c \<and> refusing (snd (m c)))"

named_theorems harmless_intro \<open>actions that leave the store alone\<close>

lemma harmless_return [harmless_intro]: "harmless (return x)" "harmless (raise e)" "harmless (reads f)" "harmless (on_read g)"
  by (simp_all add: harmless_def return_def raise_def reads_def on_read_def)

lemma harmless_bind [harmless_intro]:
  assumes "harmless m" and "\<And>x. harmless (f x)"
  shows "harmless (bind m f)"
  unfolding harmless_def
proof (intro allI impI)
  fix c :: "'a ctx"
  assume c: "refusing c"
  obtain r c' where m: "m c = (r, c')" by (cases "m c")
  with assms(1) c have "cx_store c' = cx_store c" "refusing c'" by (auto simp: harmless_def)
  then show "cx_store (snd (bind m f c)) = cx_store c \<and> refusing (snd (bind m f c))"
    using assms(2) m by (cases r) (auto simp: bind_def harmless_def)
qed

lemma harmless_record [harmless_intro]: "harmless (bind (record_change tool r k before) f)"
  unfolding harmless_def
proof (intro allI impI)
  fix c :: "'a ctx"
  assume c: "refusing c"
  then obtain e where "cx_on_record c \<lparr>ch_seq = cx_seq c + 1, ch_tool = tool, ch_resource = r, ch_key = k,
      ch_before = before, ch_after = None\<rparr> = Some e"
    unfolding refusing_def by blast
  then show "cx_store (snd (bind (record_change tool r k before) f c)) = cx_store c \<and>
      refusing (snd (bind (record_change tool r k before) f c))"
    using c by (simp add: bind_def record_change_def Let_def refusing_def)
qed

lemma harmless_before [harmless_intro]: "harmless (the_before before)"
  by (cases before) (auto simp: the_before_def harmless_intro)

lemma harmless_if [harmless_intro]: "harmless m \<Longrightarrow> harmless m' \<Longrightarrow> harmless (if q then m else m')"
  by simp

lemma harmless_writes:
  "harmless (upsert_connection b args)" "harmless (delete_connection b args)" "harmless (save_table b args)"
  "harmless (delete_table b args)" "harmless (set_global_variables b args)" "harmless (delete_starter_flow b args)"
  "harmless (update_scenario b args)" "harmless (save_network b args)" "harmless (delete_network b args)"
  unfolding upsert_connection_def delete_connection_def save_table_def delete_table_def set_global_variables_def
    delete_starter_flow_def update_scenario_def save_network_def delete_network_def Let_def
  by (intro harmless_intro)+

text \<open>Updates and deletions are recorded before they happen: when persisting a record fails, no write tool
  but the two that create with a fresh id changes the store.\<close>

theorem unrecorded_changes_are_refused:
  assumes "map_of REGISTRY_WRITES name = Some h" and "name \<notin> {''create_starter_flow'', ''create_scenario''}"
    and "refusing c"
  shows "cx_store (snd (h b args c)) = cx_store c"
proof -
  have "(name, h) \<in> set REGISTRY_WRITES" by (rule map_of_SomeD [OF assms(1)])
  then have "harmless (h b args)"
    using assms(2) unfolding REGISTRY_WRITES_def list.set insert_iff empty_iff prod.inject
    by (elim disjE conjE) (simp_all only: harmless_writes simp_thms)
  then show ?thesis using assms(3) by (simp add: harmless_def)
qed

theorem unrecorded_changes_are_refused_witness:
  "cx_store (snd (save_table counting_backend [(''name'', PStr ''t'')] (demo_ctx\<lparr>cx_on_record := \<lambda>r. Some ToolError\<rparr>))) = 0"
proof -
  have h: "map_of REGISTRY_WRITES ''save_table'' = Some save_table" by (simp add: REGISTRY_WRITES_def)
  have "refusing (demo_ctx\<lparr>cx_on_record := \<lambda>r. Some ToolError\<rparr>)" by (simp add: refusing_def)
  from unrecorded_changes_are_refused [OF h _ this, of counting_backend "[(''name'', PStr ''t'')]"]
  show ?thesis by (simp add: demo_ctx_def)
qed

text \<open>A creation writes first: when persisting its record fails, it stays without a journal entry.\<close>

theorem creation_is_not_recorded_first:
  "create_starter_flow counting_backend [] (demo_ctx\<lparr>cx_on_record := \<lambda>r. Some ToolError\<rparr>) =
     (Inl ToolError, demo_ctx\<lparr>cx_store := 1, cx_seq := 1, cx_on_record := \<lambda>r. Some ToolError\<rparr>)"
  by (simp add: create_starter_flow_def counting_backend_def demo_ctx_def bind_def on_store_def record_change_def Let_def)

end
