(* ===== verification/Registry.thy ===== *)
theory Registry
  imports Hub_Spec
begin

text \<open>
  The registries of the scenario service that tools and users edit: data tables
  (\<open>scenario-service/api/table_store.py\<close>), connections with one default per adapter type
  (\<open>connection_store.py\<close>), scoped variables (\<open>variable_store.py\<close>) and network flows
  (\<open>network_flow_store.py\<close>). Dictionaries are maps; files and locks are left out.
\<close>

section \<open>Slugs\<close>

definition slug_char :: "char \<Rightarrow> bool" where
  "slug_char c \<longleftrightarrow> is_lower_alnum c \<or> c = CHR ''_''"

text \<open>\<open>re.sub(r"[^a-z0-9_]+", "_", text)\<close>; \<open>inside\<close> tells that a run has been replaced already.\<close>

fun squash :: "bool \<Rightarrow> string \<Rightarrow> string" where
  "squash inside [] = []"
| "squash inside (c # cs) =
     (if slug_char c then c # squash False cs
      else (if inside then [] else ''_'') @ squash True cs)"

definition strip_underscores :: "string \<Rightarrow> string" where
  "strip_underscores s = rev (dropWhile (\<lambda>c. c = CHR ''_'') (rev (dropWhile (\<lambda>c. c = CHR ''_'') s)))"

definition slug :: "string \<Rightarrow> string \<Rightarrow> string" where
  "slug fallback text =
     (let s = strip_underscores (squash False (lower text)) in if s = [] then fallback else s)"

text \<open>The names that are their own slug.\<close>

definition is_slug :: "string \<Rightarrow> bool" where
  "is_slug s \<longleftrightarrow> s \<noteq> [] \<and> list_all slug_char s \<and> hd s \<noteq> CHR ''_'' \<and> last s \<noteq> CHR ''_''"

lemma lower_slug_char: "slug_char c \<Longrightarrow> lower_char c = c"
  by (auto simp: slug_char_def is_lower_alnum_def lower_char_def Let_def split: if_splits)

lemma squash_slug: "list_all slug_char s \<Longrightarrow> squash inside s = s"
  by (induction s arbitrary: inside) auto

lemma slug_of_slug:
  assumes "is_slug s"
  shows "slug fallback s = s"
proof -
  have l: "lower s = s" using assms by (auto simp: lower_def is_slug_def list_all_iff lower_slug_char intro: map_idI)
  have "dropWhile (\<lambda>c. c = CHR ''_'') s = s" using assms by (cases s) (auto simp: is_slug_def)
  moreover have "dropWhile (\<lambda>c. c = CHR ''_'') (rev s) = rev s"
    using assms by (cases s rule: rev_cases) (auto simp: is_slug_def)
  ultimately have "strip_underscores s = s" by (simp add: strip_underscores_def)
  then show ?thesis using assms l squash_slug [of s False] by (simp add: slug_def is_slug_def)
qed

section \<open>Tables\<close>

record data_table =
  dt_description :: string
  dt_columns :: "string list"
  dt_rows :: "(string \<times> pyv) list list"

type_synonym tables = "string \<Rightarrow> data_table option"

definition table_upsert :: "string \<Rightarrow> data_table \<Rightarrow> tables \<Rightarrow> tables" where
  "table_upsert name draft ts = ts(slug ''table'' name \<mapsto> draft)"

definition table_delete :: "string \<Rightarrow> tables \<Rightarrow> tables result" where
  "table_delete name ts = (if ts name = None then Inl KeyError else Inr (ts(name := None)))"

section \<open>Connections\<close>

type_synonym connection = "(string \<times> pyv) list"
type_synonym connections = "string \<Rightarrow> connection option"

text \<open>\<open>(v or fallback).lower()\<close> for a text.\<close>

definition lower_or :: "string \<Rightarrow> pyv \<Rightarrow> string" where
  "lower_or fallback v = lower (case v of PStr s \<Rightarrow> if s = [] then fallback else s | _ \<Rightarrow> fallback)"

definition type_key :: "pyv \<Rightarrow> pyv \<Rightarrow> string" where
  "type_key adapter protocol =
     (let a = lower_or ''tcp'' adapter in
      if a = ''tcp'' then ''tcp/'' @ lower_or ''iso8583'' protocol else a)"

definition doc_type :: "connection \<Rightarrow> string" where
  "doc_type d = type_key (get d ''adapter'' (PStr ''tcp'')) (get d ''protocol'' (PStr ''iso8583''))"

definition is_default :: "connection \<Rightarrow> bool" where
  "is_default d \<longleftrightarrow> truthy (get d ''default'' PNone)"

definition demote :: "connection \<Rightarrow> connection" where
  "demote d = map (\<lambda>(k, v). (k, if k = ''default'' then PBool False else v)) d"

definition demote_other_defaults :: "string \<Rightarrow> connection \<Rightarrow> connections \<Rightarrow> connections" where
  "demote_other_defaults keep d cs =
     (\<lambda>k. map_option (\<lambda>o'. if k \<noteq> keep \<and> is_default o' \<and> doc_type o' = doc_type d then demote o' else o') (cs k))"

definition connection_upsert :: "string \<Rightarrow> connection \<Rightarrow> connections \<Rightarrow> connections" where
  "connection_upsert name draft cs =
     (let key = slug ''connection'' name; d = filter (\<lambda>kv. fst kv \<noteq> ''name'') draft;
          d = (if ''default'' \<notin> fst ` set d \<and> (case cs key of None \<Rightarrow> False | Some e \<Rightarrow> is_default e)
               then d @ [(''default'', PBool True)] else d);
          cs = (if is_default d then demote_other_defaults key d cs else cs) in
      cs(key \<mapsto> d))"

definition connection_rename :: "string \<Rightarrow> string \<Rightarrow> connections \<Rightarrow> connections result" where
  "connection_rename old new cs =
     (case cs old of
        None \<Rightarrow> Inl KeyError
      | Some d \<Rightarrow> Inr ((cs(old := None))(slug ''connection'' new \<mapsto> d)))"

definition connection_delete :: "string \<Rightarrow> connections \<Rightarrow> connections result" where
  "connection_delete name cs = (if cs name = None then Inl KeyError else Inr (cs(name := None)))"

text \<open>The defaults of a type, by name.\<close>

definition default_names :: "connections \<Rightarrow> string \<Rightarrow> string set" where
  "default_names cs ty = {k. \<exists>d. cs k = Some d \<and> is_default d \<and> doc_type d = ty}"

definition one_default :: "connections \<Rightarrow> bool" where
  "one_default cs \<longleftrightarrow> (\<forall>ty k k'. k \<in> default_names cs ty \<and> k' \<in> default_names cs ty \<longrightarrow> k = k')"

lemma get_absent: "k \<notin> fst ` set d \<Longrightarrow> get d k x = x"
  by (induction d) auto

lemma get_demote:
  "get (demote d) k x = (if k = ''default'' then if k \<in> fst ` set d then PBool False else x else get d k x)"
proof (induction d)
  case (Cons kv d)
  obtain a b where kv: "kv = (a, b)" by (cases kv) auto
  have "get (demote (kv # d)) k x = (if k = a then if a = ''default'' then PBool False else b else get (demote d) k x)"
    by (simp add: kv demote_def)
  then show ?case unfolding Cons.IH by (simp add: kv)
qed (simp add: demote_def)

lemma demote_simps [simp]: "\<not> is_default (demote d)" "doc_type (demote d) = doc_type d"
  by (auto simp: is_default_def doc_type_def get_demote)

text \<open>What an upsert stores.\<close>

definition upserted :: "string \<Rightarrow> connection \<Rightarrow> connections \<Rightarrow> connection" where
  "upserted name draft cs =
     (let d = filter (\<lambda>kv. fst kv \<noteq> ''name'') draft in
      if ''default'' \<notin> fst ` set d \<and> (case cs (slug ''connection'' name) of None \<Rightarrow> False | Some e \<Rightarrow> is_default e)
      then d @ [(''default'', PBool True)] else d)"

lemma connection_upsert_eq:
  "connection_upsert name draft cs =
     (if is_default (upserted name draft cs)
      then demote_other_defaults (slug ''connection'' name) (upserted name draft cs) cs else cs)
     (slug ''connection'' name \<mapsto> upserted name draft cs)"
  by (simp add: connection_upsert_def upserted_def Let_def)

lemma connection_upsert_at:
  "connection_upsert name draft cs k =
     (if k = slug ''connection'' name then Some (upserted name draft cs)
      else if is_default (upserted name draft cs)
      then map_option (\<lambda>o'. if is_default o' \<and> doc_type o' = doc_type (upserted name draft cs) then demote o' else o') (cs k)
      else cs k)"
  by (cases "cs k") (simp_all add: connection_upsert_eq demote_other_defaults_def)

lemma default_names_upsert:
  "default_names (connection_upsert name draft cs) ty =
     (let d = upserted name draft cs; key = slug ''connection'' name in
      (if is_default d \<and> doc_type d = ty then {key} else default_names cs ty - {key}))"
proof -
  have "k \<in> default_names (connection_upsert name draft cs) ty \<longleftrightarrow>
      k \<in> (let d = upserted name draft cs; key = slug ''connection'' name in
        (if is_default d \<and> doc_type d = ty then {key} else default_names cs ty - {key}))" for k
    by (cases "cs k") (auto simp: default_names_def connection_upsert_at Let_def)
  then show ?thesis by blast
qed

lemma one_default_subset:
  "one_default cs \<Longrightarrow> (\<And>ty. default_names cs' ty \<subseteq> default_names cs ty \<or> (\<exists>k. default_names cs' ty \<subseteq> {k})) \<Longrightarrow>
     one_default cs'"
  unfolding one_default_def by (metis empty_iff insert_iff subset_iff)

lemma rename_defaults:
  assumes "one_default cs" and "cs old = Some d"
  shows "one_default ((cs(old := None))(new \<mapsto> d))"
proof (rule one_default_subset [OF assms(1)])
  fix ty
  show "default_names ((cs(old := None))(new \<mapsto> d)) ty \<subseteq> default_names cs ty \<or>
      (\<exists>k. default_names ((cs(old := None))(new \<mapsto> d)) ty \<subseteq> {k})"
  proof (cases "is_default d \<and> doc_type d = ty")
    case True
    then have "old \<in> default_names cs ty" using assms(2) by (simp add: default_names_def)
    then have "k = old" if "k \<in> default_names cs ty" for k using assms(1) that unfolding one_default_def by blast
    then have "default_names ((cs(old := None))(new \<mapsto> d)) ty \<subseteq> {new}"
      by (fastforce simp: default_names_def split: if_splits)
    then show ?thesis by blast
  next
    case False
    then show ?thesis by (auto simp: default_names_def split: if_splits)
  qed
qed

text \<open>The connection registry never holds two defaults of one adapter type: storing, renaming and
  deleting keep that, and storing a default makes it the only one of its type.\<close>

theorem connections_keep_one_default:
  assumes "one_default cs"
  shows "one_default (connection_upsert name draft cs) \<and>
    (case connection_rename old new cs of Inl e \<Rightarrow> e = KeyError | Inr cs' \<Rightarrow> one_default cs') \<and>
    (case connection_delete old cs of Inl e \<Rightarrow> e = KeyError | Inr cs' \<Rightarrow> one_default cs') \<and>
    (truthy (get draft ''default'' PNone) \<longrightarrow>
       (\<exists>d. connection_upsert name draft cs (slug ''connection'' name) = Some d \<and>
          default_names (connection_upsert name draft cs) (doc_type d) = {slug ''connection'' name}))"
proof (intro conjI impI)
  show "one_default (connection_upsert name draft cs)"
    by (rule one_default_subset [OF assms]) (auto simp: default_names_upsert Let_def)
  show "case connection_rename old new cs of Inl e \<Rightarrow> e = KeyError | Inr cs' \<Rightarrow> one_default cs'"
    using rename_defaults [OF assms] by (auto simp: connection_rename_def split: option.splits)
  show "case connection_delete old cs of Inl e \<Rightarrow> e = KeyError | Inr cs' \<Rightarrow> one_default cs'"
  proof -
    have "one_default (cs(old := None))"
      by (rule one_default_subset [OF assms]) (auto simp: default_names_def split: if_splits)
    then show ?thesis by (simp add: connection_delete_def)
  qed
next
  assume t: "truthy (get draft ''default'' PNone)"
  have f: "get (filter (\<lambda>kv. fst kv \<noteq> ''name'') draft) ''default'' PNone = get draft ''default'' PNone"
    by (induction draft) auto
  have "''default'' \<in> fst ` set draft"
    using t by (induction draft) (auto split: if_splits)
  then have "''default'' \<in> fst ` set (filter (\<lambda>kv. fst kv \<noteq> ''name'') draft)" by force
  then have "is_default (upserted name draft cs)"
    using t f by (simp add: upserted_def is_default_def Let_def)
  then show "\<exists>d. connection_upsert name draft cs (slug ''connection'' name) = Some d \<and>
      default_names (connection_upsert name draft cs) (doc_type d) = {slug ''connection'' name}"
    by (intro exI [of _ "upserted name draft cs"] conjI)
      (simp add: connection_upsert_eq, simp add: default_names_upsert Let_def)
qed

theorem connections_keep_one_default_witness:
  "one_default (connection_upsert ''Core Switch'' [(''default'', PBool True), (''host'', PStr ''h'')] (\<lambda>k. None))"
proof -
  have "one_default (\<lambda>k. None)" by (simp add: one_default_def default_names_def)
  from connections_keep_one_default [OF this] show ?thesis by blast
qed

section \<open>Variables\<close>

text \<open>Dictionaries of variables are association lists whose first entry for a name counts.\<close>

type_synonym vars = "(string \<times> pyv) list"

definition dict_update :: "vars \<Rightarrow> vars \<Rightarrow> vars" where
  "dict_update out d = d @ out"

definition merge_variables :: "vars \<Rightarrow> vars \<Rightarrow> vars list \<Rightarrow> vars \<Rightarrow> vars" where
  "merge_variables global_v project_v set_vs scenario_v =
     dict_update (foldl dict_update (dict_update (dict_update [] global_v) project_v) set_vs) scenario_v"

record var_store =
  vs_global :: vars
  vs_global_secrets :: "string list"
  vs_project :: "(string \<times> vars) list"
  vs_project_secrets :: "(string \<times> string list) list"
  vs_set :: "(string \<times> vars) list"
  vs_set_secrets :: "(string \<times> string list) list"

definition put_or_drop :: "string \<Rightarrow> 'a list \<Rightarrow> (string \<times> 'a list) list \<Rightarrow> (string \<times> 'a list) list" where
  "put_or_drop k v d = (if v \<noteq> [] then (k, v) # filter (\<lambda>e. fst e \<noteq> k) d else filter (\<lambda>e. fst e \<noteq> k) d)"

definition set_global :: "vars \<Rightarrow> string list \<Rightarrow> var_store \<Rightarrow> var_store" where
  "set_global variables secrets vs = vs\<lparr>vs_global := variables, vs_global_secrets := secrets\<rparr>"

definition set_project :: "string \<Rightarrow> vars \<Rightarrow> string list \<Rightarrow> var_store \<Rightarrow> var_store" where
  "set_project p variables secrets vs =
     vs\<lparr>vs_project := put_or_drop p variables (vs_project vs),
        vs_project_secrets := put_or_drop p secrets (vs_project_secrets vs)\<rparr>"

definition set_set :: "string \<Rightarrow> vars \<Rightarrow> string list \<Rightarrow> var_store \<Rightarrow> var_store" where
  "set_set s variables secrets vs =
     vs\<lparr>vs_set := put_or_drop s variables (vs_set vs),
        vs_set_secrets := put_or_drop s secrets (vs_set_secrets vs)\<rparr>"

definition get_project :: "var_store \<Rightarrow> string \<Rightarrow> vars" where
  "get_project vs p = or_default [] (map_of (vs_project vs) p)"

definition get_set :: "var_store \<Rightarrow> string \<Rightarrow> vars" where
  "get_set vs s = or_default [] (map_of (vs_set vs) s)"

text \<open>\<open>project_id if project_id else {}\<close>.\<close>

definition project_vars :: "var_store \<Rightarrow> string option \<Rightarrow> vars" where
  "project_vars vs project = (case project of Some p \<Rightarrow> if p = [] then [] else get_project vs p | None \<Rightarrow> [])"

definition effective :: "var_store \<Rightarrow> string option \<Rightarrow> string list \<Rightarrow> vars \<Rightarrow> vars" where
  "effective vs project set_ids scenario_v =
     merge_variables (vs_global vs) (project_vars vs project) (map (get_set vs) set_ids) scenario_v"

definition secret_names :: "var_store \<Rightarrow> string option \<Rightarrow> string list \<Rightarrow> string list \<Rightarrow> string list" where
  "secret_names vs project set_ids scenario_secrets =
     remdups (vs_global_secrets vs @
       (case project of
          Some p \<Rightarrow> if p = [] then [] else or_default [] (map_of (vs_project_secrets vs) p)
        | None \<Rightarrow> []) @
       concat (map (\<lambda>s. or_default [] (map_of (vs_set_secrets vs) s)) set_ids) @ scenario_secrets)"

definition secret_values ::
    "(pyv \<Rightarrow> string) \<Rightarrow> var_store \<Rightarrow> string option \<Rightarrow> string list \<Rightarrow> vars \<Rightarrow> string list \<Rightarrow> string list" where
  "secret_values rp vs project set_ids scenario_v scenario_secrets =
     (let eff = effective vs project set_ids scenario_v in
      map (\<lambda>n. pystr rp (get eff n PNone))
        (filter (\<lambda>n. get eff n PNone \<noteq> PNone \<and> get eff n PNone \<noteq> PStr [])
          (secret_names vs project set_ids scenario_secrets)))"

text \<open>The first scope of a list that defines a name.\<close>

fun first_defined :: "vars list \<Rightarrow> string \<Rightarrow> pyv option" where
  "first_defined [] x = None"
| "first_defined (d # ds) x = (case map_of d x of Some v \<Rightarrow> Some v | None \<Rightarrow> first_defined ds x)"

lemma first_defined_append: "first_defined (ds @ es) x =
    (case first_defined ds x of Some v \<Rightarrow> Some v | None \<Rightarrow> first_defined es x)"
  by (induction ds) (auto split: option.splits)

lemma map_of_first_defined: "map_of (d @ e) x = (case map_of d x of Some v \<Rightarrow> Some v | None \<Rightarrow> map_of e x)"
  by (auto simp: map_add_def split: option.splits)

lemma map_of_dict_update:
  "map_of (dict_update out d) x = (case map_of d x of Some v \<Rightarrow> Some v | None \<Rightarrow> map_of out x)"
  unfolding dict_update_def by (rule map_of_first_defined)

lemma foldl_update: "map_of (foldl dict_update out ds) x =
    (case first_defined (rev ds) x of Some v \<Rightarrow> Some v | None \<Rightarrow> map_of out x)"
proof (induction ds arbitrary: out)
  case (Cons d ds)
  show ?case
    using Cons [of "dict_update out d"]
    by (simp add: map_of_dict_update first_defined_append split: option.splits)
qed simp

lemma map_of_put_or_drop: "or_default [] (map_of (put_or_drop k v d) k) = v"
proof -
  have "map_of (filter (\<lambda>e. fst e \<noteq> k) d) k = None" by (induction d) auto
  then show ?thesis by (simp add: put_or_drop_def)
qed

text \<open>The value of a variable in a run is the one of its most specific scope: the scenario, then the
  last of the sets that defines it, then the project, then the global scope; and what was stored for a
  project or a set is what they give.\<close>

theorem variable_scopes:
  "map_of (effective vs project set_ids scenario_v) x =
     first_defined ([scenario_v] @ rev (map (get_set vs) set_ids) @ [project_vars vs project, vs_global vs]) x \<and>
   get_project (set_project p v secrets vs) p = v \<and> get_set (set_set s v secrets vs) s = v"
proof (intro conjI)
  show "map_of (effective vs project set_ids scenario_v) x =
      first_defined ([scenario_v] @ rev (map (get_set vs) set_ids) @ [project_vars vs project, vs_global vs]) x"
    unfolding effective_def merge_variables_def
    by (simp del: map_of_append add: map_of_dict_update foldl_update first_defined_append split: option.splits)
qed (simp_all add: get_project_def get_set_def set_project_def set_set_def map_of_put_or_drop)

section \<open>Network flows\<close>

text \<open>A stored flow: the draft and when it was updated. An id is kept as it is given.\<close>

type_synonym 'd networks = "string \<Rightarrow> ('d \<times> string) option"

definition network_upsert :: "string \<Rightarrow> string \<Rightarrow> 'd \<Rightarrow> 'd networks \<Rightarrow> 'd networks" where
  "network_upsert now nid draft ns = ns(nid \<mapsto> (draft, now))"

definition network_delete :: "string \<Rightarrow> 'd networks \<Rightarrow> 'd networks result" where
  "network_delete nid ns = (if ns nid = None then Inl KeyError else Inr (ns(nid := None)))"

text \<open>\<open>_unique_id\<close>: the base, or the base with the first free number after it.\<close>

partial_function (option) free_id :: "'d networks \<Rightarrow> string \<Rightarrow> nat \<Rightarrow> string option" where
  "free_id ns base n =
     (let nid = base @ ''-'' @ dec_string n in
      if ns nid = None then Some nid else free_id ns base (n + 1))"

definition unique_id :: "'d networks \<Rightarrow> string \<Rightarrow> string option" where
  "unique_id ns base = (if ns base = None then Some base else free_id ns base 2)"

lemma free_id_returns:
  assumes "finite (dom ns)"
  shows "\<exists>nid. free_id ns base n = Some nid \<and> ns nid = None"
proof -
  define taken where "taken n = {m. n \<le> m \<and> ns (base @ ''-'' @ dec_string m) \<noteq> None}" for n
  have fin: "finite (taken n)" for n
  proof -
    have "inj_on (\<lambda>m. base @ ''-'' @ dec_string m) (taken n)" by (auto intro: inj_onI dest: dec_string_inj)
    moreover have "(\<lambda>m. base @ ''-'' @ dec_string m) ` taken n \<subseteq> dom ns" by (auto simp: taken_def)
    ultimately show ?thesis using assms finite_imageD finite_subset by blast
  qed
  show ?thesis
  proof (induction "card (taken n)" arbitrary: n rule: less_induct)
    case less
    show ?case
    proof (cases "ns (base @ ''-'' @ dec_string n) = None")
      case True
      then show ?thesis by (simp add: free_id.simps [of ns base n] Let_def)
    next
      case False
      have "n \<in> taken n" and "n \<notin> taken (n + 1)" and "taken (n + 1) \<subseteq> taken n"
        using False by (auto simp: taken_def)
      then have "taken (n + 1) \<subset> taken n" by blast
      then have "card (taken (n + 1)) < card (taken n)" using fin psubset_card_mono by blast
      then have "\<exists>nid. free_id ns base (n + 1) = Some nid \<and> ns nid = None" by (rule less)
      then show ?thesis using False by (simp add: free_id.simps [of ns base n] Let_def)
    qed
  qed
qed

text \<open>The search for a free id of a new network flow ends, and the id it gives is not taken.\<close>

theorem unique_id_is_free:
  assumes "finite (dom ns)"
  shows "\<exists>nid. unique_id ns base = Some nid \<and> ns nid = None"
  using free_id_returns [OF assms, of base 2] by (auto simp: unique_id_def)

theorem unique_id_is_free_witness:
  "\<exists>nid. unique_id ((\<lambda>k. None)(''net'' \<mapsto> ((), ''t''))) ''net'' = Some nid \<and> nid \<noteq> ''net''"
proof -
  have "finite (dom ((\<lambda>k. None)(''net'' \<mapsto> ((), ''t''))))" by simp
  from unique_id_is_free [OF this, of "''net''"] show ?thesis by auto
qed

end
