(* ===== verification/Journal.thy ===== *)
theory Journal
  imports Toolkit Registry
begin

text \<open>
  Undoing what an assistant changed: \<open>restore_one\<close>, \<open>restore_journal\<close> and \<open>ChangeJournal.revert\<close> of
  \<open>payprobe_common/agent_toolkit.py\<close>, on any backend with the laws of the locale \<open>undoable\<close> and on the
  in-process backend of \<open>scenario-service/api/agent_tools.py\<close> over the registries.
\<close>

section \<open>Restoring\<close>

definition without :: "doc \<Rightarrow> string list \<Rightarrow> doc" where
  "without d ks = filter (\<lambda>kv. fst kv \<notin> set ks) d"

text \<open>\<open>_quiet\<close>, and a call whose result is not used.\<close>

definition quiet :: "('s, 'a) act \<Rightarrow> ('s, unit) act" where
  "quiet m = (\<lambda>s. (Inr (), snd (m s)))"

definition unused :: "('s, 'a) act \<Rightarrow> ('s, unit) act" where
  "unused m = bind m (\<lambda>_. return ())"

text \<open>The keys of a document that are not written back.\<close>

fun not_restored :: "resource \<Rightarrow> string list" where
  "not_restored Variables = []"
| "not_restored Connection = [''name'']"
| "not_restored Table = [''name'']"
| "not_restored Starter_Flow = [''id'', ''builtin'', ''updated_at'']"
| "not_restored Scenario = [''id'', ''version'', ''created_at'', ''updated_at'', ''project_id'']"
| "not_restored Network_Flow = [''id'', ''updated_at'']"

definition write_back :: "'s backend \<Rightarrow> resource \<Rightarrow> string \<Rightarrow> doc option \<Rightarrow> ('s, unit) act" where
  "write_back b r k before =
     (let old = PDict (without (or_default [] before) (not_restored r)) in
      case r of
        Variables \<Rightarrow>
          (case before of
             None \<Rightarrow> raise (Raised AttributeError)
           | Some d \<Rightarrow> unused (be_set_global_variables b (get d ''variables'' (PDict [])) (get d ''secrets'' (PList []))))
      | Connection \<Rightarrow> if before = None then quiet (be_delete_connection b k) else unused (be_put_connection b k old)
      | Table \<Rightarrow> if before = None then quiet (be_delete_table b k) else unused (be_put_table b k old)
      | Starter_Flow \<Rightarrow>
          if before = None then quiet (be_delete_starter_flow b k) else unused (be_create_starter_flow b old (Some k))
      | Scenario \<Rightarrow>
          if before = None then quiet (be_delete_scenario b k)
          else unused (be_update_scenario b k old (PStr ''revert via assistant''))
      | Network_Flow \<Rightarrow> if before = None then quiet (be_delete_network b k) else unused (be_put_network b k old))"

definition restore_one :: "'s backend \<Rightarrow> change \<Rightarrow> ('s, unit) act" where
  "restore_one b rec = write_back b (ch_resource rec) (ch_key rec) (ch_before rec)"

fun restore_all :: "'s backend \<Rightarrow> change list \<Rightarrow> 's \<Rightarrow> nat \<times> 's" where
  "restore_all b [] s = (0, s)"
| "restore_all b (r # rs) s =
     (case restore_one b r s of
        (Inl e, s') \<Rightarrow> restore_all b rs s'
      | (Inr _, s') \<Rightarrow> (case restore_all b rs s' of (n, s'') \<Rightarrow> (n + 1, s'')))"

text \<open>\<open>restore_journal\<close>: newest first; a record that cannot be restored is skipped.\<close>

definition restore_journal :: "'s backend \<Rightarrow> change list \<Rightarrow> 's \<Rightarrow> nat \<times> 's" where
  "restore_journal b recs s = restore_all b (rev recs) s"

definition revert :: "'s backend \<Rightarrow> 's ctx \<Rightarrow> nat \<times> 's ctx" where
  "revert b c =
     (case restore_journal b (cx_records c) (cx_store c) of (n, s) \<Rightarrow> (n, c\<lparr>cx_store := s, cx_records := []\<rparr>))"

lemma restore_all_append: "snd (restore_all b (xs @ ys) s) = snd (restore_all b ys (snd (restore_all b xs s)))"
  by (induction xs arbitrary: s) (auto split: prod.splits sum.splits, (metis snd_conv)+)

lemma restore_journal_append:
  "snd (restore_journal b (xs @ ys) s) = snd (restore_journal b xs (snd (restore_journal b ys s)))"
  by (simp add: restore_journal_def restore_all_append)

lemma restore_journal_one: "snd (restore_journal b [r] s) = snd (restore_one b r s)"
  by (auto simp: restore_journal_def split: prod.splits sum.splits)

section \<open>What a backend must promise\<close>

text \<open>What restoring brings back of a resource: its document without the keys that are not written back. The
  global variables have one key.\<close>

definition seen :: "'s backend \<Rightarrow> 's \<Rightarrow> resource \<times> string \<Rightarrow> doc option" where
  "seen b s rk =
     (if fst rk = Variables \<and> snd rk \<noteq> ''global'' then None
      else case AFTER_GETTERS b (fst rk) (snd rk) s of
        Inr (Some d) \<Rightarrow> Some (without d (not_restored (fst rk)))
      | _ \<Rightarrow> None)"

text \<open>An operation changes at most one resource.\<close>

definition only_at :: "'s backend \<Rightarrow> resource \<times> string \<Rightarrow> ('s, 'a) act \<Rightarrow> bool" where
  "only_at b rk m \<longleftrightarrow> (\<forall>s rk'. rk' \<noteq> rk \<longrightarrow> seen b (snd (m s)) rk' = seen b s rk')"

definition undoes :: "'s backend \<Rightarrow> 's ctx \<Rightarrow> 's ctx \<Rightarrow> bool" where
  "undoes b c c' \<longleftrightarrow>
     (\<exists>recs. cx_records c' = cx_records c @ recs \<and>
        (\<forall>s. seen b s = seen b (cx_store c') \<longrightarrow> seen b (snd (restore_journal b recs s)) = seen b (cx_store c)))"

lemma undoes_refl: "cx_records c' = cx_records c \<Longrightarrow> seen b (cx_store c') = seen b (cx_store c) \<Longrightarrow> undoes b c c'"
  unfolding undoes_def by (intro exI [of _ "[]"]) (simp add: restore_journal_def)

lemma undoes_trans: "undoes b c c' \<Longrightarrow> undoes b c' c'' \<Longrightarrow> undoes b c c''"
  unfolding undoes_def by (metis append.assoc restore_journal_append)

text \<open>The resource a write tool names.\<close>

definition named_resource :: "string \<Rightarrow> doc \<Rightarrow> resource \<times> (failure + string)" where
  "named_resource tool args =
     (if tool = ''upsert_connection'' \<or> tool = ''delete_connection'' then (Connection, need args ''name'')
      else if tool = ''save_table'' \<or> tool = ''delete_table'' then (Table, need args ''name'')
      else if tool = ''delete_starter_flow'' then (Starter_Flow, need args ''fid'')
      else if tool = ''update_scenario'' then (Scenario, need args ''scenario_id'')
      else if tool = ''save_network'' \<or> tool = ''delete_network'' then (Network_Flow, need args ''network_id'')
      else (Variables, Inr ''global''))"

definition undoable_call :: "(resource \<Rightarrow> string \<Rightarrow> bool) \<Rightarrow> string \<times> doc \<Rightarrow> bool" where
  "undoable_call covered call \<longleftrightarrow>
     (case call of (tool, args) \<Rightarrow>
        tool \<notin> {''create_starter_flow'', ''create_scenario''} \<and>
        (case named_resource tool args of (r, Inl e) \<Rightarrow> True | (r, Inr k) \<Rightarrow>
           tool \<in> {''upsert_connection'', ''delete_connection'', ''save_table'', ''delete_table'', ''set_global_variables'',
             ''delete_starter_flow'', ''update_scenario'', ''save_network'', ''delete_network''} \<longrightarrow> covered r k))"

text \<open>A session: calls one after another.\<close>

fun run :: "'s backend \<Rightarrow> (string \<times> doc) list \<Rightarrow> 's ctx \<Rightarrow> 's ctx" where
  "run b [] c = c"
| "run b ((tool, args) # calls) c = run b calls (snd (dispatch b tool args None c))"

lemma restore_one_after: "restore_one b (after_of b' s r) = restore_one b r"
  by (simp add: restore_one_def after_of_def)

lemma restore_all_after: "restore_all b (map (after_of b' s) rs) s' = restore_all b rs s'"
  by (induction rs arbitrary: s') (auto simp: restore_one_after split: prod.splits sum.splits)

lemma restore_journal_after: "restore_journal b (map (after_of b' s) rs) s' = restore_journal b rs s'"
  by (simp add: restore_journal_def rev_map restore_all_after)

lemma undoes_capture: "undoes b c c' \<Longrightarrow> undoes b c (capture_after b (length (cx_records c)) c')"
  unfolding undoes_def capture_after_def by (auto simp: restore_journal_after)

locale undoable =
  fixes b :: "'s backend" and covered :: "resource \<Rightarrow> string \<Rightarrow> bool"
  assumes only_global: "covered Variables k \<Longrightarrow> k = ''global''"
    and restores: "covered r k \<Longrightarrow> AFTER_GETTERS b r k s\<^sub>0 = Inr before \<Longrightarrow>
      seen b (snd (write_back b r k before s)) (r, k) = map_option (\<lambda>d. without d (not_restored r)) before"
    and restores_only: "covered r k \<Longrightarrow> only_at b (r, k) (write_back b r k before)"
    and put_connection: "covered Connection k \<Longrightarrow> only_at b (Connection, k) (be_put_connection b k v)"
    and drop_connection: "covered Connection k \<Longrightarrow> only_at b (Connection, k) (be_delete_connection b k)"
    and put_table: "covered Table k \<Longrightarrow> only_at b (Table, k) (be_put_table b k v)"
    and drop_table: "covered Table k \<Longrightarrow> only_at b (Table, k) (be_delete_table b k)"
    and put_variables: "covered Variables ''global'' \<Longrightarrow> only_at b (Variables, ''global'') (be_set_global_variables b v w)"
    and drop_flow: "covered Starter_Flow k \<Longrightarrow> only_at b (Starter_Flow, k) (be_delete_starter_flow b k)"
    and put_scenario: "covered Scenario k \<Longrightarrow> only_at b (Scenario, k) (be_update_scenario b k v w)"
    and put_network: "covered Network_Flow k \<Longrightarrow> only_at b (Network_Flow, k) (be_put_network b k v)"
    and drop_network: "covered Network_Flow k \<Longrightarrow> only_at b (Network_Flow, k) (be_delete_network b k)"
    and execute: "seen b (snd (be_execute b m xs s)) = seen b s"
begin

lemma undoes_read:
  "(\<And>x. f c = Inr x \<Longrightarrow> undoes b c (snd (g x c))) \<Longrightarrow> undoes b c (snd (bind (reads f) g c))"
  by (cases "f c") (auto simp: bind_def reads_def intro: undoes_refl)

lemma undoes_on_read:
  "(\<And>x. f (cx_store c) = Inr x \<Longrightarrow> undoes b c (snd (g x c))) \<Longrightarrow> undoes b c (snd (bind (on_read f) g c))"
  unfolding on_read_def by (rule undoes_read)

lemma undoes_before:
  "undoes b c (snd (g (or_default [] before) c)) \<Longrightarrow> undoes b c (snd (bind (the_before before) g c))"
  by (cases before) (auto simp: bind_def the_before_def raise_def return_def intro: undoes_refl)

lemma undoes_check:
  "(\<not> q \<Longrightarrow> undoes b c (snd (g () c))) \<Longrightarrow> undoes b c (snd (bind (if q then raise e else return ()) g c))"
  by (auto simp: bind_def raise_def return_def intro: undoes_refl)

text \<open>The heart of the journal: a recorded write to one covered resource is undone by its record.\<close>

lemma undoes_write:
  assumes "covered r k" and "AFTER_GETTERS b r k (cx_store c) = Inr before" and "only_at b (r, k) m"
    and "\<And>x c. snd (f x c) = c"
  shows "undoes b c (snd (bind (record_change tool r k before) (\<lambda>_. bind (on_store m) f) c))"
proof -
  define rec where "rec = \<lparr>ch_seq = cx_seq c + 1, ch_tool = tool, ch_resource = r, ch_key = k, ch_before = before, ch_after = None\<rparr>"
  show ?thesis
  proof (cases "cx_on_record c rec")
    case (Some e)
    then show ?thesis by (intro undoes_refl) (simp_all add: bind_def record_change_def rec_def Let_def)
  next
    case None
    obtain x s' where m: "m (cx_store c) = (x, s')" by (cases "m (cx_store c)")
    let ?c = "snd (bind (record_change tool r k before) (\<lambda>_. bind (on_store m) f) c)"
    have c': "cx_records ?c = cx_records c @ [rec]" "cx_store ?c = s'"
      using None m assms(4) by (cases x; simp add: bind_def record_change_def rec_def Let_def on_store_def)+
    have "seen b (snd (restore_journal b [rec] s)) = seen b (cx_store c)" if s: "seen b s = seen b s'" for s
    proof
      fix rk
      show "seen b (snd (restore_journal b [rec] s)) rk = seen b (cx_store c) rk"
      proof (cases "rk = (r, k)")
        case True
        have "k = ''global''" if "r = Variables" using assms(1) only_global that by blast
        with True show ?thesis
          using restores [OF assms(1,2)] assms(2)
          by (simp add: restore_journal_one restore_one_def rec_def seen_def split: option.splits if_splits)
      next
        case False
        then have "seen b (snd (restore_journal b [rec] s)) rk = seen b s rk"
          using restores_only [OF assms(1), of before]
          by (cases rk) (auto simp: restore_journal_one restore_one_def rec_def only_at_def)
        also have "\<dots> = seen b (cx_store c) rk"
          using assms(3) [unfolded only_at_def, rule_format, of rk "cx_store c"] False m s by simp
        finally show ?thesis .
      qed
    qed
    then show ?thesis using c' unfolding undoes_def by auto
  qed
qed

lemma undoes_return: "snd (f c) = c \<Longrightarrow> undoes b c (snd (f c))"
  by (simp add: undoes_refl)

lemma undoes_handlers:
  "(\<And>k. need args ''name'' = Inr k \<Longrightarrow> covered Connection k) \<Longrightarrow> undoes b c (snd (upsert_connection b args c))"
  "(\<And>k. need args ''name'' = Inr k \<Longrightarrow> covered Connection k) \<Longrightarrow> undoes b c (snd (delete_connection b args c))"
  "(\<And>k. need args ''name'' = Inr k \<Longrightarrow> covered Table k) \<Longrightarrow> undoes b c (snd (save_table b args c))"
  "(\<And>k. need args ''name'' = Inr k \<Longrightarrow> covered Table k) \<Longrightarrow> undoes b c (snd (delete_table b args c))"
  "covered Variables ''global'' \<Longrightarrow> undoes b c (snd (set_global_variables b args c))"
  "(\<And>k. need args ''fid'' = Inr k \<Longrightarrow> covered Starter_Flow k) \<Longrightarrow> undoes b c (snd (delete_starter_flow b args c))"
  "(\<And>k. need args ''scenario_id'' = Inr k \<Longrightarrow> covered Scenario k) \<Longrightarrow> undoes b c (snd (update_scenario b args c))"
  "(\<And>k. need args ''network_id'' = Inr k \<Longrightarrow> covered Network_Flow k) \<Longrightarrow> undoes b c (snd (save_network b args c))"
  "(\<And>k. need args ''network_id'' = Inr k \<Longrightarrow> covered Network_Flow k) \<Longrightarrow> undoes b c (snd (delete_network b args c))"
  unfolding upsert_connection_def delete_connection_def save_table_def delete_table_def set_global_variables_def
    delete_starter_flow_def update_scenario_def save_network_def delete_network_def Let_def
  by (intro undoes_on_read undoes_read undoes_before undoes_check undoes_write put_connection drop_connection put_table
      drop_table put_variables drop_flow put_scenario put_network drop_network;
      simp add: AFTER_GETTERS_def return_def reads_def bind_def split: sum.splits)+

lemma undoes_writes:
  assumes "(tool, h) \<in> set REGISTRY_WRITES" and "undoable_call covered (tool, args)"
  shows "undoes b c (snd (h b args c))"
  using assms(1) unfolding REGISTRY_WRITES_def list.set insert_iff empty_iff prod.inject
proof (elim disjE conjE)
qed (use assms(2) in \<open>auto simp: undoable_call_def named_resource_def intro!: undoes_handlers\<close>)

lemma undoes_executes:
  assumes "(tool, h) \<in> set REGISTRY_EXECUTES"
  shows "undoes b c (snd (h b args c))"
proof -
  have e: "undoes b c (snd (on_store (be_execute b m xs) c))" for m xs
    using execute [of m xs "cx_store c"] by (intro undoes_refl) (auto simp: on_store_def split: prod.splits)
  show ?thesis
    using assms e undoes_refl [of c c b]
    by (auto simp: REGISTRY_EXECUTES_def train_insights_def playground_execute_def start_load_run_def raise_def
        intro!: undoes_read split: option.splits)
qed

lemma undoes_dispatch:
  assumes "undoable_call covered (tool, args)"
  shows "undoes b c (snd (dispatch b tool args tiers c))"
proof (cases "map_of (REGISTRY :: (string \<times> tier \<times> 's handler) list) tool")
  case None
  then show ?thesis by (simp add: dispatch_def undoes_refl)
next
  case (Some th)
  obtain t h where th: "th = (t, h)" by (cases th)
  have mem: "(tool, t, h) \<in> set REGISTRY" using map_of_SomeD Some th by metis
  have u: "undoes b c (snd (h b args c))"
  proof (cases t)
    case Read
    then obtain r where "h = (\<lambda>b args. on_read (r b args))" using registry_read Some th by blast
    then show ?thesis by (simp add: on_read_def reads_def undoes_refl)
  next
    case Write
    then show ?thesis using mem undoes_writes assms by (auto simp: REGISTRY_def)
  next
    case Execute
    then show ?thesis using mem undoes_executes by (auto simp: REGISTRY_def)
  qed
  obtain r c' where r: "h b args c = (r, c')" by (cases "h b args c")
  have "snd (dispatch b tool args tiers c) \<in> {c, c', capture_after b (length (cx_records c)) c'}"
    using Some th r by (auto simp: dispatch_def split: option.splits sum.splits failure.splits)
  then show ?thesis using u r undoes_capture undoes_refl [of c c] by auto
qed

lemma undoes_run: "list_all (undoable_call covered) calls \<Longrightarrow> undoes b c (run b calls c)"
proof (induction calls arbitrary: c)
  case (Cons call calls)
  obtain tool args where call: "call = (tool, args)" by (cases call)
  show ?case
    using Cons undoes_dispatch [of tool args c None] undoes_trans unfolding call by fastforce
qed (simp add: undoes_refl)

theorem session_undone:
  assumes "list_all (undoable_call covered) calls" and "cx_records c = []"
  shows "seen b (cx_store (snd (revert b (run b calls c)))) = seen b (cx_store c)"
proof -
  from undoes_run [OF assms(1), of c] assms(2)
  have "\<forall>s. seen b s = seen b (cx_store (run b calls c)) \<longrightarrow>
      seen b (snd (restore_journal b (cx_records (run b calls c)) s)) = seen b (cx_store c)"
    by (auto simp: undoes_def)
  then show ?thesis by (auto simp: revert_def split: prod.splits)
qed

end

end
