(* ===== verification/Stores_Backend.thy ===== *)
theory Stores_Backend
  imports Journal
begin

text \<open>
  The in-process backend of the assistant (\<open>StoresBackend\<close> in \<open>scenario-service/api/agent_tools.py\<close>) over
  the table, connection and variable registries. The pydantic model of a connection is a parameter, the
  scenario, starter flow and network stores are a backend of their own, and what is asked of other
  services is a function. Sessions on tables and variables are undone; three ways in which an undo does
  not bring the registries back are shown.
\<close>

section \<open>Documents of the registries\<close>

fun texts_of :: "pyv list \<Rightarrow> string list option" where
  "texts_of [] = Some []"
| "texts_of (PStr s # vs) = map_option ((#) s) (texts_of vs)"
| "texts_of (v # vs) = None"

fun rows_of :: "pyv list \<Rightarrow> doc list option" where
  "rows_of [] = Some []"
| "rows_of (PDict d # vs) = map_option ((#) d) (rows_of vs)"
| "rows_of (v # vs) = None"

text \<open>\<open>DataTableDraft(**draft)\<close>: missing keys have defaults, unknown keys are ignored.\<close>

definition parse_table :: "pyv \<Rightarrow> data_table option" where
  "parse_table v =
     (case v of
        PDict d \<Rightarrow>
          (case (get d ''description'' (PStr []), get d ''columns'' (PList []), get d ''rows'' (PList [])) of
             (PStr s, PList cs, PList rs) \<Rightarrow>
               (case (texts_of cs, rows_of rs) of
                  (Some cs, Some rs) \<Rightarrow> Some \<lparr>dt_description = s, dt_columns = cs, dt_rows = rs\<rparr>
                | _ \<Rightarrow> None)
           | _ \<Rightarrow> None)
      | _ \<Rightarrow> None)"

text \<open>\<open>DataTable(name, **doc).model_dump()\<close>.\<close>

definition dump_table :: "string \<Rightarrow> data_table \<Rightarrow> doc" where
  "dump_table name t =
     [(''description'', PStr (dt_description t)), (''columns'', PList (map PStr (dt_columns t))),
      (''rows'', PList (map PDict (dt_rows t))), (''name'', PStr name)]"

text \<open>The defaults of the fields of \<open>ConnectionDraft\<close>, and the dump of a connection, which fills them in.\<close>

definition CONNECTION_DEFAULTS :: doc where
  "CONNECTION_DEFAULTS =
     [(''adapter'', PStr ''tcp''), (''protocol'', PStr ''iso8583''), (''host'', PStr []), (''port'', PInt 0),
      (''description'', PStr []), (''mode'', PStr ''outbound''), (''disabled'', PBool False), (''listen_port'', PNone),
      (''environment_overrides'', PDict []), (''default'', PBool False), (''external'', PBool False)]"

definition dump_connection :: "string \<Rightarrow> connection \<Rightarrow> doc" where
  "dump_connection name d = update_with CONNECTION_DEFAULTS d @ [(''name'', PStr name)]"

section \<open>The backend\<close>

record 'x stores =
  st_connections :: connections
  st_tables :: tables
  st_vars :: var_store
  st_others :: 'x

text \<open>An operation of the other stores.\<close>

definition on_others :: "('x, 'a) act \<Rightarrow> ('x stores, 'a) act" where
  "on_others m = (\<lambda>s. case m (st_others s) of (r, x) \<Rightarrow> (r, s\<lparr>st_others := x\<rparr>))"

definition raised :: "py_error + 'a \<Rightarrow> ('a \<Rightarrow> 's) \<Rightarrow> ('s, unit) act" where
  "raised r upd = (\<lambda>s. case r of Inl e \<Rightarrow> (Inl (Raised e), s) | Inr x \<Rightarrow> (Inr (), upd x))"

definition stores_put_connection :: "(pyv \<Rightarrow> doc option) \<Rightarrow> string \<Rightarrow> pyv \<Rightarrow> ('x stores, doc) act" where
  "stores_put_connection draft name v = (\<lambda>s.
     (case draft v of
        None \<Rightarrow> (Inl ToolError, s)
      | Some d \<Rightarrow>
          (let key = slug ''connection'' name; cs = connection_upsert name d (st_connections s) in
           (Inr (dump_connection key (or_default [] (cs key))), s\<lparr>st_connections := cs\<rparr>))))"

definition stores_put_table :: "string \<Rightarrow> pyv \<Rightarrow> ('x stores, doc) act" where
  "stores_put_table name v = (\<lambda>s.
     (case parse_table v of
        None \<Rightarrow> (Inl ToolError, s)
      | Some t \<Rightarrow> (Inr (dump_table (slug ''table'' name) t), s\<lparr>st_tables := table_upsert name t (st_tables s)\<rparr>)))"

definition stores_variables :: "var_store \<Rightarrow> doc" where
  "stores_variables vs =
     [(''variables'', PDict (vs_global vs)), (''secrets'', PList (map PStr (vs_global_secrets vs)))]"

text \<open>\<open>VariableStore.set_global\<close> sets the variables before it looks at the names of the secrets.\<close>

definition stores_set_variables :: "pyv \<Rightarrow> pyv \<Rightarrow> ('x stores, doc) act" where
  "stores_set_variables v w = (\<lambda>s.
     (case (case v of PDict d \<Rightarrow> Inr d | _ \<Rightarrow> if truthy v then Inl (Raised TypeError) else Inr []) of
        Inl e \<Rightarrow> (Inl e, s)
      | Inr d \<Rightarrow>
          (case (case w of PList xs \<Rightarrow> texts_of xs | _ \<Rightarrow> if truthy w then None else Some []) of
             None \<Rightarrow> (Inl (Raised TypeError), s\<lparr>st_vars := (st_vars s)\<lparr>vs_global := d\<rparr>\<rparr>)
           | Some secrets \<Rightarrow>
               (let vs = set_global d secrets (st_vars s) in (Inr (stores_variables vs), s\<lparr>st_vars := vs\<rparr>)))))"

definition stores_backend ::
    "(pyv \<Rightarrow> doc option) \<Rightarrow> (string \<Rightarrow> pyv list \<Rightarrow> failure + pyv) \<Rightarrow>
       (string \<Rightarrow> pyv list \<Rightarrow> 'x stores \<Rightarrow> failure + pyv) \<Rightarrow> 'x backend \<Rightarrow> 'x stores backend" where
  "stores_backend draft remote listing others =
     \<lparr>be_query = listing,
      be_get_connection = (\<lambda>k s. Inr (map_option (dump_connection k) (st_connections s k))),
      be_put_connection = stores_put_connection draft,
      be_delete_connection = (\<lambda>k s. raised (connection_delete k (st_connections s)) (\<lambda>cs. s\<lparr>st_connections := cs\<rparr>) s),
      be_get_table = (\<lambda>k s. Inr (map_option (dump_table k) (st_tables s k))),
      be_put_table = stores_put_table,
      be_delete_table = (\<lambda>k s. raised (table_delete k (st_tables s)) (\<lambda>ts. s\<lparr>st_tables := ts\<rparr>) s),
      be_get_global_variables = (\<lambda>s. Inr (stores_variables (st_vars s))),
      be_set_global_variables = stores_set_variables,
      be_get_starter_flow = (\<lambda>k s. be_get_starter_flow others k (st_others s)),
      be_create_starter_flow = (\<lambda>v k. on_others (be_create_starter_flow others v k)),
      be_delete_starter_flow = (\<lambda>k. on_others (be_delete_starter_flow others k)),
      be_get_scenario = (\<lambda>k s. be_get_scenario others k (st_others s)),
      be_create_scenario = (\<lambda>v p w. on_others (be_create_scenario others v p w)),
      be_update_scenario = (\<lambda>k v w. on_others (be_update_scenario others k v w)),
      be_delete_scenario = (\<lambda>k. on_others (be_delete_scenario others k)),
      be_validate_scenario = (\<lambda>v s. be_validate_scenario others v (st_others s)),
      be_get_network = (\<lambda>k s. be_get_network others k (st_others s)),
      be_put_network = (\<lambda>k v. on_others (be_put_network others k v)),
      be_delete_network = (\<lambda>k. on_others (be_delete_network others k)),
      be_validate_network = (\<lambda>v s. be_validate_network others v (st_others s)),
      be_execute = (\<lambda>m xs s. (remote m xs, s))\<rparr>"

section \<open>Sessions on tables and variables are undone\<close>

definition tables_and_variables :: "resource \<Rightarrow> string \<Rightarrow> bool" where
  "tables_and_variables r k \<longleftrightarrow> r = Table \<and> is_slug k \<or> r = Variables \<and> k = ''global''"

lemma texts_of_map [simp]: "texts_of (map PStr xs) = Some xs"
  by (induction xs) auto

lemma rows_of_map [simp]: "rows_of (map PDict ds) = Some ds"
  by (induction ds) auto

lemma parse_dump [simp]: "parse_table (PDict (without (dump_table name t) [''name''])) = Some t"
  by (simp add: parse_table_def dump_table_def without_def)

lemma dump_table_inj: "without (dump_table n t) [''name''] = without (dump_table n t') [''name''] \<longleftrightarrow> t = t'"
  using parse_dump option.inject by metis

lemma seen_simps [simp]:
  "seen (stores_backend draft remote listing others) s (Connection, k) =
     map_option (\<lambda>d. without (dump_connection k d) [''name'']) (st_connections s k)"
  "seen (stores_backend draft remote listing others) s (Table, k) =
     map_option (\<lambda>t. without (dump_table k t) [''name'']) (st_tables s k)"
  "seen (stores_backend draft remote listing others) s (Variables, k) =
     (if k = ''global'' then Some (stores_variables (st_vars s)) else None)"
  by (simp_all add: seen_def AFTER_GETTERS_def stores_backend_def without_def split: option.splits)

lemma seen_others:
  "r \<in> {Starter_Flow, Scenario, Network_Flow} \<Longrightarrow> st_others s = st_others s' \<Longrightarrow>
     seen (stores_backend draft remote listing others) s (r, k) = seen (stores_backend draft remote listing others) s' (r, k)"
  by (auto simp: seen_def AFTER_GETTERS_def stores_backend_def)

lemma only_table:
  assumes "\<And>s. st_connections (snd (m s)) = st_connections s \<and> st_vars (snd (m s)) = st_vars s \<and>
      st_others (snd (m s)) = st_others s \<and> (\<forall>k'. k' \<noteq> k \<longrightarrow> st_tables (snd (m s)) k' = st_tables s k')"
  shows "only_at (stores_backend draft remote listing others) (Table, k) m"
  unfolding only_at_def
proof (intro allI impI)
  fix s rk
  assume rk: "rk \<noteq> (Table, k)"
  obtain r k' where [simp]: "rk = (r, k')" by (cases rk)
  show "seen (stores_backend draft remote listing others) (snd (m s)) rk = seen (stores_backend draft remote listing others) s rk"
    using rk assms [of s] by (cases r) (auto intro: seen_others)
qed

lemma only_variables:
  assumes "\<And>s. st_connections (snd (m s)) = st_connections s \<and> st_tables (snd (m s)) = st_tables s \<and>
      st_others (snd (m s)) = st_others s"
  shows "only_at (stores_backend draft remote listing others) (Variables, ''global'') m"
  unfolding only_at_def
proof (intro allI impI)
  fix s rk
  assume rk: "rk \<noteq> (Variables, ''global'')"
  obtain r k' where [simp]: "rk = (r, k')" by (cases rk)
  show "seen (stores_backend draft remote listing others) (snd (m s)) rk = seen (stores_backend draft remote listing others) s rk"
    using rk assms [of s] by (cases r) (auto intro: seen_others)
qed

lemma put_table_at:
  assumes "is_slug k"
  shows "st_connections (snd (stores_put_table k v s)) = st_connections s \<and> st_vars (snd (stores_put_table k v s)) = st_vars s \<and>
    st_others (snd (stores_put_table k v s)) = st_others s \<and>
    (\<forall>k'. k' \<noteq> k \<longrightarrow> st_tables (snd (stores_put_table k v s)) k' = st_tables s k')"
  using slug_of_slug [OF assms] by (simp add: stores_put_table_def table_upsert_def split: option.splits)

lemma put_variables_at:
  "st_connections (snd (stores_set_variables v w s)) = st_connections s \<and> st_tables (snd (stores_set_variables v w s)) = st_tables s \<and>
   st_others (snd (stores_set_variables v w s)) = st_others s"
  by (simp add: stores_set_variables_def Let_def split: sum.splits option.splits)

lemma put_variables_back:
  "st_vars (snd (stores_set_variables (PDict d) (PList (map PStr xs)) s)) = set_global d xs (st_vars s)"
  by (simp add: stores_set_variables_def Let_def)

lemma quiet_snd [simp]: "snd (quiet m s) = snd (m s)"
  by (simp add: quiet_def)

lemma unused_snd [simp]: "snd (unused m s) = snd (m s)"
  by (auto simp: unused_def bind_def return_def split: prod.splits sum.splits)

lemma write_back_simps:
  "snd (write_back (stores_backend draft remote listing others) Table k before s) =
     (case before of
        None \<Rightarrow> snd (raised (table_delete k (st_tables s)) (\<lambda>ts. s\<lparr>st_tables := ts\<rparr>) s)
      | Some d \<Rightarrow> snd (stores_put_table k (PDict (without d [''name''])) s))"
  "snd (write_back (stores_backend draft remote listing others) Variables k before s) =
     (case before of
        None \<Rightarrow> s
      | Some d \<Rightarrow> snd (stores_set_variables (get d ''variables'' (PDict [])) (get d ''secrets'' (PList [])) s))"
  by (simp_all add: write_back_def stores_backend_def raise_def split: option.splits)

lemma delete_table_at:
  "snd (raised (table_delete k (st_tables s)) (\<lambda>ts. s\<lparr>st_tables := ts\<rparr>) s) = s\<lparr>st_tables := (st_tables s)(k := None)\<rparr>"
  by (auto simp: raised_def table_delete_def fun_upd_idem)

interpretation stores: undoable "stores_backend draft remote listing others" tables_and_variables
proof
  fix r k s\<^sub>0 before s
  assume c: "tables_and_variables r k"
    and g: "AFTER_GETTERS (stores_backend draft remote listing others) r k s\<^sub>0 = Inr before"
  show "seen (stores_backend draft remote listing others) (snd (write_back (stores_backend draft remote listing others) r k before s)) (r, k) =
      map_option (\<lambda>d. without d (not_restored r)) before"
  proof (cases "r = Table")
    case True
    then have k: "slug ''table'' k = k" using c slug_of_slug by (auto simp: tables_and_variables_def)
    have "before = map_option (dump_table k) (st_tables s\<^sub>0 k)"
      using g True by (simp add: AFTER_GETTERS_def stores_backend_def)
    then show ?thesis
      using True k by (cases "st_tables s\<^sub>0 k") (simp_all add: write_back_simps delete_table_at stores_put_table_def table_upsert_def)
  next
    case False
    then have r: "r = Variables" "k = ''global''" using c by (auto simp: tables_and_variables_def)
    then have "before = Some (stores_variables (st_vars s\<^sub>0))"
      using g by (simp add: AFTER_GETTERS_def stores_backend_def)
    then show ?thesis
      using r by (simp add: write_back_simps stores_variables_def put_variables_back set_global_def without_def)
  qed
next
  fix r k before
  assume c: "tables_and_variables r k"
  show "only_at (stores_backend draft remote listing others) (r, k) (write_back (stores_backend draft remote listing others) r k before)"
  proof (cases "r = Table")
    case True
    then have "is_slug k" using c by (simp add: tables_and_variables_def)
    then show ?thesis
      unfolding True by (intro only_table) (simp add: write_back_simps delete_table_at put_table_at split: option.splits)
  next
    case False
    then have r: "r = Variables" "k = ''global''" using c by (auto simp: tables_and_variables_def)
    show ?thesis unfolding r by (intro only_variables) (simp add: write_back_simps put_variables_at split: option.splits)
  qed
next
  fix k v
  assume "tables_and_variables Table k"
  then have "is_slug k" by (simp add: tables_and_variables_def)
  then show "only_at (stores_backend draft remote listing others) (Table, k) (be_put_table (stores_backend draft remote listing others) k v)"
    by (intro only_table) (simp add: stores_backend_def put_table_at)
  show "only_at (stores_backend draft remote listing others) (Table, k) (be_delete_table (stores_backend draft remote listing others) k)"
    by (intro only_table) (simp add: stores_backend_def delete_table_at)
next
  fix v w
  show "only_at (stores_backend draft remote listing others) (Variables, ''global'') (be_set_global_variables (stores_backend draft remote listing others) v w)"
    by (intro only_variables) (simp add: stores_backend_def put_variables_at)
qed (auto simp: tables_and_variables_def stores_backend_def)

lemma seen_tables_eq:
  assumes "seen (stores_backend draft remote listing others) s = seen (stores_backend draft remote listing others) s'"
  shows "st_tables s = st_tables s' \<and> vs_global (st_vars s) = vs_global (st_vars s') \<and>
    vs_global_secrets (st_vars s) = vs_global_secrets (st_vars s')"
proof -
  have "st_tables s k = st_tables s' k" for k
    using fun_cong [OF assms, of "(Table, k)"] dump_table_inj
    by (cases "st_tables s k"; cases "st_tables s' k") simp_all
  moreover have "stores_variables (st_vars s) = stores_variables (st_vars s')"
    using fun_cong [OF assms, of "(Variables, ''global'')"] by simp
  moreover have "inj PStr" by (rule injI) simp
  ultimately show ?thesis by (auto simp: stores_variables_def)
qed

text \<open>C7. Reverting the journal of a session brings tables and global variables back to what they were before
  it: whatever sequence of tools is called, with the tables it saves and deletes named by their slugs, no
  write to connections, scenarios, starter flows or networks, and persisting a record possibly failing.\<close>

theorem session_is_undone:
  assumes "list_all (undoable_call tables_and_variables) calls" and "cx_records c = []"
  shows "(let s = cx_store (snd (revert (stores_backend draft remote listing others)
              (run (stores_backend draft remote listing others) calls c))); s\<^sub>0 = cx_store c in
    st_tables s = st_tables s\<^sub>0 \<and> vs_global (st_vars s) = vs_global (st_vars s\<^sub>0) \<and>
    vs_global_secrets (st_vars s) = vs_global_secrets (st_vars s\<^sub>0))"
  unfolding Let_def by (rule seen_tables_eq [OF stores.session_undone [OF assms]])

definition demo_vars :: var_store where
  "demo_vars = \<lparr>vs_global = [(''host'', PStr ''h'')], vs_global_secrets = [], vs_project = [], vs_project_secrets = [],
     vs_set = [], vs_set_secrets = []\<rparr>"

definition demo_stores :: "connections \<Rightarrow> tables \<Rightarrow> nat stores" where
  "demo_stores cs ts = \<lparr>st_connections = cs, st_tables = ts, st_vars = demo_vars, st_others = 0\<rparr>"

definition session :: "'x stores \<Rightarrow> 'x stores ctx" where
  "session s = \<lparr>cx_store = s, cx_records = [], cx_seq = 0, cx_on_record = (\<lambda>r. None), cx_referenced = []\<rparr>"

definition demo_calls :: "(string \<times> doc) list" where
  "demo_calls = [(''save_table'', [(''name'', PStr ''cards''), (''draft'', PDict [])]),
     (''set_global_variables'', [(''variables'', PDict [(''host'', PStr ''x'')])]),
     (''delete_table'', [(''name'', PStr ''cards'')])]"

lemma demo_calls_undoable: "list_all (undoable_call tables_and_variables) demo_calls"
proof -
  have "is_slug ''cards''" by (simp add: is_slug_def slug_char_def is_lower_alnum_def)
  then show ?thesis
    by (simp add: demo_calls_def undoable_call_def named_resource_def need_def tables_and_variables_def)
qed

theorem session_is_undone_witness:
  "vs_global (st_vars (cx_store (snd (revert (stores_backend (\<lambda>v. None) (\<lambda>m xs. Inr PNone) (\<lambda>m xs s. Inr PNone) counting_backend)
     (run (stores_backend (\<lambda>v. None) (\<lambda>m xs. Inr PNone) (\<lambda>m xs s. Inr PNone) counting_backend) demo_calls
        (session (demo_stores (\<lambda>k. None) (\<lambda>k. None)))))))) = [(''host'', PStr ''h'')]"
  using session_is_undone [OF demo_calls_undoable, of "session (demo_stores (\<lambda>k. None) (\<lambda>k. None))"]
  by (simp add: session_def demo_stores_def demo_vars_def Let_def)

section \<open>What an undo does not bring back\<close>

lemma save_table_tool: "map_of REGISTRY ''save_table'' = Some (Write, save_table)"
  by (simp add: REGISTRY_def READS_def REGISTRY_READS_def RUNTIME_READS_def INSIGHT_READS_def
      REGISTRY_WRITES_def map_of_append del: append_Cons append_Nil)

lemma upsert_connection_tool: "map_of REGISTRY ''upsert_connection'' = Some (Write, upsert_connection)"
  by (simp add: REGISTRY_def READS_def REGISTRY_READS_def RUNTIME_READS_def INSIGHT_READS_def
      REGISTRY_WRITES_def map_of_append del: append_Cons append_Nil)

text \<open>A table saved under a name that is not its slug overwrites the table of the slug, but the journal looks
  for the name and finds nothing: the undo deletes nothing and the old table is lost.\<close>

lemma saved_and_reverted:
  assumes "parse_table (PDict d) = Some t'" and "st_tables s name = None"
  shows "st_tables (cx_store (snd (revert (stores_backend draft remote listing others)
      (run (stores_backend draft remote listing others) [(''save_table'', [(''name'', PStr name), (''draft'', PDict d)])]
         (session s))))) = (table_upsert name t' (st_tables s))(name := None)"
proof -
  have draft: "given_or [(''name'', PStr name), (''draft'', PDict d)] ''draft'' (PDict []) = PDict d"
    by (cases d) (simp_all add: given_or_def)
  show ?thesis
    using assms
    by (simp add: dispatch_def save_table_tool save_table_def draft bind_def reads_def on_read_def on_store_def
        record_change_def return_def need_def session_def revert_def capture_after_def restore_journal_def
        restore_one_def after_of_def stores_put_table_def stores_backend_def write_back_def raised_def table_delete_def
        quiet_def saved_result_def fun_upd_idem split: option.splits)
qed

theorem undo_loses_overwritten_table:
  assumes "parse_table (PDict d) = Some t'" and "st_tables s ''My Table'' = None"
  shows "st_tables (cx_store (snd (revert (stores_backend draft remote listing others)
      (run (stores_backend draft remote listing others) [(''save_table'', [(''name'', PStr ''My Table''), (''draft'', PDict d)])]
         (session s))))) ''my_table'' = Some t'"
proof -
  have "slug ''table'' ''My Table'' = ''my_table''" by code_simp
  then show ?thesis unfolding saved_and_reverted [OF assms] by (simp add: table_upsert_def)
qed

text \<open>Undoing an edit of a connection writes the defaults of every field into it.\<close>

definition take_dict :: "pyv \<Rightarrow> doc option" where
  "take_dict v = (case v of PDict d \<Rightarrow> Some d | _ \<Rightarrow> None)"

lemma upserted_and_reverted:
  "cx_store (snd (revert (stores_backend take_dict remote listing others)
      (run (stores_backend take_dict remote listing others) [(''upsert_connection'', [(''name'', PStr name), (''config'', PDict d)])]
         (session s)))) =
   (let s' = s\<lparr>st_connections := connection_upsert name d (st_connections s)\<rparr> in
    (case st_connections s name of
       None \<Rightarrow> s'\<lparr>st_connections := (st_connections s')(name := None)\<rparr>
     | Some old \<Rightarrow> s'\<lparr>st_connections :=
         connection_upsert name (without (dump_connection name old) [''name'']) (st_connections s')\<rparr>))"
proof -
  have config: "given_or [(''name'', PStr name), (''config'', PDict d)] ''config'' (PDict []) = PDict d"
    by (cases d) (simp_all add: given_or_def)
  show ?thesis
    by (cases "st_connections s name")
      (simp_all add: dispatch_def upsert_connection_tool upsert_connection_def config bind_def reads_def on_read_def on_store_def
        record_change_def return_def need_def session_def revert_def capture_after_def restore_journal_def
        restore_one_def after_of_def stores_put_connection_def stores_backend_def write_back_def raised_def connection_delete_def
        quiet_def unused_def saved_result_def fun_upd_idem take_dict_def Let_def split: option.splits)
qed

definition demo_extending :: connections where
  "demo_extending = (\<lambda>k. None)(''gw'' \<mapsto> [(''extends'', PStr ''base''), (''host'', PStr ''h'')])"

theorem undo_bakes_defaults:
  "demo_extending ''gw'' = Some [(''extends'', PStr ''base''), (''host'', PStr ''h'')] \<and>
   (\<exists>d. st_connections (cx_store (snd (revert (stores_backend take_dict remote listing counting_backend)
      (run (stores_backend take_dict remote listing counting_backend)
         [(''upsert_connection'', [(''name'', PStr ''gw''), (''config'', PDict [(''extends'', PStr ''base''), (''host'', PStr ''x'')])])]
         (session (demo_stores demo_extending (\<lambda>k. None))))))) ''gw'' = Some d \<and>
      get d ''protocol'' PNone = PStr ''iso8583'' \<and> get d ''port'' PNone = PInt 0)"
proof -
  have slug: "slug ''connection'' ''gw'' = ''gw''" by code_simp
  show ?thesis
    unfolding upserted_and_reverted
    by (simp add: demo_extending_def demo_stores_def connection_upsert_at slug upserted_def Let_def dump_connection_def
        update_with_def CONNECTION_DEFAULTS_def without_def is_default_def)
qed

text \<open>A new default demotes the old one without a record: after the undo there is none.\<close>

definition demo_default :: connections where
  "demo_default = (\<lambda>k. None)(''a'' \<mapsto> [(''host'', PStr ''h''), (''default'', PBool True)])"

theorem undo_leaves_no_default:
  "default_names demo_default ''tcp/iso8583'' = {''a''} \<and>
   default_names (st_connections (cx_store (snd (revert (stores_backend take_dict remote listing counting_backend)
      (run (stores_backend take_dict remote listing counting_backend)
         [(''upsert_connection'', [(''name'', PStr ''b''), (''config'', PDict [(''host'', PStr ''x''), (''default'', PBool True)])])]
         (session (demo_stores demo_default (\<lambda>k. None)))))))) ty = {}"
proof -
  have slug: "slug ''connection'' ''b'' = ''b''" by code_simp
  have ty: "type_key (PStr ''tcp'') (PStr ''iso8583'') = ''tcp/iso8583''" by code_simp
  show ?thesis
    unfolding upserted_and_reverted
    by (auto simp: demo_default_def demo_stores_def connection_upsert_at slug ty upserted_def Let_def
        is_default_def doc_type_def default_names_def get_demote split: if_splits option.splits)
qed

end
