(* ===== verification/References.thy ===== *)
theory References
  imports Conditions
begin

text \<open>
  Runtime references of the worker (\<open>worker/engine/variables.py\<close>) and the comparisons of its control nodes
  (\<open>_loose_eq\<close> and \<open>_compare\<close> of \<open>worker/engine/runner.py\<close>). Generators are a parameter: which expressions
  are generators, and what a draw gives and does to their state. So are the text of a value and the search
  of a regular expression. An \<open>UnresolvedReferenceError\<close> is a \<open>KeyError\<close>.
\<close>

section \<open>Paths\<close>

text \<open>An index in brackets at the start of a text, with the rest.\<close>

definition index_at :: "string \<Rightarrow> (string \<times> string) option" where
  "index_at s =
     (if take 1 s \<noteq> ''['' then None
      else (let ds = takeWhile is_digit (tl s); r = drop (length ds) (tl s) in
            if ds = [] \<or> take 1 r \<noteq> '']'' then None else Some (ds, tl r)))"

lemma index_at_shorter: "index_at s = Some (ds, rest) \<Longrightarrow> length rest < length s"
  by (cases s) (auto simp: index_at_def Let_def split: if_splits)

text \<open>\<open>re.split(r"\\[(\\d+)\\]", raw)\<close>: the text before, then every index and the text after it.\<close>

function split_indices :: "string \<Rightarrow> string \<Rightarrow> string list" where
  "split_indices acc s =
     (case s of
        [] \<Rightarrow> [rev acc]
      | c # cs \<Rightarrow>
          (case index_at s of
             Some (ds, rest) \<Rightarrow> rev acc # ds # split_indices [] rest
           | None \<Rightarrow> split_indices (c # acc) cs))"
  by auto
termination
  by (relation "measure (\<lambda>(acc, s). length s)") (auto dest: index_at_shorter)

declare split_indices.simps [simp del]

text \<open>\<open>current[n]\<close> of a list: an index from the end may be negative.\<close>

definition item_at :: "pyv list \<Rightarrow> int \<Rightarrow> pyv result" where
  "item_at vs n =
     (if 0 \<le> n \<and> n < int (length vs) then Inr (vs ! nat n)
      else if n < 0 \<and> - int (length vs) \<le> n then Inr (vs ! nat (int (length vs) + n))
      else Inl IndexError)"

fun dig_indices :: "pyv \<Rightarrow> string list \<Rightarrow> pyv result" where
  "dig_indices v [] = Inr v"
| "dig_indices v (i # is) =
     (if i = [] then dig_indices v is
      else (case v of
              PList vs \<Rightarrow>
                rbind (of_option ValueError (int_text (u i))) (\<lambda>n. rbind (item_at vs n) (\<lambda>w. dig_indices w is))
            | _ \<Rightarrow> Inl KeyError))"

definition dig_part :: "pyv \<Rightarrow> string \<Rightarrow> pyv result" where
  "dig_part v raw =
     (let parts = split_indices [] raw; k = hd parts in
      rbind (if k = [] then Inr v
             else (case v of PDict kvs \<Rightarrow> of_option KeyError (map_of kvs k) | _ \<Rightarrow> Inl KeyError)) (\<lambda>w.
      dig_indices w (tl parts)))"

fun dig_parts :: "pyv \<Rightarrow> string list \<Rightarrow> pyv result" where
  "dig_parts v [] = Inr v"
| "dig_parts v (p # ps) = rbind (dig_part v p) (\<lambda>w. dig_parts w ps)"

definition dig :: "pyv \<Rightarrow> string \<Rightarrow> pyv result" where
  "dig v path = dig_parts v (split_char CHR ''.'' path)"

section \<open>Resolution\<close>

definition expr_char :: "char \<Rightarrow> bool" where
  "expr_char c \<longleftrightarrow> is_alnum c \<or> c \<in> {CHR ''_'', CHR ''.'', CHR ''['', CHR '']'', CHR ''-''}"

definition arg_char :: "char \<Rightarrow> bool" where
  "arg_char c \<longleftrightarrow> c \<notin> {CHR ''('', CHR '')'', CHR ''{'', CHR ''}''}"

text \<open>\<open>VAR_REF_RE\<close> at the start of a text: the expression, with its arguments if it has some, and the rest.\<close>

definition expr_at :: "string \<Rightarrow> (string \<times> string) option" where
  "expr_at s =
     (if take 2 s \<noteq> ''${'' then None
      else (let e = takeWhile expr_char (drop 2 s); r = drop (length e) (drop 2 s) in
            if e = [] then None
            else if take 1 r = ''}'' then Some (e, tl r)
            else if take 1 r = ''('' then
              (let a = takeWhile arg_char (tl r); r' = drop (length a) (tl r) in
               if take 2 r' = '')}'' then Some (e @ ''('' @ a @ '')'', drop 2 r') else None)
            else None))"

lemma expr_at_shorter: "expr_at s = Some (e, rest) \<Longrightarrow> length rest < length s"
  by (cases s) (auto simp: expr_at_def Let_def split: if_splits)

record 'w run_env =
  ev_text :: "pyv \<Rightarrow> string"
  ev_is_generator :: "string \<Rightarrow> bool"
  ev_draw :: "string \<Rightarrow> 'w \<Rightarrow> pyv result \<times> 'w"
  ev_search :: "string \<Rightarrow> string \<Rightarrow> bool"

type_synonym context_values = "(string \<times> pyv) list"

definition one_ref :: "'w run_env \<Rightarrow> context_values \<Rightarrow> string \<Rightarrow> 'w \<Rightarrow> pyv result \<times> 'w" where
  "one_ref ev ctx e w = (if ev_is_generator ev e then ev_draw ev e w else (dig (PDict ctx) e, w))"

text \<open>\<open>VAR_REF_RE.sub\<close> with the text of every value.\<close>

function sub_exprs :: "'w run_env \<Rightarrow> context_values \<Rightarrow> string \<Rightarrow> 'w \<Rightarrow> string result \<times> 'w" where
  "sub_exprs ev ctx s w =
     (case s of
        [] \<Rightarrow> (Inr [], w)
      | c # cs \<Rightarrow>
          (case expr_at s of
             Some (e, rest) \<Rightarrow>
               (case one_ref ev ctx e w of
                  (Inl x, w) \<Rightarrow> (Inl x, w)
                | (Inr v, w) \<Rightarrow>
                    (case sub_exprs ev ctx rest w of (r, w) \<Rightarrow> (rbind r (\<lambda>t. Inr (pystr (ev_text ev) v @ t)), w)))
           | None \<Rightarrow> (case sub_exprs ev ctx cs w of (r, w) \<Rightarrow> (rbind r (\<lambda>t. Inr (c # t)), w))))"
  by auto
termination
  by (relation "measure (\<lambda>(ev, ctx, s, w). length s)") (auto dest: expr_at_shorter)

declare sub_exprs.simps [simp del]

definition resolve_text :: "'w run_env \<Rightarrow> context_values \<Rightarrow> string \<Rightarrow> 'w \<Rightarrow> pyv result \<times> 'w" where
  "resolve_text ev ctx s w =
     (case expr_at s of
        Some (e, []) \<Rightarrow> one_ref ev ctx e w
      | _ \<Rightarrow> (case sub_exprs ev ctx s w of (r, w) \<Rightarrow> (rbind r (\<lambda>t. Inr (PStr t)), w)))"

fun resolve_value :: "'w run_env \<Rightarrow> context_values \<Rightarrow> pyv \<Rightarrow> 'w \<Rightarrow> pyv result \<times> 'w"
  and resolve_list :: "'w run_env \<Rightarrow> context_values \<Rightarrow> pyv list \<Rightarrow> 'w \<Rightarrow> pyv list result \<times> 'w"
  and resolve_fields :: "'w run_env \<Rightarrow> context_values \<Rightarrow> (string \<times> pyv) list \<Rightarrow> 'w \<Rightarrow> (string \<times> pyv) list result \<times> 'w" where
  "resolve_value ev ctx (PStr s) w = resolve_text ev ctx s w"
| "resolve_value ev ctx (PDict kvs) w = (case resolve_fields ev ctx kvs w of (r, w) \<Rightarrow> (rbind r (\<lambda>x. Inr (PDict x)), w))"
| "resolve_value ev ctx (PList vs) w = (case resolve_list ev ctx vs w of (r, w) \<Rightarrow> (rbind r (\<lambda>x. Inr (PList x)), w))"
| "resolve_value ev ctx v w = (Inr v, w)"
| "resolve_list ev ctx [] w = (Inr [], w)"
| "resolve_list ev ctx (v # vs) w =
     (case resolve_value ev ctx v w of
        (Inl e, w) \<Rightarrow> (Inl e, w)
      | (Inr x, w) \<Rightarrow> (case resolve_list ev ctx vs w of (r, w) \<Rightarrow> (rbind r (\<lambda>xs. Inr (x # xs)), w)))"
| "resolve_fields ev ctx [] w = (Inr [], w)"
| "resolve_fields ev ctx ((k, v) # kvs) w =
     (case resolve_value ev ctx v w of
        (Inl e, w) \<Rightarrow> (Inl e, w)
      | (Inr x, w) \<Rightarrow> (case resolve_fields ev ctx kvs w of (r, w) \<Rightarrow> (rbind r (\<lambda>xs. Inr ((k, x) # xs)), w)))"

section \<open>Conditions\<close>

definition loose_eq :: "(pyv \<Rightarrow> string) \<Rightarrow> pyv \<Rightarrow> pyv \<Rightarrow> bool" where
  "loose_eq rp a b \<longleftrightarrow>
     py_eq a b \<or>
     (case (float_of a, float_of b) of
        (Inr x, Inr y) \<Rightarrow> x = y
      | _ \<Rightarrow> pystr rp a = pystr rp b)"

definition compare :: "'w run_env \<Rightarrow> pyv \<Rightarrow> pyv \<Rightarrow> pyv \<Rightarrow> bool" where
  "compare ev left op right =
     (let text_of = pystr (ev_text ev); in_text = sublist (text_of right) (text_of left);
          ordered = (\<lambda>rel. case (float_of left, float_of right) of (Inr x, Inr y) \<Rightarrow> rel x y | _ \<Rightarrow> False) in
      case op of
        PStr o' \<Rightarrow>
          if o' = ''present'' then left \<noteq> PNone
          else if o' = ''absent'' then left = PNone
          else if o' = ''eq'' then loose_eq (ev_text ev) left right
          else if o' = ''ne'' then \<not> loose_eq (ev_text ev) left right
          else if o' = ''lt'' then ordered (<)
          else if o' = ''lte'' then ordered (\<le>)
          else if o' = ''gt'' then ordered (>)
          else if o' = ''gte'' then ordered (\<ge>)
          else if o' = ''contains'' then
            (case left of
               PStr t \<Rightarrow> in_text
             | PList vs \<Rightarrow> list_ex (\<lambda>v. py_eq v right) vs
             | PDict kvs \<Rightarrow> (case right of PStr s \<Rightarrow> s \<in> fst ` set kvs | PList vs \<Rightarrow> in_text | PDict d \<Rightarrow> in_text | _ \<Rightarrow> False)
             | _ \<Rightarrow> in_text)
          else if o' = ''matches'' then ev_search ev (text_of right) (text_of left)
          else False
      | _ \<Rightarrow> False)"

text \<open>\<open>GraphExecutor._resolve\<close>: what is unresolved is \<open>None\<close>; other exceptions are not caught.\<close>

definition resolve_or_none :: "'w run_env \<Rightarrow> context_values \<Rightarrow> pyv \<Rightarrow> 'w \<Rightarrow> pyv result \<times> 'w" where
  "resolve_or_none ev ctx v w =
     (case v of
        PStr s \<Rightarrow> (case resolve_text ev ctx s w of (Inl KeyError, w) \<Rightarrow> (Inr PNone, w) | rw \<Rightarrow> rw)
      | _ \<Rightarrow> (Inr v, w))"

definition eval_condition :: "'w run_env \<Rightarrow> context_values \<Rightarrow> (string \<times> pyv) list \<Rightarrow> 'w \<Rightarrow> bool result \<times> 'w" where
  "eval_condition ev ctx cfg w =
     (case resolve_or_none ev ctx (get cfg ''left'' PNone) w of
        (Inl e, w) \<Rightarrow> (Inl e, w)
      | (Inr l, w) \<Rightarrow>
          (case resolve_or_none ev ctx (get cfg ''right'' PNone) w of
             (Inl e, w) \<Rightarrow> (Inl e, w)
           | (Inr r, w) \<Rightarrow> (Inr (compare ev l (get cfg ''operator'' (PStr ''eq'')) r), w)))"

text \<open>\<open>_switch_port\<close>.\<close>

fun switch_case :: "(pyv \<Rightarrow> string) \<Rightarrow> pyv \<Rightarrow> nat \<Rightarrow> pyv list \<Rightarrow> string result" where
  "switch_case rp v i [] = Inr ''default''"
| "switch_case rp v i (c # cs) =
     (case c of
        PDict d \<Rightarrow> if loose_eq rp v (get d ''value'' PNone) then Inr (''case_'' @ dec_string i) else switch_case rp v (i + 1) cs
      | _ \<Rightarrow> Inl AttributeError)"

definition switch_port :: "'w run_env \<Rightarrow> context_values \<Rightarrow> (string \<times> pyv) list \<Rightarrow> 'w \<Rightarrow> string result \<times> 'w" where
  "switch_port ev ctx cfg w =
     (case resolve_or_none ev ctx (get cfg ''value'' PNone) w of
        (Inl e, w) \<Rightarrow> (Inl e, w)
      | (Inr v, w) \<Rightarrow>
          ((let cs = get cfg ''cases'' PNone in
            if \<not> truthy cs then Inr ''default''
            else case cs of PList cs \<Rightarrow> switch_case (ev_text ev) v 0 cs | PStr t \<Rightarrow> Inl AttributeError
                 | PDict d \<Rightarrow> Inl AttributeError | _ \<Rightarrow> Inl TypeError), w))"

section \<open>Indices past the end\<close>

text \<open>An index past the end of a list is no unresolved reference: it raises an \<open>IndexError\<close>, which neither a
  step nor a condition catches.\<close>

theorem index_past_end_raises:
  "dig (PDict [(''a'', PList [])]) ''a[0]'' = Inl IndexError \<and>
   resolve_or_none (ev\<lparr>ev_is_generator := \<lambda>e. False\<rparr>) [(''a'', PList [])] (PStr ''${a[0]}'') w = (Inl IndexError, w)"
proof -
  have e: "expr_at ''${a[0]}'' = Some (''a[0]'', [])" by code_simp
  have d: "dig (PDict [(''a'', PList [])]) ''a[0]'' = Inl IndexError" by code_simp
  show ?thesis using e d by (simp add: resolve_or_none_def resolve_text_def one_ref_def)
qed

section \<open>Values without references\<close>

lemma expr_at_dollar: "CHR ''$'' \<notin> set s \<Longrightarrow> expr_at s = None"
  by (cases s) (auto simp: expr_at_def)

lemma sub_exprs_dollar: "CHR ''$'' \<notin> set s \<Longrightarrow> sub_exprs ev ctx s w = (Inr s, w)"
  by (induction s) (simp_all add: sub_exprs.simps expr_at_dollar)

lemma resolve_dollar_free:
  "dollar_free v \<Longrightarrow> resolve_value ev ctx v w = (Inr v, w)"
  "\<forall>v \<in> set vs. dollar_free v \<Longrightarrow> resolve_list ev ctx vs w = (Inr vs, w)"
  "\<forall>kv \<in> set kvs. dollar_free (snd kv) \<Longrightarrow> resolve_fields ev ctx kvs w = (Inr kvs, w)"
  by (induction ev ctx v w and ev ctx vs w and ev ctx kvs w rule: resolve_value_resolve_list_resolve_fields.induct)
    (auto simp: resolve_text_def expr_at_dollar sub_exprs_dollar)

end
