(* ===== verification/Scenario.thy ===== *)
theory Scenario
  imports Network_Flow Hub_Spec
begin

text \<open>
  Scenario documents and their structural validation (\<open>scenario-service/models/scenario.py\<close>): the nodes and
  wires of a scenario, the ports of a node, the references in a payload, and \<open>validate_scenario\<close>. What the
  pydantic schema checks is assumed of a draft; texts are Latin-1 and the JSON parser of an \<open>init\<close> node is a
  parameter.
\<close>

section \<open>Documents\<close>

record assertion =
  as_field :: string
  as_operator :: string
  as_expected :: pyv

record step =
  sp_id :: string
  sp_kind :: string
  sp_target :: string
  sp_action :: string
  sp_payload :: pyv
  sp_assertions :: "assertion list"
  sp_config :: "(string \<times> pyv) list"

record edge =
  ed_source :: string
  ed_port :: string
  ed_target :: string

record scenario =
  sn_id :: string
  sn_steps :: "step list"
  sn_edges :: "edge list"
  sn_stop_on_failure :: bool

definition UNARY_OPERATORS :: "string list" where
  "UNARY_OPERATORS = [''present'', ''absent'']"

definition NETWORK_ONLY_KINDS :: "string list" where
  "NETWORK_ONLY_KINDS = [''participant'', ''scenario'', ''simulator'', ''group'']"

definition CRYPTO_OPERATIONS :: "string list" where
  "CRYPTO_OPERATIONS = [''des'', ''kcv'', ''pin_block_encode'', ''pin_block_decode'', ''retail_mac'', ''cvv'',
     ''arqc'', ''arpc'', ''emv_icc_mk'', ''emv_session_key'']"

definition CODE_LANGUAGES :: "string list" where
  "CODE_LANGUAGES = [''python'', ''typescript'', ''javascript'']"

definition HTTP_METHODS :: "string list" where
  "HTTP_METHODS = [''GET'', ''POST'', ''PUT'', ''PATCH'', ''DELETE'', ''HEAD'', ''OPTIONS'']"

definition NON_STEP_REF_PREFIXES :: "string list" where
  "NON_STEP_REF_PREFIXES = [''loop'', ''vars'', ''tables'', ''rand'', ''seq'', ''uuid'', ''now'', ''pool'', ''card'']"

text \<open>\<open>x or []\<close>, then \<open>len\<close>.\<close>

definition len_or_empty :: "pyv \<Rightarrow> nat result" where
  "len_or_empty v =
     (if \<not> truthy v then Inr 0
      else case v of PList vs \<Rightarrow> Inr (length vs) | PDict d \<Rightarrow> Inr (length d) | PStr s \<Rightarrow> Inr (length s)
           | _ \<Rightarrow> Inl TypeError)"

definition node_output_ports :: "step \<Rightarrow> string list result" where
  "node_output_ports s =
     (if sp_kind s = ''if'' then Inr [''true'', ''false'']
      else if sp_kind s = ''loop'' then Inr [''loop'', ''done'']
      else if sp_kind s = ''switch'' then
        rbind (len_or_empty (get (sp_config s) ''cases'' PNone)) (\<lambda>n.
        Inr (map (\<lambda>i. ''case_'' @ dec_string i) [0..<n] @ [''default'']))
      else Inr [''out''])"

section \<open>References\<close>

definition ref_step_char :: "char \<Rightarrow> bool" where
  "ref_step_char c \<longleftrightarrow> is_alnum c \<or> c = CHR ''_'' \<or> c = CHR ''-''"

definition ref_path_char :: "char \<Rightarrow> bool" where
  "ref_path_char c \<longleftrightarrow> is_alnum c \<or> c \<in> {CHR ''_'', CHR ''.'', CHR ''['', CHR '']'', CHR ''-''}"

text \<open>\<open>VAR_REF_RE\<close> at the start of a text: the step, the path and the rest of the text.\<close>

definition var_ref :: "string \<Rightarrow> (string \<times> string \<times> string) option" where
  "var_ref s =
     (if take 2 s \<noteq> ''${'' then None
      else (let a = takeWhile ref_step_char (drop 2 s); r = drop (length a) (drop 2 s) in
            if a = [] \<or> take 1 r \<noteq> ''.'' then None
            else (let p = takeWhile ref_path_char (tl r); r' = drop (length p) (tl r) in
                  if p = [] \<or> take 1 r' \<noteq> ''}'' then None else Some (a, p, tl r'))))"

lemma var_ref_shorter: "var_ref s = Some (a, p, rest) \<Longrightarrow> length rest < length s"
  by (cases s) (auto simp: var_ref_def Let_def split: if_splits)

text \<open>\<open>VAR_REF_RE.finditer\<close>: the steps referred to, in order.\<close>

function refs_in :: "string \<Rightarrow> string list" where
  "refs_in s =
     (case s of
        [] \<Rightarrow> []
      | c # cs \<Rightarrow> (case var_ref s of Some (a, p, rest) \<Rightarrow> a # refs_in rest | None \<Rightarrow> refs_in cs))"
  by auto
termination
  by (relation "measure length") (auto dest: var_ref_shorter)

declare refs_in.simps [simp del]

text \<open>\<open>_iter_strings\<close>.\<close>

fun iter_strings :: "pyv \<Rightarrow> string list"
  and iter_list :: "pyv list \<Rightarrow> string list"
  and iter_fields :: "(string \<times> pyv) list \<Rightarrow> string list" where
  "iter_strings (PStr s) = [s]"
| "iter_strings (PDict kvs) = iter_fields kvs"
| "iter_strings (PList vs) = iter_list vs"
| "iter_strings v = []"
| "iter_list [] = []"
| "iter_list (v # vs) = iter_strings v @ iter_list vs"
| "iter_fields [] = []"
| "iter_fields ((k, v) # kvs) = iter_strings v @ iter_fields kvs"

definition step_refs :: "step \<Rightarrow> string list" where
  "step_refs s = concat (map refs_in (iter_strings (sp_payload s)))"

section \<open>Issues\<close>

datatype severity = Error | Warning

datatype problem =
    Duplicate_Id | No_Target_Or_Action | Network_Kind | No_Left | No_Value | No_Cases | Bad_Loop_Mode | No_List
  | No_Condition | Bad_Wait | No_Code | Bad_Language | Bad_Operation | Bad_Data | No_Url | Bad_Method | No_Scenario
  | From_Unknown | To_Unknown | No_Such_Port | Self_Reference | Unknown_Reference | Later_Reference
  | Ignored_Expected | Missing_Expected | No_Steps

record issue =
  is_severity :: severity
  is_step :: "string option"
  is_problem :: problem

definition err :: "string \<Rightarrow> problem \<Rightarrow> issue" where
  "err x p = \<lparr>is_severity = Error, is_step = Some x, is_problem = p\<rparr>"

definition warn :: "string \<Rightarrow> problem \<Rightarrow> issue" where
  "warn x p = \<lparr>is_severity = Warning, is_step = Some x, is_problem = p\<rparr>"

definition text_in :: "pyv \<Rightarrow> string list \<Rightarrow> bool" where
  "text_in v xs \<longleftrightarrow> (case v of PStr s \<Rightarrow> s \<in> set xs | _ \<Rightarrow> False)"

definition upper_char :: "char \<Rightarrow> char" where
  "upper_char c = (let n = of_char c :: nat in if 97 \<le> n \<and> n \<le> 122 then char_of (n - 32) else c)"

definition when_so :: "bool \<Rightarrow> 'a \<Rightarrow> 'a list" where
  "when_so q x = (if q then [x] else [])"

text \<open>The condition of a \<open>while\<close> loop; one that is no dictionary raises.\<close>

definition while_left :: "(string \<times> pyv) list \<Rightarrow> pyv result" where
  "while_left cfg =
     (let v = get cfg ''condition'' PNone in
      if \<not> truthy v then Inr PNone
      else case v of PDict d \<Rightarrow> Inr (get d ''left'' PNone) | _ \<Rightarrow> Inl AttributeError)"

definition control_issues :: "(pyv \<Rightarrow> string) \<Rightarrow> (string \<Rightarrow> bool) \<Rightarrow> step \<Rightarrow> issue list result" where
  "control_issues rp is_json s =
     (let cfg = sp_config s; k = sp_kind s; x = sp_id s in
      if k = ''if'' then Inr (when_so (blank_key rp cfg ''left'') (err x No_Left))
      else if k = ''switch'' then
        Inr (when_so (blank_key rp cfg ''value'') (err x No_Value) @
             when_so (\<not> truthy (get cfg ''cases'' PNone)) (warn x No_Cases))
      else if k = ''loop'' then
        (let m = get cfg ''mode'' (PStr ''times'') in
         rbind (if m = PStr ''while'' then rbind (while_left cfg) (\<lambda>v. Inr (\<not> truthy v)) else Inr False) (\<lambda>unset.
         Inr (when_so (\<not> text_in m [''times'', ''forEach'', ''while'']) (err x Bad_Loop_Mode) @
              when_so (m = PStr ''forEach'' \<and> blank_key rp cfg ''list'') (err x No_List) @
              when_so unset (err x No_Condition))))
      else if k = ''wait'' then
        Inr (when_so (case float_of (get cfg ''ms'' (PInt 0)) of Inl e \<Rightarrow> True | Inr q \<Rightarrow> False) (err x Bad_Wait))
      else if k = ''code'' then
        Inr (when_so (blank_key rp cfg ''code'') (err x No_Code) @
             when_so (\<not> text_in (get cfg ''language'' (PStr ''python'')) CODE_LANGUAGES) (err x Bad_Language))
      else if k = ''crypto'' then
        Inr (when_so (\<not> text_in (get cfg ''operation'' (PStr [])) CRYPTO_OPERATIONS) (err x Bad_Operation))
      else if k = ''init'' then
        Inr (case get cfg ''data'' PNone of
               PStr t \<Rightarrow> when_so (strip (u t) \<noteq> [] \<and> \<not> is_json t) (err x Bad_Data)
             | _ \<Rightarrow> [])
      else if k = ''http'' then
        Inr (when_so (blank_key rp cfg ''url'') (err x No_Url) @
             when_so (map upper_char (pystr rp (get cfg ''method'' (PStr ''GET''))) \<notin> set HTTP_METHODS) (err x Bad_Method))
      else if k = ''call'' then Inr (when_so (blank_key rp cfg ''scenario_id'') (err x No_Scenario))
      else Inr [])"

fun step_issues :: "(pyv \<Rightarrow> string) \<Rightarrow> (string \<Rightarrow> bool) \<Rightarrow> string list \<Rightarrow> step list \<Rightarrow> issue list result" where
  "step_issues rp is_json seen [] = Inr []"
| "step_issues rp is_json seen (s # ss) =
     rbind (if sp_kind s = ''action'' then
              Inr (when_so (sp_target s = [] \<or> sp_action s = []) (err (sp_id s) No_Target_Or_Action))
            else if sp_kind s \<in> set NETWORK_ONLY_KINDS then Inr [err (sp_id s) Network_Kind]
            else control_issues rp is_json s) (\<lambda>here.
     rbind (step_issues rp is_json (sp_id s # seen) ss) (\<lambda>later.
     Inr (when_so (sp_id s \<in> set seen) (err (sp_id s) Duplicate_Id) @ here @ later)))"

definition step_of :: "step list \<Rightarrow> string \<Rightarrow> step option" where
  "step_of ss = map_of (rev (map (\<lambda>s. (sp_id s, s)) ss))"

definition edge_issues :: "step list \<Rightarrow> edge \<Rightarrow> issue list result" where
  "edge_issues ss e =
     (case step_of ss (ed_source e) of
        None \<Rightarrow> Inr [\<lparr>is_severity = Error, is_step = None, is_problem = From_Unknown\<rparr>]
      | Some s \<Rightarrow>
          rbind (node_output_ports s) (\<lambda>ports.
          Inr (when_so (step_of ss (ed_target e) = None) (err (ed_source e) To_Unknown) @
               when_so (ed_port e \<notin> set ports) (err (ed_source e) No_Such_Port))))"

fun all_edge_issues :: "step list \<Rightarrow> edge list \<Rightarrow> issue list result" where
  "all_edge_issues ss [] = Inr []"
| "all_edge_issues ss (e # es) =
     rbind (edge_issues ss e) (\<lambda>here. rbind (all_edge_issues ss es) (\<lambda>later. Inr (here @ later)))"

text \<open>A reference to a later step is an error of a linear scenario and a warning of a graph.\<close>

definition ref_issues :: "bool \<Rightarrow> string list \<Rightarrow> string list \<Rightarrow> string \<Rightarrow> string \<Rightarrow> issue list" where
  "ref_issues has_edges ids earlier x ref =
     (if ref = x then [err x Self_Reference]
      else if ref \<in> set NON_STEP_REF_PREFIXES then []
      else if ref \<notin> set ids then [err x Unknown_Reference]
      else if ref \<notin> set earlier then [if has_edges then warn x Later_Reference else err x Later_Reference]
      else [])"

definition assertion_issues :: "string \<Rightarrow> assertion \<Rightarrow> issue list" where
  "assertion_issues x a =
     when_so (as_operator a \<in> set UNARY_OPERATORS \<and> as_expected a \<noteq> PNone) (warn x Ignored_Expected) @
     when_so (as_operator a \<notin> set UNARY_OPERATORS \<and> as_expected a = PNone) (err x Missing_Expected)"

fun reference_issues :: "bool \<Rightarrow> string list \<Rightarrow> string list \<Rightarrow> step list \<Rightarrow> issue list" where
  "reference_issues has_edges ids earlier [] = []"
| "reference_issues has_edges ids earlier (s # ss) =
     concat (map (ref_issues has_edges ids earlier (sp_id s)) (step_refs s)) @
     concat (map (assertion_issues (sp_id s)) (sp_assertions s)) @
     reference_issues has_edges ids (sp_id s # earlier) ss"

definition scenario_issues :: "(pyv \<Rightarrow> string) \<Rightarrow> (string \<Rightarrow> bool) \<Rightarrow> scenario \<Rightarrow> issue list result" where
  "scenario_issues rp is_json d =
     (let ss = sn_steps d in
      rbind (step_issues rp is_json [] ss) (\<lambda>nodes.
      rbind (all_edge_issues ss (sn_edges d)) (\<lambda>edges.
      Inr (nodes @ edges @ reference_issues (sn_edges d \<noteq> []) (map sp_id ss) [] ss @
           when_so (ss = []) \<lparr>is_severity = Warning, is_step = None, is_problem = No_Steps\<rparr>))))"

definition is_error :: "issue \<Rightarrow> bool" where
  "is_error i \<longleftrightarrow> is_severity i = Error"

definition validate_scenario :: "(pyv \<Rightarrow> string) \<Rightarrow> (string \<Rightarrow> bool) \<Rightarrow> scenario \<Rightarrow> (bool \<times> issue list) result" where
  "validate_scenario rp is_json d =
     rbind (scenario_issues rp is_json d) (\<lambda>is. Inr (\<not> list_ex is_error is, is))"

section \<open>What a valid scenario is\<close>

text \<open>The configuration a control node needs.\<close>

definition control_ok :: "(pyv \<Rightarrow> string) \<Rightarrow> (string \<Rightarrow> bool) \<Rightarrow> step \<Rightarrow> bool" where
  "control_ok rp is_json s \<longleftrightarrow>
     (case control_issues rp is_json s of Inl e \<Rightarrow> False | Inr is \<Rightarrow> \<not> list_ex is_error is)"

definition step_ok :: "(pyv \<Rightarrow> string) \<Rightarrow> (string \<Rightarrow> bool) \<Rightarrow> step \<Rightarrow> bool" where
  "step_ok rp is_json s \<longleftrightarrow>
     (if sp_kind s = ''action'' then sp_target s \<noteq> [] \<and> sp_action s \<noteq> []
      else sp_kind s \<notin> set NETWORK_ONLY_KINDS \<and> control_ok rp is_json s)"

definition edge_ok :: "step list \<Rightarrow> edge \<Rightarrow> bool" where
  "edge_ok ss e \<longleftrightarrow>
     (case step_of ss (ed_source e) of
        None \<Rightarrow> False
      | Some s \<Rightarrow> ed_target e \<in> sp_id ` set ss \<and>
          (case node_output_ports s of Inl e' \<Rightarrow> False | Inr ports \<Rightarrow> ed_port e \<in> set ports))"

text \<open>A reference names a runtime value or another step, an earlier one in a linear scenario.\<close>

definition ref_ok :: "bool \<Rightarrow> string list \<Rightarrow> string list \<Rightarrow> string \<Rightarrow> string \<Rightarrow> bool" where
  "ref_ok has_edges ids earlier x ref \<longleftrightarrow>
     ref \<noteq> x \<and> (ref \<in> set NON_STEP_REF_PREFIXES \<or> ref \<in> set ids \<and> (has_edges \<or> ref \<in> set earlier))"

definition assertion_ok :: "assertion \<Rightarrow> bool" where
  "assertion_ok a \<longleftrightarrow> as_operator a \<in> set UNARY_OPERATORS \<or> as_expected a \<noteq> PNone"

lemma step_of_None: "step_of ss x = None \<longleftrightarrow> x \<notin> sp_id ` set ss"
  by (simp add: step_of_def map_of_eq_None_iff image_image)

lemma is_error_simps [simp]: "is_error (err x p)" "\<not> is_error (warn x p)"
  by (simp_all add: is_error_def err_def warn_def)

lemma list_ex_when [simp]: "list_ex P (when_so q x) \<longleftrightarrow> q \<and> P x"
  by (simp add: when_so_def)

lemma ref_issues_ok: "list_ex is_error (ref_issues h ids earlier x r) \<longleftrightarrow> \<not> ref_ok h ids earlier x r"
  by (auto simp: ref_issues_def ref_ok_def)

lemma assertion_issues_ok: "list_ex is_error (assertion_issues x a) \<longleftrightarrow> \<not> assertion_ok a"
  by (auto simp: assertion_issues_def assertion_ok_def)

lemma list_ex_concat_map: "list_ex P (concat (map f xs)) \<longleftrightarrow> (\<exists>x \<in> set xs. list_ex P (f x))"
  by (auto simp: list_ex_iff)

definition no_error :: "issue list result \<Rightarrow> bool" where
  "no_error r \<longleftrightarrow> (case r of Inl e \<Rightarrow> False | Inr is \<Rightarrow> \<not> list_ex is_error is)"

lemma step_issues_ok:
  "no_error (step_issues rp is_json seen ss) \<longleftrightarrow>
     distinct (map sp_id ss) \<and> set seen \<inter> sp_id ` set ss = {} \<and> list_all (step_ok rp is_json) ss"
proof (induction ss arbitrary: seen)
  case (Cons s ss)
  define here where "here = (if sp_kind s = ''action'' then
      Inr (when_so (sp_target s = [] \<or> sp_action s = []) (err (sp_id s) No_Target_Or_Action))
    else if sp_kind s \<in> set NETWORK_ONLY_KINDS then Inr [err (sp_id s) Network_Kind]
    else control_issues rp is_json s)"
  have h: "no_error here \<longleftrightarrow> step_ok rp is_json s"
    by (simp add: here_def no_error_def step_ok_def control_ok_def)
  have "no_error (step_issues rp is_json seen (s # ss)) \<longleftrightarrow>
      sp_id s \<notin> set seen \<and> no_error here \<and> no_error (step_issues rp is_json (sp_id s # seen) ss)"
    by (cases here; cases "step_issues rp is_json (sp_id s # seen) ss")
      (auto simp: no_error_def here_def [symmetric])
  then show ?case unfolding h Cons.IH by auto
qed (simp add: no_error_def)

lemma is_error_record [simp]: "is_error \<lparr>is_severity = v, is_step = x, is_problem = p\<rparr> \<longleftrightarrow> v = Error"
  by (simp add: is_error_def)

lemma edge_issues_ok: "no_error (edge_issues ss e) \<longleftrightarrow> edge_ok ss e"
proof (cases "step_of ss (ed_source e)")
  case (Some s)
  then show ?thesis
    using step_of_None [of ss "ed_target e"]
    by (cases "node_output_ports s") (auto simp: no_error_def edge_issues_def edge_ok_def)
qed (simp add: no_error_def edge_issues_def edge_ok_def)

lemma all_edge_issues_ok: "no_error (all_edge_issues ss es) \<longleftrightarrow> list_all (edge_ok ss) es"
proof (induction es)
  case (Cons e es)
  have "no_error (all_edge_issues ss (e # es)) \<longleftrightarrow> no_error (edge_issues ss e) \<and> no_error (all_edge_issues ss es)"
    by (cases "edge_issues ss e"; cases "all_edge_issues ss es") (auto simp: no_error_def)
  then show ?case by (simp add: edge_issues_ok Cons.IH)
qed (simp add: no_error_def)

text \<open>The references and assertions of the \<open>i\<close>th step.\<close>

definition uses_ok :: "bool \<Rightarrow> string list \<Rightarrow> string list \<Rightarrow> step \<Rightarrow> bool" where
  "uses_ok has_edges ids earlier s \<longleftrightarrow>
     list_all (ref_ok has_edges ids earlier (sp_id s)) (step_refs s) \<and> list_all assertion_ok (sp_assertions s)"

lemma uses_ok_set: "set earlier = set earlier' \<Longrightarrow> uses_ok h ids earlier s = uses_ok h ids earlier' s"
  unfolding uses_ok_def ref_ok_def [abs_def] by simp

lemma list_all_upt_Suc: "list_all P [0..<Suc n] \<longleftrightarrow> P 0 \<and> list_all (\<lambda>i. P (Suc i)) [0..<n]"
  unfolding list_all_iff set_upt by (auto simp: less_Suc_eq_0_disj)

lemma uses_issues_ok:
  "\<not> list_ex is_error (concat (map (ref_issues h ids earlier (sp_id s)) (step_refs s)) @
      concat (map (assertion_issues (sp_id s)) (sp_assertions s))) \<longleftrightarrow> uses_ok h ids earlier s"
  by (auto simp: list_ex_concat_map ref_issues_ok assertion_issues_ok uses_ok_def list_all_iff)

lemma reference_issues_ok:
  "\<not> list_ex is_error (reference_issues h ids (map sp_id (rev pre)) ss) \<longleftrightarrow>
     list_all (\<lambda>i. uses_ok h ids (map sp_id (pre @ take i ss)) (ss ! i)) [0..<length ss]"
proof (induction ss arbitrary: pre)
  case (Cons s ss)
  have "\<not> list_ex is_error (reference_issues h ids (map sp_id (rev pre)) (s # ss)) \<longleftrightarrow>
      uses_ok h ids (map sp_id (rev pre)) s \<and> \<not> list_ex is_error (reference_issues h ids (map sp_id (rev (pre @ [s]))) ss)"
    unfolding uses_issues_ok [symmetric] by auto
  also have "uses_ok h ids (map sp_id (rev pre)) s \<longleftrightarrow> uses_ok h ids (map sp_id pre) s"
    by (rule uses_ok_set) simp
  also have "(\<not> list_ex is_error (reference_issues h ids (map sp_id (rev (pre @ [s]))) ss)) \<longleftrightarrow>
      list_all (\<lambda>i. uses_ok h ids (map sp_id ((pre @ [s]) @ take i ss)) (ss ! i)) [0..<length ss]"
    by (rule Cons.IH)
  finally show ?case
    unfolding length_Cons list_all_upt_Suc by (simp del: upt_Suc)
qed simp

text \<open>Validation accepts a scenario exactly when its step ids are distinct, every node has the target and
  action or the configuration its kind needs, every wire leaves a step by one of its ports and reaches a
  step, no payload refers to its own step, every reference names a runtime value or a step, an earlier one
  when there are no wires, and every binary assertion has an expected value.\<close>

theorem scenario_valid_iff:
  "(case validate_scenario rp is_json d of Inl e \<Rightarrow> False | Inr (valid, is) \<Rightarrow> valid) \<longleftrightarrow>
     distinct (map sp_id (sn_steps d)) \<and> list_all (step_ok rp is_json) (sn_steps d) \<and>
     list_all (edge_ok (sn_steps d)) (sn_edges d) \<and>
     list_all (\<lambda>i. uses_ok (sn_edges d \<noteq> []) (map sp_id (sn_steps d)) (map sp_id (take i (sn_steps d))) (sn_steps d ! i))
       [0..<length (sn_steps d)]"
proof -
  let ?refs = "reference_issues (sn_edges d \<noteq> []) (map sp_id (sn_steps d)) [] (sn_steps d)"
  have "(case validate_scenario rp is_json d of Inl e \<Rightarrow> False | Inr (valid, is) \<Rightarrow> valid) \<longleftrightarrow>
      no_error (step_issues rp is_json [] (sn_steps d)) \<and> no_error (all_edge_issues (sn_steps d) (sn_edges d)) \<and>
      \<not> list_ex is_error ?refs"
    by (cases "step_issues rp is_json [] (sn_steps d)"; cases "all_edge_issues (sn_steps d) (sn_edges d)")
      (auto simp: validate_scenario_def scenario_issues_def no_error_def Let_def)
  then show ?thesis
    using reference_issues_ok [of "sn_edges d \<noteq> []" "map sp_id (sn_steps d)" "[]" "sn_steps d"]
    by (simp add: step_issues_ok all_edge_issues_ok)
qed

text \<open>A \<open>while\<close> loop whose condition is a text makes validation raise instead of reporting an issue.\<close>

theorem while_condition_text_raises:
  "validate_scenario rp is_json
     \<lparr>sn_id = n, sn_steps = [\<lparr>sp_id = x, sp_kind = ''loop'', sp_target = [], sp_action = [], sp_payload = PDict [],
        sp_assertions = [], sp_config = [(''mode'', PStr ''while''), (''condition'', PStr ''vars.more'')]\<rparr>],
      sn_edges = [], sn_stop_on_failure = True\<rparr> = Inl AttributeError"
  by (simp add: validate_scenario_def scenario_issues_def control_issues_def while_left_def NETWORK_ONLY_KINDS_def)

text \<open>A step may take the name of a runtime namespace; references to it are then never looked at.\<close>

theorem reserved_step_id_is_accepted:
  "uses_ok False [''vars'', ''b''] [] \<lparr>sp_id = ''b'', sp_kind = ''action'', sp_target = t, sp_action = a,
     sp_payload = PStr ''${vars.response.rrn}'', sp_assertions = [], sp_config = []\<rparr>"
proof -
  have "refs_in ''${vars.response.rrn}'' = [''vars'']" by code_simp
  then show ?thesis by (simp add: uses_ok_def step_refs_def ref_ok_def NON_STEP_REF_PREFIXES_def)
qed

end
