(* ===== verification/Nodes.thy ===== *)
theory Nodes
  imports References Scenario
begin

text \<open>
  The nodes of a scenario as the worker executes them (\<open>GraphExecutor\<close> of \<open>worker/engine/runner.py\<close>): an
  action step, the nodes that run code, requests, cryptography, fixed data or a relay, and the control
  nodes. The outside world has a state of its own: adapters, the sandbox of code, the HTTP client, the
  cryptographic operations and the generators are parameters that may change it. Values are copied, so
  lists and dictionaries that two places of the context share are not followed. Events, traces,
  redaction, times and the hook of the debugger are left out.
\<close>

section \<open>Outcomes and state\<close>

datatype status = Passed | Failed | Blocked | Errored

record outcome =
  oc_step :: string
  oc_target :: string
  oc_status :: status
  oc_response :: pyv

text \<open>What an adapter answers: success, the request as sent, the response, and the verdicts of the assertions.\<close>

record adapter_result =
  ar_success :: bool
  ar_request :: pyv
  ar_response :: pyv
  ar_assertions :: "bool list"

text \<open>
  The outside world. An adapter raises when it answers \<open>None\<close>, and so does the JSON parser; code fails when
  it answers \<open>None\<close>. The last part holds the scenarios a call can run.
\<close>

record 'w exec =
  ex_env :: "'w run_env"
  ex_adapter :: "string \<Rightarrow> string \<Rightarrow> pyv \<Rightarrow> assertion list \<Rightarrow> 'w \<Rightarrow> adapter_result option \<times> 'w"
  ex_code :: "pyv \<Rightarrow> pyv \<Rightarrow> context_values \<Rightarrow> pyv \<Rightarrow> (string \<times> pyv) list \<Rightarrow> 'w \<Rightarrow> pyv option \<times> 'w"
  ex_http :: "(string \<times> pyv) list \<Rightarrow> context_values \<Rightarrow> 'w \<Rightarrow> (bool \<times> pyv \<times> pyv) result \<times> 'w"
  ex_crypto :: "pyv \<Rightarrow> (string \<times> pyv) list \<Rightarrow> (string \<times> pyv) list"
  ex_json :: "string \<Rightarrow> pyv option"
  ex_new_transaction :: "'w \<Rightarrow> 'w"
  ex_subflows :: "(string \<times> scenario) list"

type_synonym cleanup = "string \<times> (string \<times> pyv) list \<times> string"

record 'w walk_state =
  wk_context :: context_values
  wk_status :: status
  wk_steps :: "outcome list"
  wk_visits :: nat
  wk_cleanups :: "cleanup list"
  wk_world :: 'w

definition NODE_BUDGET :: nat where
  "NODE_BUDGET = 10000"

definition DEFAULT_MAX_ITERATIONS :: int where
  "DEFAULT_MAX_ITERATIONS = 1000"

definition MAX_CALL_DEPTH :: nat where
  "MAX_CALL_DEPTH = 8"

text \<open>\<open>d[k] = v\<close> and \<open>d.pop(k, None)\<close>.\<close>

fun dict_set :: "string \<Rightarrow> 'a \<Rightarrow> (string \<times> 'a) list \<Rightarrow> (string \<times> 'a) list" where
  "dict_set k v [] = [(k, v)]"
| "dict_set k v ((k', v') # d) = (if k = k' then (k, v) # d else (k', v') # dict_set k v d)"

definition dict_pop :: "string \<Rightarrow> (string \<times> 'a) list \<Rightarrow> (string \<times> 'a) list" where
  "dict_pop k d = filter (\<lambda>kv. fst kv \<noteq> k) d"

lemma get_dict_set [simp]: "get (dict_set k v d) k' x = (if k' = k then v else get d k' x)"
  by (induction k v d rule: dict_set.induct) auto

text \<open>What a node leaves in the context under its id.\<close>

definition expose :: "step \<Rightarrow> pyv \<Rightarrow> pyv \<Rightarrow> 'w walk_state \<Rightarrow> 'w walk_state" where
  "expose s req resp wk =
     wk\<lparr>wk_context := dict_set (sp_id s) (PDict [(''request'', req), (''response'', resp)]) (wk_context wk)\<rparr>"

definition in_world :: "'w \<Rightarrow> 'w walk_state \<Rightarrow> 'w walk_state" where
  "in_world w wk = wk\<lparr>wk_world := w\<rparr>"

section \<open>An action step\<close>

text \<open>\<open>target.rsplit("@", 1)[0]\<close> of a step with an environment of its own.\<close>

definition before_last_at :: "string \<Rightarrow> string" where
  "before_last_at s =
     (if CHR ''@'' \<in> set s then rev (tl (dropWhile (\<lambda>c. c \<noteq> CHR ''@'') (rev s))) else s)"

definition display_target :: "step \<Rightarrow> string" where
  "display_target s =
     (if truthy (get (sp_config s) ''_environment_override'' PNone) then before_last_at (sp_target s) else sp_target s)"

definition step_outcome :: "step \<Rightarrow> status \<Rightarrow> pyv \<Rightarrow> outcome" where
  "step_outcome s st r = \<lparr>oc_step = sp_id s, oc_target = display_target s, oc_status = st, oc_response = r\<rparr>"

text \<open>The undo a successful step declares.\<close>

definition cleanup_of :: "step \<Rightarrow> pyv \<Rightarrow> cleanup list" where
  "cleanup_of s payload =
     (case payload of
        PDict d \<Rightarrow>
          (case get d ''cleanup'' PNone of
             PDict undo \<Rightarrow>
               if truthy (get undo ''sql'' PNone)
               then [(sp_target s, dict_set ''_cleanup'' (PBool True) (dict_set ''cleanup'' PNone undo), sp_id s)]
               else []
           | _ \<Rightarrow> [])
      | _ \<Rightarrow> [])"

definition run_step :: "'w exec \<Rightarrow> step \<Rightarrow> 'w walk_state \<Rightarrow> outcome result \<times> 'w walk_state" where
  "run_step ex s wk =
     (case resolve_value (ex_env ex) (wk_context wk) (sp_payload s) (wk_world wk) of
        (Inl KeyError, w) \<Rightarrow> (Inr (step_outcome s Errored PNone), in_world w wk)
      | (Inl e, w) \<Rightarrow> (Inl e, in_world w wk)
      | (Inr payload, w) \<Rightarrow>
          (case ex_adapter ex (sp_target s) (sp_action s) payload (sp_assertions s) w of
             (None, w) \<Rightarrow> (Inr (step_outcome s Errored PNone), in_world w wk)
           | (Some r, w) \<Rightarrow>
               (Inr (step_outcome s (if ar_success r \<and> list_all id (ar_assertions r) then Passed else Failed) (ar_response r)),
                expose s (ar_request r) (ar_response r)
                  ((in_world w wk)\<lparr>wk_cleanups := wk_cleanups wk @ (if ar_success r then cleanup_of s payload else [])\<rparr>))))"

section \<open>Code, requests, data and cryptography\<close>

definition node_outcome :: "step \<Rightarrow> status \<Rightarrow> pyv \<Rightarrow> outcome" where
  "node_outcome s st r = \<lparr>oc_step = sp_id s, oc_target = sp_kind s, oc_status = st, oc_response = r\<rparr>"

text \<open>The rows of \<open>rows or []\<close>, and \<open>out[name] = value\<close> for each; a name is a text.\<close>

definition rows_of :: "pyv \<Rightarrow> pyv list result" where
  "rows_of v =
     (if \<not> truthy v then Inr []
      else case v of
             PList vs \<Rightarrow> Inr vs
           | PDict d \<Rightarrow> Inr (map (\<lambda>kv. PStr (fst kv)) d)
           | PStr s \<Rightarrow> Inr (map (\<lambda>c. PStr [c]) s)
           | _ \<Rightarrow> Inl TypeError)"

fun merge_rows ::
    "'w run_env \<Rightarrow> context_values \<Rightarrow> pyv list \<Rightarrow> (string \<times> pyv) list \<Rightarrow> 'w \<Rightarrow> (string \<times> pyv) list result \<times> 'w" where
  "merge_rows ev ctx [] out w = (Inr out, w)"
| "merge_rows ev ctx (r # rs) out w =
     (if \<not> truthy r then merge_rows ev ctx rs out w
      else case r of
        PDict d \<Rightarrow>
          (let n = get d ''name'' PNone in
           if \<not> truthy n then merge_rows ev ctx rs out w
           else case resolve_value ev ctx (get d ''value'' (PStr [])) w of
                  (Inl KeyError, w) \<Rightarrow>
                    (case n of PStr k \<Rightarrow> merge_rows ev ctx rs (dict_set k PNone out) w | _ \<Rightarrow> (Inl TypeError, w))
                | (Inl e, w) \<Rightarrow> (Inl e, w)
                | (Inr v, w) \<Rightarrow>
                    (case n of PStr k \<Rightarrow> merge_rows ev ctx rs (dict_set k v out) w | _ \<Rightarrow> (Inl TypeError, w)))
      | _ \<Rightarrow> (Inl AttributeError, w))"

definition resolve_inputs :: "'w run_env \<Rightarrow> pyv \<Rightarrow> context_values \<Rightarrow> 'w \<Rightarrow> (string \<times> pyv) list result \<times> 'w" where
  "resolve_inputs ev rows ctx w =
     (case rows_of rows of Inl e \<Rightarrow> (Inl e, w) | Inr rs \<Rightarrow> merge_rows ev ctx rs [] w)"

definition run_code_node :: "'w exec \<Rightarrow> step \<Rightarrow> 'w walk_state \<Rightarrow> outcome result \<times> 'w walk_state" where
  "run_code_node ex s wk =
     (let cfg = sp_config s; ctx = wk_context wk in
      case resolve_inputs (ex_env ex) (get cfg ''inputs'' PNone) ctx (wk_world wk) of
        (Inl e, w) \<Rightarrow> (Inl e, in_world w wk)
      | (Inr inputs, w) \<Rightarrow>
          (case ex_code ex (get cfg ''language'' (PStr ''python'')) (get cfg ''code'' (PStr [])) ctx
                  (get cfg ''timeout_ms'' PNone) inputs w of
             (None, w) \<Rightarrow> (Inr (node_outcome s Errored PNone), in_world w wk)
           | (Some out, w) \<Rightarrow> (Inr (node_outcome s Passed out), expose s (PDict []) out (in_world w wk))))"

definition run_http_node :: "'w exec \<Rightarrow> step \<Rightarrow> 'w walk_state \<Rightarrow> outcome result \<times> 'w walk_state" where
  "run_http_node ex s wk =
     (case ex_http ex (sp_config s) (wk_context wk) (wk_world wk) of
        (Inl e, w) \<Rightarrow> (Inl e, in_world w wk)
      | (Inr (ok, req, resp), w) \<Rightarrow>
          (Inr (node_outcome s (if ok then Passed else Failed) resp), expose s req resp (in_world w wk)))"

definition init_data :: "'w exec \<Rightarrow> pyv \<Rightarrow> pyv result" where
  "init_data ex raw =
     (case raw of
        PStr t \<Rightarrow> if strip (u t) = [] then Inr (PDict []) else of_option ValueError (ex_json ex t)
      | PDict d \<Rightarrow> Inr raw
      | PList vs \<Rightarrow> Inr raw
      | _ \<Rightarrow> Inr (PDict []))"

text \<open>Both what is unresolved and what is no JSON is an outcome.\<close>

definition run_init_node :: "'w exec \<Rightarrow> step \<Rightarrow> 'w walk_state \<Rightarrow> outcome result \<times> 'w walk_state" where
  "run_init_node ex s wk =
     (case init_data ex (get (sp_config s) ''data'' PNone) of
        Inl e \<Rightarrow> (Inr (node_outcome s Errored PNone), wk)
      | Inr obj \<Rightarrow>
          (case resolve_value (ex_env ex) (wk_context wk) obj (wk_world wk) of
             (Inl e, w) \<Rightarrow>
               (if e = KeyError \<or> is_value_error e then Inr (node_outcome s Errored PNone) else Inl e, in_world w wk)
           | (Inr v, w) \<Rightarrow> (Inr (node_outcome s Passed v), expose s (PDict []) v (in_world w wk))))"

text \<open>The parameters of a cryptographic operation, the texts among them resolved.\<close>

fun crypto_params ::
    "'w run_env \<Rightarrow> context_values \<Rightarrow> (string \<times> pyv) list \<Rightarrow> 'w \<Rightarrow> (string \<times> pyv) list result \<times> 'w" where
  "crypto_params ev ctx [] w = (Inr [], w)"
| "crypto_params ev ctx ((k, v) # kvs) w =
     (if k = ''operation'' then crypto_params ev ctx kvs w
      else case (case v of
                   PStr t \<Rightarrow>
                     (case resolve_text ev ctx t w of
                        (Inl KeyError, w) \<Rightarrow> (Inr v, w)
                      | (Inl e, w) \<Rightarrow> (Inl e, w)
                      | (Inr x, w) \<Rightarrow> (Inr (PStr (pystr (ev_text ev) x)), w))
                 | _ \<Rightarrow> (Inr v, w)) of
             (Inl e, w) \<Rightarrow> (Inl e, w)
           | (Inr x, w) \<Rightarrow> (case crypto_params ev ctx kvs w of (r, w) \<Rightarrow> (rbind r (\<lambda>ps. Inr ((k, x) # ps)), w)))"

definition run_crypto_node :: "'w exec \<Rightarrow> step \<Rightarrow> 'w walk_state \<Rightarrow> outcome result \<times> 'w walk_state" where
  "run_crypto_node ex s wk =
     (case crypto_params (ex_env ex) (wk_context wk) (sp_config s) (wk_world wk) of
        (Inl e, w) \<Rightarrow> (Inl e, in_world w wk)
      | (Inr params, w) \<Rightarrow>
          (let op = get (sp_config s) ''operation'' (PStr []); res = ex_crypto ex op params in
           if ''error'' \<in> fst ` set res then (Inr (node_outcome s Errored PNone), in_world w wk)
           else (Inr (node_outcome s Passed (PDict res)),
                 expose s (PDict [(''operation'', op)]) (PDict res) (in_world w wk))))"

section \<open>A relay\<close>

definition dict_of :: "pyv \<Rightarrow> (string \<times> pyv) list result" where
  "dict_of v = (if \<not> truthy v then Inr [] else case v of PDict d \<Rightarrow> Inr d | _ \<Rightarrow> Inl TypeError)"

definition relay_payload :: "pyv \<Rightarrow> pyv result" where
  "relay_payload request =
     (case request of
        PDict d \<Rightarrow>
          (let ks = map fst d in
           if ''de'' \<in> set ks \<or> ''mti'' \<in> set ks
           then rbind (dict_of (get d ''de'' PNone)) (\<lambda>vs. Inr (PDict [(''mti'', get d ''mti'' PNone), (''values'', PDict vs)]))
           else if ''command'' \<in> set ks \<or> ''header'' \<in> set ks
           then Inr (PDict [(''command'', get d ''command'' PNone), (''data'', get d ''data'' (PStr []))])
           else Inr request)
      | _ \<Rightarrow> Inr (PDict []))"

definition relay_target :: "step \<Rightarrow> string" where
  "relay_target s =
     (if sp_target s \<noteq> [] then sp_target s
      else case get (sp_config s) ''connection'' PNone of PStr t \<Rightarrow> t | _ \<Rightarrow> [])"

text \<open>The request of the flow goes upstream as it came: it is not searched for references.\<close>

definition run_relay_node :: "'w exec \<Rightarrow> step \<Rightarrow> 'w walk_state \<Rightarrow> outcome result \<times> 'w walk_state" where
  "run_relay_node ex s wk =
     (case relay_payload (get (wk_context wk) ''request'' PNone) of
        Inl e \<Rightarrow> (Inl e, wk)
      | Inr payload \<Rightarrow>
          (let t = relay_target s; oc = (\<lambda>t st r. \<lparr>oc_step = sp_id s, oc_target = t, oc_status = st, oc_response = r\<rparr>) in
           if t = [] then (Inr (oc ''relay'' Errored PNone), wk)
           else case ex_adapter ex t ''relay'' payload [] (wk_world wk) of
                  (None, w) \<Rightarrow> (Inr (oc t Errored PNone), in_world w wk)
                | (Some r, w) \<Rightarrow>
                    (Inr (oc t (if ar_success r then Passed else Failed) (ar_response r)),
                     expose s (ar_request r) (ar_response r) (in_world w wk))))"

section \<open>Control nodes\<close>

definition failing :: "outcome \<Rightarrow> bool" where
  "failing oc \<longleftrightarrow> oc_status oc = Failed \<or> oc_status oc = Errored"

text \<open>\<open>result.steps.append(outcome)\<close> with the verdict it brings.\<close>

definition record_outcome :: "outcome \<Rightarrow> 'w walk_state \<Rightarrow> 'w walk_state" where
  "record_outcome oc wk =
     wk\<lparr>wk_steps := wk_steps wk @ [oc], wk_status := (if failing oc then Failed else wk_status wk)\<rparr>"

definition record_control :: "step \<Rightarrow> pyv \<Rightarrow> 'w walk_state \<Rightarrow> 'w walk_state" where
  "record_control s r wk = wk\<lparr>wk_steps := wk_steps wk @ [node_outcome s Passed r]\<rparr>"

definition branch :: "string \<Rightarrow> pyv" where
  "branch b = PDict [(''branch'', PStr b)]"

text \<open>\<open>(cfg.get(k) or {}).items()\<close>.\<close>

definition items_of :: "(string \<times> pyv) list \<Rightarrow> string \<Rightarrow> (string \<times> pyv) list result" where
  "items_of cfg k =
     (let v = get cfg k PNone in
      if \<not> truthy v then Inr [] else case v of PDict d \<Rightarrow> Inr d | _ \<Rightarrow> Inl AttributeError)"

definition number_value :: "rat \<Rightarrow> pyv" where
  "number_value q = (if of_int \<lfloor>q\<rfloor> = q then PInt \<lfloor>q\<rfloor> else PFloat q)"

definition float_or_zero :: "pyv \<Rightarrow> rat" where
  "float_or_zero v = (case float_of v of Inl e \<Rightarrow> 0 | Inr q \<Rightarrow> q)"

datatype directive = Set string pyv | Incr string pyv | Append string pyv

text \<open>
  A directive on the shared state; its value is resolved against the context with the state so far. A
  number that is no number counts as 0, and what is no list is not appended to.
\<close>

definition valued ::
    "'w run_env \<Rightarrow> context_values \<Rightarrow> pyv \<Rightarrow> (string \<times> pyv) list \<Rightarrow> (pyv \<Rightarrow> (string \<times> pyv) list) \<Rightarrow> 'w
      \<Rightarrow> (string \<times> pyv) list result \<times> 'w" where
  "valued ev ctx v state upd w =
     (case resolve_or_none ev (dict_set ''state'' (PDict state) ctx) v w of
        (Inl e, w) \<Rightarrow> (Inl e, w)
      | (Inr x, w) \<Rightarrow> (Inr (upd x), w))"

fun apply_directive ::
    "'w run_env \<Rightarrow> context_values \<Rightarrow> directive \<Rightarrow> (string \<times> pyv) list \<Rightarrow> 'w \<Rightarrow> (string \<times> pyv) list result \<times> 'w" where
  "apply_directive ev ctx (Set k v) state w = valued ev ctx v state (\<lambda>x. dict_set k x state) w"
| "apply_directive ev ctx (Incr k v) state w =
     (let old = get state k (PInt 0); base = (if truthy old then float_or_zero old else 0) in
      valued ev ctx v state (\<lambda>x. dict_set k (number_value (base + float_or_zero x)) state) w)"
| "apply_directive ev ctx (Append k v) state w =
     (let state = (if k \<in> fst ` set state then state else dict_set k (PList []) state) in
      case get state k PNone of
        PList vs \<Rightarrow> valued ev ctx v state (\<lambda>x. dict_set k (PList (vs @ [x])) state) w
      | _ \<Rightarrow> (Inr state, w))"

fun apply_directives ::
    "'w run_env \<Rightarrow> context_values \<Rightarrow> directive list \<Rightarrow> (string \<times> pyv) list \<Rightarrow> 'w \<Rightarrow> (string \<times> pyv) list result \<times> 'w" where
  "apply_directives ev ctx [] state w = (Inr state, w)"
| "apply_directives ev ctx (d # ds) state w =
     (case apply_directive ev ctx d state w of
        (Inl e, w) \<Rightarrow> (Inl e, w)
      | (Inr state, w) \<Rightarrow> apply_directives ev ctx ds state w)"

definition directives_of :: "(string \<times> pyv) list \<Rightarrow> directive list result" where
  "directives_of cfg =
     rbind (items_of cfg ''set'') (\<lambda>a.
     rbind (items_of cfg ''incr'') (\<lambda>b.
     rbind (items_of cfg ''append'') (\<lambda>c.
     Inr (map (\<lambda>(k, v). Set k v) a @ map (\<lambda>(k, v). Incr k v) b @ map (\<lambda>(k, v). Append k v) c))))"

definition apply_state :: "'w run_env \<Rightarrow> (string \<times> pyv) list \<Rightarrow> context_values \<Rightarrow> 'w \<Rightarrow> context_values result \<times> 'w" where
  "apply_state ev cfg ctx w =
     (case get ctx ''state'' (PDict []) of
        PDict state \<Rightarrow>
          (case directives_of cfg of
             Inl e \<Rightarrow> (Inl e, w)
           | Inr ds \<Rightarrow>
               (case apply_directives ev ctx ds state w of
                  (Inl e, w) \<Rightarrow> (Inl e, w)
                | (Inr state', w) \<Rightarrow> (Inr (dict_set ''state'' (PDict state') ctx), w)))
      | _ \<Rightarrow> (Inr ctx, w))"
end
