(* ===== verification/Graph_Walk.thy ===== *)
theory Graph_Walk
  imports Nodes
begin

text \<open>
  The walk of a scenario (\<open>worker/engine/runner.py\<close>): from node to node along the wires, through loops,
  under a budget of visits; the linear path of a scenario without wires; calls of other scenarios up to a
  depth; the cleanups at the end; and the flow of a participant (\<open>worker/engine/flow_runner.py\<close>).
  \<open>asyncio.sleep\<close> only takes time. A list that a loop runs over is read when the loop starts.
\<close>

section \<open>One node\<close>

text \<open>A nested run: variables and tables in, verdict and outcomes out.\<close>

type_synonym 'w caller = "scenario \<Rightarrow> pyv \<Rightarrow> pyv \<Rightarrow> 'w \<Rightarrow> (status \<times> outcome list) result \<times> 'w"

text \<open>\<open>{o.step_id: o.response for o in steps}\<close>.\<close>

definition responses :: "outcome list \<Rightarrow> (string \<times> pyv) list" where
  "responses ocs = fold (\<lambda>oc d. dict_set (oc_step oc) (oc_response oc) d) ocs []"

definition sub_scenario :: "'w exec \<Rightarrow> pyv \<Rightarrow> scenario option result" where
  "sub_scenario ex sub_id =
     (case sub_id of
        PStr t \<Rightarrow> Inr (map_of (ex_subflows ex) t)
      | PList vs \<Rightarrow> Inl TypeError
      | PDict d \<Rightarrow> Inl TypeError
      | _ \<Rightarrow> Inr None)"

definition run_call_node :: "'w caller option \<Rightarrow> 'w exec \<Rightarrow> step \<Rightarrow> 'w walk_state \<Rightarrow> outcome result \<times> 'w walk_state" where
  "run_call_node caller ex s wk =
     (let cfg = sp_config s; ctx = wk_context wk; sub_id = get cfg ''scenario_id'' (PStr []) in
      case sub_scenario ex sub_id of
        Inl e \<Rightarrow> (Inl e, wk)
      | Inr sub \<Rightarrow>
          (case (caller, sub) of
             (Some run, Some sc) \<Rightarrow>
               (case rbind (dict_of (get ctx ''vars'' PNone)) (\<lambda>vs. rbind (rows_of (get cfg ''variables'' PNone)) (\<lambda>rs. Inr (vs, rs))) of
                  Inl e \<Rightarrow> (Inl e, wk)
                | Inr (vs, rs) \<Rightarrow>
                    (case merge_rows (ex_env ex) ctx rs vs (wk_world wk) of
                       (Inl e, w) \<Rightarrow> (Inl e, in_world w wk)
                     | (Inr vs, w) \<Rightarrow>
                         (case run sc (PDict vs) (get ctx ''tables'' PNone) w of
                            (Inl e, w) \<Rightarrow> (Inl e, in_world w wk)
                          | (Inr (st, ocs), w) \<Rightarrow>
                              (let resp = PDict (responses ocs) in
                               (Inr (node_outcome s (if st = Passed then Passed else Failed) resp),
                                expose s (PDict [(''scenario_id'', sub_id)]) resp (in_world w wk))))))
           | _ \<Rightarrow> (Inr (node_outcome s Errored PNone), wk)))"

definition execute_node :: "'w caller option \<Rightarrow> 'w exec \<Rightarrow> step \<Rightarrow> 'w walk_state \<Rightarrow> (outcome result \<times> 'w walk_state) option" where
  "execute_node caller ex s wk =
     (let k = sp_kind s in
      if k = ''action'' then Some (run_step ex s wk)
      else if k = ''code'' then Some (run_code_node ex s wk)
      else if k = ''http'' then Some (run_http_node ex s wk)
      else if k = ''init'' then Some (run_init_node ex s wk)
      else if k = ''crypto'' then Some (run_crypto_node ex s wk)
      else if k = ''call'' then Some (run_call_node caller ex s wk)
      else None)"

section \<open>Turns of a loop\<close>

definition max_iterations :: "(string \<times> pyv) list \<Rightarrow> int" where
  "max_iterations cfg =
     (let v = get cfg ''max_iterations'' (PInt DEFAULT_MAX_ITERATIONS) in
      case int_of (if truthy v then v else PInt DEFAULT_MAX_ITERATIONS) of
        Inr n \<Rightarrow> n
      | Inl _ \<Rightarrow> DEFAULT_MAX_ITERATIONS)"

definition int_or_zero :: "pyv \<Rightarrow> int" where
  "int_or_zero v = (case int_of (if truthy v then v else PInt 0) of Inr n \<Rightarrow> n | Inl _ \<Rightarrow> 0)"

definition counted :: "int \<Rightarrow> (nat \<times> pyv) list" where
  "counted n = map (\<lambda>i. (i, PInt (int i))) [0..<nat n]"

text \<open>The turns that \<open>_loop_iterations\<close> can yield, and the condition that a \<open>while\<close> checks before each.\<close>

definition turns_of ::
    "'w run_env \<Rightarrow> context_values \<Rightarrow> (string \<times> pyv) list \<Rightarrow> 'w \<Rightarrow> ((nat \<times> pyv) list \<times> pyv option) result \<times> 'w" where
  "turns_of ev ctx cfg w =
     (let mode = get cfg ''mode'' (PStr ''times''); m = max_iterations cfg in
      if mode = PStr ''times'' then (Inr (counted (min (int_or_zero (get cfg ''count'' (PInt 0))) m), None), w)
      else if mode = PStr ''forEach'' then
        (case resolve_or_none ev ctx (get cfg ''list'' (PStr [])) w of
           (Inl e, w) \<Rightarrow> (Inl e, w)
         | (Inr (PList vs), w) \<Rightarrow> (Inr (take (nat m) (enumerate 0 vs), None), w)
         | (Inr _, w) \<Rightarrow> (Inr ([], None), w))
      else if mode = PStr ''while'' then
        (let c = get cfg ''condition'' PNone in (Inr (counted m, Some (if truthy c then c else PDict [])), w))
      else (Inr ([], None), w))"

definition turn_taken :: "'w run_env \<Rightarrow> pyv option \<Rightarrow> 'w walk_state \<Rightarrow> bool result \<times> 'w walk_state" where
  "turn_taken ev cond wk =
     (case cond of
        None \<Rightarrow> (Inr True, wk)
      | Some (PDict d) \<Rightarrow> (case eval_condition ev (wk_context wk) d (wk_world wk) of (r, w) \<Rightarrow> (r, in_world w wk))
      | Some _ \<Rightarrow> (Inl AttributeError, wk))"

section \<open>The walk\<close>

text \<open>How a walk ends: it runs out of wires, a \<open>_StopScenario\<close> stops it, or an exception leaves it. \<open>No_Fuel\<close>
  is the recursion's own end, which the budget of visits rules out (\<open>walk_has_fuel\<close>).\<close>

datatype signal = Went | Stopped | Raised py_error | No_Fuel

datatype move = Port string | Halt signal

record 'w run =
  ru_caller :: "'w caller option"
  ru_exec :: "'w exec"
  ru_steps :: "step list"
  ru_edges :: "edge list"
  ru_stop :: bool

text \<open>Of two nodes with one id, and of two wires from one port, the last counts.\<close>

definition node_at :: "'w run \<Rightarrow> string \<Rightarrow> step option" where
  "node_at ru i = map_of (rev (map (\<lambda>s. (sp_id s, s)) (ru_steps ru))) i"

definition next_of :: "'w run \<Rightarrow> string \<Rightarrow> string \<Rightarrow> string option" where
  "next_of ru i port = map_of (rev (map (\<lambda>e. ((ed_source e, ed_port e), ed_target e)) (ru_edges ru))) (i, port)"

definition graph_entry :: "'w run \<Rightarrow> string option" where
  "graph_entry ru =
     (case filter (\<lambda>s. sp_id s \<notin> ed_target ` set (ru_edges ru)) (ru_steps ru) of
        s # ss \<Rightarrow> Some (sp_id s)
      | [] \<Rightarrow> (case ru_steps ru of s # ss \<Rightarrow> Some (sp_id s) | [] \<Rightarrow> None))"

definition settle :: "bool \<Rightarrow> outcome result \<times> 'w walk_state \<Rightarrow> move \<times> 'w walk_state" where
  "settle stop r =
     (case r of
        (Inl e, wk) \<Rightarrow> (Halt (Raised e), wk)
      | (Inr oc, wk) \<Rightarrow> (if failing oc \<and> stop then Halt Stopped else Port ''out'', record_outcome oc wk))"

definition REPLY_KEY :: string where
  "REPLY_KEY = ''__reply__''"

definition passes_on :: "string result \<times> 'w \<Rightarrow> step \<Rightarrow> 'w walk_state \<Rightarrow> move \<times> 'w walk_state" where
  "passes_on r s wk =
     (case r of
        (Inl e, w) \<Rightarrow> (Halt (Raised e), in_world w wk)
      | (Inr port, w) \<Rightarrow> (Port port, record_control s (branch port) (in_world w wk)))"

definition true_or_false :: "bool \<Rightarrow> string" where
  "true_or_false b = (if b then ''true'' else ''false'')"

text \<open>A visit of any node but a loop.\<close>

definition visit :: "'w run \<Rightarrow> step \<Rightarrow> 'w walk_state \<Rightarrow> move \<times> 'w walk_state" where
  "visit ru s wk =
     (let k = sp_kind s; ex = ru_exec ru; ev = ex_env ex; ctx = wk_context wk; w = wk_world wk in
      case execute_node (ru_caller ru) ex s wk of
        Some r \<Rightarrow> settle (ru_stop ru) r
      | None \<Rightarrow>
          (if k = ''wait'' \<or> k = ''merge'' then (Port ''out'', record_control s PNone wk)
           else if k = ''if'' then
             passes_on (case eval_condition ev ctx (sp_config s) w of (r, w) \<Rightarrow> (rbind r (\<lambda>b. Inr (true_or_false b)), w)) s wk
           else if k = ''switch'' then passes_on (switch_port ev ctx (sp_config s) w) s wk
           else if k = ''state'' then
             (case apply_state ev (sp_config s) ctx w of
                (Inl e, w) \<Rightarrow> (Halt (Raised e), in_world w wk)
              | (Inr ctx, w) \<Rightarrow> (Port ''out'', record_control s PNone ((in_world w wk)\<lparr>wk_context := ctx\<rparr>)))
           else if k = ''relay'' \<or> k = ''proxy'' then settle (ru_stop ru) (run_relay_node ex s wk)
           else if k = ''reply'' then
             (case resolve_value ev ctx (sp_payload s) w of
                (Inl KeyError, w) \<Rightarrow>
                  (Port ''out'', record_control s PNone ((in_world w wk)\<lparr>wk_context := dict_set REPLY_KEY (sp_payload s) ctx\<rparr>))
              | (Inl e, w) \<Rightarrow> (Halt (Raised e), in_world w wk)
              | (Inr v, w) \<Rightarrow> (Port ''out'', record_control s PNone ((in_world w wk)\<lparr>wk_context := dict_set REPLY_KEY v ctx\<rparr>)))
           else (Port ''out'', wk)))"

definition enter_turn :: "nat \<Rightarrow> pyv \<Rightarrow> 'w walk_state \<Rightarrow> 'w walk_state" where
  "enter_turn i item wk =
     wk\<lparr>wk_context := dict_set ''loop'' (PDict [(''index'', PInt (int i)), (''item'', item)]) (wk_context wk)\<rparr>"

definition leave_turn :: "pyv \<Rightarrow> 'w walk_state \<Rightarrow> 'w walk_state" where
  "leave_turn previous wk =
     wk\<lparr>wk_context := (if previous = PNone then dict_pop ''loop'' (wk_context wk)
                       else dict_set ''loop'' previous (wk_context wk))\<rparr>"

definition tick :: "'w walk_state \<Rightarrow> 'w walk_state" where
  "tick wk = wk\<lparr>wk_visits := wk_visits wk + 1\<rparr>"

function walk :: "'w run \<Rightarrow> nat \<Rightarrow> string option \<Rightarrow> 'w walk_state \<Rightarrow> signal \<times> 'w walk_state"
  and repeat :: "'w run \<Rightarrow> nat \<Rightarrow> string option \<Rightarrow> pyv option \<Rightarrow> (nat \<times> pyv) list \<Rightarrow> 'w walk_state \<Rightarrow> signal \<times> 'w walk_state" where
  "walk ru f None wk = (Went, wk)"
| "walk ru 0 (Some i) wk = (No_Fuel, wk)"
| "walk ru (Suc f) (Some i) wk =
     (let wk = tick wk in
      if NODE_BUDGET < wk_visits wk then (Stopped, wk)
      else case node_at ru i of
             None \<Rightarrow> (Went, wk)
           | Some s \<Rightarrow>
               if sp_kind s = ''loop''
               then (case turns_of (ex_env (ru_exec ru)) (wk_context wk) (sp_config s) (wk_world wk) of
                       (Inl e, w) \<Rightarrow> (Raised e, in_world w wk)
                     | (Inr (ts, cond), w) \<Rightarrow>
                         (case repeat ru f (next_of ru i ''loop'') cond ts (in_world w wk) of
                            (Went, wk) \<Rightarrow> walk ru f (next_of ru i ''done'') (record_control s PNone wk)
                          | r \<Rightarrow> r))
               else (case visit ru s wk of
                       (Halt sg, wk) \<Rightarrow> (sg, wk)
                     | (Port p, wk) \<Rightarrow> walk ru f (next_of ru i p) wk))"
| "repeat ru f body cond [] wk = (Went, wk)"
| "repeat ru f body cond ((i, item) # ts) wk =
     (case turn_taken (ex_env (ru_exec ru)) cond wk of
        (Inl e, wk) \<Rightarrow> (Raised e, wk)
      | (Inr False, wk) \<Rightarrow> (Went, wk)
      | (Inr True, wk) \<Rightarrow>
          (case walk ru f body (enter_turn i item wk) of
             (Went, wk') \<Rightarrow> repeat ru f body cond ts (leave_turn (get (wk_context wk) ''loop'' PNone) wk')
           | r \<Rightarrow> r))"
  by pat_completeness auto
termination
  by (relation "measures [\<lambda>x. (case x of Inl (ru, f, n, wk) \<Rightarrow> f | Inr (ru, f, b, c, ts, wk) \<Rightarrow> f),
                          \<lambda>x. (case x of Inl _ \<Rightarrow> 0 | Inr _ \<Rightarrow> 1),
                          \<lambda>x. (case x of Inl _ \<Rightarrow> 0 | Inr (ru, f, b, c, ts, wk) \<Rightarrow> length ts)]") auto

declare walk.simps(3) [simp del]

text \<open>The fuel of a walk: one more than the budget.\<close>

definition run_graph :: "'w run \<Rightarrow> 'w walk_state \<Rightarrow> signal \<times> 'w walk_state" where
  "run_graph ru wk = walk ru (NODE_BUDGET + 1) (graph_entry ru) wk"

text \<open>The linear path: what only makes sense in a graph is recorded and nothing more.\<close>

fun run_list :: "'w run \<Rightarrow> step list \<Rightarrow> 'w walk_state \<Rightarrow> signal \<times> 'w walk_state" where
  "run_list ru [] wk = (Went, wk)"
| "run_list ru (s # ss) wk =
     (case execute_node (ru_caller ru) (ru_exec ru) s wk of
        None \<Rightarrow> run_list ru ss (record_control s PNone wk)
      | Some r \<Rightarrow>
          (case settle (ru_stop ru) r of
             (Halt sg, wk) \<Rightarrow> (sg, wk)
           | (Port p, wk) \<Rightarrow> run_list ru ss wk))"

section \<open>A scenario\<close>

definition or_empty :: "pyv \<Rightarrow> pyv" where
  "or_empty v = (if truthy v then v else PDict [])"

definition start :: "context_values \<Rightarrow> 'w \<Rightarrow> 'w walk_state" where
  "start ctx w = \<lparr>wk_context = ctx, wk_status = Passed, wk_steps = [], wk_visits = 0, wk_cleanups = [], wk_world = w\<rparr>"

definition run_scenario :: "'w caller option \<Rightarrow> 'w exec \<Rightarrow> scenario \<Rightarrow> pyv \<Rightarrow> pyv \<Rightarrow> 'w \<Rightarrow> signal \<times> 'w walk_state" where
  "run_scenario caller ex sc vars tables w =
     (let ru = \<lparr>ru_caller = caller, ru_exec = ex, ru_steps = sn_steps sc, ru_edges = sn_edges sc,
                ru_stop = sn_stop_on_failure sc\<rparr>;
          wk = start [(''vars'', or_empty vars), (''tables'', or_empty tables)] w in
      if sn_edges sc \<noteq> [] then run_graph ru wk else run_list ru (sn_steps sc) wk)"

text \<open>A call runs a scenario one level deeper; below the last level there is none. What a nested run
  registers to be cleaned up goes with it.\<close>

fun caller_at :: "nat \<Rightarrow> 'w exec \<Rightarrow> 'w caller option" where
  "caller_at 0 ex = None"
| "caller_at (Suc n) ex =
     Some (\<lambda>sc vars tables w.
       case run_scenario (caller_at n ex) ex sc vars tables w of
         (Raised e, wk) \<Rightarrow> (Inl e, wk_world wk)
       | (_, wk) \<Rightarrow> (Inr (wk_status wk, wk_steps wk), wk_world wk))"

text \<open>\<open>_run_cleanups\<close>, the last registered first.\<close>

definition cleanup_outcome :: "cleanup \<Rightarrow> adapter_result option \<Rightarrow> outcome" where
  "cleanup_outcome c r =
     (case c of (t, payload, origin) \<Rightarrow>
        \<lparr>oc_step = origin @ ''.cleanup'', oc_target = t,
         oc_status = (case r of None \<Rightarrow> Errored | Some r \<Rightarrow> if ar_success r then Passed else Failed),
         oc_response = (case r of None \<Rightarrow> PNone | Some r \<Rightarrow> ar_response r)\<rparr>)"

fun undo_all :: "'w exec \<Rightarrow> cleanup list \<Rightarrow> 'w \<Rightarrow> outcome list \<times> 'w" where
  "undo_all ex [] w = ([], w)"
| "undo_all ex ((t, payload, origin) # cs) w =
     (case ex_adapter ex t ''execute'' (PDict payload) [] w of
        (r, w) \<Rightarrow> (case undo_all ex cs w of (ocs, w) \<Rightarrow> (cleanup_outcome (t, payload, origin) r # ocs, w)))"

definition cleanup_note :: "cleanup \<times> outcome \<Rightarrow> string list" where
  "cleanup_note co =
     (case co of ((t, payload, origin), oc) \<Rightarrow>
        if oc_status oc \<noteq> Passed then [''cleanup_failed:'' @ origin] else [])"

record scenario_result =
  sr_status :: status
  sr_steps :: "outcome list"
  sr_notes :: "string list"

definition runner_run :: "'w exec \<Rightarrow> scenario \<Rightarrow> pyv \<Rightarrow> pyv \<Rightarrow> 'w \<Rightarrow> scenario_result result \<times> 'w" where
  "runner_run ex sc vars tables w =
     (case run_scenario (caller_at MAX_CALL_DEPTH ex) ex sc vars tables (ex_new_transaction ex w) of
        (sg, wk) \<Rightarrow>
          (let pending = rev (wk_cleanups wk) in
           case undo_all ex pending (wk_world wk) of
             (ocs, w) \<Rightarrow>
               (case sg of
                  Raised e \<Rightarrow> Inl e
                | _ \<Rightarrow> Inr \<lparr>sr_status = wk_status wk, sr_steps = wk_steps wk @ ocs,
                            sr_notes = concat (map cleanup_note (zip pending ocs))\<rparr>, w)))"

section \<open>A participant flow\<close>

record flow_result =
  fr_reply :: pyv
  fr_status :: status
  fr_steps :: "outcome list"
  fr_context :: context_values

definition trigger_context :: "step list \<Rightarrow> pyv \<Rightarrow> context_values \<Rightarrow> context_values" where
  "trigger_context ns request ctx =
     (case filter (\<lambda>s. sp_kind s = ''trigger'') ns of
        [] \<Rightarrow> ctx
      | s # ss \<Rightarrow> dict_set (sp_id s) (PDict [(''request'', request)]) ctx)"

text \<open>The context of an aborted flow is returned too: its state is the caller's own dictionary.\<close>

definition run_flow ::
    "'w exec \<Rightarrow> step list \<Rightarrow> edge list \<Rightarrow> pyv \<Rightarrow> pyv \<Rightarrow> pyv \<Rightarrow> pyv \<Rightarrow> 'w \<Rightarrow> (flow_result result \<times> context_values) \<times> 'w" where
  "run_flow ex ns es vars tables request state w =
     (let ex = ex\<lparr>ex_subflows := []\<rparr>;
          ru = \<lparr>ru_caller = caller_at MAX_CALL_DEPTH ex, ru_exec = ex, ru_steps = ns, ru_edges = es, ru_stop = True\<rparr>;
          ctx = trigger_context ns request
            [(''vars'', or_empty vars), (''tables'', or_empty tables), (''request'', request),
             (''trigger'', PDict [(''request'', request)]), (''state'', if state = PNone then PDict [] else state)] in
      case run_graph ru (start ctx (ex_new_transaction ex w)) of
        (sg, wk) \<Rightarrow>
          ((case sg of
              Raised e \<Rightarrow> Inl e
            | _ \<Rightarrow> Inr \<lparr>fr_reply = get (wk_context wk) REPLY_KEY PNone, fr_status = wk_status wk,
                        fr_steps = wk_steps wk, fr_context = wk_context wk\<rparr>,
            wk_context wk), wk_world wk))"

section \<open>What a node leaves alone\<close>

lemmas node_defs = run_step_def run_code_node_def run_http_node_def run_init_node_def run_crypto_node_def
  run_call_node_def run_relay_node_def expose_def in_world_def Let_def

text \<open>A node adds no outcome, no visit and no verdict of its own: the walk does.\<close>

definition same_trace :: "'w walk_state \<Rightarrow> 'w walk_state \<Rightarrow> bool" where
  "same_trace a b \<longleftrightarrow> wk_steps b = wk_steps a \<and> wk_status b = wk_status a \<and> wk_visits b = wk_visits a"

lemma same_traceI [intro]:
  "wk_steps b = wk_steps a \<Longrightarrow> wk_status b = wk_status a \<Longrightarrow> wk_visits b = wk_visits a \<Longrightarrow> same_trace a b"
  by (simp add: same_trace_def)

lemma run_step_trace: "same_trace wk (snd (run_step ex s wk))"
  by (auto simp: node_defs split: prod.splits sum.splits option.splits py_error.splits)

lemma run_code_trace: "same_trace wk (snd (run_code_node ex s wk))"
  by (auto simp: node_defs split: prod.splits sum.splits option.splits)

lemma run_http_trace: "same_trace wk (snd (run_http_node ex s wk))"
  by (auto simp: node_defs split: prod.splits sum.splits)

lemma run_init_trace: "same_trace wk (snd (run_init_node ex s wk))"
  by (auto simp: node_defs split: prod.splits sum.splits)

lemma run_crypto_trace: "same_trace wk (snd (run_crypto_node ex s wk))"
  by (auto simp: node_defs split: prod.splits sum.splits)

lemma run_call_trace: "same_trace wk (snd (run_call_node caller ex s wk))"
  by (auto simp: node_defs split: prod.splits sum.splits option.splits)

lemma run_relay_trace: "same_trace wk (snd (run_relay_node ex s wk))"
  by (auto simp: node_defs split: prod.splits sum.splits option.splits)

lemmas node_traces = run_step_trace run_code_trace run_http_trace run_init_trace run_crypto_trace run_call_trace

lemma execute_node_trace: "execute_node caller ex s wk = Some r \<Longrightarrow> same_trace wk (snd r)"
  by (auto simp: execute_node_def Let_def node_traces split: if_splits)

text \<open>What a visit can come to.\<close>

inductive comes_to :: "'w run \<Rightarrow> step \<Rightarrow> 'w walk_state \<Rightarrow> move \<times> 'w walk_state \<Rightarrow> bool" for ru s wk where
  raised: "same_trace wk wk1 \<Longrightarrow> comes_to ru s wk (Halt (Raised e), wk1)"
| passed: "same_trace wk wk1 \<Longrightarrow> comes_to ru s wk (Port p, wk1)"
| controlled: "same_trace wk wk1 \<Longrightarrow> comes_to ru s wk (Port p, record_control s r wk1)"
| recorded: "same_trace wk wk1 \<Longrightarrow> \<not> (failing oc \<and> ru_stop ru) \<Longrightarrow> comes_to ru s wk (Port ''out'', record_outcome oc wk1)"
| stopped: "same_trace wk wk1 \<Longrightarrow> failing oc \<Longrightarrow> ru_stop ru \<Longrightarrow> comes_to ru s wk (Halt Stopped, record_outcome oc wk1)"

lemma settle_comes: "same_trace wk (snd r) \<Longrightarrow> comes_to ru s wk (settle (ru_stop ru) r)"
  by (cases r) (auto simp: settle_def split: sum.splits intro: comes_to.intros)

lemma same_world [simp]: "same_trace wk (in_world w wk)"
  by (simp add: same_trace_def in_world_def)

lemma same_context [simp]: "same_trace wk ((in_world w wk)\<lparr>wk_context := ctx\<rparr>)"
  by (simp add: same_trace_def in_world_def)

lemma same_self [simp]: "same_trace wk wk"
  by (simp add: same_trace_def)

lemma passes_comes: "comes_to ru s wk (passes_on r s wk)"
  by (cases r) (auto simp: passes_on_def split: sum.splits intro!: comes_to.intros)

lemma visit_comes: "comes_to ru s wk (visit ru s wk)"
proof (cases "execute_node (ru_caller ru) (ru_exec ru) s wk")
  case (Some r)
  then show ?thesis using settle_comes [OF execute_node_trace [OF Some]] by (simp add: visit_def)
next
  case None
  have r: "comes_to ru s wk (settle (ru_stop ru) (run_relay_node (ru_exec ru) s wk))"
    by (rule settle_comes [OF run_relay_trace])
  show ?thesis
    by (auto simp: visit_def Let_def None r passes_comes intro!: comes_to.intros
        split: sum.splits prod.splits py_error.splits)
qed

text \<open>The ways a step of the walk, and a turn of a loop, can go.\<close>

lemma walk_SucE:
  assumes "walk ru (Suc f) (Some i) wk = (sg, wk')"
  obtains (over) "NODE_BUDGET < wk_visits (tick wk)" "sg = Stopped" "wk' = tick wk"
  | (gone) "sg = Went" "wk' = tick wk"
  | (no_turns) e w where "sg = Raised e" "wk' = in_world w (tick wk)"
  | (broken) ts cond w where "wk_visits (tick wk) \<le> NODE_BUDGET"
      "repeat ru f (next_of ru i ''loop'') cond ts (in_world w (tick wk)) = (sg, wk')" "sg \<noteq> Went"
  | (looped) s ts cond w wk1 where "wk_visits (tick wk) \<le> NODE_BUDGET"
      "repeat ru f (next_of ru i ''loop'') cond ts (in_world w (tick wk)) = (Went, wk1)"
      "walk ru f (next_of ru i ''done'') (record_control s PNone wk1) = (sg, wk')"
  | (halted) s where "visit ru s (tick wk) = (Halt sg, wk')"
  | (moved) s p wk1 where "wk_visits (tick wk) \<le> NODE_BUDGET" "visit ru s (tick wk) = (Port p, wk1)"
      "walk ru f (next_of ru i p) wk1 = (sg, wk')"
proof -
  have e: "(if NODE_BUDGET < wk_visits (tick wk) then (Stopped, tick wk)
     else case node_at ru i of
            None \<Rightarrow> (Went, tick wk)
          | Some s \<Rightarrow>
              if sp_kind s = ''loop''
              then (case turns_of (ex_env (ru_exec ru)) (wk_context (tick wk)) (sp_config s) (wk_world (tick wk)) of
                      (Inl e, w) \<Rightarrow> (Raised e, in_world w (tick wk))
                    | (Inr (ts, cond), w) \<Rightarrow>
                        (case repeat ru f (next_of ru i ''loop'') cond ts (in_world w (tick wk)) of
                           (Went, wk) \<Rightarrow> walk ru f (next_of ru i ''done'') (record_control s PNone wk)
                         | r \<Rightarrow> r))
              else (case visit ru s (tick wk) of
                      (Halt sg, wk) \<Rightarrow> (sg, wk)
                    | (Port p, wk) \<Rightarrow> walk ru f (next_of ru i p) wk)) = (sg, wk')"
    using assms by (simp only: walk.simps Let_def)
  show ?thesis
  proof (cases "NODE_BUDGET < wk_visits (tick wk)")
    case True
    show ?thesis by (rule over) (use e True in simp_all)
  next
    case b: False
    show ?thesis
    proof (cases "node_at ru i")
      case None
      show ?thesis by (rule gone) (use e b None in simp_all)
    next
      case s: (Some s)
      show ?thesis
      proof (cases "sp_kind s = ''loop''")
        case k: True
        let ?t = "turns_of (ex_env (ru_exec ru)) (wk_context (tick wk)) (sp_config s) (wk_world (tick wk))"
        obtain r w where r: "?t = (r, w)" by (cases ?t)
        show ?thesis
        proof (cases r)
          case (Inl x)
          show ?thesis by (rule no_turns [of x w]) (use e b s k r Inl in simp_all)
        next
          case (Inr tc)
          obtain ts cond where tc: "tc = (ts, cond)" by (cases tc)
          let ?l = "repeat ru f (next_of ru i ''loop'') cond ts (in_world w (tick wk))"
          obtain sg1 wk1 where l: "?l = (sg1, wk1)" by (cases ?l)
          have e': "(case (sg1, wk1) of (Went, wk) \<Rightarrow> walk ru f (next_of ru i ''done'') (record_control s PNone wk) | r \<Rightarrow> r) = (sg, wk')"
            using e b s k r Inr tc l by simp
          show ?thesis
          proof (cases "sg1 = Went")
            case True
            show ?thesis by (rule looped [of cond ts w wk1 s]) (use e' b l True in simp_all)
          next
            case False
            then have "sg = sg1 \<and> wk' = wk1" using e' by (cases sg1) simp_all
            then show ?thesis using broken [of cond ts w] False l b by simp
          qed
        qed
      next
        case k: False
        obtain m wk1 where m: "visit ru s (tick wk) = (m, wk1)" by (cases "visit ru s (tick wk)")
        show ?thesis
        proof (cases m)
          case (Port p)
          show ?thesis by (rule moved [of s p wk1]) (use e b s k m Port in simp_all)
        next
          case (Halt sg1)
          show ?thesis by (rule halted [of s]) (use e b s k m Halt in simp_all)
        qed
      qed
    qed
  qed
qed

lemma repeat_ConsE:
  assumes "repeat ru f body cond ((i, item) # ts) wk = (sg, wk')"
  obtains (raised) e where "turn_taken (ex_env (ru_exec ru)) cond wk = (Inl e, wk')" "sg = Raised e"
  | (over) "turn_taken (ex_env (ru_exec ru)) cond wk = (Inr False, wk')" "sg = Went"
  | (broken) wk1 where "turn_taken (ex_env (ru_exec ru)) cond wk = (Inr True, wk1)"
      "walk ru f body (enter_turn i item wk1) = (sg, wk')" "sg \<noteq> Went"
  | (again) wk1 wk2 where "turn_taken (ex_env (ru_exec ru)) cond wk = (Inr True, wk1)"
      "walk ru f body (enter_turn i item wk1) = (Went, wk2)"
      "repeat ru f body cond ts (leave_turn (get (wk_context wk1) ''loop'' PNone) wk2) = (sg, wk')"
proof -
  obtain r wk1 where r: "turn_taken (ex_env (ru_exec ru)) cond wk = (r, wk1)"
    by (cases "turn_taken (ex_env (ru_exec ru)) cond wk")
  show ?thesis
  proof (cases r)
    case (Inl e)
    then show ?thesis using assms r raised by simp
  next
    case (Inr b)
    obtain sg1 wk2 where w: "walk ru f body (enter_turn i item wk1) = (sg1, wk2)"
      by (cases "walk ru f body (enter_turn i item wk1)")
    show ?thesis
    proof (cases b)
      case True
      show ?thesis
      proof (cases "sg1 = Went")
        case went: True
        then show ?thesis using assms r Inr True w again by simp
      next
        case False
        then have "sg = sg1 \<and> wk' = wk2" using assms r Inr True w by (simp split: signal.splits)
        then show ?thesis using r Inr True w False broken by simp
      qed
    qed (use assms r Inr over in simp)
  qed
qed

lemma turn_trace: "turn_taken ev cond wk = (r, wk1) \<Longrightarrow> same_trace wk wk1"
  by (auto simp: turn_taken_def split: option.splits pyv.splits prod.splits)

lemma enter_trace: "same_trace wk wk1 \<Longrightarrow> same_trace wk (enter_turn i item wk1)"
  by (simp add: same_trace_def enter_turn_def)

lemma leave_trace [simp]: "same_trace wk (leave_turn p wk)"
  by (simp add: same_trace_def leave_turn_def)

section \<open>Invariants of a walk\<close>

text \<open>
  What holds while a walk goes on, and what holds when it has ended one way or another: both are about
  the recorded outcomes, the verdict and the visits, so nodes keep them; recording has to.
\<close>

locale walk_invariant =
  fixes ru :: "'w run"
    and holds :: "'w walk_state \<Rightarrow> bool"
    and ended :: "'w walk_state \<Rightarrow> bool"
  assumes ended: "holds wk \<Longrightarrow> ended wk"
    and ticks: "holds wk \<Longrightarrow> holds (tick wk)"
    and kept: "holds wk \<Longrightarrow> same_trace wk wk' \<Longrightarrow> holds wk'"
    and control: "holds wk \<Longrightarrow> holds (record_control s r wk)"
    and goes_on: "holds wk \<Longrightarrow> \<not> (failing oc \<and> ru_stop ru) \<Longrightarrow> holds (record_outcome oc wk)"
    and stops: "holds wk \<Longrightarrow> failing oc \<Longrightarrow> ru_stop ru \<Longrightarrow> ended (record_outcome oc wk)"
begin

lemma visited:
  assumes "holds wk"
  shows "visit ru s wk = (Port p, wk') \<Longrightarrow> holds wk'"
    and "visit ru s wk = (Halt sg, wk') \<Longrightarrow> ended wk' \<and> sg \<noteq> Went"
  using visit_comes [of ru s wk] assms
  by (auto elim!: comes_to.cases intro: kept control goes_on stops ended)

definition fine :: "signal \<times> 'w walk_state \<Rightarrow> bool" where
  "fine r \<longleftrightarrow> ended (snd r) \<and> (fst r = Went \<longrightarrow> holds (snd r))"

lemma fine_holds: "holds wk \<Longrightarrow> fine (sg, wk)"
  by (simp add: fine_def ended)

lemma repeated:
  assumes "\<And>i wk. holds wk \<Longrightarrow> fine (walk ru f i wk)" and "holds wk"
  shows "fine (repeat ru f body cond ts wk)"
  using assms(2)
proof (induction ts arbitrary: wk)
  case Nil
  then show ?case by (simp add: fine_holds)
next
  case (Cons t ts)
  obtain i item where t: "t = (i, item)" by (cases t)
  obtain sg wk' where r: "repeat ru f body cond ((i, item) # ts) wk = (sg, wk')"
    by (cases "repeat ru f body cond ((i, item) # ts) wk")
  have e: "fine (walk ru f body (enter_turn i item wk1))" if "turn_taken (ex_env (ru_exec ru)) cond wk = (x, wk1)" for x wk1
    using assms(1) kept [OF Cons.prems enter_trace [OF turn_trace [OF that]]] .
  from r have "fine (sg, wk')"
  proof (cases rule: repeat_ConsE)
    case (again wk1 wk2)
    then have "holds wk2" using e [of _ wk1] by (simp add: fine_def)
    then show ?thesis using Cons.IH again(3) kept leave_trace by metis
  qed (use e fine_holds kept [OF Cons.prems turn_trace] in auto)
  then show ?case using r t by simp
qed

lemma walked: "holds wk \<Longrightarrow> fine (walk ru f i wk)"
proof (induction f arbitrary: i wk)
  case 0
  then show ?case by (cases i) (simp_all add: fine_holds)
next
  case (Suc f)
  have t: "holds (tick wk)" by (rule ticks [OF Suc.prems])
  have w: "holds (in_world w (tick wk))" for w by (rule kept [OF t same_world])
  have l: "fine (repeat ru f body cond ts (in_world w (tick wk)))" for body cond ts w
    by (rule repeated [OF Suc.IH w])
  show ?case
  proof (cases i)
    case None
    then show ?thesis using Suc.prems by (simp add: fine_holds)
  next
    case (Some n)
    obtain sg wk' where r: "walk ru (Suc f) (Some n) wk = (sg, wk')" by (cases "walk ru (Suc f) (Some n) wk")
    then have "fine (sg, wk')"
    proof (cases rule: walk_SucE)
      case (broken ts cond w)
      then show ?thesis using l [of "next_of ru n ''loop''" cond ts w] by simp
    next
      case (looped s ts cond w wk1)
      then have "holds wk1" using l [of "next_of ru n ''loop''" cond ts w] by (simp add: fine_def)
      then show ?thesis using looped(3) Suc.IH [OF control [of wk1 s PNone], of "next_of ru n ''done''"] by simp
    next
      case (halted s)
      then show ?thesis using visited(2) [OF t] by (simp add: fine_def)
    next
      case (moved s p wk1)
      then show ?thesis using visited(1) [OF t moved(2)] Suc.IH [of wk1 "next_of ru n p"] by simp
    qed (simp_all add: fine_holds t w)
    then show ?thesis using r Some by simp
  qed
qed

lemma listed: "holds wk \<Longrightarrow> fine (run_list ru ss wk)"
proof (induction ss arbitrary: wk)
  case Nil
  then show ?case by (simp add: fine_holds)
next
  case (Cons s ss)
  show ?case
  proof (cases "execute_node (ru_caller ru) (ru_exec ru) s wk")
    case None
    then show ?thesis using Cons control by simp
  next
    case (Some r)
    obtain m wk1 where m: "settle (ru_stop ru) r = (m, wk1)" by (cases "settle (ru_stop ru) r")
    have "comes_to ru s wk (m, wk1)" using settle_comes [OF execute_node_trace [OF Some]] m by metis
    then have "(\<forall>p. m = Port p \<longrightarrow> holds wk1) \<and> (\<forall>sg. m = Halt sg \<longrightarrow> fine (sg, wk1))"
      using Cons.prems by (auto elim!: comes_to.cases intro: kept control goes_on stops ended simp: fine_def)
    then show ?thesis using Cons.IH Some m by (cases m) simp_all
  qed
qed

end

section \<open>Every walk ends\<close>

interpretation counted: walk_invariant ru "\<lambda>wk. n \<le> wk_visits wk" "\<lambda>wk. n \<le> wk_visits wk" for ru n
  by unfold_locales (auto simp: tick_def same_trace_def record_control_def record_outcome_def)

lemma repeat_visits: "repeat ru f body cond ts wk = (sg, wk') \<Longrightarrow> wk_visits wk \<le> wk_visits wk'"
  using counted.repeated [OF counted.walked order_refl, of wk ru f body cond ts] by (simp add: counted.fine_def)

lemma walk_visits: "walk ru f i wk = (sg, wk') \<Longrightarrow> wk_visits wk \<le> wk_visits wk'"
  using counted.walked [OF order_refl, of wk ru f i] by (simp add: counted.fine_def)

lemma visit_visits: "visit ru s wk = (m, wk') \<Longrightarrow> wk_visits wk' = wk_visits wk"
  using visit_comes [of ru s wk]
  by (auto elim!: comes_to.cases simp: same_trace_def record_control_def record_outcome_def)

lemma visit_signal: "visit ru s wk = (Halt sg, wk') \<Longrightarrow> sg \<noteq> No_Fuel"
  using visit_comes [of ru s wk] by (auto elim!: comes_to.cases)

lemma repeat_has_fuel:
  assumes "\<And>i wk. 0 < f \<Longrightarrow> NODE_BUDGET < f + wk_visits wk \<Longrightarrow> fst (walk ru f i wk) \<noteq> No_Fuel"
    and f: "0 < f" and "NODE_BUDGET < f + wk_visits wk"
  shows "fst (repeat ru f body cond ts wk) \<noteq> No_Fuel"
  using assms(3)
proof (induction ts arbitrary: wk)
  case Nil
  then show ?case by simp
next
  case (Cons t ts)
  obtain i item where t: "t = (i, item)" by (cases t)
  obtain sg wk' where r: "repeat ru f body cond ((i, item) # ts) wk = (sg, wk')"
    by (cases "repeat ru f body cond ((i, item) # ts) wk")
  have e: "wk_visits (enter_turn i item wk1) = wk_visits wk" if "turn_taken (ex_env (ru_exec ru)) cond wk = (x, wk1)" for x wk1
    using turn_trace [OF that] by (simp add: same_trace_def enter_turn_def)
  from r have "sg \<noteq> No_Fuel"
  proof (cases rule: repeat_ConsE)
    case (broken wk1)
    then show ?thesis using assms(1) [OF f, of "enter_turn i item wk1" body] e Cons.prems by simp
  next
    case (again wk1 wk2)
    have "wk_visits wk \<le> wk_visits wk2" using walk_visits [OF again(2)] e [OF again(1)] by simp
    then show ?thesis
      using Cons.IH [of "leave_turn (get (wk_context wk1) ''loop'' PNone) wk2"] again(3) Cons.prems
      by (simp add: leave_turn_def)
  qed simp_all
  then show ?case using r t by simp
qed

lemma walk_has_fuel: "0 < f \<Longrightarrow> NODE_BUDGET < f + wk_visits wk \<Longrightarrow> fst (walk ru f i wk) \<noteq> No_Fuel"
proof (induction f arbitrary: i wk)
  case (Suc f)
  show ?case
  proof (cases i)
    case (Some n)
    obtain sg wk' where r: "walk ru (Suc f) (Some n) wk = (sg, wk')" by (cases "walk ru (Suc f) (Some n) wk")
    have f: "0 < f" if "wk_visits (tick wk) \<le> NODE_BUDGET" using that Suc.prems by (simp add: tick_def)
    have b: "NODE_BUDGET < f + wk_visits wk1" if "wk_visits (tick wk) \<le> wk_visits wk1" for wk1 :: "'a walk_state"
      using that Suc.prems by (simp add: tick_def)
    from r have "sg \<noteq> No_Fuel"
    proof (cases rule: walk_SucE)
      case (broken ts cond w)
      have "fst (repeat ru f (next_of ru n ''loop'') cond ts (in_world w (tick wk))) \<noteq> No_Fuel"
        by (rule repeat_has_fuel) (use Suc.IH f b broken in \<open>simp_all add: in_world_def\<close>)
      then show ?thesis using broken by simp
    next
      case (looped s ts cond w wk1)
      then have "wk_visits (tick wk) \<le> wk_visits (record_control s PNone wk1)"
        using repeat_visits [OF looped(2)] by (simp add: in_world_def record_control_def)
      then show ?thesis using Suc.IH [OF f b] looped by (metis fst_conv)
    next
      case (halted s)
      then show ?thesis using visit_signal by blast
    next
      case (moved s p wk1)
      then show ?thesis using Suc.IH [OF f b, of wk1] visit_visits [OF moved(2)] by (metis fst_conv order_refl)
    qed simp_all
    then show ?thesis using r Some by simp
  qed simp
qed simp

text \<open>More fuel changes nothing.\<close>

lemma repeat_more:
  assumes "\<And>i wk. fst (walk ru f i wk) \<noteq> No_Fuel \<Longrightarrow> walk ru g i wk = walk ru f i wk"
    and "fst (repeat ru f body cond ts wk) \<noteq> No_Fuel"
  shows "repeat ru g body cond ts wk = repeat ru f body cond ts wk"
  using assms(2)
proof (induction ts arbitrary: wk)
  case (Cons t ts)
  obtain i item where t: "t = (i, item)" by (cases t)
  obtain r wk1 where r: "turn_taken (ex_env (ru_exec ru)) cond wk = (r, wk1)"
    by (cases "turn_taken (ex_env (ru_exec ru)) cond wk")
  obtain sg wk2 where w: "walk ru f body (enter_turn i item wk1) = (sg, wk2)"
    by (cases "walk ru f body (enter_turn i item wk1)")
  show ?case
  proof (cases "r = Inr True \<and> sg = No_Fuel")
    case True
    then show ?thesis using Cons.prems t r w by simp
  next
    case False
    have g: "walk ru g body (enter_turn i item wk1) = (sg, wk2)" if "r = Inr True"
      using assms(1) [of body "enter_turn i item wk1"] w False that by simp
    show ?thesis
    proof (cases "r = Inr True \<and> sg = Went")
      case True
      then show ?thesis using Cons t r w g by simp
    next
      case no: False
      show ?thesis using no t r w g by (cases r; cases sg) (auto split: bool.splits)
    qed
  qed
qed simp

lemma walk_more: "fst (walk ru f i wk) \<noteq> No_Fuel \<Longrightarrow> f \<le> g \<Longrightarrow> walk ru g i wk = walk ru f i wk"
proof (induction f arbitrary: g i wk)
  case 0
  then show ?case by (cases i) simp_all
next
  case (Suc f)
  obtain g' where g: "g = Suc g'" "f \<le> g'" using Suc.prems(2) by (cases g) auto
  have w: "walk ru g' i wk = walk ru f i wk" if "fst (walk ru f i wk) \<noteq> No_Fuel" for i wk
    using Suc.IH that g(2) by blast
  have l: "repeat ru g' body cond ts wk = repeat ru f body cond ts wk" if "fst (repeat ru f body cond ts wk) \<noteq> No_Fuel"
    for body cond ts wk
    using repeat_more w that by blast
  show ?case
  proof (cases i)
    case (Some n)
    let ?t = "turns_of (ex_env (ru_exec ru)) (wk_context (tick wk))"
    note u = walk.simps(3) Let_def
    show ?thesis
    proof (cases "NODE_BUDGET < wk_visits (tick wk) \<or> node_at ru n = None")
      case True
      then show ?thesis using g Some by (auto simp: u)
    next
      case False
      then obtain s where s: "node_at ru n = Some s" and b: "\<not> NODE_BUDGET < wk_visits (tick wk)" by auto
      show ?thesis
      proof (cases "sp_kind s = ''loop''")
        case k: True
        obtain r w' where r: "?t (sp_config s) (wk_world (tick wk)) = (r, w')" by (cases "?t (sp_config s) (wk_world (tick wk))")
        show ?thesis
        proof (cases r)
          case (Inr tc)
          obtain ts cond where tc: "tc = (ts, cond)" by (cases tc)
          let ?r = "\<lambda>h. repeat ru h (next_of ru n ''loop'') cond ts (in_world w' (tick wk))"
          obtain sg wk1 where x: "?r f = (sg, wk1)" by (cases "?r f")
          have n: "sg \<noteq> No_Fuel" using Suc.prems(1) Some s b k r Inr tc x by (auto simp: u)
          then have y: "?r g' = (sg, wk1)" using l [of "next_of ru n ''loop''" cond ts "in_world w' (tick wk)"] x by simp
          show ?thesis
          proof (cases "sg = Went")
            case True
            then have "fst (walk ru f (next_of ru n ''done'') (record_control s PNone wk1)) \<noteq> No_Fuel"
              using Suc.prems(1) Some s b k r Inr tc x by (simp add: u)
            then show ?thesis using w True Some g s b k r Inr tc x y by (simp add: u)
          next
            case False
            then show ?thesis using Some g s b k r Inr tc x y by (cases sg) (simp_all add: u)
          qed
        qed (use Some g s b k r in \<open>simp add: u\<close>)
      next
        case k: False
        obtain m wk1 where m: "visit ru s (tick wk) = (m, wk1)" by (cases "visit ru s (tick wk)")
        show ?thesis
        proof (cases m)
          case (Port p)
          then have "fst (walk ru f (next_of ru n p) wk1) \<noteq> No_Fuel"
            using Suc.prems(1) Some s b k m by (simp add: u)
          then show ?thesis using w Port Some g s b k m by (simp add: u)
        qed (use Some g s b k m in \<open>simp add: u\<close>)
      qed
    qed
  qed simp
qed

section \<open>What the recorded outcomes say\<close>

definition verdict_ok :: "'w walk_state \<Rightarrow> bool" where
  "verdict_ok wk \<longleftrightarrow> wk_status wk = (if list_ex failing (wk_steps wk) then Failed else Passed)"

interpretation verdict: walk_invariant ru verdict_ok verdict_ok for ru
  by unfold_locales
    (auto simp: verdict_ok_def tick_def same_trace_def record_control_def record_outcome_def node_outcome_def failing_def)

definition none_failed :: "'w run \<Rightarrow> 'w walk_state \<Rightarrow> bool" where
  "none_failed ru wk \<longleftrightarrow> (ru_stop ru \<longrightarrow> \<not> list_ex failing (wk_steps wk))"

definition last_failed :: "'w run \<Rightarrow> 'w walk_state \<Rightarrow> bool" where
  "last_failed ru wk \<longleftrightarrow> (ru_stop ru \<longrightarrow> \<not> list_ex failing (butlast (wk_steps wk)))"

interpretation halting: walk_invariant ru "none_failed ru" "last_failed ru" for ru
  by unfold_locales
    (auto simp: none_failed_def last_failed_def tick_def same_trace_def record_control_def record_outcome_def
      node_outcome_def failing_def list_ex_iff dest: in_set_butlastD)


lemma start_simps [simp]: "wk_steps (start ctx w) = []" "wk_status (start ctx w) = Passed" "wk_visits (start ctx w) = 0"
  by (simp_all add: start_def)

lemma cleanup_note_none: "cleanup_note (c, oc) = [] \<longleftrightarrow> oc_status oc = Passed"
  by (simp add: cleanup_note_def split: prod.splits)

lemma undone:
  "undo_all ex cs w = (ocs, w') \<Longrightarrow>
     map oc_step ocs = map (\<lambda>(t, payload, origin). origin @ ''.cleanup'') cs \<and>
     (concat (map cleanup_note (zip cs ocs)) = [] \<longleftrightarrow> list_all (\<lambda>oc. oc_status oc = Passed) ocs)"
proof (induction cs arbitrary: w ocs)
  case (Cons c cs)
  obtain t payload origin where c: "c = (t, payload, origin)" by (cases c)
  obtain r w1 where r: "ex_adapter ex t ''execute'' (PDict payload) [] w = (r, w1)"
    by (cases "ex_adapter ex t ''execute'' (PDict payload) [] w")
  obtain ocs1 w2 where o: "undo_all ex cs w1 = (ocs1, w2)" by (cases "undo_all ex cs w1")
  have e: "ocs = cleanup_outcome c r # ocs1" "w' = w2" using Cons.prems c r o by simp_all
  show ?case using Cons.IH [of w1 ocs1] o e c by (simp add: cleanup_note_none) (simp add: cleanup_outcome_def)
qed simp

lemma ran:
  assumes "\<And>ru. walk_invariant ru (holds ru) (ended ru)"
    and "\<And>ru ctx w. holds ru (start ctx w)"
  shows "\<exists>ru. ru_stop ru = sn_stop_on_failure sc \<and> ended ru (snd (run_scenario caller ex sc vars tables w))"
proof -
  define ru where "ru = \<lparr>ru_caller = caller, ru_exec = ex, ru_steps = sn_steps sc, ru_edges = sn_edges sc,
               ru_stop = sn_stop_on_failure sc\<rparr>"
  note inv = assms(1) [of ru]
  have "run_scenario caller ex sc vars tables w =
      (let wk = start [(''vars'', or_empty vars), (''tables'', or_empty tables)] w in
       if sn_edges sc \<noteq> [] then run_graph ru wk else run_list ru (sn_steps sc) wk)"
    unfolding run_scenario_def ru_def Let_def by (rule refl)
  then have "ended ru (snd (run_scenario caller ex sc vars tables w))"
    using walk_invariant.walked [OF inv assms(2)] walk_invariant.listed [OF inv assms(2)]
    by (simp add: Let_def run_graph_def walk_invariant.fine_def [OF inv])
  then show ?thesis by (intro exI [of _ ru]) (simp add: ru_def)
qed

section \<open>Properties\<close>


text \<open>C25. The verdict of a run, however it ended, is that a recorded outcome failed or errored.\<close>

theorem scenario_verdict:
  "wk_status (snd (run_scenario caller ex sc vars tables w)) =
     (if list_ex failing (wk_steps (snd (run_scenario caller ex sc vars tables w))) then Failed else Passed)"
  using ran [of "\<lambda>_. verdict_ok" "\<lambda>_. verdict_ok", OF verdict.walk_invariant_axioms, of sc caller ex vars tables w]
  by (simp add: verdict_ok_def)

text \<open>C26. With \<open>stop_on_failure\<close> nothing runs after the first outcome that failed or errored.\<close>

theorem failure_is_last:
  assumes "sn_stop_on_failure sc"
  shows "\<not> list_ex failing (butlast (wk_steps (snd (run_scenario caller ex sc vars tables w))))"
  using assms ran [of none_failed last_failed, OF halting.walk_invariant_axioms, of sc caller ex vars tables w]
  by (auto simp: none_failed_def last_failed_def)


definition action_step :: "string \<Rightarrow> string \<Rightarrow> step" where
  "action_step x t = \<lparr>sp_id = x, sp_kind = ''action'', sp_target = t, sp_action = ''send'', sp_payload = PDict [],
     sp_assertions = [], sp_config = []\<rparr>"

definition idle_world :: "unit exec" where
  "idle_world =
     \<lparr>ex_env = \<lparr>ev_text = (\<lambda>v. []), ev_is_generator = (\<lambda>e. False), ev_draw = (\<lambda>e w. (Inr PNone, w)), ev_search = (\<lambda>p t. False)\<rparr>,
      ex_adapter = (\<lambda>t a p as w. (if t = ''down'' then None else Some \<lparr>ar_success = True, ar_request = p, ar_response = PNone, ar_assertions = []\<rparr>, w)),
      ex_code = (\<lambda>l c ctx t is w. (None, w)), ex_http = (\<lambda>cfg ctx w. (Inl RuntimeError, w)), ex_crypto = (\<lambda>op ps. []),
      ex_json = (\<lambda>t. None), ex_new_transaction = id, ex_subflows = []\<rparr>"

definition two_steps :: scenario where
  "two_steps = \<lparr>sn_id = ''s'', sn_steps = [action_step ''a'' ''up'', action_step ''b'' ''down'', action_step ''c'' ''up''],
     sn_edges = [], sn_stop_on_failure = True\<rparr>"

theorem failure_is_last_witness:
  "(case run_scenario None idle_world two_steps PNone PNone () of (sg, wk) \<Rightarrow>
      map oc_status (wk_steps wk) = [Passed, Errored] \<and> wk_status wk = Failed \<and> sg = Stopped \<and>
      \<not> list_ex failing (butlast (wk_steps wk)))"
proof -
  have "\<not> list_ex failing (butlast (wk_steps (snd (run_scenario None idle_world two_steps PNone PNone ()))))"
    by (rule failure_is_last) (simp add: two_steps_def)
  moreover have "run_scenario None idle_world two_steps PNone PNone () =
      (Stopped, snd (run_scenario None idle_world two_steps PNone PNone ())) \<and>
      map oc_status (wk_steps (snd (run_scenario None idle_world two_steps PNone PNone ()))) = [Passed, Errored] \<and>
      wk_status (snd (run_scenario None idle_world two_steps PNone PNone ())) = Failed"
    by (simp add: run_scenario_def two_steps_def action_step_def idle_world_def execute_node_def run_step_def settle_def
        step_outcome_def failing_def record_outcome_def cleanup_of_def Let_def expose_def in_world_def start_def)
  ultimately show ?thesis by (metis (mono_tags, lifting) case_prodI)
qed

section \<open>Findings\<close>

text \<open>A scenario that runs into the budget of visits has not failed: a merge that leads to itself passes.\<close>

definition merge_step :: "string \<Rightarrow> step" where
  "merge_step x = \<lparr>sp_id = x, sp_kind = ''merge'', sp_target = [], sp_action = [], sp_payload = PDict [],
     sp_assertions = [], sp_config = []\<rparr>"

definition ring :: "'w exec \<Rightarrow> 'w run" where
  "ring ex = \<lparr>ru_caller = None, ru_exec = ex, ru_steps = [merge_step ''m''],
     ru_edges = [\<lparr>ed_source = ''m'', ed_port = ''out'', ed_target = ''m''\<rparr>], ru_stop = True\<rparr>"

lemma merge_visit: "visit ru (merge_step x) wk = (Port ''out'', record_control (merge_step x) PNone wk)"
  by (simp add: visit_def execute_node_def merge_step_def Let_def)

lemma ring_walk:
  "NODE_BUDGET < f + wk_visits wk \<Longrightarrow> 0 < f \<Longrightarrow> wk_status wk = Passed \<Longrightarrow>
     fst (walk (ring ex) f (Some ''m'') wk) = Stopped \<and> wk_status (snd (walk (ring ex) f (Some ''m'') wk)) = Passed"
proof (induction f arbitrary: wk)
  case (Suc f)
  have n: "node_at (ring ex) ''m'' = Some (merge_step ''m'')" "next_of (ring ex) ''m'' ''out'' = Some ''m''"
    by (simp_all add: node_at_def next_of_def ring_def merge_step_def)
  show ?case
  proof (cases "NODE_BUDGET < wk_visits (tick wk)")
    case True
    then show ?thesis using Suc.prems by (simp add: walk.simps(3) tick_def)
  next
    case False
    let ?wk = "record_control (merge_step ''m'') PNone (tick wk)"
    have "walk (ring ex) (Suc f) (Some ''m'') wk = walk (ring ex) f (Some ''m'') ?wk"
      using False n by (simp add: walk.simps(3) Let_def merge_visit) (simp add: merge_step_def)
    moreover have "NODE_BUDGET < f + wk_visits ?wk" "0 < f" "wk_status ?wk = Passed"
      using Suc.prems False by (simp_all add: tick_def record_control_def)
    ultimately show ?thesis using Suc.IH [of ?wk] by simp
  qed
qed simp

theorem exhausted_budget_passes:
  "(case run_graph (ring ex) (start ctx w) of (sg, wk) \<Rightarrow> sg = Stopped \<and> wk_status wk = Passed)"
proof -
  have "graph_entry (ring ex) = Some ''m''" by (simp add: graph_entry_def ring_def merge_step_def)
  then show ?thesis using ring_walk [of "NODE_BUDGET + 1" "start ctx w" ex] by (simp add: run_graph_def case_prod_beta)
qed

text \<open>A step of a called scenario whose write succeeds registers no cleanup: nothing undoes it.\<close>

definition seeding :: scenario where
  "seeding = \<lparr>sn_id = ''sub'', sn_steps = [(action_step ''seed'' ''db'')\<lparr>sp_payload :=
       PDict [(''cleanup'', PDict [(''sql'', PStr ''delete'')])]\<rparr>], sn_edges = [], sn_stop_on_failure = True\<rparr>"

definition calling :: scenario where
  "calling = \<lparr>sn_id = ''top'', sn_steps = [\<lparr>sp_id = ''c'', sp_kind = ''call'', sp_target = [], sp_action = [],
       sp_payload = PDict [], sp_assertions = [], sp_config = [(''scenario_id'', PStr ''sub'')]\<rparr>],
     sn_edges = [], sn_stop_on_failure = True\<rparr>"

lemmas run_simps = run_scenario_def action_step_def idle_world_def execute_node_def run_step_def settle_def
  step_outcome_def failing_def record_outcome_def cleanup_of_def Let_def expose_def in_world_def start_def runner_run_def

lemma delete_text: "expr_at ''delete'' = None" "sub_exprs ev ctx ''delete'' w = (Inr ''delete'', w)"
  by (simp_all add: expr_at_dollar sub_exprs_dollar)

theorem called_cleanup_is_lost:
  "map oc_step (case fst (runner_run idle_world seeding PNone PNone ()) of Inr r \<Rightarrow> sr_steps r) = [''seed'', ''seed.cleanup''] \<and>
   map oc_step (case fst (runner_run (idle_world\<lparr>ex_subflows := [(''sub'', seeding)]\<rparr>) calling PNone PNone ()) of
     Inr r \<Rightarrow> sr_steps r) = [''c'']"
proof
  show "map oc_step (case fst (runner_run idle_world seeding PNone PNone ()) of Inr r \<Rightarrow> sr_steps r) = [''seed'', ''seed.cleanup'']"
    by (simp add: run_simps seeding_def resolve_text_def delete_text display_target_def cleanup_outcome_def)
  show "map oc_step (case fst (runner_run (idle_world\<lparr>ex_subflows := [(''sub'', seeding)]\<rparr>) calling PNone PNone ()) of
     Inr r \<Rightarrow> sr_steps r) = [''c'']"
    by (simp add: run_simps seeding_def calling_def resolve_text_def delete_text display_target_def cleanup_outcome_def
        MAX_CALL_DEPTH_def eval_nat_numeral run_call_node_def sub_scenario_def dict_of_def rows_of_def node_outcome_def or_empty_def)
qed

end
