(* ===== verification/Adapters.thy ===== *)
theory Adapters
  imports Nodes
begin

text \<open>
  Adapters as the engine sees them: the effective configuration of an instance
  (\<open>_deep_merge\<close> and \<open>AdapterRegistry._config_for\<close> of \<open>worker/adapters/registry.py\<close>), the assertions on a
  response (\<open>BaseAdapter\<close> of \<open>worker/adapters/base/base_adapter.py\<close>), and the execution of one step
  (\<open>WorkerEngine._execute_step\<close> of \<open>worker/engine/engine.py\<close>). What an adapter answers is a parameter. The cache
  of configurations only saves work and is left out.
\<close>

section \<open>Merging configurations\<close>

type_synonym config = "(string \<times> pyv) list"

text \<open>The second function is the value of one key of the result.\<close>

fun deep_merge :: "config \<Rightarrow> config \<Rightarrow> config"
  and merged_value :: "pyv option \<Rightarrow> pyv \<Rightarrow> pyv" where
  "deep_merge out [] = out"
| "deep_merge out ((k, v) # kvs) = deep_merge (dict_set k (merged_value (map_of out k) v) out) kvs"
| "merged_value old (PDict d) = (case old of Some (PDict d') \<Rightarrow> PDict (deep_merge d' d) | _ \<Rightarrow> PDict d)"
| "merged_value old v = v"

lemma map_of_dict_set [simp]: "map_of (dict_set k v d) k' = (if k' = k then Some v else map_of d k')"
  by (induction k v d rule: dict_set.induct) auto

lemma deep_merge_other: "k \<notin> fst ` set b \<Longrightarrow> map_of (deep_merge a b) k = map_of a k"
proof (induction b arbitrary: a)
  case (Cons kv b)
  then show ?case by (cases kv) auto
qed simp

lemma deep_merge_lookup:
  "distinct (map fst b) \<Longrightarrow>
     map_of (deep_merge a b) k = (case map_of b k of None \<Rightarrow> map_of a k | Some v \<Rightarrow> Some (merged_value (map_of a k) v))"
proof (induction b arbitrary: a)
  case (Cons kv b)
  obtain k' v where kv: "kv = (k', v)" by (cases kv)
  show ?case
  proof (cases "k = k'")
    case True
    then have "k \<notin> fst ` set b" using Cons.prems kv by simp
    then show ?thesis using True kv by (simp add: deep_merge_other)
  next
    case False
    then show ?thesis using Cons kv by (auto split: option.splits)
  qed
qed simp

section \<open>Effective configurations\<close>

record env_config =
  en_adapters :: "(string \<times> config) list"
  en_defaults :: "(string \<times> config) list"

definition config_of :: "(string \<times> config) list \<Rightarrow> string \<Rightarrow> config" where
  "config_of cs k = or_default [] (map_of cs k)"

definition own_config :: "config \<Rightarrow> config" where
  "own_config raw = filter (\<lambda>kv. fst kv \<noteq> ''extends'') raw"

text \<open>\<open>a or b or c\<close> of Python.\<close>

definition first_truthy :: "pyv list \<Rightarrow> pyv" where
  "first_truthy vs = (case filter truthy (butlast vs) of [] \<Rightarrow> last vs | v # _ \<Rightarrow> v)"

definition impl_of :: "string \<Rightarrow> config \<Rightarrow> pyv" where
  "impl_of t c = first_truthy [get c ''adapter'' PNone, get c ''type'' PNone, PStr t]"

definition defaults_of :: "env_config \<Rightarrow> pyv \<Rightarrow> config result" where
  "defaults_of env impl =
     (case impl of
        PStr i \<Rightarrow> Inr (config_of (en_defaults env) i)
      | PList vs \<Rightarrow> Inl TypeError
      | PDict d \<Rightarrow> Inl TypeError
      | _ \<Rightarrow> Inr [])"

definition with_defaults :: "env_config \<Rightarrow> string \<Rightarrow> config \<Rightarrow> config \<Rightarrow> config result" where
  "with_defaults env t parent raw =
     (let c = deep_merge parent (own_config raw) in
      rbind (defaults_of env (impl_of t c)) (\<lambda>d. Inr (deep_merge d c)))"

definition unseen :: "env_config \<Rightarrow> string list \<Rightarrow> nat" where
  "unseen env seen = length (filter (\<lambda>k. k \<notin> set seen) (map fst (en_adapters env)))"

lemma unseen_less: "map_of (en_adapters env) t = Some c \<Longrightarrow> t \<notin> set seen \<Longrightarrow> unseen env (t # seen) < unseen env seen"
proof -
  assume "map_of (en_adapters env) t = Some c" and s: "t \<notin> set seen"
  then have "t \<in> set (map fst (en_adapters env))" by (metis map_of_SomeD image_eqI set_map fst_conv)
  moreover have "filter (\<lambda>k. k \<notin> set (t # seen)) ks = filter (\<lambda>k. k \<noteq> t) (filter (\<lambda>k. k \<notin> set seen) ks)" for ks
    by (simp add: conj_commute)
  ultimately show ?thesis unfolding unseen_def using s
    by (metis (mono_tags, lifting) length_filter_less mem_Collect_eq set_filter)
qed

text \<open>\<open>_config_for\<close>: the chain of parents, with the names already visited.\<close>

function config_for :: "env_config \<Rightarrow> string list \<Rightarrow> string \<Rightarrow> config result" where
  "config_for env seen t =
     (if t \<in> set seen then Inl ValueError
      else case map_of (en_adapters env) t of
             None \<Rightarrow> with_defaults env t [] []
           | Some raw \<Rightarrow>
               (let p = get raw ''extends'' PNone in
                rbind (if \<not> truthy p then Inr []
                       else case p of
                              PStr q \<Rightarrow> config_for env (t # seen) q
                            | PList vs \<Rightarrow> Inl TypeError
                            | PDict d \<Rightarrow> Inl TypeError
                            | _ \<Rightarrow> Inr [])
                  (\<lambda>parent. with_defaults env t parent raw)))"
  by pat_completeness auto
termination
  by (relation "measure (\<lambda>(env, seen, t). unseen env seen)") (auto dest: unseen_less)

declare config_for.simps [simp del]

section \<open>Assertions\<close>

text \<open>\<open>s.partition(c)\<close> without the separator.\<close>

definition before :: "char \<Rightarrow> string \<Rightarrow> string" where
  "before c s = takeWhile (\<lambda>x. x \<noteq> c) s"

definition after :: "char \<Rightarrow> string \<Rightarrow> string" where
  "after c s = tl (dropWhile (\<lambda>x. x \<noteq> c) s)"

text \<open>\<open>current[i]\<close> of any value; an exception is \<open>None\<close>.\<close>

definition item_or_none :: "pyv \<Rightarrow> int \<Rightarrow> pyv option" where
  "item_or_none v n =
     (case v of
        PList vs \<Rightarrow> (case item_at vs n of Inr x \<Rightarrow> Some x | Inl _ \<Rightarrow> None)
      | PStr s \<Rightarrow> (case item_at (map (\<lambda>c. PStr [c]) s) n of Inr x \<Rightarrow> Some x | Inl _ \<Rightarrow> None)
      | _ \<Rightarrow> None)"

lemma items_shorter:
  assumes "rest \<noteq> []"
  shows "length (dropWhile (\<lambda>x. x = CHR ''['') (after c rest)) < length rest"
proof -
  have "length (dropWhile (\<lambda>x. x = CHR ''['') (after c rest)) \<le> length (after c rest)"
    by (rule length_dropWhile_le)
  also have "\<dots> < length rest"
    using length_dropWhile_le [of "\<lambda>x. x \<noteq> c" rest] assms
    by (cases "dropWhile (\<lambda>x. x \<noteq> c) rest") (auto simp: after_def simp del: dropWhile_eq_Nil_conv)
  finally show ?thesis .
qed

function extract_items :: "pyv \<Rightarrow> string \<Rightarrow> pyv option" where
  "extract_items v rest =
     (if rest = [] then Some v
      else case int_text (u (before (CHR '']'') rest)) of
             None \<Rightarrow> None
           | Some n \<Rightarrow>
               (case item_or_none v n of
                  None \<Rightarrow> None
                | Some w \<Rightarrow> extract_items w (dropWhile (\<lambda>c. c = CHR ''['') (after (CHR '']'') rest))))"
  by pat_completeness auto
termination
  by (relation "measure (\<lambda>(v, s). length s)") (simp_all add: items_shorter)

declare extract_items.simps [simp del]

text \<open>One part of the path, and the whole path.\<close>

definition extract_part :: "pyv \<Rightarrow> string \<Rightarrow> pyv option" where
  "extract_part v part =
     (let name = before (CHR ''['') part; rest = after (CHR ''['') part in
      if name = [] then extract_items v rest
      else case v of PDict d \<Rightarrow> extract_items (get d name PNone) rest | _ \<Rightarrow> None)"

fun extract_parts :: "pyv \<Rightarrow> string list \<Rightarrow> pyv option" where
  "extract_parts v [] = Some v"
| "extract_parts v (p # ps) = (case extract_part v p of None \<Rightarrow> None | Some w \<Rightarrow> extract_parts w ps)"

definition extract_field :: "config \<Rightarrow> string \<Rightarrow> pyv" where
  "extract_field data path = or_default PNone (extract_parts (PDict data) (split_char CHR ''.'' path))"

text \<open>\<open><\<close> of two values: numbers, texts and lists are ordered, anything else raises.\<close>

datatype order = Less | Equal | Greater

definition order_of :: "('a \<Rightarrow> 'a \<Rightarrow> bool) \<Rightarrow> 'a \<Rightarrow> 'a \<Rightarrow> order" where
  "order_of lt x y = (if lt x y then Less else if x = y then Equal else Greater)"

fun order_text :: "string \<Rightarrow> string \<Rightarrow> order" where
  "order_text [] [] = Equal"
| "order_text [] (d # ds) = Less"
| "order_text (c # cs) [] = Greater"
| "order_text (c # cs) (d # ds) =
     (if c = d then order_text cs ds else order_of (<) (of_char c :: nat) (of_char d))"

fun order_value :: "pyv \<Rightarrow> pyv \<Rightarrow> order option"
  and order_list :: "pyv list \<Rightarrow> pyv list \<Rightarrow> order option" where
  "order_value (PStr s) b = (case b of PStr t \<Rightarrow> Some (order_text s t) | _ \<Rightarrow> None)"
| "order_value (PList vs) b = (case b of PList ws \<Rightarrow> order_list vs ws | _ \<Rightarrow> None)"
| "order_value PNone b = None"
| "order_value (PDict d) b = None"
| "order_value (PBool x) b = map_option (order_of (<) (if x then 1 else 0)) (number b)"
| "order_value (PInt n) b = map_option (order_of (<) (of_int n)) (number b)"
| "order_value (PFloat q) b = map_option (order_of (<) q) (number b)"
| "order_list [] ws = Some (if ws = [] then Equal else Less)"
| "order_list (v # vs) ws =
     (case ws of
        [] \<Rightarrow> Some Greater
      | w # ws \<Rightarrow> if py_eq v w then order_list vs ws else order_value v w)"

text \<open>\<open>_evaluate\<close>: what raises, and an operator that does not exist, is no pass.\<close>

definition evaluate :: "(pyv \<Rightarrow> string) \<Rightarrow> pyv \<Rightarrow> string \<Rightarrow> pyv \<Rightarrow> bool" where
  "evaluate rp a op e =
     (if op = ''eq'' then py_eq a e
      else if op = ''ne'' then \<not> py_eq a e
      else if op = ''lt'' then order_value a e = Some Less
      else if op = ''gt'' then order_value a e = Some Greater
      else if op = ''lte'' then order_value a e \<in> {Some Less, Some Equal}
      else if op = ''gte'' then order_value a e \<in> {Some Greater, Some Equal}
      else if op = ''present'' then a \<noteq> PNone
      else if op = ''absent'' then a = PNone
      else if op = ''contains'' then (case e of PStr s \<Rightarrow> sublist s (pystr rp a) | _ \<Rightarrow> False)
      else False)"

definition assert_response :: "(pyv \<Rightarrow> string) \<Rightarrow> config \<Rightarrow> assertion list \<Rightarrow> bool list" where
  "assert_response rp response rules =
     map (\<lambda>r. evaluate rp (extract_field response (as_field r)) (as_operator r) (as_expected r)) rules"

section \<open>One step\<close>

text \<open>What an adapter answers before the assertions, with the milliseconds it took, measured where it does
  not say.\<close>

record step_answer =
  sa_success :: bool
  sa_request :: pyv
  sa_response :: pyv
  sa_duration :: int

definition assertable :: "step_answer \<Rightarrow> config option" where
  "assertable a =
     (if \<not> truthy (sa_response a) then Some [(''duration_ms'', PInt (sa_duration a))]
      else case sa_response a of
             PDict d \<Rightarrow> Some (if ''duration_ms'' \<in> fst ` set d then d else d @ [(''duration_ms'', PInt (sa_duration a))])
           | _ \<Rightarrow> None)"

text \<open>\<open>None\<close> is an exception: the adapter's own, or that a response that is no dictionary cannot be asserted
  on. (\<open>dict\<close> would take a list of pairs; adapters answer no such list.)\<close>

definition execute_step ::
    "(pyv \<Rightarrow> string) \<Rightarrow> (string \<Rightarrow> string \<Rightarrow> pyv \<Rightarrow> 'w \<Rightarrow> step_answer option \<times> 'w) \<Rightarrow>
     string \<Rightarrow> string \<Rightarrow> pyv \<Rightarrow> assertion list \<Rightarrow> 'w \<Rightarrow> adapter_result option \<times> 'w" where
  "execute_step rp adapter t action payload rules w =
     (case adapter t action payload w of
        (None, w) \<Rightarrow> (None, w)
      | (Some a, w) \<Rightarrow>
          (let r = \<lparr>ar_success = sa_success a, ar_request = sa_request a, ar_response = sa_response a, ar_assertions = []\<rparr> in
           if rules = [] then (Some r, w)
           else (map_option (\<lambda>d. r\<lparr>ar_assertions := assert_response rp d rules\<rparr>) (assertable a), w)))"

section \<open>Inheritance between instances\<close>

lemma dict_set_keys: "set (map fst (dict_set k v d)) = insert k (set (map fst d))"
  by (induction k v d rule: dict_set.induct) auto

lemma distinct_dict_set: "distinct (map fst d) \<Longrightarrow> distinct (map fst (dict_set k v d))"
proof (induction k v d rule: dict_set.induct)
  case (2 k v k' v' d)
  have "fst ` set (dict_set k v d) = insert k (fst ` set d)" using dict_set_keys [of k v d] by simp
  then show ?case using 2 by auto
qed simp

lemma distinct_deep_merge: "distinct (map fst a) \<Longrightarrow> distinct (map fst (deep_merge a b))"
proof (induction b arbitrary: a)
  case (Cons kv b)
  then show ?case by (cases kv) (simp add: Cons.IH distinct_dict_set)
qed simp

lemma distinct_own: "distinct (map fst raw) \<Longrightarrow> distinct (map fst (own_config raw))"
  by (simp add: own_config_def distinct_map inj_on_def)

definition wf_env :: "env_config \<Rightarrow> bool" where
  "wf_env env \<longleftrightarrow> list_all (\<lambda>(k, c). distinct (map fst c)) (en_adapters env @ en_defaults env)"

lemma wf_config: "wf_env env \<Longrightarrow> map_of (en_adapters env) t = Some raw \<Longrightarrow> distinct (map fst raw)"
  by (auto simp: wf_env_def list_all_iff dest!: map_of_SomeD)

lemma wf_defaults: "wf_env env \<Longrightarrow> defaults_of env impl = Inr d \<Longrightarrow> distinct (map fst d)"
  by (auto simp: wf_env_def list_all_iff defaults_of_def config_of_def or_default_def
      split: pyv.splits option.splits dest!: map_of_SomeD)

lemma with_defaults_distinct:
  "wf_env env \<Longrightarrow> with_defaults env t parent raw = Inr c \<Longrightarrow> distinct (map fst c)"
  by (auto simp: with_defaults_def Let_def result_iff intro!: distinct_deep_merge dest: wf_defaults)

lemma config_for_distinct: "wf_env env \<Longrightarrow> config_for env seen t = Inr c \<Longrightarrow> distinct (map fst c)"
  by (subst (asm) config_for.simps)
    (auto simp: Let_def result_iff split: if_splits option.splits dest: with_defaults_distinct)

lemma own_lookup: "k \<noteq> ''extends'' \<Longrightarrow> map_of (own_config raw) k = map_of raw k"
  by (induction raw) (auto simp: own_config_def)

definition is_dict :: "pyv \<Rightarrow> bool" where
  "is_dict v \<longleftrightarrow> (case v of PDict d \<Rightarrow> True | _ \<Rightarrow> False)"

lemma merged_plain: "\<not> is_dict v \<Longrightarrow> merged_value old v = v"
  by (cases v) (simp_all add: is_dict_def)

lemma with_defaults_own:
  assumes "with_defaults env t parent raw = Inr c" and "distinct (map fst parent)" and "distinct (map fst raw)"
    and "k \<noteq> ''extends''" and "map_of raw k = Some v" and "\<not> is_dict v"
  shows "map_of c k = Some v"
proof -
  let ?m = "deep_merge parent (own_config raw)"
  obtain d where d: "c = deep_merge d ?m" using assms(1) by (auto simp: with_defaults_def Let_def result_iff)
  have "map_of ?m k = Some v"
    using assms distinct_own by (simp add: deep_merge_lookup own_lookup merged_plain)
  moreover have "distinct (map fst ?m)" using distinct_deep_merge assms(2) by blast
  ultimately show ?thesis using d assms(6) by (simp add: deep_merge_lookup merged_plain)
qed

text \<open>Whatever an instance sets itself, its parents and the defaults leave: every value that is no
  dictionary stands in the effective configuration.\<close>

theorem own_settings_win:
  assumes "wf_env env" and "config_for env [] t = Inr c" and "map_of (en_adapters env) t = Some raw"
    and "k \<noteq> ''extends''" and "map_of raw k = Some v" and "\<not> is_dict v"
  shows "map_of c k = Some v"
proof -
  obtain parent where p: "with_defaults env t parent raw = Inr c"
    "parent = [] \<or> (\<exists>q. config_for env [t] q = Inr parent)"
    using assms(2,3) by (subst (asm) config_for.simps) (auto simp: Let_def result_iff split: if_splits pyv.splits)
  then have "distinct (map fst parent)" using config_for_distinct assms(1) by auto
  then show ?thesis using with_defaults_own p(1) wf_config assms by blast
qed

text \<open>The parent of an instance, and the chains that never end.\<close>

definition parent_of :: "env_config \<Rightarrow> string \<Rightarrow> string option" where
  "parent_of env t =
     (case map_of (en_adapters env) t of
        None \<Rightarrow> None
      | Some raw \<Rightarrow> (case get raw ''extends'' PNone of PStr q \<Rightarrow> if q = [] then None else Some q | _ \<Rightarrow> None))"

definition extends :: "env_config \<Rightarrow> (string \<times> string) set" where
  "extends env = {(t, q). parent_of env t = Some q}"

lemma with_defaults_error: "with_defaults env t p raw = Inl e \<Longrightarrow> e = TypeError"
  by (auto simp: with_defaults_def Let_def result_iff defaults_of_def split: pyv.splits)

lemma config_for_ValueError:
  "config_for env seen t = Inl ValueError \<longleftrightarrow>
     t \<in> set seen \<or> (\<exists>q. parent_of env t = Some q \<and> config_for env (t # seen) q = Inl ValueError)"
proof (cases "map_of (en_adapters env) t")
  case None
  then show ?thesis
    by (subst config_for.simps) (auto simp: parent_of_def dest: with_defaults_error)
next
  case (Some raw)
  then show ?thesis
    by (subst config_for.simps)
      (auto simp: parent_of_def Let_def result_iff split: pyv.splits if_splits dest: with_defaults_error)
qed

lemma circular_if_seen:
  "config_for env seen t = Inl ValueError \<Longrightarrow> \<forall>s \<in> set seen. (s, t) \<in> (extends env)\<^sup>+ \<Longrightarrow>
     \<exists>s. (t, s) \<in> (extends env)\<^sup>* \<and> (s, s) \<in> (extends env)\<^sup>+"
proof (induction env seen t rule: config_for.induct)
  case (1 env seen t)
  show ?case
  proof (cases "t \<in> set seen")
    case True
    then show ?thesis using 1 by blast
  next
    case False
    then obtain q where q: "parent_of env t = Some q" "config_for env (t # seen) q = Inl ValueError"
      using 1 config_for_ValueError by blast
    have e: "(t, q) \<in> extends env" using q(1) by (simp add: extends_def)
    obtain raw where raw: "map_of (en_adapters env) t = Some raw" "get raw ''extends'' PNone = PStr q" "q \<noteq> []"
      using q(1) by (auto simp: parent_of_def split: option.splits pyv.splits if_splits)
    have "\<forall>s \<in> set (t # seen). (s, q) \<in> (extends env)\<^sup>+" using 1(3) e by auto
    then have "\<exists>s. (q, s) \<in> (extends env)\<^sup>* \<and> (s, s) \<in> (extends env)\<^sup>+"
      using "1.IH" [OF False raw(1) refl] raw q(2) by simp
    then show ?thesis using e by (meson converse_rtrancl_into_rtrancl)
  qed
qed

lemma circular_is_found:
  "(t, s) \<in> (extends env)\<^sup>* \<Longrightarrow> (s, s) \<in> (extends env)\<^sup>+ \<Longrightarrow> config_for env seen t = Inl ValueError"
proof (induction env seen t rule: config_for.induct)
  case (1 env seen t)
  show ?case
  proof (cases "t \<in> set seen")
    case True
    then show ?thesis using config_for_ValueError by blast
  next
    case False
    obtain q where q: "(t, q) \<in> extends env" "(q, s) \<in> (extends env)\<^sup>*"
    proof (cases "t = s")
      case True
      then show ?thesis using 1(3) that by (metis tranclD)
    next
      case False
      then show ?thesis using 1(2) that by (metis converse_rtranclE)
    qed
    obtain raw where raw: "map_of (en_adapters env) t = Some raw" "get raw ''extends'' PNone = PStr q" "q \<noteq> []"
      using q(1) by (auto simp: extends_def parent_of_def split: option.splits pyv.splits if_splits)
    have "config_for env (t # seen) q = Inl ValueError"
      using "1.IH" [OF False raw(1) refl] raw q(2) 1(3) by simp
    moreover have "parent_of env t = Some q" using q(1) by (simp add: extends_def)
    ultimately show ?thesis using config_for_ValueError by blast
  qed
qed

text \<open>Resolving a configuration always ends; it raises a \<open>ValueError\<close> exactly when the parents of the
  instance lead into a circle.\<close>

theorem circular_extends_iff:
  "config_for env [] t = Inl ValueError \<longleftrightarrow>
     (\<exists>s. (t, s) \<in> (extends env)\<^sup>* \<and> (s, s) \<in> (extends env)\<^sup>+)"
  using circular_if_seen circular_is_found by fastforce

definition demo_env :: env_config where
  "demo_env = \<lparr>en_adapters = [(''hsm_primary'', [(''adapter'', PStr ''tcp''), (''port'', PInt 1500)]),
       (''hsm_backup'', [(''extends'', PStr ''hsm_primary''), (''port'', PInt 1501)])],
     en_defaults = [(''tcp'', [(''port'', PInt 1), (''pool_size'', PInt 10)])]\<rparr>"

lemma demo_config:
  "config_for demo_env [] ''hsm_backup'' = Inr [(''port'', PInt 1501), (''pool_size'', PInt 10), (''adapter'', PStr ''tcp'')]"
  by (simp add: config_for.simps demo_env_def with_defaults_def own_config_def impl_of_def first_truthy_def
      defaults_of_def config_of_def Let_def)

theorem own_settings_win_witness:
  "map_of [(''port'', PInt 1501), (''pool_size'', PInt 10), (''adapter'', PStr ''tcp'')] ''port'' = Some (PInt 1501) \<and>
   wf_env demo_env"
proof
  show w: "wf_env demo_env" by (simp add: wf_env_def demo_env_def)
  show "map_of [(''port'', PInt 1501), (''pool_size'', PInt 10), (''adapter'', PStr ''tcp'')] ''port'' = Some (PInt 1501)"
    by (rule own_settings_win [OF w demo_config, of "[(''extends'', PStr ''hsm_primary''), (''port'', PInt 1501)]"]) (simp_all add: demo_env_def is_dict_def)
qed

text \<open>An instance that extends one whose name is its implementation does not find it: the name is not
  inherited, and the defaults of the parent's implementation stay when the child names another.\<close>

theorem implied_implementation_is_not_inherited:
  "(let env = \<lparr>en_adapters = [(''hsm'', [(''port'', PInt 1500)]), (''backup'', [(''extends'', PStr ''hsm'')])], en_defaults = []\<rparr> in
    map_option (impl_of ''hsm'') (case config_for env [] ''hsm'' of Inr c \<Rightarrow> Some c | _ \<Rightarrow> None) = Some (PStr ''hsm'') \<and>
    map_option (impl_of ''backup'') (case config_for env [] ''backup'' of Inr c \<Rightarrow> Some c | _ \<Rightarrow> None) = Some (PStr ''backup''))"
  by (simp add: config_for.simps with_defaults_def own_config_def impl_of_def first_truthy_def
      defaults_of_def config_of_def Let_def)

theorem parent_defaults_override_own:
  "(let env = \<lparr>en_adapters = [(''a'', [(''adapter'', PStr ''tcp'')]), (''b'', [(''extends'', PStr ''a''), (''adapter'', PStr ''http'')])],
              en_defaults = [(''tcp'', [(''timeout'', PInt 5)]), (''http'', [(''timeout'', PInt 30)])]\<rparr> in
    map_option (\<lambda>c. map_of c ''timeout'') (case config_for env [] ''b'' of Inr c \<Rightarrow> Some c | _ \<Rightarrow> None) = Some (Some (PInt 5)))"
  by (simp add: config_for.simps with_defaults_def own_config_def impl_of_def first_truthy_def
      defaults_of_def config_of_def Let_def)

text \<open>Assertions and the conditions of control nodes share the names of their operators and not the meaning:
  texts are ordered by the one and numbers only by the other, which also takes a text for its number.\<close>

theorem assertions_are_not_conditions:
  "evaluate rp (PStr ''b'') ''gt'' (PStr ''a'') \<and> \<not> compare ev (PStr ''b'') (PStr ''gt'') (PStr ''a'') \<and>
   \<not> evaluate rp (PStr ''5'') ''eq'' (PInt 5) \<and> compare ev (PStr ''5'') (PStr ''eq'') (PInt 5)"
proof -
  have f: "float_text (u ''b'') = None" "float_text (u ''5'') = Some 5" by code_simp+
  show ?thesis
    by (simp add: evaluate_def compare_def loose_eq_def f order_of_def Let_def)
qed

end
