(* ===== verification/Three_Phase.thy ===== *)
theory Three_Phase
  imports Graph_Walk Adapters Hub_Spec
begin

text \<open>
  A test run in three phases (\<open>WorkerEngine.run_scenario_batch\<close> of \<open>worker/engine/engine.py\<close>): health checks
  with one retry, fixtures before, component and integration scenarios, end-to-end scenarios, fixtures after;
  a scenario that touches a failed target is blocked. Which components are healthy is a parameter, and so is
  the order in which concurrent scenarios get at the outside world: only their results in the order of the
  scenarios count. Events, semaphores and the disconnecting at the end are left out.
\<close>

section \<open>The pieces\<close>

record job =
  jb_scenario :: scenario
  jb_class :: string
  jb_variables :: pyv
  jb_tables :: pyv

definition PHASE_2_CLASSES :: "string list" where
  "PHASE_2_CLASSES = [''component'', ''integration'']"

definition PHASE_3_CLASSES :: "string list" where
  "PHASE_3_CLASSES = [''e2e'']"

text \<open>The outside of a run: the health of every component, the second look at some of them, and the running of
  several scenarios at once.\<close>

record 'w outside =
  os_exec :: "'w exec"
  os_health :: "'w \<Rightarrow> (string \<times> bool) list \<times> 'w"
  os_retry :: "string list \<Rightarrow> 'w \<Rightarrow> (string \<times> bool) list \<times> 'w"
  os_together :: "job list \<Rightarrow> 'w \<Rightarrow> scenario_result list result \<times> 'w"

definition scenario_targets :: "scenario \<Rightarrow> string list" where
  "scenario_targets sc =
     map sp_target (filter (\<lambda>s. sp_kind s = ''action'' \<and> sp_target s \<noteq> []) (sn_steps sc))"

definition run_job :: "'w exec \<Rightarrow> job \<Rightarrow> 'w \<Rightarrow> scenario_result result \<times> 'w" where
  "run_job ex j w = runner_run ex (jb_scenario j) (jb_variables j) (jb_tables j) w"

text \<open>One possible order of concurrent scenarios: one after the other, up to the first exception.\<close>

fun one_by_one :: "'w exec \<Rightarrow> job list \<Rightarrow> 'w \<Rightarrow> scenario_result list result \<times> 'w" where
  "one_by_one ex [] w = (Inr [], w)"
| "one_by_one ex (j # js) w =
     (case run_job ex j w of
        (Inl e, w) \<Rightarrow> (Inl e, w)
      | (Inr r, w) \<Rightarrow> (case one_by_one ex js w of (rs, w) \<Rightarrow> (rbind rs (\<lambda>rs. Inr (r # rs)), w)))"

section \<open>A phase\<close>

definition touches :: "string list \<Rightarrow> job \<Rightarrow> bool" where
  "touches ts j \<longleftrightarrow> list_ex (\<lambda>t. t \<in> set ts) (scenario_targets (jb_scenario j))"

definition blocked_result :: scenario_result where
  "blocked_result = \<lparr>sr_status = Blocked, sr_steps = [], sr_notes = []\<rparr>"

definition newly_failed :: "scenario_result list \<Rightarrow> string list" where
  "newly_failed rs =
     concat (map (\<lambda>r. map oc_target (filter (\<lambda>oc. oc_status oc \<noteq> Passed) (sr_steps r)))
       (filter (\<lambda>r. sr_status r = Failed) rs))"

text \<open>The results of a phase, the blocked scenarios first, each with the scenario it is of.\<close>

definition run_phase ::
    "'w outside \<Rightarrow> job list \<Rightarrow> string list \<Rightarrow> 'w \<Rightarrow> ((job \<times> scenario_result) list \<times> string list) result \<times> 'w" where
  "run_phase os js failed_targets w =
     (let runnable = filter (\<lambda>j. \<not> touches failed_targets j) js in
      case os_together os runnable w of
        (Inl e, w) \<Rightarrow> (Inl e, w)
      | (Inr rs, w) \<Rightarrow>
          (Inr (map (\<lambda>j. (j, blocked_result)) (filter (touches failed_targets) js) @ zip runnable rs, newly_failed rs), w))"

datatype phase_status = Phase_Passed | Phase_Failed | Phase_Partial

record phase_summary =
  ps_status :: phase_status
  ps_total :: nat
  ps_passed :: nat
  ps_failed :: nat
  ps_blocked :: nat

definition count_status :: "status \<Rightarrow> scenario_result list \<Rightarrow> nat" where
  "count_status st rs = length (filter (\<lambda>r. sr_status r = st) rs)"

definition summary_of :: "scenario_result list \<Rightarrow> phase_summary" where
  "summary_of rs =
     (let n = length rs; p = count_status Passed rs; f = count_status Failed rs in
      \<lparr>ps_status = (if f \<noteq> 0 then Phase_Failed else if (n \<noteq> 0 \<and> p = n) \<or> n = 0 then Phase_Passed else Phase_Partial),
       ps_total = n, ps_passed = p, ps_failed = f, ps_blocked = count_status Blocked rs\<rparr>)"

section \<open>Fixtures\<close>

text \<open>Fixtures run one after the other; one that raises has failed.\<close>

definition fixture_error :: scenario_result where
  "fixture_error = \<lparr>sr_status = Failed, sr_steps = [], sr_notes = [''fixture_error'']\<rparr>"

fun run_fixtures :: "'w exec \<Rightarrow> job list \<Rightarrow> 'w \<Rightarrow> (job \<times> scenario_result) list \<times> 'w" where
  "run_fixtures ex [] w = ([], w)"
| "run_fixtures ex (j # js) w =
     (case run_job ex j w of
        (r, w) \<Rightarrow>
          (case run_fixtures ex js w of
             (rs, w) \<Rightarrow> ((j, case r of Inl e \<Rightarrow> fixture_error | Inr r \<Rightarrow> r) # rs, w)))"

section \<open>The run\<close>

definition unhealthy :: "(string \<times> bool) list \<Rightarrow> string list" where
  "unhealthy health = sorted_set (map fst (filter (\<lambda>th. \<not> snd th) health))"

record phase_1 =
  p1_passed :: bool
  p1_components :: nat
  p1_failed :: "string list"
  p1_recovered :: "string list"

text \<open>Phase 1: the components that stay unhealthy after the second look.\<close>

definition check_components :: "'w outside \<Rightarrow> 'w \<Rightarrow> phase_1 \<times> 'w" where
  "check_components os w =
     (case os_health os w of
        (health, w) \<Rightarrow>
          (let bad = unhealthy health in
           if bad = [] then (\<lparr>p1_passed = True, p1_components = length health, p1_failed = [], p1_recovered = []\<rparr>, w)
           else (case os_retry os bad w of
                   (again, w) \<Rightarrow>
                     (let up = sorted_set (map fst (filter snd again)); down = filter (\<lambda>t. t \<notin> set up) bad in
                      (\<lparr>p1_passed = (down = []), p1_components = length health, p1_failed = down, p1_recovered = up\<rparr>, w)))))"

record run_summary =
  rs_status :: status
  rs_phase_1 :: phase_1
  rs_phase_2 :: phase_summary
  rs_phase_3 :: phase_summary
  rs_before :: "(job \<times> scenario_result) list"
  rs_after :: "(job \<times> scenario_result) list"
  rs_scenarios :: "(job \<times> scenario_result) list"

definition in_class :: "string list \<Rightarrow> job \<Rightarrow> bool" where
  "in_class cs j \<longleftrightarrow> jb_class j \<in> set cs"

definition all_targets :: "job list \<Rightarrow> string list" where
  "all_targets js = concat (map (\<lambda>j. scenario_targets (jb_scenario j)) js)"

definition run_phases ::
    "'w outside \<Rightarrow> job list \<Rightarrow> string list \<Rightarrow> 'w \<Rightarrow>
      ((job \<times> scenario_result) list \<times> (job \<times> scenario_result) list) result \<times> 'w" where
  "run_phases os js failed w =
     (case run_phase os (filter (in_class PHASE_2_CLASSES) js) failed w of
        (Inl e, w) \<Rightarrow> (Inl e, w)
      | (Inr (rs2, newly), w) \<Rightarrow>
          (case run_phase os (filter (in_class PHASE_3_CLASSES) js) (failed @ newly) w of
             (r, w) \<Rightarrow> (rbind r (\<lambda>rs3. Inr (rs2, fst rs3)), w)))"

definition run_status :: "bool \<Rightarrow> status list \<Rightarrow> status" where
  "run_status phase_1_passed statuses =
     (if Failed \<in> set statuses \<or> \<not> phase_1_passed then Failed
      else if set statuses \<subseteq> {Passed, Blocked} then Passed else Failed)"

definition run_batch :: "'w outside \<Rightarrow> job list \<Rightarrow> job list \<Rightarrow> job list \<Rightarrow> 'w \<Rightarrow> run_summary result \<times> 'w" where
  "run_batch os befores afters js w =
     (case check_components os w of
        (p1, w) \<Rightarrow>
          (case (if p1_passed p1 then run_fixtures (os_exec os) befores w else ([], w)) of
             (before_rs, w) \<Rightarrow>
               (let bad = list_ex (\<lambda>jr. sr_status (snd jr) \<noteq> Passed) before_rs;
                    failed = p1_failed p1 @ (if bad then all_targets js else []) in
                case run_phases os js failed w of
                  (r, w) \<Rightarrow>
                    (case run_fixtures (os_exec os) afters w of
                       (after_rs, w) \<Rightarrow>
                         (rbind r (\<lambda>rs. Inr
                            (let all_rs = fst rs @ snd rs; ok = p1_passed p1 \<and> \<not> bad in
                             \<lparr>rs_status = run_status ok (map (sr_status \<circ> snd) all_rs),
                              rs_phase_1 = p1\<lparr>p1_passed := ok\<rparr>, rs_phase_2 = summary_of (map snd (fst rs)),
                              rs_phase_3 = summary_of (map snd (snd rs)), rs_before = before_rs, rs_after = after_rs,
                              rs_scenarios = all_rs\<rparr>)), w)))))"

section \<open>Schedules\<close>

text \<open>What any schedule of concurrent scenarios answers: a result for each, none of them blocked.\<close>

definition schedule_ok :: "'w outside \<Rightarrow> bool" where
  "schedule_ok os \<longleftrightarrow>
     (\<forall>js w. case fst (os_together os js w) of
        Inl e \<Rightarrow> True
      | Inr rs \<Rightarrow> length rs = length js \<and> list_all (\<lambda>r. sr_status r \<noteq> Blocked) rs)"

lemma run_job_verdict: "run_job ex j w = (Inr r, w') \<Longrightarrow> sr_status r = Passed \<or> sr_status r = Failed"
proof -
  assume a: "run_job ex j w = (Inr r, w')"
  let ?s = "run_scenario (caller_at MAX_CALL_DEPTH ex) ex (jb_scenario j) (jb_variables j) (jb_tables j) (ex_new_transaction ex w)"
  have "sr_status r = wk_status (snd ?s)"
    using a by (auto simp: run_job_def runner_run_def Let_def split: prod.splits signal.splits)
  then show ?thesis
    using ran [of "\<lambda>_. verdict_ok" "\<lambda>_. verdict_ok", OF verdict.walk_invariant_axioms, of "jb_scenario j"
        "caller_at MAX_CALL_DEPTH ex" ex "jb_variables j" "jb_tables j" "ex_new_transaction ex w"]
    by (auto simp: verdict_ok_def split: if_splits)
qed

lemma one_by_one_results:
  "fst (one_by_one ex js w) = Inr rs \<Longrightarrow> length rs = length js \<and> list_all (\<lambda>r. sr_status r \<noteq> Blocked) rs"
proof (induction js arbitrary: w rs)
  case (Cons j js)
  obtain r w1 where r: "run_job ex j w = (r, w1)" by (cases "run_job ex j w")
  obtain rs1 w2 where rs: "one_by_one ex js w1 = (rs1, w2)" by (cases "one_by_one ex js w1")
  obtain x xs where x: "r = Inr x" "rs1 = Inr xs" "rs = x # xs"
    using Cons.prems r rs by (cases r; cases rs1) simp_all
  then show ?case using Cons.IH [of w1 xs] rs run_job_verdict [of ex j w x w1] r by auto
qed simp

lemma one_by_one_ok: "schedule_ok (os\<lparr>os_together := one_by_one ex\<rparr>)"
  using one_by_one_results by (fastforce simp: schedule_ok_def split: sum.splits)

section \<open>Blocking\<close>

lemma run_phase_results:
  assumes "schedule_ok os" and "run_phase os js ts w = (Inr (rs, newly), w')"
  shows "\<And>j r. (j, r) \<in> set rs \<Longrightarrow> sr_status r = Blocked \<longleftrightarrow> touches ts j"
    and "mset (map fst rs) = mset js" and "newly = newly_failed (map snd rs)"
proof -
  define runnable where "runnable = filter (\<lambda>j. \<not> touches ts j) js"
  obtain xs where x: "fst (os_together os runnable w) = Inr xs"
    "rs = map (\<lambda>j. (j, blocked_result)) (filter (touches ts) js) @ zip runnable xs" "newly = newly_failed xs"
    using assms(2) by (auto simp: run_phase_def runnable_def Let_def split: prod.splits sum.splits)
  have "case fst (os_together os runnable w) of Inl e \<Rightarrow> True
      | Inr rs \<Rightarrow> length rs = length runnable \<and> list_all (\<lambda>r. sr_status r \<noteq> Blocked) rs"
    using assms(1) unfolding schedule_ok_def by blast
  then have ok: "length xs = length runnable" "\<forall>r \<in> set xs. sr_status r \<noteq> Blocked"
    using x(1) by (simp_all add: list_all_iff)
  show "sr_status r = Blocked \<longleftrightarrow> touches ts j" if "(j, r) \<in> set rs" for j r
  proof (cases "(j, r) \<in> set (zip runnable xs)")
    case True
    then have "j \<in> set runnable" "r \<in> set xs" by (meson set_zip_leftD set_zip_rightD)+
    then show ?thesis using ok(2) by (simp add: runnable_def)
  next
    case False
    then have "r = blocked_result \<and> touches ts j" using that x(2) by auto
    then show ?thesis by (simp add: blocked_result_def)
  qed
  have "newly_failed (map snd rs) = newly_failed xs"
    using x(2) ok(1) by (simp add: newly_failed_def blocked_result_def)
  then show "newly = newly_failed (map snd rs)" using x(3) by simp
  have "map fst rs = filter (touches ts) js @ runnable" using x(2) ok(1) by (simp add: comp_def)
  then show "mset (map fst rs) = mset js" by (simp add: runnable_def)
qed

section \<open>The whole run\<close>

text \<open>The parts of a run that returned.\<close>

lemma run_batchE:
  assumes "run_batch os befores afters js w = (Inr s, w')"
  obtains p1 w1 before_rs w2 rs2 newly w3 rs3 newly3 w4 where
    "check_components os w = (p1, w1)"
    "(if p1_passed p1 then run_fixtures (os_exec os) befores w1 else ([], w1)) = (before_rs, w2)"
    "run_phase os (filter (in_class PHASE_2_CLASSES) js)
       (p1_failed p1 @ (if list_ex (\<lambda>jr. sr_status (snd jr) \<noteq> Passed) before_rs then all_targets js else [])) w2 = (Inr (rs2, newly), w3)"
    "run_phase os (filter (in_class PHASE_3_CLASSES) js)
       ((p1_failed p1 @ (if list_ex (\<lambda>jr. sr_status (snd jr) \<noteq> Passed) before_rs then all_targets js else [])) @ newly) w3 = (Inr (rs3, newly3), w4)"
    "rs_scenarios s = rs2 @ rs3" "rs_before s = before_rs"
    "rs_phase_1 s = p1\<lparr>p1_passed := p1_passed p1 \<and> \<not> list_ex (\<lambda>jr. sr_status (snd jr) \<noteq> Passed) before_rs\<rparr>"
    "rs_status s = run_status (p1_passed (rs_phase_1 s)) (map (sr_status \<circ> snd) (rs2 @ rs3))"
    "rs_phase_2 s = summary_of (map snd rs2)" "rs_phase_3 s = summary_of (map snd rs3)"
proof -
  obtain p1 w1 where 1: "check_components os w = (p1, w1)" by (cases "check_components os w")
  obtain before_rs w2 where 2: "(if p1_passed p1 then run_fixtures (os_exec os) befores w1 else ([], w1)) = (before_rs, w2)"
    by (cases "if p1_passed p1 then run_fixtures (os_exec os) befores w1 else ([], w1)")
  let ?f = "p1_failed p1 @ (if list_ex (\<lambda>jr. sr_status (snd jr) \<noteq> Passed) before_rs then all_targets js else [])"
  obtain r w4 where 3: "run_phases os js ?f w2 = (r, w4)" by (cases "run_phases os js ?f w2")
  obtain after_rs w5 where 4: "run_fixtures (os_exec os) afters w4 = (after_rs, w5)"
    by (cases "run_fixtures (os_exec os) afters w4")
  have a: "rbind r (\<lambda>rs. Inr
      (let all_rs = fst rs @ snd rs; ok = p1_passed p1 \<and> \<not> list_ex (\<lambda>jr. sr_status (snd jr) \<noteq> Passed) before_rs in
       \<lparr>rs_status = run_status ok (map (sr_status \<circ> snd) all_rs),
        rs_phase_1 = p1\<lparr>p1_passed := ok\<rparr>, rs_phase_2 = summary_of (map snd (fst rs)),
        rs_phase_3 = summary_of (map snd (snd rs)), rs_before = before_rs, rs_after = after_rs,
        rs_scenarios = all_rs\<rparr>)) = Inr s"
    using assms 1 2 3 4 unfolding run_batch_def by (simp only: prod.case Let_def prod.inject)
  then obtain rs where rs: "r = Inr rs" by (auto simp: result_iff)
  obtain rs2 newly w3 rs3 newly3 where 5:
    "run_phase os (filter (in_class PHASE_2_CLASSES) js) ?f w2 = (Inr (rs2, newly), w3)"
    "run_phase os (filter (in_class PHASE_3_CLASSES) js) (?f @ newly) w3 = (Inr (rs3, newly3), w4)"
    "rs = (rs2, rs3)"
    using 3 rs unfolding run_phases_def by (auto simp: result_iff split: prod.splits sum.splits)
  show ?thesis
    by (rule that [OF 1 2 5(1,2)]) (use a rs 5(3) in \<open>auto simp: Let_def\<close>)
qed

lemma class_split:
  "mset (filter (in_class PHASE_2_CLASSES) js) + mset (filter (in_class PHASE_3_CLASSES) js) =
     mset (filter (in_class (PHASE_2_CLASSES @ PHASE_3_CLASSES)) js)"
  by (induction js) (auto simp: in_class_def PHASE_2_CLASSES_def PHASE_3_CLASSES_def)



text \<open>The fixtures after a run change its own fixtures and nothing else: not the verdict, not a scenario.\<close>

theorem after_fixtures_only_annotate:
  "(case (fst (run_batch os befores afters js w), fst (run_batch os befores [] js w)) of
      (Inr s, Inr s') \<Rightarrow> s\<lparr>rs_after := []\<rparr> = s'
    | (Inl e, Inl e') \<Rightarrow> e = e'
    | _ \<Rightarrow> False)"
proof -
  obtain p1 w1 where 1: "check_components os w = (p1, w1)" by (cases "check_components os w")
  obtain before_rs w2 where 2: "(if p1_passed p1 then run_fixtures (os_exec os) befores w1 else ([], w1)) = (before_rs, w2)"
    by (cases "if p1_passed p1 then run_fixtures (os_exec os) befores w1 else ([], w1)")
  let ?f = "p1_failed p1 @ (if list_ex (\<lambda>jr. sr_status (snd jr) \<noteq> Passed) before_rs then all_targets js else [])"
  obtain r w4 where 3: "run_phases os js ?f w2 = (r, w4)" by (cases "run_phases os js ?f w2")
  obtain after_rs w5 where 4: "run_fixtures (os_exec os) afters w4 = (after_rs, w5)"
    by (cases "run_fixtures (os_exec os) afters w4")
  show ?thesis unfolding run_batch_def using 1 2 3 4
    by (simp only: prod.case Let_def fst_conv run_fixtures.simps) (cases r; simp)
qed

text \<open>C30. A step passes exactly when its payload resolves, the adapter succeeds, and every assertion holds of the
  response.\<close>

theorem step_verdict:
  "(case run_step (ex\<lparr>ex_adapter := execute_step rp ad\<rparr>) s wk of
      (Inl e, wk') \<Rightarrow> True
    | (Inr oc, wk') \<Rightarrow>
        oc_status oc = Passed \<longleftrightarrow>
          (case resolve_value (ex_env ex) (wk_context wk) (sp_payload s) (wk_world wk) of
             (Inl e, w) \<Rightarrow> False
           | (Inr payload, w) \<Rightarrow>
               (case ad (sp_target s) (sp_action s) payload w of
                  (None, w) \<Rightarrow> False
                | (Some a, w) \<Rightarrow> sa_success a \<and>
                    (sp_assertions s = [] \<or>
                     (case assertable a of
                        None \<Rightarrow> False
                      | Some d \<Rightarrow> list_all (\<lambda>r. evaluate rp (extract_field d (as_field r)) (as_operator r) (as_expected r))
                          (sp_assertions s))))))"
  by (auto simp: run_step_def execute_step_def step_outcome_def assert_response_def list_all_iff Let_def
      split: prod.splits sum.splits option.splits py_error.splits)

section \<open>A run\<close>

definition job_on :: "string \<Rightarrow> string \<Rightarrow> string \<Rightarrow> job" where
  "job_on n cls t = \<lparr>jb_scenario = \<lparr>sn_id = n, sn_steps = [action_step ''a'' t], sn_edges = [], sn_stop_on_failure = True\<rparr>,
     jb_class = cls, jb_variables = PNone, jb_tables = PNone\<rparr>"

definition demo_os :: "unit outside" where
  "demo_os = \<lparr>os_exec = idle_world, os_health = (\<lambda>w. ([(''up'', True), (''db'', False)], w)),
     os_retry = (\<lambda>ts w. (map (\<lambda>t. (t, False)) ts, w)), os_together = one_by_one idle_world\<rparr>"

lemma demo_os_ok: "schedule_ok demo_os"
  using one_by_one_ok [of idle_world demo_os] by (simp add: demo_os_def)

definition demo_jobs :: "job list" where
  "demo_jobs = [job_on ''x'' ''e2e'' ''db'', job_on ''y'' ''integration'' ''up'', job_on ''z'' ''component'' ''down'',
     job_on ''v'' ''e2e'' ''down'']"

definition demo_batch :: run_summary where
  "demo_batch = (case fst (run_batch demo_os [] [] demo_jobs ()) of Inr s \<Rightarrow> s)"

lemmas batch_simps = run_batch_def check_components_def unhealthy_def sorted_set_def run_phases_def run_phase_def
  touches_def scenario_targets_def job_on_def in_class_def PHASE_2_CLASSES_def PHASE_3_CLASSES_def run_job_def
  newly_failed_def run_status_def blocked_result_def

lemma demo_batch_result:
  "\<exists>s w. run_batch demo_os [] [] demo_jobs () = (Inr s, w) \<and>
     map (\<lambda>jr. (sn_id (jb_scenario (fst jr)), sr_status (snd jr))) (rs_scenarios s) =
       [(''y'', Passed), (''z'', Failed), (''x'', Blocked), (''v'', Blocked)] \<and> rs_status s = Failed"
  by (auto simp: demo_os_def demo_jobs_def batch_simps run_simps display_target_def)

lemma demo_batch_run:
  obtains w where "run_batch demo_os [] [] demo_jobs () = (Inr demo_batch, w)"
  using demo_batch_result by (auto simp: demo_batch_def)



text \<open>A failed fixture blocks what touches a target; a scenario without action steps runs all the same.\<close>

theorem failed_fixture_blocks_only_targets:
  "\<exists>s w. run_batch (demo_os\<lparr>os_health := (\<lambda>w. ([], w))\<rparr>) [job_on ''f'' ''e2e'' ''down''] []
       [job_on ''x'' ''e2e'' ''up'', (job_on ''m'' ''e2e'' ''up'')\<lparr>jb_scenario :=
          \<lparr>sn_id = ''m'', sn_steps = [merge_step ''m''], sn_edges = [], sn_stop_on_failure = True\<rparr>\<rparr>] () = (Inr s, w) \<and>
     map (sr_status \<circ> snd) (rs_scenarios s) = [Blocked, Passed] \<and> rs_status s = Failed"
  by (auto simp: demo_os_def batch_simps run_simps display_target_def all_targets_def merge_step_def
      record_control_def node_outcome_def)

text \<open>A step pinned to an environment runs against \<open>base@env\<close> and reports \<open>base\<close>: when it fails, an end-to-end
  scenario on the same target runs, and one on the untouched base is blocked.\<close>

definition pinned :: "string \<Rightarrow> string \<Rightarrow> job" where
  "pinned n cls = \<lparr>jb_scenario = \<lparr>sn_id = n, sn_steps = [(action_step ''a'' ''db@uat'')\<lparr>sp_config := [(''_environment_override'', PStr ''uat'')]\<rparr>],
     sn_edges = [], sn_stop_on_failure = True\<rparr>, jb_class = cls, jb_variables = PNone, jb_tables = PNone\<rparr>"

definition uat_down :: "unit exec" where
  "uat_down = idle_world\<lparr>ex_adapter := (\<lambda>t a p as w. (if t = ''db@uat'' then None
     else Some \<lparr>ar_success = True, ar_request = p, ar_response = PNone, ar_assertions = []\<rparr>, w))\<rparr>"

theorem pinned_failure_blocks_base:
  "\<exists>s w. run_batch \<lparr>os_exec = uat_down, os_health = (\<lambda>w. ([], w)), os_retry = (\<lambda>ts w. ([], w)), os_together = one_by_one uat_down\<rparr> [] []
       [pinned ''p'' ''integration'', pinned ''q'' ''e2e'', job_on ''b'' ''e2e'' ''db''] () = (Inr s, w) \<and>
     map (\<lambda>jr. (sn_id (jb_scenario (fst jr)), sr_status (snd jr))) (rs_scenarios s) =
       [(''p'', Failed), (''b'', Blocked), (''q'', Failed)]"
  by (auto simp: pinned_def uat_down_def batch_simps run_simps display_target_def before_last_at_def)

section \<open>One runner for concurrent scenarios\<close>

text \<open>
  The scenarios of a phase share one \<open>ScenarioRunner\<close>, and with it its list of cleanups and the result they
  are reported to: starting a run resets both, a step that succeeds appends to the list, and a run that ends
  takes the whole list. What a schedule does to them:
\<close>

datatype runner_event = Starts nat | Registers cleanup | Ends nat

record shared_runner =
  sh_pending :: "cleanup list"
  sh_result :: nat
  sh_executed :: "(nat \<times> cleanup) list"

fun runner_step :: "shared_runner \<Rightarrow> runner_event \<Rightarrow> shared_runner" where
  "runner_step r (Starts i) = r\<lparr>sh_pending := [], sh_result := i\<rparr>"
| "runner_step r (Registers c) = r\<lparr>sh_pending := sh_pending r @ [c]\<rparr>"
| "runner_step r (Ends i) =
     r\<lparr>sh_pending := [], sh_executed := sh_executed r @ map (\<lambda>c. (sh_result r, c)) (rev (sh_pending r))\<rparr>"

definition fresh_runner :: shared_runner where
  "fresh_runner = \<lparr>sh_pending = [], sh_result = 0, sh_executed = []\<rparr>"

definition run_events :: "nat \<Rightarrow> cleanup list \<Rightarrow> runner_event list" where
  "run_events i cs = Starts i # map Registers cs @ [Ends i]"

lemma registered: "foldl runner_step r (map Registers cs) = r\<lparr>sh_pending := sh_pending r @ cs\<rparr>"
  by (induction cs arbitrary: r) simp_all

lemma one_run:
  "foldl runner_step r (run_events i cs) =
     r\<lparr>sh_pending := [], sh_result := i, sh_executed := sh_executed r @ map (\<lambda>c. (i, c)) (rev cs)\<rparr>"
  by (simp add: run_events_def registered)

text \<open>Runs that do not overlap execute every cleanup they registered, once, backwards, and report it to their
  own result.\<close>

theorem separate_runs_clean_up:
  "sh_executed (foldl runner_step fresh_runner (concat (map (\<lambda>(i, cs). run_events i cs) runs))) =
     concat (map (\<lambda>(i, cs). map (\<lambda>c. (i, c)) (rev cs)) runs)"
proof -
  have "sh_executed (foldl runner_step r (concat (map (\<lambda>(i, cs). run_events i cs) runs))) =
      sh_executed r @ concat (map (\<lambda>(i, cs). map (\<lambda>c. (i, c)) (rev cs)) runs)" for r
    by (induction runs arbitrary: r) (auto simp: one_run)
  then show ?thesis by (simp add: fresh_runner_def)
qed

text \<open>Runs that overlap do not: a run that starts drops what another has registered, or is reported its
  cleanups.\<close>

theorem overlapping_runs_lose_cleanups:
  "sh_executed (foldl runner_step fresh_runner [Starts 0, Registers c, Starts 1, Ends 0, Ends 1]) = [] \<and>
   sh_executed (foldl runner_step fresh_runner [Starts 0, Starts 1, Registers c, Ends 0, Ends 1]) = [(1, c)]"
  by (simp add: fresh_runner_def)

end
