(* ===== verification/Pin_Crypto.thy ===== *)
theory Pin_Crypto
  imports Py_Values
begin

text \<open>
  Payment cryptography of the worker (\<open>worker/engine/crypto_tools.py\<close>), first part: PIN blocks, retail MAC,
  card verification values, PIN verification by PVV and by IBM 3624 offsets, EMV cryptograms and keys. The
  block ciphers are the library's: \<open>crypto_lib\<close> says what they answer for a key and data, or that they raise a
  \<open>ValueError\<close>. Random fill is an argument, the characters drawn.
\<close>

unbundle bit_operations_syntax

section \<open>Bytes and ciphers\<close>

datatype cipher = DES | DES3 | AES

record crypto_lib =
  cl_ecb :: "cipher \<Rightarrow> bool \<Rightarrow> byte list \<Rightarrow> byte list \<Rightarrow> byte list result"
  cl_cbc :: "cipher \<Rightarrow> bool \<Rightarrow> byte list \<Rightarrow> byte list \<Rightarrow> byte list \<Rightarrow> byte list result"

text \<open>What the properties ask of the library: lengths stay, and decrypting undoes encrypting.\<close>

definition invertible :: "crypto_lib \<Rightarrow> bool" where
  "invertible cl \<longleftrightarrow>
     (\<forall>a enc key x. case cl_ecb cl a enc key x of
        Inl e \<Rightarrow> True
      | Inr y \<Rightarrow> length y = length x \<and> (enc \<longrightarrow> cl_ecb cl a False key y = Inr x))"

lemma invertibleD:
  assumes "invertible cl" and "cl_ecb cl a enc key x = Inr y"
  shows "length y = length x" and "enc \<Longrightarrow> cl_ecb cl a False key y = Inr x"
proof -
  have "case cl_ecb cl a enc key x of Inl e \<Rightarrow> True
      | Inr y \<Rightarrow> length y = length x \<and> (enc \<longrightarrow> cl_ecb cl a False key y = Inr x)"
    using assms(1) unfolding invertible_def by blast
  then show "length y = length x" and "enc \<Longrightarrow> cl_ecb cl a False key y = Inr x" using assms(2) by simp_all
qed

definition xor_bytes :: "byte list \<Rightarrow> byte list \<Rightarrow> byte list" where
  "xor_bytes = map2 (XOR)"

lemma length_xor_bytes [simp]: "length (xor_bytes a b) = min (length a) (length b)"
  by (simp add: xor_bytes_def)

lemma xor_bytes_twice: "length a \<le> length b \<Longrightarrow> xor_bytes (xor_bytes a b) b = a"
  by (rule nth_equalityI) (simp_all add: xor_bytes_def xor.assoc)

definition hx :: "ustr \<Rightarrow> byte list result" where
  "hx s = of_option ValueError (fromhex (filter (\<lambda>c. \<not> is_ws c) s))"

definition ecb :: "crypto_lib \<Rightarrow> byte list \<Rightarrow> bool \<Rightarrow> byte list \<Rightarrow> byte list result" where
  "ecb cl key enc x = cl_ecb cl (if length key = 8 then DES else DES3) enc key x"

definition des_block :: "crypto_lib \<Rightarrow> byte list \<Rightarrow> byte list \<Rightarrow> bool \<Rightarrow> byte list result" where
  "des_block cl key x enc = cl_ecb cl DES enc key x"

definition zeros :: "nat \<Rightarrow> byte list" where
  "zeros n = replicate n 0"

text \<open>\<open>b.rjust(n, b"\\x00")\<close>, and \<open>s.rjust(n, "0")\<close>, \<open>s.ljust(n, "0")\<close>.\<close>

definition rjust_bytes :: "nat \<Rightarrow> byte list \<Rightarrow> byte list" where
  "rjust_bytes n b = zeros (n - length b) @ b"

definition rjust :: "nat \<Rightarrow> ustr \<Rightarrow> ustr" where
  "rjust n s = replicate (n - length s) 48 @ s"

definition ljust :: "nat \<Rightarrow> ustr \<Rightarrow> ustr" where
  "ljust n s = s @ replicate (n - length s) 48"

definition digits_in :: "ustr \<Rightarrow> ustr" where
  "digits_in s = filter py_isdigit_char s"

text \<open>\<open>s[-n:]\<close> for a positive \<open>n\<close>.\<close>

definition last_chars :: "nat \<Rightarrow> 'a list \<Rightarrow> 'a list" where
  "last_chars n s = drop (length s - n) s"

section \<open>DES and key check values\<close>

definition cipher_op :: "crypto_lib \<Rightarrow> cipher \<Rightarrow> byte list \<Rightarrow> byte list \<Rightarrow> string \<Rightarrow> string \<Rightarrow> byte list \<Rightarrow> ustr result" where
  "cipher_op cl a key x op mode iv =
     rbind (if mode = ''cbc'' then cl_cbc cl a (op = ''encrypt'') key iv x else cl_ecb cl a (op = ''encrypt'') key x)
       (\<lambda>y. Inr (hex_upper y))"

definition iv_or_zeros :: "nat \<Rightarrow> ustr \<Rightarrow> byte list result" where
  "iv_or_zeros n iv_hex = (if iv_hex = [] then Inr (zeros n) else hx iv_hex)"

definition des_tool :: "crypto_lib \<Rightarrow> ustr \<Rightarrow> ustr \<Rightarrow> string \<Rightarrow> string \<Rightarrow> ustr \<Rightarrow> ustr result" where
  "des_tool cl key_hex data_hex op mode iv_hex =
     rbind (hx key_hex) (\<lambda>key. rbind (hx data_hex) (\<lambda>x. rbind (iv_or_zeros 8 iv_hex) (\<lambda>iv.
       cipher_op cl (if length key = 8 then DES else DES3) key x op mode iv)))"

definition aes_tool :: "crypto_lib \<Rightarrow> ustr \<Rightarrow> ustr \<Rightarrow> string \<Rightarrow> string \<Rightarrow> ustr \<Rightarrow> ustr result" where
  "aes_tool cl key_hex data_hex op mode iv_hex =
     rbind (hx key_hex) (\<lambda>key. rbind (hx data_hex) (\<lambda>x. rbind (iv_or_zeros 16 iv_hex) (\<lambda>iv.
       cipher_op cl AES key x op mode iv)))"

text \<open>The three bytes shown, and all eight.\<close>

definition kcv :: "crypto_lib \<Rightarrow> ustr \<Rightarrow> (ustr \<times> ustr) result" where
  "kcv cl key_hex =
     rbind (hx key_hex) (\<lambda>key. rbind (ecb cl key True (zeros 8)) (\<lambda>y. Inr (take 6 (hex_upper y), hex_upper y)))"

section \<open>PIN blocks of formats 0, 1 and 3\<close>

definition ISO_PIN_FORMATS :: "string list" where
  "ISO_PIN_FORMATS = [''0'', ''1'', ''3'']"

definition fmt_uses_pan :: "string \<Rightarrow> bool" where
  "fmt_uses_pan fmt \<longleftrightarrow> fmt = ''0'' \<or> fmt = ''3''"

text \<open>\<open>format(n, "X")\<close>.\<close>

fun hex_number :: "nat \<Rightarrow> ustr" where
  "hex_number n = (if n < 16 then [hexdigit n] else hex_number (n div 16) @ [hexdigit (n mod 16)])"

declare hex_number.simps [simp del]

text \<open>\<open>rnd\<close> holds the characters drawn: letters for format 3, sixteen hexadecimal digits for format 1. A PIN too
  long leaves a negative fill, which cuts from the end; the field is cut to 16 digits all the same.\<close>

definition pin_body :: "ustr \<Rightarrow> string \<Rightarrow> ustr" where
  "pin_body pin fmt = u (if fmt \<in> set ISO_PIN_FORMATS then fmt else ''0'') @ hex_number (length pin) @ pin"

definition pin_pad :: "ustr \<Rightarrow> string \<Rightarrow> nat \<Rightarrow> ustr" where
  "pin_pad rnd fmt n = (if fmt = ''3'' \<or> fmt = ''1'' then take n rnd else replicate n 70)"

definition pin_field :: "ustr \<Rightarrow> ustr \<Rightarrow> string \<Rightarrow> byte list result" where
  "pin_field rnd pin fmt =
     (let body = pin_body pin fmt in hx (take 16 (body @ pin_pad rnd fmt (16 - length body))))"

definition pan_field :: "ustr \<Rightarrow> byte list result" where
  "pan_field pan =
     (let ds = digits_in pan; acct = drop (length ds - 13) (butlast ds) in hx (u ''0000'' @ rjust 12 acct))"

text \<open>The clear block and the enciphered one.\<close>

definition with_pan :: "string \<Rightarrow> ustr \<Rightarrow> byte list \<Rightarrow> byte list result" where
  "with_pan fmt pan x = (if fmt_uses_pan fmt then rbind (pan_field pan) (\<lambda>p. Inr (xor_bytes x p)) else Inr x)"

definition pin_block_encode :: "crypto_lib \<Rightarrow> ustr \<Rightarrow> ustr \<Rightarrow> ustr \<Rightarrow> ustr \<Rightarrow> string \<Rightarrow> (ustr \<times> ustr) result" where
  "pin_block_encode cl rnd pin pan key_hex fmt =
     rbind (pin_field rnd pin fmt) (\<lambda>field. rbind (with_pan fmt pan field) (\<lambda>clear.
     rbind (hx key_hex) (\<lambda>key. rbind (ecb cl key True clear) (\<lambda>enc.
       Inr (hex_upper clear, hex_upper enc)))))"

text \<open>\<open>int(pf[1], 16)\<close> of an upper case text of bytes, and the PIN; too short a text gives no PIN.\<close>

definition pin_of_field :: "ustr \<Rightarrow> ustr" where
  "pin_of_field pf =
     (if length pf < 2 then [] else case hexval (pf ! 1) of None \<Rightarrow> [] | Some n \<Rightarrow> take n (drop 2 pf))"

definition pin_block_decode :: "crypto_lib \<Rightarrow> ustr \<Rightarrow> ustr \<Rightarrow> ustr \<Rightarrow> string \<Rightarrow> (ustr \<times> ustr) result" where
  "pin_block_decode cl block_hex pan key_hex fmt =
     rbind (hx key_hex) (\<lambda>key. rbind (hx block_hex) (\<lambda>block. rbind (ecb cl key False block) (\<lambda>clear.
     rbind (with_pan fmt pan clear) (\<lambda>field.
       Inr (pin_of_field (hex_upper field), hex_upper clear)))))"

section \<open>PIN blocks of format 4\<close>

definition iso4_pin_field :: "ustr \<Rightarrow> ustr \<Rightarrow> byte list result" where
  "iso4_pin_field rnd pin =
     (let pin = digits_in pin in
      if length pin < 4 \<or> 12 < length pin then Inl ValueError
      else hx (u ''4'' @ hex_number (length pin) @ pin @ replicate (14 - length pin) 65 @ rnd))"

definition iso4_pan_field :: "ustr \<Rightarrow> byte list result" where
  "iso4_pan_field pan =
     (let ds = (if digits_in pan = [] then u ''0'' else digits_in pan) in
      hx (take 32 (ljust 32 (dec (length ds - 12) @ rjust 12 ds))))"

definition pin_block_iso4_encode :: "crypto_lib \<Rightarrow> ustr \<Rightarrow> ustr \<Rightarrow> ustr \<Rightarrow> ustr \<Rightarrow> ustr result" where
  "pin_block_iso4_encode cl rnd pin pan key_hex =
     rbind (hx key_hex) (\<lambda>key. rbind (iso4_pin_field rnd pin) (\<lambda>field. rbind (cl_ecb cl AES True key field) (\<lambda>a.
     rbind (iso4_pan_field pan) (\<lambda>p. rbind (cl_ecb cl AES True key (xor_bytes a p)) (\<lambda>block.
       Inr (hex_upper block))))))"

definition iso4_pin_of_field :: "ustr \<Rightarrow> ustr" where
  "iso4_pin_of_field field =
     (if take 1 field = u ''4'' \<and> 2 \<le> length field
      then (case hexval (field ! 1) of
              Some n \<Rightarrow> if 4 \<le> n \<and> n \<le> 12 then take n (drop 2 field) else []
            | None \<Rightarrow> [])
      else [])"

definition pin_block_iso4_decode :: "crypto_lib \<Rightarrow> ustr \<Rightarrow> ustr \<Rightarrow> ustr \<Rightarrow> (ustr \<times> ustr) result" where
  "pin_block_iso4_decode cl block_hex pan key_hex =
     rbind (hx key_hex) (\<lambda>key. rbind (hx block_hex) (\<lambda>block. rbind (cl_ecb cl AES False key block) (\<lambda>b.
     rbind (iso4_pan_field pan) (\<lambda>p. rbind (cl_ecb cl AES False key (xor_bytes b p)) (\<lambda>field.
       Inr (iso4_pin_of_field (hex_upper field), hex_upper field))))))"

section \<open>Retail MAC\<close>

text \<open>Padding method 2: a bit, then zeros to the next block.\<close>

definition pad_m2 :: "byte list \<Rightarrow> byte list" where
  "pad_m2 x = x @ [128] @ zeros ((8 - (length x + 1) mod 8) mod 8)"

fun chunks :: "nat \<Rightarrow> 'a list \<Rightarrow> 'a list list" where
  "chunks n [] = []"
| "chunks 0 (x # xs) = []"
| "chunks (Suc n) (x # xs) = take (Suc n) (x # xs) # chunks (Suc n) (drop n xs)"

fun cbc_mac :: "(byte list \<Rightarrow> byte list result) \<Rightarrow> byte list \<Rightarrow> byte list list \<Rightarrow> byte list result" where
  "cbc_mac enc h [] = Inr h"
| "cbc_mac enc h (b # bs) = rbind (enc (xor_bytes h b)) (\<lambda>h. cbc_mac enc h bs)"

text \<open>\<open>key[8:16] or key[:8]\<close>.\<close>

definition second_key :: "byte list \<Rightarrow> byte list" where
  "second_key key = (if take 8 (drop 8 key) = [] then take 8 key else take 8 (drop 8 key))"

definition retail_mac_of :: "crypto_lib \<Rightarrow> byte list \<Rightarrow> byte list \<Rightarrow> byte list result" where
  "retail_mac_of cl key x =
     (let k1 = take 8 key; k2 = second_key key in
      rbind (cbc_mac (\<lambda>b. des_block cl k1 b True) (zeros 8) (chunks 8 (pad_m2 x))) (\<lambda>h.
      rbind (des_block cl k2 h False) (\<lambda>h. des_block cl k1 h True)))"

definition retail_mac :: "crypto_lib \<Rightarrow> ustr \<Rightarrow> ustr \<Rightarrow> ustr result" where
  "retail_mac cl key_hex data_hex =
     rbind (hx key_hex) (\<lambda>key. rbind (hx data_hex) (\<lambda>x. rbind (retail_mac_of cl key x) (\<lambda>h. Inr (hex_upper h))))"

section \<open>Card verification values\<close>

text \<open>The digits first, then the letters from 0.\<close>

definition digits_then_letters :: "ustr \<Rightarrow> ustr" where
  "digits_then_letters h = filter is_dec h @ map (\<lambda>c. 48 + (c - 65)) (filter (\<lambda>c. \<not> is_dec c) h)"

definition cvv :: "crypto_lib \<Rightarrow> ustr \<Rightarrow> ustr \<Rightarrow> ustr \<Rightarrow> ustr \<Rightarrow> ustr result" where
  "cvv cl pan expiry service_code cvk_hex =
     rbind (hx cvk_hex) (\<lambda>cvk.
       (let a = take 8 cvk; b = second_key cvk; block = take 32 (ljust 32 (pan @ expiry @ service_code)) in
        rbind (hx (take 16 block)) (\<lambda>b1. rbind (hx (drop 16 block)) (\<lambda>b2.
        rbind (des_block cl a b1 True) (\<lambda>r. rbind (des_block cl a (xor_bytes r b2) True) (\<lambda>r.
        rbind (des_block cl b r False) (\<lambda>r. rbind (des_block cl a r True) (\<lambda>r.
          Inr (take 3 (digits_then_letters (hex_upper r)))))))))))"

section \<open>EMV cryptograms and keys\<close>

text \<open>\<open>_match\<close>: the value expected and whether it is the one computed, when one is expected.\<close>

definition match_of :: "ustr \<Rightarrow> ustr \<Rightarrow> (ustr \<times> bool) option" where
  "match_of got expected =
     (if expected = [] then None
      else (let want = py_upper (filter (\<lambda>c. \<not> is_ws c) expected) in Some (want, got = want)))"

definition arqc :: "crypto_lib \<Rightarrow> ustr \<Rightarrow> ustr \<Rightarrow> ustr \<Rightarrow> (ustr \<times> (ustr \<times> bool) option) result" where
  "arqc cl key_hex data_hex expected =
     rbind (retail_mac cl key_hex data_hex) (\<lambda>m. Inr (m, match_of m expected))"

definition arpc ::
    "crypto_lib \<Rightarrow> ustr \<Rightarrow> ustr \<Rightarrow> ustr \<Rightarrow> ustr \<Rightarrow> ustr \<Rightarrow> string \<Rightarrow> ustr \<Rightarrow> (ustr \<times> (ustr \<times> bool) option) result" where
  "arpc cl session_key_hex arqc_hex arc_hex csu_hex proprietary_hex method expected =
     rbind (hx session_key_hex) (\<lambda>sk. rbind (hx arqc_hex) (\<lambda>aq.
     rbind (if method = ''2''
            then rbind (hx csu_hex) (\<lambda>csu. rbind (hx proprietary_hex) (\<lambda>p.
                   rbind (retail_mac_of cl sk (aq @ csu @ p)) (\<lambda>m. Inr (take 8 (hex_upper m)))))
            else rbind (hx arc_hex) (\<lambda>arc.
                   rbind (ecb cl sk True (xor_bytes aq (take 8 (arc @ zeros 8)))) (\<lambda>y. Inr (hex_upper y))))
       (\<lambda>v. Inr (v, match_of v expected))))"

definition emv_icc_mk :: "crypto_lib \<Rightarrow> ustr \<Rightarrow> ustr \<Rightarrow> ustr \<Rightarrow> ustr result" where
  "emv_icc_mk cl mdk_hex pan psn =
     rbind (hx mdk_hex) (\<lambda>mdk.
     rbind (hx (rjust 16 (last_chars 16 (digits_in (pan @ (if psn = [] then u ''00'' else psn)))))) (\<lambda>block.
     rbind (ecb cl mdk True block) (\<lambda>zl. rbind (ecb cl mdk True (xor_bytes block (replicate 8 255))) (\<lambda>zr.
       Inr (hex_upper (zl @ zr))))))"

definition emv_session_key :: "crypto_lib \<Rightarrow> ustr \<Rightarrow> ustr \<Rightarrow> ustr result" where
  "emv_session_key cl mk_hex atc_hex =
     rbind (hx mk_hex) (\<lambda>mk. rbind (hx (zfill 4 atc_hex)) (\<lambda>a.
       (let atc = rjust_bytes 2 (take 2 a) in
        rbind (ecb cl mk True (atc @ [240, 0, 0, 0, 0, 0])) (\<lambda>skl.
        rbind (ecb cl mk True (atc @ [15, 0, 0, 0, 0, 0])) (\<lambda>skr.
          Inr (hex_upper (skl @ skr)))))))"

section \<open>PIN verification\<close>

definition pvv :: "crypto_lib \<Rightarrow> ustr \<Rightarrow> ustr \<Rightarrow> ustr \<Rightarrow> ustr \<Rightarrow> ustr result" where
  "pvv cl pan pin pvki pvk_hex =
     (let eleven = rjust 11 (last_chars 11 (butlast (digits_in pan)));
          tsp = eleven @ (if pvki = [] then [48] else take 1 pvki) @ take 4 (digits_in pin) in
      rbind (hx pvk_hex) (\<lambda>key. rbind (hx tsp) (\<lambda>x. rbind (ecb cl key True x) (\<lambda>y.
        (let h = hex_upper y in
         Inr (take 4 (if length (filter is_dec h) < 4 then digits_then_letters h else filter is_dec h)))))))"

definition DEFAULT_DEC_TABLE :: ustr where
  "DEFAULT_DEC_TABLE = u ''0123456789012345''"

text \<open>The digits of a text in hexadecimal, each through the table.\<close>

definition decimalise :: "ustr \<Rightarrow> ustr \<Rightarrow> ustr" where
  "decimalise h table =
     (let t = ljust 16 (take 16 (if table = [] then DEFAULT_DEC_TABLE else table)) in
      map (\<lambda>c. t ! (case hexval c of Some n \<Rightarrow> n | None \<Rightarrow> 0)) h)"

definition ibm3624_natural :: "crypto_lib \<Rightarrow> ustr \<Rightarrow> ustr \<Rightarrow> ustr \<Rightarrow> ustr result" where
  "ibm3624_natural cl validation_data pvk_hex table =
     rbind (hx pvk_hex) (\<lambda>key. rbind (hx (take 16 (ljust 16 validation_data))) (\<lambda>x.
     rbind (ecb cl key True x) (\<lambda>y. Inr (decimalise (hex_upper y) table))))"

text \<open>The natural PIN of some length, at least one digit, and all of it.\<close>

definition ibm3624_pin :: "crypto_lib \<Rightarrow> ustr \<Rightarrow> ustr \<Rightarrow> ustr \<Rightarrow> int \<Rightarrow> (ustr \<times> ustr) result" where
  "ibm3624_pin cl validation_data pvk_hex table pin_len =
     rbind (ibm3624_natural cl validation_data pvk_hex table) (\<lambda>n. Inr (take (nat (max 1 pin_len)) n, n))"

text \<open>\<open>str((int(a) + int(b)) % 10)\<close> and the difference, digit by digit.\<close>

fun digitwise :: "(int \<Rightarrow> int \<Rightarrow> int) \<Rightarrow> ustr \<Rightarrow> ustr \<Rightarrow> ustr result" where
  "digitwise f [] ys = Inr []"
| "digitwise f (x # xs) [] = Inr []"
| "digitwise f (x # xs) (y # ys) =
     rbind (py_int [x]) (\<lambda>a. rbind (py_int [y]) (\<lambda>b. rbind (digitwise f xs ys) (\<lambda>zs.
       Inr ((48 + nat (f (int a) (int b) mod 10)) # zs))))"

definition ibm3624_offset :: "crypto_lib \<Rightarrow> ustr \<Rightarrow> ustr \<Rightarrow> ustr \<Rightarrow> ustr \<Rightarrow> (ustr \<times> ustr) result" where
  "ibm3624_offset cl validation_data pvk_hex pin table =
     (let pin = digits_in pin in
      rbind (ibm3624_pin cl validation_data pvk_hex table (int (length pin))) (\<lambda>(natural, full).
      rbind (digitwise (-) pin natural) (\<lambda>off. Inr (off, natural))))"

definition ibm3624_verify :: "crypto_lib \<Rightarrow> ustr \<Rightarrow> ustr \<Rightarrow> ustr \<Rightarrow> ustr \<Rightarrow> ustr \<Rightarrow> (ustr \<times> bool) result" where
  "ibm3624_verify cl validation_data pvk_hex off pin table =
     (let off = digits_in off; pin = digits_in pin in
      rbind (ibm3624_pin cl validation_data pvk_hex table (int (length off))) (\<lambda>(natural, full).
      rbind (digitwise (+) natural off) (\<lambda>derived. Inr (derived, derived \<noteq> [] \<and> derived = pin))))"

section \<open>Hexadecimal texts\<close>

lemma is_dec_hex: "is_dec c \<Longrightarrow> is_upper_hex c"
  by (simp add: is_dec_def is_upper_hex_def)

lemma upper_hex_not_ws: "is_upper_hex c \<Longrightarrow> \<not> is_ws c"
  by (auto simp: is_upper_hex_def is_ws_def)

lemma hx_no_ws: "\<forall>c \<in> set s. \<not> is_ws c \<Longrightarrow> hx s = of_option ValueError (fromhex s)"
  by (simp add: hx_def filter_True)

lemma hx_hex_upper [simp]: "hx (hex_upper bs) = Inr bs"
  using hex_upper_is_upper upper_hex_not_ws by (subst hx_no_ws) (auto simp: fromhex_hex_upper)

lemma fromhex_length: "fromhex s = Some bs \<Longrightarrow> \<forall>c \<in> set s. \<not> is_space c \<Longrightarrow> 2 * length bs = length s"
  by (induction s arbitrary: bs rule: fromhex.induct) (auto split: if_splits option.splits)

lemma space_is_ws: "is_space c \<Longrightarrow> is_ws c"
  by (auto simp: is_space_def is_ws_def)

lemma hx_length:
  assumes "hx s = Inr bs" and "\<forall>c \<in> set s. \<not> is_ws c"
  shows "2 * length bs = length s"
proof -
  have "fromhex s = Some bs" using assms by (simp add: hx_no_ws result_iff)
  then show ?thesis by (rule fromhex_length) (use assms(2) space_is_ws in blast)
qed

lemma hx_hex_text:
  assumes "hx s = Inr bs" and "\<forall>c \<in> set s. is_upper_hex c"
  shows "hex_upper bs = s"
proof -
  have n: "\<forall>c \<in> set s. \<not> is_ws c" using assms(2) upper_hex_not_ws by blast
  have "even (length s)" using hx_length [OF assms(1) n] by (metis dvd_triv_left)
  then obtain bs' where "fromhex s = Some bs'" "hex_upper bs' = s" using fromhex_upper_hex assms(2) by blast
  then show ?thesis using assms(1) n by (simp add: hx_no_ws)
qed

section \<open>PIN blocks are read back\<close>

lemma pan_field_length: "pan_field pan = Inr p \<Longrightarrow> length p = 8"
proof -
  assume a: "pan_field pan = Inr p"
  define acct where "acct = drop (length (digits_in pan) - 13) (butlast (digits_in pan))"
  have l: "length acct \<le> 12" by (simp add: acct_def)
  have "set acct \<subseteq> set (digits_in pan)" by (auto simp: acct_def dest: in_set_dropD in_set_butlastD)
  then have "\<forall>c \<in> set acct. \<not> is_ws c"
    by (auto simp: digits_in_def py_isdigit_char_def is_dec_def is_ws_def dest!: subsetD)
  then have "\<forall>c \<in> set (u ''0000'' @ rjust 12 acct). \<not> is_ws c"
    by (auto simp: u_def rjust_def is_ws_def)
  moreover have "hx (u ''0000'' @ rjust 12 acct) = Inr p" using a by (simp add: pan_field_def acct_def Let_def)
  ultimately show ?thesis using hx_length [of "u ''0000'' @ rjust 12 acct" p] l by (simp add: u_def rjust_def)
qed

lemma with_pan_twice:
  assumes "with_pan fmt pan x = Inr y" and "length x = 8"
  shows "with_pan fmt pan y = Inr x" and "length y = 8"
proof -
  consider "\<not> fmt_uses_pan fmt" "y = x" | p where "fmt_uses_pan fmt" "pan_field pan = Inr p" "y = xor_bytes x p"
    using assms(1) by (auto simp: with_pan_def result_iff split: if_splits)
  then show "with_pan fmt pan y = Inr x" and "length y = 8"
    using assms(2) pan_field_length by (cases; auto simp: with_pan_def xor_bytes_twice)+
qed

lemma hex_number_digit: "n < 16 \<Longrightarrow> hex_number n = [hexdigit n]"
  by (simp add: hex_number.simps)

lemma pin_field_read:
  assumes "pin_field rnd pin fmt = Inr field" and "list_all is_dec pin" and "length pin \<le> 14"
    and "list_all is_upper_hex rnd" and "16 \<le> length rnd"
  shows "length field = 8" and "pin_of_field (hex_upper field) = pin"
proof -
  define c where "c = (if fmt = ''0'' \<or> fmt = ''1'' \<or> fmt = ''3'' then of_char (hd fmt) else 48 :: nat)"
  have c: "u (if fmt \<in> set ISO_PIN_FORMATS then fmt else ''0'') = [c]" "is_upper_hex c"
    by (auto simp: c_def ISO_PIN_FORMATS_def u_def is_upper_hex_def)
  define pad where "pad = pin_pad rnd fmt (14 - length pin)"
  have pad: "length pad = 14 - length pin" "\<forall>x \<in> set pad. is_upper_hex x"
    using assms(4,5) by (auto simp: pad_def pin_pad_def list_all_iff is_upper_hex_def dest: in_set_takeD)
  define tx where "tx = [c, hexdigit (length pin)] @ pin @ pad"
  have b: "pin_body pin fmt = [c, hexdigit (length pin)] @ pin"
    using assms(3) c(1) by (simp add: pin_body_def hex_number_digit)
  have t: "length tx = 16" "\<forall>x \<in> set tx. is_upper_hex x"
    using pad c(2) assms(2,3) is_upper_hex_hexdigit [of "length pin"]
    by (auto simp: tx_def list_all_iff is_dec_hex)
  have "pin_field rnd pin fmt = hx (take 16 tx)"
    using b assms(3) by (simp add: pin_field_def tx_def pad_def Let_def)
  then have h: "hx tx = Inr field" using assms(1) t(1) by simp
  show "length field = 8" using hx_length [OF h] t upper_hex_not_ws by auto
  have "hex_upper field = tx" using hx_hex_text [OF h] t(2) by blast
  then show "pin_of_field (hex_upper field) = pin"
    using assms(3) by (simp add: pin_of_field_def tx_def)
qed

lemma pin_block_decode_block:
  assumes "invertible cl" and "list_all is_dec pin" and "length pin \<le> 14"
    and "list_all is_upper_hex rnd" and "16 \<le> length rnd"
    and "pin_block_encode cl rnd pin pan key_hex fmt = Inr (clear, block)"
  shows "pin_block_decode cl block pan key_hex fmt = Inr (pin, clear)"
proof -
  obtain field x key enc where e: "pin_field rnd pin fmt = Inr field" "with_pan fmt pan field = Inr x"
    "hx key_hex = Inr key" "ecb cl key True x = Inr enc" "clear = hex_upper x" "block = hex_upper enc"
    using assms(6) by (auto simp: pin_block_encode_def result_iff)
  note f = pin_field_read [OF e(1) assms(2-5)]
  have "ecb cl key False enc = Inr x" using e(4) invertibleD(2) [OF assms(1)] by (simp add: ecb_def)
  then show ?thesis using e f with_pan_twice [OF e(2)] by (simp add: pin_block_decode_def)
qed

text \<open>Whatever cipher, key, account and random fill: a PIN of at most fourteen digits is read back from its
  block in every format.\<close>

theorem pin_block_roundtrip:
  assumes "invertible cl" and "list_all is_dec pin" and "length pin \<le> 14"
    and "list_all is_upper_hex rnd" and "16 \<le> length rnd"
    and "pin_block_encode cl rnd pin pan key_hex fmt = Inr (clear, block)"
  shows "pin_block_decode cl block pan key_hex fmt = Inr (pin, clear)"
  by (rule pin_block_decode_block [OF assms])

definition plain_lib :: crypto_lib where
  "plain_lib = \<lparr>cl_ecb = (\<lambda>a enc key x. Inr x), cl_cbc = (\<lambda>a enc key iv x. Inr x)\<rparr>"

lemma plain_lib_invertible: "invertible plain_lib"
  by (simp add: invertible_def plain_lib_def)

lemma demo_pin_block:
  "pin_block_encode plain_lib (u ''ABCDEFABCDEFABCD'') (u ''1234'') (u ''4111111111111111'') (u ''0123456789ABCDEF'') ''3'' =
     Inr (u ''341225BADCFEBADC'', u ''341225BADCFEBADC'')"
  by code_simp

theorem pin_block_roundtrip_witness:
  "pin_block_decode plain_lib (u ''341225BADCFEBADC'') (u ''4111111111111111'') (u ''0123456789ABCDEF'') ''3'' =
     Inr (u ''1234'', u ''341225BADCFEBADC'')"
  by (rule pin_block_roundtrip [OF plain_lib_invertible _ _ _ _ demo_pin_block]) code_simp+

lemma iso4_pan_length:
  assumes "iso4_pan_field pan = Inr p"
  shows "length p = 16"
proof -
  define ds where "ds = (if digits_in pan = [] then u ''0'' else digits_in pan)"
  define tx where "tx = take 32 (ljust 32 (dec (length ds - 12) @ rjust 12 ds))"
  have d: "\<forall>c \<in> set ds. \<not> is_ws c"
    by (auto simp: ds_def digits_in_def py_isdigit_char_def is_dec_def is_ws_def u_def)
  have "\<forall>c \<in> set (ljust 32 (dec (length ds - 12) @ rjust 12 ds)). \<not> is_ws c"
    using d dec_is_dec is_dec_not_ws by (auto simp: ljust_def rjust_def is_ws_def)
  then have "\<forall>c \<in> set tx. \<not> is_ws c" by (auto simp: tx_def dest: in_set_takeD)
  moreover have "hx tx = Inr p" using assms by (simp add: iso4_pan_field_def ds_def tx_def Let_def)
  moreover have "length tx = 32" by (simp add: tx_def ljust_def)
  ultimately show ?thesis using hx_length [of tx p] by simp
qed

text \<open>A PIN block of format 4 is read back: encoding refuses every other length of the PIN.\<close>

theorem iso4_roundtrip:
  assumes "invertible cl" and "list_all is_dec pin" and "list_all is_upper_hex rnd" and "length rnd = 16"
    and "pin_block_iso4_encode cl rnd pin pan key_hex = Inr block"
  shows "\<exists>field. pin_block_iso4_decode cl block pan key_hex = Inr (pin, field)"
proof -
  obtain key field a p y where e: "hx key_hex = Inr key" "iso4_pin_field rnd pin = Inr field"
    "cl_ecb cl AES True key field = Inr a" "iso4_pan_field pan = Inr p"
    "cl_ecb cl AES True key (xor_bytes a p) = Inr y" "block = hex_upper y"
    using assms(5) by (auto simp: pin_block_iso4_encode_def result_iff)
  have d: "digits_in pin = pin"
    using assms(2) by (simp add: digits_in_def list_all_iff py_isdigit_char_def)
  have n: "4 \<le> length pin" "length pin \<le> 12" using e(2) d by (auto simp: iso4_pin_field_def Let_def split: if_splits)
  define tx where "tx = [52, hexdigit (length pin)] @ pin @ replicate (14 - length pin) 65 @ rnd"
  have t: "length tx = 32" "\<forall>x \<in> set tx. is_upper_hex x"
    using assms(2-4) n is_upper_hex_hexdigit [of "length pin"]
    by (auto simp: tx_def list_all_iff is_dec_def is_upper_hex_def)
  have "iso4_pin_field rnd pin = hx tx"
    using n d by (simp add: iso4_pin_field_def tx_def hex_number_digit u_def)
  then have h: "hx tx = Inr field" using e(2) by simp
  have f: "hex_upper field = tx" using hx_hex_text [OF h] t(2) by blast
  have l: "length field = 16" using arg_cong [OF f, of length] t(1) by simp
  have p: "length p = 16" by (rule iso4_pan_length [OF e(4)])
  have y: "cl_ecb cl AES False key y = Inr (xor_bytes a p)" using invertibleD(2) [OF assms(1) e(5)] by simp
  have "xor_bytes (xor_bytes a p) p = a" using invertibleD(1) [OF assms(1) e(3)] l p by (simp add: xor_bytes_twice)
  moreover have "cl_ecb cl AES False key a = Inr field" using invertibleD(2) [OF assms(1) e(3)] by simp
  moreover have "iso4_pin_of_field tx = pin" using n by (simp add: iso4_pin_of_field_def tx_def u_def)
  ultimately show ?thesis using e y f by (auto simp: pin_block_iso4_decode_def)
qed

lemma demo_iso4:
  "pin_block_iso4_encode plain_lib (u ''0123456789ABCDEF'') (u ''12345'') (u ''4111111111111111'') (u ''00'') =
     Inr (u ''0103254BBBBBBBBB1123456789ABCDEF'')"
  by code_simp

theorem iso4_roundtrip_witness:
  "\<exists>field. pin_block_iso4_decode plain_lib (u ''0103254BBBBBBBBB1123456789ABCDEF'') (u ''4111111111111111'') (u ''00'') =
     Inr (u ''12345'', field)"
  by (rule iso4_roundtrip [OF plain_lib_invertible _ _ _ demo_iso4]) code_simp+

text \<open>Format 0 takes PINs of any length: fifteen digits come back as fourteen, sixteen as none.\<close>

theorem long_pins_are_cut:
  "(case pin_block_encode plain_lib [] (u ''123456789012345'') (u ''4111111111111111'') [] ''0'' of Inr (clear, block) \<Rightarrow>
      pin_block_decode plain_lib block (u ''4111111111111111'') [] ''0'' = Inr (u ''12345678901234'', clear)) \<and>
   (case pin_block_encode plain_lib [] (u ''1234567890123456'') (u ''4111111111111111'') [] ''0'' of Inr (clear, block) \<Rightarrow>
      pin_block_decode plain_lib block (u ''4111111111111111'') [] ''0'' = Inr (u ''0'', clear))"
  by code_simp

section \<open>Lengths of the values\<close>

lemma length_digits_then_letters [simp]: "length (digits_then_letters h) = length h"
  unfolding digits_then_letters_def using sum_length_filter_compl [of is_dec h] by simp

lemma digits_then_letters_dec: "\<forall>c \<in> set h. is_upper_hex c \<Longrightarrow> \<forall>c \<in> set (digits_then_letters h). is_dec c"
  by (auto simp: digits_then_letters_def is_upper_hex_def is_dec_def)

text \<open>A card verification value has three decimal digits, for any account, expiry and service code made of
  digits.\<close>

theorem cvv_three_digits:
  assumes "invertible cl" and "list_all is_dec (pan @ expiry @ service_code)" and "cvv cl pan expiry service_code key_hex = Inr v"
  shows "length v = 3 \<and> list_all is_dec v"
proof -
  define block where "block = take 32 (ljust 32 (pan @ expiry @ service_code))"
  obtain cvk b1 b2 r1 r2 r3 r4 where e: "hx (take 16 block) = Inr b1" "hx (drop 16 block) = Inr b2"
    "des_block cl (take 8 cvk) b1 True = Inr r1" "des_block cl (take 8 cvk) (xor_bytes r1 b2) True = Inr r2"
    "des_block cl (second_key cvk) r2 False = Inr r3" "des_block cl (take 8 cvk) r3 True = Inr r4"
    "v = take 3 (digits_then_letters (hex_upper r4))"
    using assms(3) by (auto simp: cvv_def result_iff Let_def block_def)
  have "\<forall>c \<in> set (ljust 32 (pan @ expiry @ service_code)). is_dec c"
    using assms(2) by (auto simp: ljust_def list_all_iff is_dec_def)
  then have d: "\<forall>c \<in> set block. \<not> is_ws c" using is_dec_not_ws by (auto simp: block_def dest: in_set_takeD)
  have l: "length block = 32" by (simp add: block_def ljust_def)
  have "length b1 = 8" using hx_length [OF e(1)] d l by (auto dest: in_set_takeD)
  moreover have "length b2 = 8" using hx_length [OF e(2)] d l by (auto dest: in_set_dropD)
  ultimately have "length r4 = 8" using e(3-6) invertibleD(1) [OF assms(1)] by (fastforce simp: des_block_def)
  then show ?thesis using e(7) digits_then_letters_dec [of "hex_upper r4"] hex_upper_is_upper
    by (auto simp: list_all_iff dest: in_set_takeD)
qed

lemma demo_cvv: "cvv plain_lib (u ''4123456789012345'') (u ''8701'') (u ''101'') (u ''0123456789ABCDEF'') = Inr (u ''622'')"
  by code_simp

theorem cvv_three_digits_witness: "length (u ''622'') = 3 \<and> list_all is_dec (u ''622'')"
  by (rule cvv_three_digits [OF plain_lib_invertible _ demo_cvv]) code_simp

section \<open>Padding\<close>

text \<open>Taking the padding off: the zeros, then the bit.\<close>

definition unpad_m2 :: "byte list \<Rightarrow> byte list" where
  "unpad_m2 x = rev (tl (dropWhile (\<lambda>b. b = 0) (rev x)))"

text \<open>Padding fills whole blocks and can be taken off again: no two messages give the MAC the same blocks.\<close>

theorem padding_is_invertible:
  "length (pad_m2 x) mod 8 = 0 \<and> unpad_m2 (pad_m2 x) = x \<and> length (pad_m2 x) \<le> length x + 8"
proof -
  have z: "dropWhile (\<lambda>b. b = 0) (zeros n @ (128 :: byte) # ys) = 128 # ys" for n ys
    by (induction n) (simp_all add: zeros_def)
  have "rev (pad_m2 x) = zeros ((8 - (length x + 1) mod 8) mod 8) @ 128 # rev x"
    by (simp add: pad_m2_def zeros_def)
  then have u: "unpad_m2 (pad_m2 x) = x" by (simp add: unpad_m2_def z)
  have l: "length (pad_m2 x) = length x + 1 + (8 - (length x + 1) mod 8) mod 8"
    by (simp add: pad_m2_def zeros_def)
  have m: "(n + (8 - n mod 8) mod 8) mod 8 = 0" for n :: nat
  proof (cases "n mod 8 = 0")
    case False
    have "n mod 8 + (8 - n mod 8) = 8" by simp
    then have "(n + (8 - n mod 8)) mod 8 = 0" by (metis mod_add_left_eq mod_self)
    moreover have "(8 - n mod 8) mod 8 = 8 - n mod 8" using False by simp
    ultimately show ?thesis by simp
  qed simp
  have "(8 - (length x + 1) mod 8) mod 8 < 8" by simp
  then have "length (pad_m2 x) \<le> length x + 8" using l by linarith
  moreover have "length (pad_m2 x) mod 8 = 0" unfolding l by (rule m)
  ultimately show ?thesis using u by blast
qed

section \<open>PIN offsets\<close>

lemma digitwise_length: "digitwise f xs ys = Inr zs \<Longrightarrow> length zs = min (length xs) (length ys) \<and> (\<forall>z \<in> set zs. is_dec z)"
  by (induction f xs ys arbitrary: zs rule: digitwise.induct) (auto simp: result_iff is_dec_def)

lemma py_int_digit: "py_int [x] = Inr n \<longleftrightarrow> is_dec x \<and> n = x - 48"
  by (auto simp: py_int_def undec_def)

text \<open>What subtracting takes away adding gives back, modulo ten.\<close>

lemma digitwise_back:
  "digitwise (-) pin natural = Inr off \<Longrightarrow> length natural \<le> length pin \<Longrightarrow> digitwise (+) natural off = Inr (take (length natural) pin)"
proof (induction pin arbitrary: natural off)
  case (Cons p pin)
  show ?case
  proof (cases natural)
    case (Cons n ns)
    then obtain a b zs where z: "py_int [p] = Inr a" "py_int [n] = Inr b" "digitwise (-) pin ns = Inr zs"
      "off = (48 + nat ((int a - int b) mod 10)) # zs"
      using Cons.prems(1) by (auto simp: result_iff)
    define o1 where "o1 = 48 + nat ((int a - int b) mod 10)"
    have o: "py_int [o1] = Inr (nat ((int a - int b) mod 10))" by (simp add: py_int_digit o1_def is_dec_def)
    have p: "48 + a = p" "a < 10" using z(1) by (auto simp: py_int_digit is_dec_def)
    have "(int b + (int a - int b) mod 10) mod 10 = int a mod 10" by (simp add: mod_add_right_eq)
    then have "48 + nat ((int b + int (nat ((int a - int b) mod 10))) mod 10) = p" using p by simp
    then show ?thesis using Cons.IH [OF z(3)] Cons.prems(2) z o Cons by (simp add: o1_def)
  qed simp
qed simp

lemma natural_length:
  assumes "invertible cl" and "list_all is_dec validation_data" and "ibm3624_natural cl validation_data key_hex table = Inr n"
  shows "length n = 16"
proof -
  define v where "v = take 16 (ljust 16 validation_data)"
  obtain key x y where e: "hx v = Inr x" "ecb cl key True x = Inr y" "n = decimalise (hex_upper y) table"
    using assms(3) by (auto simp: ibm3624_natural_def result_iff v_def)
  have "\<forall>c \<in> set (ljust 16 validation_data). is_dec c"
    using assms(2) by (auto simp: ljust_def list_all_iff is_dec_def)
  then have "\<forall>c \<in> set v. \<not> is_ws c" using is_dec_not_ws by (auto simp: v_def dest: in_set_takeD)
  moreover have "length v = 16" by (simp add: v_def ljust_def)
  ultimately have "length x = 8" using hx_length [OF e(1)] by simp
  then have "length y = 8" using invertibleD(1) [OF assms(1)] e(2) by (metis ecb_def)
  then show ?thesis using e(3) by (simp add: decimalise_def Let_def)
qed

lemma digits_in_dec: "\<forall>c \<in> set s. is_dec c \<Longrightarrow> digits_in s = s"
  by (simp add: digits_in_def py_isdigit_char_def)

text \<open>The PIN a customer chose verifies against the offset computed for it.\<close>

theorem offset_verifies:
  assumes "invertible cl" and "list_all is_dec validation_data" and "list_all is_dec pin"
    and "0 < length pin" and "length pin \<le> 16"
    and "ibm3624_offset cl validation_data key_hex pin table = Inr (off, natural)"
  shows "ibm3624_verify cl validation_data key_hex off pin table = Inr (pin, True)"
proof -
  have p: "digits_in pin = pin" using assms(3) by (simp add: digits_in_dec list_all_iff)
  have m: "nat (max 1 (int (length pin))) = length pin" using assms(4) by (cases pin) (auto simp: max_def)
  obtain n where n: "ibm3624_natural cl validation_data key_hex table = Inr n"
    "digitwise (-) pin (take (length pin) n) = Inr off"
    using assms(4,6) p by (auto simp: m ibm3624_offset_def ibm3624_pin_def result_iff Let_def)
  have l: "length n = 16" using natural_length [OF assms(1,2) n(1)] .
  have o: "length off = length pin" "digits_in off = off"
    using digitwise_length [OF n(2)] l assms(5) by (auto simp: digits_in_dec)
  have "digitwise (+) (take (length pin) n) off = Inr pin"
    using digitwise_back [OF n(2)] l assms(5) by simp
  then show ?thesis using n(1) o p assms(4)
    by (simp add: m ibm3624_verify_def ibm3624_pin_def Let_def)
qed

lemma demo_offset:
  "ibm3624_offset plain_lib (u ''123456789'') (u ''0123456789ABCDEF'') (u ''9999'') [] = Inr (u ''8765'', u ''1234'')"
  by code_simp

theorem offset_verifies_witness:
  "ibm3624_verify plain_lib (u ''123456789'') (u ''0123456789ABCDEF'') (u ''8765'') (u ''9999'') [] = Inr (u ''9999'', True)"
  by (rule offset_verifies [OF plain_lib_invertible _ _ _ _ demo_offset]) code_simp+

end
