(* ===== verification/Dukpt.thy ===== *)
theory Dukpt
  imports Pin_Crypto
begin

text \<open>
  Keys unique per transaction (\<open>worker/engine/crypto_tools.py\<close>, second part): DUKPT on Triple DES (X9.24-1) and on
  AES (X9.24-3), both walking the bits set in the transaction counter, AES-CMAC, and the PIN blocks enciphered
  under the keys derived. The ciphers are those of \<open>crypto_lib\<close>.
\<close>

section \<open>Walking the bits of a counter\<close>

text \<open>The loop of both derivations: from the bit below \<open>n\<close> downwards, each bit set in the counter is set in the
  register and one more key is generated.\<close>

fun walk_bits :: "(nat \<Rightarrow> 'k \<Rightarrow> 'k result) \<Rightarrow> nat \<Rightarrow> nat \<Rightarrow> nat \<Rightarrow> 'k \<Rightarrow> 'k result" where
  "walk_bits gen 0 counter reg key = Inr key"
| "walk_bits gen (Suc i) counter reg key =
     (if bit counter i
      then (let reg = set_bit i reg in rbind (gen reg key) (\<lambda>key. walk_bits gen i counter reg key))
      else walk_bits gen i counter reg key)"

lemma walk_no_bits: "\<forall>j < n. \<not> bit c j \<Longrightarrow> walk_bits gen n c reg key = Inr key"
  by (induction n) auto

lemma walk_bits_cong: "\<forall>j < n. bit c j = bit c' j \<Longrightarrow> walk_bits gen n c reg key = walk_bits gen n c' reg key"
  by (induction n arbitrary: reg key) (auto simp: Let_def intro!: rbind_cong)

lemma set_bit_or_take: "bit c n \<Longrightarrow> set_bit n reg OR take_bit n c = reg OR take_bit (Suc n) (c :: nat)"
  by (rule bit_eqI) (auto simp: bit_simps less_Suc_eq)

text \<open>The last step of a walk is that of the lowest bit: before it, the walk is that of the counter without it.\<close>

lemma walk_last_step:
  assumes "bit c i" and "\<forall>j < i. \<not> bit c j" and "i < n"
  shows "walk_bits gen n c reg key =
     rbind (walk_bits gen n (unset_bit i c) reg key) (gen (reg OR take_bit n c))"
  using assms(3)
proof (induction n arbitrary: reg key)
  case (Suc m)
  show ?case
  proof (cases "i = m")
    case True
    have low: "walk_bits gen m c r = Inr" "walk_bits gen m (unset_bit m c) r = Inr" for r
      using assms(2) True by (auto intro!: walk_no_bits ext simp: bit_simps)
    have "set_bit m reg OR take_bit m c = set_bit m reg"
      using assms(2) True by (intro bit_eqI) (auto simp: bit_simps)
    then have "reg OR take_bit (Suc m) c = set_bit m reg"
      using set_bit_or_take [of c m reg] assms(1) True by simp
    then show ?thesis using assms(1) True low by (simp add: bit_unset_bit_iff Let_def)
  next
    case False
    then have i: "i < m" using Suc.prems by simp
    have b: "bit (unset_bit i c) m = bit c m" using False by (simp add: bit_unset_bit_iff)
    show ?thesis
    proof (cases "bit c m")
      case True
      have "walk_bits gen m c (set_bit m reg) = (\<lambda>key. rbind (walk_bits gen m (unset_bit i c) (set_bit m reg) key)
          (gen (reg OR take_bit (Suc m) c)))"
        using Suc.IH [OF i] set_bit_or_take [OF True] by (intro ext) simp
      then show ?thesis using True b by (simp add: Let_def rbind_assoc)
    next
      case False
      then have "take_bit (Suc m) c = take_bit m c" by (intro bit_eqI) (auto simp: bit_simps less_Suc_eq)
      then show ?thesis using False b i Suc.IH by simp
    qed
  qed
qed simp

text \<open>A walk of \<open>n\<close> bits only reads those of its counter.\<close>

lemma walk_take_bit: "walk_bits gen n (take_bit n c) reg key = walk_bits gen n c reg key"
  by (rule walk_bits_cong) (simp add: bit_take_bit_iff)

section \<open>DUKPT on Triple DES\<close>

definition DUKPT_KSN_COUNTER_BITS :: nat where
  "DUKPT_KSN_COUNTER_BITS = 21"

definition DUKPT_REG_MASK :: "byte list" where
  "DUKPT_REG_MASK = [192, 192, 192, 192, 0, 0, 0, 0, 192, 192, 192, 192, 0, 0, 0, 0]"

definition DUKPT_VARIANTS :: "(string \<times> byte list) list" where
  "DUKPT_VARIANTS =
     [(''none'', zeros 16),
      (''pin'', zeros 7 @ [255] @ zeros 7 @ [255]),
      (''mac_req'', zeros 6 @ [255] @ zeros 7 @ [255, 0]),
      (''mac_resp'', zeros 4 @ [255] @ zeros 7 @ [255] @ zeros 3),
      (''data_req'', zeros 5 @ [255] @ zeros 7 @ [255] @ zeros 2)]"

definition tdes_key :: "byte list \<Rightarrow> byte list" where
  "tdes_key k = (if length k = 8 then k @ k else take 16 k)"

definition dukpt_encrypt_register :: "crypto_lib \<Rightarrow> byte list \<Rightarrow> byte list \<Rightarrow> byte list result" where
  "dukpt_encrypt_register cl key16 reg8 =
     (let top = take 8 key16; bottom = take 8 (drop 8 key16) in
      rbind (des_block cl top (xor_bytes reg8 bottom) True) (\<lambda>y. Inr (xor_bytes y bottom)))"

definition dukpt_generate_key :: "crypto_lib \<Rightarrow> byte list \<Rightarrow> byte list \<Rightarrow> byte list result" where
  "dukpt_generate_key cl key16 reg8 =
     rbind (dukpt_encrypt_register cl (xor_bytes key16 DUKPT_REG_MASK) reg8) (\<lambda>left.
     rbind (dukpt_encrypt_register cl key16 reg8) (\<lambda>right. Inr (left @ right)))"

text \<open>\<open>ksn.rjust(10, b"\\x00")[-10:]\<close>, and what the initial key depends on: the counter masked away.\<close>

definition ksn10 :: "byte list \<Rightarrow> byte list" where
  "ksn10 ksn = last_chars 10 (rjust_bytes 10 ksn)"

definition ksn_device :: "byte list \<Rightarrow> byte list" where
  "ksn_device ksn = take 8 (map2 (AND) ksn [255, 255, 255, 255, 255, 255, 255, 224, 0, 0])"

definition dukpt_ipek :: "crypto_lib \<Rightarrow> ustr \<Rightarrow> ustr \<Rightarrow> (ustr \<times> ustr) result" where
  "dukpt_ipek cl bdk_hex ksn_hex =
     rbind (hx bdk_hex) (\<lambda>b. rbind (hx ksn_hex) (\<lambda>k.
       (let bdk = tdes_key b; data = ksn_device (ksn10 k) in
        rbind (ecb cl bdk True data) (\<lambda>left. rbind (ecb cl (xor_bytes bdk DUKPT_REG_MASK) True data) (\<lambda>right.
        rbind (kcv cl (hex_upper (left @ right))) (\<lambda>(check, full). Inr (hex_upper (left @ right), check)))))))"

definition dukpt_transaction_key :: "crypto_lib \<Rightarrow> byte list \<Rightarrow> byte list \<Rightarrow> byte list result" where
  "dukpt_transaction_key cl ipek ksn =
     (let full = from_be ksn; counter = take_bit DUKPT_KSN_COUNTER_BITS full;
          reg = push_bit DUKPT_KSN_COUNTER_BITS (drop_bit DUKPT_KSN_COUNTER_BITS full) in
      walk_bits (\<lambda>reg key. dukpt_generate_key cl key (be_bytes 8 (take_bit 64 reg))) DUKPT_KSN_COUNTER_BITS counter reg ipek)"

text \<open>The variant of a key; data keys are enciphered under themselves.\<close>

definition dukpt_variant_key :: "crypto_lib \<Rightarrow> byte list \<Rightarrow> string \<Rightarrow> byte list result" where
  "dukpt_variant_key cl txn variant =
     (case map_of DUKPT_VARIANTS variant of
        None \<Rightarrow> Inl ValueError
      | Some m \<Rightarrow>
          (let working = xor_bytes txn m in
           if variant = ''data_req''
           then rbind (ecb cl working True (take 8 working)) (\<lambda>a.
                rbind (ecb cl working True (take 8 (drop 8 working))) (\<lambda>b. Inr (a @ b)))
           else Inr working))"

definition dukpt_working_key ::
    "crypto_lib \<Rightarrow> ustr \<Rightarrow> ustr \<Rightarrow> ustr \<Rightarrow> string \<Rightarrow> (byte list \<times> byte list) result" where
  "dukpt_working_key cl bdk_hex ksn_hex ipek_hex variant =
     rbind (if ipek_hex \<noteq> [] then rbind (hx ipek_hex) (\<lambda>k. Inr (tdes_key k))
            else rbind (dukpt_ipek cl bdk_hex ksn_hex) (\<lambda>(ipek, check). hx ipek)) (\<lambda>ipek.
     rbind (hx ksn_hex) (\<lambda>k. rbind (dukpt_transaction_key cl ipek (ksn10 k)) (\<lambda>txn.
     rbind (dukpt_variant_key cl txn variant) (\<lambda>working. Inr (txn, working)))))"

record dukpt_key =
  dk_transaction_key :: ustr
  dk_key :: ustr
  dk_kcv :: ustr

definition dukpt_derive_key :: "crypto_lib \<Rightarrow> ustr \<Rightarrow> ustr \<Rightarrow> string \<Rightarrow> ustr \<Rightarrow> dukpt_key result" where
  "dukpt_derive_key cl bdk_hex ksn_hex variant ipek_hex =
     rbind (dukpt_working_key cl bdk_hex ksn_hex ipek_hex variant) (\<lambda>(txn, working).
     rbind (kcv cl (hex_upper working)) (\<lambda>(check, full).
       Inr \<lparr>dk_transaction_key = hex_upper txn, dk_key = hex_upper working, dk_kcv = check\<rparr>))"

text \<open>The block, the PIN key and the KSN without its spaces.\<close>

definition dukpt_pin_block ::
    "crypto_lib \<Rightarrow> ustr \<Rightarrow> ustr \<Rightarrow> ustr \<Rightarrow> ustr \<Rightarrow> ustr \<Rightarrow> (ustr \<times> ustr \<times> ustr) result" where
  "dukpt_pin_block cl pin pan bdk_hex ksn_hex ipek_hex =
     rbind (dukpt_working_key cl bdk_hex ksn_hex ipek_hex ''pin'') (\<lambda>(txn, pek).
     rbind (pin_field [] pin ''0'') (\<lambda>field. rbind (pan_field pan) (\<lambda>p.
     rbind (ecb cl pek True (xor_bytes field p)) (\<lambda>enc.
       Inr (hex_upper enc, hex_upper pek, py_upper (filter (\<lambda>c. \<not> is_ws c) ksn_hex))))))"

section \<open>Lengths\<close>

lemma ecb_length: "invertible cl \<Longrightarrow> ecb cl key enc x = Inr y \<Longrightarrow> length y = length x"
  unfolding ecb_def by (rule invertibleD(1))

lemma des_block_length: "invertible cl \<Longrightarrow> des_block cl key x enc = Inr y \<Longrightarrow> length y = length x"
  unfolding des_block_def by (rule invertibleD(1))

lemma length_ksn10 [simp]: "length (ksn10 k) = 10"
  by (simp add: ksn10_def last_chars_def rjust_bytes_def zeros_def)

lemma length_ksn_device [simp]: "8 \<le> length k \<Longrightarrow> length (ksn_device k) = 8"
  by (simp add: ksn_device_def)

text \<open>What a successful derivation of the initial key consists of.\<close>

lemma dukpt_ipek_InrD:
  assumes "dukpt_ipek cl bdk_hex ksn_hex = Inr (ipek, check)"
  obtains b k l r where "hx bdk_hex = Inr b" "hx ksn_hex = Inr k"
    "ecb cl (tdes_key b) True (ksn_device (ksn10 k)) = Inr l"
    "ecb cl (xor_bytes (tdes_key b) DUKPT_REG_MASK) True (ksn_device (ksn10 k)) = Inr r" "ipek = hex_upper (l @ r)"
  using assms by (auto simp: dukpt_ipek_def result_iff Let_def)

lemma dukpt_ipek_length:
  assumes "invertible cl" and "dukpt_ipek cl bdk_hex ksn_hex = Inr (ipek, check)"
  shows "\<exists>k. length k = 16 \<and> ipek = hex_upper k"
  using assms(2)
proof (rule dukpt_ipek_InrD)
  fix b k l r
  assume "ecb cl (tdes_key b) True (ksn_device (ksn10 k)) = Inr l"
    and "ecb cl (xor_bytes (tdes_key b) DUKPT_REG_MASK) True (ksn_device (ksn10 k)) = Inr r" and i: "ipek = hex_upper (l @ r)"
  then have "length (l @ r) = 16" using ecb_length [OF assms(1)] by fastforce
  then show ?thesis using i by blast
qed

lemma tdes_key_16: "length k = 16 \<Longrightarrow> tdes_key k = k"
  by (simp add: tdes_key_def)

text \<open>The initial key depends on a serial number through its device part only.\<close>

lemma dukpt_ipek_device:
  assumes "hx k0 = Inr a" and "hx k1 = Inr b" and "ksn_device (ksn10 a) = ksn_device (ksn10 b)"
  shows "dukpt_ipek cl bdk k0 = dukpt_ipek cl bdk k1"
  using assms by (simp add: dukpt_ipek_def)

lemma terminal_working_key:
  assumes "invertible cl" and "hx k0 = Inr a" and "hx k1 = Inr b" and "ksn_device (ksn10 a) = ksn_device (ksn10 b)"
    and "dukpt_ipek cl bdk k0 = Inr (ipek, check)"
  shows "dukpt_working_key cl x k1 ipek variant = dukpt_working_key cl bdk k1 [] variant"
proof -
  obtain k where k: "length k = 16" "ipek = hex_upper k" using dukpt_ipek_length [OF assms(1,5)] by blast
  have "length ipek = 32" using k by simp
  then have "ipek \<noteq> []" by auto
  moreover have "dukpt_ipek cl bdk k1 = Inr (ipek, check)" using dukpt_ipek_device [OF assms(2-4)] assms(5) by simp
  ultimately show ?thesis using k by (simp add: dukpt_working_key_def tdes_key_16)
qed

text \<open>A terminal holding the initial key injected at one serial number derives, for every serial number of the
  same device, the keys the host derives from the base key.\<close>

theorem terminal_agrees_with_host:
  assumes "invertible cl" and "hx k0 = Inr a" and "hx k1 = Inr b" and "ksn_device (ksn10 a) = ksn_device (ksn10 b)"
    and "dukpt_ipek cl bdk k0 = Inr (ipek, check)"
  shows "dukpt_derive_key cl [] k1 variant ipek = dukpt_derive_key cl bdk k1 variant []"
  unfolding dukpt_derive_key_def terminal_working_key [OF assms] ..

section \<open>Future keys\<close>

lemma from_be_append: "from_be (xs @ ys) = from_be xs * 256 ^ length ys + from_be ys"
proof (induction ys rule: rev_induct)
  case (snoc y ys)
  have "from_be ((xs @ ys) @ [y]) = 256 * from_be (xs @ ys) + unat y" by (rule from_be_snoc)
  then show ?case using snoc by (simp add: algebra_simps)
qed simp

text \<open>The low bytes of a number are its last bytes.\<close>

lemma low_bytes: "n \<le> length bs \<Longrightarrow> be_bytes n (take_bit (8 * n) (from_be bs)) = drop (length bs - n) bs"
proof -
  assume n: "n \<le> length bs"
  define ys where "ys = drop (length bs - n) bs"
  have l: "length ys = n" using n by (simp add: ys_def)
  have "from_be bs = from_be (take (length bs - n) bs) * 256 ^ n + from_be ys"
    using from_be_append [of "take (length bs - n) bs" ys] l by (simp add: ys_def)
  moreover have "(2 :: nat) ^ (8 * n) = 256 ^ n" by (simp add: power_mult)
  ultimately have "take_bit (8 * n) (from_be bs) = from_be ys"
    using from_be_less [of ys] l by (simp add: take_bit_eq_mod)
  then show ?thesis using be_bytes_from_be [of ys] l by (simp add: ys_def)
qed

lemma unset_bit_fits: "(n :: nat) < 2 ^ k \<Longrightarrow> unset_bit i n < 2 ^ k"
proof -
  assume "n < 2 ^ k"
  then have n: "take_bit k n = n" by (simp add: take_bit_nat_eq_self_iff)
  have "take_bit k (unset_bit i n) = unset_bit i (take_bit k n)"
    by (rule bit_eqI) (auto simp: bit_simps)
  then show ?thesis using n by (simp add: take_bit_nat_eq_self_iff [symmetric])
qed

lemma high_and_low: "push_bit n (drop_bit n a) OR take_bit n a = (a :: nat)"
  by (rule bit_eqI) (auto simp: bit_simps)

text \<open>The key of a transaction is one generation away from the key of an earlier one, that of the counter without
  its lowest bit: the terminal that kept that key needs neither the base key nor the initial one.\<close>

theorem future_key:
  assumes "length ksn = 10" and "i < 21" and "bit (from_be ksn) i" and "\<forall>j < i. \<not> bit (from_be ksn) j"
  shows "dukpt_transaction_key cl ipek ksn =
    rbind (dukpt_transaction_key cl ipek (be_bytes 10 (unset_bit i (from_be ksn))))
      (\<lambda>key. dukpt_generate_key cl key (drop 2 ksn))"
proof -
  define full where "full = from_be ksn"
  define gen where "gen = (\<lambda>reg key. dukpt_generate_key cl key (be_bytes 8 (take_bit 64 reg)))"
  have step: "walk_bits gen 21 full reg key = rbind (walk_bits gen 21 (unset_bit i full) reg key) (gen (reg OR take_bit 21 full))"
    for reg key using walk_last_step assms(2-4) by (simp add: full_def)
  have "full < 2 ^ 80" using from_be_less [of ksn] assms(1) by (simp add: full_def)
  then have u: "from_be (be_bytes 10 (unset_bit i full)) = unset_bit i full"
    using unset_bit_fits [of full 80 i] by (simp add: from_be_be_bytes)
  have d: "drop_bit 21 (unset_bit i full) = drop_bit 21 full"
    using assms(2) by (intro bit_eqI) (auto simp: bit_simps)
  have "gen full = (\<lambda>key. dukpt_generate_key cl key (drop 2 ksn))"
    using low_bytes [of 8 ksn] assms(1) by (simp add: gen_def full_def)
  then show ?thesis using step u d
    by (simp add: dukpt_transaction_key_def DUKPT_KSN_COUNTER_BITS_def Let_def walk_take_bit high_and_low
        flip: full_def gen_def)
qed

section \<open>Variants\<close>

lemma xor_bytes_inject:
  assumes "xor_bytes k m = xor_bytes k m'" and "length m \<le> length k" and "length m' \<le> length k"
  shows "m = m'"
proof (rule nth_equalityI)
  show l: "length m = length m'" using arg_cong [OF assms(1), of length] assms(2,3) by simp
  fix i assume "i < length m"
  then have "k ! i XOR m ! i = k ! i XOR m' ! i"
    using arg_cong [OF assms(1), of "\<lambda>xs. xs ! i"] l assms(2) by (simp add: xor_bytes_def)
  then show "m ! i = m' ! i" by (metis xor.assoc xor.left_neutral xor_self_eq)
qed

lemma distinct_masks: "distinct (map snd DUKPT_VARIANTS)" and mask_lengths: "\<forall>(v, m) \<in> set DUKPT_VARIANTS. length m = 16"
  by code_simp+

lemma same_mask: "map_of DUKPT_VARIANTS v = Some m \<Longrightarrow> map_of DUKPT_VARIANTS v' = Some m \<Longrightarrow> v = v'"
  using distinct_masks inj_onD [of snd "set DUKPT_VARIANTS" "(v, m)" "(v', m)"] by (auto dest!: map_of_SomeD simp: distinct_map)

lemma variant_key_mask:
  "dukpt_variant_key cl txn v = Inr k \<Longrightarrow> v \<noteq> ''data_req'' \<Longrightarrow>
     \<exists>m. map_of DUKPT_VARIANTS v = Some m \<and> length m = 16 \<and> k = xor_bytes txn m"
  using mask_lengths by (auto simp: dukpt_variant_key_def Let_def dest: map_of_SomeD split: option.splits)

text \<open>The keys of one transaction for PINs, for requests and for responses differ, and all differ from its
  transaction key.\<close>

theorem variants_differ:
  assumes "length txn = 16" and "dukpt_variant_key cl txn v = Inr k" and "dukpt_variant_key cl txn v' = Inr k'"
    and "v \<noteq> ''data_req''" and "v' \<noteq> ''data_req''" and "v \<noteq> v'"
  shows "k \<noteq> k'"
  using variant_key_mask [OF assms(2,4)] variant_key_mask [OF assms(3,5)] assms(1,6) same_mask
  by (metis order_refl xor_bytes_inject)

section \<open>The PIN of a terminal reaches the host\<close>

text \<open>C31. A PIN enciphered by a terminal, which holds the initial key only, is read by the host with the key it
  derives from the base key and the serial number sent along.\<close>

theorem host_reads_terminal_pin:
  assumes "invertible cl" and "hx k0 = Inr a" and "hx k1 = Inr b" and "ksn_device (ksn10 a) = ksn_device (ksn10 b)"
    and "dukpt_ipek cl bdk k0 = Inr (ipek, check)"
    and "list_all is_dec pin" and "length pin \<le> 14"
    and "dukpt_pin_block cl pin pan [] k1 ipek = Inr (block, pek, ksn)"
    and "dukpt_derive_key cl bdk k1 ''pin'' [] = Inr d"
  shows "dk_key d = pek \<and> (\<exists>clear. pin_block_decode cl block pan (dk_key d) ''0'' = Inr (pin, clear))"
proof -
  obtain txn k where w: "dukpt_working_key cl bdk k1 [] ''pin'' = Inr (txn, k)" "dk_key d = hex_upper k"
    using assms(9) by (auto simp: dukpt_derive_key_def result_iff)
  have w': "dukpt_working_key cl [] k1 ipek ''pin'' = Inr (txn, k)"
    using terminal_working_key [OF assms(1-5)] w(1) by simp
  have pad: "pin_field rnd pin ''0'' = pin_field [] pin ''0''" for rnd
    by (simp add: pin_field_def pin_pad_def)
  define rnd where "rnd = replicate 16 (65 :: nat)"
  have r: "list_all is_upper_hex rnd" "16 \<le> length rnd" by (simp_all add: rnd_def list_all_iff is_upper_hex_def)
  obtain field p enc where e: "pin_field [] pin ''0'' = Inr field" "pan_field pan = Inr p"
    "ecb cl k True (xor_bytes field p) = Inr enc" "block = hex_upper enc" "pek = hex_upper k"
    using assms(8) unfolding dukpt_pin_block_def w' by (clarsimp simp: result_iff)
  have "pin_block_encode cl rnd pin pan (hex_upper k) ''0'' = Inr (hex_upper (xor_bytes field p), block)"
    using e(1-4) by (simp add: pin_block_encode_def pad [of rnd] with_pan_def fmt_uses_pan_def)
  then have "pin_block_decode cl block pan (hex_upper k) ''0'' = Inr (pin, hex_upper (xor_bytes field p))"
    by (rule pin_block_decode_block [OF assms(1,6,7) r])
  then show ?thesis unfolding w(2) e(5) by blast
qed

section \<open>Applications\<close>

lemma demo_ipek:
  "dukpt_ipek plain_lib (u ''0123456789ABCDEFFEDCBA9876543210'') (u ''FFFF9876543210E00000'') =
     Inr (u ''FFFF9876543210E0FFFF9876543210E0'', u ''000000'')"
  by code_simp

lemma demo_ksns:
  "hx (u ''FFFF9876543210E00000'') = Inr [255, 255, 152, 118, 84, 50, 16, 224, 0, 0]"
  "hx (u ''FFFF9876543210E00005'') = Inr [255, 255, 152, 118, 84, 50, 16, 224, 0, 5]"
  "ksn_device (ksn10 [255, 255, 152, 118, 84, 50, 16, 224, 0, 0]) = ksn_device (ksn10 [255, 255, 152, 118, 84, 50, 16, 224, 0, 5])"
  by code_simp+

theorem terminal_agrees_with_host_witness:
  "dukpt_derive_key plain_lib [] (u ''FFFF9876543210E00005'') ''pin'' (u ''FFFF9876543210E0FFFF9876543210E0'') =
   dukpt_derive_key plain_lib (u ''0123456789ABCDEFFEDCBA9876543210'') (u ''FFFF9876543210E00005'') ''pin'' []"
  by (rule terminal_agrees_with_host [OF plain_lib_invertible demo_ksns demo_ipek])

theorem future_key_witness:
  "dukpt_transaction_key plain_lib (replicate 16 7) [255, 255, 152, 118, 84, 50, 16, 224, 0, 6] =
    rbind (dukpt_transaction_key plain_lib (replicate 16 7) (be_bytes 10 (unset_bit 1 (from_be [255, 255, 152, 118, 84, 50, 16, 224, 0, 6]))))
      (\<lambda>key. dukpt_generate_key plain_lib key (drop 2 [255, 255, 152, 118, 84, 50, 16, 224, 0, 6]))"
  by (rule future_key) (auto simp: from_be_def bit_iff_odd less_Suc_eq)

lemma demo_variants:
  "dukpt_variant_key plain_lib (zeros 16) ''none'' = Inr (zeros 16)"
  "dukpt_variant_key plain_lib (zeros 16) ''pin'' = Inr (zeros 7 @ [255] @ zeros 7 @ [255])"
  by code_simp+

theorem variants_differ_witness: "zeros 16 \<noteq> zeros 7 @ [255] @ zeros 7 @ [255]"
  by (rule variants_differ [OF _ demo_variants]) (simp_all add: zeros_def)

lemma demo_ipek_0:
  "dukpt_ipek plain_lib (u ''0123456789ABCDEFFEDCBA9876543210'') (u ''00'') = Inr (hex_upper (zeros 16), u ''000000'')"
  "dukpt_ipek plain_lib (u ''0123456789ABCDEFFEDCBA9876543210'') (u ''05'') = Inr (hex_upper (zeros 16), u ''000000'')"
  by code_simp+

lemma demo_ksns_0:
  "hx (u ''00'') = Inr [0]" "hx (u ''05'') = Inr [5]" "ksn_device (ksn10 [0]) = ksn_device (ksn10 [5])"
  by code_simp+

lemma walk_bits_numeral:
  "walk_bits gen (numeral k) counter reg key =
     (if bit counter (pred_numeral k)
      then rbind (gen (set_bit (pred_numeral k) reg) key) (walk_bits gen (pred_numeral k) counter (set_bit (pred_numeral k) reg))
      else walk_bits gen (pred_numeral k) counter reg key)"
  by (simp add: numeral_eq_Suc Let_def)

lemma demo_generate:
  "dukpt_generate_key plain_lib (zeros 16) (be_bytes 8 4) = Inr (zeros 7 @ [4] @ zeros 7 @ [4])"
  "dukpt_generate_key plain_lib (zeros 7 @ [4] @ zeros 7 @ [4]) (be_bytes 8 5) = Inr (zeros 7 @ [5] @ zeros 7 @ [5])"
  by code_simp+

lemma demo_transaction_key:
  "dukpt_transaction_key plain_lib (zeros 16) (ksn10 [5]) = Inr (zeros 7 @ [5] @ zeros 7 @ [5])"
proof -
  have "from_be (ksn10 [5]) = 5" by code_simp
  then show ?thesis using demo_generate
    by (simp add: dukpt_transaction_key_def DUKPT_KSN_COUNTER_BITS_def walk_bits_numeral bit_0)
qed

lemma demo_working_key:
  "dukpt_working_key plain_lib (u ''0123456789ABCDEFFEDCBA9876543210'') (u ''05'') [] ''pin'' =
     Inr (zeros 7 @ [5] @ zeros 7 @ [5], zeros 7 @ [250] @ zeros 7 @ [250])"
proof -
  have "dukpt_variant_key plain_lib (zeros 7 @ [5] @ zeros 7 @ [5]) ''pin'' = Inr (zeros 7 @ [250] @ zeros 7 @ [250])"
    by code_simp
  then show ?thesis unfolding dukpt_working_key_def demo_ipek_0 demo_ksns_0
    using demo_transaction_key demo_ipek_0 by (simp add: demo_ksns_0)
qed

lemma demo_terminal_key:
  "dukpt_working_key plain_lib [] (u ''05'') (hex_upper (zeros 16)) ''pin'' =
     Inr (zeros 7 @ [5] @ zeros 7 @ [5], zeros 7 @ [250] @ zeros 7 @ [250])"
  by (rule terminal_working_key [OF plain_lib_invertible demo_ksns_0 demo_ipek_0(1), THEN trans, OF demo_working_key])

lemma demo_terminal_block:
  "dukpt_pin_block plain_lib (u ''1234'') (u ''4111111111111111'') [] (u ''05'') (hex_upper (zeros 16)) =
     Inr (u ''041225EEEEEEEEEE'', u ''00000000000000FA00000000000000FA'', u ''05'')"
proof -
  have f: "pin_field [] (u ''1234'') ''0'' = Inr [4, 18, 52, 255, 255, 255, 255, 255]"
    "pan_field (u ''4111111111111111'') = Inr [0, 0, 17, 17, 17, 17, 17, 17]" by code_simp+
  have h: "hex_upper (xor_bytes [4, 18, 52, 255, 255, 255, 255, 255] [0, 0, 17, 17, 17, 17, 17, 17]) = u ''041225EEEEEEEEEE''"
    "hex_upper (zeros 7 @ [250] @ zeros 7 @ [250]) = u ''00000000000000FA00000000000000FA''"
    "py_upper (filter (\<lambda>c. \<not> is_ws c) (u ''05'')) = u ''05''" by code_simp+
  have e: "ecb plain_lib k True x = Inr x" for k x by (simp add: ecb_def plain_lib_def)
  show ?thesis unfolding dukpt_pin_block_def demo_terminal_key by (simp only: f h e rbind.simps prod.case)
qed

lemma demo_host_key:
  "dukpt_derive_key plain_lib (u ''0123456789ABCDEFFEDCBA9876543210'') (u ''05'') ''pin'' [] =
     Inr \<lparr>dk_transaction_key = u ''00000000000000050000000000000005'', dk_key = u ''00000000000000FA00000000000000FA'',
           dk_kcv = u ''000000''\<rparr>"
proof -
  have h: "hex_upper (zeros 7 @ [5] @ zeros 7 @ [5]) = u ''00000000000000050000000000000005''"
    "hex_upper (zeros 7 @ [250] @ zeros 7 @ [250]) = u ''00000000000000FA00000000000000FA''"
    "kcv plain_lib (u ''00000000000000FA00000000000000FA'') = Inr (u ''000000'', u ''0000000000000000'')" by code_simp+
  show ?thesis unfolding dukpt_derive_key_def demo_working_key by (simp only: h rbind.simps prod.case)
qed

theorem host_reads_terminal_pin_witness:
  "\<exists>clear. pin_block_decode plain_lib (u ''041225EEEEEEEEEE'') (u ''4111111111111111'') (u ''00000000000000FA00000000000000FA'') ''0'' =
     Inr (u ''1234'', clear)"
  using host_reads_terminal_pin [OF plain_lib_invertible demo_ksns_0 demo_ipek_0(1) _ _ demo_terminal_block demo_host_key]
  by (simp add: list_all_iff u_def is_dec_def)

end
