(* ===== verification/Aes_Dukpt.thy ===== *)
theory Aes_Dukpt
  imports Dukpt
begin

text \<open>
  AES in the payment cryptography (\<open>worker/engine/crypto_tools.py\<close>, third part): AES-CMAC and DUKPT on AES
  (X9.24-3), whose keys come from a derivation function over sixteen bytes that name the usage of the key, its
  length and the device or the counter.
\<close>

section \<open>AES-CMAC\<close>

text \<open>Doubling in the field of the block: shift out the top bit, reduce when it was set.\<close>

definition cmac_double :: "byte list \<Rightarrow> byte list result" where
  "cmac_double b =
     (case b of
        [] \<Rightarrow> Inl IndexError
      | b0 # _ \<Rightarrow>
          (let i = take_bit 128 (push_bit 1 (from_be b)) in Inr (be_bytes 16 (if bit b0 7 then i XOR 135 else i))))"

definition aes_cmac_subkeys :: "crypto_lib \<Rightarrow> byte list \<Rightarrow> (byte list \<times> byte list) result" where
  "aes_cmac_subkeys cl key =
     rbind (cl_ecb cl AES True key (zeros 16)) (\<lambda>l0. rbind (cmac_double l0) (\<lambda>k1. rbind (cmac_double k1) (\<lambda>k2. Inr (k1, k2))))"

text \<open>What is chained, and the last block: masked with the first subkey when complete, padded and masked with the
  second otherwise.\<close>

definition cmac_split :: "byte list \<Rightarrow> byte list \<Rightarrow> byte list \<Rightarrow> byte list \<times> byte list" where
  "cmac_split k1 k2 msg =
     (if msg \<noteq> [] \<and> length msg mod 16 = 0
      then (take (length msg - 16) msg, xor_bytes (drop (length msg - 16) msg) k1)
      else (let rest = drop (length msg div 16 * 16) msg; padded = rest @ [128] @ zeros (15 - length rest) in
            (take (length msg - length rest) msg, xor_bytes padded k2)))"

definition aes_cmac :: "crypto_lib \<Rightarrow> ustr \<Rightarrow> ustr \<Rightarrow> (ustr \<times> ustr) result" where
  "aes_cmac cl key_hex data_hex =
     rbind (hx key_hex) (\<lambda>key. rbind (hx data_hex) (\<lambda>msg. rbind (aes_cmac_subkeys cl key) (\<lambda>(k1, k2).
       (let (front, final) = cmac_split k1 k2 msg; enc = cl_ecb cl AES True key in
        rbind (cbc_mac enc (zeros 16) (chunks 16 front)) (\<lambda>x. rbind (enc (xor_bytes x final)) (\<lambda>tag.
          Inr (hex_upper tag, take 16 (hex_upper tag))))))))"

section \<open>The derivation function\<close>

definition AKU_PIN :: nat where "AKU_PIN = 4096"
definition AKU_MAC_GEN :: nat where "AKU_MAC_GEN = 8192"
definition AKU_MAC_VER :: nat where "AKU_MAC_VER = 8193"
definition AKU_DATA_ENC :: nat where "AKU_DATA_ENC = 12288"
definition AKU_DATA_DEC :: nat where "AKU_DATA_DEC = 12289"
definition AKU_KEY_DERIVATION :: nat where "AKU_KEY_DERIVATION = 32768"
definition AKU_INITIAL_KEY :: nat where "AKU_INITIAL_KEY = 32769"

definition AES_DUKPT_USAGES :: "(string \<times> nat) list" where
  "AES_DUKPT_USAGES =
     [(''pin'', AKU_PIN), (''mac_gen'', AKU_MAC_GEN), (''mac_ver'', AKU_MAC_VER), (''mac'', AKU_MAC_GEN),
      (''data_enc'', AKU_DATA_ENC), (''data_dec'', AKU_DATA_DEC), (''data'', AKU_DATA_ENC)]"

text \<open>\<open>_AES_ALGO[n]\<close>.\<close>

definition aes_algo :: "nat \<Rightarrow> nat result" where
  "aes_algo n = of_option KeyError (map_of [(16, 2), (24, 3), (32, 4)] n)"

definition aes_dukpt_dd :: "nat \<Rightarrow> nat \<Rightarrow> nat \<Rightarrow> byte list \<Rightarrow> nat \<Rightarrow> byte list" where
  "aes_dukpt_dd key_usage algo key_bits id8 counter =
     (let d = [1, 1] @ be_bytes 2 key_usage @ be_bytes 2 algo @ be_bytes 2 key_bits in
      if key_usage = AKU_INITIAL_KEY then d @ take 8 id8
      else take 12 (d @ take 4 (drop 4 id8) @ zeros 4) @ be_bytes 4 counter)"

text \<open>The loop of the function; a block counter above 255 does not fit its byte.\<close>

function kdf_blocks :: "crypto_lib \<Rightarrow> byte list \<Rightarrow> byte list \<Rightarrow> nat \<Rightarrow> nat \<Rightarrow> byte list \<Rightarrow> byte list result" where
  "kdf_blocks cl key dd key_bytes ctr out =
     (if length out < key_bytes
      then if 255 < ctr then Inl ValueError
           else rbind (cl_ecb cl AES True key (dd[1 := byte_of ctr])) (\<lambda>y. kdf_blocks cl key dd key_bytes (ctr + 1) (out @ y))
      else Inr out)"
  by auto
termination by (relation "measure (\<lambda>(cl, key, dd, key_bytes, ctr, out). 256 - ctr)") auto

declare kdf_blocks.simps [simp del]

definition aes_dukpt_kdf :: "crypto_lib \<Rightarrow> byte list \<Rightarrow> byte list \<Rightarrow> byte list result" where
  "aes_dukpt_kdf cl derivation_key dd =
     (let key_bytes = from_be (take 2 (drop 6 dd)) div 8 in
      rbind (kdf_blocks cl derivation_key dd key_bytes 1 []) (\<lambda>out. Inr (take key_bytes out)))"

section \<open>DUKPT on AES\<close>

definition aes_dukpt_initial_key :: "crypto_lib \<Rightarrow> ustr \<Rightarrow> ustr \<Rightarrow> ustr result" where
  "aes_dukpt_initial_key cl bdk_hex initial_key_id_hex =
     rbind (hx bdk_hex) (\<lambda>bdk. rbind (hx initial_key_id_hex) (\<lambda>i.
       (let id8 = take 8 (rjust_bytes 8 i) in
        rbind (aes_algo (length bdk)) (\<lambda>algo.
        rbind (aes_dukpt_kdf cl bdk (aes_dukpt_dd AKU_INITIAL_KEY algo (length bdk * 8) id8 0)) (\<lambda>ik.
          Inr (hex_upper ik))))))"

definition aes_dukpt_transaction_key :: "crypto_lib \<Rightarrow> byte list \<Rightarrow> byte list \<Rightarrow> nat \<Rightarrow> byte list result" where
  "aes_dukpt_transaction_key cl ik id8 counter =
     rbind (aes_algo (length ik)) (\<lambda>algo.
       walk_bits (\<lambda>working key. aes_dukpt_kdf cl key (aes_dukpt_dd AKU_KEY_DERIVATION algo (length ik * 8) id8 working))
         32 counter 0 ik)"

record aes_dukpt_key =
  ad_key :: ustr
  ad_transaction_key :: ustr
  ad_ik :: ustr

definition aes_dukpt_derive_key :: "crypto_lib \<Rightarrow> ustr \<Rightarrow> string \<Rightarrow> ustr \<Rightarrow> ustr \<Rightarrow> aes_dukpt_key result" where
  "aes_dukpt_derive_key cl ksn_hex variant bdk_hex ik_hex =
     rbind (hx ksn_hex) (\<lambda>ksn.
       (let id8 = take 8 ksn; counter = from_be (rjust_bytes 4 (take 4 (drop 8 ksn))) in
        rbind (if ik_hex \<noteq> [] then hx ik_hex
               else rbind (aes_dukpt_initial_key cl bdk_hex (hex_upper id8)) hx) (\<lambda>ik.
        rbind (aes_dukpt_transaction_key cl ik id8 counter) (\<lambda>txn.
          (let usage = or_default AKU_PIN (map_of AES_DUKPT_USAGES variant) in
           rbind (aes_algo (length ik)) (\<lambda>algo.
           rbind (aes_dukpt_kdf cl txn (aes_dukpt_dd usage algo (length ik * 8) id8 counter)) (\<lambda>working.
             Inr \<lparr>ad_key = hex_upper working, ad_transaction_key = hex_upper txn, ad_ik = hex_upper ik\<rparr>)))))))"

text \<open>The block, the PIN key and the KSN in capitals.\<close>

definition aes_dukpt_pin_block ::
    "crypto_lib \<Rightarrow> ustr \<Rightarrow> ustr \<Rightarrow> ustr \<Rightarrow> ustr \<Rightarrow> ustr \<Rightarrow> ustr \<Rightarrow> (ustr \<times> ustr \<times> ustr) result" where
  "aes_dukpt_pin_block cl rnd pin pan ksn_hex bdk_hex ik_hex =
     rbind (aes_dukpt_derive_key cl ksn_hex ''pin'' bdk_hex ik_hex) (\<lambda>d.
     rbind (pin_block_iso4_encode cl rnd pin pan (ad_key d)) (\<lambda>block.
       Inr (block, ad_key d, py_upper ksn_hex)))"

section \<open>Lengths\<close>

lemma kdf_blocks_length:
  "kdf_blocks cl key dd n ctr out = Inr y \<Longrightarrow> n \<le> length y"
proof (induction cl key dd n ctr out arbitrary: y rule: kdf_blocks.induct)
  case (1 cl key dd n ctr out)
  then show ?case by (subst (asm) (2) kdf_blocks.simps) (auto simp: result_iff split: if_splits)
qed

lemma aes_algo_le: "aes_algo n = Inr a \<Longrightarrow> n \<le> 32 \<and> 0 < n"
  by (auto simp: aes_algo_def result_iff split: if_splits)

lemma dd_key_bits: "bits < 65536 \<Longrightarrow> from_be (take 2 (drop 6 (aes_dukpt_dd usage algo bits id8 counter))) = bits"
  by (auto simp: aes_dukpt_dd_def Let_def from_be_be_bytes take_append drop_append)

text \<open>The derivation function gives a key of the length its data name, whatever the library answers.\<close>

theorem kdf_length:
  assumes "bits < 65536" and "aes_dukpt_kdf cl key (aes_dukpt_dd usage algo bits id8 counter) = Inr k"
  shows "length k = bits div 8"
  using assms(2) kdf_blocks_length by (auto simp: aes_dukpt_kdf_def dd_key_bits [OF assms(1)] result_iff Let_def)

section \<open>The terminal and the host\<close>

lemma aes_initial_key_length:
  "aes_dukpt_initial_key cl bdk i = Inr ik \<Longrightarrow> \<exists>k. ik = hex_upper k \<and> 0 < length k"
proof -
  assume "aes_dukpt_initial_key cl bdk i = Inr ik"
  then obtain b i8 algo k where e: "aes_algo (length b) = Inr algo"
    "aes_dukpt_kdf cl b (aes_dukpt_dd AKU_INITIAL_KEY algo (length b * 8) i8 0) = Inr k" "ik = hex_upper k"
    by (auto simp: aes_dukpt_initial_key_def result_iff Let_def)
  have b: "length b \<le> 32" "0 < length b" using aes_algo_le [OF e(1)] by simp_all
  then have "length k = length b" using kdf_blocks_length e(2)
    by (auto simp: aes_dukpt_kdf_def dd_key_bits result_iff Let_def)
  then show ?thesis using e(3) b(2) by auto
qed

text \<open>A terminal injected with the initial key of its identifier derives, for every serial number that begins with
  it, the keys the host derives from the base key.\<close>

theorem aes_terminal_agrees_with_host:
  assumes "hx k = Inr ksn" and "hx i = Inr (take 8 ksn)" and "aes_dukpt_initial_key cl bdk i = Inr ik"
  shows "aes_dukpt_derive_key cl k variant [] ik = aes_dukpt_derive_key cl k variant bdk []"
proof -
  obtain b where b: "ik = hex_upper b" "0 < length b" using aes_initial_key_length [OF assms(3)] by blast
  have "length ik = 2 * length b" using b(1) by simp
  then have n: "ik \<noteq> []" using b(2) by auto
  have "aes_dukpt_initial_key cl bdk (hex_upper (take 8 ksn)) = Inr ik"
    using assms(2,3) by (simp add: aes_dukpt_initial_key_def)
  then show ?thesis unfolding aes_dukpt_derive_key_def assms(1) using n b(1) by (simp add: Let_def)
qed

text \<open>The key of a transaction is one derivation away from that of the counter without its lowest bit.\<close>

theorem aes_future_key:
  assumes "i < 32" and "bit counter i" and "\<forall>j < i. \<not> bit counter j" and "counter < 2 ^ 32"
    and "aes_algo (length ik) = Inr algo"
  shows "aes_dukpt_transaction_key cl ik id8 counter =
    rbind (aes_dukpt_transaction_key cl ik id8 (unset_bit i counter))
      (\<lambda>key. aes_dukpt_kdf cl key (aes_dukpt_dd AKU_KEY_DERIVATION algo (length ik * 8) id8 counter))"
proof -
  define gen where "gen = (\<lambda>working key. aes_dukpt_kdf cl key (aes_dukpt_dd AKU_KEY_DERIVATION algo (length ik * 8) id8 working))"
  have "take_bit 32 counter = counter" using assms(4) by (simp add: take_bit_nat_eq_self_iff)
  then have "walk_bits gen 32 counter 0 ik = rbind (walk_bits gen 32 (unset_bit i counter) 0 ik) (gen counter)"
    using walk_last_step [OF assms(2,3,1), of gen 0 ik] by simp
  moreover have "aes_dukpt_transaction_key cl ik id8 c = walk_bits gen 32 c 0 ik" for c
    using assms(5) by (simp add: aes_dukpt_transaction_key_def gen_def)
  ultimately show ?thesis by (simp add: gen_def)
qed

section \<open>Usages are kept apart\<close>

lemma be_bytes_inject: "m < 256 ^ n \<Longrightarrow> m' < 256 ^ n \<Longrightarrow> be_bytes n m = be_bytes n m' \<Longrightarrow> m = m'"
  by (metis from_be_be_bytes)

text \<open>The usage is read off the data, the block counter apart.\<close>

lemma dd_usage:
  assumes "(aes_dukpt_dd usage algo bits id8 counter)[1 := b] = (aes_dukpt_dd usage' algo bits id8 counter')[1 := b]"
    and "usage < 65536" and "usage' < 65536"
  shows "usage = usage'"
proof -
  have "take 2 (drop 2 ((aes_dukpt_dd us algo bits id8 c)[1 := b])) = be_bytes 2 us" for us c
    by (simp add: aes_dukpt_dd_def Let_def take_append drop_append)
  then have "be_bytes 2 usage = be_bytes 2 usage'" using assms(1) by metis
  then show ?thesis using be_bytes_inject [of usage 2 usage'] assms(2,3) by simp
qed

lemma dd_length: "usage \<noteq> AKU_INITIAL_KEY \<Longrightarrow> length (aes_dukpt_dd usage algo bits id8 counter) = 16"
  by (simp add: aes_dukpt_dd_def Let_def zeros_def)

lemma kdf_blocks_prefix: "kdf_blocks cl key dd n ctr out = Inr y \<Longrightarrow> take (length out) y = out"
proof (induction cl key dd n ctr out arbitrary: y rule: kdf_blocks.induct)
  case (1 cl key dd n ctr out)
  show ?case
  proof (cases "length out < n")
    case True
    then obtain z where z: "\<not> 255 < ctr" "cl_ecb cl AES True key (dd[1 := byte_of ctr]) = Inr z"
      "kdf_blocks cl key dd n (ctr + 1) (out @ z) = Inr y"
      using 1(2) by (subst (asm) kdf_blocks.simps) (auto simp: result_iff split: if_splits)
    have "take (length (out @ z)) y = out @ z" using 1(1) True z by blast
    then have "take (length out) (take (length (out @ z)) y) = out" by simp
    then show ?thesis by simp
  next
    case False
    then show ?thesis using 1(2) by (subst (asm) kdf_blocks.simps) auto
  qed
qed

lemma kdf_first_block:
  assumes "invertible cl" and "aes_dukpt_kdf cl key dd = Inr k" and "length dd = 16"
    and "from_be (take 2 (drop 6 dd)) div 8 \<ge> 16"
  shows "cl_ecb cl AES True key (dd[1 := 1]) = Inr (take 16 k)"
proof -
  define n where "n = from_be (take 2 (drop 6 dd)) div 8"
  obtain y where y: "kdf_blocks cl key dd n 1 [] = Inr y" "k = take n y"
    using assms(2) by (auto simp: aes_dukpt_kdf_def result_iff Let_def n_def)
  obtain z where z: "cl_ecb cl AES True key (dd[1 := byte_of 1]) = Inr z" "kdf_blocks cl key dd n (1 + 1) ([] @ z) = Inr y"
    using y(1) assms(4) n_def by (subst (asm) kdf_blocks.simps) (auto simp: result_iff split: if_splits)
  have "length z = 16" using invertibleD(1) [OF assms(1) z(1)] assms(3) by simp
  then have "take 16 y = z" using kdf_blocks_prefix [OF z(2)] by simp
  then show ?thesis using z(1) y(2) assms(4) n_def by (simp add: byte_of_def min_absorb1)
qed

lemma usage_bounds: "or_default AKU_PIN (map_of AES_DUKPT_USAGES v) < 65536"
  "or_default AKU_PIN (map_of AES_DUKPT_USAGES v) \<noteq> AKU_INITIAL_KEY"
  by (simp_all add: AES_DUKPT_USAGES_def or_default_def AKU_PIN_def AKU_MAC_GEN_def AKU_MAC_VER_def AKU_DATA_ENC_def
      AKU_DATA_DEC_def AKU_INITIAL_KEY_def)

lemma aes_algo_ge: "aes_algo n = Inr a \<Longrightarrow> 16 \<le> n"
  by (auto simp: aes_algo_def result_iff split: if_splits)

lemma hex_upper_inject: "hex_upper x = hex_upper y \<longleftrightarrow> x = y"
  by (metis hx_hex_upper sum.inject(2))

text \<open>Two usages of one transaction never get the same key.\<close>

theorem usages_differ:
  assumes "invertible cl" and "aes_dukpt_derive_key cl k v bdk ik = Inr d" and "aes_dukpt_derive_key cl k v' bdk ik = Inr d'"
    and "or_default AKU_PIN (map_of AES_DUKPT_USAGES v) \<noteq> or_default AKU_PIN (map_of AES_DUKPT_USAGES v')"
  shows "ad_transaction_key d = ad_transaction_key d' \<and> ad_key d \<noteq> ad_key d'"
proof -
  define us where "us v = or_default AKU_PIN (map_of AES_DUKPT_USAGES v)" for v
  obtain id8 counter txn algo w w' h and b :: "byte list" where e: "aes_algo (length b) = Inr algo"
    "aes_dukpt_kdf cl txn (aes_dukpt_dd (us v) algo (length b * 8) id8 counter) = Inr w"
    "aes_dukpt_kdf cl txn (aes_dukpt_dd (us v') algo (length b * 8) id8 counter) = Inr w'"
    "d = \<lparr>ad_key = hex_upper w, ad_transaction_key = hex_upper txn, ad_ik = h\<rparr>"
    "d' = \<lparr>ad_key = hex_upper w', ad_transaction_key = hex_upper txn, ad_ik = h\<rparr>"
    using assms(2,3) by (clarsimp simp: aes_dukpt_derive_key_def result_iff Let_def us_def hex_upper_inject)
  have b: "length b * 8 < 65536" "16 \<le> length b * 8 div 8" using aes_algo_le [OF e(1)] aes_algo_ge [OF e(1)] by simp_all
  have block: "cl_ecb cl AES True txn ((aes_dukpt_dd (us v) algo (length b * 8) id8 counter)[1 := 1]) = Inr (take 16 w)"
    if "aes_dukpt_kdf cl txn (aes_dukpt_dd (us v) algo (length b * 8) id8 counter) = Inr w" for v w
    using kdf_first_block [OF assms(1) that] b dd_length usage_bounds(2) by (simp add: us_def dd_key_bits)
  have "w \<noteq> w'"
  proof
    assume "w = w'"
    then have "(aes_dukpt_dd (us v) algo (length b * 8) id8 counter)[1 := 1] = (aes_dukpt_dd (us v') algo (length b * 8) id8 counter)[1 := 1]"
      using invertibleD(2) [OF assms(1) block [OF e(2)]] invertibleD(2) [OF assms(1) block [OF e(3)]] by simp
    then have "us v = us v'" by (rule dd_usage) (simp_all add: us_def usage_bounds)
    then show False using assms(4) by (simp add: us_def)
  qed
  then show ?thesis using e(4,5) by (simp add: hex_upper_inject)
qed

text \<open>A variant that is not in the table gets the key for PINs, with no error; on Triple DES it is refused.\<close>

theorem unknown_usage_is_pin:
  "aes_dukpt_derive_key cl k ''mac_req'' bdk ik = aes_dukpt_derive_key cl k ''pin'' bdk ik \<and>
   dukpt_variant_key cl txn ''mac_gen'' = Inl ValueError"
  by (simp add: aes_dukpt_derive_key_def AES_DUKPT_USAGES_def dukpt_variant_key_def DUKPT_VARIANTS_def)

section \<open>Applications\<close>

lemma be_bytes_numeral: "be_bytes (numeral k) n = be_bytes (pred_numeral k) (n div 256) @ [byte_of (n mod 256)]"
  by (simp only: numeral_eq_Suc [of k] be_bytes.simps)

lemmas derive_eval = be_bytes_numeral byte_of_def kdf_blocks.simps plain_lib_def aes_dukpt_dd_def aes_dukpt_kdf_def aes_algo_def
  AKU_INITIAL_KEY_def AKU_KEY_DERIVATION_def AKU_PIN_def AKU_MAC_GEN_def zeros_def from_be_def

lemma demo_kdf:
  "aes_dukpt_kdf plain_lib (zeros 24) (aes_dukpt_dd AKU_PIN 3 192 [1, 2, 3, 4, 5, 6, 7, 8] 5) =
     Inr [1, 1, 16, 0, 0, 3, 0, 192, 5, 6, 7, 8, 0, 0, 0, 5, 1, 2, 16, 0, 0, 3, 0, 192]"
  by (simp add: derive_eval)

theorem kdf_length_witness: "length [1, 1, 16, 0, 0, 3, 0, 192, 5, 6, 7, 8, 0, 0, 0, 5, 1, 2, 16, 0, 0, 3, 0, 192 :: byte] = 192 div 8"
  by (rule kdf_length [OF _ demo_kdf]) simp

lemma demo_aes_hx:
  "hx (u ''123456789012345600000005'') = Inr [18, 52, 86, 120, 144, 18, 52, 86, 0, 0, 0, 5]"
  "hx (u ''1234567890123456'') = Inr [18, 52, 86, 120, 144, 18, 52, 86]"
  "hx (u ''FEDCBA9876543210F1F1F1F1F1F1F1F1'') = Inr [254, 220, 186, 152, 118, 84, 50, 16, 241, 241, 241, 241, 241, 241, 241, 241]"
  by code_simp+

definition demo_ik :: "byte list" where
  "demo_ik = [1, 1, 128, 1, 0, 2, 0, 128, 18, 52, 86, 120, 144, 18, 52, 86]"

lemma demo_initial_key:
  "aes_dukpt_initial_key plain_lib (u ''FEDCBA9876543210F1F1F1F1F1F1F1F1'') (u ''1234567890123456'') = Inr (hex_upper demo_ik)"
  unfolding aes_dukpt_initial_key_def demo_aes_hx demo_ik_def by (simp add: derive_eval rjust_bytes_def)

theorem aes_terminal_agrees_with_host_witness:
  "aes_dukpt_derive_key plain_lib (u ''123456789012345600000005'') ''mac'' [] (hex_upper demo_ik) =
   aes_dukpt_derive_key plain_lib (u ''123456789012345600000005'') ''mac'' (u ''FEDCBA9876543210F1F1F1F1F1F1F1F1'') []"
  by (rule aes_terminal_agrees_with_host [OF demo_aes_hx(1) _ demo_initial_key]) (simp add: demo_aes_hx)

theorem aes_future_key_witness:
  "aes_dukpt_transaction_key plain_lib (zeros 16) [1, 2, 3, 4, 5, 6, 7, 8] 6 =
    rbind (aes_dukpt_transaction_key plain_lib (zeros 16) [1, 2, 3, 4, 5, 6, 7, 8] (unset_bit 1 6))
      (\<lambda>key. aes_dukpt_kdf plain_lib key (aes_dukpt_dd AKU_KEY_DERIVATION 2 (length (zeros 16) * 8) [1, 2, 3, 4, 5, 6, 7, 8] 6))"
  by (rule aes_future_key) (auto simp: bit_iff_odd less_Suc_eq aes_algo_def zeros_def)

lemma aes_walk_0: "aes_dukpt_transaction_key cl (zeros 16) id8 0 = Inr (zeros 16)"
  by (simp add: aes_dukpt_transaction_key_def aes_algo_def zeros_def walk_no_bits)

lemma demo_aes_key:
  "hx k = Inr [18, 52, 86, 120, 144, 18, 52, 86] \<Longrightarrow>
   aes_dukpt_derive_key plain_lib k ''pin'' [] (hex_upper (zeros 16)) = Inr
     \<lparr>ad_key = hex_upper [1, 1, 16, 0, 0, 2, 0, 128, 144, 18, 52, 86, 0, 0, 0, 0],
      ad_transaction_key = hex_upper (zeros 16), ad_ik = hex_upper (zeros 16)\<rparr>"
  "hx k = Inr [18, 52, 86, 120, 144, 18, 52, 86] \<Longrightarrow>
   aes_dukpt_derive_key plain_lib k ''mac'' [] (hex_upper (zeros 16)) = Inr
     \<lparr>ad_key = hex_upper [1, 1, 32, 0, 0, 2, 0, 128, 144, 18, 52, 86, 0, 0, 0, 0],
      ad_transaction_key = hex_upper (zeros 16), ad_ik = hex_upper (zeros 16)\<rparr>"
proof -
  have n: "hex_upper (zeros 16) \<noteq> []" by code_simp
  have a: "aes_algo (length (zeros 16)) = Inr 2" by (simp add: aes_algo_def zeros_def)
  have c: "from_be (rjust_bytes 4 (take 4 (drop 8 [18, 52, 86, 120, 144, 18, 52, 86]))) = 0"
    by (simp add: rjust_bytes_def zeros_def from_be_def numeral_eq_Suc)
  have t: "take 8 [18, 52, 86, 120, 144, 18, 52, 86 :: byte] = [18, 52, 86, 120, 144, 18, 52, 86]" by simp
  have f: "aes_dukpt_kdf plain_lib (zeros 16) (aes_dukpt_dd AKU_PIN 2 (length (zeros 16) * 8) [18, 52, 86, 120, 144, 18, 52, 86] 0) =
      Inr [1, 1, 16, 0, 0, 2, 0, 128, 144, 18, 52, 86, 0, 0, 0, 0]"
    "aes_dukpt_kdf plain_lib (zeros 16) (aes_dukpt_dd AKU_MAC_GEN 2 (length (zeros 16) * 8) [18, 52, 86, 120, 144, 18, 52, 86] 0) =
      Inr [1, 1, 32, 0, 0, 2, 0, 128, 144, 18, 52, 86, 0, 0, 0, 0]"
    by (simp_all add: derive_eval)
  have v: "or_default AKU_PIN (map_of AES_DUKPT_USAGES ''pin'') = AKU_PIN" "or_default AKU_PIN (map_of AES_DUKPT_USAGES ''mac'') = AKU_MAC_GEN"
    by (simp_all add: AES_DUKPT_USAGES_def)
  assume h: "hx k = Inr [18, 52, 86, 120, 144, 18, 52, 86]"
  show "aes_dukpt_derive_key plain_lib k ''pin'' [] (hex_upper (zeros 16)) = Inr
     \<lparr>ad_key = hex_upper [1, 1, 16, 0, 0, 2, 0, 128, 144, 18, 52, 86, 0, 0, 0, 0],
      ad_transaction_key = hex_upper (zeros 16), ad_ik = hex_upper (zeros 16)\<rparr>"
    unfolding aes_dukpt_derive_key_def h
    by (simp only: rbind.simps Let_def n if_True simp_thms hx_hex_upper aes_walk_0 a c t f v)
  show "aes_dukpt_derive_key plain_lib k ''mac'' [] (hex_upper (zeros 16)) = Inr
     \<lparr>ad_key = hex_upper [1, 1, 32, 0, 0, 2, 0, 128, 144, 18, 52, 86, 0, 0, 0, 0],
      ad_transaction_key = hex_upper (zeros 16), ad_ik = hex_upper (zeros 16)\<rparr>"
    unfolding aes_dukpt_derive_key_def h
    by (simp only: rbind.simps Let_def n if_True simp_thms hx_hex_upper aes_walk_0 a c t f v)
qed

lemma demo_usages:
  "or_default AKU_PIN (map_of AES_DUKPT_USAGES ''pin'') \<noteq> or_default AKU_PIN (map_of AES_DUKPT_USAGES ''mac'')"
  by (simp add: AES_DUKPT_USAGES_def AKU_PIN_def AKU_MAC_GEN_def)

theorem usages_differ_witness:
  "hex_upper [1, 1, 16, 0, 0, 2, 0, 128, 144, 18, 52, 86, 0, 0, 0, 0] \<noteq> hex_upper [1, 1, 32, 0, 0, 2, 0, 128, 144, 18, 52, 86, 0, 0, 0, 0]"
  by (rule usages_differ [OF plain_lib_invertible demo_aes_key [OF demo_aes_hx(2)] demo_usages,
      THEN conjunct2, unfolded aes_dukpt_key.select_convs])

end
