(* ===== verification/Crypto_Ops.thy ===== *)
theory Crypto_Ops
  imports Aes_Dukpt Scenario
begin

text \<open>
  The operations of a crypto node by name (\<open>OPERATIONS\<close> and \<open>run_crypto\<close> of \<open>worker/engine/crypto_tools.py\<close>), with
  their parameters and answers as texts. Parameters that are not texts, which the caller may pass, are left out:
  the code raises on most of them. An error is told apart by its class.
\<close>

section \<open>Parameters and answers\<close>

type_synonym params = "(string \<times> string) list"
type_synonym answer = "(string \<times> pyv) list"

text \<open>\<open>p.get(k, d)\<close>, and one name in place of another.\<close>

definition par :: "params \<Rightarrow> string \<Rightarrow> string \<Rightarrow> string" where
  "par p k d = or_default d (map_of p k)"

definition upar :: "params \<Rightarrow> string \<Rightarrow> ustr" where
  "upar p k = u (par p k [])"

definition upar2 :: "params \<Rightarrow> string \<Rightarrow> string \<Rightarrow> ustr" where
  "upar2 p k k' = u (par p k (par p k' []))"

definition shown :: "ustr \<Rightarrow> pyv" where
  "shown s = PStr (map char_of s)"

definition answer :: "('a \<Rightarrow> answer) \<Rightarrow> 'a result \<Rightarrow> answer result" where
  "answer f r = rbind r (\<lambda>x. Inr (f x))"

text \<open>\<open>_match\<close> on an answer.\<close>

definition with_match :: "(ustr \<times> bool) option \<Rightarrow> answer" where
  "with_match m = (case m of None \<Rightarrow> [] | Some (want, ok) \<Rightarrow> [(''expected'', shown want), (''match'', PBool ok)])"

section \<open>PIN blocks of every format\<close>

definition encode_pin_block :: "crypto_lib \<Rightarrow> ustr \<Rightarrow> ustr \<Rightarrow> ustr \<Rightarrow> ustr \<Rightarrow> string \<Rightarrow> answer result" where
  "encode_pin_block cl rnd pin pan key_hex fmt =
     (if fmt = ''4''
      then answer (\<lambda>block. [(''pin_block'', shown block), (''format'', PStr ''4'')]) (pin_block_iso4_encode cl rnd pin pan key_hex)
      else answer (\<lambda>(clear, block). [(''clear_block'', shown clear), (''pin_block'', shown block), (''format'', PStr fmt)])
             (pin_block_encode cl rnd pin pan key_hex fmt))"

definition decode_pin_block :: "crypto_lib \<Rightarrow> ustr \<Rightarrow> ustr \<Rightarrow> ustr \<Rightarrow> string \<Rightarrow> answer result" where
  "decode_pin_block cl block_hex pan key_hex fmt =
     (if fmt = ''4''
      then answer (\<lambda>(pin, field). [(''pin'', shown pin), (''format'', PStr ''4''), (''clear_field'', shown field)])
             (pin_block_iso4_decode cl block_hex pan key_hex)
      else answer (\<lambda>(pin, clear). [(''pin'', shown pin), (''clear_block'', shown clear), (''format'', PStr fmt)])
             (pin_block_decode cl block_hex pan key_hex fmt))"

section \<open>The table of operations\<close>

definition des_operations :: "crypto_lib \<Rightarrow> ustr \<Rightarrow> (string \<times> (params \<Rightarrow> answer result)) list" where
  "des_operations cl rnd =
     [(''des'', \<lambda>p. answer (\<lambda>r. [(''result'', shown r)])
         (des_tool cl (upar p ''key'') (upar p ''data'') (par p ''cipher_op'' ''encrypt'') (par p ''cipher_mode'' ''ecb'') (upar p ''iv''))),
      (''kcv'', \<lambda>p. answer (\<lambda>(k, f). [(''kcv'', shown k), (''full'', shown f)]) (kcv cl (upar p ''key''))),
      (''pin_block_encode'', \<lambda>p. encode_pin_block cl rnd (upar p ''pin'') (upar p ''pan'') (upar p ''key'')
         (par p ''format'' (par p ''fmt'' ''0''))),
      (''pin_block_decode'', \<lambda>p. decode_pin_block cl (upar p ''pin_block'') (upar p ''pan'') (upar p ''key'')
         (par p ''format'' (par p ''fmt'' ''0''))),
      (''retail_mac'', \<lambda>p. answer (\<lambda>m. [(''mac'', shown m), (''mac4'', shown (take 8 m))])
         (retail_mac cl (upar p ''key'') (upar p ''data''))),
      (''cvv'', \<lambda>p. answer (\<lambda>v. [(''cvv'', shown v)])
         (cvv cl (upar p ''pan'') (upar p ''expiry'') (upar p ''service_code'') (upar p ''key'')))]"

definition emv_operations :: "crypto_lib \<Rightarrow> (string \<times> (params \<Rightarrow> answer result)) list" where
  "emv_operations cl =
     [(''arqc'', \<lambda>p. answer (\<lambda>(m, v). (''arqc'', shown m) # with_match v)
         (arqc cl (upar p ''key'') (upar p ''data'') (upar p ''expected''))),
      (''arpc'', \<lambda>p. answer (\<lambda>(a, v). (''arpc'', shown a) # (''method'', PStr (par p ''arpc_method'' ''1'')) # with_match v)
         (arpc cl (upar p ''key'') (upar p ''arqc'') (upar p ''arc'') (upar p ''csu'') (upar p ''proprietary'')
            (par p ''arpc_method'' ''1'') (upar p ''expected''))),
      (''emv_icc_mk'', \<lambda>p. answer (\<lambda>k. [(''udk'', shown k)]) (emv_icc_mk cl (upar p ''key'') (upar p ''pan'') (u (par p ''psn'' ''00'')))),
      (''emv_session_key'', \<lambda>p. answer (\<lambda>k. [(''session_key'', shown k)]) (emv_session_key cl (upar p ''key'') (upar p ''atc'')))]"

definition dukpt_operations :: "crypto_lib \<Rightarrow> (string \<times> (params \<Rightarrow> answer result)) list" where
  "dukpt_operations cl =
     [(''dukpt_ipek'', \<lambda>p. answer (\<lambda>(k, c). [(''ipek'', shown k), (''kcv'', shown c)])
         (dukpt_ipek cl (upar2 p ''bdk'' ''key'') (upar p ''ksn''))),
      (''dukpt_derive_key'', \<lambda>p. answer (\<lambda>d. [(''transaction_key'', shown (dk_transaction_key d)), (''key'', shown (dk_key d)),
            (''variant'', PStr (par p ''variant'' ''pin'')), (''kcv'', shown (dk_kcv d))])
         (dukpt_derive_key cl (upar2 p ''bdk'' ''key'') (upar p ''ksn'') (par p ''variant'' ''pin'') (upar p ''ipek''))),
      (''dukpt_pin_block'', \<lambda>p. answer (\<lambda>(b, k, n). [(''pin_block'', shown b), (''pin_key'', shown k), (''ksn'', shown n)])
         (dukpt_pin_block cl (upar p ''pin'') (upar p ''pan'') (upar2 p ''bdk'' ''key'') (upar p ''ksn'') (upar p ''ipek'')))]"

definition pin_operations :: "crypto_lib \<Rightarrow> (string \<times> (params \<Rightarrow> answer result)) list" where
  "pin_operations cl =
     (let table = (\<lambda>p. u (par p ''dec_table'' (map char_of DEFAULT_DEC_TABLE))) in
     [(''pvv'', \<lambda>p. answer (\<lambda>v. [(''pvv'', shown v)])
         (pvv cl (upar p ''pan'') (upar p ''pin'') (u (par p ''pvki'' ''0'')) (upar2 p ''key'' ''pvk''))),
      (''ibm3624_pin'', \<lambda>p. rbind (case map_of p ''pin_len'' of None \<Rightarrow> Inr 4 | Some n \<Rightarrow> of_option ValueError (int_text (u n))) (\<lambda>n.
         answer (\<lambda>(x, f). [(''natural_pin'', shown x), (''natural_full'', shown f)])
           (ibm3624_pin cl (upar2 p ''validation_data'' ''pan'') (upar2 p ''key'' ''pvk'') (table p) n))),
      (''ibm3624_offset'', \<lambda>p. answer (\<lambda>(o', x). [(''offset'', shown o'), (''natural_pin'', shown x)])
         (ibm3624_offset cl (upar2 p ''validation_data'' ''pan'') (upar2 p ''key'' ''pvk'') (upar p ''pin'') (table p))),
      (''ibm3624_verify'', \<lambda>p. answer (\<lambda>(x, ok). [(''derived_pin'', shown x), (''match'', PBool ok)])
         (ibm3624_verify cl (upar2 p ''validation_data'' ''pan'') (upar2 p ''key'' ''pvk'') (upar p ''offset'') (upar p ''pin'') (table p)))])"

definition aes_operations :: "crypto_lib \<Rightarrow> ustr \<Rightarrow> (string \<times> (params \<Rightarrow> answer result)) list" where
  "aes_operations cl rnd =
     [(''aes'', \<lambda>p. answer (\<lambda>r. [(''result'', shown r)])
         (aes_tool cl (upar p ''key'') (upar p ''data'') (par p ''cipher_op'' ''encrypt'') (par p ''cipher_mode'' ''ecb'') (upar p ''iv''))),
      (''aes_cmac'', \<lambda>p. answer (\<lambda>(m, m8). [(''mac'', shown m), (''mac8'', shown m8)]) (aes_cmac cl (upar p ''key'') (upar p ''data''))),
      (''aes_dukpt_initial_key'', \<lambda>p. answer (\<lambda>k. [(''ik'', shown k)])
         (aes_dukpt_initial_key cl (upar2 p ''bdk'' ''key'') (upar2 p ''initial_key_id'' ''ikid''))),
      (''aes_dukpt_derive_key'', \<lambda>p. answer (\<lambda>d. [(''key'', shown (ad_key d)), (''transaction_key'', shown (ad_transaction_key d)),
            (''ik'', shown (ad_ik d)), (''variant'', PStr (par p ''variant'' ''pin''))])
         (aes_dukpt_derive_key cl (upar p ''ksn'') (par p ''variant'' ''pin'') (upar2 p ''bdk'' ''key'') (upar2 p ''ipek'' ''ik''))),
      (''aes_dukpt_pin_block'', \<lambda>p. answer (\<lambda>(b, k, n). [(''pin_block'', shown b), (''pin_key'', shown k), (''ksn'', shown n)])
         (aes_dukpt_pin_block cl rnd (upar p ''pin'') (upar p ''pan'') (upar p ''ksn'') (upar2 p ''bdk'' ''key'') (upar2 p ''ipek'' ''ik'')))]"

definition OPERATIONS :: "crypto_lib \<Rightarrow> ustr \<Rightarrow> (string \<times> (params \<Rightarrow> answer result)) list" where
  "OPERATIONS cl rnd =
     des_operations cl rnd @ emv_operations cl @ dukpt_operations cl @ pin_operations cl @ aes_operations cl rnd"

text \<open>An \<open>ImportError\<close> cannot happen here; the other errors caught become the answer. The answer of an unknown
  operation is \<open>unknown\<close>.\<close>

definition error_answer :: "string \<Rightarrow> answer" where
  "error_answer what = [(''error'', PStr what)]"

definition run_crypto :: "crypto_lib \<Rightarrow> ustr \<Rightarrow> string \<Rightarrow> params \<Rightarrow> answer result" where
  "run_crypto cl rnd operation p =
     (case map_of (OPERATIONS cl rnd) operation of
        None \<Rightarrow> Inr (error_answer ''unknown'')
      | Some fn \<Rightarrow>
          (case fn p of
             Inr a \<Rightarrow> Inr a
           | Inl e \<Rightarrow> if is_value_error e then Inr (error_answer ''ValueError'')
                      else if e = KeyError then Inr (error_answer ''KeyError'')
                      else Inl e))"

section \<open>What validation knows of the operations\<close>

definition operation_names :: "string list" where
  "operation_names =
     [''des'', ''kcv'', ''pin_block_encode'', ''pin_block_decode'', ''retail_mac'', ''cvv'', ''arqc'', ''arpc'', ''emv_icc_mk'',
      ''emv_session_key'', ''dukpt_ipek'', ''dukpt_derive_key'', ''dukpt_pin_block'', ''pvv'', ''ibm3624_pin'', ''ibm3624_offset'',
      ''ibm3624_verify'', ''aes'', ''aes_cmac'', ''aes_dukpt_initial_key'', ''aes_dukpt_derive_key'', ''aes_dukpt_pin_block'']"

lemma operation_names: "map fst (OPERATIONS cl rnd) = operation_names"
  by (simp add: operation_names_def OPERATIONS_def des_operations_def emv_operations_def dukpt_operations_def pin_operations_def
      aes_operations_def Let_def)

text \<open>The worker carries out every operation that validation accepts, each under one name; of its operations
  validation refuses twelve, all those of DUKPT, of PIN verification and of AES.\<close>

theorem operations_refused:
  "set CRYPTO_OPERATIONS \<subseteq> set (map fst (OPERATIONS cl rnd)) \<and> distinct (map fst (OPERATIONS cl rnd)) \<and>
   filter (\<lambda>op. op \<notin> set CRYPTO_OPERATIONS) (map fst (OPERATIONS cl rnd)) =
     [''dukpt_ipek'', ''dukpt_derive_key'', ''dukpt_pin_block'', ''pvv'', ''ibm3624_pin'', ''ibm3624_offset'', ''ibm3624_verify'',
      ''aes'', ''aes_cmac'', ''aes_dukpt_initial_key'', ''aes_dukpt_derive_key'', ''aes_dukpt_pin_block'']"
proof -
  have "list_all (\<lambda>op. op \<in> set operation_names) CRYPTO_OPERATIONS" "distinct operation_names"
    "filter (\<lambda>op. op \<notin> set CRYPTO_OPERATIONS) operation_names = drop 10 operation_names" by code_simp+
  then show ?thesis unfolding operation_names by (simp add: list_all_iff subset_iff operation_names_def)
qed

section \<open>Errors\<close>

text \<open>The exceptions \<open>run_crypto\<close> turns into an answer.\<close>

definition caught :: "'a result \<Rightarrow> bool" where
  "caught r = (case r of Inl e \<Rightarrow> is_value_error e \<or> e = KeyError | Inr x \<Rightarrow> True)"

named_theorems caught_rules \<open>what only raises exceptions that are caught\<close>

lemma caught_Inr [simp, caught_rules]: "caught (Inr x)"
  by (simp add: caught_def)

lemma caught_error [simp, caught_rules]: "caught (Inl ValueError)" "caught (Inl KeyError)"
  by (simp_all add: caught_def)

lemma caught_rbind [caught_rules]: "caught m \<Longrightarrow> (\<And>x. m = Inr x \<Longrightarrow> caught (f x)) \<Longrightarrow> caught (rbind m f)"
  by (cases m) (auto simp: caught_def)

lemma caught_of_option [caught_rules]: "caught (of_option ValueError x)" "caught (of_option KeyError x)"
  by (cases x; simp)+

lemma caught_if [caught_rules]: "(b \<Longrightarrow> caught x) \<Longrightarrow> (\<not> b \<Longrightarrow> caught y) \<Longrightarrow> caught (if b then x else y)"
  by simp

lemma caught_prod [caught_rules]: "(\<And>a b. x = (a, b) \<Longrightarrow> caught (f a b)) \<Longrightarrow> caught (case x of (a, b) \<Rightarrow> f a b)"
  by (cases x) simp

lemma caught_option [caught_rules]:
  "caught x \<Longrightarrow> (\<And>a. v = Some a \<Longrightarrow> caught (f a)) \<Longrightarrow> caught (case v of None \<Rightarrow> x | Some a \<Rightarrow> f a)"
  by (cases v) auto

lemma caught_hx [caught_rules]: "caught (hx s)"
  by (simp add: hx_def caught_of_option)

lemma caught_digitwise [caught_rules]: "caught (digitwise f xs ys)"
  by (induction f xs ys rule: digitwise.induct) (auto intro!: caught_rbind simp: py_int_def)

text \<open>What the properties ask of the library: it keeps lengths and raises nothing but \<open>ValueError\<close>s.\<close>

definition well_behaved :: "crypto_lib \<Rightarrow> bool" where
  "well_behaved cl \<longleftrightarrow> invertible cl \<and> (\<forall>a enc key x iv. caught (cl_ecb cl a enc key x) \<and> caught (cl_cbc cl a enc key iv x))"

lemma caught_lib [caught_rules]:
  "well_behaved cl \<Longrightarrow> caught (cl_ecb cl a enc key x)" "well_behaved cl \<Longrightarrow> caught (cl_cbc cl a enc key iv x)"
  "well_behaved cl \<Longrightarrow> caught (ecb cl key enc x)" "well_behaved cl \<Longrightarrow> caught (des_block cl key x enc)"
  by (simp_all add: well_behaved_def ecb_def des_block_def)

lemma caught_cbc_mac [caught_rules]: "(\<And>b. caught (enc b)) \<Longrightarrow> caught (cbc_mac enc h bs)"
  by (induction bs arbitrary: h) (auto intro: caught_rbind)

lemma caught_walk [caught_rules]: "(\<And>r k. caught (gen r k)) \<Longrightarrow> caught (walk_bits gen n c r k)"
  by (induction n arbitrary: r k) (auto intro!: caught_rbind simp: Let_def)

lemma caught_kdf_blocks [caught_rules]: "well_behaved cl \<Longrightarrow> caught (kdf_blocks cl key dd n ctr out)"
proof (induction cl key dd n ctr out rule: kdf_blocks.induct)
  case (1 cl key dd n ctr out)
  then show ?case by (subst kdf_blocks.simps) (auto intro!: caught_rules)
qed

lemma caught_prims [caught_rules]:
  "caught (iv_or_zeros n iv)" "caught (pin_field rnd pin fmt)" "caught (pan_field pan)" "caught (iso4_pin_field rnd pin)"
  "caught (iso4_pan_field pan)" "caught (aes_algo n)" "caught (with_pan fmt pan x)"
  unfolding iv_or_zeros_def pin_field_def pan_field_def iso4_pin_field_def iso4_pan_field_def aes_algo_def with_pan_def Let_def
  by (intro caught_rules)+

lemma caught_des [caught_rules]:
  assumes cl: "well_behaved cl"
  shows "caught (cipher_op cl a key x op mode iv)" "caught (kcv cl k)" "caught (retail_mac_of cl key x)"
  unfolding cipher_op_def kcv_def retail_mac_of_def Let_def by (intro caught_rules cl)+

lemma caught_tools [caught_rules]:
  assumes cl: "well_behaved cl"
  shows "caught (des_tool cl k x op mode iv)" "caught (aes_tool cl k x op mode iv)" "caught (retail_mac cl k x)"
  "caught (pin_block_encode cl rnd pin pan k fmt)" "caught (pin_block_decode cl b pan k fmt)"
  "caught (pin_block_iso4_encode cl rnd pin pan k)" "caught (pin_block_iso4_decode cl b pan k)" "caught (cvv cl pan e sc k)"
  unfolding des_tool_def aes_tool_def retail_mac_def pin_block_encode_def pin_block_decode_def pin_block_iso4_encode_def
    pin_block_iso4_decode_def cvv_def Let_def
  by (intro caught_rules cl caught_des)+

lemma caught_emv [caught_rules]:
  assumes cl: "well_behaved cl"
  shows "caught (arqc cl k x e)" "caught (arpc cl k aq arc csu p method e)" "caught (emv_icc_mk cl k pan psn)" "caught (emv_session_key cl k atc)"
  unfolding arqc_def arpc_def emv_icc_mk_def emv_session_key_def Let_def by (intro caught_rules cl caught_des caught_tools)+

lemma caught_pins [caught_rules]:
  assumes cl: "well_behaved cl"
  shows "caught (pvv cl pan pin i k)" "caught (ibm3624_natural cl v k t)" "caught (ibm3624_pin cl v k t n)"
  "caught (ibm3624_offset cl v k pin t)" "caught (ibm3624_verify cl v k off pin t)"
  unfolding pvv_def ibm3624_pin_def ibm3624_offset_def ibm3624_verify_def ibm3624_natural_def Let_def
  by (intro caught_rules cl)+

lemma caught_dukpt [caught_rules]:
  assumes cl: "well_behaved cl"
  shows "caught (dukpt_ipek cl bdk k)" "caught (dukpt_transaction_key cl ipek n)" "caught (dukpt_variant_key cl txn v)"
  unfolding dukpt_ipek_def dukpt_transaction_key_def dukpt_variant_key_def dukpt_generate_key_def dukpt_encrypt_register_def Let_def
  by (intro caught_rules cl caught_des)+

lemma caught_dukpt_keys [caught_rules]:
  assumes cl: "well_behaved cl"
  shows "caught (dukpt_working_key cl bdk k ipek v)" "caught (dukpt_derive_key cl bdk k v ipek)" "caught (dukpt_pin_block cl pin pan bdk k ipek)"
  unfolding dukpt_derive_key_def dukpt_pin_block_def dukpt_working_key_def
  by (intro caught_rules cl caught_des caught_dukpt)+

lemma caught_aes [caught_rules]:
  assumes cl: "well_behaved cl"
  shows "caught (aes_dukpt_kdf cl key dd)" "caught (aes_dukpt_initial_key cl bdk i)" "caught (aes_dukpt_transaction_key cl ik id8 c)"
  unfolding aes_dukpt_initial_key_def aes_dukpt_transaction_key_def aes_dukpt_kdf_def Let_def
  by (intro caught_rules cl)+

lemma caught_aes_keys [caught_rules]:
  assumes cl: "well_behaved cl"
  shows "caught (aes_dukpt_derive_key cl k v bdk ik)" "caught (aes_dukpt_pin_block cl rnd pin pan k bdk ik)"
  unfolding aes_dukpt_pin_block_def aes_dukpt_derive_key_def Let_def
  by (intro caught_rules cl caught_tools caught_aes)+

lemma cmac_double_16: "length b = 16 \<Longrightarrow> \<exists>d. cmac_double b = Inr d \<and> length d = 16"
  by (cases b) (simp_all add: cmac_double_def Let_def)

lemma caught_subkeys [caught_rules]:
  assumes cl: "well_behaved cl"
  shows "caught (aes_cmac_subkeys cl key)"
  unfolding aes_cmac_subkeys_def
proof (rule caught_rbind [OF caught_lib(1) [OF cl]])
  fix l0 assume "cl_ecb cl AES True key (zeros 16) = Inr l0"
  then have "length l0 = 16" using cl invertibleD(1) [of cl AES True key "zeros 16" l0]
    by (simp add: well_behaved_def zeros_def)
  then obtain k1 k2 where "cmac_double l0 = Inr k1" "cmac_double k1 = Inr k2" using cmac_double_16 by metis
  then show "caught (rbind (cmac_double l0) (\<lambda>k1. rbind (cmac_double k1) (\<lambda>k2. Inr (k1, k2))))" by simp
qed

lemma caught_cmac [caught_rules]:
  assumes cl: "well_behaved cl"
  shows "caught (aes_cmac cl k x)"
  unfolding aes_cmac_def Let_def by (intro caught_rules cl caught_subkeys)

lemma caught_answer [caught_rules]: "caught r \<Longrightarrow> caught (answer f r)"
  unfolding answer_def by (intro caught_rules)

text \<open>Every operation ends in an answer, whatever its parameters: no exception leaves it.\<close>

theorem crypto_answers:
  assumes "well_behaved cl"
  shows "\<exists>a. run_crypto cl rnd operation p = Inr a"
proof -
  have "\<forall>(name, fn) \<in> set (OPERATIONS cl rnd). caught (fn p)"
    unfolding OPERATIONS_def des_operations_def emv_operations_def dukpt_operations_def pin_operations_def aes_operations_def
      encode_pin_block_def decode_pin_block_def Let_def
    by (simp only: set_append list.set ball_Un ball_simps prod.case) (intro conjI caught_rules assms TrueI)
  then have "caught (fn p)" if "map_of (OPERATIONS cl rnd) operation = Some fn" for fn
    using map_of_SomeD [OF that] by blast
  then show ?thesis by (auto simp: run_crypto_def caught_def split: option.splits sum.splits)
qed

lemma plain_lib_well_behaved: "well_behaved plain_lib"
  using plain_lib_invertible by (simp add: well_behaved_def plain_lib_def)

theorem crypto_answers_witness:
  "\<exists>a. run_crypto plain_lib [] ''kcv'' [(''key'', ''0123456789ABCDEF'')] = Inr a"
  by (rule crypto_answers [OF plain_lib_well_behaved])

end
