(* ===== verification/Hub_Engine.thy ===== *)
theory Hub_Engine
  imports Workflow Conditions Toolkit
begin

text \<open>
  The engine of workflows (\<open>agent_hub/engine.py\<close>) with the heartbeats it launches (\<open>launch_heartbeat\<close> of
  \<open>agent_hub/main.py\<close>) and the rows it keeps (\<open>agent_hub/store.py\<close>): one run, as its row, and the hub around it.
  Each operation of the engine holds the run's lock, so it is one step here. What happens between the steps, work
  of the agents, decisions, pauses and new versions of agents among it, is any change of the hub. Times, messages,
  alerts and the journal of a node are left out. Unique identifiers are drawn from a sequence.
\<close>

section \<open>The rows\<close>

datatype node_status =
  N_Pending | N_Deferred | N_Running | N_Waiting | N_Done | N_Skipped | N_Failed | N_Cancelled

datatype run_status = R_Running | R_Waiting | R_Done | R_Failed | R_Cancelled | R_Rejected

record node_state =
  ns_status :: node_status
  ns_approval :: "string option"
  ns_heartbeat :: "string option"

type_synonym node_states = "(string \<times> node_state) list"

record run_row =
  rn_status :: run_status
  rn_cancel :: bool
  rn_states :: node_states
  rn_results :: doc
  rn_inputs :: doc

datatype decision = Approved | Rejected

fun decision_text :: "decision \<Rightarrow> string" where
  "decision_text Approved = ''approved''"
| "decision_text Rejected = ''rejected''"

datatype ap_status = A_Pending | A_Decided decision | A_Expired | A_Cancelled

record approval =
  ap_id :: string
  ap_node :: string
  ap_roles :: "string list"
  ap_status :: ap_status

text \<open>A heartbeat: its row, and the specification its task runs with.\<close>

record heartbeat =
  hb_id :: string
  hb_agent :: string
  hb_version :: nat
  hb_status :: string
  hb_cancel :: bool
  hb_spec :: agent_spec
  hb_gated :: bool

record plan =
  pl_id :: string
  pl_node :: string
  pl_heartbeat :: string
  pl_proposed :: "pyv list"

text \<open>The hub around the run: the stores the tools write to, the registry of agents, the pause flag, the tokens spent
  today, and the rows of heartbeats, approvals and plans.\<close>

record 's hub =
  h_store :: 's
  h_agents :: "string \<Rightarrow> (string \<times> nat \<times> agent_spec) option"
  h_paused :: bool
  h_spent :: "string \<Rightarrow> nat"
  h_spent_all :: nat
  h_heartbeats :: "heartbeat list"
  h_approvals :: "approval list"
  h_plans :: "plan list"
  h_ids :: nat

record principal =
  pr_dev :: bool
  pr_service :: bool
  pr_roles :: "string list"

record quotas =
  q_daily_tokens :: nat
  q_max_concurrent :: nat

text \<open>The engine of one run: its workflow, who started it, the quotas, and what is not modelled: the parser of
  conditions, the texts of floats and JSON, digests, the backend of the tools, whether a journal record can be
  persisted, whether a model is configured for an agent, and the JSON found in an answer.\<close>

record 's engine =
  eg_workflow :: workflow
  eg_caller :: principal
  eg_quotas :: quotas
  eg_parse :: "string \<Rightarrow> expr option"
  eg_float :: "rat \<Rightarrow> string"
  eg_sha :: "string \<Rightarrow> string"
  eg_dumps :: "pyv \<Rightarrow> string"
  eg_backend :: "'s backend"
  eg_sink :: "change \<Rightarrow> failure option"
  eg_llm :: "agent_spec \<Rightarrow> bool"
  eg_json :: "string option \<Rightarrow> pyv"
  eg_uuid :: "nat \<Rightarrow> string"

definition pending_state :: node_state where
  "pending_state = \<lparr>ns_status = N_Pending, ns_approval = None, ns_heartbeat = None\<rparr>"

definition state_at :: "node_states \<Rightarrow> string \<Rightarrow> node_state" where
  "state_at sts i = or_default pending_state (map_of sts i)"

definition status_at :: "node_states \<Rightarrow> string \<Rightarrow> node_status" where
  "status_at sts i = ns_status (state_at sts i)"

text \<open>\<open>states[i] = st\<close> and \<open>states.setdefault(i, {"status": "pending"})\<close>.\<close>

definition put_state :: "string \<Rightarrow> node_state \<Rightarrow> run_row \<Rightarrow> run_row" where
  "put_state i st r = r\<lparr>rn_states := AList.update i st (rn_states r)\<rparr>"

definition finish_node :: "string \<Rightarrow> node_status \<Rightarrow> run_row \<Rightarrow> run_row" where
  "finish_node i s r = put_state i ((state_at (rn_states r) i)\<lparr>ns_status := s\<rparr>) r"

definition put_result :: "string \<Rightarrow> pyv \<Rightarrow> run_row \<Rightarrow> run_row" where
  "put_result i v r = r\<lparr>rn_results := AList.update i v (rn_results r)\<rparr>"

definition with_default :: "string \<Rightarrow> run_row \<Rightarrow> run_row" where
  "with_default i r = put_state i (state_at (rn_states r) i) r"

definition ACTIVE :: "run_status list" where
  "ACTIVE = [R_Running, R_Waiting]"

text \<open>\<open>_run_status\<close>.\<close>

definition run_status_of :: "node_states \<Rightarrow> run_status" where
  "run_status_of sts =
     (if list_ex (\<lambda>(i, st). ns_status st = N_Failed) sts then R_Failed
      else if list_all (\<lambda>(i, st). ns_status st \<in> {N_Done, N_Skipped}) sts then R_Done
      else if list_ex (\<lambda>(i, st). ns_status st = N_Waiting) sts then R_Waiting
      else R_Running)"

section \<open>Edges and gates\<close>

definition field :: "doc \<Rightarrow> string \<Rightarrow> string \<Rightarrow> pyv" where
  "field rs i k = (case map_of rs i of Some (PDict d) \<Rightarrow> get d k PNone | _ \<Rightarrow> PNone)"

definition label_or :: "string option \<Rightarrow> string \<Rightarrow> string" where
  "label_or l d = lower (case l of None \<Rightarrow> d | Some t \<Rightarrow> if t = [] then d else t)"

definition edge_fires :: "doc \<Rightarrow> wf_node \<Rightarrow> wf_edge \<Rightarrow> bool" where
  "edge_fires rs src e =
     (if nd_type src = Condition
      then label_or (we_when e) ''true'' = (if truthy (field rs (nd_id src) ''value'') then ''true'' else ''false'')
      else if nd_type src = Approval
      then PStr (label_or (we_when e) ''approved'') = field rs (nd_id src) ''decision''
      else True)"

text \<open>The edges into a node, as \<open>advance\<close> collects them, and those whose source is done and that fired.\<close>

definition edges_into :: "workflow \<Rightarrow> string \<Rightarrow> wf_edge list" where
  "edges_into w i = filter (\<lambda>e. we_to e \<noteq> END \<and> we_to e = i) (wf_edges w)"

definition fired :: "workflow \<Rightarrow> run_row \<Rightarrow> wf_edge \<Rightarrow> bool" where
  "fired w r e \<longleftrightarrow> status_at (rn_states r) (we_from e) = N_Done \<and>
     (case node_of w (we_from e) of None \<Rightarrow> False | Some src \<Rightarrow> edge_fires (rn_results r) src e)"

text \<open>A human approved the source of the edge.\<close>

definition approved_source :: "workflow \<Rightarrow> run_row \<Rightarrow> wf_edge \<Rightarrow> bool" where
  "approved_source w r e \<longleftrightarrow>
     (case node_of w (we_from e) of
        None \<Rightarrow> False
      | Some src \<Rightarrow> nd_type src = Approval \<and> field (rn_results r) (nd_id src) ''decision'' = PStr ''approved'')"

definition executed_graph :: "workflow \<Rightarrow> run_row \<Rightarrow> gate_graph" where
  "executed_graph w r =
     \<lparr>gg_ids = node_ids w, gg_in = (\<lambda>i. filter (fired w r) (incoming w i)), gg_pass = approved_source w r\<rparr>"

definition approved_on_path :: "workflow \<Rightarrow> run_row \<Rightarrow> string \<Rightarrow> bool" where
  "approved_on_path w r i = fst (walk (executed_graph w r) i [] [])"

section \<open>Heartbeats\<close>

definition human_principal :: "principal \<Rightarrow> bool" where
  "human_principal c \<longleftrightarrow> \<not> pr_service c \<and> (pr_dev c \<or> pr_roles c \<noteq> [])"

definition tokens_refusal :: "quotas \<Rightarrow> nat \<Rightarrow> bool" where
  "tokens_refusal q spent_today \<longleftrightarrow> q_daily_tokens q \<noteq> 0 \<and> q_daily_tokens q \<le> spent_today"

definition concurrency_refusal :: "quotas \<Rightarrow> nat \<Rightarrow> bool" where
  "concurrency_refusal q running \<longleftrightarrow> q_max_concurrent q \<noteq> 0 \<and> q_max_concurrent q \<le> running"

definition running_heartbeats :: "'s hub \<Rightarrow> heartbeat list" where
  "running_heartbeats h = filter (\<lambda>b. hb_status b = ''running'') (h_heartbeats h)"

definition running_heartbeat :: "'s hub \<Rightarrow> string \<Rightarrow> heartbeat option" where
  "running_heartbeat h agent = find (\<lambda>b. hb_agent b = agent) (running_heartbeats h)"

definition add_heartbeat :: "heartbeat \<Rightarrow> 's hub \<Rightarrow> 's hub" where
  "add_heartbeat b h = h\<lparr>h_heartbeats := h_heartbeats h @ [b]\<rparr>"

datatype wake = Coalesced | Wake string string

text \<open>The answer is the row: coalesced, or its identifier and status. Without a model configured it raises.\<close>

definition launch_heartbeat ::
    "'s engine \<Rightarrow> string \<Rightarrow> nat \<Rightarrow> agent_spec \<Rightarrow> bool \<Rightarrow> 's hub \<Rightarrow> wake result \<times> 's hub" where
  "launch_heartbeat en name version spec gated h =
     (let i = eg_uuid en (h_ids h);
          row = \<lparr>hb_id = i, hb_agent = name, hb_version = version, hb_status = ''running'', hb_cancel = False,
                 hb_spec = spec, hb_gated = gated\<rparr>;
          h = h\<lparr>h_ids := h_ids h + 1\<rparr>;
          refuse = (\<lambda>s. (Inr (Wake i s), add_heartbeat (row\<lparr>hb_status := s\<rparr>) h)) in
      if h_paused h then refuse ''paused''
      else if (case as_daily_tokens spec of None \<Rightarrow> False | Some budget \<Rightarrow> budget \<noteq> 0 \<and> budget \<le> h_spent h name)
      then refuse ''budget_exceeded''
      else if running_heartbeat h name \<noteq> None then (Inr Coalesced, h)
      else if tokens_refusal (eg_quotas en) (h_spent_all h) then refuse ''budget_exceeded''
      else if concurrency_refusal (eg_quotas en) (length (running_heartbeats h)) then refuse ''quota_exceeded''
      else if as_mode spec = Full \<and> \<not> gated \<and> \<not> human_principal (eg_caller en) then refuse ''failed''
      else if \<not> eg_llm en spec then (Inl RuntimeError, h)
      else (Inr (Wake i ''running''), add_heartbeat row h))"

section \<open>Nodes\<close>

definition run_context :: "run_row \<Rightarrow> pyv" where
  "run_context r = PDict (rn_results r @ [(''inputs'', PDict (rn_inputs r))])"

definition request_approval :: "'s engine \<Rightarrow> wf_node \<Rightarrow> run_row \<Rightarrow> 's hub \<Rightarrow> run_row \<times> 's hub" where
  "request_approval en n r h =
     (let i = eg_uuid en (h_ids h);
          ap = \<lparr>ap_id = i, ap_node = nd_id n, ap_roles = nd_roles n, ap_status = A_Pending\<rparr> in
      (put_state (nd_id n) ((state_at (rn_states r) (nd_id n))\<lparr>ns_status := N_Waiting, ns_approval := Some i\<rparr>) r,
       h\<lparr>h_ids := h_ids h + 1, h_approvals := h_approvals h @ [ap]\<rparr>))"

text \<open>The answer of a call as the dictionary the results keep; a refusal or a failure is not ok.\<close>

definition envelope_doc :: "string \<Rightarrow> envelope \<times> bool \<Rightarrow> pyv" where
  "envelope_doc tool e =
     (case fst e of
        Answer t v \<Rightarrow> PDict ([(''tool'', PStr tool), (''ok'', PBool True), (''tier'', PStr (tier_name t)), (''result'', v)] @
          (if snd e then [(''truncated'', PBool True)] else []))
      | Refused \<Rightarrow> PDict [(''tool'', PStr tool), (''ok'', PBool False), (''guardrail'', PBool True)]
      | Failed \<Rightarrow> PDict [(''tool'', PStr tool), (''ok'', PBool False), (''guardrail'', PBool False)])"

definition envelope_ok :: "envelope \<Rightarrow> bool" where
  "envelope_ok e = (case e of Answer t v \<Rightarrow> True | _ \<Rightarrow> False)"

text \<open>\<open>(env,) if env else ("*",)\<close>.\<close>

definition label_scope :: "string option \<Rightarrow> string list" where
  "label_scope env = (if nonempty_text env then [or_default [] env] else [''*''])"

definition node_scope :: "wf_node \<Rightarrow> string \<Rightarrow> tool_scope" where
  "node_scope n tool =
     \<lparr>sc_allow = [tool], sc_mode = Full, sc_projects = [''*''], sc_environments = label_scope (nd_environment n),
      sc_result_cap = 65536, sc_load_cap = None\<rparr>"

definition run_tool :: "'s engine \<Rightarrow> wf_node \<Rightarrow> run_row \<Rightarrow> 's hub \<Rightarrow> run_row \<times> 's hub" where
  "run_tool en n r h =
     (case nd_tool n of
        None \<Rightarrow> (finish_node (nd_id n) N_Failed r, h)
      | Some tool \<Rightarrow>
          if (case map_of (REGISTRY :: (string \<times> tier \<times> 's handler) list) tool of None \<Rightarrow> False | Some (t, _) \<Rightarrow> t \<noteq> Read) \<and>
             (h_paused h \<or> (\<not> mock_env (nd_environment n) \<and> \<not> approved_on_path (eg_workflow en) r (nd_id n)))
          then (finish_node (nd_id n) N_Failed r, h)
          else
            (let c = \<lparr>cx_store = h_store h, cx_records = [], cx_seq = 0, cx_on_record = eg_sink en, cx_referenced = []\<rparr>;
                 args = render_items (eg_float en) (run_context r) (nd_args n) in
             case scoped_dispatch (eg_sha en) (eg_dumps en) (eg_backend en) (node_scope n tool) tool args c of
               (Inl e, c) \<Rightarrow> (finish_node (nd_id n) N_Failed r, h\<lparr>h_store := cx_store c\<rparr>)
             | (Inr e, c) \<Rightarrow>
                 (finish_node (nd_id n) (if envelope_ok (fst e) then N_Done else N_Failed)
                    (put_result (nd_id n) (envelope_doc tool e) r),
                  h\<lparr>h_store := cx_store c\<rparr>)))"

text \<open>The agent as the node runs it: mode and environments narrowed.\<close>

definition task_spec :: "wf_node \<Rightarrow> agent_spec \<Rightarrow> agent_spec" where
  "task_spec n a =
     (let m = or_default (as_mode a) (nd_mode n);
          m = (if MODE_RANK (as_mode a) < MODE_RANK m then as_mode a else m);
          a' = a\<lparr>as_mode := m\<rparr> in
      if nonempty_text (nd_environment n)
      then (let env = or_default [] (nd_environment n) in
            a'\<lparr>as_environments := (if ''*'' \<in> set (as_environments a) \<or> env \<in> set (as_environments a) then [env] else [])\<rparr>)
      else a')"

definition launch_task :: "'s engine \<Rightarrow> wf_node \<Rightarrow> run_row \<Rightarrow> 's hub \<Rightarrow> run_row \<times> 's hub" where
  "launch_task en n r h =
     (case nd_agent n of
        None \<Rightarrow> (finish_node (nd_id n) N_Failed r, h)
      | Some ref \<Rightarrow>
          (case h_agents h ref of
             None \<Rightarrow> (finish_node (nd_id n) N_Failed r, h)
           | Some (name, version, a) \<Rightarrow>
               (let spec = task_spec n a;
                    outside = (as_mode spec = Full \<and> \<not> mock_env (nd_environment n)) in
                if outside \<and> \<not> approved_on_path (eg_workflow en) r (nd_id n)
                then (finish_node (nd_id n) N_Failed r, h)
                else
                  (case launch_heartbeat en name version spec outside h of
                     (Inl e, h) \<Rightarrow> (finish_node (nd_id n) N_Failed r, h)
                   | (Inr Coalesced, h) \<Rightarrow> (finish_node (nd_id n) N_Deferred r, h)
                   | (Inr (Wake i s), h) \<Rightarrow>
                       (put_state (nd_id n)
                          ((state_at (rn_states r) (nd_id n))\<lparr>ns_heartbeat := Some i,
                             ns_status := (if s = ''running'' then N_Running else N_Failed)\<rparr>) r, h)))))"

definition start_node :: "'s engine \<Rightarrow> wf_node \<Rightarrow> run_row \<Rightarrow> 's hub \<Rightarrow> run_row \<times> 's hub" where
  "start_node en n r h =
     (case nd_type n of
        Parallel \<Rightarrow> (put_result (nd_id n) (PDict []) (finish_node (nd_id n) N_Done r), h)
      | Join \<Rightarrow> (put_result (nd_id n) (PDict []) (finish_node (nd_id n) N_Done r), h)
      | Condition \<Rightarrow>
          (case evaluate (eg_parse en) (or_default [] (nd_expr n)) (run_context r) of
             Inl e \<Rightarrow> (finish_node (nd_id n) N_Failed r, h)
           | Inr b \<Rightarrow> (finish_node (nd_id n) N_Done (put_result (nd_id n) (PDict [(''value'', PBool b)]) r), h))
      | Approval \<Rightarrow> request_approval en n r h
      | Tool_Call \<Rightarrow> run_tool en n r h
      | Agent_Task \<Rightarrow> launch_task en n r h)"

section \<open>Advancing\<close>

text \<open>One node of the loop: the run, the hub, and whether anything moved.\<close>

definition unresolved :: "run_row \<Rightarrow> wf_edge \<Rightarrow> bool" where
  "unresolved r e \<longleftrightarrow> status_at (rn_states r) (we_from e) \<in> {N_Pending, N_Deferred, N_Running, N_Waiting}"

definition try_node :: "'s engine \<Rightarrow> wf_node \<Rightarrow> run_row \<times> 's hub \<Rightarrow> (run_row \<times> 's hub) \<times> bool" where
  "try_node en n = (\<lambda>(r, h).
     let r = with_default (nd_id n) r; es = edges_into (eg_workflow en) (nd_id n) in
     if status_at (rn_states r) (nd_id n) \<noteq> N_Pending \<or> list_ex (unresolved r) es then ((r, h), False)
     else if es \<noteq> [] \<and> \<not> list_ex (fired (eg_workflow en) r) es
     then ((finish_node (nd_id n) N_Skipped r, h), True)
     else (start_node en n r h, True))"

fun pass_over :: "'s engine \<Rightarrow> wf_node list \<Rightarrow> run_row \<times> 's hub \<Rightarrow> (run_row \<times> 's hub) \<times> bool" where
  "pass_over en [] x = (x, False)"
| "pass_over en (n # ns) x =
     (let (x, moved) = try_node en n x; (x, more) = pass_over en ns x in (x, moved \<or> more))"

section \<open>What a step does to the rows\<close>

lemma state_at_update [simp]: "state_at (AList.update i st sts) j = (if i = j then st else state_at sts j)"
  by (simp add: state_at_def update_conv')

lemma status_at_put [simp]:
  "status_at (rn_states (put_state i st r)) j = (if i = j then ns_status st else status_at (rn_states r) j)"
  by (simp add: status_at_def put_state_def)

lemma status_at_finish [simp]:
  "status_at (rn_states (finish_node i s r)) j = (if i = j then s else status_at (rn_states r) j)"
  by (simp add: finish_node_def)

lemma put_selects [simp]:
  "rn_status (put_state i st r) = rn_status r" "rn_cancel (put_state i st r) = rn_cancel r"
  "rn_results (put_state i st r) = rn_results r" "rn_inputs (put_state i st r) = rn_inputs r"
  "rn_status (put_result i v r) = rn_status r" "rn_cancel (put_result i v r) = rn_cancel r"
  "rn_states (put_result i v r) = rn_states r" "rn_inputs (put_result i v r) = rn_inputs r"
  "rn_results (put_result i v r) = AList.update i v (rn_results r)"
  by (simp_all add: put_state_def put_result_def)

lemma finish_selects [simp]:
  "rn_status (finish_node i s r) = rn_status r" "rn_cancel (finish_node i s r) = rn_cancel r"
  "rn_results (finish_node i s r) = rn_results r" "rn_inputs (finish_node i s r) = rn_inputs r"
  by (simp_all add: finish_node_def)

lemma default_selects [simp]:
  "status_at (rn_states (with_default i r)) j = status_at (rn_states r) j"
  "rn_status (with_default i r) = rn_status r" "rn_cancel (with_default i r) = rn_cancel r"
  "rn_results (with_default i r) = rn_results r" "rn_inputs (with_default i r) = rn_inputs r"
  by (auto simp: with_default_def put_state_def status_at_def)

text \<open>A started node leaves the pending ones for good, the others stay as they are; a result, if any, is the node's own,
  and only a condition, a tool or a marker has one.\<close>

definition started :: "wf_node \<Rightarrow> run_row \<Rightarrow> run_row \<Rightarrow> bool" where
  "started n r r' \<longleftrightarrow>
     (\<exists>st. ns_status st \<noteq> N_Pending \<and> ns_status st \<noteq> N_Cancelled \<and> rn_states r' = AList.update (nd_id n) st (rn_states r)) \<and>
     rn_status r' = rn_status r \<and> rn_cancel r' = rn_cancel r \<and> rn_inputs r' = rn_inputs r \<and>
     (rn_results r' = rn_results r \<or>
      nd_type n \<noteq> Approval \<and> (\<exists>v. rn_results r' = AList.update (nd_id n) v (rn_results r)))"

lemma started_finish: "s \<noteq> N_Pending \<Longrightarrow> s \<noteq> N_Cancelled \<Longrightarrow> started n r (finish_node (nd_id n) s r)"
  unfolding started_def finish_node_def by (auto simp: put_state_def intro!: exI [of _ "(state_at (rn_states r) (nd_id n))\<lparr>ns_status := s\<rparr>"])

lemma started_put: "ns_status st \<noteq> N_Pending \<Longrightarrow> ns_status st \<noteq> N_Cancelled \<Longrightarrow> started n r (put_state (nd_id n) st r)"
  unfolding started_def by (auto simp: put_state_def)

lemma started_result:
  assumes "s \<noteq> N_Pending" and "s \<noteq> N_Cancelled" and "nd_type n \<noteq> Approval"
  shows "started n r (finish_node (nd_id n) s (put_result (nd_id n) v r))"
  unfolding started_def finish_node_def
  by (auto simp: put_state_def assms intro!: exI [of _ "(state_at (rn_states r) (nd_id n))\<lparr>ns_status := s\<rparr>"])

lemma put_result_finish: "put_result i v (finish_node j s r) = finish_node j s (put_result i v r)"
  by (simp add: put_result_def finish_node_def put_state_def)

lemma start_node_started: "started n r (fst (start_node en n r h))"
proof (cases "nd_type n")
  case Agent_Task
  then show ?thesis
    by (auto simp: start_node_def launch_task_def Let_def started_finish started_put
        split: option.splits prod.splits sum.splits wake.splits)
next
  case Tool_Call
  then show ?thesis
    by (auto simp: start_node_def run_tool_def Let_def started_finish started_result
        split: option.splits prod.splits sum.splits)
next
  case Condition
  then show ?thesis by (auto simp: start_node_def started_finish started_result split: sum.splits)
next
  case Approval
  then show ?thesis by (simp add: start_node_def request_approval_def Let_def started_put)
next
  case Parallel
  then show ?thesis by (simp add: start_node_def put_result_finish started_result)
next
  case Join
  then show ?thesis by (simp add: start_node_def put_result_finish started_result)
qed

text \<open>The nodes of a list that are pending.\<close>

definition pending_nodes :: "wf_node list \<Rightarrow> run_row \<Rightarrow> nat" where
  "pending_nodes ns r = length (filter (\<lambda>n. status_at (rn_states r) (nd_id n) = N_Pending) ns)"

lemma started_status:
  "started n r r' \<Longrightarrow> j \<noteq> nd_id n \<Longrightarrow> status_at (rn_states r') j = status_at (rn_states r) j"
  "started n r r' \<Longrightarrow> status_at (rn_states r') (nd_id n) \<noteq> N_Pending"
  by (auto simp: started_def status_at_def)

lemma try_node_moves:
  assumes "try_node en n (r, h) = ((r', h'), moved)"
  shows "status_at (rn_states r') j = N_Pending \<Longrightarrow> status_at (rn_states r) j = N_Pending"
    and "moved \<Longrightarrow> status_at (rn_states r) (nd_id n) = N_Pending \<and> status_at (rn_states r') (nd_id n) \<noteq> N_Pending"
    and "\<not> moved \<Longrightarrow> r' = with_default (nd_id n) r \<and> h' = h"
proof -
  define r0 where "r0 = with_default (nd_id n) r"
  have cases: "r' = r0 \<and> h' = h \<and> \<not> moved \<or>
      status_at (rn_states r0) (nd_id n) = N_Pending \<and> moved \<and>
        (r' = finish_node (nd_id n) N_Skipped r0 \<or> r' = fst (start_node en n r0 h))"
    using assms by (auto simp: try_node_def Let_def r0_def split: if_splits)
  have old: "status_at (rn_states r0) i = status_at (rn_states r) i" for i by (simp add: r0_def)
  note new = started_status(1) [OF start_node_started [of n r0 en h]] started_status(2) [OF start_node_started [of n r0 en h]]
  show "status_at (rn_states r') j = N_Pending \<Longrightarrow> status_at (rn_states r) j = N_Pending"
    using cases new(1) [of j] new(2) old [of j] by (cases "j = nd_id n") auto
  show "moved \<Longrightarrow> status_at (rn_states r) (nd_id n) = N_Pending \<and> status_at (rn_states r') (nd_id n) \<noteq> N_Pending"
    using cases new(2) old [of "nd_id n"] by auto
  show "\<not> moved \<Longrightarrow> r' = with_default (nd_id n) r \<and> h' = h" using cases by (auto simp: r0_def)
qed

lemma pending_le: "(\<And>j. status_at (rn_states r') j = N_Pending \<Longrightarrow> status_at (rn_states r) j = N_Pending) \<Longrightarrow>
    pending_nodes ns r' \<le> pending_nodes ns r"
  by (induction ns) (auto simp: pending_nodes_def)

lemma pending_less:
  assumes "\<And>j. status_at (rn_states r') j = N_Pending \<Longrightarrow> status_at (rn_states r) j = N_Pending"
    and "n \<in> set ns" and "status_at (rn_states r) (nd_id n) = N_Pending" and "status_at (rn_states r') (nd_id n) \<noteq> N_Pending"
  shows "pending_nodes ns r' < pending_nodes ns r"
  using assms(2)
proof (induction ns)
  case (Cons m ns)
  have le: "pending_nodes ns r' \<le> pending_nodes ns r" using assms(1) by (rule pending_le)
  then show ?case using Cons assms(1,3,4) by (auto simp: pending_nodes_def)
qed simp

lemma pass_over_moves:
  assumes "pass_over en ns (r, h) = ((r', h'), moved)"
  shows "(\<forall>j. status_at (rn_states r') j = N_Pending \<longrightarrow> status_at (rn_states r) j = N_Pending) \<and>
    (moved \<longrightarrow> (\<exists>n \<in> set ns. status_at (rn_states r) (nd_id n) = N_Pending \<and> status_at (rn_states r') (nd_id n) \<noteq> N_Pending))"
  using assms
proof (induction ns arbitrary: r h moved)
  case (Cons n ns)
  obtain r1 h1 m1 where t: "try_node en n (r, h) = ((r1, h1), m1)" by (cases "try_node en n (r, h)") auto
  obtain m2 where p: "pass_over en ns (r1, h1) = ((r', h'), m2)" "moved \<longleftrightarrow> m1 \<or> m2"
    using Cons.prems t by (auto split: prod.splits)
  show ?case using Cons.IH [OF p(1)] try_node_moves [OF t] p(2) by (metis list.set_intros)
qed simp

function advance_loop :: "'s engine \<Rightarrow> run_row \<times> 's hub \<Rightarrow> run_row \<times> 's hub" where
  "advance_loop en x =
     (let (x', moved) = pass_over en (wf_nodes (eg_workflow en)) x in if moved then advance_loop en x' else x')"
  by auto
termination
proof (relation "measure (\<lambda>(en, x). pending_nodes (wf_nodes (eg_workflow en)) (fst x))", goal_cases)
  case (2 en x p x' moved)
  then show ?case
    using pass_over_moves [of en "wf_nodes (eg_workflow en)" "fst x" "snd x" "fst x'" "snd x'" moved]
      pending_less [of "fst x'" "fst x"] by (cases x; cases x') auto
qed simp

declare advance_loop.simps [simp del]

section \<open>Runs\<close>

text \<open>\<open>request_cancel\<close> of the running heartbeats of a run; one that has ended stays as it is.\<close>

definition request_cancel :: "string \<Rightarrow> 's hub \<Rightarrow> 's hub" where
  "request_cancel i h =
     h\<lparr>h_heartbeats := map (\<lambda>b. if hb_id b = i \<and> hb_status b = ''running'' then b\<lparr>hb_cancel := True\<rparr> else b) (h_heartbeats h)\<rparr>"

definition cancel_heartbeats :: "node_states \<Rightarrow> 's hub \<Rightarrow> 's hub" where
  "cancel_heartbeats sts h =
     fold (\<lambda>(i, st) h. if ns_status st = N_Running then (case ns_heartbeat st of None \<Rightarrow> h | Some b \<Rightarrow> request_cancel b h) else h) sts h"

definition close_pending_approvals :: "'s hub \<Rightarrow> 's hub" where
  "close_pending_approvals h =
     h\<lparr>h_approvals := map (\<lambda>a. if ap_status a = A_Pending then a\<lparr>ap_status := A_Cancelled\<rparr> else a) (h_approvals h)\<rparr>"

definition cancel_where :: "node_status list \<Rightarrow> node_states \<Rightarrow> node_states" where
  "cancel_where ss sts = map (\<lambda>(i, st). (i, if ns_status st \<in> set ss then st\<lparr>ns_status := N_Cancelled\<rparr> else st)) sts"

definition stop_siblings :: "run_row \<times> 's hub \<Rightarrow> run_row \<times> 's hub" where
  "stop_siblings = (\<lambda>(r, h).
     (r\<lparr>rn_states := cancel_where [N_Running, N_Waiting, N_Deferred] (rn_states r)\<rparr>,
      close_pending_approvals (cancel_heartbeats (rn_states r) h)))"

definition cancel_locked :: "run_row \<times> 's hub \<Rightarrow> run_row \<times> 's hub" where
  "cancel_locked = (\<lambda>(r, h).
     (r\<lparr>rn_states := cancel_where [N_Running, N_Waiting, N_Deferred, N_Pending] (rn_states r), rn_status := R_Cancelled\<rparr>,
      close_pending_approvals (cancel_heartbeats (rn_states r) h)))"

definition advance :: "'s engine \<Rightarrow> run_row \<times> 's hub \<Rightarrow> run_row \<times> 's hub" where
  "advance en x =
     (if rn_status (fst x) \<notin> set ACTIVE then x
      else if rn_cancel (fst x) then cancel_locked x
      else
        (let x = advance_loop en x;
             s = run_status_of (rn_states (fst x));
             (r, h) = (if s = R_Failed then stop_siblings x else x) in
         (r\<lparr>rn_status := s\<rparr>, h)))"

definition new_run :: "workflow \<Rightarrow> doc \<Rightarrow> run_row" where
  "new_run w inputs =
     \<lparr>rn_status = R_Running, rn_cancel = False, rn_states = fold (\<lambda>n sts. AList.update (nd_id n) pending_state sts) (wf_nodes w) [],
      rn_results = [], rn_inputs = inputs\<rparr>"

definition start_run :: "'s engine \<Rightarrow> doc \<Rightarrow> 's hub \<Rightarrow> run_row \<times> 's hub" where
  "start_run en inputs h = advance en (new_run (eg_workflow en) inputs, h)"

datatype hub_error = NotFound | Conflict

definition cancel_run :: "run_row \<times> 's hub \<Rightarrow> hub_error + run_row \<times> 's hub" where
  "cancel_run = (\<lambda>(r, h).
     if rn_status r \<notin> set ACTIVE then Inl Conflict else Inr (cancel_locked (r\<lparr>rn_cancel := True\<rparr>, h)))"

section \<open>Decisions\<close>

definition set_approval :: "string \<Rightarrow> ap_status \<Rightarrow> 's hub \<Rightarrow> 's hub" where
  "set_approval i s h =
     h\<lparr>h_approvals := map (\<lambda>a. if ap_id a = i \<and> ap_status a = A_Pending then a\<lparr>ap_status := s\<rparr> else a) (h_approvals h)\<rparr>"

definition approval_of :: "'s hub \<Rightarrow> string \<Rightarrow> approval option" where
  "approval_of h i = find (\<lambda>a. ap_id a = i) (h_approvals h)"

text \<open>The row of an approval is decided once.\<close>

definition decide_approval :: "string \<Rightarrow> decision \<Rightarrow> 's hub \<Rightarrow> hub_error + approval \<times> 's hub" where
  "decide_approval i d h =
     (case approval_of h i of
        None \<Rightarrow> Inl NotFound
      | Some a \<Rightarrow> if ap_status a \<noteq> A_Pending then Inl Conflict else Inr (a, set_approval i (A_Decided d) h))"

definition takes_rejection :: "workflow \<Rightarrow> string \<Rightarrow> bool" where
  "takes_rejection w i = list_ex (\<lambda>e. we_from e = i \<and> label_or (we_when e) [] = ''rejected'') (wf_edges w)"

text \<open>What a decision does to the run, under its lock.\<close>

definition apply_decision :: "'s engine \<Rightarrow> approval \<Rightarrow> decision \<Rightarrow> string \<Rightarrow> pyv \<Rightarrow> run_row \<Rightarrow> run_row" where
  "apply_decision en a d by_whom note r =
     (let r' = put_result (ap_node a) (PDict [(''decision'', PStr (decision_text d)), (''by'', PStr by_whom), (''note'', note)])
                 (finish_node (ap_node a) N_Done r) in
      if d = Rejected \<and> \<not> takes_rejection (eg_workflow en) (ap_node a) then r'\<lparr>rn_status := R_Rejected\<rparr> else r')"

definition decide ::
    "'s engine \<Rightarrow> string \<Rightarrow> decision \<Rightarrow> string \<Rightarrow> pyv \<Rightarrow> run_row \<times> 's hub \<Rightarrow> hub_error + run_row \<times> 's hub" where
  "decide en i d by_whom note = (\<lambda>(r, h).
     rbind (decide_approval i d h) (\<lambda>(a, h).
       if rn_status r \<notin> set ACTIVE then Inr (r, h)
       else if ns_approval (state_at (rn_states r) (ap_node a)) \<notin> {None, Some i} then Inr (r, h)
       else Inr (advance en (apply_decision en a d by_whom note r, h))))"

text \<open>An approval whose time is over, and the end of its run.\<close>

definition expire_approval :: "string \<Rightarrow> run_row \<times> 's hub \<Rightarrow> run_row \<times> 's hub" where
  "expire_approval i = (\<lambda>(r, h).
     case approval_of h i of
       None \<Rightarrow> (r, h)
     | Some a \<Rightarrow>
         if ap_status a \<noteq> A_Pending then (r, h)
         else (let h = set_approval i A_Expired h in
               if rn_status r \<notin> set ACTIVE \<or> ns_approval (state_at (rn_states r) (ap_node a)) \<noteq> Some i then (r, h)
               else ((finish_node (ap_node a) N_Failed r)\<lparr>rn_status := R_Failed\<rparr>, h)))"

section \<open>Heartbeats that end, retries, restarts\<close>

text \<open>A finished heartbeat: its status, its answer and the writes it proposed.\<close>

record finished =
  fi_id :: string
  fi_status :: string
  fi_result :: "string option"
  fi_proposed :: "pyv list"

definition heartbeat_result :: "'s engine \<Rightarrow> finished \<Rightarrow> string option \<Rightarrow> pyv" where
  "heartbeat_result en f plan =
     PDict ([(''heartbeat_id'', PStr (fi_id f)), (''status'', PStr (fi_status f)),
       (''result'', case fi_result f of None \<Rightarrow> PNone | Some t \<Rightarrow> PStr t), (''json'', eg_json en (fi_result f)),
       (''proposed'', PList (fi_proposed f))] @
       (case plan of None \<Rightarrow> [] | Some p \<Rightarrow> [(''plan_id'', PStr p)]))"

definition heartbeat_done :: "'s engine \<Rightarrow> string \<Rightarrow> finished \<Rightarrow> run_row \<times> 's hub \<Rightarrow> run_row \<times> 's hub" where
  "heartbeat_done en i f = (\<lambda>(r, h).
     let st = state_at (rn_states r) i in
     if rn_status r \<notin> set ACTIVE \<or> ns_status st \<noteq> N_Running \<or> ns_heartbeat st \<noteq> Some (fi_id f) then (r, h)
     else
       (let plan = (if fi_proposed f = [] then None else Some (eg_uuid en (h_ids h)));
            h = (case plan of None \<Rightarrow> h
                 | Some p \<Rightarrow> h\<lparr>h_ids := h_ids h + 1,
                     h_plans := h_plans h @ [\<lparr>pl_id = p, pl_node = i, pl_heartbeat = fi_id f, pl_proposed = fi_proposed f\<rparr>]\<rparr>);
            r = finish_node i (if fi_status f = ''done'' then N_Done else N_Failed) (put_result i (heartbeat_result en f plan) r) in
        advance en (r, h)))"

definition retry_node :: "'s engine \<Rightarrow> string \<Rightarrow> run_row \<times> 's hub \<Rightarrow> run_row \<times> 's hub" where
  "retry_node en i = (\<lambda>(r, h).
     advance en (if rn_status r \<in> set ACTIVE \<and> status_at (rn_states r) i = N_Deferred then finish_node i N_Pending r else r, h))"

text \<open>After a restart: deferred nodes are pending again.\<close>

definition undefer :: "node_states \<Rightarrow> node_states" where
  "undefer sts = map (\<lambda>(i, st). (i, if ns_status st = N_Deferred then st\<lparr>ns_status := N_Pending\<rparr> else st)) sts"

definition reconcile_run :: "'s engine \<Rightarrow> run_row \<times> 's hub \<Rightarrow> run_row \<times> 's hub" where
  "reconcile_run en = (\<lambda>(r, h).
     if rn_status r \<in> set ACTIVE then advance en (r\<lparr>rn_states := undefer (rn_states r)\<rparr>, h) else (r, h))"

section \<open>The run and the hub as a state machine\<close>

inductive engine_op :: "'s engine \<Rightarrow> run_row \<times> 's hub \<Rightarrow> run_row \<times> 's hub \<Rightarrow> bool" for en where
  decided: "decide en i d by_whom note x = Inr y \<Longrightarrow> engine_op en x y"
| expired: "engine_op en x (expire_approval i x)"
| ended: "engine_op en x (heartbeat_done en i f x)"
| retried: "engine_op en x (retry_node en i x)"
| restarted: "engine_op en x (reconcile_run en x)"
| cancelled: "cancel_run x = Inr y \<Longrightarrow> engine_op en x y"

text \<open>Anything else may happen to the hub between two operations, only approvals are the engine's. When others keep out
  of the stores and launch no agent in full mode, the hub is \<open>left_alone\<close>.\<close>

definition left_alone :: "'s hub \<Rightarrow> 's hub \<Rightarrow> bool" where
  "left_alone h h' \<longleftrightarrow>
     h_store h' = h_store h \<and>
     filter (\<lambda>a. as_mode a = Full) (map hb_spec (h_heartbeats h')) = filter (\<lambda>a. as_mode a = Full) (map hb_spec (h_heartbeats h))"

inductive engine_step :: "('s hub \<Rightarrow> 's hub \<Rightarrow> bool) \<Rightarrow> 's engine \<Rightarrow> run_row \<times> 's hub \<Rightarrow> run_row \<times> 's hub \<Rightarrow> bool" for may en where
  by_engine: "engine_op en x y \<Longrightarrow> engine_step may en x y"
| by_others: "h_approvals h' = h_approvals h \<Longrightarrow> may h h' \<Longrightarrow> engine_step may en (r, h) (r, h')"

end
