(* ===== verification/Hub_Runs.thy ===== *)
theory Hub_Runs
  imports Hub_Engine
begin

text \<open>
What the engine of the agent hub (\<open>Hub_Engine\<close>) guarantees of every run of a published workflow, over all
interleavings of decisions, expiries, heartbeats that end, retries, restarts and cancellations: ended runs stay,
nothing is written before a human approves, a running run always has work in flight, and an agent is woken only
under its guards. The last part runs the engine on one workflow.
\<close>

section \<open>Ended runs stay\<close>

lemma advance_ended [simp]: "rn_status (fst x) \<notin> set ACTIVE \<Longrightarrow> advance en x = x"
  by (simp add: advance_def)

lemma ended_op:
  assumes "engine_op en (r, h) z" and "rn_status r \<notin> set ACTIVE"
  shows "fst z = r"
  using assms(1)
proof (cases rule: engine_op.cases)
  case (decided i d who remark)
  then show ?thesis using assms(2) by (auto simp: decide_def result_iff)
qed (insert assms(2), auto simp: expire_approval_def heartbeat_done_def retry_node_def reconcile_run_def cancel_run_def Let_def
    split: option.splits if_splits)

text \<open>C32. A run that is done, failed, cancelled or rejected never changes again, whatever is decided, expires, ends,
  is retried, restarted or cancelled afterwards.\<close>

theorem ended_runs_stay:
  assumes "(engine_step may en)\<^sup>*\<^sup>* x y" and "rn_status (fst x) \<notin> set ACTIVE"
  shows "fst y = fst x"
  using assms
proof (induction rule: rtranclp_induct)
  case (step y z)
  from step.hyps(2) show ?case
  proof cases
    case by_engine
    then show ?thesis using ended_op [of en "fst y" "snd y" z] step by (metis prod.collapse)
  next
    case by_others
    then show ?thesis using step by simp
  qed
qed simp

section \<open>Writes need an approval\<close>

lemma scoped_read_keeps:
  assumes "snd (scoped_dispatch sha js (b :: 's backend) sc name args c) \<noteq> c"
  shows "\<exists>t h. map_of (REGISTRY :: (string \<times> tier \<times> 's handler) list) name = Some (t, h) \<and> t \<noteq> Read"
proof -
  have "snd (dispatch b name args (Some (tiers_for_mode (sc_mode sc))) c) \<noteq> c"
    using assms by (auto simp: scoped_dispatch_def split: option.splits prod.splits sum.splits bool.splits if_splits)
  then show ?thesis using dispatch_read by blast
qed

definition full_wakes :: "'s hub \<Rightarrow> agent_spec list" where
  "full_wakes h = filter (\<lambda>a. as_mode a = Full) (map hb_spec (h_heartbeats h))"

lemma launch_wakes:
  "full_wakes (snd (launch_heartbeat en name version spec gated h)) \<noteq> full_wakes h \<Longrightarrow> as_mode spec = Full"
  "h_approvals (snd (launch_heartbeat en name version spec gated h)) = h_approvals h"
  "h_store (snd (launch_heartbeat en name version spec gated h)) = h_store h"
  by (auto simp: launch_heartbeat_def Let_def full_wakes_def add_heartbeat_def split: if_splits option.splits)

text \<open>A node that changes the stores of the tools, or wakes an agent in full mode, is labelled mock or on an approved path.\<close>

lemma run_tool_hub:
  assumes "run_tool en n r h = (r', h')"
  shows "h_approvals h' = h_approvals h \<and> full_wakes h' = full_wakes h"
    and "h_store h' \<noteq> h_store h \<Longrightarrow> \<not> mock_env (nd_environment n) \<Longrightarrow> approved_on_path (eg_workflow en) r (nd_id n)"
proof -
  show "h_approvals h' = h_approvals h \<and> full_wakes h' = full_wakes h"
    using assms by (auto simp: run_tool_def Let_def full_wakes_def split: option.splits if_splits prod.splits sum.splits)
  assume ch: "h_store h' \<noteq> h_store h" and m: "\<not> mock_env (nd_environment n)"
  show "approved_on_path (eg_workflow en) r (nd_id n)"
  proof (rule ccontr)
    assume no: "\<not> approved_on_path (eg_workflow en) r (nd_id n)"
    obtain tool where tool: "nd_tool n = Some tool" using assms ch by (auto simp: run_tool_def split: option.splits)
    define c where "c = \<lparr>cx_store = h_store h, cx_records = [], cx_seq = 0, cx_on_record = eg_sink en, cx_referenced = []\<rparr>"
    define res where "res = scoped_dispatch (eg_sha en) (eg_dumps en) (eg_backend en) (node_scope n tool) tool
      (render_items (eg_float en) (run_context r) (nd_args n)) c"
    have read: "\<not> (case map_of (REGISTRY :: (string \<times> tier \<times> 'a handler) list) tool of None \<Rightarrow> False | Some (t, _) \<Rightarrow> t \<noteq> Read)"
      using assms ch tool no m by (auto simp: run_tool_def split: if_splits)
    then have "snd res = c"
      using scoped_read_keeps [of "eg_sha en" "eg_dumps en" "eg_backend en" "node_scope n tool" tool _ c] by (fastforce simp: res_def)
    moreover have "h_store h' = cx_store (snd res)"
      using assms tool read by (auto simp: run_tool_def Let_def res_def c_def split: prod.splits sum.splits)
    ultimately show False using ch by (simp add: c_def)
  qed
qed

lemma launch_task_hub:
  assumes "launch_task en n r h = (r', h')"
  shows "h_approvals h' = h_approvals h \<and> h_store h' = h_store h"
    and "full_wakes h' \<noteq> full_wakes h \<Longrightarrow> \<not> mock_env (nd_environment n) \<Longrightarrow> approved_on_path (eg_workflow en) r (nd_id n)"
proof -
  have "h' = h \<or> (\<exists>name version spec gated. h' = snd (launch_heartbeat en name version spec gated h) \<and>
      (as_mode spec = Full \<and> \<not> mock_env (nd_environment n) \<longrightarrow> approved_on_path (eg_workflow en) r (nd_id n)))"
  proof (cases "\<exists>name version a. nd_agent n \<noteq> None \<and> h_agents h (the (nd_agent n)) = Some (name, version, a)")
    case True
    then obtain ref name version a where a: "nd_agent n = Some ref" "h_agents h ref = Some (name, version, a)" by auto
    define spec where "spec = task_spec n a"
    define out where "out = (as_mode spec = Full \<and> \<not> mock_env (nd_environment n))"
    show ?thesis
    proof (cases "out \<and> \<not> approved_on_path (eg_workflow en) r (nd_id n)")
      case True
      then show ?thesis using assms a by (simp add: launch_task_def Let_def spec_def out_def)
    next
      case False
      then have "h' = snd (launch_heartbeat en name version spec out h)"
        using assms a by (auto simp: launch_task_def Let_def spec_def out_def split: prod.splits sum.splits wake.splits)
      then show ?thesis using False out_def by blast
    qed
  next
    case False
    then show ?thesis using assms by (cases "nd_agent n") (auto simp: launch_task_def split: option.splits)
  qed
  then show "h_approvals h' = h_approvals h \<and> h_store h' = h_store h"
    and "full_wakes h' \<noteq> full_wakes h \<Longrightarrow> \<not> mock_env (nd_environment n) \<Longrightarrow> approved_on_path (eg_workflow en) r (nd_id n)"
    using launch_wakes by (metis, metis)
qed

definition approved_row :: "string \<Rightarrow> 's hub \<Rightarrow> bool" where
  "approved_row i h \<longleftrightarrow> (\<exists>a \<in> set (h_approvals h). ap_node a = i \<and> ap_status a = A_Decided Approved)"

lemma start_node_hub:
  assumes "start_node en n r h = (r', h')"
  shows "approved_row i h' = approved_row i h"
    and "h_store h' \<noteq> h_store h \<or> full_wakes h' \<noteq> full_wakes h \<Longrightarrow> \<not> mock_env (nd_environment n) \<Longrightarrow>
      approved_on_path (eg_workflow en) r (nd_id n)"
proof -
  have "(h' = h \<or> (\<exists>a. h' = h\<lparr>h_ids := h_ids h + 1, h_approvals := h_approvals h @ [a]\<rparr> \<and> ap_status a = A_Pending)) \<or>
      run_tool en n r h = (r', h') \<or> launch_task en n r h = (r', h')"
    using assms by (auto simp: start_node_def request_approval_def Let_def split: node_type.splits sum.splits)
  then show "approved_row i h' = approved_row i h"
    and "h_store h' \<noteq> h_store h \<or> full_wakes h' \<noteq> full_wakes h \<Longrightarrow> \<not> mock_env (nd_environment n) \<Longrightarrow>
      approved_on_path (eg_workflow en) r (nd_id n)"
    using run_tool_hub [of en n r h r' h'] launch_task_hub [of en n r h r' h']
    by (auto simp: approved_row_def full_wakes_def)
qed

lemma executed_graph: "feeds (executed_graph w r) \<subseteq> flow w" "closed_gates (executed_graph w r)" "gg_ids (executed_graph w r) = node_ids w"
  by (auto simp: feeds_def closed_gates_def executed_graph_def incoming_def flow_def)

text \<open>The check of the engine is exact: every path that was executed to the node crosses an approval decided approved,
  and some path was.\<close>

lemma approved_on_path_exact:
  assumes "acyclic (flow w)" and "i \<in> set (node_ids w)"
  shows "approved_on_path w r i \<longleftrightarrow> \<not> ungated (executed_graph w r) i"
  using walk_exact(1) [of "executed_graph w r" i "[]" "[]"] acyclic_subset [OF assms(1) executed_graph(1)] executed_graph(2,3) assms(2)
  by (simp add: approved_on_path_def stack_ok_def memo_ok_def)

lemma flow_wf: "acyclic (flow w) \<Longrightarrow> wf (flow w)"
proof -
  have "finite (flow w)"
    by (rule finite_subset [of _ "(\<lambda>e. (we_from e, we_to e)) ` set (wf_edges w)"]) (auto simp: flow_def)
  then show "acyclic (flow w) \<Longrightarrow> wf (flow w)" by (rule finite_acyclic_wf)
qed

text \<open>Going back along executed edges from a gated node ends at an approval.\<close>

lemma gated_has_approval:
  assumes "acyclic (flow w)" and "i \<in> set (node_ids w)" and "\<not> ungated (executed_graph w r) i"
  shows "\<exists>e \<in> set (wf_edges w). approved_source w r e"
proof -
  show ?thesis using flow_wf [OF assms(1)] assms(2,3)
  proof (induction i rule: wf_induct_rule)
    case (less i)
    let ?g = "executed_graph w r"
    have "gg_in ?g i \<noteq> []" using less.prems ungated.start [of i ?g] by (auto simp: executed_graph_def)
    then obtain e where e: "e \<in> set (gg_in ?g i)" by (cases "gg_in ?g i") auto
    then have f: "(we_from e, i) \<in> flow w" "we_from e \<in> set (node_ids w)" "e \<in> set (wf_edges w)"
      by (auto simp: executed_graph_def incoming_def flow_def)
    show ?case
    proof (cases "approved_source w r e")
      case True
      then show ?thesis using f(3) by blast
    next
      case False
      then have "\<not> ungated ?g (we_from e)"
        using less.prems e ungated.along [of i ?g e] by (auto simp: executed_graph_def)
      then show ?thesis using less.IH [OF f(1) f(2)] by blast
    qed
  qed
qed

text \<open>What the results of approvals say, the rows of the approvals say too.\<close>

definition backed :: "workflow \<Rightarrow> run_row \<Rightarrow> 's hub \<Rightarrow> bool" where
  "backed w r h \<longleftrightarrow>
     (\<forall>i src. node_of w i = Some src \<longrightarrow> nd_type src = Approval \<longrightarrow> field (rn_results r) i ''decision'' = PStr ''approved'' \<longrightarrow>
        approved_row i h)"

definition any_approved :: "'s hub \<Rightarrow> bool" where
  "any_approved h \<longleftrightarrow> (\<exists>i. approved_row i h)"

text \<open>Either something has been approved, or the stores and the wakes in full mode are those of the start.\<close>

definition engine_inv :: "workflow \<Rightarrow> 's \<Rightarrow> agent_spec list \<Rightarrow> run_row \<times> 's hub \<Rightarrow> bool" where
  "engine_inv w s0 f0 = (\<lambda>(r, h). backed w r h \<and> (any_approved h \<or> h_store h = s0 \<and> full_wakes h = f0))"

lemma node_of_id: "node_of w i = Some src \<Longrightarrow> nd_id src = i"
  by (auto simp: node_of_def dest!: map_of_SomeD)

lemma node_of_member: "distinct (node_ids w) \<Longrightarrow> n \<in> set (wf_nodes w) \<Longrightarrow> node_of w (nd_id n) = Some n"
  unfolding node_of_def
proof (rule map_of_is_SomeI)
  assume "distinct (node_ids w)"
  moreover have "map fst (rev (map (\<lambda>n. (nd_id n, n)) (wf_nodes w))) = rev (node_ids w)"
    by (simp add: rev_map node_ids_def comp_def)
  ultimately show "distinct (map fst (rev (map (\<lambda>n. (nd_id n, n)) (wf_nodes w))))" by simp
qed auto

lemma backed_results: "backed w r h \<Longrightarrow> rn_results r' = rn_results r \<Longrightarrow> (\<And>i. approved_row i h \<Longrightarrow> approved_row i h') \<Longrightarrow> backed w r' h'"
  unfolding backed_def by metis

lemma field_update: "field (AList.update i v rs) j k = (if i = j then (case v of PDict d \<Rightarrow> get d k PNone | _ \<Rightarrow> PNone) else field rs j k)"
  by (simp add: field_def update_conv')

lemma engine_inv_node:
  assumes "engine_inv w s0 f0 (r, h)" and "w = eg_workflow en" and "acyclic (flow w)" and "distinct (node_ids w)"
    and "n \<in> set (wf_nodes w)" and "\<not> mock_env (nd_environment n)"
  shows "engine_inv w s0 f0 (fst (try_node en n (r, h)))"
proof -
  define r0 where "r0 = with_default (nd_id n) r"
  have b: "backed w r0 h" "any_approved h \<or> h_store h = s0 \<and> full_wakes h = f0"
    using assms(1) by (auto simp: engine_inv_def r0_def intro: backed_results)
  obtain r1 h1 where s: "start_node en n r0 h = (r1, h1)" by (cases "start_node en n r0 h") auto
  have st: "started n r0 r1" using start_node_started [of n r0 en h] s by simp
  have rows: "approved_row i h1 = approved_row i h" for i by (rule start_node_hub(1) [OF s])
  have "backed w r1 h1"
  proof (cases "rn_results r1 = rn_results r0")
    case True
    then show ?thesis using b(1) rows backed_results by metis
  next
    case False
    then obtain v where v: "nd_type n \<noteq> Approval" "rn_results r1 = AList.update (nd_id n) v (rn_results r0)"
      using st by (auto simp: started_def)
    show ?thesis unfolding backed_def
    proof (intro allI impI)
      fix i src assume a: "node_of w i = Some src" "nd_type src = Approval" "field (rn_results r1) i ''decision'' = PStr ''approved''"
      have "i \<noteq> nd_id n" using a(1,2) v(1) node_of_member [OF assms(4,5)] by auto
      then show "approved_row i h1" using a b(1) v(2) rows by (auto simp: backed_def field_update)
    qed
  qed
  moreover have "any_approved h1 \<or> h_store h1 = s0 \<and> full_wakes h1 = f0"
  proof (cases "h_store h1 = h_store h \<and> full_wakes h1 = full_wakes h")
    case True
    then show ?thesis using b(2) rows by (auto simp: any_approved_def)
  next
    case False
    then have "approved_on_path w r0 (nd_id n)" using start_node_hub(2) [OF s] assms(2,6) by blast
    moreover have i: "nd_id n \<in> set (node_ids w)" using assms(5) by (simp add: node_ids_def)
    ultimately obtain e where "approved_source w r0 e"
      using approved_on_path_exact [OF assms(3) i] gated_has_approval [OF assms(3) i] by blast
    then obtain src where "node_of w (we_from e) = Some src" "nd_type src = Approval"
      "field (rn_results r0) (nd_id src) ''decision'' = PStr ''approved''"
      by (auto simp: approved_source_def split: option.splits)
    then have "approved_row (we_from e) h" using b(1) node_of_id by (fastforce simp: backed_def)
    then show ?thesis using rows by (auto simp: any_approved_def)
  qed
  ultimately have "engine_inv w s0 f0 (r1, h1)" by (simp add: engine_inv_def)
  moreover have "engine_inv w s0 f0 (r0, h)" using b by (simp add: engine_inv_def)
  moreover have "engine_inv w s0 f0 (finish_node (nd_id n) N_Skipped r0, h)"
    using b by (auto simp: engine_inv_def intro: backed_results)
  moreover have "fst (try_node en n (r, h)) \<in> {(r0, h), (finish_node (nd_id n) N_Skipped r0, h), (r1, h1)}"
    using s by (auto simp: try_node_def Let_def r0_def)
  ultimately show ?thesis by auto
qed

lemma engine_inv_rows:
  assumes "engine_inv w s0 f0 (r, h)" and "rn_results r' = rn_results r"
    and "\<And>i. approved_row i h \<Longrightarrow> approved_row i h'" and "h_store h' = h_store h" and "full_wakes h' = full_wakes h"
  shows "engine_inv w s0 f0 (r', h')"
  using assms backed_results [of w r h r' h'] by (auto simp: engine_inv_def any_approved_def)

text \<open>A published workflow whose nodes are not labelled mock, run by the engine.\<close>

definition real_workflow :: "'s engine \<Rightarrow> bool" where
  "real_workflow en \<longleftrightarrow>
     acyclic (flow (eg_workflow en)) \<and> distinct (node_ids (eg_workflow en)) \<and>
     (\<forall>n \<in> set (wf_nodes (eg_workflow en)). \<not> mock_env (nd_environment n))"

lemma engine_inv_pass:
  assumes "real_workflow en" and "set ns \<subseteq> set (wf_nodes (eg_workflow en))" and "engine_inv (eg_workflow en) s0 f0 x"
  shows "engine_inv (eg_workflow en) s0 f0 (fst (pass_over en ns x))"
  using assms(2,3)
proof (induction ns arbitrary: x)
  case (Cons n ns)
  have "engine_inv (eg_workflow en) s0 f0 (fst (try_node en n x))"
    using engine_inv_node [of "eg_workflow en" s0 f0 "fst x" "snd x" en n] Cons.prems assms(1) by (simp add: real_workflow_def)
  then have "engine_inv (eg_workflow en) s0 f0 (fst (pass_over en ns (fst (try_node en n x))))" using Cons by simp
  then show ?case by (simp add: case_prod_beta Let_def)
qed simp

lemma engine_inv_loop:
  assumes "real_workflow en" and "engine_inv (eg_workflow en) s0 f0 x"
  shows "engine_inv (eg_workflow en) s0 f0 (advance_loop en x)"
  using assms
proof (induction en x rule: advance_loop.induct)
  case (1 en x)
  obtain x' moved where p: "pass_over en (wf_nodes (eg_workflow en)) x = (x', moved)" by fastforce
  have "engine_inv (eg_workflow en) s0 f0 x'" using engine_inv_pass [OF 1(2) order_refl 1(3)] p by simp
  then show ?case using 1(1) [OF p [symmetric] refl] 1(2) p by (subst advance_loop.simps) simp
qed

lemma cancel_heartbeats_rows:
  "h_approvals (cancel_heartbeats sts h) = h_approvals h" "h_store (cancel_heartbeats sts h) = h_store h"
  "map hb_spec (h_heartbeats (cancel_heartbeats sts h)) = map hb_spec (h_heartbeats h)"
proof -
  have "h_approvals (cancel_heartbeats sts h) = h_approvals h \<and> h_store (cancel_heartbeats sts h) = h_store h \<and>
      map hb_spec (h_heartbeats (cancel_heartbeats sts h)) = map hb_spec (h_heartbeats h)"
    unfolding cancel_heartbeats_def
    by (induction sts arbitrary: h) (auto simp: request_cancel_def comp_def cong: option.case_cong split: option.splits)
  then show "h_approvals (cancel_heartbeats sts h) = h_approvals h" "h_store (cancel_heartbeats sts h) = h_store h"
    "map hb_spec (h_heartbeats (cancel_heartbeats sts h)) = map hb_spec (h_heartbeats h)" by blast+
qed

lemma stopped_rows:
  "approved_row i (close_pending_approvals (cancel_heartbeats sts h)) = approved_row i h"
  "h_store (close_pending_approvals (cancel_heartbeats sts h)) = h_store h"
  "full_wakes (close_pending_approvals (cancel_heartbeats sts h)) = full_wakes h"
  using cancel_heartbeats_rows [of sts h]
  by (auto simp: close_pending_approvals_def approved_row_def full_wakes_def)

lemma engine_inv_advance:
  assumes "real_workflow en" and "engine_inv (eg_workflow en) s0 f0 (r, h)"
  shows "engine_inv (eg_workflow en) s0 f0 (advance en (r, h))"
proof -
  obtain r1 h1 where l: "advance_loop en (r, h) = (r1, h1)" by fastforce
  have "engine_inv (eg_workflow en) s0 f0 (r1, h1)" using engine_inv_loop [OF assms] l by simp
  then show ?thesis using assms(2) l
    by (auto simp: advance_def cancel_locked_def stop_siblings_def Let_def intro: engine_inv_rows simp: stopped_rows)
qed

lemma set_approval_rows:
  "approved_row j h \<Longrightarrow> approved_row j (set_approval i s h)"
  "h_store (set_approval i s h) = h_store h" "full_wakes (set_approval i s h) = full_wakes h"
  by (auto simp: approved_row_def set_approval_def full_wakes_def intro!: bexI)

lemma decided_row:
  assumes "decide_approval i d h = Inr (a, h')"
  shows "h' = set_approval i (A_Decided d) h" and "d = Approved \<Longrightarrow> approved_row (ap_node a) h'"
proof -
  have a: "a \<in> set (h_approvals h)" "ap_id a = i" "ap_status a = A_Pending" and h': "h' = set_approval i (A_Decided d) h"
    using assms by (auto simp: decide_approval_def approval_of_def find_Some_iff split: option.splits if_splits)
  then show "h' = set_approval i (A_Decided d) h" by simp
  have "a\<lparr>ap_status := A_Decided d\<rparr> \<in> set (h_approvals h')"
    using a h' by (force simp: set_approval_def image_iff)
  then show "d = Approved \<Longrightarrow> approved_row (ap_node a) h'"
    unfolding approved_row_def by (intro bexI [of _ "a\<lparr>ap_status := A_Decided d\<rparr>"]) simp_all
qed

lemma engine_inv_op:
  assumes "real_workflow en" and "engine_inv (eg_workflow en) s0 f0 (r, h)" and "engine_op en (r, h) y"
  shows "engine_inv (eg_workflow en) s0 f0 y"
proof -
  define w where "w = eg_workflow en"
  have adv: "engine_inv w s0 f0 (advance en (r', h'))" if "engine_inv w s0 f0 (r', h')" for r' h'
    using engine_inv_advance [OF assms(1)] that by (simp add: w_def)
  have inv: "engine_inv w s0 f0 (r, h)" using assms(2) by (simp add: w_def)
  have keep: "engine_inv w s0 f0 (r', h)" if "rn_results r' = rn_results r" for r'
    using inv that by (rule engine_inv_rows) simp_all
  from assms(3) have "engine_inv w s0 f0 y"
  proof (cases rule: engine_op.cases)
    case (decided i d who remark)
    obtain a h1 where a: "decide_approval i d h = Inr (a, h1)"
      and y: "y = (r, h1) \<or> y = advance en (apply_decision en a d who remark r, h1)"
      using decided by (auto simp: decide_def result_iff split: if_splits)
    have same: "engine_inv w s0 f0 (r, h1)"
      using inv by (rule engine_inv_rows) (simp_all add: decided_row(1) [OF a] set_approval_rows)
    have res: "rn_results (apply_decision en a d who remark r) =
        AList.update (ap_node a) (PDict [(''decision'', PStr (decision_text d)), (''by'', PStr who), (''note'', remark)]) (rn_results r)"
      by (simp add: apply_decision_def Let_def)
    have "backed w (apply_decision en a d who remark r) h1"
      unfolding backed_def
    proof (intro allI impI)
      fix j src assume j: "node_of w j = Some src" "nd_type src = Approval"
        "field (rn_results (apply_decision en a d who remark r)) j ''decision'' = PStr ''approved''"
      show "approved_row j h1"
      proof (cases "j = ap_node a")
        case True
        then have "d = Approved" using j(3) res by (cases d) (simp_all add: field_update)
        then show ?thesis using decided_row(2) [OF a] True by simp
      next
        case False
        then show ?thesis using j res same by (auto simp: field_update engine_inv_def backed_def)
      qed
    qed
    then have "engine_inv w s0 f0 (apply_decision en a d who remark r, h1)" using same by (simp add: engine_inv_def)
    then show ?thesis using y same adv by blast
  next
    case (expired i)
    have "engine_inv w s0 f0 (r', set_approval i A_Expired h)" if "rn_results r' = rn_results r" for r'
      using inv that by (rule engine_inv_rows) (simp_all add: set_approval_rows)
    then show ?thesis using expired keep [of r]
      by (auto simp: expire_approval_def Let_def split: option.splits)
  next
    case (ended i f)
    have "engine_inv w s0 f0 (finish_node i s (put_result i (heartbeat_result en f plan) r), h')"
      if "h_approvals h' = h_approvals h" "h_store h' = h_store h" "full_wakes h' = full_wakes h" for s plan h'
    proof -
      have "field (rn_results (finish_node i s (put_result i (heartbeat_result en f plan) r))) j ''decision'' = PStr x \<Longrightarrow>
          field (rn_results r) j ''decision'' = PStr x" for j x
        by (auto simp: field_update heartbeat_result_def split: if_splits option.splits)
      then show ?thesis using inv that by (auto simp: engine_inv_def backed_def any_approved_def approved_row_def)
    qed
    then show ?thesis using ended keep [of r]
      by (auto simp: heartbeat_done_def Let_def full_wakes_def intro!: adv split: option.splits)
  next
    case (retried i)
    then show ?thesis using keep [of r] keep [of "finish_node i N_Pending r"] adv by (auto simp: retry_node_def)
  next
    case restarted
    then show ?thesis using keep [of r] keep [of "r\<lparr>rn_states := undefer (rn_states r)\<rparr>"] adv by (auto simp: reconcile_run_def)
  next
    case cancelled
    have "engine_inv w s0 f0 (r', close_pending_approvals (cancel_heartbeats sts h))" if "rn_results r' = rn_results r" for r' sts
      using inv that by (rule engine_inv_rows) (simp_all add: stopped_rows)
    then show ?thesis using cancelled by (auto simp: cancel_run_def cancel_locked_def split: if_splits)
  qed
  then show ?thesis by (simp add: w_def)
qed

lemma engine_inv_start:
  "h_approvals h = [] \<Longrightarrow> engine_inv w (h_store h) (full_wakes h) (new_run v inputs, h)"
  by (simp add: engine_inv_def backed_def new_run_def field_def)

text \<open>C4. A published workflow without mock labels, run by the engine: as long as no human has approved an approval of
  the run, the engine has changed no store and woken no agent in full mode, whatever ends, expires, is rejected,
  retried, restarted or cancelled, and even if agents are published anew meanwhile.\<close>

theorem nothing_written_before_approval:
  assumes "validate_workflow_spec reg resolve (eg_workflow en) = Inr []"
    and "\<forall>n \<in> set (wf_nodes (eg_workflow en)). \<not> mock_env (nd_environment n)"
    and "h_approvals h0 = []" and "(engine_step left_alone en)\<^sup>*\<^sup>* (start_run en inputs h0) (r, h)"
    and "\<forall>a \<in> set (h_approvals h). ap_status a \<noteq> A_Decided Approved"
  shows "h_store h = h_store h0 \<and> full_wakes h = full_wakes h0"
proof -
  note v = validate_workflow_ok [OF assms(1)]
  have real: "real_workflow en"
    using assms(2) cycle_problems_iff [OF v(1)] v(1,2) structure_ok by (auto simp: real_workflow_def)
  define inv where "inv = engine_inv (eg_workflow en) (h_store h0) (full_wakes h0)"
  have "inv (start_run en inputs h0)"
    unfolding start_run_def inv_def using assms(3) by (intro engine_inv_advance [OF real] engine_inv_start)
  from assms(4) this have "inv (r, h)"
  proof (induction rule: rtranclp_induct)
    case (step y z)
    from step.hyps(2) show ?case
    proof cases
      case by_engine
      then show ?thesis using step engine_inv_op [OF real, of _ _ "fst y" "snd y" z] by (simp add: inv_def)
    next
      case (by_others h2 h1 r1)
      then show ?thesis using step unfolding inv_def
        by (auto intro: engine_inv_rows simp: left_alone_def full_wakes_def approved_row_def)
    qed
  qed
  moreover have "\<not> any_approved h" using assms(5) by (auto simp: any_approved_def approved_row_def)
  ultimately show ?thesis by (simp add: inv_def engine_inv_def)
qed

section \<open>Runs do not get stuck\<close>

text \<open>No node that is pending could move.\<close>

definition settled :: "workflow \<Rightarrow> wf_node list \<Rightarrow> run_row \<Rightarrow> bool" where
  "settled w ns r \<longleftrightarrow>
     (\<forall>n \<in> set ns. status_at (rn_states r) (nd_id n) = N_Pending \<longrightarrow> (\<exists>e \<in> set (edges_into w (nd_id n)). unresolved r e))"

lemma unresolved_cong: "(\<And>j. status_at (rn_states r') j = status_at (rn_states r) j) \<Longrightarrow> unresolved r' e = unresolved r e"
  by (simp add: unresolved_def)

lemma try_node_still:
  "try_node en n (r, h) = ((r', h'), False) \<Longrightarrow>
     (\<forall>j. status_at (rn_states r') j = status_at (rn_states r) j) \<and> settled (eg_workflow en) [n] r'"
  by (auto simp: try_node_def Let_def settled_def list_ex_iff split: if_splits)

lemma pass_over_still:
  "pass_over en ns (r, h) = ((r', h'), False) \<Longrightarrow>
     (\<forall>j. status_at (rn_states r') j = status_at (rn_states r) j) \<and> settled (eg_workflow en) ns r'"
proof (induction ns arbitrary: r h)
  case Nil
  then show ?case by (simp add: settled_def)
next
  case (Cons n ns)
  obtain r1 h1 where t: "try_node en n (r, h) = ((r1, h1), False)" and p: "pass_over en ns (r1, h1) = ((r', h'), False)"
    using Cons.prems by (auto simp: Let_def split: prod.splits)
  have s: "\<forall>j. status_at (rn_states r') j = status_at (rn_states r1) j" "settled (eg_workflow en) ns r'"
    using Cons.IH [OF p] by auto
  then have "settled (eg_workflow en) [n] r'"
    using try_node_still [OF t] unresolved_cong [of r' r1] by (simp add: settled_def)
  then show ?case using s try_node_still [OF t] by (auto simp: settled_def)
qed

lemma advance_loop_settled: "settled (eg_workflow en) (wf_nodes (eg_workflow en)) (fst (advance_loop en x))"
proof (induction en x rule: advance_loop.induct)
  case (1 en x)
  obtain x' moved where p: "pass_over en (wf_nodes (eg_workflow en)) x = (x', moved)" by fastforce
  show ?case
  proof (cases moved)
    case True
    then show ?thesis using 1 [OF p [symmetric] refl] p by (subst advance_loop.simps) simp
  next
    case False
    then have "settled (eg_workflow en) (wf_nodes (eg_workflow en)) (fst x')"
      using pass_over_still [of en _ "fst x" "snd x" "fst x'" "snd x'"] p by simp
    then show ?thesis using False p by (subst advance_loop.simps) simp
  qed
qed

text \<open>What holds of the states of an active run: they are those of nodes, and none is cancelled.\<close>

definition tidy :: "workflow \<Rightarrow> run_row \<Rightarrow> bool" where
  "tidy w r \<longleftrightarrow> distinct (map fst (rn_states r)) \<and> (\<forall>(i, st) \<in> set (rn_states r). i \<in> set (node_ids w) \<and> ns_status st \<noteq> N_Cancelled)"

lemma set_update: "set (AList.update k v al) \<subseteq> insert (k, v) (set al)"
  by (induction al) auto

lemma tidy_update:
  "tidy w r \<Longrightarrow> i \<in> set (node_ids w) \<Longrightarrow> ns_status st \<noteq> N_Cancelled \<Longrightarrow> rn_states r' = AList.update i st (rn_states r) \<Longrightarrow> tidy w r'"
  unfolding tidy_def using set_update [of i st "rn_states r"] distinct_update [of "rn_states r" i st] by fastforce

lemma tidy_state: "tidy w r \<Longrightarrow> ns_status (state_at (rn_states r) i) \<noteq> N_Cancelled"
  by (cases "map_of (rn_states r) i") (auto simp: state_at_def pending_state_def tidy_def dest: map_of_SomeD)

lemma tidy_default: "tidy w r \<Longrightarrow> i \<in> set (node_ids w) \<Longrightarrow> tidy w (with_default i r)"
  by (rule tidy_update [of w r i "state_at (rn_states r) i"]) (simp_all add: with_default_def put_state_def tidy_state)

lemma tidy_finish: "tidy w r \<Longrightarrow> i \<in> set (node_ids w) \<Longrightarrow> s \<noteq> N_Cancelled \<Longrightarrow> tidy w (finish_node i s r)"
  by (rule tidy_update [of w r i "(state_at (rn_states r) i)\<lparr>ns_status := s\<rparr>"]) (simp_all add: finish_node_def put_state_def)

lemma tidy_result: "tidy w (put_result i v r) = tidy w r"
  by (simp add: tidy_def)

lemma tidy_node:
  assumes "tidy w r" and "nd_id n \<in> set (node_ids w)"
  shows "tidy w (fst (fst (try_node en n (r, h))))"
proof -
  define r0 where "r0 = with_default (nd_id n) r"
  have r0: "tidy w r0" unfolding r0_def by (rule tidy_default [OF assms])
  obtain st where "ns_status st \<noteq> N_Cancelled" "rn_states (fst (start_node en n r0 h)) = AList.update (nd_id n) st (rn_states r0)"
    using start_node_started [of n r0 en h] by (auto simp: started_def)
  then have "tidy w (fst (start_node en n r0 h))" using tidy_update [OF r0 assms(2)] by blast
  moreover have "tidy w (finish_node (nd_id n) N_Skipped r0)" using tidy_finish [OF r0 assms(2)] by simp
  moreover have "fst (fst (try_node en n (r, h))) \<in> {r0, finish_node (nd_id n) N_Skipped r0, fst (start_node en n r0 h)}"
    by (auto simp: try_node_def Let_def r0_def)
  ultimately show ?thesis using r0 by auto
qed

lemma tidy_pass: "tidy w (fst x) \<Longrightarrow> nd_id ` set ns \<subseteq> set (node_ids w) \<Longrightarrow> tidy w (fst (fst (pass_over en ns x)))"
proof (induction ns arbitrary: x)
  case (Cons n ns)
  have "tidy w (fst (fst (try_node en n x)))" using tidy_node [of w "fst x" n en "snd x"] Cons.prems by simp
  then show ?case using Cons by (simp add: case_prod_beta Let_def)
qed simp

lemma tidy_loop: "tidy (eg_workflow en) (fst x) \<Longrightarrow> tidy (eg_workflow en) (fst (advance_loop en x))"
proof (induction en x rule: advance_loop.induct)
  case (1 en x)
  obtain x' moved where p: "pass_over en (wf_nodes (eg_workflow en)) x = (x', moved)" by fastforce
  have "tidy (eg_workflow en) (fst x')"
    using tidy_pass [of "eg_workflow en" x "wf_nodes (eg_workflow en)" en] 1(2) p by (simp add: node_ids_def)
  then show ?case using 1(1) [OF p [symmetric] refl] p by (subst advance_loop.simps) simp
qed

text \<open>A run that advances and is still running has a node in flight: an agent at work or one to be tried again.\<close>

lemma running_has_work:
  assumes "acyclic (flow w)" and "structure_problems w = []" and "tidy w r" and "settled w (wf_nodes w) r"
    and "run_status_of (rn_states r) = R_Running"
  shows "\<exists>i. status_at (rn_states r) i \<in> {N_Running, N_Deferred}"
proof (rule ccontr)
  assume no: "\<not> ?thesis"
  have st: "ns_status st \<in> {N_Pending, N_Done, N_Skipped, N_Running, N_Deferred}" if "(i, st) \<in> set (rn_states r)" for i st
    using assms(3,5) that by (cases "ns_status st") (auto simp: run_status_of_def tidy_def list_ex_iff list_all_iff split: if_splits)
  have status: "status_at (rn_states r) i \<in> {N_Pending, N_Done, N_Skipped}" for i
  proof (cases "map_of (rn_states r) i")
    case None
    then show ?thesis by (simp add: status_at_def state_at_def pending_state_def)
  next
    case (Some x)
    have "status_at (rn_states r) i \<notin> {N_Running, N_Deferred}" using no by blast
    then show ?thesis using Some st [of i x] by (auto simp: status_at_def state_at_def dest: map_of_SomeD)
  qed
  have none: "i \<in> set (node_ids w) \<Longrightarrow> status_at (rn_states r) i \<noteq> N_Pending" for i
  proof (induction i rule: wf_induct_rule [OF flow_wf [OF assms(1)]])
    case (1 i)
    show ?case
    proof
      assume p: "status_at (rn_states r) i = N_Pending"
      obtain n where n: "n \<in> set (wf_nodes w)" "nd_id n = i" using 1(2) by (auto simp: node_ids_def)
      obtain e where e: "e \<in> set (edges_into w i)" "unresolved r e" using assms(4) n p by (auto simp: settled_def)
      then have f: "e \<in> set (wf_edges w)" "we_to e = i" "we_to e \<noteq> END" by (auto simp: edges_into_def)
      have from_node: "we_from e \<in> set (node_ids w)" using assms(2) f(1) structure_ok by blast
      have "(we_from e, i) \<in> flow w" using f by (auto simp: flow_def)
      then have "status_at (rn_states r) (we_from e) \<noteq> N_Pending" using 1(1) from_node by blast
      then show False using e(2) status [of "we_from e"] by (auto simp: unresolved_def)
    qed
  qed
  obtain i st where i: "(i, st) \<in> set (rn_states r)" "ns_status st \<notin> {N_Done, N_Skipped}"
    using assms(5) by (auto simp: run_status_of_def list_all_iff split: if_splits)
  have "map_of (rn_states r) i = Some st" using i(1) assms(3) by (simp add: tidy_def)
  then have "status_at (rn_states r) i = ns_status st" by (simp add: status_at_def state_at_def)
  then have "status_at (rn_states r) i = N_Pending" using status [of i] i(2) by auto
  moreover have "i \<in> set (node_ids w)" using i(1) assms(3) by (auto simp: tidy_def)
  ultimately show False using none by blast
qed

text \<open>What holds of the run and the approvals between operations.\<close>

definition known_approvals :: "workflow \<Rightarrow> 's hub \<Rightarrow> bool" where
  "known_approvals w h \<longleftrightarrow> (\<forall>a \<in> set (h_approvals h). ap_node a \<in> set (node_ids w))"

definition live_inv :: "workflow \<Rightarrow> run_row \<times> 's hub \<Rightarrow> bool" where
  "live_inv w = (\<lambda>(r, h). known_approvals w h \<and> (rn_status r \<in> set ACTIVE \<longrightarrow> tidy w r) \<and>
     (rn_status r = R_Running \<longrightarrow> (\<exists>i. status_at (rn_states r) i \<in> {N_Running, N_Deferred})))"

lemma start_node_approvals:
  "start_node en n r h = (r', h') \<Longrightarrow> h_approvals h' = h_approvals h \<or> (\<exists>a. h_approvals h' = h_approvals h @ [a] \<and> ap_node a = nd_id n)"
  using run_tool_hub(1) [of en n r h r' h'] launch_task_hub(1) [of en n r h r' h']
  by (auto simp: start_node_def request_approval_def Let_def split: node_type.splits sum.splits)

lemma known_node:
  assumes "known_approvals w h" and "nd_id n \<in> set (node_ids w)"
  shows "known_approvals w (snd (fst (try_node en n (r, h))))"
proof -
  obtain r1 h1 where s: "start_node en n (with_default (nd_id n) r) h = (r1, h1)" by fastforce
  have "known_approvals w h1" using start_node_approvals [OF s] assms by (auto simp: known_approvals_def)
  then show ?thesis using s assms(1) by (auto simp: try_node_def Let_def)
qed

lemma known_pass: "known_approvals w (snd x) \<Longrightarrow> nd_id ` set ns \<subseteq> set (node_ids w) \<Longrightarrow> known_approvals w (snd (fst (pass_over en ns x)))"
proof (induction ns arbitrary: x)
  case (Cons n ns)
  have "known_approvals w (snd (fst (try_node en n x)))" using known_node [of w "snd x" n en "fst x"] Cons.prems by simp
  then show ?case using Cons by (simp add: case_prod_beta Let_def)
qed simp

lemma known_loop: "known_approvals (eg_workflow en) (snd x) \<Longrightarrow> known_approvals (eg_workflow en) (snd (advance_loop en x))"
proof (induction en x rule: advance_loop.induct)
  case (1 en x)
  obtain x' moved where p: "pass_over en (wf_nodes (eg_workflow en)) x = (x', moved)" by fastforce
  have "known_approvals (eg_workflow en) (snd x')"
    using known_pass [of "eg_workflow en" x "wf_nodes (eg_workflow en)" en] 1(2) p by (simp add: node_ids_def)
  then show ?case using 1(1) [OF p [symmetric] refl] p by (subst advance_loop.simps) simp
qed

lemma known_map: "known_approvals w h \<longleftrightarrow> set (map ap_node (h_approvals h)) \<subseteq> set (node_ids w)"
  by (auto simp: known_approvals_def)

lemma nodes_kept: "map ap_node (map (\<lambda>a. if P a then a\<lparr>ap_status := s\<rparr> else a) as) = map ap_node as"
  by (induction as) auto

lemma known_stop: "known_approvals w (close_pending_approvals (cancel_heartbeats sts h)) = known_approvals w h"
  using cancel_heartbeats_rows(1) [of sts h] by (simp add: known_map close_pending_approvals_def nodes_kept del: map_map set_map)

lemma known_set: "known_approvals w (set_approval i s h) = known_approvals w h"
  by (simp add: known_map set_approval_def nodes_kept del: map_map set_map)

lemma advance_live:
  assumes "acyclic (flow (eg_workflow en))" and "structure_problems (eg_workflow en) = []"
    and "known_approvals (eg_workflow en) h" and "rn_status r \<in> set ACTIVE \<Longrightarrow> tidy (eg_workflow en) r"
  shows "live_inv (eg_workflow en) (advance en (r, h))"
proof -
  let ?w = "eg_workflow en"
  obtain r1 h1 where l: "advance_loop en (r, h) = (r1, h1)" by fastforce
  have k: "known_approvals ?w h1" using known_loop [of en "(r, h)"] assms(3) l by simp
  consider "rn_status r \<notin> set ACTIVE" | "rn_status r \<in> set ACTIVE" "rn_cancel r" | "rn_status r \<in> set ACTIVE" "\<not> rn_cancel r" by blast
  then show ?thesis
  proof cases
    case 1
    then show ?thesis using assms(3) by (auto simp: live_inv_def advance_def ACTIVE_def)
  next
    case 2
    then show ?thesis using assms(3) by (simp add: live_inv_def advance_def cancel_locked_def ACTIVE_def known_stop)
  next
    case 3
    have t: "tidy ?w r1" using tidy_loop [of en "(r, h)"] assms(4) 3(1) l by simp
    have s: "settled ?w (wf_nodes ?w) r1" using advance_loop_settled [of en "(r, h)"] l by simp
    show ?thesis
    proof (cases "run_status_of (rn_states r1) = R_Failed")
      case True
      then show ?thesis using 3 l k by (simp add: live_inv_def advance_def stop_siblings_def ACTIVE_def known_stop Let_def)
    next
      case False
      then show ?thesis using 3 l k t running_has_work [OF assms(1,2) t s]
        by (auto simp: live_inv_def advance_def Let_def tidy_def)
    qed
  qed
qed

lemma state_present: "ns_status (state_at sts i) \<noteq> N_Pending \<Longrightarrow> \<exists>st. map_of sts i = Some st"
  by (cases "map_of sts i") (auto simp: state_at_def pending_state_def)

lemma tidy_present: "tidy w r \<Longrightarrow> ns_status (state_at (rn_states r) i) \<noteq> N_Pending \<Longrightarrow> i \<in> set (node_ids w)"
  using state_present [of "rn_states r" i] by (auto simp: tidy_def dest: map_of_SomeD)

lemma tidy_undefer: "tidy w r \<Longrightarrow> tidy w (r\<lparr>rn_states := undefer (rn_states r)\<rparr>)"
  by (auto simp: tidy_def undefer_def comp_def case_prod_beta)

lemma live_op:
  assumes "acyclic (flow (eg_workflow en))" and "structure_problems (eg_workflow en) = []"
    and "live_inv (eg_workflow en) (r, h)" and "engine_op en (r, h) y"
  shows "live_inv (eg_workflow en) y"
proof -
  define w where "w = eg_workflow en"
  have k: "known_approvals w h" and t: "rn_status r \<in> set ACTIVE \<Longrightarrow> tidy w r" and live: "live_inv w (r, h)"
    using assms(3) by (auto simp: live_inv_def w_def)
  have same: "live_inv w (r, set_approval i s h)" for i s using live by (simp add: live_inv_def known_set)
  have adv: "live_inv w (advance en (r', h'))" if "known_approvals w h'" "rn_status r' \<in> set ACTIVE \<Longrightarrow> tidy w r'" for r' h'
    using advance_live [OF assms(1,2), of h' r'] that by (simp add: w_def)
  from assms(4) have "live_inv w y"
  proof (cases rule: engine_op.cases)
    case (decided i d who remark)
    obtain a h1 where a: "decide_approval i d h = Inr (a, h1)"
      and y: "y = (r, h1) \<or> rn_status r \<in> set ACTIVE \<and> y = advance en (apply_decision en a d who remark r, h1)"
      using decided by (auto simp: decide_def result_iff split: if_splits)
    have h1: "h1 = set_approval i (A_Decided d) h" by (rule decided_row(1) [OF a])
    have "a \<in> set (h_approvals h)" using a by (auto simp: decide_approval_def approval_of_def find_Some_iff split: option.splits if_splits)
    then have "tidy w (apply_decision en a d who remark r)" if "rn_status r \<in> set ACTIVE"
      using k t [OF that] tidy_finish [of w r "ap_node a" N_Done]
      by (simp add: apply_decision_def Let_def known_approvals_def tidy_result) (simp add: tidy_def)
    then show ?thesis using y same adv [of h1] k h1 by (auto simp: known_set)
  next
    case (expired i)
    then show ?thesis using live same k
      by (auto simp: expire_approval_def Let_def live_inv_def known_set ACTIVE_def split: option.splits)
  next
    case (ended i f)
    have "tidy w (finish_node i s (put_result i v r))" if "rn_status r \<in> set ACTIVE" "ns_status (state_at (rn_states r) i) = N_Running" "s \<noteq> N_Cancelled" for s v
      using tidy_finish [of w "put_result i v r" i s] tidy_present [OF t [OF that(1)], of i] t [OF that(1)] that
      by (simp add: tidy_result)
    then show ?thesis using ended live k
      by (auto simp: heartbeat_done_def Let_def known_approvals_def intro!: adv split: option.splits)
  next
    case (retried i)
    have "tidy w (finish_node i N_Pending r)" if "rn_status r \<in> set ACTIVE" "status_at (rn_states r) i = N_Deferred"
      using tidy_finish [of w r i N_Pending] tidy_present [OF t [OF that(1)], of i] t [OF that(1)] that(2)
      by (simp add: status_at_def)
    then show ?thesis using retried adv k t by (auto simp: retry_node_def)
  next
    case restarted
    then show ?thesis using live adv k t tidy_undefer [of w r] by (auto simp: reconcile_run_def)
  next
    case cancelled
    then show ?thesis using k by (auto simp: cancel_run_def cancel_locked_def live_inv_def ACTIVE_def known_stop split: if_splits)
  qed
  then show ?thesis by (simp add: w_def)
qed

lemma new_run_tidy: "tidy w (new_run w inputs)"
proof -
  have "distinct (map fst (fold (\<lambda>n sts. AList.update (nd_id n) pending_state sts) ns sts)) \<and>
      (\<forall>(i, st) \<in> set (fold (\<lambda>n sts. AList.update (nd_id n) pending_state sts) ns sts). i \<in> set (node_ids w) \<and> ns_status st \<noteq> N_Cancelled)"
    if "set ns \<subseteq> set (wf_nodes w)" "distinct (map fst sts)" "\<forall>(i, st) \<in> set sts. i \<in> set (node_ids w) \<and> ns_status st \<noteq> N_Cancelled" for ns sts
    using that
  proof (induction ns arbitrary: sts)
    case (Cons n ns)
    have n: "nd_id n \<in> set (node_ids w)" using Cons.prems(1) by (simp add: node_ids_def)
    have "distinct (map fst (AList.update (nd_id n) pending_state sts))" using Cons.prems(2) by (rule distinct_update)
    moreover have "\<forall>(i, st) \<in> set (AList.update (nd_id n) pending_state sts). i \<in> set (node_ids w) \<and> ns_status st \<noteq> N_Cancelled"
      using set_update [of "nd_id n" pending_state sts] Cons.prems(3) n by (auto simp: pending_state_def)
    ultimately show ?case using Cons.IH [of "AList.update (nd_id n) pending_state sts"] Cons.prems(1) by simp
  qed simp
  from this [of "wf_nodes w" "[]"] show ?thesis by (simp add: tidy_def new_run_def)
qed


section \<open>What a failure, an expiry and a rejection leave behind\<close>

lemma failed_status: "status_at sts i = N_Failed \<Longrightarrow> run_status_of sts = R_Failed"
  by (cases "map_of sts i")
    (auto simp: status_at_def state_at_def pending_state_def run_status_of_def list_ex_iff dest!: map_of_SomeD)

lemma pass_idle:
  "\<forall>n \<in> set ns. status_at (rn_states r) (nd_id n) \<noteq> N_Pending \<Longrightarrow>
     \<exists>r'. pass_over en ns (r, h) = ((r', h), False) \<and> (\<forall>j. status_at (rn_states r') j = status_at (rn_states r) j)"
proof (induction ns arbitrary: r)
  case (Cons n ns)
  have "try_node en n (r, h) = ((with_default (nd_id n) r, h), False)" using Cons.prems by (simp add: try_node_def Let_def)
  moreover obtain r' where "pass_over en ns (with_default (nd_id n) r, h) = ((r', h), False)"
    "\<forall>j. status_at (rn_states r') j = status_at (rn_states (with_default (nd_id n) r)) j"
    using Cons.IH [of "with_default (nd_id n) r"] Cons.prems by auto
  ultimately show ?case by simp
qed simp

text \<open>A node that fails does not stop the loop: of two independent nodes the second, a tool, is executed although the first
  has failed, and what it writes stays, in a run that ends failed.\<close>

theorem nodes_start_after_failure:
  assumes "wf_nodes (eg_workflow en) = [a, b]" and "wf_edges (eg_workflow en) = []" and "nd_id a \<noteq> nd_id b"
    and "nd_type a = Condition" and "nd_type b = Tool_Call"
    and "evaluate (eg_parse en) (or_default [] (nd_expr a)) (PDict [(''inputs'', PDict inputs)]) = Inl e"
  shows "\<exists>r. status_at (rn_states r) (nd_id a) = N_Failed \<and>
    h_store (snd (start_run en inputs h)) = h_store (snd (run_tool en b r h)) \<and>
    rn_status (fst (start_run en inputs h)) = R_Failed"
proof -
  define r0 where "r0 = new_run (eg_workflow en) inputs"
  define r1 where "r1 = finish_node (nd_id a) N_Failed (with_default (nd_id a) r0)"
  define r2 where "r2 = with_default (nd_id b) r1"
  obtain r3 h3 where t: "run_tool en b r2 h = (r3, h3)" by fastforce
  have p: "status_at (rn_states r0) j = N_Pending" for j
    using assms(1) by (auto simp: r0_def new_run_def status_at_def state_at_def pending_state_def update_conv')
  have ctx: "run_context (with_default (nd_id a) r0) = PDict [(''inputs'', PDict inputs)]"
    by (simp add: run_context_def r0_def new_run_def)
  have 1: "try_node en a (r0, h) = ((r1, h), True)"
    using assms(2,4,6) p ctx by (simp add: try_node_def Let_def edges_into_def start_node_def r1_def)
  have "start_node en b r2 h = (r3, h3)" using assms(5) t by (simp add: start_node_def)
  then have st: "started b r2 r3" using start_node_started [of b r2 en h] by simp
  have 2: "try_node en b (r1, h) = ((r3, h3), True)"
    using assms(2,3,5) p t by (simp add: try_node_def Let_def edges_into_def start_node_def r1_def r2_def)
  have s: "status_at (rn_states r3) (nd_id a) = N_Failed" "status_at (rn_states r3) (nd_id b) \<noteq> N_Pending"
    using started_status(1) [OF st, of "nd_id a"] started_status(2) [OF st] assms(3) by (simp_all add: r1_def r2_def)
  obtain r4 where idle: "pass_over en [a, b] (r3, h3) = ((r4, h3), False)" "\<forall>j. status_at (rn_states r4) j = status_at (rn_states r3) j"
    using pass_idle [of "[a, b]" r3 en h3] s by auto
  have "pass_over en [a, b] (r0, h) = ((r3, h3), True)" using 1 2 by simp
  then have loop: "advance_loop en (r0, h) = (r4, h3)"
    using idle(1) assms(1) by (subst advance_loop.simps, subst advance_loop.simps) (simp del: pass_over.simps)
  have f: "run_status_of (rn_states r4) = R_Failed" using failed_status idle(2) s(1) by metis
  have "rn_status r0 \<in> set ACTIVE" "\<not> rn_cancel r0" by (simp_all add: r0_def new_run_def ACTIVE_def)
  then have "h_store (snd (start_run en inputs h)) = h_store h3 \<and> rn_status (fst (start_run en inputs h)) = R_Failed"
    using loop f unfolding start_run_def r0_def [symmetric] advance_def
    by (simp add: Let_def stop_siblings_def stopped_rows)
  moreover have "status_at (rn_states r2) (nd_id a) = N_Failed" by (simp add: r2_def r1_def)
  ultimately show ?thesis using t by (intro exI [of _ r2]) simp
qed

text \<open>An approval that expires fails the run, and one rejected without another way out rejects it, but unlike a failure
  found while advancing, neither stops what runs beside it nor closes the other approvals.\<close>

theorem expiry_leaves_siblings:
  assumes "rn_status r \<in> set ACTIVE" and "approval_of h i = Some a" and "ap_status a = A_Pending"
    and "ns_approval (state_at (rn_states r) (ap_node a)) = Some i" and "j \<noteq> ap_node a"
  shows "rn_status (fst (expire_approval i (r, h))) = R_Failed \<and>
    status_at (rn_states (fst (expire_approval i (r, h)))) j = status_at (rn_states r) j \<and>
    h_heartbeats (snd (expire_approval i (r, h))) = h_heartbeats h \<and>
    (\<forall>b \<in> set (h_approvals h). ap_id b \<noteq> i \<longrightarrow> b \<in> set (h_approvals (snd (expire_approval i (r, h)))))"
  using assms by (auto simp: expire_approval_def Let_def set_approval_def)

theorem rejection_leaves_siblings:
  assumes "rn_status r \<in> set ACTIVE" and "approval_of h i = Some a" and "ap_status a = A_Pending"
    and "ns_approval (state_at (rn_states r) (ap_node a)) = Some i" and "j \<noteq> ap_node a"
    and "\<not> takes_rejection (eg_workflow en) (ap_node a)"
  shows "\<exists>r' h'. decide en i Rejected who remark (r, h) = Inr (r', h') \<and> rn_status r' = R_Rejected \<and>
    status_at (rn_states r') j = status_at (rn_states r) j \<and> h_heartbeats h' = h_heartbeats h"
  using assms
  by (auto simp: decide_def decide_approval_def apply_decision_def Let_def ACTIVE_def advance_def set_approval_def)

section \<open>Waking an agent\<close>

text \<open>C33. An agent is woken only while the hub is not paused, its budget and the hub's quotas allow it, no heartbeat of it
  runs and, in full mode, a human or an approved gate stands behind it; so no agent ever has two running heartbeats.\<close>

theorem wakes_are_guarded:
  assumes "launch_heartbeat en name version spec gated h = (Inr (Wake i ''running''), h')"
    and "distinct (map hb_agent (running_heartbeats h))"
  shows "\<not> h_paused h \<and> (\<forall>budget. as_daily_tokens spec = Some budget \<longrightarrow> budget = 0 \<or> h_spent h name < budget) \<and>
    \<not> tokens_refusal (eg_quotas en) (h_spent_all h) \<and> \<not> concurrency_refusal (eg_quotas en) (length (running_heartbeats h)) \<and>
    (as_mode spec = Full \<longrightarrow> gated \<or> human_principal (eg_caller en)) \<and>
    distinct (map hb_agent (running_heartbeats h')) \<and> name \<in> set (map hb_agent (running_heartbeats h'))"
proof -
  define row where "row = \<lparr>hb_id = i, hb_agent = name, hb_version = version, hb_status = ''running'', hb_cancel = False,
    hb_spec = spec, hb_gated = gated\<rparr>"
  have g: "\<not> h_paused h" "\<not> (case as_daily_tokens spec of None \<Rightarrow> False | Some budget \<Rightarrow> budget \<noteq> 0 \<and> budget \<le> h_spent h name)"
    "running_heartbeat h name = None" "\<not> tokens_refusal (eg_quotas en) (h_spent_all h)"
    "\<not> concurrency_refusal (eg_quotas en) (length (running_heartbeats h))"
    "as_mode spec = Full \<longrightarrow> gated \<or> human_principal (eg_caller en)"
    "h' = add_heartbeat row (h\<lparr>h_ids := h_ids h + 1\<rparr>)"
    using assms(1)
    by (cases "as_daily_tokens spec"; auto simp: launch_heartbeat_def Let_def row_def running_heartbeat_def running_heartbeats_def split: if_splits)+
  have r: "running_heartbeats h' = running_heartbeats h @ [row]"
    using g(7) by (simp add: running_heartbeats_def add_heartbeat_def row_def)
  have "name \<notin> set (map hb_agent (running_heartbeats h))"
    using g(3) by (auto simp: running_heartbeat_def find_None_iff)
  then show ?thesis using g assms(2) r by (auto simp: row_def split: option.splits)
qed

section \<open>Applications\<close>

definition demo_engine :: "nat engine" where
  "demo_engine =
     \<lparr>eg_workflow = demo_workflow, eg_caller = \<lparr>pr_dev = False, pr_service = False, pr_roles = [''admin'']\<rparr>,
      eg_quotas = \<lparr>q_daily_tokens = 0, q_max_concurrent = 2\<rparr>, eg_parse = (\<lambda>s. None), eg_float = (\<lambda>q. []), eg_sha = id,
      eg_dumps = (\<lambda>v. []), eg_backend = counting_backend, eg_sink = (\<lambda>c. None), eg_llm = (\<lambda>a. True), eg_json = (\<lambda>t. PNone),
      eg_uuid = (\<lambda>n. replicate n (CHR ''i''))\<rparr>"

definition demo_hub :: "nat hub" where
  "demo_hub =
     \<lparr>h_store = 0, h_agents = demo_resolve, h_paused = False, h_spent = (\<lambda>a. 0), h_spent_all = 0, h_heartbeats = [],
      h_approvals = [], h_plans = [], h_ids = 0\<rparr>"

definition demo_started :: "run_row \<times> nat hub" where
  "demo_started =
     (\<lparr>rn_status = R_Running, rn_cancel = False,
       rn_states = [(''look'', \<lparr>ns_status = N_Running, ns_approval = None, ns_heartbeat = Some []\<rparr>),
         (''ok'', pending_state), (''fix'', pending_state)], rn_results = [], rn_inputs = []\<rparr>,
      demo_hub\<lparr>h_ids := 1, h_heartbeats := [\<lparr>hb_id = [], hb_agent = ''triage'', hb_version = 1, hb_status = ''running'',
        hb_cancel = False, hb_spec = task_spec (demo_task ''look'' ''triage'') demo_agent, hb_gated = False\<rparr>]\<rparr>)"

lemma demo_edges:
  "edges_into demo_workflow ''look'' = []"
  "edges_into demo_workflow ''ok'' = [\<lparr>we_from = ''look'', we_to = ''ok'', we_when = None\<rparr>]"
  "edges_into demo_workflow ''fix'' = [\<lparr>we_from = ''ok'', we_to = ''fix'', we_when = Some ''approved''\<rparr>]"
  by (simp_all add: edges_into_def demo_workflow_def END_def)

lemma demo_new: "rn_states (new_run demo_workflow []) = [(''look'', pending_state), (''ok'', pending_state), (''fix'', pending_state)]"
  by (simp add: new_run_def demo_nodes demo_task_def fixer_def)

lemma demo_selects [simp]:
  "eg_workflow demo_engine = demo_workflow" "eg_llm demo_engine a" "eg_uuid demo_engine 0 = []"
  "q_daily_tokens (eg_quotas demo_engine) = 0" "q_max_concurrent (eg_quotas demo_engine) = 2"
  by (simp_all add: demo_engine_def)

lemma demo_spec: "as_mode (task_spec (demo_task ''look'' ''triage'') demo_agent) = Plan"
  "as_daily_tokens (task_spec (demo_task ''look'' ''triage'') demo_agent) = Some 5000"
  by (simp_all add: task_spec_def demo_task_def demo_agent_def Let_def nonempty_text_def)

lemma demo_wake:
  "launch_heartbeat demo_engine ''triage'' (Suc 0) (task_spec (demo_task ''look'' ''triage'') demo_agent) False demo_hub =
     (Inr (Wake [] ''running''), snd demo_started)"
  by (simp add: launch_heartbeat_def demo_hub_def Let_def demo_spec running_heartbeat_def running_heartbeats_def tokens_refusal_def
      concurrency_refusal_def add_heartbeat_def demo_started_def)

lemma demo_row: "fst demo_started =
    put_state ''look'' (pending_state\<lparr>ns_heartbeat := Some [], ns_status := N_Running\<rparr>) (new_run demo_workflow [])"
  by (simp add: demo_started_def put_state_def pending_state_def new_run_def demo_nodes demo_task_def fixer_def)

lemma demo_launch:
  "launch_task demo_engine (demo_task ''look'' ''triage'') (new_run demo_workflow []) demo_hub = demo_started"
proof -
  have a: "nd_agent (demo_task ''look'' ''triage'') = Some ''triage''" "nd_id (demo_task ''look'' ''triage'') = ''look''"
    by (simp_all add: demo_task_def)
  have r: "h_agents demo_hub ''triage'' = Some (''triage'', Suc 0, demo_agent)" by (simp add: demo_hub_def demo_resolve_def)
  have s: "state_at (rn_states (new_run demo_workflow [])) ''look'' = pending_state" by (simp add: demo_new state_at_def)
  have "launch_task demo_engine (demo_task ''look'' ''triage'') (new_run demo_workflow []) demo_hub =
      (fst demo_started, snd demo_started)"
    unfolding demo_row by (simp add: launch_task_def a r s Let_def demo_spec demo_wake)
  then show ?thesis by simp
qed

lemma demo_ids:
  "nd_id (demo_task ''look'' ''triage'') = ''look''" "nd_type (demo_task ''look'' ''triage'') = Agent_Task"
  "nd_id fixer = ''fix''" "nd_id ((demo_task ''ok'' [])\<lparr>nd_type := Approval, nd_agent := None, nd_roles := [''admin'']\<rparr>) = ''ok''"
  by (simp_all add: demo_task_def fixer_def)

lemma demo_states: "rn_states (fst demo_started) =
    [(''look'', \<lparr>ns_status = N_Running, ns_approval = None, ns_heartbeat = Some []\<rparr>), (''ok'', pending_state), (''fix'', pending_state)]"
  by (simp add: demo_started_def)

lemma demo_default: "i \<in> {''look'', ''ok'', ''fix''} \<Longrightarrow> with_default i (fst demo_started) = fst demo_started"
  by (auto simp: with_default_def demo_started_def put_state_def state_at_def)

lemma demo_still:
  assumes "n \<in> set (wf_nodes demo_workflow)"
  shows "try_node demo_engine n demo_started = (demo_started, False)"
proof -
  have d: "nd_id n \<in> {''look'', ''ok'', ''fix''}" using assms by (auto simp: demo_nodes demo_ids)
  have s: "status_at (rn_states (fst demo_started)) ''look'' = N_Running"
    "status_at (rn_states (fst demo_started)) ''ok'' = N_Pending"
    by (simp_all add: demo_states status_at_def state_at_def pending_state_def)
  have "status_at (rn_states (fst demo_started)) (nd_id n) \<noteq> N_Pending \<or>
      list_ex (unresolved (fst demo_started)) (edges_into demo_workflow (nd_id n))"
    using d by (auto simp: demo_edges unresolved_def s)
  then show ?thesis
    using demo_default [OF d] by (simp add: try_node_def Let_def split_beta)
qed

lemma demo_start: "start_run demo_engine [] demo_hub = demo_started"
proof -
  have l: "with_default ''look'' (new_run demo_workflow []) = new_run demo_workflow []"
    by (simp add: with_default_def put_state_def demo_new state_at_def)
  have "status_at (rn_states (new_run demo_workflow [])) ''look'' = N_Pending"
    by (simp add: demo_new status_at_def state_at_def pending_state_def)
  then have look: "try_node demo_engine (demo_task ''look'' ''triage'') (new_run demo_workflow [], demo_hub) = (demo_started, True)"
    by (simp add: try_node_def Let_def demo_ids l demo_edges start_node_def demo_launch)
  have rest: "try_node demo_engine (demo_task ''look'' ''triage'') demo_started = (demo_started, False)"
    "try_node demo_engine ((demo_task ''ok'' [])\<lparr>nd_type := Approval, nd_agent := None, nd_roles := [''admin'']\<rparr>) demo_started =
      (demo_started, False)"
    "try_node demo_engine fixer demo_started = (demo_started, False)"
    by (rule demo_still, simp add: demo_nodes)+
  have "pass_over demo_engine (wf_nodes demo_workflow) (new_run demo_workflow [], demo_hub) = (demo_started, True)"
    "pass_over demo_engine (wf_nodes demo_workflow) demo_started = (demo_started, False)"
    unfolding demo_nodes by (simp_all add: look rest)
  then have loop: "advance_loop demo_engine (new_run demo_workflow [], demo_hub) = demo_started"
    by (subst advance_loop.simps, subst advance_loop.simps) simp
  have "run_status_of (rn_states (fst demo_started)) = R_Running"
    by (simp add: demo_states run_status_of_def pending_state_def)
  moreover have "rn_status (new_run demo_workflow []) = R_Running" "\<not> rn_cancel (new_run demo_workflow [])"
    by (simp_all add: new_run_def)
  moreover have "(fst demo_started)\<lparr>rn_status := R_Running\<rparr> = fst demo_started" by (simp add: demo_started_def)
  ultimately show ?thesis
    by (simp add: start_run_def advance_def ACTIVE_def Let_def loop split_beta)
qed

lemma demo_steps: "(engine_step may demo_engine)\<^sup>*\<^sup>* (start_run demo_engine [] demo_hub) (fst demo_started, snd demo_started)"
  by (simp add: demo_start)

lemma demo_real: "\<forall>n \<in> set (wf_nodes (eg_workflow demo_engine)). \<not> mock_env (nd_environment n)"
  by (auto simp: demo_nodes demo_task_def fixer_def mock_env_def MOCK_ENVIRONMENTS_def)

lemma demo_hub_rows: "h_approvals demo_hub = []" "h_approvals (snd demo_started) = []" "h_store demo_hub = 0"
  "full_wakes demo_hub = []" "running_heartbeats demo_hub = []" "rn_status (fst demo_started) = R_Running"
  by (simp_all add: demo_started_def demo_hub_def full_wakes_def running_heartbeats_def)

lemma demo_valid: "validate_workflow_spec (\<lambda>t. None) demo_resolve (eg_workflow demo_engine) = Inr []"
  by (simp add: demo_workflow_valid)

theorem nothing_written_before_approval_witness:
  "h_store (snd demo_started) = 0 \<and> full_wakes (snd demo_started) = []"
  using nothing_written_before_approval [OF demo_valid demo_real demo_hub_rows(1) demo_steps]
  by (simp add: demo_hub_rows)


theorem wakes_are_guarded_witness:
  "\<not> h_paused demo_hub \<and> running_heartbeats (snd demo_started) \<noteq> [] \<and>
   distinct (map hb_agent (running_heartbeats (snd demo_started)))"
  using wakes_are_guarded [OF demo_wake] by (auto simp: demo_hub_rows)

theorem ended_runs_stay_witness:
  "fst (reconcile_run demo_engine ((fst demo_started)\<lparr>rn_status := R_Done\<rparr>, demo_hub)) = (fst demo_started)\<lparr>rn_status := R_Done\<rparr>"
proof -
  define x where "x = ((fst demo_started)\<lparr>rn_status := R_Done\<rparr>, demo_hub)"
  have "(engine_step (\<lambda>h h'. True) demo_engine)\<^sup>*\<^sup>* x (reconcile_run demo_engine x)"
    by (intro r_into_rtranclp engine_step.by_engine engine_op.restarted)
  from ended_runs_stay [OF this] show ?thesis by (simp add: x_def ACTIVE_def)
qed

end
