(* ===== verification/Hsm.thy ===== *)
theory Hsm
  imports Dukpt
begin

text \<open>
  The simulator of a payShield hardware security module: its master key and key tokens (\<open>worker/adapters/hsm/lmk.py\<close>),
  its host commands (\<open>commands.py\<close>) and the text of its replies (\<open>payshield.py\<close>). Cryptography is that of
  \<open>Pin_Crypto\<close> and \<open>Dukpt\<close>; what is drawn at random (bytes of a key, fill of a PIN block) is an argument. Texts are
  those of a decoded frame. An exception of a handler is caught by \<open>dispatch\<close>, so its class does not matter.
\<close>

section \<open>Master key and key tokens\<close>

definition DEFAULT_LMK :: ustr where
  "DEFAULT_LMK = u ''0123456789ABCDEFFEDCBA9876543210''"

text \<open>Characters of a scheme tag, and the bytes of its clear key.\<close>

definition SCHEME_BYTES :: "(nat \<times> nat) list" where
  "SCHEME_BYTES = map (\<lambda>(c, n). (of_char c, n))
     [(CHR ''Z'', 8), (CHR ''U'', 16), (CHR ''X'', 16), (CHR ''T'', 24), (CHR ''Y'', 24), (CHR ''R'', 16), (CHR ''W'', 32)]"

definition AES_SCHEMES :: ustr where
  "AES_SCHEMES = u ''RW''"

definition BYTES_SCHEME :: "(nat \<times> nat) list" where
  "BYTES_SCHEME = map (\<lambda>(n, c). (n, of_char c)) [(8, CHR ''Z''), (16, CHR ''U''), (24, CHR ''T''), (32, CHR ''W'')]"

definition KEYTYPE_VARIANT :: "(ustr \<times> nat) list" where
  "KEYTYPE_VARIANT = map (\<lambda>(c, v). (u c, v))
     [(''000'', 0), (''001'', 0), (''002'', 0), (''402'', 4), (''008'', 0), (''109'', 1), (''302'', 0)]"

definition variant_for_keytype :: "ustr \<Rightarrow> nat" where
  "variant_for_keytype code = or_default 0 (map_of KEYTYPE_VARIANT (take 3 (strip code)))"

definition odd_parity :: "byte \<Rightarrow> byte" where
  "odd_parity b =
     (let b = b AND 254 in if even (length (filter (bit b) [0..<8])) then b OR 1 else b)"

definition set_odd_parity :: "byte list \<Rightarrow> byte list" where
  "set_odd_parity = map odd_parity"

record lmk =
  lmk_hex :: ustr
  lmk_variants :: bool

definition TestLmk :: "ustr option \<Rightarrow> bool \<Rightarrow> lmk" where
  "TestLmk h v =
     \<lparr>lmk_hex = py_upper (case h of None \<Rightarrow> DEFAULT_LMK | Some h \<Rightarrow> if h = [] then DEFAULT_LMK else h), lmk_variants = v\<rparr>"

definition variant_lmk :: "lmk \<Rightarrow> nat \<Rightarrow> ustr result" where
  "variant_lmk l v =
     (if \<not> lmk_variants l \<or> v = 0 then Inr (lmk_hex l)
      else rbind (of_option ValueError (fromhex (lmk_hex l))) (\<lambda>k.
             (let mask = byte_of v # zeros 7 in
              Inr (hex_upper (xor_bytes (take 8 k) mask @ xor_bytes (take 8 (drop 8 k)) mask @ drop 16 k)))))"

text \<open>A token: the tag of its scheme and the key enciphered.\<close>

definition wrap_key :: "crypto_lib \<Rightarrow> lmk \<Rightarrow> ustr \<Rightarrow> nat option \<Rightarrow> nat \<Rightarrow> ustr result" where
  "wrap_key cl l clear_hex scheme v =
     (let clear_hex = py_upper clear_hex;
          scheme = (case scheme of Some s \<Rightarrow> s | None \<Rightarrow> or_default 85 (map_of BYTES_SCHEME (length clear_hex div 2))) in
      rbind (variant_lmk l v) (\<lambda>k. rbind (des_tool cl k clear_hex ''encrypt'' ''ecb'' []) (\<lambda>c. Inr (scheme # c))))"

definition untagged :: "ustr \<Rightarrow> ustr" where
  "untagged t = (case t of [] \<Rightarrow> [] | c # cs \<Rightarrow> if c \<in> fst ` set SCHEME_BYTES then cs else t)"

definition unwrap_key :: "crypto_lib \<Rightarrow> lmk \<Rightarrow> ustr \<Rightarrow> nat \<Rightarrow> ustr result" where
  "unwrap_key cl l token v =
     rbind (variant_lmk l v) (\<lambda>k. des_tool cl k (untagged (strip token)) ''decrypt'' ''ecb'' [])"

definition kcv6 :: "crypto_lib \<Rightarrow> ustr \<Rightarrow> ustr result" where
  "kcv6 cl clear_hex = rbind (kcv cl clear_hex) (\<lambda>(short, full). Inr short)"

text \<open>A fresh key: the clear key, its token and its check value. \<open>raw\<close> are the bytes drawn.\<close>

definition generate_key :: "crypto_lib \<Rightarrow> byte list \<Rightarrow> lmk \<Rightarrow> nat \<Rightarrow> nat \<Rightarrow> (ustr \<times> ustr \<times> ustr) result" where
  "generate_key cl raw l scheme v =
     (let raw = take (or_default 16 (map_of SCHEME_BYTES scheme)) raw;
          clear = hex_upper (if scheme \<in> set AES_SCHEMES then raw else set_odd_parity raw) in
      rbind (wrap_key cl l clear (Some scheme) v) (\<lambda>t. rbind (kcv6 cl clear) (\<lambda>k. Inr (clear, t, k))))"

definition check_value :: "crypto_lib \<Rightarrow> lmk \<Rightarrow> ustr result" where
  "check_value cl l = rbind (kcv cl (lmk_hex l)) (\<lambda>(short, full). Inr (ljust 16 (take 16 full)))"

text \<open>The width of a key field by its first character.\<close>

definition key_width :: "ustr \<Rightarrow> nat" where
  "key_width s =
     (case s of
        [] \<Rightarrow> 32
      | c # cs \<Rightarrow>
          if c \<in> set (u ''UXR'') then 33 else if c \<in> set (u ''TY'') then 49 else if c = 87 then 65
          else if c = 90 then 17 else if c = 83 then 49 else 32)"

definition read_key_field :: "ustr \<Rightarrow> ustr \<times> ustr" where
  "read_key_field s = (take (key_width s) s, drop (key_width s) s)"

section \<open>Helpers of the commands\<close>

definition ERR_OK :: ustr where "ERR_OK = u ''00''"
definition ERR_VERIFY_FAIL :: ustr where "ERR_VERIFY_FAIL = u ''01''"
definition ERR_INVALID_DATA :: ustr where "ERR_INVALID_DATA = u ''15''"
definition ERR_NO_COMMAND :: ustr where "ERR_NO_COMMAND = u ''30''"
definition ERR_DISABLED :: ustr where "ERR_DISABLED = u ''68''"

type_synonym reply = "ustr \<times> ustr"

definition PIN_FORMAT_CODES :: "(ustr \<times> string) list" where
  "PIN_FORMAT_CODES = [(u ''01'', ''0''), (u ''05'', ''1''), (u ''47'', ''3''), (u ''48'', ''4'')]"

definition pin_fmt :: "ustr \<Rightarrow> string" where
  "pin_fmt code = or_default ''0'' (map_of PIN_FORMAT_CODES (strip code))"

text \<open>Source format, destination format, PIN block and account of the end of a translate command.\<close>

definition split_translate_tail :: "ustr \<Rightarrow> ustr \<times> ustr \<times> ustr \<times> ustr" where
  "split_translate_tail s =
     (py_slice (- 16) (- 14) s, py_slice (- 14) (- 12) s, slice_to (- 16) s, last_n 12 s)"

definition trim_trailer :: "ustr \<Rightarrow> ustr" where
  "trim_trailer s =
     (let s = takeWhile (\<lambda>c. c \<noteq> 25) s in
      if 37 \<in> set s then rev (drop 1 (dropWhile (\<lambda>c. c \<noteq> 37) (rev s))) else s)"

text \<open>Account, expiry and service code, after \<open>#\<close> in one field of 32 or with a semicolon.\<close>

definition read_cvv_data :: "ustr \<Rightarrow> ustr \<times> ustr \<times> ustr" where
  "read_cvv_data rest =
     (let rest = trim_trailer rest in
      if take 1 rest = u ''#''
      then (let block = take 32 (drop 1 rest) in (slice_to (- 7) block, py_slice (- 7) (- 3) block, last_n 3 block))
      else (let tail = drop 1 (dropWhile (\<lambda>c. c \<noteq> 59) rest) in
            (takeWhile (\<lambda>c. c \<noteq> 59) rest, take 4 tail, take 3 (drop 4 tail))))"

text \<open>PIN blocks of any format: the PIN of one, and the block of a PIN.\<close>

definition pin_of_block :: "crypto_lib \<Rightarrow> ustr \<Rightarrow> ustr \<Rightarrow> ustr \<Rightarrow> string \<Rightarrow> ustr result" where
  "pin_of_block cl block pan key fmt =
     rbind (if fmt = ''4'' then pin_block_iso4_decode cl block pan key else pin_block_decode cl block pan key fmt)
       (\<lambda>(pin, clear). Inr pin)"

definition block_of_pin :: "crypto_lib \<Rightarrow> ustr \<Rightarrow> ustr \<Rightarrow> ustr \<Rightarrow> ustr \<Rightarrow> string \<Rightarrow> ustr result" where
  "block_of_pin cl fill pin pan key fmt =
     (if fmt = ''4'' then pin_block_iso4_encode cl fill pin pan key
      else rbind (pin_block_encode cl fill pin pan key fmt) (\<lambda>(clear, block). Inr block))"

definition is_hex :: "ustr \<Rightarrow> bool" where
  "is_hex s \<longleftrightarrow> s \<noteq> [] \<and> list_all (\<lambda>c. c \<in> set (u ''0123456789ABCDEFabcdef'')) s"

definition message_hex :: "ustr \<Rightarrow> ustr result" where
  "message_hex s = (if is_hex s then Inr s else rbind (ascii_encode s) (\<lambda>b. Inr (hex_upper b)))"

text \<open>\<open>int(s, 16)\<close> of at most two characters.\<close>

definition hex_digits :: "ustr \<Rightarrow> nat option" where
  "hex_digits s =
     (case s of
        [a] \<Rightarrow> hexval a
      | [a, b] \<Rightarrow> (case (hexval a, hexval b) of (Some m, Some n) \<Rightarrow> Some (16 * m + n) | _ \<Rightarrow> None)
      | _ \<Rightarrow> None)"

definition int16 :: "ustr \<Rightarrow> int result" where
  "int16 s =
     of_option ValueError
       (case strip s of
          [] \<Rightarrow> None
        | c # cs \<Rightarrow>
            if c = 43 then map_option int (hex_digits cs)
            else if c = 45 then map_option (\<lambda>n. - int n) (hex_digits cs)
            else map_option int (hex_digits (c # cs)))"

section \<open>The host commands\<close>

text \<open>What a command works with: the library, the characters and bytes drawn at random, and the simulator's state.\<close>

record hsm =
  hs_lib :: crypto_lib
  hs_fill :: ustr
  hs_raw :: "byte list"
  hs_lmk :: lmk
  hs_firmware :: ustr
  hs_overrides :: "(ustr \<times> ustr option \<times> ustr option) list"
  hs_disabled :: "ustr list"
  hs_pci :: bool

definition unwrap :: "hsm \<Rightarrow> ustr \<Rightarrow> nat \<Rightarrow> ustr result" where
  "unwrap h t v = unwrap_key (hs_lib h) (hs_lmk h) t v"

definition cmd_NC :: "hsm \<Rightarrow> ustr \<Rightarrow> reply result" where
  "cmd_NC h data = rbind (check_value (hs_lib h) (hs_lmk h)) (\<lambda>c. Inr (ERR_OK, c @ hs_firmware h))"

definition cmd_A0 :: "hsm \<Rightarrow> ustr \<Rightarrow> reply result" where
  "cmd_A0 h data =
     (let data = trim_trailer data; keytype = take 3 (drop 1 data);
          scheme = (case drop 4 data of [] \<Rightarrow> 85 | c # cs \<Rightarrow> if c \<in> set (u ''UTXYZRW'') then c else 85);
          v = variant_for_keytype keytype; tail = drop 5 data in
      rbind (generate_key (hs_lib h) (hs_raw h) (hs_lmk h) scheme v) (\<lambda>(clear, token, check).
      rbind (if take 2 tail = u '';1''
             then (let (zmk_token, after) = read_key_field (drop 2 tail);
                       export = (case after of [] \<Rightarrow> 88 | c # cs \<Rightarrow> if c \<in> set (u ''UTX'') then c else 88) in
                   rbind (unwrap h token v) (\<lambda>clear. rbind (unwrap h zmk_token 0) (\<lambda>zmk.
                   rbind (des_tool (hs_lib h) zmk clear ''encrypt'' ''ecb'' []) (\<lambda>c. Inr (export # c)))))
             else Inr [])
        (\<lambda>exported. Inr (ERR_OK, token @ exported @ check))))"

text \<open>The key type with its middle digit again.\<close>

definition bu_keytype3 :: "ustr \<Rightarrow> ustr" where
  "bu_keytype3 code2 = (case strip code2 of [a, b] \<Rightarrow> [a, 48, b] | s \<Rightarrow> s)"

definition cmd_BU :: "hsm \<Rightarrow> ustr \<Rightarrow> reply result" where
  "cmd_BU h data =
     (let body = trim_trailer data; (token, rest) = read_key_field (drop 3 body) in
      rbind (unwrap h token (variant_for_keytype (bu_keytype3 (take 2 body)))) (\<lambda>clear.
      rbind (kcv6 (hs_lib h) clear) (\<lambda>k. Inr (ERR_OK, k))))"

definition CVK_VARIANT :: nat where
  "CVK_VARIANT = variant_for_keytype (u ''402'')"

definition cmd_CW :: "hsm \<Rightarrow> ustr \<Rightarrow> reply result" where
  "cmd_CW h data =
     (let (token, rest) = read_key_field (trim_trailer data); (pan, expiry, sc) = read_cvv_data rest in
      rbind (unwrap h token CVK_VARIANT) (\<lambda>cvk. rbind (cvv (hs_lib h) pan expiry sc cvk) (\<lambda>c. Inr (ERR_OK, c))))"

definition verdict :: "bool \<Rightarrow> reply" where
  "verdict ok = (if ok then ERR_OK else ERR_VERIFY_FAIL, [])"

definition cmd_CY :: "hsm \<Rightarrow> ustr \<Rightarrow> reply result" where
  "cmd_CY h data =
     (let (token, rest) = read_key_field (trim_trailer data); (pan, expiry, sc) = read_cvv_data (drop 3 rest) in
      rbind (unwrap h token CVK_VARIANT) (\<lambda>cvk. rbind (cvv (hs_lib h) pan expiry sc cvk) (\<lambda>c.
        Inr (verdict (take 3 rest = c)))))"

text \<open>A PIN block moved from one key and format to another: the length of the PIN and the new block.\<close>

definition translate_block :: "hsm \<Rightarrow> ustr \<Rightarrow> ustr \<Rightarrow> ustr \<Rightarrow> bool \<Rightarrow> reply result" where
  "translate_block h src dst tail with_format =
     (let (src_fmt, dst_fmt, block, pan) = split_translate_tail tail in
      rbind (pin_of_block (hs_lib h) block pan src (pin_fmt src_fmt)) (\<lambda>pin.
        if pin = [] then Inr (ERR_INVALID_DATA, [])
        else rbind (block_of_pin (hs_lib h) (hs_fill h) pin pan dst (pin_fmt dst_fmt)) (\<lambda>out.
               Inr (ERR_OK, zfill 2 (dec (length pin)) @ out @ (if with_format then dst_fmt else [])))))"

definition cmd_CA :: "hsm \<Rightarrow> ustr \<Rightarrow> reply result" where
  "cmd_CA h data =
     (let (tpk_t, body) = read_key_field (trim_trailer data); (zpk_t, body) = read_key_field body in
      rbind (unwrap h tpk_t 0) (\<lambda>tpk. rbind (unwrap h zpk_t 0) (\<lambda>zpk. translate_block h tpk zpk (drop 2 body) False)))"


text \<open>The fields of the commands on PINs: the PIN block with its format and account, and what follows.\<close>

definition pin_fields :: "ustr \<Rightarrow> ustr \<times> ustr \<times> ustr \<times> ustr" where
  "pin_fields body = (take 16 body, take 2 (drop 16 body), take 12 (drop 18 body), drop 30 body)"

text \<open>The PIN of such a block, after both keys are unwrapped; no PIN is refused.\<close>

definition with_pin :: "hsm \<Rightarrow> ustr \<Rightarrow> nat \<Rightarrow> (ustr \<Rightarrow> ustr \<Rightarrow> ustr \<Rightarrow> ustr \<Rightarrow> reply result) \<Rightarrow> reply result" where
  "with_pin h data v use =
     (let (pin_t, body) = read_key_field (trim_trailer data); (pvk_t, body) = read_key_field body;
          (block, fmt, pan, rest) = pin_fields body in
      rbind (unwrap h pin_t v) (\<lambda>pin_key. rbind (unwrap h pvk_t 0) (\<lambda>pvk.
      rbind (pin_of_block (hs_lib h) block pan pin_key (pin_fmt fmt)) (\<lambda>pin.
        if pin = [] then Inr (ERR_INVALID_DATA, []) else use pin pan pvk rest))))"

definition cmd_EC :: "hsm \<Rightarrow> ustr \<Rightarrow> reply result" where
  "cmd_EC h data = with_pin h data 0 (\<lambda>pin pan pvk rest.
     rbind (pvv (hs_lib h) pan pin (take 1 rest) pvk) (\<lambda>v. Inr (verdict (take 4 (drop 1 rest) = v))))"

definition cmd_JA :: "hsm \<Rightarrow> ustr \<Rightarrow> reply result" where
  "cmd_JA h data = with_pin h data 0 (\<lambda>pin pan pvk rest.
     rbind (pvv (hs_lib h) pan pin (take 1 rest) pvk) (\<lambda>v. Inr (ERR_OK, v)))"

definition ibm_pin_verify_layout :: "hsm \<Rightarrow> ustr \<Rightarrow> nat \<Rightarrow> reply result" where
  "ibm_pin_verify_layout h data v = with_pin h data v (\<lambda>pin pan pvk rest.
     rbind (ibm3624_verify (hs_lib h) (take 16 (drop 16 rest)) pvk (drop 32 rest) pin (take 16 rest)) (\<lambda>(derived, ok).
       Inr (verdict ok)))"

definition cmd_BA :: "hsm \<Rightarrow> ustr \<Rightarrow> reply result" where
  "cmd_BA h data = ibm_pin_verify_layout h data (variant_for_keytype (u ''002''))"

definition cmd_BE :: "hsm \<Rightarrow> ustr \<Rightarrow> reply result" where
  "cmd_BE h data = ibm_pin_verify_layout h data (variant_for_keytype (u ''001''))"

definition cmd_DE :: "hsm \<Rightarrow> ustr \<Rightarrow> reply result" where
  "cmd_DE h data = with_pin h data 0 (\<lambda>pin pan pvk rest.
     rbind (ibm3624_offset (hs_lib h) (take 16 (drop 16 rest)) pvk pin (take 16 rest)) (\<lambda>(off, natural). Inr (ERR_OK, off)))"

definition cmd_M6 :: "hsm \<Rightarrow> ustr \<Rightarrow> reply result" where
  "cmd_M6 h data =
     (let (token, rest) = read_key_field (trim_trailer data) in
      rbind (unwrap h token 0) (\<lambda>key. rbind (message_hex rest) (\<lambda>m. rbind (retail_mac (hs_lib h) key m) (\<lambda>mac.
        Inr (ERR_OK, mac)))))"

definition cmd_M8 :: "hsm \<Rightarrow> ustr \<Rightarrow> reply result" where
  "cmd_M8 h data =
     (let (token, rest) = read_key_field (trim_trailer data) in
      rbind (unwrap h token 0) (\<lambda>key. rbind (message_hex (slice_to (- 16) rest)) (\<lambda>m.
      rbind (retail_mac (hs_lib h) key m) (\<lambda>mac. Inr (verdict (py_upper (last_n 16 rest) = mac))))))"

definition cmd_CC :: "hsm \<Rightarrow> ustr \<Rightarrow> reply result" where
  "cmd_CC h data =
     (let (src_t, body) = read_key_field (trim_trailer data); (dst_t, body) = read_key_field body in
      rbind (unwrap h src_t 0) (\<lambda>src. rbind (unwrap h dst_t 0) (\<lambda>dst. translate_block h src dst (drop 2 body) True)))"

text \<open>A scheme letter of the list, or the default.\<close>

definition scheme_or :: "nat \<Rightarrow> ustr \<Rightarrow> nat" where
  "scheme_or d s = (case s of [] \<Rightarrow> d | c # cs \<Rightarrow> if c \<in> set (u ''UXTYZ'') then c else d)"

definition cmd_A6 :: "hsm \<Rightarrow> ustr \<Rightarrow> reply result" where
  "cmd_A6 h data =
     (let body = trim_trailer data; (zmk_t, rest) = read_key_field (drop 3 body); (enc, rest) = read_key_field rest;
          enc = (case enc of c # cs \<Rightarrow> if c \<in> set (u ''UXTYZ'') then cs else enc | [] \<Rightarrow> []) in
      rbind (unwrap h zmk_t (variant_for_keytype (u ''000''))) (\<lambda>zmk.
      rbind (des_tool (hs_lib h) zmk enc ''decrypt'' ''ecb'' []) (\<lambda>clear.
      rbind (wrap_key (hs_lib h) (hs_lmk h) clear (Some (scheme_or 85 rest)) (variant_for_keytype (take 3 body))) (\<lambda>token.
      rbind (kcv6 (hs_lib h) clear) (\<lambda>k. Inr (ERR_OK, token @ k))))))"

definition cmd_K8 :: "hsm \<Rightarrow> ustr \<Rightarrow> reply result" where
  "cmd_K8 h data =
     (let body = trim_trailer data; (key_t, rest) = read_key_field (drop 3 body); (kek_t, rest) = read_key_field rest in
      rbind (unwrap h key_t (variant_for_keytype (take 3 body))) (\<lambda>clear.
      rbind (unwrap h kek_t (variant_for_keytype (u ''000''))) (\<lambda>kek.
      rbind (des_tool (hs_lib h) kek clear ''encrypt'' ''ecb'' []) (\<lambda>enc.
      rbind (kcv6 (hs_lib h) clear) (\<lambda>k. Inr (ERR_OK, scheme_or 88 rest # enc @ k))))))"

definition cmd_G0 :: "hsm \<Rightarrow> ustr \<Rightarrow> reply result" where
  "cmd_G0 h data =
     (let (bdk_t, body) = read_key_field (trim_trailer data); (zpk_t, body) = read_key_field body in
      rbind (unwrap h bdk_t (variant_for_keytype (u ''302''))) (\<lambda>bdk. rbind (unwrap h zpk_t 0) (\<lambda>zpk.
      rbind (dukpt_derive_key (hs_lib h) bdk (take 20 body) ''pin'' []) (\<lambda>k.
        translate_block h (dk_key k) zpk (drop 20 body) False))))"

definition MKAC_VARIANT :: nat where
  "MKAC_VARIANT = variant_for_keytype (u ''109'')"

text \<open>The fields after the key of a cryptogram command: account, sequence number, counter, length, and from the
  transaction data on.\<close>

definition cmd_KQ :: "hsm \<Rightarrow> ustr \<Rightarrow> reply result" where
  "cmd_KQ h data =
     (let body = trim_trailer data; mode = take 1 body; (mkac_t, body) = read_key_field (drop 2 body);
          pan = take 16 body; psn = take 2 (drop 16 body); atc = take 4 (drop 18 body); body = drop 22 body in
      rbind (int16 (take 2 body)) (\<lambda>n.
        (let body = drop 2 body; txn = slice_to (2 * n) body; rest = drop (length txn) body;
             rest = (if take 1 rest = u '';'' then drop 1 rest else rest);
             supplied = take 16 rest; arc = take 4 (drop 16 rest); cl = hs_lib h in
         rbind (unwrap h mkac_t MKAC_VARIANT) (\<lambda>mkac. rbind (emv_icc_mk cl mkac pan psn) (\<lambda>udk.
         rbind (emv_session_key cl udk atc) (\<lambda>sk. rbind (arqc cl sk txn supplied) (\<lambda>(aq, found).
           (case found of
              Some (want, True) \<Rightarrow>
                if mode = u ''1'' \<or> mode = u ''2''
                then rbind (arpc cl sk aq arc [] [] ''1'' []) (\<lambda>(v, m). Inr (ERR_OK, v))
                else Inr (ERR_OK, [])
            | _ \<Rightarrow> Inr (ERR_VERIFY_FAIL, [])))))))))"

definition cmd_NO :: "hsm \<Rightarrow> ustr \<Rightarrow> reply result" where
  "cmd_NO h data =
     (if take 2 data = u ''01'' then Inr (ERR_OK, (if hs_pci h then u ''1'' else u ''0'') @ replicate 10 48)
      else Inr (ERR_OK, u ''11'' @ u ''0128'' @ hs_firmware h @ u ''0'' @ u ''0000''))"

definition COMMANDS :: "(ustr \<times> (hsm \<Rightarrow> ustr \<Rightarrow> reply result)) list" where
  "COMMANDS = map (\<lambda>(c, f). (u c, f))
     [(''NC'', cmd_NC), (''A0'', cmd_A0), (''BU'', cmd_BU), (''CW'', cmd_CW), (''CY'', cmd_CY), (''CA'', cmd_CA),
      (''EC'', cmd_EC), (''DE'', cmd_DE), (''BA'', cmd_BA), (''BE'', cmd_BE), (''JA'', cmd_JA), (''M6'', cmd_M6),
      (''M8'', cmd_M8), (''CC'', cmd_CC), (''A6'', cmd_A6), (''K8'', cmd_K8), (''G0'', cmd_G0), (''KQ'', cmd_KQ),
      (''NO'', cmd_NO)]"

definition hsm_dispatch :: "hsm \<Rightarrow> ustr \<Rightarrow> ustr \<Rightarrow> reply" where
  "hsm_dispatch h cmd data =
     (case map_of (hs_overrides h) cmd of
        Some (e, d) \<Rightarrow> (or_default ERR_OK e, or_default [] d)
      | None \<Rightarrow>
          if cmd \<in> set (hs_disabled h) then (ERR_DISABLED, [])
          else (case map_of COMMANDS cmd of
                  None \<Rightarrow> (ERR_NO_COMMAND, [])
                | Some f \<Rightarrow> (case f h data of Inr r \<Rightarrow> r | Inl e \<Rightarrow> (ERR_INVALID_DATA, []))))"

text \<open>The second character of a command, incremented.\<close>

definition response_code :: "ustr \<Rightarrow> ustr" where
  "response_code c = (case c of [a, b] \<Rightarrow> [a, b + 1] | _ \<Rightarrow> c)"

text \<open>A frame in, a frame out: header, command and data are told apart by position.\<close>

definition hsm_serve :: "nat \<Rightarrow> hsm \<Rightarrow> ustr \<Rightarrow> ustr" where
  "hsm_serve hb h text =
     (let cmd = take 2 (drop hb text); (e, d) = hsm_dispatch h cmd (drop (hb + 2) text) in
      take hb text @ response_code cmd @ e @ d)"

end
