(* ===== verification/Hsm_Client.thy ===== *)
theory Hsm_Client
  imports Hsm
begin

text \<open>
  The client of a hardware security module (\<open>worker/adapters/hsm/adapter.py\<close>): the command each action builds from its
  parameters, the fields read from a reply, and the connection on which many commands are in flight, told apart by
  a header the module echoes. Parameters are texts.
\<close>

section \<open>Actions\<close>

type_synonym payload = "(string \<times> ustr) list"

text \<open>The first of the names with a value that is not empty.\<close>

fun kv :: "payload \<Rightarrow> string list \<Rightarrow> ustr \<Rightarrow> ustr" where
  "kv p [] d = d"
| "kv p (n # ns) d = (case map_of p n of Some v \<Rightarrow> if v = [] then kv p ns d else v | None \<Rightarrow> kv p ns d)"

type_synonym builder = "payload \<Rightarrow> ustr \<times> ustr"

definition b_nc :: builder where "b_nc p = (u ''NC'', kv p [''lmk_type''] [])"

definition b_no :: builder where "b_no p = (u ''NO'', kv p [''mode''] (u ''00''))"

definition b_generate_key :: builder where
  "b_generate_key p = (u ''A0'', kv p [''mode''] (u ''0'') @ kv p [''key_type''] (u ''002'') @ kv p [''scheme''] (u ''U''))"

definition b_key_check :: builder where
  "b_key_check p = (u ''BU'', kv p [''key_type_code''] (u ''00'') @ kv p [''length_flag''] (u ''1'') @ kv p [''key''] [])"

definition card_fields :: "payload \<Rightarrow> ustr" where
  "card_fields p = kv p [''pan''] [] @ u '';'' @ kv p [''expiry''] [] @ kv p [''service_code''] (u ''000'')"

definition b_generate_cvv :: builder where "b_generate_cvv p = (u ''CW'', kv p [''cvk''] [] @ card_fields p)"

definition b_verify_cvv :: builder where
  "b_verify_cvv p = (u ''CY'', kv p [''cvk''] [] @ kv p [''cvv''] [] @ card_fields p)"

definition translate_fields :: "payload \<Rightarrow> ustr" where
  "translate_fields p =
     kv p [''pin_block''] [] @ kv p [''src_format''] (u ''01'') @ kv p [''dst_format''] (u ''01'') @ kv p [''pan''] []"

definition b_translate_pin_tpk_zpk :: builder where
  "b_translate_pin_tpk_zpk p =
     (u ''CA'', kv p [''src_key'', ''tpk''] [] @ kv p [''dst_key'', ''zpk''] [] @ kv p [''max_pin_len''] (u ''12'') @
        translate_fields p)"

definition b_translate_pin_zpk_zpk :: builder where
  "b_translate_pin_zpk_zpk p =
     (u ''CC'', kv p [''src_key'', ''src_zpk''] [] @ kv p [''dst_key'', ''dst_zpk''] [] @ kv p [''max_pin_len''] (u ''12'') @
        translate_fields p)"

text \<open>The PIN block under a key with the key that verifies it.\<close>

definition block_fields :: "payload \<Rightarrow> string list \<Rightarrow> ustr" where
  "block_fields p names =
     kv p names [] @ kv p [''pvk''] [] @ kv p [''pin_block''] [] @ kv p [''format''] (u ''01'') @ kv p [''pan''] []"

definition b_verify_pin_pvv :: builder where
  "b_verify_pin_pvv p = (u ''EC'', block_fields p [''zpk''] @ kv p [''pvki''] (u ''1'') @ kv p [''pvv''] [])"

definition ibm_fields :: "payload \<Rightarrow> ustr" where
  "ibm_fields p = kv p [''dec_table''] (u ''0123456789012345'') @ kv p [''validation_data''] []"

definition b_generate_pin_offset :: builder where
  "b_generate_pin_offset p = (u ''DE'', block_fields p [''tpk''] @ ibm_fields p)"

definition b_verify_pin_ibm :: builder where
  "b_verify_pin_ibm p = (u ''BA'', block_fields p [''tpk'', ''pin_key''] @ ibm_fields p @ kv p [''offset''] [])"

definition b_verify_pin_ibm_interchange :: builder where
  "b_verify_pin_ibm_interchange p = (u ''BE'', block_fields p [''zpk'', ''pin_key''] @ ibm_fields p @ kv p [''offset''] [])"

definition b_generate_pvv :: builder where
  "b_generate_pvv p = (u ''JA'', block_fields p [''zpk''] @ kv p [''pvki''] (u ''1''))"

definition b_dukpt_translate_pin :: builder where
  "b_dukpt_translate_pin p =
     (u ''G0'', kv p [''bdk''] [] @ kv p [''zpk''] [] @ kv p [''ksn''] [] @ translate_fields p)"

definition b_generate_mac :: builder where
  "b_generate_mac p = (u ''M6'', kv p [''key''] [] @ kv p [''message'', ''data''] [])"

definition b_verify_mac :: builder where
  "b_verify_mac p = (u ''M8'', kv p [''key''] [] @ kv p [''message'', ''data''] [] @ kv p [''mac''] [])"

definition b_import_key :: builder where
  "b_import_key p =
     (u ''A6'', kv p [''key_type''] (u ''001'') @ kv p [''zmk''] [] @ kv p [''key''] [] @ kv p [''scheme''] (u ''U''))"

definition b_export_key :: builder where
  "b_export_key p =
     (u ''K8'', kv p [''key_type''] (u ''001'') @ kv p [''key''] [] @ kv p [''kek''] [] @ kv p [''scheme''] (u ''X''))"

text \<open>\<open>f"{n:02X}"\<close>.\<close>

definition hex2 :: "nat \<Rightarrow> ustr" where
  "hex2 n = zfill 2 (hex_number n)"

definition b_verify_arqc :: builder where
  "b_verify_arqc p =
     (let txn = kv p [''txn_data''] [] in
      (u ''KQ'', kv p [''mode''] (u ''0'') @ kv p [''scheme''] (u ''0'') @ kv p [''mk_ac''] [] @ kv p [''pan''] [] @
         kv p [''psn''] (u ''00'') @ kv p [''atc''] [] @ hex2 (length txn div 2) @ txn @ u '';'' @ kv p [''arqc''] [] @
         kv p [''arc''] []))"

definition BUILDERS :: "(string \<times> builder) list" where
  "BUILDERS =
     [(''nc'', b_nc), (''diagnostics'', b_nc), (''hsm_status'', b_no), (''generate_key'', b_generate_key),
      (''key_check'', b_key_check), (''generate_cvv'', b_generate_cvv), (''verify_cvv'', b_verify_cvv),
      (''translate_pin'', b_translate_pin_tpk_zpk), (''translate_pin_tpk_zpk'', b_translate_pin_tpk_zpk),
      (''translate_pin_zpk_zpk'', b_translate_pin_zpk_zpk), (''verify_pin'', b_verify_pin_pvv),
      (''verify_pin_pvv'', b_verify_pin_pvv), (''generate_pin_offset'', b_generate_pin_offset),
      (''verify_pin_ibm'', b_verify_pin_ibm), (''verify_pin_ibm_interchange'', b_verify_pin_ibm_interchange),
      (''generate_pvv'', b_generate_pvv), (''dukpt_translate_pin'', b_dukpt_translate_pin),
      (''generate_mac'', b_generate_mac), (''verify_mac'', b_verify_mac), (''import_key'', b_import_key),
      (''export_key'', b_export_key), (''verify_arqc'', b_verify_arqc)]"

text \<open>An action without a builder passes the command and the data of its payload on, or is itself the command.\<close>

definition command_of :: "string \<Rightarrow> payload \<Rightarrow> (ustr \<times> ustr) result" where
  "command_of action p =
     (case map_of BUILDERS action of
        Some b \<Rightarrow> Inr (b p)
      | None \<Rightarrow>
          if map_of p ''command'' = None \<and> length action \<noteq> 2 then Inl ValueError
          else Inr (take 2 (or_default (u action) (map_of p ''command'')), or_default [] (map_of p ''data'')))"

section \<open>Replies\<close>

record hsm_reply =
  hr_header :: ustr
  hr_response :: ustr
  hr_error :: ustr
  hr_ok :: bool
  hr_data :: ustr

definition parse_reply :: "nat \<Rightarrow> ustr \<Rightarrow> hsm_reply" where
  "parse_reply hb s =
     \<lparr>hr_header = take hb s, hr_response = take 2 (drop hb s), hr_error = take 2 (drop (hb + 2) s),
      hr_ok = (take 2 (drop (hb + 2) s) = u ''00''), hr_data = drop (hb + 4) s\<rparr>"

definition parse_action_result :: "string \<Rightarrow> ustr \<Rightarrow> (string \<times> ustr) list" where
  "parse_action_result action data =
     (if action = ''generate_cvv'' then [(''cvv'', take 3 data)]
      else if action \<in> {''nc'', ''diagnostics''} then [(''lmk_check'', take 16 data), (''firmware'', take 9 (drop 16 data))]
      else if action \<in> {''generate_key'', ''import_key''}
      then [(''key'', if 6 < length data then slice_to (- 6) data else data), (''kcv'', last_n 6 data)]
      else if action = ''key_check'' then [(''kcv'', take 6 data)]
      else if action \<in> {''translate_pin'', ''translate_pin_tpk_zpk'', ''translate_pin_zpk_zpk'', ''dukpt_translate_pin''}
      then [(''pin_length'', take 2 data), (''pin_block'', take 16 (drop 2 data))]
      else if action = ''verify_arqc'' then (if data = [] then [] else [(''arpc'', data)])
      else [])"

text \<open>One command of an action sent under a header, and its reply.\<close>

definition exchange :: "nat \<Rightarrow> hsm \<Rightarrow> ustr \<Rightarrow> string \<Rightarrow> payload \<Rightarrow> hsm_reply result" where
  "exchange hb m header action p =
     rbind (command_of action p) (\<lambda>(cmd, data). Inr (parse_reply hb (hsm_serve hb m (header @ cmd @ data))))"

section \<open>A connection with many commands in flight\<close>

text \<open>The next number of the sequence whose header is free, in at most as many attempts as there are headers.\<close>

definition header_text :: "nat \<Rightarrow> nat \<Rightarrow> ustr" where
  "header_text hb n = zfill hb (dec n)"

fun free_header :: "nat \<Rightarrow> ustr list \<Rightarrow> nat \<Rightarrow> nat \<Rightarrow> nat option" where
  "free_header hb taken 0 n = None"
| "free_header hb taken (Suc k) n =
     (let n = (n + 1) mod 10 ^ hb in if header_text hb n \<in> set taken then free_header hb taken k n else Some n)"

text \<open>Callers wait under their header, and are marked once answered; a caller that has its answer, or gives up, frees
  the header. Frames to the module and back are in flight until they are served or read. \<open>pp_sent\<close> is what each caller
  asked, \<open>pp_got\<close> what it was answered.\<close>

record pipe =
  pp_seq :: nat
  pp_pending :: "(ustr \<times> nat \<times> bool) list"
  pp_out :: "ustr list"
  pp_in :: "ustr list"
  pp_sent :: "(nat \<times> ustr \<times> ustr) list"
  pp_got :: "(nat \<times> hsm_reply) list"

datatype pipe_event = Submit nat ustr ustr | Serve nat | Deliver nat | Collect nat | Give_Up nat

definition drop_at :: "nat \<Rightarrow> 'a list \<Rightarrow> 'a list" where
  "drop_at i xs = take i xs @ drop (Suc i) xs"

definition send_command :: "nat \<Rightarrow> nat \<Rightarrow> ustr \<Rightarrow> ustr \<Rightarrow> pipe \<Rightarrow> pipe result" where
  "send_command hb c cmd data s =
     (case free_header hb (map fst (pp_pending s)) (10 ^ hb) (pp_seq s) of
        None \<Rightarrow> Inl RuntimeError
      | Some n \<Rightarrow>
          Inr (s\<lparr>pp_seq := n, pp_pending := (header_text hb n, c, False) # pp_pending s,
                 pp_out := pp_out s @ [header_text hb n @ cmd @ data], pp_sent := (c, cmd, data) # pp_sent s\<rparr>))"

definition read_reply :: "nat \<Rightarrow> ustr \<Rightarrow> pipe \<Rightarrow> pipe" where
  "read_reply hb t s =
     (case map_of (pp_pending s) (take hb t) of
        Some (c, False) \<Rightarrow>
          s\<lparr>pp_pending := map (\<lambda>(h, e). if h = take hb t then (h, c, True) else (h, e)) (pp_pending s),
            pp_got := (c, parse_reply hb t) # pp_got s\<rparr>
      | _ \<Rightarrow> s)"

definition free_caller :: "nat \<Rightarrow> bool \<Rightarrow> pipe \<Rightarrow> pipe" where
  "free_caller c answered s = s\<lparr>pp_pending := filter (\<lambda>(h, e). e \<noteq> (c, answered)) (pp_pending s)\<rparr>"

text \<open>Frames may be served and delivered in any order. A caller sends once.\<close>

fun pipe_step :: "nat \<Rightarrow> hsm \<Rightarrow> pipe_event \<Rightarrow> pipe \<Rightarrow> pipe" where
  "pipe_step hb m (Submit c cmd data) s =
     (if c \<in> fst ` set (pp_sent s) then s else case send_command hb c cmd data s of Inl e \<Rightarrow> s | Inr s' \<Rightarrow> s')"
| "pipe_step hb m (Serve i) s =
     (if i < length (pp_out s)
      then s\<lparr>pp_out := drop_at i (pp_out s), pp_in := pp_in s @ [hsm_serve hb m (pp_out s ! i)]\<rparr> else s)"
| "pipe_step hb m (Deliver i) s =
     (if i < length (pp_in s) then read_reply hb (pp_in s ! i) (s\<lparr>pp_in := drop_at i (pp_in s)\<rparr>) else s)"
| "pipe_step hb m (Collect c) s = free_caller c True s"
| "pipe_step hb m (Give_Up c) s = free_caller c False s"

definition pipe_run :: "nat \<Rightarrow> hsm \<Rightarrow> pipe_event list \<Rightarrow> pipe" where
  "pipe_run hb m es =
     fold (pipe_step hb m) es \<lparr>pp_seq = 0, pp_pending = [], pp_out = [], pp_in = [], pp_sent = [], pp_got = []\<rparr>"

section \<open>Headers\<close>

lemma header_text_inject: "header_text hb m = header_text hb n \<longleftrightarrow> m = n"
  unfolding header_text_def by (metis undec_zfill_dec)

lemma length_header: "n < 10 ^ hb \<Longrightarrow> 0 < hb \<Longrightarrow> length (header_text hb n) = hb"
  by (simp add: header_text_def length_zfill_dec)

lemma free_header_Some:
  "free_header hb taken k n = Some m \<Longrightarrow> m < 10 ^ hb \<and> header_text hb m \<notin> set taken"
  by (induction k arbitrary: n) (auto simp: Let_def split: if_splits)

lemma mod_move: "(a + Suc (x mod k)) mod k = (Suc (a mod k) + x) mod (k :: nat)"
  using mod_add_right_eq [of "Suc a" x k] mod_add_left_eq [of a k "Suc x"] by simp

lemma free_header_None:
  "free_header hb taken k n = None \<Longrightarrow> j < k \<Longrightarrow> header_text hb ((n + Suc j) mod 10 ^ hb) \<in> set taken"
proof (induction k arbitrary: n j)
  case (Suc k)
  define n' where "n' = (n + 1) mod 10 ^ hb"
  have n': "header_text hb n' \<in> set taken" "free_header hb taken k n' = None"
    using Suc.prems(1) by (auto simp: Let_def n'_def split: if_splits)
  show ?case
  proof (cases j)
    case 0
    then show ?thesis using n'(1) by (simp add: n'_def)
  next
    case (Suc i)
    have "(n' + Suc i) mod 10 ^ hb = (n + Suc j) mod 10 ^ hb"
      using mod_add_left_eq [of "n + 1" "10 ^ hb" "Suc i"] by (simp add: n'_def Suc)
    then show ?thesis using Suc.IH [OF n'(2), of i] Suc Suc.prems(2) by simp
  qed
qed simp

text \<open>As long as fewer commands are in flight than there are headers, a command finds a free one.\<close>

theorem header_is_found:
  assumes "length (pp_pending s) < 10 ^ hb"
  shows "\<exists>s'. send_command hb c cmd data s = Inr s'"
proof (cases "free_header hb (map fst (pp_pending s)) (10 ^ hb) (pp_seq s)")
  case None
  have "header_text hb m \<in> set (map fst (pp_pending s))" if "m < 10 ^ hb" for m
  proof -
    define j where "j = (m + 10 ^ hb - Suc (pp_seq s mod 10 ^ hb)) mod 10 ^ hb"
    have "(pp_seq s + Suc j) mod 10 ^ hb = m"
    proof -
      have "(pp_seq s + Suc j) mod 10 ^ hb =
          (Suc (pp_seq s mod 10 ^ hb) + (m + 10 ^ hb - Suc (pp_seq s mod 10 ^ hb))) mod 10 ^ hb"
        unfolding j_def by (rule mod_move)
      also have "Suc (pp_seq s mod 10 ^ hb) + (m + 10 ^ hb - Suc (pp_seq s mod 10 ^ hb)) = m + 10 ^ hb"
        using mod_less_divisor [of "10 ^ hb" "pp_seq s"] by (simp del: mod_less_divisor)
      also have "(m + 10 ^ hb) mod 10 ^ hb = m" using that by simp
      finally show ?thesis .
    qed
    moreover have "j < 10 ^ hb" by (simp add: j_def)
    ultimately show ?thesis using free_header_None [OF None, of j] by simp
  qed
  then have "header_text hb ` {..<10 ^ hb} \<subseteq> set (map fst (pp_pending s))" by auto
  then have "card (header_text hb ` {..<10 ^ hb}) \<le> length (pp_pending s)"
    by (metis card_length card_mono List.finite_set length_map le_trans)
  moreover have "card (header_text hb ` {..<10 ^ hb}) = 10 ^ hb"
    by (simp add: card_image inj_on_def header_text_inject)
  ultimately show ?thesis using assms by simp
qed (simp add: send_command_def)

section \<open>Replies reach their caller\<close>

definition asked :: "nat \<Rightarrow> pipe \<Rightarrow> ustr \<Rightarrow> nat \<Rightarrow> ustr \<Rightarrow> ustr \<Rightarrow> bool" where
  "asked hb s h c cmd data \<longleftrightarrow> length h = hb \<and> (h, c, False) \<in> set (pp_pending s) \<and> (c, cmd, data) \<in> set (pp_sent s)"

definition pipe_inv :: "nat \<Rightarrow> hsm \<Rightarrow> pipe \<Rightarrow> bool" where
  "pipe_inv hb m s \<longleftrightarrow>
     distinct (map fst (pp_pending s)) \<and> distinct (map (take hb) (pp_out s @ pp_in s)) \<and>
     (\<forall>t \<in> set (pp_out s). \<exists>h c cmd data. t = h @ cmd @ data \<and> asked hb s h c cmd data) \<and>
     (\<forall>t \<in> set (pp_in s). \<exists>h c cmd data. t = hsm_serve hb m (h @ cmd @ data) \<and> asked hb s h c cmd data) \<and>
     (\<forall>c r. (c, r) \<in> set (pp_got s) \<longrightarrow>
        (\<exists>h cmd data. length h = hb \<and> (c, cmd, data) \<in> set (pp_sent s) \<and> r = parse_reply hb (hsm_serve hb m (h @ cmd @ data))))"

lemma serve_header: "take hb (hsm_serve hb m (h @ t)) = h" if "length h = hb"
  using that by (simp add: hsm_serve_def split_beta Let_def)

lemma set_drop_at: "i < length xs \<Longrightarrow> set xs = insert (xs ! i) (set (drop_at i xs))"
  by (metis Un_insert_right append_Cons drop_at_def id_take_nth_drop list.set(2) set_append)

lemma distinct_drop_at: "i < length xs \<Longrightarrow> distinct (map f xs) \<longleftrightarrow> distinct (map f (drop_at i xs)) \<and> f (xs ! i) \<notin> f ` set (drop_at i xs)"
proof -
  assume "i < length xs"
  then have "xs = take i xs @ xs ! i # drop (Suc i) xs" by (rule id_take_nth_drop)
  then have "distinct (map f xs) \<longleftrightarrow> distinct (map f (take i xs @ xs ! i # drop (Suc i) xs))" by simp
  then show ?thesis by (auto simp: drop_at_def)
qed

lemma pipe_invD:
  assumes "pipe_inv hb m s"
  shows "distinct (map fst (pp_pending s))" and "distinct (map (take hb) (pp_out s @ pp_in s))"
    and "t \<in> set (pp_out s) \<Longrightarrow> \<exists>h c cmd data. t = h @ cmd @ data \<and> asked hb s h c cmd data"
    and "t \<in> set (pp_in s) \<Longrightarrow> \<exists>h c cmd data. t = hsm_serve hb m (h @ cmd @ data) \<and> asked hb s h c cmd data"
    and "(c, r) \<in> set (pp_got s) \<Longrightarrow>
      \<exists>h cmd data. length h = hb \<and> (c, cmd, data) \<in> set (pp_sent s) \<and> r = parse_reply hb (hsm_serve hb m (h @ cmd @ data))"
  using assms unfolding pipe_inv_def by blast+

lemma pipe_invI:
  assumes "distinct (map fst (pp_pending s))" and "distinct (map (take hb) (pp_out s @ pp_in s))"
    and "\<And>t. t \<in> set (pp_out s) \<Longrightarrow> \<exists>h c cmd data. t = h @ cmd @ data \<and> asked hb s h c cmd data"
    and "\<And>t. t \<in> set (pp_in s) \<Longrightarrow> \<exists>h c cmd data. t = hsm_serve hb m (h @ cmd @ data) \<and> asked hb s h c cmd data"
    and "\<And>c r. (c, r) \<in> set (pp_got s) \<Longrightarrow>
      \<exists>h cmd data. length h = hb \<and> (c, cmd, data) \<in> set (pp_sent s) \<and> r = parse_reply hb (hsm_serve hb m (h @ cmd @ data))"
  shows "pipe_inv hb m s"
  using assms unfolding pipe_inv_def by blast

lemma in_flight:
  assumes "pipe_inv hb m s" and "t \<in> set (pp_out s) \<or> t \<in> set (pp_in s)"
  obtains c cmd data where "asked hb s (take hb t) c cmd data"
proof -
  have "\<exists>c cmd data. asked hb s (take hb t) c cmd data"
    using assms(2)
  proof
    assume "t \<in> set (pp_out s)"
    then obtain h c cmd data where "t = h @ cmd @ data" "asked hb s h c cmd data" using pipe_invD(3) [OF assms(1)] by blast
    then have "asked hb s (take hb t) c cmd data" by (simp add: asked_def)
    then show ?thesis by blast
  next
    assume "t \<in> set (pp_in s)"
    then obtain h c cmd data where "t = hsm_serve hb m (h @ cmd @ data)" "asked hb s h c cmd data"
      using pipe_invD(4) [OF assms(1)] by blast
    then have "asked hb s (take hb t) c cmd data" by (simp add: asked_def serve_header)
    then show ?thesis by blast
  qed
  then show thesis using that by blast
qed

lemma pipe_submit:
  assumes inv: "pipe_inv hb m s" and "0 < hb" and "send_command hb c cmd data s = Inr s'"
  shows "pipe_inv hb m s'"
proof -
  obtain n where n: "n < 10 ^ hb" "header_text hb n \<notin> fst ` set (pp_pending s)"
    and s': "s' = s\<lparr>pp_seq := n, pp_pending := (header_text hb n, c, False) # pp_pending s,
      pp_out := pp_out s @ [header_text hb n @ cmd @ data], pp_sent := (c, cmd, data) # pp_sent s\<rparr>"
    using assms(3) free_header_Some by (fastforce simp: send_command_def split: option.splits)
  have l: "length (header_text hb n) = hb" by (rule length_header [OF n(1) assms(2)])
  have fresh: "take hb t \<noteq> header_text hb n" if "t \<in> set (pp_out s) \<or> t \<in> set (pp_in s)" for t
  proof -
    obtain c cmd data where "asked hb s (take hb t) c cmd data" using in_flight [OF inv \<open>t \<in> _ \<or> _\<close>] by blast
    then show ?thesis using n(2) by (force simp: asked_def)
  qed
  have old: "asked hb s' h d a b" if "asked hb s h d a b" for h d a b
    using that by (auto simp: asked_def s')
  have new: "asked hb s' (header_text hb n) c cmd data" by (simp add: asked_def s' l)
  show ?thesis
  proof (rule pipe_invI)
    show "distinct (map fst (pp_pending s'))" using pipe_invD(1) [OF inv] n(2) by (simp add: s')
    show "distinct (map (take hb) (pp_out s' @ pp_in s'))"
      using pipe_invD(2) [OF inv] fresh l by (simp add: s') (metis (no_types, lifting) imageE)
    show "\<exists>h c cmd data. t = h @ cmd @ data \<and> asked hb s' h c cmd data" if "t \<in> set (pp_out s')" for t
      using that pipe_invD(3) [OF inv, of t] old new by (auto simp: s') blast+
    show "\<exists>h c cmd data. t = hsm_serve hb m (h @ cmd @ data) \<and> asked hb s' h c cmd data" if "t \<in> set (pp_in s')" for t
      using that pipe_invD(4) [OF inv, of t] old by (auto simp: s') blast
    show "\<exists>h cmd data. length h = hb \<and> (d, cmd, data) \<in> set (pp_sent s') \<and> r = parse_reply hb (hsm_serve hb m (h @ cmd @ data))"
      if "(d, r) \<in> set (pp_got s')" for d r
      using that pipe_invD(5) [OF inv, of d r] by (auto simp: s')
  qed
qed

lemma pipe_serve:
  assumes inv: "pipe_inv hb m s" and i: "i < length (pp_out s)"
  shows "pipe_inv hb m (s\<lparr>pp_out := drop_at i (pp_out s), pp_in := pp_in s @ [hsm_serve hb m (pp_out s ! i)]\<rparr>)" (is "pipe_inv hb m ?s")
proof -
  define t where "t = pp_out s ! i"
  have t: "t \<in> set (pp_out s)" using i by (simp add: t_def)
  obtain h c cmd data where a: "t = h @ cmd @ data" "asked hb s h c cmd data" using pipe_invD(3) [OF inv t] by blast
  have head: "take hb (hsm_serve hb m t) = take hb t" using a by (simp add: asked_def serve_header)
  have sub: "set (drop_at i (pp_out s)) \<subseteq> set (pp_out s)" using set_drop_at [OF i] by blast
  have same: "asked hb ?s = asked hb s" by (intro ext) (simp add: asked_def)
  have d: "distinct (map (take hb) (drop_at i (pp_out s)))" "take hb t \<notin> take hb ` set (drop_at i (pp_out s))"
    "distinct (map (take hb) (pp_in s))" "take hb ` set (pp_out s) \<inter> take hb ` set (pp_in s) = {}"
    using pipe_invD(2) [OF inv] distinct_drop_at [OF i, of "take hb"] by (auto simp: t_def)
  show ?thesis
  proof (rule pipe_invI)
    show "distinct (map fst (pp_pending ?s))" using pipe_invD(1) [OF inv] by simp
    have "take hb t \<notin> take hb ` set (pp_in s)" using d(4) t by blast
    moreover have "take hb ` set (drop_at i (pp_out s)) \<inter> take hb ` set (pp_in s) = {}" using d(4) sub by blast
    ultimately show "distinct (map (take hb) (pp_out ?s @ pp_in ?s))"
      using d(1-3) by (simp add: t_def [symmetric] head)
    show "\<exists>h c cmd data. x = h @ cmd @ data \<and> asked hb ?s h c cmd data" if "x \<in> set (pp_out ?s)" for x
      using that sub pipe_invD(3) [OF inv, of x] unfolding same by auto
    show "\<exists>h c cmd data. x = hsm_serve hb m (h @ cmd @ data) \<and> asked hb ?s h c cmd data" if "x \<in> set (pp_in ?s)" for x
      using that pipe_invD(4) [OF inv, of x] a unfolding same by (auto simp: t_def [symmetric])
    show "\<exists>h cmd data. length h = hb \<and> (d, cmd, data) \<in> set (pp_sent ?s) \<and> r = parse_reply hb (hsm_serve hb m (h @ cmd @ data))"
      if "(d, r) \<in> set (pp_got ?s)" for d r
      using that pipe_invD(5) [OF inv, of d r] by simp
  qed
qed

lemma pipe_deliver:
  assumes inv: "pipe_inv hb m s" and i: "i < length (pp_in s)"
  shows "pipe_inv hb m (read_reply hb (pp_in s ! i) (s\<lparr>pp_in := drop_at i (pp_in s)\<rparr>))"
proof -
  define t where "t = pp_in s ! i"
  have t: "t \<in> set (pp_in s)" using i by (simp add: t_def)
  obtain h c cmd data where a: "t = hsm_serve hb m (h @ cmd @ data)" "asked hb s h c cmd data" using pipe_invD(4) [OF inv t] by blast
  have h: "take hb t = h" using a by (simp add: asked_def serve_header)
  have "map_of (pp_pending s) h = Some (c, False)"
    using a(2) pipe_invD(1) [OF inv] by (simp add: asked_def)
  then have s': "read_reply hb t (s\<lparr>pp_in := drop_at i (pp_in s)\<rparr>) =
      s\<lparr>pp_in := drop_at i (pp_in s), pp_pending := map (\<lambda>(k, e). if k = h then (k, c, True) else (k, e)) (pp_pending s),
        pp_got := (c, parse_reply hb t) # pp_got s\<rparr>" (is "_ = ?s")
    by (simp add: read_reply_def h)
  have sub: "set (drop_at i (pp_in s)) \<subseteq> set (pp_in s)" using set_drop_at [OF i] by blast
  have d: "distinct (map (take hb) (drop_at i (pp_in s)))" "h \<notin> take hb ` set (drop_at i (pp_in s))"
    "distinct (map (take hb) (pp_out s))" "take hb ` set (pp_out s) \<inter> take hb ` set (pp_in s) = {}"
    using pipe_invD(2) [OF inv] distinct_drop_at [OF i, of "take hb"] h by (auto simp: t_def)
  have "h \<in> take hb ` set (pp_in s)" using t h by blast
  then have out: "h \<notin> take hb ` set (pp_out s)" using d(4) by blast
  have keep: "asked hb ?s k e f g" if "asked hb s k e f g" "k \<noteq> h" for k e f g
    using that by (force simp: asked_def)
  have "pipe_inv hb m ?s"
  proof (rule pipe_invI)
    have "map fst (pp_pending ?s) = map fst (pp_pending s)" by auto
    then show "distinct (map fst (pp_pending ?s))" by (metis pipe_invD(1) [OF inv])
    have "take hb ` set (pp_out s) \<inter> take hb ` set (drop_at i (pp_in s)) = {}" using d(4) sub by blast
    then show "distinct (map (take hb) (pp_out ?s @ pp_in ?s))" using d by simp
    show "\<exists>h c cmd data. x = h @ cmd @ data \<and> asked hb ?s h c cmd data" if x: "x \<in> set (pp_out ?s)" for x
    proof -
      obtain k e f g where k: "x = k @ f @ g" "asked hb s k e f g" using pipe_invD(3) [OF inv, of x] x by auto
      have "take hb x = k" using k by (simp add: asked_def)
      then have "k \<noteq> h" using out x by force
      then show ?thesis using keep [OF k(2)] k(1) by blast
    qed
    show "\<exists>h c cmd data. x = hsm_serve hb m (h @ cmd @ data) \<and> asked hb ?s h c cmd data" if x: "x \<in> set (pp_in ?s)" for x
    proof -
      have "x \<in> set (pp_in s)" using x sub by auto
      then obtain k e f g where k: "x = hsm_serve hb m (k @ f @ g)" "asked hb s k e f g"
        using pipe_invD(4) [OF inv, of x] by blast
      have "take hb x = k" using k by (simp add: asked_def serve_header)
      then have "k \<noteq> h" using d(2) x by force
      then show ?thesis using keep [OF k(2)] k(1) by blast
    qed
    show "\<exists>h cmd data. length h = hb \<and> (d, cmd, data) \<in> set (pp_sent ?s) \<and> r = parse_reply hb (hsm_serve hb m (h @ cmd @ data))"
      if "(d, r) \<in> set (pp_got ?s)" for d r
      using that pipe_invD(5) [OF inv, of d r] a by (auto simp: asked_def)
  qed
  then show ?thesis by (simp add: t_def [symmetric] s')
qed

lemma pipe_collect:
  assumes inv: "pipe_inv hb m s"
  shows "pipe_inv hb m (free_caller c True s)"
proof -
  have same: "asked hb (free_caller c True s) = asked hb s" by (intro ext) (auto simp: asked_def free_caller_def)
  show ?thesis
  proof (rule pipe_invI)
    show "distinct (map fst (pp_pending (free_caller c True s)))"
      using pipe_invD(1) [OF inv] by (simp add: free_caller_def distinct_map_filter)
  qed (use pipe_invD [OF inv] in \<open>simp_all add: same, simp_all add: free_caller_def\<close>)
qed

fun gives_up :: "pipe_event \<Rightarrow> bool" where
  "gives_up (Give_Up c) = True"
| "gives_up _ = False"

lemma pipe_step_inv: "pipe_inv hb m s \<Longrightarrow> 0 < hb \<Longrightarrow> \<not> gives_up e \<Longrightarrow> pipe_inv hb m (pipe_step hb m e s)"
  by (cases e) (auto simp: pipe_serve pipe_deliver pipe_collect pipe_submit split: sum.splits)

lemma pipe_run_inv: "0 < hb \<Longrightarrow> list_all (\<lambda>e. \<not> gives_up e) es \<Longrightarrow> pipe_inv hb m (pipe_run hb m es)"
proof (induction es rule: rev_induct)
  case Nil
  then show ?case by (simp add: pipe_run_def pipe_inv_def)
next
  case (snoc e es)
  then show ?case using pipe_step_inv by (simp add: pipe_run_def)
qed

text \<open>Without scripted replies an error code is one of the simulator's, of two characters, so a reply is read as it
  was written.\<close>

definition codes :: "ustr set" where
  "codes = {ERR_OK, ERR_VERIFY_FAIL, ERR_INVALID_DATA, ERR_NO_COMMAND, ERR_DISABLED}"

definition coded :: "reply result \<Rightarrow> bool" where
  "coded r = (case r of Inl e \<Rightarrow> True | Inr x \<Rightarrow> fst x \<in> codes)"

named_theorems coded_rules \<open>replies whose error code is one of the simulator's\<close>

lemma coded_Inr [coded_rules]:
  "coded (Inr (ERR_OK, d))" "coded (Inr (verdict b))" "coded (Inr (ERR_INVALID_DATA, d))" "coded (Inr (ERR_VERIFY_FAIL, d))"
  by (simp_all add: coded_def codes_def verdict_def)

lemma coded_rbind [coded_rules]: "(\<And>x. coded (f x)) \<Longrightarrow> coded (rbind m f)"
  by (cases m) (simp_all add: coded_def)

lemma coded_if [coded_rules]: "coded x \<Longrightarrow> coded y \<Longrightarrow> coded (if b then x else y)"
  by simp

lemma coded_prod [coded_rules]: "(\<And>a b. coded (f a b)) \<Longrightarrow> coded (case x of (a, b) \<Rightarrow> f a b)"
  by (simp add: split_beta)

lemma coded_option [coded_rules]: "coded x \<Longrightarrow> (\<And>a. coded (f a)) \<Longrightarrow> coded (case y of None \<Rightarrow> x | Some a \<Rightarrow> f a)"
  by (cases y) simp_all

lemma coded_bool [coded_rules]: "coded x \<Longrightarrow> coded y \<Longrightarrow> coded (case b of True \<Rightarrow> x | False \<Rightarrow> y)"
  by (cases b) simp_all

lemma coded_translate [coded_rules]: "coded (translate_block h src dst tail b)"
  unfolding translate_block_def Let_def by (intro coded_rules)

lemma coded_with_pin [coded_rules]: "(\<And>a b c d. coded (use a b c d)) \<Longrightarrow> coded (with_pin h data v use)"
  unfolding with_pin_def Let_def by (intro coded_rules)

lemmas command_defs = cmd_NC_def cmd_A0_def cmd_BU_def cmd_CW_def cmd_CY_def cmd_CA_def cmd_EC_def cmd_DE_def cmd_BA_def
  cmd_BE_def cmd_JA_def cmd_M6_def cmd_M8_def cmd_CC_def cmd_A6_def cmd_K8_def cmd_G0_def cmd_KQ_def cmd_NO_def

lemma coded_commands [coded_rules]:
  "coded (cmd_NC h data)" "coded (cmd_A0 h data)" "coded (cmd_BU h data)" "coded (cmd_CW h data)" "coded (cmd_CY h data)"
  "coded (cmd_CA h data)" "coded (cmd_EC h data)" "coded (cmd_DE h data)" "coded (cmd_BA h data)" "coded (cmd_BE h data)"
  "coded (cmd_JA h data)" "coded (cmd_M6 h data)" "coded (cmd_M8 h data)" "coded (cmd_CC h data)" "coded (cmd_A6 h data)"
  "coded (cmd_K8 h data)" "coded (cmd_G0 h data)" "coded (cmd_KQ h data)" "coded (cmd_NO h data)"
  unfolding command_defs ibm_pin_verify_layout_def Let_def by (intro coded_rules)+

lemma coded_command: "map_of COMMANDS cmd = Some f \<Longrightarrow> coded (f h data)"
  unfolding COMMANDS_def by (auto simp: coded_rules split: if_splits)

lemma dispatch_code: "hs_overrides h = [] \<Longrightarrow> fst (hsm_dispatch h cmd data) \<in> codes"
  using coded_command [of cmd _ h data]
  by (auto simp: hsm_dispatch_def coded_def split: option.splits sum.splits)
    (simp_all add: codes_def)

lemma length_code: "c \<in> codes \<Longrightarrow> length c = 2"
  by (auto simp: codes_def ERR_OK_def ERR_VERIFY_FAIL_def ERR_INVALID_DATA_def ERR_NO_COMMAND_def ERR_DISABLED_def u_def)

lemma parse_serve:
  assumes "hs_overrides m = []" and "length h = hb" and "length cmd = 2"
  shows "parse_reply hb (hsm_serve hb m (h @ cmd @ data)) =
    \<lparr>hr_header = h, hr_response = response_code cmd, hr_error = fst (hsm_dispatch m cmd data),
     hr_ok = (fst (hsm_dispatch m cmd data) = ERR_OK), hr_data = snd (hsm_dispatch m cmd data)\<rparr>"
proof -
  have "length (fst (hsm_dispatch m cmd data)) = 2" using dispatch_code [OF assms(1)] by (rule length_code)
  moreover have "length (response_code cmd) = 2"
    using assms(3) by (auto simp: response_code_def split: list.splits)
  ultimately show ?thesis
    using assms(2,3) by (simp add: parse_reply_def hsm_serve_def split_beta Let_def ERR_OK_def)
qed

text \<open>C10. Whatever the order in which the module answers and the replies arrive: as long as no caller gives up, a caller is
  answered what the module says to its own command.\<close>

theorem replies_reach_their_caller:
  assumes "0 < hb" and "hs_overrides m = []" and "list_all (\<lambda>e. \<not> gives_up e) es"
    and "(c, r) \<in> set (pp_got (pipe_run hb m es))"
    and "\<forall>(d, cmd, data) \<in> set (pp_sent (pipe_run hb m es)). length cmd = 2"
  shows "\<exists>cmd data. (c, cmd, data) \<in> set (pp_sent (pipe_run hb m es)) \<and> hr_response r = response_code cmd \<and>
    (hr_error r, hr_data r) = hsm_dispatch m cmd data"
proof -
  obtain h cmd data where a: "length h = hb" "(c, cmd, data) \<in> set (pp_sent (pipe_run hb m es))"
    "r = parse_reply hb (hsm_serve hb m (h @ cmd @ data))"
    using pipe_invD(5) [OF pipe_run_inv [OF assms(1,3)] assms(4)] by blast
  then have "length cmd = 2" using assms(5) by blast
  then show ?thesis using a parse_serve [OF assms(2) a(1)] by auto
qed

end
