(* ===== verification/Hsm_Laws.thy ===== *)
theory Hsm_Laws
  imports Hsm_Client
begin

text \<open>
  What the module generates it verifies: key tokens, verification values, PIN offsets and MACs, for any keys, master key
  and invertible ciphers, from the actions of the client through frames to the commands of the simulator and back.
\<close>

section \<open>Key fields and trailers\<close>

definition clean :: "ustr \<Rightarrow> bool" where
  "clean s \<longleftrightarrow> 25 \<notin> set s \<and> 37 \<notin> set s"

lemma clean_append [simp]: "clean (s @ t) \<longleftrightarrow> clean s \<and> clean t"
  by (auto simp: clean_def)

lemma clean_dec: "\<forall>c \<in> set s. is_dec c \<Longrightarrow> clean s"
  by (auto simp: clean_def is_dec_def)

lemma clean_upper_hex: "\<forall>c \<in> set s. is_upper_hex c \<Longrightarrow> clean s"
  by (auto simp: clean_def is_upper_hex_def)

lemma trim_clean: "clean s \<Longrightarrow> trim_trailer s = s"
  by (auto simp: clean_def trim_trailer_def Let_def takeWhile_eq_all_conv dest: set_takeWhileD)

definition key_token :: "ustr \<Rightarrow> bool" where
  "key_token t \<longleftrightarrow> t \<noteq> [] \<and> length t = key_width t \<and> clean t"

lemma key_width_append: "t \<noteq> [] \<Longrightarrow> key_width (t @ r) = key_width t"
  by (cases t) (simp_all add: key_width_def)

lemma read_token:
  assumes "key_token t"
  shows "read_key_field (t @ r) = (t, r)"
proof -
  have "key_width (t @ r) = length t" using assms key_width_append by (simp add: key_token_def)
  then show ?thesis by (simp add: read_key_field_def)
qed

lemma read_token_only: "key_token t \<Longrightarrow> read_key_field t = (t, [])"
  using read_token [of t "[]"] by simp

section \<open>The contract of a generator and its verifier\<close>

text \<open>On requests that are \<open>sound\<close>, the verifier accepts the value the generator answers.\<close>

locale generate_verify =
  fixes generate verify :: "hsm \<Rightarrow> ustr \<Rightarrow> reply result"
    and with_value :: "ustr \<Rightarrow> ustr \<Rightarrow> ustr"
    and sound :: "hsm \<Rightarrow> ustr \<Rightarrow> bool"
  assumes verifies: "sound h data \<Longrightarrow> generate h data = Inr (ERR_OK, v) \<Longrightarrow> verify h (with_value data v) = Inr (ERR_OK, [])"
begin

lemma dispatched:
  assumes "map_of COMMANDS g = Some generate" and "map_of COMMANDS f = Some verify"
    and "hs_overrides h = []" and "f \<notin> set (hs_disabled h)" and "sound h data"
    and "hsm_dispatch h g data = (ERR_OK, v)"
  shows "hsm_dispatch h f (with_value data v) = (ERR_OK, [])"
proof -
  have "ERR_OK \<noteq> ERR_DISABLED" "ERR_OK \<noteq> ERR_INVALID_DATA"
    by (simp_all add: ERR_OK_def ERR_DISABLED_def ERR_INVALID_DATA_def u_def)
  then have "generate h data = Inr (ERR_OK, v)"
    using assms(1,3,6) by (auto simp: hsm_dispatch_def split: if_splits sum.splits)
  then have "verify h (with_value data v) = Inr (ERR_OK, [])" using verifies assms(5) by blast
  then show ?thesis using assms(2-4) by (simp add: hsm_dispatch_def)
qed

lemma on_the_wire:
  assumes "map_of COMMANDS g = Some generate" and "map_of COMMANDS f = Some verify"
    and "length g = 2" and "length f = 2" and "length h1 = hb" and "length h2 = hb"
    and "hs_overrides h = []" and "f \<notin> set (hs_disabled h)" and "sound h data"
    and "hr_ok (parse_reply hb (hsm_serve hb h (h1 @ g @ data)))"
    and "v = hr_data (parse_reply hb (hsm_serve hb h (h1 @ g @ data)))"
  shows "hr_ok (parse_reply hb (hsm_serve hb h (h2 @ f @ with_value data v)))"
proof -
  have "hsm_dispatch h g data = (ERR_OK, v)"
    using assms(10,11) parse_serve [OF assms(7,5,3)] by (simp add: prod_eq_iff)
  then have "hsm_dispatch h f (with_value data v) = (ERR_OK, [])"
    using dispatched [OF assms(1,2,7-9)] by blast
  then show ?thesis using parse_serve [OF assms(7,6,4)] by simp
qed

end

section \<open>Card verification values\<close>

text \<open>The value stands between the key and the card's data.\<close>

definition after_key :: "ustr \<Rightarrow> ustr \<Rightarrow> ustr" where
  "after_key data v = fst (read_key_field data) @ v @ snd (read_key_field data)"

definition card_request :: "hsm \<Rightarrow> ustr \<Rightarrow> bool" where
  "card_request h data \<longleftrightarrow> invertible (hs_lib h) \<and>
     (\<exists>t pan expiry sc. key_token t \<and> list_all is_dec (pan @ expiry @ sc) \<and> data = t @ pan @ u '';'' @ expiry @ sc)"

lemma card_data:
  assumes "list_all is_dec (pan @ tail)"
  shows "read_cvv_data (pan @ u '';'' @ tail) = (pan, take 4 tail, take 3 (drop 4 tail))"
proof -
  have d: "\<forall>c \<in> set pan. is_dec c" "\<forall>c \<in> set tail. is_dec c" using assms by (simp_all add: list_all_iff)
  then have c: "clean (pan @ u '';'' @ tail)" using clean_dec by (auto simp: clean_def u_def)
  have n: "\<forall>c \<in> set pan. c \<noteq> 59" using d(1) by (auto simp: is_dec_def)
  have "take 1 (pan @ u '';'' @ tail) \<noteq> u ''#''" using d(1) by (cases pan) (auto simp: u_def is_dec_def)
  moreover have "takeWhile (\<lambda>c. c \<noteq> 59) (pan @ u '';'' @ tail) = pan" using n by (simp add: u_def)
  moreover have "dropWhile (\<lambda>c. c \<noteq> 59) (pan @ u '';'' @ tail) = u '';'' @ tail" using n by (simp add: u_def)
  ultimately show ?thesis unfolding read_cvv_data_def trim_clean [OF c] Let_def by (simp add: u_def)
qed

interpretation card: generate_verify cmd_CW cmd_CY after_key card_request
proof unfold_locales
  fix h data v
  assume "card_request h data" and g: "cmd_CW h data = Inr (ERR_OK, v)"
  then obtain t pan expiry sc where c: "invertible (hs_lib h)" "key_token t" "list_all is_dec (pan @ expiry @ sc)"
    "data = t @ pan @ u '';'' @ expiry @ sc"
    unfolding card_request_def by blast
  define rest where "rest = pan @ u '';'' @ expiry @ sc"
  have "clean (pan @ expiry @ sc)" using c(3) by (intro clean_dec) (auto simp: list_all_iff)
  then have cr: "clean rest" "clean t" using c(2) by (auto simp: rest_def clean_def u_def key_token_def)
  have r: "read_cvv_data rest = (pan, take 4 (expiry @ sc), take 3 (drop 4 (expiry @ sc)))"
    unfolding rest_def by (rule card_data) (use c(3) in simp)
  have data: "data = t @ rest" using c(4) by (simp add: rest_def)
  have tr: "trim_trailer (t @ rest) = t @ rest" using cr by (intro trim_clean) simp
  obtain cvk where k: "unwrap h t CVK_VARIANT = Inr cvk"
    "cvv (hs_lib h) pan (take 4 (expiry @ sc)) (take 3 (drop 4 (expiry @ sc))) cvk = Inr v"
    using g by (auto simp: cmd_CW_def data tr read_token [OF c(2)] r result_iff)
  have "list_all is_dec (pan @ take 4 (expiry @ sc) @ take 3 (drop 4 (expiry @ sc)))"
    using c(3) by (auto simp: list_all_iff dest: in_set_takeD in_set_dropD)
  then have v: "length v = 3" "list_all is_dec v" using cvv_three_digits [OF c(1) _ k(2)] by blast+
  then have "clean v" using clean_dec by (simp add: list_all_iff)
  then have "trim_trailer (t @ v @ rest) = t @ v @ rest" using cr by (intro trim_clean) simp
  moreover have "take 3 (v @ rest) = v" "drop 3 (v @ rest) = rest" using v(1) by simp_all
  ultimately show "cmd_CY h (after_key data v) = Inr (ERR_OK, [])"
    by (simp add: after_key_def data read_token [OF c(2)] cmd_CY_def r k verdict_def del: take_append drop_append)
qed

section \<open>MACs\<close>

definition mac_request :: "hsm \<Rightarrow> ustr \<Rightarrow> bool" where
  "mac_request h data \<longleftrightarrow> invertible (hs_lib h) \<and> (\<exists>t m. key_token t \<and> clean m \<and> data = t @ m)"

lemma length_chunks: "length x mod 8 = 0 \<Longrightarrow> b \<in> set (chunks 8 x) \<Longrightarrow> length b = 8"
proof (induction "8 :: nat" x rule: chunks.induct)
  case (3 n x xs)
  have n: "n = 7" using "3.hyps"(2) by simp
  have "8 \<le> length (x # xs)" using "3.prems"(1) by (cases "length (x # xs) < 8") auto
  moreover from this have "length (drop n xs) mod 8 = 0"
    using "3.prems"(1) le_mod_geq [of 8 "length (x # xs)"] by (simp add: n)
  ultimately show ?case using "3.hyps"(1) [OF "3.hyps"(2)] "3.prems"(2) by (auto simp: n chunks.simps(3) [of 7, simplified])
qed auto

lemma length_cbc_mac:
  assumes "cbc_mac enc h bs = Inr r" and "\<And>x y. enc x = Inr y \<Longrightarrow> length y = length x"
    and "length h = 8" and "\<forall>b \<in> set bs. length b = 8"
  shows "length r = 8"
  using assms(1,3,4)
proof (induction bs arbitrary: h)
  case (Cons b bs)
  then obtain h' where "enc (xor_bytes h b) = Inr h'" "cbc_mac enc h' bs = Inr r" by (auto simp: result_iff)
  then show ?case using Cons assms(2) by fastforce
qed simp

lemma length_retail_mac:
  assumes "invertible cl" and "retail_mac cl key x = Inr m"
  shows "length m = 16 \<and> (\<forall>c \<in> set m. is_upper_hex c)"
proof -
  obtain k d a b c where e: "cbc_mac (\<lambda>b. des_block cl (take 8 k) b True) (zeros 8) (chunks 8 (pad_m2 d)) = Inr a"
    "des_block cl (second_key k) a False = Inr b" "des_block cl (take 8 k) b True = Inr c" "m = hex_upper c"
    using assms(2) by (auto simp: retail_mac_def retail_mac_of_def result_iff Let_def)
  have "\<forall>b \<in> set (chunks 8 (pad_m2 d)). length b = 8"
    using length_chunks [of "pad_m2 d"] padding_is_invertible [of d] by simp
  then have "length a = 8"
    using length_cbc_mac [OF e(1)] des_block_length [OF assms(1)] by (simp add: zeros_def)
  then show ?thesis using e(2-4) des_block_length [OF assms(1)] hex_upper_is_upper by fastforce
qed

lemma mac_of_message:
  assumes "key_token t" and "clean m"
  shows "cmd_M6 h (t @ m) = rbind (unwrap h t 0) (\<lambda>key. rbind (message_hex m) (\<lambda>x. rbind (retail_mac (hs_lib h) key x) (\<lambda>mac.
    Inr (ERR_OK, mac))))"
proof -
  have "trim_trailer (t @ m) = t @ m" using assms by (intro trim_clean) (simp add: key_token_def)
  then show ?thesis by (simp add: cmd_M6_def read_token [OF assms(1)])
qed

interpretation mac: generate_verify cmd_M6 cmd_M8 append mac_request
proof unfold_locales
  fix h data v
  assume "mac_request h data" and g: "cmd_M6 h data = Inr (ERR_OK, v)"
  then obtain t m where c: "invertible (hs_lib h)" "key_token t" "clean m" "data = t @ m"
    unfolding mac_request_def by blast
  obtain key x where k: "unwrap h t 0 = Inr key" "message_hex m = Inr x" "retail_mac (hs_lib h) key x = Inr v"
    using g by (auto simp: c(4) mac_of_message [OF c(2,3)] result_iff)
  have v: "length v = 16" "\<forall>c \<in> set v. is_upper_hex c" using length_retail_mac [OF c(1) k(3)] by blast+
  have "trim_trailer (t @ m @ v) = t @ m @ v"
    using c(2,3) clean_upper_hex [OF v(2)] by (intro trim_clean) (simp add: key_token_def)
  moreover have "slice_to (- 16) (m @ v) = m" using slice_to_neg_append [of v m] v(1) by simp
  moreover have "last_n 16 (m @ v) = v" by (rule last_n_append) (use v(1) in auto)
  ultimately show "cmd_M8 h (data @ v) = Inr (ERR_OK, [])"
    by (simp add: c(4) cmd_M8_def read_token [OF c(2)] k py_upper_upper_hex [OF v(2)] verdict_def)
qed

section \<open>Verification values and offsets of PINs\<close>

text \<open>Two key tokens, then the PIN block, its format, the account and what the method needs.\<close>

definition pin_request :: "nat \<Rightarrow> ustr \<Rightarrow> ustr \<Rightarrow> ustr \<Rightarrow> ustr \<Rightarrow> bool" where
  "pin_request n t1 t2 body data \<longleftrightarrow>
     key_token t1 \<and> key_token t2 \<and> length body = n \<and> clean body \<and> data = t1 @ t2 @ body"

lemma with_pin_request:
  assumes "pin_request n t1 t2 body data" and "30 \<le> n" and "clean v"
  shows "with_pin h (data @ v) k use =
    rbind (unwrap h t1 k) (\<lambda>pin_key. rbind (unwrap h t2 0) (\<lambda>pvk.
    rbind (pin_of_block (hs_lib h) (take 16 body) (take 12 (drop 18 body)) pin_key (pin_fmt (take 2 (drop 16 body)))) (\<lambda>pin.
      if pin = [] then Inr (ERR_INVALID_DATA, []) else use pin (take 12 (drop 18 body)) pvk (drop 30 body @ v))))"
proof -
  have c: "key_token t1" "key_token t2" "length body = n" "clean body" "data = t1 @ t2 @ body"
    using assms(1) by (auto simp: pin_request_def)
  have "trim_trailer (t1 @ t2 @ body @ v) = t1 @ t2 @ body @ v"
    using c assms(3) by (intro trim_clean) (simp add: key_token_def)
  moreover have "take 16 (body @ v) = take 16 body" "take 2 (drop 16 (body @ v)) = take 2 (drop 16 body)"
    "take 12 (drop 18 (body @ v)) = take 12 (drop 18 body)" "drop 30 (body @ v) = drop 30 body @ v"
    using c(3) assms(2) by simp_all
  ultimately show ?thesis
    by (simp add: with_pin_def c(5) read_token [OF c(1)] read_token [OF c(2)] pin_fields_def del: take_append drop_append cong: if_cong)
qed

lemma pvv_digits: "pvv cl pan pin pvki key = Inr v \<Longrightarrow> length v \<le> 4 \<and> (\<forall>c \<in> set v. is_dec c)"
  by (auto simp: pvv_def result_iff Let_def hex_upper_is_upper dest!: in_set_takeD split: if_splits
      dest: digits_then_letters_dec [rule_format, rotated])

definition pvv_request :: "hsm \<Rightarrow> ustr \<Rightarrow> bool" where
  "pvv_request h data \<longleftrightarrow> (\<exists>t1 t2 body. pin_request 31 t1 t2 body data)"

interpretation pin_pvv: generate_verify cmd_JA cmd_EC append pvv_request
proof unfold_locales
  fix h data v
  assume "pvv_request h data" and g: "cmd_JA h data = Inr (ERR_OK, v)"
  then obtain t1 t2 body where r: "pin_request 31 t1 t2 body data" unfolding pvv_request_def by blast
  have l: "length (drop 30 body) = 1" using r by (simp add: pin_request_def)
  have ne: "ERR_INVALID_DATA \<noteq> ERR_OK" by (simp add: ERR_OK_def ERR_INVALID_DATA_def u_def)
  obtain pk pvk pin where k: "unwrap h t1 0 = Inr pk" "unwrap h t2 0 = Inr pvk"
    "pin_of_block (hs_lib h) (take 16 body) (take 12 (drop 18 body)) pk (pin_fmt (take 2 (drop 16 body))) = Inr pin"
    "pin \<noteq> []" "pvv (hs_lib h) (take 12 (drop 18 body)) pin (take 1 (drop 30 body)) pvk = Inr v"
    using g with_pin_request [OF r, of "[]"] ne by (auto simp: cmd_JA_def clean_def result_iff split: if_splits)
  have v: "length v \<le> 4" "clean v" using pvv_digits [OF k(5)] clean_dec by blast+
  have s: "take 1 (drop 30 body @ v) = take 1 (drop 30 body)" "take 4 (drop 1 (drop 30 body @ v)) = v" using l v(1) by simp_all
  show "cmd_EC h (data @ v) = Inr (ERR_OK, [])"
    using with_pin_request [OF r _ v(2)]
    by (simp add: cmd_EC_def s k verdict_def del: One_nat_def take_append drop_append)
qed

text \<open>The offset is of the digits of the PIN; without any there is no offset that verifies.\<close>

lemma offset_of_digits:
  assumes "invertible cl" and "list_all is_dec validation_data" and "length (digits_in pin) \<le> 16" and "off \<noteq> []"
    and "ibm3624_offset cl validation_data key pin table = Inr (off, natural)" and "\<forall>c \<in> set pin. is_upper_hex c"
  shows "\<exists>derived. ibm3624_verify cl validation_data key off pin table = Inr (derived, True)"
proof -
  have d: "\<forall>c \<in> set (digits_in pin). is_dec c"
    using assms(6) by (auto simp: digits_in_def py_isdigit_char_def is_upper_hex_def is_dec_def)
  then have dd: "digits_in (digits_in pin) = digits_in pin" by (rule digits_in_dec)
  have o: "ibm3624_offset cl validation_data key (digits_in pin) table = Inr (off, natural)"
    using assms(5) by (simp add: ibm3624_offset_def dd)
  have ne: "digits_in pin \<noteq> []"
    using assms(4,5) by (auto simp: ibm3624_offset_def result_iff Let_def)
  have "ibm3624_verify cl validation_data key off (digits_in pin) table = Inr (digits_in pin, True)"
    by (rule offset_verifies [OF assms(1,2) _ _ assms(3) o]) (use d ne in \<open>simp_all add: list_all_iff\<close>)
  then show ?thesis by (auto simp: ibm3624_verify_def dd)
qed

lemma slice_of_hex: "n \<le> 16 \<Longrightarrow> \<forall>c \<in> set f. is_upper_hex c \<Longrightarrow> length (take n (drop 2 f)) \<le> 16 \<and> (\<forall>c \<in> set (take n (drop 2 f)). is_upper_hex c)"
  by (auto dest: in_set_takeD in_set_dropD)

lemma pin_of_field_hex:
  assumes "\<forall>c \<in> set f. is_upper_hex c"
  shows "length (pin_of_field f) \<le> 16 \<and> (\<forall>c \<in> set (pin_of_field f). is_upper_hex c)"
proof (cases "length f < 2 \<or> hexval (f ! 1) = None")
  case True
  then show ?thesis by (auto simp: pin_of_field_def)
next
  case False
  then obtain n where n: "hexval (f ! 1) = Some n" by blast
  then have "n \<le> 16" using hexval_less less_imp_le by blast
  then show ?thesis using slice_of_hex [OF _ assms] False n by (simp add: pin_of_field_def)
qed

lemma iso4_pin_hex:
  assumes "\<forall>c \<in> set f. is_upper_hex c"
  shows "length (iso4_pin_of_field f) \<le> 16 \<and> (\<forall>c \<in> set (iso4_pin_of_field f). is_upper_hex c)"
proof (cases "iso4_pin_of_field f = []")
  case False
  define b where "b \<longleftrightarrow> take 1 f = u ''4'' \<and> 2 \<le> length f"
  have e: "iso4_pin_of_field f =
      (if b then case hexval (f ! 1) of Some n \<Rightarrow> if 4 \<le> n \<and> n \<le> 12 then take n (drop 2 f) else [] | None \<Rightarrow> [] else [])"
    by (simp add: iso4_pin_of_field_def b_def)
  then obtain n where n: "hexval (f ! 1) = Some n" using False by (cases b; cases "hexval (f ! 1)") simp_all
  then have "n \<le> 12 \<and> iso4_pin_of_field f = take n (drop 2 f)" using False e by (cases b) (simp_all split: if_splits)
  then show ?thesis using slice_of_hex [of n, OF _ assms] by simp
qed simp

lemma pin_of_block_hex:
  assumes "pin_of_block cl block pan key fmt = Inr pin"
  shows "length pin \<le> 16 \<and> (\<forall>c \<in> set pin. is_upper_hex c)"
proof (cases "fmt = ''4''")
  case True
  then obtain f where "pin = iso4_pin_of_field (hex_upper f)"
    using assms by (auto simp: pin_of_block_def pin_block_iso4_decode_def result_iff)
  then show ?thesis using iso4_pin_hex [of "hex_upper f"] hex_upper_is_upper by blast
next
  case False
  then obtain f where "pin = pin_of_field (hex_upper f)"
    using assms by (auto simp: pin_of_block_def pin_block_decode_def result_iff)
  then show ?thesis using pin_of_field_hex [of "hex_upper f"] hex_upper_is_upper by blast
qed

definition offset_request :: "hsm \<Rightarrow> ustr \<Rightarrow> bool" where
  "offset_request h data \<longleftrightarrow> invertible (hs_lib h) \<and>
     (\<exists>t1 t2 body. pin_request 62 t1 t2 body data \<and> list_all is_dec (take 16 (drop 46 body)) \<and>
        cmd_DE h data \<noteq> Inr (ERR_OK, []))"

lemma keytype_002: "variant_for_keytype (u ''002'') = 0" "variant_for_keytype (u ''001'') = 0"
  "variant_for_keytype (u ''000'') = 0"
  by code_simp+

interpretation pin_offset: generate_verify cmd_DE cmd_BA append offset_request
proof unfold_locales
  fix h data v
  assume "offset_request h data" and g: "cmd_DE h data = Inr (ERR_OK, v)"
  then obtain t1 t2 body where c: "invertible (hs_lib h)" "pin_request 62 t1 t2 body data"
    "list_all is_dec (take 16 (drop 46 body))" "v \<noteq> []"
    unfolding offset_request_def by auto
  have l: "length (drop 30 body) = 32" using c(2) by (simp add: pin_request_def)
  have ne: "ERR_INVALID_DATA \<noteq> ERR_OK" by (simp add: ERR_OK_def ERR_INVALID_DATA_def u_def)
  have v46: "take 16 (drop 16 (drop 30 body)) = take 16 (drop 46 body)" by simp
  obtain pk pvk pin natural where k: "unwrap h t1 0 = Inr pk" "unwrap h t2 0 = Inr pvk"
    "pin_of_block (hs_lib h) (take 16 body) (take 12 (drop 18 body)) pk (pin_fmt (take 2 (drop 16 body))) = Inr pin"
    "pin \<noteq> []" "ibm3624_offset (hs_lib h) (take 16 (drop 46 body)) pvk pin (take 16 (drop 30 body)) = Inr (v, natural)"
    using g with_pin_request [OF c(2), of "[]"] ne by (auto simp: cmd_DE_def clean_def result_iff split: if_splits)
  have "length (digits_in pin) \<le> 16"
    using pin_of_block_hex [OF k(3)] length_filter_le [of py_isdigit_char pin] unfolding digits_in_def by linarith
  then obtain derived where o: "ibm3624_verify (hs_lib h) (take 16 (drop 46 body)) pvk v pin (take 16 (drop 30 body)) = Inr (derived, True)"
    using offset_of_digits [OF c(1,3) _ c(4) k(5)] pin_of_block_hex [OF k(3)] by blast
  have "clean v"
    using k(5) digitwise_length clean_dec by (fastforce simp: ibm3624_offset_def result_iff Let_def)
  moreover have "take 16 (drop 30 body @ v) = take 16 (drop 30 body)" "drop 32 (drop 30 body @ v) = v"
    "take 16 (drop 16 (drop 30 body @ v)) = take 16 (drop 46 body)"
    using l by simp_all
  ultimately show "cmd_BA h (data @ v) = Inr (ERR_OK, [])"
    using with_pin_request [OF c(2), of v]
    by (simp add: cmd_BA_def ibm_pin_verify_layout_def keytype_002 k o verdict_def del: take_append drop_append)
qed

section \<open>Through the client\<close>

lemma kv_other: "n \<notin> set ns \<Longrightarrow> kv ((n, v) # p) ns d = kv p ns d"
  by (induction ns) (auto split: option.splits)

lemma kv_same: "v \<noteq> [] \<Longrightarrow> kv ((n, v) # p) [n] d = v"
  by simp

lemma kv_first: "kv p [n] [] \<noteq> [] \<Longrightarrow> kv p [n, n'] [] = kv p [n] []"
  by (auto split: option.splits)

declare kv.simps [simp del]

text \<open>The actions that generate a value, those that verify it, and the parameter it is passed in.\<close>

definition value_actions :: "(string \<times> string \<times> string) list" where
  "value_actions =
     [(''generate_cvv'', ''verify_cvv'', ''cvv''), (''generate_mac'', ''verify_mac'', ''mac''),
      (''generate_pvv'', ''verify_pin_pvv'', ''pvv''), (''generate_pin_offset'', ''verify_pin_ibm'', ''offset'')]"

definition block_request :: "payload \<Rightarrow> string \<Rightarrow> bool" where
  "block_request p key \<longleftrightarrow> key_token (kv p [key] []) \<and> key_token (kv p [''pvk''] []) \<and> length (kv p [''pin_block''] []) = 16 \<and>
     length (kv p [''format''] (u ''01'')) = 2 \<and> length (kv p [''pan''] []) = 12 \<and>
     clean (kv p [''pin_block''] [] @ kv p [''format''] (u ''01'') @ kv p [''pan''] [])"

text \<open>Parameters of the widths the command expects.\<close>

definition good_request :: "string \<Rightarrow> payload \<Rightarrow> bool" where
  "good_request action p \<longleftrightarrow>
     (if action = ''generate_cvv''
      then key_token (kv p [''cvk''] []) \<and> list_all is_dec (kv p [''pan''] [] @ kv p [''expiry''] [] @ kv p [''service_code''] (u ''000''))
      else if action = ''generate_mac'' then key_token (kv p [''key''] []) \<and> clean (kv p [''message'', ''data''] [])
      else if action = ''generate_pvv''
      then block_request p ''zpk'' \<and> length (kv p [''pvki''] (u ''1'')) = 1 \<and> clean (kv p [''pvki''] (u ''1''))
      else block_request p ''tpk'' \<and> length (kv p [''dec_table''] (u ''0123456789012345'')) = 16 \<and>
        clean (kv p [''dec_table''] (u ''0123456789012345'')) \<and> length (kv p [''validation_data''] []) = 16 \<and>
        list_all is_dec (kv p [''validation_data''] []))"

lemma commands_of_values:
  "map_of COMMANDS (u ''CW'') = Some cmd_CW" "map_of COMMANDS (u ''CY'') = Some cmd_CY" "map_of COMMANDS (u ''M6'') = Some cmd_M6"
  "map_of COMMANDS (u ''M8'') = Some cmd_M8" "map_of COMMANDS (u ''JA'') = Some cmd_JA" "map_of COMMANDS (u ''EC'') = Some cmd_EC"
  "map_of COMMANDS (u ''DE'') = Some cmd_DE" "map_of COMMANDS (u ''BA'') = Some cmd_BA"
  by (simp_all add: COMMANDS_def u_def)

lemma exchange_builder:
  "map_of BUILDERS action = Some b \<Longrightarrow> exchange hb m h action p = Inr (parse_reply hb (hsm_serve hb m (h @ fst (b p) @ snd (b p))))"
  by (simp add: exchange_def command_of_def split_beta)

lemma builders_of_values:
  "map_of BUILDERS ''generate_cvv'' = Some b_generate_cvv" "map_of BUILDERS ''verify_cvv'' = Some b_verify_cvv"
  "map_of BUILDERS ''generate_mac'' = Some b_generate_mac" "map_of BUILDERS ''verify_mac'' = Some b_verify_mac"
  "map_of BUILDERS ''generate_pvv'' = Some b_generate_pvv" "map_of BUILDERS ''verify_pin_pvv'' = Some b_verify_pin_pvv"
  "map_of BUILDERS ''generate_pin_offset'' = Some b_generate_pin_offset" "map_of BUILDERS ''verify_pin_ibm'' = Some b_verify_pin_ibm"
  by (simp_all add: BUILDERS_def)

lemma length_u: "length (u s) = length s"
  by (simp add: u_def)

lemma verify_card:
  assumes "invertible (hs_lib m)" and "hs_overrides m = []" and "hs_disabled m = []" and "length h1 = hb" and "length h2 = hb"
    and "good_request ''generate_cvv'' p" and "exchange hb m h1 ''generate_cvv'' p = Inr r" and "hr_ok r" and "hr_data r \<noteq> []"
  shows "\<exists>r'. exchange hb m h2 ''verify_cvv'' ((''cvv'', hr_data r) # p) = Inr r' \<and> hr_ok r'"
proof -
  have g: "key_token (kv p [''cvk''] [])"
    "list_all is_dec (kv p [''pan''] [] @ kv p [''expiry''] [] @ kv p [''service_code''] (u ''000''))"
    using assms(6) by (simp_all add: good_request_def)
  have r: "r = parse_reply hb (hsm_serve hb m (h1 @ u ''CW'' @ kv p [''cvk''] [] @ card_fields p))"
    using assms(7) exchange_builder [OF builders_of_values(1)] by (simp add: b_generate_cvv_def)
  have s: "card_request m (kv p [''cvk''] [] @ card_fields p)"
    using assms(1) g unfolding card_request_def card_fields_def by blast
  have d: "after_key (kv p [''cvk''] [] @ card_fields p) v = kv p [''cvk''] [] @ v @ card_fields p" for v
    by (simp add: after_key_def read_token [OF g(1)])
  have "hr_ok (parse_reply hb (hsm_serve hb m (h2 @ u ''CY'' @ after_key (kv p [''cvk''] [] @ card_fields p) (hr_data r))))"
    by (rule card.on_the_wire [OF commands_of_values(1,2) _ _ assms(4,5,2) _ s]) (use assms(3,8) r in \<open>simp_all add: length_u\<close>)
  moreover have "card_fields ((''cvv'', hr_data r) # p) = card_fields p" by (simp add: card_fields_def kv_other)
  ultimately show ?thesis
    using exchange_builder [OF builders_of_values(2)] assms(9)
    by (simp add: b_verify_cvv_def d kv_other kv_same)
qed

lemma verify_mac:
  assumes "invertible (hs_lib m)" and "hs_overrides m = []" and "hs_disabled m = []" and "length h1 = hb" and "length h2 = hb"
    and "good_request ''generate_mac'' p" and "exchange hb m h1 ''generate_mac'' p = Inr r" and "hr_ok r" and "hr_data r \<noteq> []"
  shows "\<exists>r'. exchange hb m h2 ''verify_mac'' ((''mac'', hr_data r) # p) = Inr r' \<and> hr_ok r'"
proof -
  define data where "data = kv p [''key''] [] @ kv p [''message'', ''data''] []"
  have r: "r = parse_reply hb (hsm_serve hb m (h1 @ u ''M6'' @ data))"
    using assms(7) exchange_builder [OF builders_of_values(3)] by (simp add: b_generate_mac_def data_def)
  have s: "mac_request m data"
    using assms(1,6) unfolding mac_request_def good_request_def data_def by auto
  have "hr_ok (parse_reply hb (hsm_serve hb m (h2 @ u ''M8'' @ data @ hr_data r)))"
    by (rule mac.on_the_wire [OF commands_of_values(3,4) _ _ assms(4,5,2) _ s]) (use assms(3,8) r in \<open>simp_all add: length_u\<close>)
  then show ?thesis
    using exchange_builder [OF builders_of_values(4)] assms(9)
    by (simp add: b_verify_mac_def data_def kv_other kv_same)
qed

lemma block_request_fields:
  assumes "block_request p key" and "length rest + 30 = n" and "clean rest"
  shows "pin_request n (kv p [key] []) (kv p [''pvk''] [])
    (kv p [''pin_block''] [] @ kv p [''format''] (u ''01'') @ kv p [''pan''] [] @ rest) (block_fields p [key] @ rest)"
  using assms by (auto simp: block_request_def pin_request_def block_fields_def)

lemma verify_pvv:
  assumes "hs_overrides m = []" and "hs_disabled m = []" and "length h1 = hb" and "length h2 = hb"
    and "good_request ''generate_pvv'' p" and "exchange hb m h1 ''generate_pvv'' p = Inr r" and "hr_ok r" and "hr_data r \<noteq> []"
  shows "\<exists>r'. exchange hb m h2 ''verify_pin_pvv'' ((''pvv'', hr_data r) # p) = Inr r' \<and> hr_ok r'"
proof -
  define data where "data = block_fields p [''zpk''] @ kv p [''pvki''] (u ''1'')"
  have r: "r = parse_reply hb (hsm_serve hb m (h1 @ u ''JA'' @ data))"
    using assms(6) exchange_builder [OF builders_of_values(5)] by (simp add: b_generate_pvv_def data_def)
  have g: "block_request p ''zpk''" "length (kv p [''pvki''] (u ''1'')) = 1" "clean (kv p [''pvki''] (u ''1''))"
    using assms(5) by (simp_all add: good_request_def)
  have s: "pvv_request m data"
    unfolding pvv_request_def data_def using block_request_fields [OF g(1) _ g(3), of 31] g(2) by auto
  have "hr_ok (parse_reply hb (hsm_serve hb m (h2 @ u ''EC'' @ data @ hr_data r)))"
    by (rule pin_pvv.on_the_wire [OF commands_of_values(5,6) _ _ assms(3,4,1) _ s]) (use assms(2,7) r in \<open>simp_all add: length_u\<close>)
  then show ?thesis
    using exchange_builder [OF builders_of_values(6)] assms(8)
    by (simp add: b_verify_pin_pvv_def block_fields_def data_def kv_other kv_same)
qed

lemma verify_offset:
  assumes "invertible (hs_lib m)" and "hs_overrides m = []" and "hs_disabled m = []" and "length h1 = hb" and "length h2 = hb"
    and "good_request ''generate_pin_offset'' p" and "exchange hb m h1 ''generate_pin_offset'' p = Inr r" and "hr_ok r"
    and "hr_data r \<noteq> []"
  shows "\<exists>r'. exchange hb m h2 ''verify_pin_ibm'' ((''offset'', hr_data r) # p) = Inr r' \<and> hr_ok r'"
proof -
  define data where "data = block_fields p [''tpk''] @ ibm_fields p"
  have r: "r = parse_reply hb (hsm_serve hb m (h1 @ u ''DE'' @ data))"
    using assms(7) exchange_builder [OF builders_of_values(7)] by (simp add: b_generate_pin_offset_def data_def)
  have g: "block_request p ''tpk''" "length (kv p [''dec_table''] (u ''0123456789012345'')) = 16"
    "clean (kv p [''dec_table''] (u ''0123456789012345''))" "length (kv p [''validation_data''] []) = 16"
    "list_all is_dec (kv p [''validation_data''] [])"
    using assms(6) by (simp_all add: good_request_def)
  have c: "clean (ibm_fields p)" using g(3,5) clean_dec by (simp add: ibm_fields_def list_all_iff)
  define body where "body = kv p [''pin_block''] [] @ kv p [''format''] (u ''01'') @ kv p [''pan''] [] @ ibm_fields p"
  have q: "pin_request 62 (kv p [''tpk''] []) (kv p [''pvk''] []) body data"
    unfolding data_def body_def by (rule block_request_fields [OF g(1) _ c]) (simp add: ibm_fields_def g(2,4))
  have v: "take 16 (drop 46 body) = kv p [''validation_data''] []"
    using g(1,2,4) by (simp add: body_def block_request_def ibm_fields_def)
  have w: "hsm_dispatch m (u ''DE'') data \<noteq> (ERR_OK, [])"
    using r assms(8,9) parse_serve [OF assms(2,4), of "u ''DE''" data] by (auto simp: length_u)
  then have "cmd_DE m data \<noteq> Inr (ERR_OK, [])"
    using assms(2,3) commands_of_values(7) by (auto simp: hsm_dispatch_def)
  then have s: "offset_request m data" using assms(1) q v g(5) unfolding offset_request_def by metis
  have "hr_ok (parse_reply hb (hsm_serve hb m (h2 @ u ''BA'' @ data @ hr_data r)))"
    by (rule pin_offset.on_the_wire [OF commands_of_values(7,8) _ _ assms(4,5,2) _ s]) (use assms(3,8) r in \<open>simp_all add: length_u\<close>)
  moreover have "kv p [''tpk'', ''pin_key''] [] = kv p [''tpk''] []"
    by (rule kv_first) (use g(1) in \<open>simp add: block_request_def key_token_def\<close>)
  ultimately show ?thesis
    using exchange_builder [OF builders_of_values(8)] assms(9)
    by (simp add: b_verify_pin_ibm_def block_fields_def ibm_fields_def data_def kv_other kv_same)
qed


section \<open>Moving PIN blocks and keys\<close>

lemma tail_fields:
  assumes "length sf = 2" and "length df = 2" and "length pan = 12"
  shows "split_translate_tail (block @ sf @ df @ pan) = (sf, df, block, pan)"
proof -
  have "py_slice (- 16) (- 14) (block @ sf @ df @ pan) = sf" "py_slice (- 14) (- 12) (block @ sf @ df @ pan) = df"
    "slice_to (- 16) (block @ sf @ df @ pan) = block"
    using assms by (simp_all add: py_slice_def clip_def slice_to_def)
  moreover have "last_n 12 (block @ sf @ df @ pan) = pan"
    using last_n_append [of pan 12 "block @ sf @ df"] assms by simp
  ultimately show ?thesis by (simp add: split_translate_tail_def)
qed

lemma block_is_read:
  assumes "invertible cl" and "list_all is_dec pin" and "length pin \<le> 14" and "list_all is_upper_hex fill" and "16 \<le> length fill"
    and "fmt \<noteq> ''4''" and "block_of_pin cl fill pin pan key fmt = Inr block"
  shows "pin_of_block cl block pan key fmt = Inr pin \<and> length block = 16"
proof -
  obtain clear where e: "pin_block_encode cl fill pin pan key fmt = Inr (clear, block)"
    using assms(6,7) by (auto simp: block_of_pin_def result_iff)
  have "length block = 16"
  proof -
    obtain field x k enc where f: "pin_field fill pin fmt = Inr field" "with_pan fmt pan field = Inr x" "hx key = Inr k"
      "ecb cl k True x = Inr enc" "block = hex_upper enc"
      using e by (auto simp: pin_block_encode_def result_iff)
    have "length field = 8" using pin_field_read(1) [OF f(1) assms(2-5)] by simp
    then have "length x = 8" using f(2) pan_field_length by (auto simp: with_pan_def result_iff split: if_splits)
    then show ?thesis using f(4,5) ecb_length [OF assms(1)] by fastforce
  qed
  then show ?thesis
    using pin_block_decode_block [OF assms(1-5) e] assms(6) by (simp add: pin_of_block_def)
qed

lemma action_served:
  assumes "hs_overrides m = []" and "hs_disabled m = []" and "length h = hb" and "map_of BUILDERS action = Some b"
    and "length (fst (b p)) = 2" and "map_of COMMANDS (fst (b p)) = Some f"
    and "exchange hb m h action p = Inr r" and "hr_ok r"
  shows "f m (snd (b p)) = Inr (ERR_OK, hr_data r)"
proof -
  have "ERR_OK \<noteq> ERR_INVALID_DATA" by (simp add: ERR_OK_def ERR_INVALID_DATA_def u_def)
  moreover have "hsm_dispatch m (fst (b p)) (snd (b p)) = (ERR_OK, hr_data r)"
    using assms(7,8) parse_serve [OF assms(1,3,5)] exchange_builder [OF assms(4)] by (auto simp: prod_eq_iff)
  ultimately show ?thesis using assms(1,2,6) by (auto simp: hsm_dispatch_def split: sum.splits)
qed


text \<open>A key wrapped under the master key is unwrapped again.\<close>

lemma strip_upper_hex:
  assumes "\<not> is_ws c" and "\<forall>x \<in> set s. is_upper_hex x"
  shows "strip (c # s) = c # s"
proof (rule strip_id)
  have "\<forall>x \<in> set (c # s). \<not> is_ws x" using assms upper_hex_not_ws by auto
  then show "\<not> is_ws (last (c # s))" using last_in_set by blast
qed (use assms in simp_all)

lemma des_back:
  assumes "invertible cl" and "des_tool cl k (hex_upper x) ''encrypt'' ''ecb'' [] = Inr c"
  shows "des_tool cl k c ''decrypt'' ''ecb'' [] = Inr (hex_upper x) \<and> length c = 2 * length x \<and> (\<forall>d \<in> set c. is_upper_hex d)"
proof -
  obtain key y where e: "hx k = Inr key" "cl_ecb cl (if length key = 8 then DES else DES3) True key x = Inr y" "c = hex_upper y"
    using assms(2) by (auto simp: des_tool_def cipher_op_def iv_or_zeros_def result_iff)
  have "cl_ecb cl (if length key = 8 then DES else DES3) False key y = Inr x" "length y = length x"
    using invertibleD [OF assms(1) e(2)] by blast+
  then show ?thesis using e hex_upper_is_upper by (simp add: des_tool_def cipher_op_def iv_or_zeros_def)
qed

lemma scheme_not_ws: "s \<in> fst ` set SCHEME_BYTES \<Longrightarrow> \<not> is_ws s"
  by (auto simp: SCHEME_BYTES_def is_ws_def)

lemma wrapped_key_unwraps:
  assumes "invertible cl" and "wrap_key cl l (hex_upper x) (Some s) v = Inr t" and "s \<in> fst ` set SCHEME_BYTES"
  shows "unwrap_key cl l t v = Inr (hex_upper x) \<and> (\<exists>c. t = s # c \<and> length c = 2 * length x \<and> (\<forall>d \<in> set c. is_upper_hex d))"
proof -
  have up: "py_upper (hex_upper x) = hex_upper x" by (rule py_upper_upper_hex) (use hex_upper_is_upper in blast)
  obtain k c where e: "variant_lmk l v = Inr k" "des_tool cl k (hex_upper x) ''encrypt'' ''ecb'' [] = Inr c" "t = s # c"
    using assms(2) by (auto simp: wrap_key_def up result_iff Let_def)
  note b = des_back [OF assms(1) e(2)]
  have "strip t = t" using strip_upper_hex [OF scheme_not_ws [OF assms(3)]] b e(3) by blast
  then have "unwrap_key cl l t v = Inr (hex_upper x)" using e b assms(3) by (simp add: unwrap_key_def untagged_def)
  then show ?thesis using e(3) b by blast
qed

lemma unwrap_hex: "unwrap_key cl l t v = Inr clear \<Longrightarrow> \<exists>x. clear = hex_upper x"
  by (auto simp: unwrap_key_def des_tool_def cipher_op_def result_iff)

lemma kcv6_length: "invertible cl \<Longrightarrow> kcv6 cl key = Inr k \<Longrightarrow> length k = 6 \<and> (\<forall>c \<in> set k. is_upper_hex c)"
  by (auto simp: kcv6_def kcv_def result_iff zeros_def hex_upper_is_upper dest!: ecb_length in_set_takeD)

definition DES_SCHEMES :: ustr where
  "DES_SCHEMES = u ''UXTYZ''"

lemma des_schemes: "s \<in> set DES_SCHEMES \<Longrightarrow> s \<in> fst ` set SCHEME_BYTES \<and> \<not> is_ws s \<and> clean [s] \<and> s \<in> set (u ''UXTYZ'')"
  by (auto simp: DES_SCHEMES_def u_def SCHEME_BYTES_def is_ws_def clean_def)

lemma length_2_kt: "length kt = 3 \<Longrightarrow> take 3 (kt @ s) = kt \<and> drop 3 (kt @ s) = s"
  by simp

lemma exported_form:
  assumes "invertible (hs_lib m)" and "length kt = 3" and "clean kt" and "key_token key" and "key_token kek" and "s \<in> set DES_SCHEMES"
    and "unwrap m key (variant_for_keytype kt) = Inr (hex_upper x)" and "cmd_K8 m (kt @ key @ kek @ [s]) = Inr (ERR_OK, d)"
  obtains kk enc check where "unwrap m kek 0 = Inr kk" and "des_tool (hs_lib m) kk (hex_upper x) ''encrypt'' ''ecb'' [] = Inr enc"
    and "kcv6 (hs_lib m) (hex_upper x) = Inr check" and "d = s # enc @ check"
proof -
  note s = des_schemes [OF assms(6)]
  have "trim_trailer (kt @ key @ kek @ [s]) = kt @ key @ kek @ [s]"
    using assms(3-5) s by (intro trim_clean) (simp add: key_token_def)
  moreover have "scheme_or 88 [s] = s" using s by (simp add: scheme_or_def)
  ultimately show thesis
    using assms(7,8) that
    by (auto simp: cmd_K8_def length_2_kt [OF assms(2)] read_token [OF assms(4)] read_token [OF assms(5)] keytype_002
        result_iff Let_def simp del: take_append drop_append)
qed

lemma imported_form:
  assumes "length kt = 3" and "clean kt" and "key_token kek" and "key_token (s # enc)" and "s \<in> set DES_SCHEMES"
    and "unwrap m kek 0 = Inr kk" and "des_tool (hs_lib m) kk enc ''decrypt'' ''ecb'' [] = Inr clear"
    and "cmd_A6 m (kt @ kek @ (s # enc) @ [s]) = Inr (ERR_OK, d)"
  obtains token check where "wrap_key (hs_lib m) (hs_lmk m) clear (Some s) (variant_for_keytype kt) = Inr token"
    and "kcv6 (hs_lib m) clear = Inr check" and "d = token @ check"
proof -
  note s = des_schemes [OF assms(5)]
  have "trim_trailer (kt @ kek @ (s # enc) @ [s]) = kt @ kek @ (s # enc) @ [s]"
    using assms(2-4) s by (intro trim_clean) (simp add: key_token_def del: append_Cons)
  moreover have "scheme_or 85 [s] = s" using s by (simp add: scheme_or_def)
  moreover have "read_key_field ((s # enc) @ [s]) = (s # enc, [s])" by (rule read_token [OF assms(4)])
  ultimately show thesis
    using assms(6-8) s that
    by (auto simp: cmd_A6_def length_2_kt [OF assms(1)] read_token [OF assms(3)] keytype_002 result_iff Let_def
        simp del: take_append drop_append append_Cons)
qed

text \<open>A key exported under another key and imported again is the same key, with the same check value, if the scheme of the
  export has the width of the key.\<close>

theorem exported_key_is_imported:
  assumes "invertible (hs_lib m)" and "hs_overrides m = []" and "hs_disabled m = []" and "length h1 = hb" and "length h2 = hb"
    and "length kt = 3" and "clean kt" and "key_token key" and "key_token kek" and "s \<in> set DES_SCHEMES"
    and "unwrap m key (variant_for_keytype kt) = Inr clear" and "Suc (length clear) = key_width [s]"
    and "exchange hb m h1 ''export_key'' [(''key_type'', kt), (''key'', key), (''kek'', kek), (''scheme'', [s])] = Inr r"
    and "hr_ok r" and "exported = slice_to (- 6) (hr_data r)"
    and "exchange hb m h2 ''import_key'' [(''key_type'', kt), (''zmk'', kek), (''key'', exported), (''scheme'', [s])] = Inr r'"
    and "hr_ok r'"
  shows "\<exists>token. map_of (parse_action_result ''import_key'' (hr_data r')) ''key'' = Some token \<and>
    map_of (parse_action_result ''import_key'' (hr_data r')) ''kcv'' = Some (last_n 6 (hr_data r)) \<and>
    unwrap m token (variant_for_keytype kt) = Inr clear"
proof -
  have ne: "kt \<noteq> []" "key \<noteq> []" "kek \<noteq> []" using assms(6,8,9) by (auto simp: key_token_def)
  note s = des_schemes [OF assms(10)]
  obtain x where x: "clear = hex_upper x" using assms(11) unwrap_hex unfolding unwrap_def by blast
  define p1 where "p1 = [(''key_type'', kt), (''key'', key), (''kek'', kek), (''scheme'', [s])]"
  have b1: "b_export_key p1 = (u ''K8'', kt @ key @ kek @ [s])" using ne by (simp add: b_export_key_def kv.simps p1_def)
  have "cmd_K8 m (snd (b_export_key p1)) = Inr (ERR_OK, hr_data r)"
    by (rule action_served [OF assms(2-4) _ _ _ assms(13) [folded p1_def] assms(14)])
      (simp_all add: BUILDERS_def COMMANDS_def b1 u_def)
  then have k8: "cmd_K8 m (kt @ key @ kek @ [s]) = Inr (ERR_OK, hr_data r)" by (simp add: b1)
  obtain kk enc check where e: "unwrap m kek 0 = Inr kk" "des_tool (hs_lib m) kk (hex_upper x) ''encrypt'' ''ecb'' [] = Inr enc"
    "kcv6 (hs_lib m) (hex_upper x) = Inr check" "hr_data r = s # enc @ check"
    by (rule exported_form [OF assms(1,6-10) assms(11) [unfolded x] k8])
  note b = des_back [OF assms(1) e(2)]
  note k = kcv6_length [OF assms(1) e(3)]
  have ex: "exported = s # enc" "last_n 6 (hr_data r) = check"
    using slice_to_neg_append [of check "s # enc"] last_n_append [of check 6 "s # enc"] k assms(15) e(4) by simp_all
  have tok: "key_token (s # enc)"
    using b s assms(12) clean_upper_hex [of enc] by (simp add: key_token_def x key_width_def clean_def)
  define p2 where "p2 = [(''key_type'', kt), (''zmk'', kek), (''key'', exported), (''scheme'', [s])]"
  have b2: "b_import_key p2 = (u ''A6'', kt @ kek @ (s # enc) @ [s])"
    using ne by (simp add: b_import_key_def kv.simps p2_def ex(1))
  have "cmd_A6 m (snd (b_import_key p2)) = Inr (ERR_OK, hr_data r')"
    by (rule action_served [OF assms(2,3,5) _ _ _ assms(16) [folded p2_def] assms(17)])
      (simp_all add: BUILDERS_def COMMANDS_def b2 u_def)
  then have a6: "cmd_A6 m (kt @ kek @ (s # enc) @ [s]) = Inr (ERR_OK, hr_data r')" by (simp add: b2)
  obtain token check' where "wrap_key (hs_lib m) (hs_lmk m) (hex_upper x) (Some s) (variant_for_keytype kt) = Inr token"
    "kcv6 (hs_lib m) (hex_upper x) = Inr check'" "hr_data r' = token @ check'"
    by (rule imported_form [OF assms(6,7,9) tok assms(10) e(1) conjunct1 [OF b] a6])
  then have t: "wrap_key (hs_lib m) (hs_lmk m) (hex_upper x) (Some s) (variant_for_keytype kt) = Inr token"
    "hr_data r' = token @ check" using e(3) by simp_all
  note w = wrapped_key_unwraps [OF assms(1) t(1)]
  have "slice_to (- 6) (hr_data r') = token" "last_n 6 (hr_data r') = check" "6 < length (hr_data r')"
    using slice_to_neg_append [of check token] last_n_append [of check 6 token] k t(2) w s by auto
  then show ?thesis
    using w s ex(2) by (simp add: parse_action_result_def unwrap_def x)
qed

section \<open>Applications\<close>

definition demo_hsm :: hsm where
  "demo_hsm =
     \<lparr>hs_lib = plain_lib, hs_fill = u ''ABCDEFABCDEFABCD'', hs_raw = zeros 32, hs_lmk = TestLmk None False,
      hs_firmware = u ''0007-E000'', hs_overrides = [], hs_disabled = [], hs_pci = True\<rparr>"

definition demo_key :: ustr where
  "demo_key = u ''U0123456789ABCDEFFEDCBA9876543210''"

lemma demo_key_token: "key_token demo_key" by code_simp

lemma demo_hsm_fields: "invertible (hs_lib demo_hsm)" "hs_overrides demo_hsm = []" "hs_disabled demo_hsm = []"
  using plain_lib_invertible by (simp_all add: demo_hsm_def)

definition demo_mac_reply :: hsm_reply where
  "demo_mac_reply =
     \<lparr>hr_header = u ''0001'', hr_response = u ''M7'', hr_error = u ''00'', hr_ok = True, hr_data = u ''48454C4C4F800000''\<rparr>"

lemma demo_mac:
  "exchange 4 demo_hsm (u ''0001'') ''generate_mac'' [(''key'', demo_key), (''message'', u ''HELLO'')] = Inr demo_mac_reply"
  by code_simp


definition demo_clear :: ustr where
  "demo_clear = u ''0123456789ABCDEFFEDCBA9876543210''"

lemma demo_unwrap: "unwrap demo_hsm demo_key 0 = Inr demo_clear" by code_simp

definition demo_reply :: "string \<Rightarrow> string \<Rightarrow> string \<Rightarrow> hsm_reply" where
  "demo_reply header response d =
     \<lparr>hr_header = u header, hr_response = u response, hr_error = u ''00'', hr_ok = True, hr_data = u d\<rparr>"

lemma demo_translation:
  "exchange 4 demo_hsm (u ''0001'') ''translate_pin''
     [(''src_key'', demo_key), (''dst_key'', demo_key), (''pin_block'', u ''041274FFFFFFFFFF''), (''src_format'', u ''05''),
      (''dst_format'', u ''01''), (''pan'', u ''400000123456'')] = Inr (demo_reply ''0001'' ''CB'' ''04041270FFFFFEDCBA'')"
  by code_simp


lemma demo_export:
  "exchange 4 demo_hsm (u ''0001'') ''export_key'' [(''key_type'', u ''001''), (''key'', demo_key), (''kek'', demo_key), (''scheme'', u ''X'')] =
     Inr (demo_reply ''0001'' ''K9'' ''X0123456789ABCDEFFEDCBA9876543210000000'')"
  by code_simp

lemma demo_import:
  "exchange 4 demo_hsm (u ''0002'') ''import_key''
     [(''key_type'', u ''001''), (''zmk'', demo_key), (''key'', u ''X0123456789ABCDEFFEDCBA9876543210''), (''scheme'', u ''X'')] =
     Inr (demo_reply ''0002'' ''A7'' ''X0123456789ABCDEFFEDCBA9876543210000000'')"
  by code_simp

theorem exported_key_is_imported_witness:
  "unwrap demo_hsm (u ''X0123456789ABCDEFFEDCBA9876543210'') 0 = Inr demo_clear"
proof -
  have c: "length (u ''001'') = 3" "clean (u ''001'')" "88 \<in> set DES_SCHEMES" "variant_for_keytype (u ''001'') = 0"
    "Suc (length demo_clear) = key_width [88]" by code_simp+
  have x: "u ''X'' = [88]" by code_simp
  have e: "u ''X0123456789ABCDEFFEDCBA9876543210'' =
      slice_to (- 6) (hr_data (demo_reply ''0001'' ''K9'' ''X0123456789ABCDEFFEDCBA9876543210000000''))" by code_simp
  have "\<exists>token. map_of (parse_action_result ''import_key'' (hr_data (demo_reply ''0002'' ''A7'' ''X0123456789ABCDEFFEDCBA9876543210000000'')))
        ''key'' = Some token \<and>
      map_of (parse_action_result ''import_key'' (hr_data (demo_reply ''0002'' ''A7'' ''X0123456789ABCDEFFEDCBA9876543210000000''))) ''kcv'' =
        Some (last_n 6 (hr_data (demo_reply ''0001'' ''K9'' ''X0123456789ABCDEFFEDCBA9876543210000000''))) \<and>
      unwrap demo_hsm token (variant_for_keytype (u ''001'')) = Inr demo_clear"
    by (rule exported_key_is_imported [OF demo_hsm_fields _ _ c(1,2) demo_key_token demo_key_token c(3) _ c(5)
          demo_export [unfolded x] _ e demo_import [unfolded x]])
      (simp_all add: length_u c(4) demo_unwrap demo_reply_def)
  moreover have "map_of (parse_action_result ''import_key'' (hr_data (demo_reply ''0002'' ''A7'' ''X0123456789ABCDEFFEDCBA9876543210000000'')))
      ''key'' = Some (u ''X0123456789ABCDEFFEDCBA9876543210'')" by code_simp
  ultimately show ?thesis by (simp add: c(4))
qed

definition demo_events :: "pipe_event list" where
  "demo_events =
     [Submit 1 (u ''NO'') (u ''01''), Submit 2 (u ''NO'') (u ''00''), Serve 1, Serve 0, Deliver 0, Deliver 0]"

lemma demo_pipe:
  "pp_got (pipe_run 1 demo_hsm demo_events) = [(1, demo_reply ''1'' ''NP'' ''10000000000''), (2, demo_reply ''2'' ''NP'' ''1101280007-E00000000'')]"
  "pp_sent (pipe_run 1 demo_hsm demo_events) = [(2, u ''NO'', u ''00''), (1, u ''NO'', u ''01'')]"
  by code_simp+

theorem replies_reach_their_caller_witness:
  "\<exists>cmd data. (1, cmd, data) \<in> set (pp_sent (pipe_run 1 demo_hsm demo_events)) \<and>
     hr_response (demo_reply ''1'' ''NP'' ''10000000000'') = response_code cmd \<and>
     (hr_error (demo_reply ''1'' ''NP'' ''10000000000''), hr_data (demo_reply ''1'' ''NP'' ''10000000000'')) = hsm_dispatch demo_hsm cmd data"
proof -
  have n: "list_all (\<lambda>e. \<not> gives_up e) demo_events" by code_simp
  show ?thesis
    by (rule replies_reach_their_caller [OF _ demo_hsm_fields(2) n]) (simp_all add: demo_pipe [unfolded One_nat_def] length_u)
qed

theorem header_is_found_witness: "\<exists>s'. send_command 1 7 (u ''NO'') [] (pipe_run 1 demo_hsm demo_events) = Inr s'"
proof -
  have "length (pp_pending (pipe_run 1 demo_hsm demo_events)) < 10 ^ 1" by code_simp
  then show ?thesis by (rule header_is_found)
qed

section \<open>What the model shows\<close>

text \<open>A block a terminal made for its account is misread by the commands: they take the twelve digits of the account that the
  block was made with, and drop the last of them once more as if it were the check digit.\<close>

theorem terminal_pin_is_misread:
  "\<exists>block. block_of_pin plain_lib [] (u ''123456'') (u ''4000001234567899'') (u ''0123456789ABCDEF'') ''0'' = Inr block \<and>
     pin_of_block plain_lib block (last_n 12 (butlast (u ''4000001234567899''))) (u ''0123456789ABCDEF'') ''0'' = Inr (u ''123457'')"
proof -
  have "block_of_pin plain_lib [] (u ''123456'') (u ''4000001234567899'') (u ''0123456789ABCDEF'') ''0'' = Inr (u ''06123457DCBA9876'')"
    "pin_of_block plain_lib (u ''06123457DCBA9876'') (last_n 12 (butlast (u ''4000001234567899''))) (u ''0123456789ABCDEF'') ''0'' =
      Inr (u ''123457'')"
    by code_simp+
  then show ?thesis by blast
qed

text \<open>What follows a percent sign is not part of a MAC.\<close>

theorem mac_stops_at_percent:
  assumes "key_token t" and "clean m" and "clean x"
  shows "cmd_M6 h (t @ m @ u ''%'' @ x) = cmd_M6 h (t @ m)"
proof -
  have tw: "takeWhile (\<lambda>c. c \<noteq> 25) (t @ m @ u ''%'' @ x) = t @ m @ u ''%'' @ x"
    using assms by (auto simp: key_token_def clean_def takeWhile_eq_all_conv u_def)
  have "dropWhile (\<lambda>c. c \<noteq> 37) (rev x @ 37 # rev (t @ m)) = 37 # rev (t @ m)"
    using assms(3) by (subst dropWhile_append2) (auto simp: clean_def)
  then have "trim_trailer (t @ m @ u ''%'' @ x) = t @ m"
    unfolding trim_trailer_def Let_def tw by (simp add: u_def)
  moreover have "trim_trailer (t @ m) = t @ m" using assms by (intro trim_clean) (simp add: key_token_def)
  ultimately show ?thesis by (simp add: cmd_M6_def)
qed

text \<open>By default the client exports with the tag of a double-length key; a triple-length key comes back cut to the double length.\<close>

theorem triple_key_is_cut:
  "exchange 4 demo_hsm (u ''0001'') ''export_key''
     [(''key'', u ''T0123456789ABCDEFFEDCBA98765432100011223344556677''), (''kek'', demo_key)] =
   Inr (demo_reply ''0001'' ''K9'' ''X0123456789ABCDEFFEDCBA98765432100011223344556677000000'')"
  "exchange 4 demo_hsm (u ''0002'') ''import_key''
     [(''zmk'', demo_key), (''key'', u ''X0123456789ABCDEFFEDCBA98765432100011223344556677'')] =
   Inr (demo_reply ''0002'' ''A7'' ''U0123456789ABCDEFFEDCBA9876543210000000'')"
  by code_simp+

text \<open>The client reads sixteen characters of a translated block, half of one of format 4.\<close>

theorem aes_block_is_cut:
  assumes "length block = 32" and "length n = 2"
  shows "map_of (parse_action_result ''translate_pin'' (n @ block)) ''pin_block'' = Some (take 16 block)"
  using assms by (simp add: parse_action_result_def)

text \<open>A caller that gives up frees its header. When the sequence comes round, the late reply is taken for the answer to
  another command.\<close>

definition late_events :: "pipe_event list" where
  "late_events =
     [Submit 1 (u ''NO'') (u ''01''), Give_Up 1] @ concat (map (\<lambda>c. [Submit c (u ''NO'') (u ''00''), Give_Up c]) [2..<11]) @
     [Submit 11 (u ''NO'') (u ''00''), Serve 0, Deliver 0]"

theorem late_reply_crosses:
  "pp_got (pipe_run 1 demo_hsm late_events) = [(11, demo_reply ''1'' ''NP'' ''10000000000'')] \<and>
   hsm_dispatch demo_hsm (u ''NO'') (u ''00'') = (u ''00'', u ''1101280007-E00000000'')"
proof -
  have "pp_got (pipe_run 1 demo_hsm late_events) = [(11, demo_reply ''1'' ''NP'' ''10000000000'')]" by code_simp
  moreover have "hsm_dispatch demo_hsm (u ''NO'') (u ''00'') = (u ''00'', u ''1101280007-E00000000'')" by code_simp
  ultimately show ?thesis by blast
qed

end
