(* ===== verification/Http_Sim.thy ===== *)
theory Http_Sim
  imports Chaos Adapters "HOL-Library.AList"
begin

text \<open>
  The HTTP responder behind the simulated payment providers (\<open>worker/adapters/http/responder.py\<close>): rules that match a
  request, faults, the reply on the wire and the counters of the live view. How a float, a list or a dictionary
  prints, the search of regular expressions and the random generator are parameters. Texts have code points below
  256. Times and the table of peers are left out; a handler that raises is answered by the web server with an error.
\<close>

section \<open>Requests and rules\<close>

record http_request =
  rq_method :: string
  rq_path :: string
  rq_query :: config
  rq_headers :: config
  rq_body :: pyv
  rq_raw :: string

type_synonym action = config

record py_texts =
  pt_str :: "pyv \<Rightarrow> string"
  pt_float :: "rat \<Rightarrow> string"
  pt_search :: "string \<Rightarrow> string \<Rightarrow> bool result"

text \<open>\<open>_dig\<close>; a superscript is a digit but no number, and raises.\<close>

fun dig_from :: "pyv \<Rightarrow> string list \<Rightarrow> pyv result" where
  "dig_from cur [] = Inr cur"
| "dig_from cur (part # parts) =
     (case cur of
        PDict kvs \<Rightarrow> dig_from (get kvs part PNone) parts
      | PList vs \<Rightarrow>
          if py_isdigit (u part)
          then rbind (py_int (u part)) (\<lambda>i. dig_from (if i < length vs then vs ! i else PNone) parts)
          else Inr PNone
      | _ \<Rightarrow> Inr PNone)"

definition dig_body :: "pyv \<Rightarrow> string \<Rightarrow> pyv result" where
  "dig_body body path = dig_from body (split_char (CHR ''.'') path)"

text \<open>At a fixed path of names.\<close>

definition part_at :: "pyv \<Rightarrow> string \<Rightarrow> pyv" where
  "part_at body path = (case dig_body body path of Inl _ \<Rightarrow> PNone | Inr v \<Rightarrow> v)"

definition num_ge :: "py_texts \<Rightarrow> pyv \<Rightarrow> pyv \<Rightarrow> bool" where
  "num_ge l v bound =
     (case (float_of v, float_of bound) of
        (Inr x, Inr y) \<Rightarrow> y \<le> x
      | _ \<Rightarrow> order_text (pystr (pt_str l) v) (pystr (pt_str l) bound) \<noteq> Less)"

definition num_le :: "py_texts \<Rightarrow> pyv \<Rightarrow> pyv \<Rightarrow> bool" where
  "num_le l v bound =
     (case (float_of v, float_of bound) of
        (Inr x, Inr y) \<Rightarrow> x \<le> y
      | _ \<Rightarrow> order_text (pystr (pt_str l) v) (pystr (pt_str l) bound) \<noteq> Greater)"

text \<open>What \<open>for x in v\<close> runs over.\<close>

fun iterate :: "pyv \<Rightarrow> pyv list result" where
  "iterate (PList vs) = Inr vs"
| "iterate (PStr s) = Inr (map (\<lambda>c. PStr [c]) s)"
| "iterate (PDict kvs) = Inr (map (PStr \<circ> fst) kvs)"
| "iterate _ = Inl TypeError"

fun all_hold :: "(unit \<Rightarrow> bool result) list \<Rightarrow> bool result" where
  "all_hold [] = Inr True"
| "all_hold (t # ts) = rbind (t ()) (\<lambda>b. if b then all_hold ts else Inr False)"

definition match_condition :: "py_texts \<Rightarrow> pyv \<Rightarrow> pyv \<Rightarrow> bool result" where
  "match_condition l value cond =
     (let str = pystr (pt_str l); sval = (if value = PNone then '''' else str value) in
      case cond of
        PDict c \<Rightarrow>
          (let test = (\<lambda>k f (_ :: unit). case map_of c k of None \<Rightarrow> Inr True | Some x \<Rightarrow> f x) in
           all_hold
             [test ''eq'' (\<lambda>x. Inr (sval = str x)),
              test ''prefix'' (\<lambda>x. Inr (prefix (str x) sval)),
              test ''contains'' (\<lambda>x. Inr (sublist (str x) sval)),
              test ''in'' (\<lambda>x. rbind (iterate x) (\<lambda>vs. Inr (sval \<in> set (map str vs)))),
              test ''regex'' (\<lambda>x. pt_search l (str x) sval),
              test ''gte'' (\<lambda>x. Inr (num_ge l value x)),
              test ''lte'' (\<lambda>x. Inr (num_le l value x))])
      | _ \<Rightarrow> Inr (sval = str cond))"

text \<open>\<open>(v or {}).items()\<close>, and \<open>**(v or {})\<close>, which differ in what they raise.\<close>

definition items_or :: "py_error \<Rightarrow> pyv \<Rightarrow> config result" where
  "items_or e v = (if \<not> truthy v then Inr [] else case v of PDict kvs \<Rightarrow> Inr kvs | _ \<Rightarrow> Inl e)"

fun match_items :: "py_texts \<Rightarrow> (string \<Rightarrow> pyv result) \<Rightarrow> config \<Rightarrow> bool result" where
  "match_items l look [] = Inr True"
| "match_items l look ((k, cond) # conds) =
     rbind (look k) (\<lambda>v. rbind (match_condition l v cond) (\<lambda>b. if b then match_items l look conds else Inr False))"

definition matches :: "py_texts \<Rightarrow> config \<Rightarrow> http_request \<Rightarrow> bool result" where
  "matches l cond rq =
     (let line = (\<lambda>k v (_ :: unit). case map_of cond k of None \<Rightarrow> Inr True | Some c \<Rightarrow> match_condition l (PStr v) c);
          block = (\<lambda>k look (_ :: unit). rbind (items_or AttributeError (get cond k PNone)) (match_items l look)) in
      all_hold
        [line ''method'' (rq_method rq), line ''path'' (rq_path rq),
         block ''body'' (dig_body (rq_body rq)),
         block ''query'' (\<lambda>k. Inr (get (rq_query rq) k PNone)),
         block ''headers'' (\<lambda>k. Inr (get (rq_headers rq) (py_lower k) PNone))])"

text \<open>A rule is what it asks for and what it answers; the first that matches wins.\<close>

fun first_rule :: "py_texts \<Rightarrow> (config \<times> action) list \<Rightarrow> http_request \<Rightarrow> action option result" where
  "first_rule l [] rq = Inr None"
| "first_rule l ((cond, respond) # rules) rq =
     rbind (matches l cond rq) (\<lambda>b. if b then Inr (Some respond) else first_rule l rules rq)"

definition http_resolve :: "py_texts \<Rightarrow> (config \<times> action) list \<Rightarrow> action \<Rightarrow> http_request \<Rightarrow> action result" where
  "http_resolve l rules dflt rq = rbind (first_rule l rules rq) (\<lambda>a. Inr (or_default dflt a))"

text \<open>The end \<open>$\<close> of a pattern also matches before a last line feed.\<close>

definition chomp :: "string \<Rightarrow> string" where
  "chomp s = (if s \<noteq> [] \<and> last s = CHR 0x0A then butlast s else s)"

text \<open>
  A path of a base, a collection, an optional identifier and an optional action of some letters, with or without a slash
  at the end; what is absent is an empty text.
\<close>

definition LETTERS :: string where
  "LETTERS = ''abcdefghijklmnopqrstuvwxyz''"

definition resource_route :: "string \<Rightarrow> string list \<Rightarrow> string list \<Rightarrow> string \<Rightarrow> (string \<times> string \<times> string) option" where
  "resource_route letters base colls path =
     (let segments = split_char (CHR ''/'') path; sub_ok = (\<lambda>s. s \<noteq> [] \<and> list_all (\<lambda>c. c \<in> set letters) s) in
      if take (length base) segments \<noteq> base then None
      else case drop (length base) segments of
        [] \<Rightarrow> None
      | coll # rest \<Rightarrow>
          (let coll = (if rest = [] then chomp coll else coll) in
           if coll \<notin> set colls then None
           else (case rest of
                   [] \<Rightarrow> Some (coll, [], [])
                 | [i] \<Rightarrow> Some (coll, i, [])
                 | [i, sub] \<Rightarrow> if i = [] then None else if chomp sub = [] then Some (coll, i, [])
                              else if sub_ok (chomp sub) then Some (coll, i, chomp sub) else None
                 | [i, sub, e] \<Rightarrow> if i \<noteq> [] \<and> sub_ok sub \<and> chomp e = [] then Some (coll, i, sub) else None
                 | _ \<Rightarrow> None)))"

text \<open>How the provider simulators put their own decision behind the rules.\<close>

definition behind_rules ::
  "py_texts \<Rightarrow> (config \<times> action) list \<Rightarrow> (http_request \<Rightarrow> 's \<Rightarrow> action result \<times> 's) \<Rightarrow> http_request \<Rightarrow> 's \<Rightarrow>
   action result \<times> 's" where
  "behind_rules l rules decide rq s =
     (case first_rule l rules rq of
        Inl e \<Rightarrow> (Inl e, s)
      | Inr (Some respond) \<Rightarrow> (Inr respond, s)
      | Inr None \<Rightarrow> decide rq s)"

definition body_dict :: "http_request \<Rightarrow> pyv" where
  "body_dict rq = (case rq_body rq of PDict kvs \<Rightarrow> PDict kvs | _ \<Rightarrow> PDict [])"

section \<open>Amounts and documents\<close>

text \<open>\<open>round\<close> to two decimals and the format with two decimals, ties to even.\<close>

definition round_int :: "rat \<Rightarrow> int" where
  "round_int q = (let f = \<lfloor>q\<rfloor>; r = q - of_int f in if r < 1 / 2 \<or> (r = 1 / 2 \<and> even f) then f else f + 1)"

definition round2 :: "rat \<Rightarrow> rat" where
  "round2 q = of_int (round_int (q * 100)) / 100"

definition money_text :: "rat \<Rightarrow> string" where
  "money_text q =
     (let n = nat (round_int (\<bar>q\<bar> * 100)) in
      (if q < 0 then ''-'' else []) @ dec_string (n div 100) @ ''.'' @ map char_of (zfill 2 (dec (n mod 100))))"

definition json_reply :: "int \<Rightarrow> config \<Rightarrow> action" where
  "json_reply status doc = [(''status'', PInt status), (''json'', PDict doc)]"

section \<open>Replies\<close>

record http_reply =
  hr_status :: int
  hr_headers :: config
  hr_body :: "byte list"
  hr_closed :: bool

record ('s, 'g) http_server =
  hs_gateway :: 's
  hs_received :: "http_request list"
  hs_faults :: nat
  hs_by_mti :: "(string \<times> nat) list"
  hs_by_rc :: "(string \<times> nat) list"
  hs_rng :: 'g

record ('s, 'g) http_conf =
  hc_texts :: py_texts
  hc_chaos :: config
  hc_resolve :: "http_request \<Rightarrow> 's \<Rightarrow> action result \<times> 's"
  hc_code :: "action \<Rightarrow> string result"
  hc_rng :: "'g rng"

definition bump :: "string \<Rightarrow> (string \<times> nat) list \<Rightarrow> (string \<times> nat) list" where
  "bump k counts = AList.update k (Suc (or_default 0 (map_of counts k))) counts"

definition override :: "config \<Rightarrow> config \<Rightarrow> config" where
  "override base own = AList.updates (map fst own) (map snd own) base"

text \<open>The encoding of a reply in UTF-8.\<close>

definition utf8_char :: "char \<Rightarrow> byte list" where
  "utf8_char c =
     (let n = of_char c :: nat in
      if n < 128 then [byte_of n] else [byte_of (192 + n div 64), byte_of (128 + n mod 64)])"

definition utf8 :: "string \<Rightarrow> byte list" where
  "utf8 s = concat (map utf8_char s)"

definition MALFORMED_TAIL :: string where
  "MALFORMED_TAIL = [CHR '','', CHR 0x22] @ ''<<malformed>>''"

definition break_json :: "string \<Rightarrow> string" where
  "break_json text = (if 1 < length text then butlast text @ MALFORMED_TAIL else ''{'')"

definition record_request :: "http_request \<Rightarrow> ('s, 'g) http_server \<Rightarrow> ('s, 'g) http_server" where
  "record_request rq s = s\<lparr>hs_received := hs_received s @ [rq],
     hs_by_mti := bump (rq_method rq @ '' '' @ rq_path rq) (hs_by_mti s)\<rparr>"

definition body_text :: "py_texts \<Rightarrow> action \<Rightarrow> string" where
  "body_text l action =
     (case get action ''json'' (get action ''body'' (PDict [])) of PStr s \<Rightarrow> s | v \<Rightarrow> dumps (pt_float l) v)"

definition JSON_TYPE :: config where
  "JSON_TYPE = [(''Content-Type'', PStr ''application/json'')]"

text \<open>The part of the handler after the faults are drawn.\<close>

definition write_reply ::
  "('s, 'g) http_conf \<Rightarrow> action \<Rightarrow> chaos_outcome \<Rightarrow> ('s, 'g) http_server \<Rightarrow> http_reply result \<times> ('s, 'g) http_server" where
  "write_reply c action outcome s =
     (if truthy (get action ''drop'' PNone) \<or> co_drop outcome
      then (Inr \<lparr>hr_status = 504, hr_headers = [(''Connection'', PStr ''close'')], hr_body = [], hr_closed = True\<rparr>,
            s\<lparr>hs_by_rc := bump ''(drop)'' (hs_by_rc s)\<rparr>)
      else
        (case rbind (int_of (get action ''status'' (PInt 200))) (\<lambda>status. rbind (hc_code c action) (\<lambda>rc. Inr (status, rc))) of
           Inl e \<Rightarrow> (Inl e, s)
         | Inr (status, rc) \<Rightarrow>
             (let s = s\<lparr>hs_by_rc := bump rc (hs_by_rc s)\<rparr> in
              case items_or TypeError (get action ''headers'' PNone) of
                Inl e \<Rightarrow> (Inl e, s)
              | Inr own \<Rightarrow>
                  (let headers = override JSON_TYPE own; text = body_text (hc_texts c) action;
                       text = (if co_malformed outcome \<noteq> None then break_json text else text); raw = utf8 text in
                   (Inr (if co_partial outcome
                         then \<lparr>hr_status = status, hr_headers = headers,
                                hr_body = take (max 1 (length raw div 2)) raw, hr_closed = True\<rparr>
                         else \<lparr>hr_status = status, hr_headers = headers, hr_body = raw, hr_closed = False\<rparr>), s)))))"

definition handle :: "('s, 'g) http_conf \<Rightarrow> http_request \<Rightarrow> ('s, 'g) http_server \<Rightarrow> http_reply result \<times> ('s, 'g) http_server" where
  "handle c rq s =
     (let s = record_request rq s; (answer, gateway) = hc_resolve c rq (hs_gateway s); s = s\<lparr>hs_gateway := gateway\<rparr> in
      case rbind answer (\<lambda>action. rbind (items_or TypeError (get action ''chaos'' PNone)) (\<lambda>own.
             rbind (plan (hc_rng c) (override (hc_chaos c) own) (hs_rng s)) (\<lambda>(outcome, g). Inr (action, outcome, g)))) of
        Inl e \<Rightarrow> (Inl e, s)
      | Inr (action, outcome, g) \<Rightarrow>
          (let s = s\<lparr>hs_rng := g, hs_faults := hs_faults s + (if co_active outcome then 1 else 0)\<rparr> in
           if number (get action ''delay_ms'' (PInt 0)) = None then (Inl TypeError, s)
           else write_reply c action outcome s))"

fun handle_all ::
  "('s, 'g) http_conf \<Rightarrow> http_request list \<Rightarrow> ('s, 'g) http_server \<Rightarrow> http_reply result list \<times> ('s, 'g) http_server" where
  "handle_all c [] s = ([], s)"
| "handle_all c (rq # rqs) s =
     (let (r, s) = handle c rq s; (rs, s) = handle_all c rqs s in (r # rs, s))"

section \<open>Counters\<close>

definition total_of :: "(string \<times> nat) list \<Rightarrow> nat" where
  "total_of counts = sum_list (map snd counts)"

definition answers :: "http_reply result list \<Rightarrow> nat" where
  "answers rs = length (filter (\<lambda>r. \<not> isl r) rs)"

lemma answers_simps [simp]: "answers [] = 0" "answers (r # rs) = (if isl r then answers rs else Suc (answers rs))"
  by (simp_all add: answers_def)

lemma bump_distinct: "distinct (map fst counts) \<Longrightarrow> distinct (map fst (bump k counts))"
  by (simp add: bump_def distinct_update)

lemma total_of_update:
  "distinct (map fst counts) \<Longrightarrow>
     total_of (AList.update k (Suc (or_default 0 (map_of counts k))) counts) = Suc (total_of counts)"
proof (induction counts)
  case Nil
  then show ?case by (simp add: total_of_def or_default_def)
next
  case (Cons x counts)
  show ?case
  proof (cases "fst x = k")
    case True
    then show ?thesis by (cases x) (simp add: total_of_def or_default_def)
  next
    case False
    then show ?thesis using Cons by (cases x) (auto simp: total_of_def)
  qed
qed

lemma total_of_bump: "distinct (map fst counts) \<Longrightarrow> total_of (bump k counts) = Suc (total_of counts)"
  by (simp add: bump_def total_of_update)

text \<open>What the counters say of the requests so far, \<open>answered\<close> of which got a reply.\<close>

definition counters_ok :: "nat \<Rightarrow> ('s, 'g) http_server \<Rightarrow> bool" where
  "counters_ok answered s \<longleftrightarrow> distinct (map fst (hs_by_mti s)) \<and> distinct (map fst (hs_by_rc s)) \<and>
     total_of (hs_by_mti s) = length (hs_received s) \<and> answered \<le> total_of (hs_by_rc s) \<and>
     total_of (hs_by_rc s) \<le> length (hs_received s) \<and> hs_faults s \<le> length (hs_received s)"

lemma write_reply_counts:
  assumes "write_reply c action outcome s = (r, s')" and "distinct (map fst (hs_by_rc s))"
  shows "hs_received s' = hs_received s \<and> hs_by_mti s' = hs_by_mti s \<and> hs_faults s' = hs_faults s \<and>
    distinct (map fst (hs_by_rc s')) \<and>
    (total_of (hs_by_rc s') = Suc (total_of (hs_by_rc s)) \<or> hs_by_rc s' = hs_by_rc s \<and> isl r)"
  using assms bump_distinct total_of_bump
  by (auto simp: write_reply_def Let_def split: if_splits sum.splits prod.splits)

lemma handle_counts:
  assumes "handle c rq s = (r, s')" and "counters_ok answered s"
  shows "counters_ok (answered + (if \<not> isl r then 1 else 0)) s' \<and> length (hs_received s') = Suc (length (hs_received s))"
proof -
  let ?s1 = "record_request rq s"
  obtain answer gateway where a: "hc_resolve c rq (hs_gateway ?s1) = (answer, gateway)" by fastforce
  let ?s2 = "?s1\<lparr>hs_gateway := gateway\<rparr>"
  let ?drawn = "rbind answer (\<lambda>action. rbind (items_or TypeError (get action ''chaos'' PNone)) (\<lambda>own.
             rbind (plan (hc_rng c) (override (hc_chaos c) own) (hs_rng ?s2)) (\<lambda>(outcome, g). Inr (action, outcome, g))))"
  have two: "distinct (map fst (hs_by_mti ?s2))" "distinct (map fst (hs_by_rc ?s2))"
    "total_of (hs_by_mti ?s2) = Suc (length (hs_received s))" "length (hs_received ?s2) = Suc (length (hs_received s))"
    "hs_by_rc ?s2 = hs_by_rc s" "hs_faults ?s2 = hs_faults s"
    using assms(2) by (simp_all add: counters_ok_def record_request_def bump_distinct total_of_bump)
  show ?thesis
  proof (cases ?drawn)
    case (Inl e)
    then have "r = Inl e \<and> s' = ?s2" using assms(1) a by (simp add: handle_def Let_def)
    then show ?thesis using two assms(2) by (auto simp: counters_ok_def)
  next
    case (Inr d)
    obtain action outcome g where d: "d = (action, outcome, g)" by (cases d)
    let ?s3 = "?s2\<lparr>hs_rng := g, hs_faults := hs_faults ?s2 + (if co_active outcome then 1 else 0)\<rparr>"
    have "handle c rq s = (if number (get action ''delay_ms'' (PInt 0)) = None then (Inl TypeError, ?s3)
        else write_reply c action outcome ?s3)"
      using a Inr d by (simp add: handle_def Let_def)
    then have e: "(r, s') = (if number (get action ''delay_ms'' (PInt 0)) = None then (Inl TypeError, ?s3)
        else write_reply c action outcome ?s3)" by (simp only: assms(1))
    show ?thesis
    proof (cases "number (get action ''delay_ms'' (PInt 0)) = None")
      case True
      then show ?thesis using e two assms(2) by (auto simp: counters_ok_def)
    next
      case False
      then have "write_reply c action outcome ?s3 = (r, s')" using e by (simp only: if_False)
      from write_reply_counts [OF this] show ?thesis using two assms(2) by (auto simp: counters_ok_def)
    qed
  qed
qed

lemma handle_all_counts:
  "handle_all c rqs s = (rs, s') \<Longrightarrow> counters_ok answered s \<Longrightarrow>
     counters_ok (answered + answers rs) s' \<and> length (hs_received s') = length (hs_received s) + length rqs"
proof (induction rqs arbitrary: s rs s' answered)
  case (Cons rq rqs)
  obtain r s1 rs2 s2 where h: "handle c rq s = (r, s1)" "handle_all c rqs s1 = (rs2, s2)" by fastforce
  from handle_counts [OF h(1) Cons.prems(2)]
  have c: "counters_ok (answered + (if \<not> isl r then 1 else 0)) s1" "length (hs_received s1) = Suc (length (hs_received s))" by auto
  show ?case using Cons.IH [OF h(2) c(1)] c(2) Cons.prems(1) h by (auto split: if_splits)
qed simp

definition fresh_server :: "'s \<Rightarrow> 'g \<Rightarrow> ('s, 'g) http_server" where
  "fresh_server gateway g = \<lparr>hs_gateway = gateway, hs_received = [], hs_faults = 0, hs_by_mti = [], hs_by_rc = [], hs_rng = g\<rparr>"

text \<open>The counters of a responder account for every request: each is counted once by method and path, each that is answered
  once by its code, and no request has more than one fault, whatever the gateway and the faults are.\<close>

theorem requests_are_counted:
  "case handle_all c rqs (fresh_server gateway g) of
     (replies, s) \<Rightarrow>
       length (hs_received s) = length rqs \<and> total_of (hs_by_mti s) = length rqs \<and>
       answers replies \<le> total_of (hs_by_rc s) \<and> total_of (hs_by_rc s) \<le> length rqs \<and> hs_faults s \<le> length rqs"
proof -
  obtain rs s where h: "handle_all c rqs (fresh_server gateway g) = (rs, s)" by fastforce
  have "counters_ok 0 (fresh_server gateway g)" by (simp add: counters_ok_def fresh_server_def total_of_def)
  from handle_all_counts [OF h this] have c: "counters_ok (answers rs) s" "length (hs_received s) = length rqs"
    by (simp_all add: fresh_server_def)
  then show ?thesis using h by (simp add: counters_ok_def)
qed

section \<open>What a gateway keeps under any traffic\<close>

lemma write_reply_gateway: "hs_gateway (snd (write_reply c action outcome s)) = hs_gateway s"
  by (auto simp: write_reply_def Let_def split: sum.split prod.split)

lemma handle_gateway: "hs_gateway (snd (handle c rq s)) = snd (hc_resolve c rq (hs_gateway s))"
proof -
  obtain answer gateway where a: "hc_resolve c rq (hs_gateway s) = (answer, gateway)" by fastforce
  have "hs_gateway (record_request rq s) = hs_gateway s" by (simp add: record_request_def)
  then show ?thesis using a
    by (auto simp: handle_def Let_def write_reply_gateway split: sum.split prod.split)
qed

lemma handle_all_gateway:
  "hs_gateway (snd (handle_all c rqs s)) = fold (\<lambda>rq g. snd (hc_resolve c rq g)) rqs (hs_gateway s)"
proof (induction rqs arbitrary: s)
  case (Cons rq rqs)
  obtain r s1 where h: "handle c rq s = (r, s1)" by fastforce
  then have "hs_gateway s1 = snd (hc_resolve c rq (hs_gateway s))" using handle_gateway [of c rq s] by simp
  then show ?case using Cons [of s1] h by (simp add: split_beta)
qed simp

text \<open>A server whose requests go through some rules to one decision.\<close>

definition serves :: "py_texts \<Rightarrow> (http_request \<Rightarrow> 's \<Rightarrow> action result \<times> 's) \<Rightarrow> ('s, 'g) http_conf \<Rightarrow> bool" where
  "serves l decide h \<longleftrightarrow> (\<exists>rules. hc_resolve h = behind_rules l rules decide)"

lemma served:
  assumes "serves l decide h"
  obtains rules where "\<And>rqs s. hs_gateway (snd (handle_all h rqs s)) =
    fold (\<lambda>rq g. snd (behind_rules l rules decide rq g)) rqs (hs_gateway s)"
  using assms handle_all_gateway [of h] unfolding serves_def by metis

lemma update_new: "k \<notin> fst ` set xs \<Longrightarrow> AList.update k v xs = xs @ [(k, v)]"
  by (induction xs) auto

text \<open>
  A gateway decides about requests and keeps an invariant while they are \<open>fair\<close>. Rules in front of it and faults behind
  it change nothing of that.
\<close>

locale gateway =
  fixes decide :: "http_request \<Rightarrow> 's \<Rightarrow> action result \<times> 's"
    and ok :: "'s \<Rightarrow> bool"
    and fair :: "http_request \<Rightarrow> bool"
  assumes keeps: "ok s \<Longrightarrow> fair rq \<Longrightarrow> ok (snd (decide rq s))"
begin

lemma ruled: "snd (behind_rules l rules decide rq s) = s \<or> snd (behind_rules l rules decide rq s) = snd (decide rq s)"
  by (auto simp: behind_rules_def split: sum.split option.split)

lemma one_request: "ok s \<Longrightarrow> fair rq \<Longrightarrow> ok (snd (behind_rules l rules decide rq s))"
  using ruled keeps by metis

lemma traffic:
  "ok s \<Longrightarrow> list_all fair rqs \<Longrightarrow> ok (fold (\<lambda>rq g. snd (behind_rules l rules decide rq g)) rqs s)"
  by (induction rqs arbitrary: s) (simp_all add: one_request)

text \<open>What holds of every decision from a good state and is transitive holds between the ends of any traffic.\<close>

lemma along:
  assumes "\<And>s rq. ok s \<Longrightarrow> fair rq \<Longrightarrow> R s (snd (decide rq s))" and "\<And>s. R s s" and "\<And>a b c. R a b \<Longrightarrow> R b c \<Longrightarrow> R a c"
    and "ok s" and "list_all fair rqs"
  shows "R s (fold (\<lambda>rq g. snd (behind_rules l rules decide rq g)) rqs s)"
  using assms(4,5)
proof (induction rqs arbitrary: s)
  case Nil
  then show ?case by (simp add: assms(2))
next
  case (Cons rq rqs)
  have fair: "fair rq" using Cons.prems(2) by simp
  have "R s (snd (behind_rules l rules decide rq s))"
    using ruled [of l rules rq s] assms(1) [OF Cons.prems(1) fair] assms(2) by metis
  moreover have "R (snd (behind_rules l rules decide rq s)) (fold (\<lambda>rq g. snd (behind_rules l rules decide rq g)) rqs
      (snd (behind_rules l rules decide rq s)))"
    by (rule Cons.IH) (use one_request [OF Cons.prems(1) fair] Cons.prems(2) in simp_all)
  ultimately show ?case using assms(3) by simp
qed

end

text \<open>
  A gateway that moves money: \<open>taken\<close> is what a payment has brought in, once it has, and \<open>returned\<close> what went back.
\<close>

locale ledger = gateway decide ok fair
  for decide :: "http_request \<Rightarrow> 's \<Rightarrow> action result \<times> 's" and ok :: "'s \<Rightarrow> bool" and fair :: "http_request \<Rightarrow> bool" +
  fixes taken :: "'s \<Rightarrow> string \<Rightarrow> rat option"
    and returned :: "'s \<Rightarrow> string \<Rightarrow> rat"
  assumes settled: "ok s \<Longrightarrow> fair rq \<Longrightarrow> taken s p = Some v \<Longrightarrow> taken (snd (decide rq s)) p = Some v"
    and returned_grows: "ok s \<Longrightarrow> fair rq \<Longrightarrow> returned s p \<le> returned (snd (decide rq s)) p"
    and covered: "ok s \<Longrightarrow> taken s p = Some v \<Longrightarrow> 0 \<le> returned s p \<and> returned s p \<le> max 0 v"
begin

lemma taken_stays:
  assumes "ok s" and "list_all fair rqs" and "taken s p = Some v"
  shows "taken (fold (\<lambda>rq g. snd (behind_rules l rules decide rq g)) rqs s) p = Some v"
proof -
  have "taken s p = Some v \<longrightarrow> taken (fold (\<lambda>rq g. snd (behind_rules l rules decide rq g)) rqs s) p = Some v"
    by (rule along [where R = "\<lambda>a b. taken a p = Some v \<longrightarrow> taken b p = Some v"]) (use assms settled in auto)
  then show ?thesis using assms(3) by simp
qed

lemma never_overdrawn:
  assumes "ok s" and "list_all fair rqs" and "taken s p = Some v"
  shows "returned s p \<le> returned (fold (\<lambda>rq g. snd (behind_rules l rules decide rq g)) rqs s) p \<and>
    returned (fold (\<lambda>rq g. snd (behind_rules l rules decide rq g)) rqs s) p \<le> max 0 v"
proof
  show "returned s p \<le> returned (fold (\<lambda>rq g. snd (behind_rules l rules decide rq g)) rqs s) p"
    by (rule along [where R = "\<lambda>a b. returned a p \<le> returned b p"]) (use assms returned_grows in auto)
  show "returned (fold (\<lambda>rq g. snd (behind_rules l rules decide rq g)) rqs s) p \<le> max 0 v"
    using covered [OF traffic [OF assms(1,2)] taken_stays [OF assms]] by blast
qed

end

section \<open>For examples\<close>

definition demo_texts :: py_texts where
  "demo_texts = \<lparr>pt_str = (\<lambda>_. ''?''), pt_float = (\<lambda>_. ''?''), pt_search = (\<lambda>_ _. Inr False)\<rparr>"

definition no_rng :: "unit rng" where
  "no_rng = \<lparr>rnd_random = (\<lambda>g. (0, g)), rnd_range = (\<lambda>n g. (0, g)), rnd_uniform = (\<lambda>a b g. (a, g))\<rparr>"

definition post :: "string \<Rightarrow> config \<Rightarrow> http_request" where
  "post path body = \<lparr>rq_method = ''POST'', rq_path = path, rq_query = [], rq_headers = [], rq_body = PDict body, rq_raw = []\<rparr>"

end
