(* ===== verification/Stripe_Sim.thy ===== *)
theory Stripe_Sim
  imports Http_Sim
begin

text \<open>
  The simulated Stripe (\<open>worker/adapters/scheme/stripe_sim.py\<close>): payment intents and refunds behind the HTTP responder.
  Random identifiers come from a sequence \<open>sc_fresh\<close> (a prefix and a fresh text), the time of an event is left out, and
  an event that is emitted is an element of \<open>st_events\<close>; its signature and delivery are not modelled.
\<close>

section \<open>State\<close>

datatype intent_status =
    Requires_PM | Requires_Confirm | Requires_Action | Requires_Capture | Succeeded | Canceled

fun status_text :: "intent_status \<Rightarrow> string" where
  "status_text Requires_PM = ''requires_payment_method''"
| "status_text Requires_Confirm = ''requires_confirmation''"
| "status_text Requires_Action = ''requires_action''"
| "status_text Requires_Capture = ''requires_capture''"
| "status_text Succeeded = ''succeeded''"
| "status_text Canceled = ''canceled''"

record intent =
  it_id :: string
  it_amount :: int
  it_currency :: string
  it_capture_method :: string
  it_pan :: string
  it_status :: intent_status
  it_received :: int
  it_refunded :: int
  it_error :: pyv
  it_charge :: "string option"

record refund =
  rf_amount :: int
  rf_currency :: string
  rf_intent :: string
  rf_charge :: "string option"

record stripe =
  st_intents :: "string \<Rightarrow> intent option"
  st_refunds :: "(string \<times> refund) list"
  st_next :: nat
  st_events :: "(string \<times> string \<times> pyv) list"

record stripe_conf =
  sc_texts :: py_texts
  sc_require_auth :: bool
  sc_decline_over :: pyv
  sc_currency :: string
  sc_fresh :: "nat \<Rightarrow> string"
  sc_webhooks :: bool
  sc_events :: "string list"

definition no_intents :: stripe where
  "no_intents = \<lparr>st_intents = (\<lambda>_. None), st_refunds = [], st_next = 0, st_events = []\<rparr>"

definition gen_id :: "stripe_conf \<Rightarrow> string \<Rightarrow> stripe \<Rightarrow> string \<times> stripe" where
  "gen_id c pre s = (pre @ ''_'' @ sc_fresh c (st_next s), s\<lparr>st_next := Suc (st_next s)\<rparr>)"

definition put_intent :: "intent \<Rightarrow> stripe \<Rightarrow> stripe" where
  "put_intent it s = s\<lparr>st_intents := (st_intents s)(it_id it \<mapsto> it)\<rparr>"

section \<open>Cards\<close>

datatype card_verdict = Card_Ok | Card_Action | Card_Declined string "string option" string

definition CARD_LADDER :: "(string \<times> card_verdict) list" where
  "CARD_LADDER =
     [(''4242424242424242'', Card_Ok), (''4000056655665556'', Card_Ok), (''5555555555554444'', Card_Ok),
      (''4000000000000002'', Card_Declined ''card_declined'' (Some ''generic_decline'') ''Your card was declined.''),
      (''4000000000009995'', Card_Declined ''card_declined'' (Some ''insufficient_funds'') ''Your card has insufficient funds.''),
      (''4000000000009987'', Card_Declined ''card_declined'' (Some ''lost_card'') ''Your card was declined.''),
      (''4000000000009979'', Card_Declined ''card_declined'' (Some ''stolen_card'') ''Your card was declined.''),
      (''4000000000000069'', Card_Declined ''expired_card'' None ''Your card has expired.''),
      (''4000000000000127'', Card_Declined ''incorrect_cvc'' None ''Your card's security code is incorrect.''),
      (''4000000000000119'', Card_Declined ''processing_error'' None ''An error occurred while processing your card.''),
      (''4000002500003155'', Card_Action), (''4000002760003184'', Card_Action)]"

definition PM_TOKENS :: "(string \<times> string) list" where
  "PM_TOKENS =
     [(''pm_card_visa'', ''4242424242424242''), (''pm_card_visa_debit'', ''4000056655665556''),
      (''pm_card_mastercard'', ''5555555555554444''), (''pm_card_chargeDeclined'', ''4000000000000002''),
      (''pm_card_chargeDeclinedInsufficientFunds'', ''4000000000009995''),
      (''pm_card_chargeDeclinedExpiredCard'', ''4000000000000069''),
      (''pm_card_chargeDeclinedIncorrectCvc'', ''4000000000000127''),
      (''pm_card_chargeDeclinedProcessingError'', ''4000000000000119''),
      (''pm_card_threeDSecure2Required'', ''4000002500003155'')]"

text \<open>\<open>str(v or '')\<close>.\<close>

definition text_or_empty :: "stripe_conf \<Rightarrow> pyv \<Rightarrow> string" where
  "text_or_empty c v = (if truthy v then pystr (pt_str (sc_texts c)) v else [])"

definition pan_of :: "stripe_conf \<Rightarrow> pyv \<Rightarrow> string" where
  "pan_of c body =
     (let data = part_at body ''payment_method_data.card.number'';
          pan = text_or_empty c (if truthy data then data else part_at body ''payment_method_options.card.number'');
          pm = text_or_empty c (part_at body ''payment_method'') in
      if pan \<noteq> [] then pan
      else case map_of PM_TOKENS pm of
             Some p \<Rightarrow> p
           | None \<Rightarrow> if prefix ''pm_'' pm then ''4242424242424242'' else [])"

section \<open>Documents\<close>

definition opt_text :: "string option \<Rightarrow> pyv" where
  "opt_text v = (case v of None \<Rightarrow> PNone | Some s \<Rightarrow> PStr s)"

definition intent_doc :: "intent \<Rightarrow> config" where
  "intent_doc it =
     [(''id'', PStr (it_id it)), (''object'', PStr ''payment_intent''), (''amount'', PInt (it_amount it)),
      (''amount_received'', PInt (it_received it)), (''currency'', PStr (it_currency it)),
      (''capture_method'', PStr (it_capture_method it)), (''status'', PStr (status_text (it_status it))),
      (''client_secret'', PStr (it_id it @ ''_secret_'' @ last_n 6 (it_id it))), (''latest_charge'', opt_text (it_charge it))] @
     (if truthy (it_error it) then [(''last_payment_error'', it_error it)] else [])"

definition refund_doc :: "string \<Rightarrow> refund \<Rightarrow> config" where
  "refund_doc i r =
     [(''id'', PStr i), (''object'', PStr ''refund''), (''amount'', PInt (rf_amount r)), (''currency'', PStr (rf_currency r)),
      (''payment_intent'', PStr (rf_intent r)), (''charge'', opt_text (rf_charge r)), (''status'', PStr ''succeeded'')]"

definition stripe_err :: "int \<Rightarrow> string \<Rightarrow> string \<Rightarrow> string option \<Rightarrow> string option \<Rightarrow> config option \<Rightarrow> action" where
  "stripe_err status kind message code decline_code it =
     json_reply status [(''error'', PDict (
       [(''type'', PStr kind), (''message'', PStr message)] @
       (case code of None \<Rightarrow> [] | Some x \<Rightarrow> [(''code'', PStr x)]) @
       (case decline_code of None \<Rightarrow> [] | Some x \<Rightarrow> [(''decline_code'', PStr x)]) @
       (case it of None \<Rightarrow> [] | Some d \<Rightarrow> [(''payment_intent'', PDict d)])))]"

abbreviation bad_request :: "int \<Rightarrow> string \<Rightarrow> string option \<Rightarrow> action" where
  "bad_request status message code \<equiv> stripe_err status ''invalid_request_error'' message code None None"

abbreviation UNEXPECTED :: "string option" where
  "UNEXPECTED \<equiv> Some ''payment_intent_unexpected_state''"

definition missing :: "string \<Rightarrow> action" where
  "missing i = bad_request 404 (''No such object: '' @ [CHR 39] @ i @ [CHR 39]) (Some ''resource_missing'')"

text \<open>\<open>_emit_event\<close>: type, identifier and object of the event.\<close>

definition emit_event :: "stripe_conf \<Rightarrow> string \<Rightarrow> config \<Rightarrow> stripe \<Rightarrow> stripe" where
  "emit_event c kind obj s =
     (if \<not> sc_webhooks c then s
      else (let (i, s) = gen_id c ''evt'' s in
            if sc_events c \<noteq> [] \<and> kind \<notin> set (sc_events c) then s
            else s\<lparr>st_events := st_events s @ [(kind, i, PDict obj)]\<rparr>))"

section \<open>Operations\<close>

definition to_int :: "stripe_conf \<Rightarrow> pyv \<Rightarrow> int option" where
  "to_int c v = int_text (u (pystr (pt_str (sc_texts c)) v))"

definition CARD_ERROR :: "string \<Rightarrow> string option \<Rightarrow> string \<Rightarrow> pyv" where
  "CARD_ERROR code decline_code message =
     PDict ([(''type'', PStr ''card_error''), (''code'', PStr code)] @
       (case decline_code of None \<Rightarrow> [] | Some d \<Rightarrow> [(''decline_code'', PStr d)]) @ [(''message'', PStr message)])"

text \<open>The verdict on a card, with the limit of the configuration.\<close>

definition card_verdict_of :: "stripe_conf \<Rightarrow> string \<Rightarrow> int \<Rightarrow> card_verdict result" where
  "card_verdict_of c pan amount =
     (let verdict = or_default Card_Ok (map_of CARD_LADDER pan) in
      if verdict = Card_Ok \<and> sc_decline_over c \<noteq> PNone
      then rbind (int_of (sc_decline_over c)) (\<lambda>limit. Inr
             (if limit \<le> amount
              then Card_Declined ''card_declined'' (Some ''insufficient_funds'') ''Your card has insufficient funds.''
              else verdict))
      else Inr verdict)"

text \<open>The charge of an intent that has none yet is drawn.\<close>

definition with_charge :: "stripe_conf \<Rightarrow> intent \<Rightarrow> stripe \<Rightarrow> intent \<times> stripe" where
  "with_charge c it s =
     (case it_charge it of
        Some ch \<Rightarrow> (it\<lparr>it_error := PNone\<rparr>, s)
      | None \<Rightarrow> (let (ch, s) = gen_id c ''ch'' s in (it\<lparr>it_error := PNone, it_charge := Some ch\<rparr>, s)))"

definition confirm :: "stripe_conf \<Rightarrow> intent \<Rightarrow> pyv \<Rightarrow> stripe \<Rightarrow> action result \<times> stripe" where
  "confirm c it body s =
     (if it_status it \<in> {Succeeded, Canceled}
      then (Inr (bad_request 400
              (''This PaymentIntent's state is '' @ status_text (it_status it) @ ''; it cannot be confirmed.'') UNEXPECTED), s)
      else
        (let own = pan_of c body; pan = (if own \<noteq> [] then own else it_pan it); it = it\<lparr>it_pan := pan\<rparr>; s = put_intent it s in
         if pan = []
         then (Inr (bad_request 400 ''You cannot confirm this PaymentIntent because it's missing a payment method.'' UNEXPECTED), s)
         else case card_verdict_of c pan (it_amount it) of
           Inl e \<Rightarrow> (Inl e, s)
         | Inr Card_Action \<Rightarrow>
             (let it = it\<lparr>it_status := Requires_Action\<rparr> in
              (Inr (json_reply 200 (intent_doc it @ [(''next_action'', PDict [(''type'', PStr ''use_stripe_sdk'')])])),
               put_intent it s))
         | Inr (Card_Declined code decline_code message) \<Rightarrow>
             (let it = it\<lparr>it_status := Requires_PM, it_error := CARD_ERROR code decline_code message\<rparr> in
              (Inr (stripe_err 402 ''card_error'' message (Some code) decline_code (Some (intent_doc it))),
               emit_event c ''payment_intent.payment_failed'' (intent_doc it) (put_intent it s)))
         | Inr Card_Ok \<Rightarrow>
             (let (it, s) = with_charge c it s in
              if it_capture_method it = ''manual''
              then (let it = it\<lparr>it_status := Requires_Capture\<rparr> in
                    (Inr (json_reply 200 (intent_doc it)),
                     emit_event c ''payment_intent.amount_capturable_updated'' (intent_doc it) (put_intent it s)))
              else (let it = it\<lparr>it_status := Succeeded, it_received := it_amount it\<rparr> in
                    (Inr (json_reply 200 (intent_doc it)),
                     emit_event c ''payment_intent.succeeded'' (intent_doc it) (put_intent it s))))))"

definition create_intent :: "stripe_conf \<Rightarrow> pyv \<Rightarrow> stripe \<Rightarrow> action result \<times> stripe" where
  "create_intent c body s =
     (let text_or = (\<lambda>v d. if truthy v then pystr (pt_str (sc_texts c)) v else d) in
      case to_int c (part_at body ''amount'') of
        None \<Rightarrow> (Inr (bad_request 400 ''Missing required param: amount.'' (Some ''parameter_missing'')), s)
      | Some amount \<Rightarrow>
          if amount \<le> 0
          then (Inr (bad_request 400 ''Missing required param: amount.'' (Some ''parameter_missing'')), s)
          else
            (let (i, s) = gen_id c ''pi'' s; pan = pan_of c body;
                 it = \<lparr>it_id = i, it_amount = amount, it_currency = text_or (part_at body ''currency'') (sc_currency c),
                   it_capture_method = text_or (part_at body ''capture_method'') ''automatic'', it_pan = pan,
                   it_status = (if pan \<noteq> [] then Requires_Confirm else Requires_PM), it_received = 0, it_refunded = 0,
                   it_error = PNone, it_charge = None\<rparr>;
                 s = put_intent it s in
             if py_lower (pystr (pt_str (sc_texts c)) (part_at body ''confirm'')) = ''true'' then confirm c it body s
             else (Inr (json_reply 200 (intent_doc it)), s)))"

definition capture :: "stripe_conf \<Rightarrow> intent \<Rightarrow> pyv \<Rightarrow> stripe \<Rightarrow> action result \<times> stripe" where
  "capture c it body s =
     (if it_status it \<noteq> Requires_Capture
      then (Inr (bad_request 400
              (''This PaymentIntent's state is '' @ status_text (it_status it) @
               ''; only requires_capture intents can be captured.'') UNEXPECTED), s)
      else
        (let asked = or_default 0 (to_int c (part_at body ''amount_to_capture''));
             amount = (if asked = 0 then it_amount it else asked);
             it = it\<lparr>it_status := Succeeded, it_received := min amount (it_amount it)\<rparr> in
         (Inr (json_reply 200 (intent_doc it)), emit_event c ''payment_intent.succeeded'' (intent_doc it) (put_intent it s))))"

definition cancel :: "stripe_conf \<Rightarrow> intent \<Rightarrow> stripe \<Rightarrow> action result \<times> stripe" where
  "cancel c it s =
     (if it_status it = Succeeded
      then (Inr (bad_request 400 ''You cannot cancel this PaymentIntent because it has already succeeded.'' UNEXPECTED), s)
      else
        (let it = it\<lparr>it_status := Canceled\<rparr> in
         (Inr (json_reply 200 (intent_doc it)), emit_event c ''payment_intent.canceled'' (intent_doc it) (put_intent it s))))"

definition int_string :: "int \<Rightarrow> string" where
  "int_string n = pystr (\<lambda>_. []) (PInt n)"

definition create_refund :: "stripe_conf \<Rightarrow> pyv \<Rightarrow> stripe \<Rightarrow> action result \<times> stripe" where
  "create_refund c body s =
     (let pid = text_or_empty c (part_at body ''payment_intent'') in
      case st_intents s pid of
        None \<Rightarrow> (Inr (missing (if pid \<noteq> [] then pid else ''payment_intent'')), s)
      | Some it \<Rightarrow>
          if it_status it \<noteq> Succeeded
          then (Inr (bad_request 400 ''This PaymentIntent has no successful charge to refund.''
                  (if it_status it = Requires_Capture then Some ''charge_not_captured'' else None)), s)
          else
            (let remaining = it_received it - it_refunded it;
                 amount = or_default remaining (to_int c (part_at body ''amount'')) in
             if amount \<le> 0 \<or> remaining < amount
             then (Inr (bad_request 400
                     (''Refund amount ('' @ int_string amount @ '') is greater than unrefunded amount on charge ('' @
                      int_string remaining @ '').'') (Some ''amount_too_large'')), s)
             else
               (let it = it\<lparr>it_refunded := it_refunded it + amount\<rparr>; s = put_intent it s; (i, s) = gen_id c ''re'' s;
                    r = \<lparr>rf_amount = amount, rf_currency = it_currency it, rf_intent = it_id it, rf_charge = it_charge it\<rparr>;
                    s = s\<lparr>st_refunds := AList.update i r (st_refunds s)\<rparr> in
                (Inr (json_reply 200 (refund_doc i r)), emit_event c ''refund.created'' (refund_doc i r) s))))"

section \<open>Routing\<close>

text \<open>\<open>_PATH_RE\<close>: the collection, the identifier and the action.\<close>

definition stripe_route :: "string \<Rightarrow> (string \<times> string \<times> string) option" where
  "stripe_route = resource_route (''_'' @ LETTERS) [[], ''v1''] [''payment_intents'', ''refunds'']"

definition intent_action :: "stripe_conf \<Rightarrow> string \<Rightarrow> intent \<Rightarrow> pyv \<Rightarrow> stripe \<Rightarrow> action result \<times> stripe" where
  "intent_action c sub it body s =
     (if sub = ''confirm'' then confirm c it body s
      else if sub = ''capture'' then capture c it body s
      else if sub = ''cancel'' then cancel c it s
      else (Inr (bad_request 400
              (''Unknown action '' @ [CHR 39] @ (if sub = [] then ''None'' else sub) @ [CHR 39]) None), s))"

definition stripe_decide :: "stripe_conf \<Rightarrow> http_request \<Rightarrow> stripe \<Rightarrow> action result \<times> stripe" where
  "stripe_decide c rq s =
     (if sc_require_auth c \<and> \<not> truthy (get (rq_headers rq) ''authorization'' PNone)
      then (Inr (bad_request 401 ''You did not provide an API key.'' None), s)
      else case stripe_route (rq_path rq) of
        None \<Rightarrow> (Inr (bad_request 404 ''Unknown request URL'' None), s)
      | Some (coll, i, sub) \<Rightarrow>
          if coll = ''payment_intents''
          then
            (if rq_method rq = ''GET'' \<and> i \<noteq> [] \<and> sub = []
             then (Inr (case st_intents s i of None \<Rightarrow> missing i | Some it \<Rightarrow> json_reply 200 (intent_doc it)), s)
             else if rq_method rq \<noteq> ''POST''
             then (Inr (bad_request 405 (''Method '' @ rq_method rq @ '' not allowed'') None), s)
             else if i = [] then create_intent c (body_dict rq) s
             else case st_intents s i of
                    None \<Rightarrow> (Inr (missing i), s)
                  | Some it \<Rightarrow> intent_action c sub it (body_dict rq) s)
          else if rq_method rq = ''GET'' \<and> i \<noteq> []
          then (Inr (case map_of (st_refunds s) i of None \<Rightarrow> missing i | Some r \<Rightarrow> json_reply 200 (refund_doc i r)), s)
          else if rq_method rq = ''POST'' \<and> i = [] then create_refund c (body_dict rq) s
          else (Inr (bad_request 400 ''Unsupported request'' None), s))"

text \<open>\<open>_response_code\<close>: an answer whose body is no object raises.\<close>

definition stripe_code :: "py_texts \<Rightarrow> action \<Rightarrow> string result" where
  "stripe_code l action =
     rbind (items_or AttributeError (get action ''json'' PNone)) (\<lambda>body.
       Inr (case get body ''error'' PNone of
              PDict er \<Rightarrow> pystr (pt_str l)
                (if truthy (get er ''decline_code'' PNone) then get er ''decline_code'' PNone
                 else if truthy (get er ''code'' PNone) then get er ''code'' PNone else get er ''type'' PNone)
            | _ \<Rightarrow> pystr (pt_str l)
                (if truthy (get body ''status'' PNone) then get body ''status'' PNone
                 else get action ''status'' (PInt 200))))"

section \<open>What the simulator promises\<close>

text \<open>
  The changes a request may make, as the documentation of payment intents tells them: an intent is opened, moves between its
  open states, is settled for at most its amount, an intent with manual capture from \<open>requires_capture\<close> only, and a settled one is
  refunded up to what was received.
\<close>

abbreviation SUCCESS :: string where
  "SUCCESS \<equiv> ''payment_intent.succeeded''"

definition moves :: "intent_status \<Rightarrow> intent_status \<Rightarrow> bool" where
  "moves a b \<longleftrightarrow> a \<noteq> Succeeded \<and> b \<noteq> Succeeded \<and> (a = Canceled \<longrightarrow> b = Canceled) \<and> (b = Requires_Confirm \<longrightarrow> a = Requires_Confirm)"

definition same_order :: "intent \<Rightarrow> intent \<Rightarrow> bool" where
  "same_order it it' \<longleftrightarrow> it_id it' = it_id it \<and> it_amount it' = it_amount it \<and> it_currency it' = it_currency it \<and>
     it_capture_method it' = it_capture_method it \<and> it_refunded it' = it_refunded it"

inductive change :: "stripe_conf \<Rightarrow> stripe \<Rightarrow> stripe \<Rightarrow> bool" for c where
  draw: "change c s (s\<lparr>st_next := Suc (st_next s)\<rparr>)"
| tell: "kind \<noteq> SUCCESS \<Longrightarrow> change c s (s\<lparr>st_events := st_events s @ [(kind, i, obj)]\<rparr>)"
| opened: "it_id it = ''pi_'' @ sc_fresh c (st_next s) \<Longrightarrow> 0 < it_amount it \<Longrightarrow> it_received it = 0 \<Longrightarrow> it_refunded it = 0 \<Longrightarrow>
     it_status it \<in> {Requires_PM, Requires_Confirm} \<Longrightarrow> change c s (put_intent it (s\<lparr>st_next := Suc (st_next s)\<rparr>))"
| moved: "st_intents s (it_id it) = Some it \<Longrightarrow> same_order it it' \<Longrightarrow> moves (it_status it) (it_status it') \<Longrightarrow>
     it_received it' = it_received it \<Longrightarrow> change c s (put_intent it' s)"
| settled: "st_intents s (it_id it) = Some it \<Longrightarrow> same_order it it' \<Longrightarrow> it_status it \<notin> {Succeeded, Canceled} \<Longrightarrow>
     it_capture_method it = ''manual'' \<longrightarrow> it_status it = Requires_Capture \<Longrightarrow>
     it_status it' = Succeeded \<Longrightarrow> it_received it' \<le> it_amount it \<Longrightarrow>
     change c s (emit_event c SUCCESS (intent_doc it') (put_intent it' s))"
| refunded: "st_intents s (it_id it) = Some it \<Longrightarrow> it_status it = Succeeded \<Longrightarrow> 0 < rf_amount r \<Longrightarrow>
     rf_amount r \<le> it_received it - it_refunded it \<Longrightarrow> rf_intent r = it_id it \<Longrightarrow>
     change c s ((put_intent (it\<lparr>it_refunded := it_refunded it + rf_amount r\<rparr>) s)\<lparr>st_next := Suc (st_next s),
       st_refunds := AList.update (''re_'' @ sc_fresh c (st_next s)) r (st_refunds s)\<rparr>)"

lemma put_intent_simps [simp]:
  "st_intents (put_intent it s) = (st_intents s)(it_id it \<mapsto> it)" "st_refunds (put_intent it s) = st_refunds s"
  "st_next (put_intent it s) = st_next s" "st_events (put_intent it s) = st_events s"
  by (simp_all add: put_intent_def)

lemma put_intent_twice: "it_id it' = it_id it \<Longrightarrow> put_intent it' (put_intent it s) = put_intent it' s"
  by (simp add: put_intent_def)

lemma emit_changes:
  assumes "kind \<noteq> SUCCESS"
  shows "(change c)\<^sup>*\<^sup>* s (emit_event c kind obj s)"
proof -
  have "change c s (s\<lparr>st_next := Suc (st_next s)\<rparr>)" by (rule draw)
  moreover have "change c (s\<lparr>st_next := Suc (st_next s)\<rparr>)
      (s\<lparr>st_next := Suc (st_next s), st_events := st_events s @ [(kind, i, PDict obj)]\<rparr>)" for i
    using tell [OF assms, of c "s\<lparr>st_next := Suc (st_next s)\<rparr>" i "PDict obj"] by simp
  ultimately have "(change c)\<^sup>*\<^sup>* s (s\<lparr>st_next := Suc (st_next s), st_events := st_events s @ [(kind, i, PDict obj)]\<rparr>)" for i
    by (meson converse_rtranclp_into_rtranclp r_into_rtranclp)
  then show ?thesis using draw [of c s] by (simp add: emit_event_def gen_id_def Let_def r_into_rtranclp)
qed

lemma same_order_refl: "same_order it it"
  by (simp add: same_order_def)

lemma moved_and_told:
  assumes "st_intents s (it_id it) = Some it" and "same_order it it'" and "moves (it_status it) (it_status it')"
    and "it_received it' = it_received it" and "kind \<noteq> SUCCESS"
  shows "(change c)\<^sup>*\<^sup>* s (emit_event c kind obj (put_intent it' s))"
  using moved [OF assms(1-4)] emit_changes [OF assms(5)] by (rule converse_rtranclp_into_rtranclp)

lemma with_charge_changes:
  assumes "with_charge c it s = (it', s')" and "st_intents s (it_id it) = Some it"
  shows "(change c)\<^sup>*\<^sup>* s s' \<and> st_intents s' = st_intents s \<and> same_order it it' \<and> it_status it' = it_status it \<and> it_received it' = it_received it"
  using assms draw [of c s] by (auto simp: with_charge_def gen_id_def same_order_def split: option.splits)

lemma confirm_changes:
  assumes "st_intents s (it_id it) = Some it"
  shows "(change c)\<^sup>*\<^sup>* s (snd (confirm c it body s))"
proof (cases "it_status it \<in> {Succeeded, Canceled}")
  case True
  then show ?thesis by (simp add: confirm_def)
next
  case False
  define pan where "pan = (if pan_of c body \<noteq> [] then pan_of c body else it_pan it)"
  define it1 where "it1 = it\<lparr>it_pan := pan\<rparr>"
  define s1 where "s1 = put_intent it1 s"
  have open1: "it_status it1 \<notin> {Succeeded, Canceled}" using False by (simp add: it1_def)
  have s1: "st_intents s1 (it_id it1) = Some it1" by (simp add: s1_def it1_def)
  have first: "change c s s1"
    unfolding s1_def by (rule moved [OF assms]) (use False in \<open>auto simp: it1_def same_order_def moves_def\<close>)
  have "(change c)\<^sup>*\<^sup>* s1 (snd (confirm c it body s))"
  proof (cases "pan = []")
    case True
    then show ?thesis using False by (simp add: confirm_def s1_def it1_def pan_def Let_def split: if_splits)
  next
    case pan: False
    note unfold = confirm_def Let_def pan_def [symmetric] it1_def [symmetric] s1_def [symmetric]
    have amount: "it_amount it = it_amount it1" by (simp add: it1_def)
    show ?thesis
    proof (cases "card_verdict_of c pan (it_amount it1)")
      case (Inl e)
      then show ?thesis using False pan by (simp add: unfold)
    next
      case (Inr v)
      show ?thesis
      proof (cases v)
        case Card_Action
        have "change c s1 (put_intent (it1\<lparr>it_status := Requires_Action\<rparr>) s1)"
          by (rule moved [OF s1]) (use open1 in \<open>auto simp: same_order_def moves_def\<close>)
        then show ?thesis using False pan Inr Card_Action by (simp add: unfold)
      next
        case (Card_Declined code decline_code message)
        show ?thesis using False pan Inr Card_Declined
          by (simp add: unfold) (rule moved_and_told [OF s1], use open1 in \<open>auto simp: same_order_def moves_def\<close>)
      next
        case Card_Ok
        obtain it2 s2 where w: "with_charge c it1 s1 = (it2, s2)" by fastforce
        note w' = with_charge_changes [OF w s1]
        then have s2: "st_intents s2 (it_id it1) = Some it1" using s1 by simp
        show ?thesis
        proof (cases "it_capture_method it2 = ''manual''")
          case True
          have "(change c)\<^sup>*\<^sup>* s2 (emit_event c ''payment_intent.amount_capturable_updated'' obj
              (put_intent (it2\<lparr>it_status := Requires_Capture\<rparr>) s2))" for obj
            by (rule moved_and_told [OF s2]) (use open1 w' in \<open>auto simp: same_order_def moves_def\<close>)
          then show ?thesis using False pan Inr Card_Ok w True w' by (auto simp: unfold intro: rtranclp_trans)
        next
          case no: False
          have "change c s2 (emit_event c SUCCESS (intent_doc (it2\<lparr>it_status := Succeeded, it_received := it_amount it2\<rparr>))
              (put_intent (it2\<lparr>it_status := Succeeded, it_received := it_amount it2\<rparr>) s2))"
            by (rule settled [OF s2]) (use open1 w' no in \<open>auto simp: same_order_def\<close>)
          then show ?thesis using False pan Inr Card_Ok w no w' by (auto simp: unfold intro: rtranclp.rtrancl_into_rtrancl)
        qed
      qed
    qed
  qed
  with first show ?thesis by (rule converse_rtranclp_into_rtranclp)
qed

lemma capture_changes:
  assumes "st_intents s (it_id it) = Some it"
  shows "(change c)\<^sup>*\<^sup>* s (snd (capture c it body s))"
proof (cases "it_status it = Requires_Capture")
  case True
  have "change c s (emit_event c SUCCESS (intent_doc (it\<lparr>it_status := Succeeded, it_received := min v (it_amount it)\<rparr>))
      (put_intent (it\<lparr>it_status := Succeeded, it_received := min v (it_amount it)\<rparr>) s))" for v
    by (rule settled [OF assms]) (use True in \<open>auto simp: same_order_def\<close>)
  from this [of "it_amount it"] this show ?thesis using True
    by (simp add: capture_def Let_def r_into_rtranclp)
qed (simp add: capture_def)

lemma cancel_changes:
  assumes "st_intents s (it_id it) = Some it"
  shows "(change c)\<^sup>*\<^sup>* s (snd (cancel c it s))"
proof (cases "it_status it = Succeeded")
  case False
  have "(change c)\<^sup>*\<^sup>* s (emit_event c ''payment_intent.canceled'' obj (put_intent (it\<lparr>it_status := Canceled\<rparr>) s))" for obj
    by (rule moved_and_told [OF assms]) (use False in \<open>auto simp: same_order_def moves_def\<close>)
  then show ?thesis using False by (simp add: cancel_def Let_def)
qed (simp add: cancel_def)

lemma create_changes: "(change c)\<^sup>*\<^sup>* s (snd (create_intent c body s))"
proof (cases "\<exists>amount. to_int c (part_at body ''amount'') = Some amount \<and> 0 < amount")
  case True
  then obtain amount where a: "to_int c (part_at body ''amount'') = Some amount" "0 < amount" by blast
  obtain i s1 where g: "gen_id c ''pi'' s = (i, s1)" by fastforce
  define it where "it = \<lparr>it_id = i, it_amount = amount,
    it_currency = (if truthy (part_at body ''currency'') then pystr (pt_str (sc_texts c)) (part_at body ''currency'') else sc_currency c),
    it_capture_method = (if truthy (part_at body ''capture_method'') then pystr (pt_str (sc_texts c)) (part_at body ''capture_method'') else ''automatic''),
    it_pan = pan_of c body, it_status = (if pan_of c body \<noteq> [] then Requires_Confirm else Requires_PM), it_received = 0, it_refunded = 0,
    it_error = PNone, it_charge = None\<rparr>"
  have first: "change c s (put_intent it s1)"
    using g a opened [of it c s] by (auto simp: gen_id_def it_def)
  have it: "st_intents (put_intent it s1) (it_id it) = Some it" by simp
  have e: "snd (create_intent c body s) =
      (if py_lower (pystr (pt_str (sc_texts c)) (part_at body ''confirm'')) = ''true'' then snd (confirm c it body (put_intent it s1))
       else put_intent it s1)"
    using a g by (simp add: create_intent_def Let_def it_def [symmetric])
  show ?thesis
  proof (cases "py_lower (pystr (pt_str (sc_texts c)) (part_at body ''confirm'')) = ''true''")
    case True
    have "(change c)\<^sup>*\<^sup>* (put_intent it s1) (snd (confirm c it body (put_intent it s1)))"
      by (rule confirm_changes) (rule it)
    with first True e show ?thesis by (simp add: converse_rtranclp_into_rtranclp)
  next
    case False
    then show ?thesis using first e by (simp add: r_into_rtranclp)
  qed
qed (auto simp: create_intent_def split: option.split)

lemma refund_changes:
  assumes "\<And>p it. st_intents s p = Some it \<Longrightarrow> it_id it = p"
  shows "(change c)\<^sup>*\<^sup>* s (snd (create_refund c body s))"
proof -
  define pid where "pid = text_or_empty c (part_at body ''payment_intent'')"
  show ?thesis
  proof (cases "st_intents s pid")
    case None
    then show ?thesis by (simp add: create_refund_def Let_def pid_def)
  next
    case (Some it)
    then have id: "it_id it = pid" by (rule assms)
    define remaining where "remaining = it_received it - it_refunded it"
    define amount where "amount = or_default remaining (to_int c (part_at body ''amount''))"
    define r where "r = \<lparr>rf_amount = amount, rf_currency = it_currency it, rf_intent = it_id it, rf_charge = it_charge it\<rparr>"
    show ?thesis
    proof (cases "it_status it = Succeeded \<and> 0 < amount \<and> amount \<le> remaining")
      case False
      then show ?thesis using Some
        by (auto simp: create_refund_def Let_def pid_def [symmetric] remaining_def [symmetric] amount_def [symmetric])
    next
      case True
      define s1 where "s1 = (put_intent (it\<lparr>it_refunded := it_refunded it + amount\<rparr>) s)\<lparr>st_next := Suc (st_next s),
        st_refunds := AList.update (''re_'' @ sc_fresh c (st_next s)) r (st_refunds s)\<rparr>"
      have "change c s s1"
        using refunded [of s it r c] Some id True by (simp add: r_def s1_def remaining_def)
      moreover have "snd (create_refund c body s) = emit_event c ''refund.created'' (refund_doc (''re_'' @ sc_fresh c (st_next s)) r) s1"
        using True Some
        by (simp add: create_refund_def Let_def pid_def [symmetric] remaining_def [symmetric] amount_def [symmetric] gen_id_def r_def s1_def)
      ultimately show ?thesis using emit_changes by (auto intro: converse_rtranclp_into_rtranclp)
    qed
  qed
qed

lemma decide_changes:
  assumes "\<And>p it. st_intents s p = Some it \<Longrightarrow> it_id it = p"
  shows "(change c)\<^sup>*\<^sup>* s (snd (stripe_decide c rq s))"
proof -
  have "(change c)\<^sup>*\<^sup>* s (snd (intent_action c sub it body s))" if "st_intents s i = Some it" for sub i it body
    using that assms [OF that] confirm_changes capture_changes cancel_changes by (simp add: intent_action_def)
  then show ?thesis using create_changes refund_changes [OF assms]
    by (simp add: stripe_decide_def split: option.split prod.split)
qed

section \<open>The ledger\<close>

definition refunds_of :: "stripe \<Rightarrow> string \<Rightarrow> int" where
  "refunds_of s p = sum_list (map (\<lambda>(i, r). if rf_intent r = p then rf_amount r else 0) (st_refunds s))"

definition about :: "string \<Rightarrow> string \<times> string \<times> pyv \<Rightarrow> bool" where
  "about p ev = (case ev of (kind, i, obj) \<Rightarrow> kind = SUCCESS \<and> (case obj of PDict kvs \<Rightarrow> get kvs ''id'' PNone = PStr p | _ \<Rightarrow> False))"

definition successes :: "stripe \<Rightarrow> string \<Rightarrow> nat" where
  "successes s p = length (filter (about p) (st_events s))"

definition tells_success :: "stripe_conf \<Rightarrow> bool" where
  "tells_success c \<longleftrightarrow> sc_webhooks c \<and> (sc_events c = [] \<or> SUCCESS \<in> set (sc_events c))"

definition known :: "stripe_conf \<Rightarrow> string \<Rightarrow> stripe \<Rightarrow> string \<Rightarrow> bool" where
  "known c pre s i \<longleftrightarrow> (\<exists>n < st_next s. i = pre @ sc_fresh c n)"

definition intent_ok :: "stripe_conf \<Rightarrow> stripe \<Rightarrow> string \<Rightarrow> intent \<Rightarrow> bool" where
  "intent_ok c s p it \<longleftrightarrow> it_id it = p \<and> known c ''pi_'' s p \<and> 0 < it_amount it \<and> it_received it \<le> it_amount it \<and>
     0 \<le> it_refunded it \<and> it_refunded it \<le> max 0 (it_received it) \<and> (it_status it \<noteq> Succeeded \<longrightarrow> it_received it = 0) \<and>
     refunds_of s p = it_refunded it"

definition has_succeeded :: "stripe \<Rightarrow> string \<Rightarrow> bool" where
  "has_succeeded s p = (case st_intents s p of None \<Rightarrow> False | Some it \<Rightarrow> it_status it = Succeeded)"

definition stripe_ok :: "stripe_conf \<Rightarrow> stripe \<Rightarrow> bool" where
  "stripe_ok c s \<longleftrightarrow> inj (sc_fresh c) \<and> distinct (map fst (st_refunds s)) \<and> (\<forall>i \<in> set (map fst (st_refunds s)). known c ''re_'' s i) \<and>
     (\<forall>p. case st_intents s p of None \<Rightarrow> refunds_of s p = 0 | Some it \<Rightarrow> intent_ok c s p it) \<and>
     (tells_success c \<longrightarrow> (\<forall>p. successes s p = (if has_succeeded s p then 1 else 0)))"

lemma stripe_okD:
  assumes "stripe_ok c s"
  shows "st_intents s p = Some it \<Longrightarrow> intent_ok c s p it" and "st_intents s p = None \<Longrightarrow> refunds_of s p = 0"
    and "st_intents s p = Some it \<Longrightarrow> it_id it = p"
  using assms spec [of "\<lambda>p. case st_intents s p of None \<Rightarrow> refunds_of s p = 0 | Some it \<Rightarrow> intent_ok c s p it" p]
  by (auto simp: stripe_ok_def intent_ok_def split: option.splits)

lemma known_grows: "known c pre s i \<Longrightarrow> st_next s \<le> st_next s' \<Longrightarrow> known c pre s' i"
  unfolding known_def by (elim exE conjE) (intro exI conjI, erule (1) less_le_trans)

lemma not_known: "inj (sc_fresh c) \<Longrightarrow> \<not> known c pre s (pre @ sc_fresh c (st_next s))"
  by (auto simp: known_def inj_def)

lemma unchanged_rest:
  "st_refunds s' = st_refunds s \<Longrightarrow> refunds_of s' p = refunds_of s p"
  "st_events s' = st_events s \<Longrightarrow> successes s' p = successes s p"
  by (simp_all add: refunds_of_def successes_def)

lemma quiet_ok:
  assumes "stripe_ok c s" and "st_intents s' = st_intents s" and "st_refunds s' = st_refunds s" and "st_next s \<le> st_next s'"
    and "\<And>q. successes s' q = successes s q"
  shows "stripe_ok c s'"
proof -
  have known: "known c pre s i \<Longrightarrow> known c pre s' i" for pre i using known_grows assms(4) by blast
  have "case st_intents s' q of None \<Rightarrow> refunds_of s' q = 0 | Some it \<Rightarrow> intent_ok c s' q it" for q
    using stripe_okD(1,2) [OF assms(1), of q] known assms(2) unchanged_rest(1) [OF assms(3)]
    by (auto simp: intent_ok_def split: option.split)
  then show ?thesis using assms known by (simp add: stripe_ok_def has_succeeded_def)
qed

text \<open>What an intent must satisfy after a change that touches no refund.\<close>

lemma ok_after:
  assumes "stripe_ok c s" and "st_refunds s' = st_refunds s" and "st_next s \<le> st_next s'"
    and "\<And>q. q \<noteq> p \<Longrightarrow> st_intents s' q = st_intents s q" and "st_intents s' p = Some it" and "intent_ok c s' p it"
    and "\<And>q. successes s' q = successes s q + (if tells_success c \<and> q = p \<and> \<not> has_succeeded s p \<and> has_succeeded s' p then 1 else 0)"
    and "has_succeeded s p \<Longrightarrow> has_succeeded s' p"
  shows "stripe_ok c s'"
proof -
  have known: "known c pre s i \<Longrightarrow> known c pre s' i" for pre i using known_grows assms(3) by blast
  have intents: "case st_intents s' q of None \<Rightarrow> refunds_of s' q = 0 | Some it \<Rightarrow> intent_ok c s' q it" for q
  proof (cases "q = p")
    case False
    then show ?thesis using stripe_okD(1,2) [OF assms(1), of q] known assms(4) unchanged_rest(1) [OF assms(2)]
      by (auto simp: intent_ok_def split: option.split)
  qed (use assms(5,6) in simp)
  have "successes s' q = (if has_succeeded s' q then 1 else 0)" if "tells_success c" for q
  proof (cases "q = p")
    case False
    then have "has_succeeded s' q = has_succeeded s q" using assms(4) by (simp add: has_succeeded_def)
    then show ?thesis using assms(1) assms(7) [of q] False that by (simp add: stripe_ok_def)
  next
    case True
    then show ?thesis using assms(1) assms(7) [of q] assms(8) that True by (auto simp: stripe_ok_def)
  qed
  then show ?thesis using assms(1,2) known intents by (simp add: stripe_ok_def)
qed

lemma emit_success:
  assumes "it_id it = p"
  shows "st_intents (emit_event c SUCCESS (intent_doc it) s) = st_intents s" and "st_refunds (emit_event c SUCCESS (intent_doc it) s) = st_refunds s"
    and "st_next s \<le> st_next (emit_event c SUCCESS (intent_doc it) s)"
    and "successes (emit_event c SUCCESS (intent_doc it) s) q = successes s q + (if tells_success c \<and> q = p then 1 else 0)"
  using assms by (auto simp: emit_event_def gen_id_def Let_def successes_def tells_success_def about_def intent_doc_def get_def or_default_def)

lemma opened_ok:
  assumes "stripe_ok c s" and "it_id it = ''pi_'' @ sc_fresh c (st_next s)" and "0 < it_amount it" and "it_received it = 0"
    and "it_refunded it = 0" and "it_status it \<in> {Requires_PM, Requires_Confirm}"
  shows "stripe_ok c (put_intent it (s\<lparr>st_next := Suc (st_next s)\<rparr>))"
proof -
  let ?s = "put_intent it (s\<lparr>st_next := Suc (st_next s)\<rparr>)"
  define p where "p = it_id it"
  have "inj (sc_fresh c)" using assms(1) by (simp add: stripe_ok_def)
  from not_known [OF this, of "''pi_''" s] have "\<not> known c ''pi_'' s p" unfolding p_def assms(2) .
  then have new: "st_intents s p = None"
    using stripe_okD(1) [OF assms(1), of p] by (cases "st_intents s p") (auto simp: intent_ok_def)
  have "known c ''pi_'' ?s p" unfolding known_def p_def using assms(2) by (intro exI [of _ "st_next s"]) simp
  moreover have "refunds_of ?s p = 0" using stripe_okD(2) [OF assms(1) new] by (simp add: refunds_of_def)
  ultimately have mine: "intent_ok c ?s p it" using assms(3-6) p_def by (auto simp: intent_ok_def)
  show ?thesis
    by (rule ok_after [OF assms(1) _ _ _ _ mine]) (use new assms(6) in \<open>auto simp: has_succeeded_def successes_def p_def\<close>)
qed

lemma moved_ok:
  assumes "stripe_ok c s" and "st_intents s (it_id it) = Some it" and "same_order it it'" and "moves (it_status it) (it_status it')"
    and "it_received it' = it_received it"
  shows "stripe_ok c (put_intent it' s)"
proof -
  note ok = stripe_okD(1) [OF assms(1,2)]
  have id: "it_id it' = it_id it" using assms(3) by (simp add: same_order_def)
  have mine: "intent_ok c (put_intent it' s) (it_id it) it'"
    using ok assms(3-5) unchanged_rest(1) [of "put_intent it' s" s] by (auto simp: intent_ok_def same_order_def moves_def known_def)
  show ?thesis
    by (rule ok_after [OF assms(1) _ _ _ _ mine]) (use assms id in \<open>auto simp: has_succeeded_def successes_def moves_def\<close>)
qed

lemma settled_ok:
  assumes "stripe_ok c s" and "st_intents s (it_id it) = Some it" and "same_order it it'" and "it_status it \<notin> {Succeeded, Canceled}"
    and "it_status it' = Succeeded" and "it_received it' \<le> it_amount it"
  shows "stripe_ok c (emit_event c SUCCESS (intent_doc it') (put_intent it' s))"
proof -
  let ?s = "emit_event c SUCCESS (intent_doc it') (put_intent it' s)"
  note ok = stripe_okD(1) [OF assms(1,2)]
  have id: "it_id it' = it_id it" using assms(3) by (simp add: same_order_def)
  note e = emit_success [OF id, where c = c and s = "put_intent it' s"]
  have grown: "known c ''pi_'' ?s (it_id it)"
    by (rule known_grows [where s = s]) (use ok e(3) in \<open>simp_all add: intent_ok_def\<close>)
  have "it_refunded it = 0" using ok assms(4) by (auto simp: intent_ok_def)
  moreover have "refunds_of ?s (it_id it) = refunds_of s (it_id it)" using e(2) by (simp add: refunds_of_def)
  ultimately have mine: "intent_ok c ?s (it_id it) it'"
    using ok assms(3,5,6) grown by (simp add: intent_ok_def same_order_def)
  have "successes (put_intent it' s) q = successes s q" for q by (simp add: successes_def)
  then show ?thesis
    by (intro ok_after [OF assms(1) _ _ _ _ mine]) (use assms id e in \<open>simp_all add: has_succeeded_def\<close>)
qed

lemma refunded_ok:
  assumes "stripe_ok c s" and "st_intents s (it_id it) = Some it" and "it_status it = Succeeded" and "0 < rf_amount r"
    and "rf_amount r \<le> it_received it - it_refunded it" and "rf_intent r = it_id it" and "i = ''re_'' @ sc_fresh c (st_next s)"
  shows "stripe_ok c ((put_intent (it\<lparr>it_refunded := it_refunded it + rf_amount r\<rparr>) s)\<lparr>st_next := Suc (st_next s),
    st_refunds := AList.update i r (st_refunds s)\<rparr>)" (is "stripe_ok c ?s")
proof -
  let ?it = "it\<lparr>it_refunded := it_refunded it + rf_amount r\<rparr>"
  note ok = stripe_okD(1) [OF assms(1,2)]
  have "inj (sc_fresh c)" and old: "\<forall>i \<in> set (map fst (st_refunds s)). known c ''re_'' s i"
    using assms(1) by (simp_all add: stripe_ok_def)
  from not_known [OF this(1), of "''re_''" s] have "\<not> known c ''re_'' s i" unfolding assms(7) .
  then have new: "i \<notin> fst ` set (st_refunds s)" using old by auto
  have sums: "refunds_of ?s p = refunds_of s p + (if p = it_id it then rf_amount r else 0)" for p
    using assms(6) by (simp add: refunds_of_def update_new [OF new])
  have grown: "known c pre s j \<Longrightarrow> known c pre ?s j" for pre j by (erule known_grows) simp
  have "known c ''pi_'' s (it_id it)" using ok by (simp add: intent_ok_def)
  then have mine: "intent_ok c ?s (it_id it) ?it"
    using ok assms(3-5) grown sums [of "it_id it"] by (simp add: intent_ok_def)
  have "case st_intents ?s q of None \<Rightarrow> refunds_of ?s q = 0 | Some it \<Rightarrow> intent_ok c ?s q it" for q
  proof (cases "q = it_id it")
    case False
    then show ?thesis using stripe_okD(1,2) [OF assms(1), of q] grown sums [of q]
      by (auto simp: intent_ok_def split: option.split)
  qed (use mine in simp)
  moreover have "distinct (map fst (st_refunds ?s))" using assms(1) by (simp add: stripe_ok_def distinct_update)
  moreover have "known c ''re_'' ?s i" unfolding known_def using assms(7) by (intro exI [of _ "st_next s"]) simp
  then have "\<forall>j \<in> set (map fst (st_refunds ?s)). known c ''re_'' ?s j" using old grown by (auto simp: update_new [OF new])
  moreover have "successes ?s p = successes s p \<and> has_succeeded ?s p = has_succeeded s p" for p
    using assms(2,3) by (simp add: successes_def has_succeeded_def)
  ultimately show ?thesis using assms(1) by (simp add: stripe_ok_def)
qed

lemma change_ok: "change c s s' \<Longrightarrow> stripe_ok c s \<Longrightarrow> stripe_ok c s'"
proof (induction rule: change.induct)
  case (draw s)
  show ?case by (rule quiet_ok [OF draw]) (simp_all add: successes_def)
next
  case (tell kind s i obj)
  show ?case by (rule quiet_ok [OF tell.prems]) (use tell.hyps in \<open>simp_all add: successes_def about_def\<close>)
next
  case (opened it s)
  show ?case by (rule opened_ok [OF opened.prems opened.hyps])
next
  case (moved s it it')
  show ?case by (rule moved_ok [OF moved.prems moved.hyps])
next
  case (settled s it it')
  show ?case by (rule settled_ok [OF settled.prems settled.hyps(1-3,5,6)])
next
  case (refunded s it r)
  show ?case by (rule refunded_ok [OF refunded.prems refunded.hyps refl])
qed

section \<open>Traffic\<close>

definition stripe_taken :: "stripe \<Rightarrow> string \<Rightarrow> rat option" where
  "stripe_taken s p =
     (case st_intents s p of Some it \<Rightarrow> if it_status it = Succeeded then Some (of_int (it_received it)) else None | None \<Rightarrow> None)"

definition stripe_returned :: "stripe \<Rightarrow> string \<Rightarrow> rat" where
  "stripe_returned s p = of_int (refunds_of s p)"

lemma emit_keeps: "st_intents (emit_event c kind obj s) = st_intents s" "st_refunds (emit_event c kind obj s) = st_refunds s"
  by (simp_all add: emit_event_def gen_id_def Let_def)

lemma other_intent:
  "stripe_taken s p = Some v \<Longrightarrow> st_intents s (it_id it) = Some it \<Longrightarrow> it_status it \<noteq> Succeeded \<Longrightarrow> p \<noteq> it_id it"
  by (auto simp: stripe_taken_def)

lemma change_keeps:
  "change c s s' \<Longrightarrow> stripe_ok c s \<Longrightarrow>
     (stripe_taken s p = Some v \<longrightarrow> stripe_taken s' p = Some v) \<and> stripe_returned s p \<le> stripe_returned s' p"
proof (induction rule: change.induct)
  case (opened it s)
  have "inj (sc_fresh c)" using opened.prems by (simp add: stripe_ok_def)
  from not_known [OF this, of "''pi_''" s] have "\<not> known c ''pi_'' s (it_id it)" unfolding opened.hyps(1) .
  then have "st_intents s (it_id it) = None"
    using stripe_okD(1) [OF opened.prems, of "it_id it"] by (cases "st_intents s (it_id it)") (auto simp: intent_ok_def)
  then show ?case by (auto simp: stripe_taken_def stripe_returned_def refunds_of_def)
next
  case (moved s it it')
  then have "it_status it \<noteq> Succeeded" "it_id it' = it_id it" by (auto simp: moves_def same_order_def)
  then show ?case using other_intent [of s p v it] moved.hyps(1)
    by (auto simp: stripe_taken_def stripe_returned_def refunds_of_def)
next
  case (settled s it it')
  then have "it_status it \<noteq> Succeeded" "it_id it' = it_id it" by (auto simp: same_order_def)
  then show ?case using other_intent [of s p v it] settled.hyps(1)
    by (auto simp: stripe_taken_def stripe_returned_def refunds_of_def emit_keeps)
next
  case (refunded s it r)
  let ?i = "''re_'' @ sc_fresh c (st_next s)"
  have "inj (sc_fresh c)" and old: "\<forall>i \<in> set (map fst (st_refunds s)). known c ''re_'' s i"
    using refunded.prems by (simp_all add: stripe_ok_def)
  from not_known [OF this(1), of "''re_''" s] have "?i \<notin> fst ` set (st_refunds s)" using old by auto
  from update_new [OF this, of r] show ?case using refunded.hyps
    by (auto simp: stripe_taken_def stripe_returned_def refunds_of_def simp flip: of_int_add)
qed (simp_all add: stripe_taken_def stripe_returned_def refunds_of_def)

lemma changes_keep:
  assumes "(change c)\<^sup>*\<^sup>* s s'" and "stripe_ok c s"
  shows "stripe_ok c s' \<and> (stripe_taken s p = Some v \<longrightarrow> stripe_taken s' p = Some v) \<and> stripe_returned s p \<le> stripe_returned s' p"
  using assms
proof (induction rule: rtranclp_induct)
  case (step t t')
  then have t: "stripe_ok c t" "stripe_taken s p = Some v \<longrightarrow> stripe_taken t p = Some v" "stripe_returned s p \<le> stripe_returned t p" by auto
  show ?case using change_ok [OF step.hyps(2) t(1)] change_keeps [OF step.hyps(2) t(1), of p v] t by auto
qed simp

lemma rat_le_max: "(of_int x :: rat) \<le> max 0 (of_int y) \<longleftrightarrow> x \<le> max 0 y"
  by (auto simp: max_def)

interpretation stripe: ledger "stripe_decide c" "stripe_ok c" "\<lambda>_. True" stripe_taken stripe_returned for c
proof
  fix s rq p v
  assume ok: "stripe_ok c s"
  have ch: "(change c)\<^sup>*\<^sup>* s (snd (stripe_decide c rq s))" by (rule decide_changes) (rule stripe_okD(3) [OF ok])
  note k = changes_keep [OF ch ok]
  show "stripe_ok c (snd (stripe_decide c rq s))" using k by blast
  show "stripe_returned s p \<le> stripe_returned (snd (stripe_decide c rq s)) p" using k by blast
  show "stripe_taken s p = Some v \<Longrightarrow> stripe_taken (snd (stripe_decide c rq s)) p = Some v" using k by blast
  show "0 \<le> stripe_returned s p \<and> stripe_returned s p \<le> max 0 v" if t: "stripe_taken s p = Some v"
  proof -
    obtain it where "st_intents s p = Some it" "v = of_int (it_received it)"
      using t by (auto simp: stripe_taken_def split: option.splits if_splits)
    then show ?thesis using stripe_okD(1) [OF ok] by (auto simp: intent_ok_def stripe_returned_def rat_le_max)
  qed
qed

lemma stripe_start: "inj (sc_fresh c) \<Longrightarrow> stripe_ok c no_intents"
  by (simp add: stripe_ok_def no_intents_def refunds_of_def successes_def has_succeeded_def)

lemma served_ok: "serves (sc_texts c) (stripe_decide c) h \<Longrightarrow> stripe_ok c (hs_gateway s) \<Longrightarrow> stripe_ok c (hs_gateway (snd (handle_all h rqs s)))"
  by (erule served) (simp add: stripe.traffic list_all_iff)

text \<open>C5. Whatever requests arrive, whatever rules and faults the simulator has: a payment that has succeeded stays succeeded
  with what it received, and its refunds grow, but never beyond that.\<close>

theorem stripe_refunds_are_covered:
  assumes "inj (sc_fresh c)" and "serves (sc_texts c) (stripe_decide c) h"
    and "s1 = snd (handle_all h earlier (fresh_server no_intents g))" and "s2 = snd (handle_all h later s1)"
    and "st_intents (hs_gateway s1) p = Some it" and "it_status it = Succeeded"
  shows "\<exists>it'. st_intents (hs_gateway s2) p = Some it' \<and> it_status it' = Succeeded \<and> it_received it' = it_received it \<and>
    refunds_of (hs_gateway s1) p \<le> refunds_of (hs_gateway s2) p \<and> refunds_of (hs_gateway s2) p \<le> max 0 (it_received it)"
proof -
  obtain rules where r: "\<And>rqs s. hs_gateway (snd (handle_all h rqs s)) =
    fold (\<lambda>rq g. snd (behind_rules (sc_texts c) rules (stripe_decide c) rq g)) rqs (hs_gateway s)"
    by (rule served [OF assms(2)]) blast
  have ok: "stripe_ok c (hs_gateway s1)"
    unfolding assms(3) by (rule served_ok [OF assms(2)]) (simp add: fresh_server_def stripe_start assms(1))
  have t: "stripe_taken (hs_gateway s1) p = Some (of_int (it_received it))" using assms(5,6) by (simp add: stripe_taken_def)
  have all: "list_all (\<lambda>_. True) later" by (simp add: list_all_iff)
  have "stripe_taken (hs_gateway s2) p = Some (of_int (it_received it))"
    using stripe.taken_stays [OF ok all t] by (simp add: assms(4) r)
  moreover have "stripe_returned (hs_gateway s1) p \<le> stripe_returned (hs_gateway s2) p \<and>
      stripe_returned (hs_gateway s2) p \<le> max 0 (of_int (it_received it))"
    using stripe.never_overdrawn [OF ok all t] by (simp add: assms(4) r)
  ultimately have r: "refunds_of (hs_gateway s1) p \<le> refunds_of (hs_gateway s2) p"
    "refunds_of (hs_gateway s2) p \<le> max 0 (it_received it)"
    and t2: "stripe_taken (hs_gateway s2) p = Some (of_int (it_received it))"
    by (simp_all add: stripe_returned_def rat_le_max)
  obtain it' where "st_intents (hs_gateway s2) p = Some it'" "it_status it' = Succeeded" "it_received it' = it_received it"
    using t2 by (auto simp: stripe_taken_def split: option.splits if_splits)
  with r show ?thesis by blast
qed

text \<open>C17. With webhooks on, a payment has succeeded exactly when its success has been told, and it is told once.\<close>

theorem success_is_told_once:
  assumes "inj (sc_fresh c)" and "serves (sc_texts c) (stripe_decide c) h" and "tells_success c"
    and "s = hs_gateway (snd (handle_all h rqs (fresh_server no_intents g)))"
  shows "length (filter (about p) (st_events s)) = (if has_succeeded s p then 1 else 0)"
proof -
  have "stripe_ok c s"
    unfolding assms(4) by (rule served_ok [OF assms(2)]) (simp add: fresh_server_def stripe_start assms(1))
  then show ?thesis using assms(3) by (simp add: stripe_ok_def successes_def)
qed


section \<open>Examples\<close>

definition demo_stripe :: stripe_conf where
  "demo_stripe = \<lparr>sc_texts = demo_texts, sc_require_auth = False, sc_decline_over = PNone, sc_currency = ''usd'',
     sc_fresh = (\<lambda>n. replicate n (CHR ''x'')), sc_webhooks = True, sc_events = []\<rparr>"

definition stripe_server :: "(stripe, unit) http_conf" where
  "stripe_server = \<lparr>hc_texts = demo_texts, hc_chaos = [], hc_resolve = behind_rules demo_texts [] (stripe_decide demo_stripe),
     hc_code = stripe_code demo_texts, hc_rng = no_rng\<rparr>"

lemma demo_stripe_fresh: "inj (sc_fresh demo_stripe)"
  by (auto simp: demo_stripe_def inj_def replicate_eq_replicate)

lemma demo_stripe_served: "serves (sc_texts demo_stripe) (stripe_decide demo_stripe) stripe_server"
  by (auto simp: serves_def stripe_server_def demo_stripe_def)

definition demo_sale :: http_request where
  "demo_sale = post ''/v1/payment_intents'' [(''amount'', PStr ''90''), (''confirm'', PStr ''true''), (''payment_method'', PStr ''pm_card_visa'')]"

definition demo_refund :: "string \<Rightarrow> http_request" where
  "demo_refund amount = post ''/v1/refunds'' [(''payment_intent'', PStr ''pi_''), (''amount'', PStr amount)]"

definition demo_paid :: "(stripe, unit) http_server" where
  "demo_paid = snd (handle_all stripe_server [demo_sale] (fresh_server no_intents ()))"

definition demo_it :: intent where
  "demo_it = \<lparr>it_id = ''pi_'', it_amount = 90, it_currency = ''usd'', it_capture_method = ''automatic'',
     it_pan = ''4242424242424242'', it_status = Succeeded, it_received = 90, it_refunded = 0, it_error = PNone, it_charge = Some ''ch_x''\<rparr>"

lemma demo_paid_intent: "st_intents (hs_gateway demo_paid) ''pi_'' = Some demo_it"
  by code_simp

theorem stripe_refunds_are_covered_witness:
  "\<exists>it'. st_intents (hs_gateway (snd (handle_all stripe_server [demo_refund ''40'', demo_refund ''70''] demo_paid))) ''pi_'' = Some it' \<and>
     it_status it' = Succeeded \<and> it_received it' = 90 \<and>
     refunds_of (hs_gateway (snd (handle_all stripe_server [demo_refund ''40'', demo_refund ''70''] demo_paid))) ''pi_'' \<le> max 0 90"
proof -
  have it: "it_status demo_it = Succeeded" "it_received demo_it = 90" by (simp_all add: demo_it_def)
  show ?thesis
    using stripe_refunds_are_covered [OF demo_stripe_fresh demo_stripe_served demo_paid_def refl demo_paid_intent it(1)] it(2) by metis
qed

lemma demo_refunds:
  "refunds_of (hs_gateway (snd (handle_all stripe_server [demo_refund ''40'', demo_refund ''70''] demo_paid))) ''pi_'' = 40"
  by code_simp

lemma demo_tells: "tells_success demo_stripe"
  by (simp add: tells_success_def demo_stripe_def)

theorem success_is_told_once_witness: "length (filter (about ''pi_'') (st_events (hs_gateway demo_paid))) = 1"
proof -
  have "has_succeeded (hs_gateway demo_paid) ''pi_''" by (simp add: has_succeeded_def demo_paid_intent demo_it_def)
  then show ?thesis
    using success_is_told_once [OF demo_stripe_fresh demo_stripe_served demo_tells, of "hs_gateway demo_paid" "[demo_sale]" "()" "''pi_''"]
    by (simp add: demo_paid_def)
qed


text \<open>A capture of a negative amount succeeds with a negative sum received; a capture of nothing takes everything.\<close>

definition demo_hold :: http_request where
  "demo_hold = post ''/v1/payment_intents''
     [(''amount'', PInt 90), (''confirm'', PBool True), (''capture_method'', PStr ''manual''), (''payment_method'', PStr ''pm_card_visa'')]"

definition received_after :: "http_request list \<Rightarrow> (intent_status \<times> int) option" where
  "received_after rqs = map_option (\<lambda>it. (it_status it, it_received it))
     (st_intents (hs_gateway (snd (handle_all stripe_server rqs (fresh_server no_intents ())))) ''pi_'')"

theorem odd_captures:
  "received_after [demo_hold, post ''/v1/payment_intents/pi_/capture'' [(''amount_to_capture'', PInt (- 5))]] = Some (Succeeded, - 5)"
  "received_after [demo_hold, post ''/v1/payment_intents/pi_/capture'' [(''amount_to_capture'', PInt 0)]] = Some (Succeeded, 90)"
  by code_simp+

text \<open>An authorised payment that waits for its capture can be confirmed again, with another card, and is declined.\<close>

theorem authorised_is_declined:
  "received_after [demo_hold, post ''/v1/payment_intents/pi_/confirm'' [(''payment_method'', PStr ''pm_card_chargeDeclined'')]] =
   Some (Requires_PM, 0)"
  by code_simp

text \<open>A rule may answer with a list or a text; the counting of answers then raises and the client gets an error of the server.\<close>

theorem rule_body_breaks_reply:
  assumes "truthy v" and "\<And>kvs. v \<noteq> PDict kvs"
  shows "fst (write_reply stripe_server [(''json'', v)] no_chaos s) = Inl AttributeError"
  using assms by (auto simp: write_reply_def stripe_server_def stripe_code_def items_or_def no_chaos_def split: pyv.splits)

end
