(* ===== verification/Paypal_Sim.thy ===== *)
theory Paypal_Sim
  imports Http_Sim
begin

text \<open>
  The simulated PayPal (\<open>worker/adapters/scheme/paypal_sim.py\<close>): tokens, orders, captures and refunds behind the HTTP
  responder. Amounts are rational numbers: \<open>round\<close> and the format with two decimals round ties to even, the rounding of
  floats themselves is not modelled. Identifiers come from sequences \<open>pc_fresh\<close>, one for each length; the parser
  of JSON texts is a parameter; times, signatures and the delivery of events are left out.
\<close>

section \<open>Amounts\<close>

text \<open>\<open>_money\<close>.\<close>

definition money :: "py_texts \<Rightarrow> pyv \<Rightarrow> rat option" where
  "money l amount = float_text (u (pystr (pt_str l) (part_at amount ''value'')))"

section \<open>State\<close>

record order =
  or_completed :: bool
  or_intent :: string
  or_units :: "pyv list"
  or_capture :: "string option"

record captured =
  cp_value :: rat
  cp_currency :: string
  cp_refunded :: rat

record pp_refund =
  pr_capture :: string
  pr_amount :: rat
  pr_currency :: string

record paypal =
  pl_tokens :: "string list"
  pl_orders :: "string \<Rightarrow> order option"
  pl_captures :: "string \<Rightarrow> captured option"
  pl_refunds :: "(string \<times> pp_refund) list"
  pl_next :: nat
  pl_events :: "(string \<times> pyv) list"

record paypal_conf =
  pc_texts :: py_texts
  pc_loads :: "string \<Rightarrow> pyv option"
  pc_require_auth :: bool
  pc_strict_tokens :: bool
  pc_decline_over :: pyv
  pc_fresh :: "nat \<Rightarrow> nat \<Rightarrow> string"
  pc_webhooks :: bool
  pc_events :: "string list"

definition no_orders :: paypal where
  "no_orders = \<lparr>pl_tokens = [], pl_orders = (\<lambda>_. None), pl_captures = (\<lambda>_. None), pl_refunds = [], pl_next = 0, pl_events = []\<rparr>"

definition pp_gen :: "paypal_conf \<Rightarrow> nat \<Rightarrow> paypal \<Rightarrow> string \<times> paypal" where
  "pp_gen c n s = (pc_fresh c n (pl_next s), s\<lparr>pl_next := Suc (pl_next s)\<rparr>)"

section \<open>Answers\<close>

definition if_some :: "string \<Rightarrow> string option \<Rightarrow> config" where
  "if_some k v = (case v of None \<Rightarrow> [] | Some x \<Rightarrow> [(k, PStr x)])"

definition pp_err ::
  "paypal_conf \<Rightarrow> int \<Rightarrow> string \<Rightarrow> string \<Rightarrow> string option \<Rightarrow> string option \<Rightarrow> string option \<Rightarrow> paypal \<Rightarrow>
   action result \<times> paypal" where
  "pp_err c status name message issue description fld s =
     (let (i, s) = pp_gen c 12 s in
      (Inr (json_reply status ([(''name'', PStr name), (''message'', PStr message), (''debug_id'', PStr (py_lower i))] @
         (case issue of None \<Rightarrow> []
          | Some x \<Rightarrow> [(''details'', PList [PDict ([(''issue'', PStr x)] @ if_some ''description'' description @ if_some ''field'' fld)])]))),
       s))"

abbreviation BUSINESS :: string where
  "BUSINESS \<equiv> ''The requested action could not be performed, semantically incorrect, or failed business validation.''"

definition unprocessable :: "paypal_conf \<Rightarrow> string \<Rightarrow> string option \<Rightarrow> paypal \<Rightarrow> action result \<times> paypal" where
  "unprocessable c issue description s =
     pp_err c 422 ''UNPROCESSABLE_ENTITY'' BUSINESS (Some issue) description None s"

definition DECLINED_TEXT :: string where
  "DECLINED_TEXT = ''The instrument presented was either declined by the processor or bank, or it can't be used for this payment.''"

definition not_found :: "paypal_conf \<Rightarrow> paypal \<Rightarrow> action result \<times> paypal" where
  "not_found c s =
     pp_err c 404 ''RESOURCE_NOT_FOUND'' ''The specified resource does not exist or cannot be found.''
       (Some ''INVALID_RESOURCE_ID'') None None s"

definition not_supported :: "paypal_conf \<Rightarrow> paypal \<Rightarrow> action result \<times> paypal" where
  "not_supported c s =
     pp_err c 405 ''METHOD_NOT_SUPPORTED'' ''The server does not implement the requested HTTP method.'' None None None s"

definition mock_error :: "paypal_conf \<Rightarrow> string \<Rightarrow> paypal \<Rightarrow> action result \<times> paypal" where
  "mock_error c issue s =
     unprocessable c issue (if issue = ''INSTRUMENT_DECLINED'' then Some DECLINED_TEXT else None) s"

text \<open>\<open>_mock_issue\<close>.\<close>

definition mock_issue :: "paypal_conf \<Rightarrow> config \<Rightarrow> string option" where
  "mock_issue c headers =
     (case get headers ''paypal-mock-response'' PNone of
        PStr raw \<Rightarrow>
          if raw = [] then None
          else (case pc_loads c raw of
                  Some (PDict kvs) \<Rightarrow>
                    (let code = get kvs ''mock_application_codes'' PNone in
                     if truthy code then Some (map char_of (py_upper (u (pystr (pt_str (pc_texts c)) code)))) else None)
                | _ \<Rightarrow> None)
      | _ \<Rightarrow> None)"

text \<open>\<open>_emit_event\<close> draws an identifier for the event and one for its transmission.\<close>

definition pp_emit :: "paypal_conf \<Rightarrow> string \<Rightarrow> config \<Rightarrow> paypal \<Rightarrow> paypal" where
  "pp_emit c kind resource s =
     (if \<not> pc_webhooks c then s
      else (let (_, s) = pp_gen c 14 s; (_, s) = pp_gen c 24 s in
            if pc_events c \<noteq> [] \<and> kind \<notin> set (pc_events c) then s
            else s\<lparr>pl_events := pl_events s @ [(kind, PDict resource)]\<rparr>))"

section \<open>Tokens\<close>

definition pp_token :: "paypal_conf \<Rightarrow> http_request \<Rightarrow> paypal \<Rightarrow> action result \<times> paypal" where
  "pp_token c rq s =
     (let auth = get (rq_headers rq) ''authorization'' PNone;
          basic = (truthy auth \<and> prefix ''Basic '' (pystr (pt_str (pc_texts c)) auth));
          creds = (sublist ''client_id='' (rq_raw rq) \<or>
            (case rq_body rq of PDict kvs \<Rightarrow> truthy (get kvs ''client_id'' PNone) | _ \<Rightarrow> False)) in
      if rq_method rq \<noteq> ''POST'' then not_supported c s
      else if \<not> (basic \<or> creds)
      then (Inr (json_reply 401 [(''error'', PStr ''invalid_client''), (''error_description'', PStr ''Client Authentication failed'')]), s)
      else
        (let (i, s) = pp_gen c 40 s; token = ''A21.'' @ i; s = s\<lparr>pl_tokens := token # pl_tokens s\<rparr>; (nonce, s) = pp_gen c 24 s in
         (Inr (json_reply 200 [(''scope'', PStr ''https://uri.paypal.com/services/payments/payment''), (''access_token'', PStr token),
            (''token_type'', PStr ''Bearer''), (''app_id'', PStr ''APP-80W284485P519543T''), (''expires_in'', PInt 32400),
            (''nonce'', PStr nonce)]), s)))"

section \<open>Orders\<close>

text \<open>\<open>(v or {}).get(k, d)\<close>.\<close>

definition get_of :: "pyv \<Rightarrow> string \<Rightarrow> pyv \<Rightarrow> pyv result" where
  "get_of v k d = rbind (items_or AttributeError v) (\<lambda>kvs. Inr (get kvs k d))"

definition capture_resource :: "string \<Rightarrow> captured \<Rightarrow> config" where
  "capture_resource i cap =
     [(''id'', PStr i), (''status'', PStr ''COMPLETED''),
      (''amount'', PDict [(''currency_code'', PStr (cp_currency cap)), (''value'', PStr (money_text (cp_value cap)))]),
      (''final_capture'', PBool True)]"

fun unit_docs :: "config \<Rightarrow> pyv list \<Rightarrow> pyv list result" where
  "unit_docs payments [] = Inr []"
| "unit_docs payments (un # us) =
     rbind (get_of un ''reference_id'' (PStr ''default'')) (\<lambda>ref. rbind (get_of un ''amount'' PNone) (\<lambda>amount.
     rbind (unit_docs [] us) (\<lambda>ds. Inr (PDict ([(''reference_id'', ref), (''amount'', amount)] @ payments) # ds))))"

text \<open>\<open>_order_doc\<close>: only the first unit shows the capture.\<close>

definition order_doc :: "paypal \<Rightarrow> string \<Rightarrow> order \<Rightarrow> config result" where
  "order_doc s oid ord =
     (let payments = (case or_capture ord of
            Some i \<Rightarrow> (case pl_captures s i of
              Some cap \<Rightarrow> if or_completed ord then [(''payments'', PDict [(''captures'', PList [PDict (capture_resource i cap)])])] else []
            | None \<Rightarrow> [])
          | None \<Rightarrow> []);
          base = ''/v2/checkout/orders/'' @ oid in
      rbind (unit_docs payments (or_units ord)) (\<lambda>us. Inr
        [(''id'', PStr oid), (''intent'', PStr (or_intent ord)),
         (''status'', PStr (if or_completed ord then ''COMPLETED'' else ''CREATED'')), (''purchase_units'', PList us),
         (''links'', PList
           [PDict [(''href'', PStr base), (''rel'', PStr ''self''), (''method'', PStr ''GET'')],
            PDict [(''href'', PStr (base @ ''/capture'')), (''rel'', PStr ''capture''), (''method'', PStr ''POST'')]])]))"

definition order_reply :: "int \<Rightarrow> string \<Rightarrow> order \<Rightarrow> paypal \<Rightarrow> action result \<times> paypal" where
  "order_reply status oid ord s = (rbind (order_doc s oid ord) (\<lambda>doc. Inr (json_reply status doc)), s)"

definition bad_order :: "paypal_conf \<Rightarrow> paypal \<Rightarrow> action result \<times> paypal" where
  "bad_order c s =
     pp_err c 400 ''INVALID_REQUEST'' ''Request is not well-formed, syntactically incorrect, or violates schema.''
       (Some ''MISSING_REQUIRED_PARAMETER'') None (Some (''/purchase_units/@reference_id=='' @ [CHR 39] @ ''default'' @ [CHR 39] @ ''/amount'')) s"

definition create_order :: "paypal_conf \<Rightarrow> config \<Rightarrow> paypal \<Rightarrow> action result \<times> paypal" where
  "create_order c body s =
     (case get body ''purchase_units'' PNone of
        PList (un # us) \<Rightarrow>
          (case un of
             PDict kvs \<Rightarrow>
               if money (pc_texts c) (get kvs ''amount'' PNone) = None then bad_order c s
               else
                 (let (oid, s) = pp_gen c 17 s; intent = get body ''intent'' PNone;
                      ord = \<lparr>or_completed = False,
                        or_intent = (if truthy intent then pystr (pt_str (pc_texts c)) intent else ''CAPTURE''),
                        or_units = un # us, or_capture = None\<rparr>;
                      s = s\<lparr>pl_orders := (pl_orders s)(oid \<mapsto> ord)\<rparr> in
                  order_reply 201 oid ord s)
           | _ \<Rightarrow> (Inl AttributeError, s))
      | _ \<Rightarrow> bad_order c s)"

definition over_limit :: "paypal_conf \<Rightarrow> rat option \<Rightarrow> bool result" where
  "over_limit c value =
     (case value of
        None \<Rightarrow> Inr False
      | Some v \<Rightarrow> if pc_decline_over c = PNone then Inr False else rbind (float_of (pc_decline_over c)) (\<lambda>limit. Inr (limit \<le> v)))"

text \<open>The amount of the first unit, an empty object if there is none.\<close>

definition first_amount :: "order \<Rightarrow> pyv result" where
  "first_amount ord =
     (case or_units ord of
        [] \<Rightarrow> Inl IndexError
      | un # _ \<Rightarrow> rbind (get_of un ''amount'' PNone) (\<lambda>a. Inr (if truthy a then a else PDict [])))"

definition pp_capture :: "paypal_conf \<Rightarrow> string \<Rightarrow> paypal \<Rightarrow> action result \<times> paypal" where
  "pp_capture c oid s =
     (case pl_orders s oid of
        None \<Rightarrow> not_found c s
      | Some ord \<Rightarrow>
          if or_completed ord then unprocessable c ''ORDER_ALREADY_CAPTURED'' None s
          else case rbind (first_amount ord) (\<lambda>a. rbind (over_limit c (money (pc_texts c) a)) (\<lambda>over. Inr (a, over))) of
            Inl e \<Rightarrow> (Inl e, s)
          | Inr (amount, over) \<Rightarrow>
              if over then unprocessable c ''INSTRUMENT_DECLINED'' (Some DECLINED_TEXT) s
              else
                (let (i, s) = pp_gen c 17 s; currency = part_at amount ''currency_code'';
                     cap = \<lparr>cp_value = or_default 0 (money (pc_texts c) amount),
                       cp_currency = (if truthy currency then pystr (pt_str (pc_texts c)) currency else ''USD''), cp_refunded = 0\<rparr>;
                     ord = ord\<lparr>or_completed := True, or_capture := Some i\<rparr>;
                     s = s\<lparr>pl_captures := (pl_captures s)(i \<mapsto> cap), pl_orders := (pl_orders s)(oid \<mapsto> ord)\<rparr>;
                     s = pp_emit c ''PAYMENT.CAPTURE.COMPLETED'' (capture_resource i cap) s in
                 order_reply 201 oid ord s))"

definition pp_refund_doc :: "string \<Rightarrow> pp_refund \<Rightarrow> config" where
  "pp_refund_doc i r =
     [(''id'', PStr i), (''status'', PStr ''COMPLETED''),
      (''amount'', PDict [(''currency_code'', PStr (pr_currency r)), (''value'', PStr (money_text (pr_amount r)))]),
      (''links'', PList [PDict [(''href'', PStr (''/v2/payments/captures/'' @ pr_capture r)), (''rel'', PStr ''up''), (''method'', PStr ''GET'')]])]"

definition pp_refund :: "paypal_conf \<Rightarrow> string \<Rightarrow> config \<Rightarrow> paypal \<Rightarrow> action result \<times> paypal" where
  "pp_refund c i body s =
     (case pl_captures s i of
        None \<Rightarrow> not_found c s
      | Some cap \<Rightarrow>
          (let remaining = round2 (cp_value cap - cp_refunded cap); asked = get body ''amount'' PNone in
           if remaining \<le> 0 then unprocessable c ''CAPTURE_FULLY_REFUNDED'' None s
           else case (if truthy asked then money (pc_texts c) asked else Some remaining) of
             None \<Rightarrow> unprocessable c ''REFUND_AMOUNT_EXCEEDED'' None s
           | Some amount \<Rightarrow>
               if amount \<le> 0 \<or> remaining < round2 amount then unprocessable c ''REFUND_AMOUNT_EXCEEDED'' None s
               else
                 (let s = s\<lparr>pl_captures := (pl_captures s)(i \<mapsto> cap\<lparr>cp_refunded := round2 (cp_refunded cap + amount)\<rparr>)\<rparr>;
                      (j, s) = pp_gen c 17 s; r = \<lparr>pr_capture = i, pr_amount = amount, pr_currency = cp_currency cap\<rparr>;
                      s = s\<lparr>pl_refunds := AList.update j r (pl_refunds s)\<rparr> in
                  (Inr (json_reply 201 (pp_refund_doc j r)), pp_emit c ''PAYMENT.CAPTURE.REFUNDED'' (pp_refund_doc j r) s))))"

section \<open>Routing\<close>

datatype pp_route = Token | Orders string bool | Refunds string

text \<open>The patterns of paths: an order with an identifier may ask for its capture.\<close>

definition pp_route_of :: "string \<Rightarrow> pp_route option" where
  "pp_route_of path =
     (if chomp path \<in> {''/v1/oauth2/token'', ''/v1/oauth2/token/''} then Some Token
      else case split_char (CHR ''/'') path of
        e # v # a # b # rest \<Rightarrow>
          if e \<noteq> [] \<or> v \<noteq> ''v2'' then None
          else if a = ''checkout'' \<and> (if rest = [] then chomp b else b) = ''orders''
          then (case rest of
                  [] \<Rightarrow> Some (Orders [] False)
                | [i] \<Rightarrow> Some (Orders i False)
                | [i, sub] \<Rightarrow> if i = [] then None else if chomp sub = [] then Some (Orders i False)
                             else if chomp sub = ''capture'' then Some (Orders i True) else None
                | [i, sub, e] \<Rightarrow> if i \<noteq> [] \<and> sub = ''capture'' \<and> chomp e = [] then Some (Orders i True) else None
                | _ \<Rightarrow> None)
          else if a = ''payments'' \<and> b = ''captures''
          then (case rest of
                  [i, sub] \<Rightarrow> if i \<noteq> [] \<and> chomp sub = ''refund'' then Some (Refunds i) else None
                | [i, sub, e] \<Rightarrow> if i \<noteq> [] \<and> sub = ''refund'' \<and> chomp e = [] then Some (Refunds i) else None
                | _ \<Rightarrow> None)
          else None
      | _ \<Rightarrow> None)"

definition bearer :: "paypal_conf \<Rightarrow> http_request \<Rightarrow> string" where
  "bearer c rq =
     (let auth = get (rq_headers rq) ''authorization'' PNone; t = (if truthy auth then pystr (pt_str (pc_texts c)) auth else []) in
      if prefix ''Bearer '' t then drop 7 t else [])"

definition authorised :: "paypal_conf \<Rightarrow> http_request \<Rightarrow> paypal \<Rightarrow> bool" where
  "authorised c rq s \<longleftrightarrow> \<not> pc_require_auth c \<or>
     (bearer c rq \<noteq> [] \<and> (pc_strict_tokens c \<longrightarrow> bearer c rq \<in> set (pl_tokens s)))"

definition body_items :: "http_request \<Rightarrow> config" where
  "body_items rq = (case rq_body rq of PDict kvs \<Rightarrow> kvs | _ \<Rightarrow> [])"

definition paypal_decide :: "paypal_conf \<Rightarrow> http_request \<Rightarrow> paypal \<Rightarrow> action result \<times> paypal" where
  "paypal_decide c rq s =
     (let route = pp_route_of (rq_path rq); mock = mock_issue c (rq_headers rq); method = rq_method rq in
      if route = Some Token then pp_token c rq s
      else if \<not> authorised c rq s
      then (Inr (json_reply 401 [(''name'', PStr ''AUTHENTICATION_FAILURE''),
              (''message'', PStr ''Authentication failed due to invalid authentication credentials or a missing Authorization header.'')]), s)
      else case route of
        Some (Orders i sub) \<Rightarrow>
          if method = ''POST'' \<and> i = [] then create_order c (body_items rq) s
          else if method = ''GET'' \<and> i \<noteq> [] \<and> \<not> sub
          then (case pl_orders s i of None \<Rightarrow> not_found c s | Some ord \<Rightarrow> order_reply 200 i ord s)
          else if method = ''POST'' \<and> i \<noteq> [] \<and> sub
          then (case mock of Some issue \<Rightarrow> mock_error c issue s | None \<Rightarrow> pp_capture c i s)
          else not_supported c s
      | Some (Refunds i) \<Rightarrow>
          if method \<noteq> ''POST'' then not_supported c s
          else (case mock of Some issue \<Rightarrow> mock_error c issue s | None \<Rightarrow> pp_refund c i (body_items rq) s)
      | _ \<Rightarrow> pp_err c 404 ''RESOURCE_NOT_FOUND'' ''The specified resource does not exist.'' (Some ''INVALID_RESOURCE_ID'') None None s)"

text \<open>\<open>_response_code\<close>.\<close>

definition paypal_code :: "py_texts \<Rightarrow> action \<Rightarrow> string result" where
  "paypal_code l action =
     rbind (items_or AttributeError (get action ''json'' PNone)) (\<lambda>body.
       Inr (pystr (pt_str l)
         (case get body ''details'' PNone of
            PList (PDict d # _) \<Rightarrow> if truthy (get d ''issue'' PNone) then get d ''issue'' PNone else get body ''name'' PNone
          | _ \<Rightarrow> if truthy (get body ''name'' PNone) then get body ''name'' PNone
                else if truthy (get body ''status'' PNone) then get body ''status'' PNone else get action ''status'' (PInt 200))))"

section \<open>Whole cents\<close>

definition cents :: "rat \<Rightarrow> bool" where
  "cents q \<longleftrightarrow> (\<exists>n :: int. q = of_int n / 100)"

lemma round_int_of_int: "round_int (of_int n) = n"
  by (simp add: round_int_def Let_def)

lemma round2_cents: "cents q \<Longrightarrow> round2 q = q"
  by (auto simp: cents_def round2_def round_int_of_int)

lemma cents_0: "cents 0"
  unfolding cents_def by (intro exI [of _ 0]) simp

lemma cents_add: "cents p \<Longrightarrow> cents q \<Longrightarrow> cents (p + q)"
  unfolding cents_def by (metis add_divide_distrib of_int_add)

lemma cents_diff: "cents p \<Longrightarrow> cents q \<Longrightarrow> cents (p - q)"
  unfolding cents_def by (metis diff_divide_distrib of_int_diff)

definition cents_amount :: "paypal_conf \<Rightarrow> pyv \<Rightarrow> bool" where
  "cents_amount c amount = (case money (pc_texts c) amount of None \<Rightarrow> True | Some q \<Rightarrow> cents q)"

lemma cents_amountD: "cents_amount c a \<Longrightarrow> money (pc_texts c) a = Some q \<Longrightarrow> cents q"
  by (simp add: cents_amount_def)

text \<open>Amounts of the orders that are created and of the refunds that are asked for are whole cents.\<close>

definition fair_paypal :: "paypal_conf \<Rightarrow> http_request \<Rightarrow> bool" where
  "fair_paypal c rq \<longleftrightarrow> cents_amount c (get (body_items rq) ''amount'' PNone) \<and>
     (case get (body_items rq) ''purchase_units'' PNone of
        PList (PDict kvs # _) \<Rightarrow> cents_amount c (get kvs ''amount'' PNone)
      | _ \<Rightarrow> True)"

definition fair_order :: "paypal_conf \<Rightarrow> order \<Rightarrow> bool" where
  "fair_order c ord = (case first_amount ord of Inl _ \<Rightarrow> True | Inr a \<Rightarrow> cents_amount c a)"

section \<open>What a request changes\<close>

definition orders_from :: "paypal_conf \<Rightarrow> paypal \<Rightarrow> paypal \<Rightarrow> bool" where
  "orders_from c s s' \<longleftrightarrow> (\<forall>i ord. pl_orders s' i = Some ord \<longrightarrow> pl_orders s i = Some ord \<or> fair_order c ord)"

inductive pp_change :: "paypal_conf \<Rightarrow> paypal \<Rightarrow> paypal \<Rightarrow> bool" for c where
  idle: "pl_captures s' = pl_captures s \<Longrightarrow> pl_refunds s' = pl_refunds s \<Longrightarrow> pl_next s \<le> pl_next s' \<Longrightarrow> orders_from c s s' \<Longrightarrow>
     pp_change c s s'"
| took: "i = pc_fresh c 17 (pl_next s) \<Longrightarrow> cents (cp_value cap) \<Longrightarrow> cp_refunded cap = 0 \<Longrightarrow>
     pl_captures s' = (pl_captures s)(i \<mapsto> cap) \<Longrightarrow> pl_refunds s' = pl_refunds s \<Longrightarrow> pl_next s < pl_next s' \<Longrightarrow>
     orders_from c s s' \<Longrightarrow> pp_change c s s'"
| gave: "pl_captures s i = Some cap \<Longrightarrow> 0 < pr_amount r \<Longrightarrow> pr_amount r \<le> cp_value cap - cp_refunded cap \<Longrightarrow> cents (pr_amount r) \<Longrightarrow>
     pr_capture r = i \<Longrightarrow> pl_captures s' = (pl_captures s)(i \<mapsto> cap\<lparr>cp_refunded := cp_refunded cap + pr_amount r\<rparr>) \<Longrightarrow>
     pl_refunds s' = AList.update (pc_fresh c 17 (pl_next s)) r (pl_refunds s) \<Longrightarrow> pl_next s < pl_next s' \<Longrightarrow>
     orders_from c s s' \<Longrightarrow> pp_change c s s'"

definition pp_refunds_of :: "paypal \<Rightarrow> string \<Rightarrow> rat" where
  "pp_refunds_of s p = sum_list (map (\<lambda>(i, r). if pr_capture r = p then pr_amount r else 0) (pl_refunds s))"

definition pp_known :: "paypal_conf \<Rightarrow> paypal \<Rightarrow> string \<Rightarrow> bool" where
  "pp_known c s i \<longleftrightarrow> (\<exists>n < pl_next s. i = pc_fresh c 17 n)"

definition capture_ok :: "paypal_conf \<Rightarrow> paypal \<Rightarrow> string \<Rightarrow> captured \<Rightarrow> bool" where
  "capture_ok c s p cap \<longleftrightarrow> pp_known c s p \<and> cents (cp_value cap) \<and> cents (cp_refunded cap) \<and> 0 \<le> cp_refunded cap \<and>
     cp_refunded cap \<le> max 0 (cp_value cap) \<and> pp_refunds_of s p = cp_refunded cap"

definition paypal_ok :: "paypal_conf \<Rightarrow> paypal \<Rightarrow> bool" where
  "paypal_ok c s \<longleftrightarrow> inj (pc_fresh c 17) \<and> distinct (map fst (pl_refunds s)) \<and> (\<forall>i \<in> set (map fst (pl_refunds s)). pp_known c s i) \<and>
     (\<forall>p. case pl_captures s p of None \<Rightarrow> pp_refunds_of s p = 0 | Some cap \<Rightarrow> capture_ok c s p cap) \<and>
     (\<forall>i ord. pl_orders s i = Some ord \<longrightarrow> fair_order c ord)"

lemma paypal_okD:
  assumes "paypal_ok c s"
  shows "pl_captures s p = Some cap \<Longrightarrow> capture_ok c s p cap" and "pl_captures s p = None \<Longrightarrow> pp_refunds_of s p = 0"
    and "pl_orders s i = Some ord \<Longrightarrow> fair_order c ord" and "inj (pc_fresh c 17)"
    and "pc_fresh c 17 (pl_next s) \<notin> fst ` set (pl_refunds s)" and "pl_captures s (pc_fresh c 17 (pl_next s)) = None"
proof -
  have all: "case pl_captures s p of None \<Rightarrow> pp_refunds_of s p = 0 | Some cap \<Rightarrow> capture_ok c s p cap" for p
    using assms unfolding paypal_ok_def by blast
  show "pl_captures s p = Some cap \<Longrightarrow> capture_ok c s p cap" "pl_captures s p = None \<Longrightarrow> pp_refunds_of s p = 0"
    using all [of p] by simp_all
  show "pl_orders s i = Some ord \<Longrightarrow> fair_order c ord" and inj: "inj (pc_fresh c 17)"
    using assms by (auto simp: paypal_ok_def)
  have new: "\<not> pp_known c s (pc_fresh c 17 (pl_next s))" using inj by (auto simp: pp_known_def inj_def)
  then show "pc_fresh c 17 (pl_next s) \<notin> fst ` set (pl_refunds s)" using assms by (auto simp: paypal_ok_def)
  show "pl_captures s (pc_fresh c 17 (pl_next s)) = None"
    using all [of "pc_fresh c 17 (pl_next s)"] new by (auto simp: capture_ok_def split: option.splits)
qed

lemma pp_known_grows: "pp_known c s i \<Longrightarrow> pl_next s \<le> pl_next s' \<Longrightarrow> pp_known c s' i"
  unfolding pp_known_def by (elim exE conjE) (intro exI conjI, erule (1) less_le_trans)

text \<open>The invariant after a change, from what holds of the captures.\<close>

lemma paypal_ok_after:
  assumes "paypal_ok c s" and "orders_from c s s'" and "pl_next s \<le> pl_next s'"
    and "distinct (map fst (pl_refunds s'))" and "\<forall>i \<in> set (map fst (pl_refunds s')). pp_known c s' i"
    and "\<And>q. q \<noteq> p \<Longrightarrow> pl_captures s' q = pl_captures s q \<and> pp_refunds_of s' q = pp_refunds_of s q"
    and "case pl_captures s' p of None \<Rightarrow> pp_refunds_of s' p = 0 | Some cap \<Rightarrow> capture_ok c s' p cap"
  shows "paypal_ok c s'"
proof -
  have "case pl_captures s' q of None \<Rightarrow> pp_refunds_of s' q = 0 | Some cap \<Rightarrow> capture_ok c s' q cap" for q
  proof (cases "q = p")
    case True
    show ?thesis unfolding True by (rule assms(7))
  next
    case False
    then show ?thesis using paypal_okD(1,2) [OF assms(1), of q] assms(6) [OF False] pp_known_grows [OF _ assms(3)]
      by (auto simp: capture_ok_def split: option.split)
  qed
  moreover have "pl_orders s' i = Some ord \<Longrightarrow> fair_order c ord" for i ord
    using assms(2) paypal_okD(3) [OF assms(1)] unfolding orders_from_def by blast
  ultimately show ?thesis using assms(4,5) paypal_okD(4) [OF assms(1)] by (simp add: paypal_ok_def)
qed

lemma pp_change_ok: "pp_change c s s' \<Longrightarrow> paypal_ok c s \<Longrightarrow> paypal_ok c s'"
proof (induction rule: pp_change.induct)
  case (idle s' s)
  have r: "pp_refunds_of s' q = pp_refunds_of s q" for q using idle.hyps(2) by (simp add: pp_refunds_of_def)
  have k: "pp_known c s q \<Longrightarrow> pp_known c s' q" for q using pp_known_grows [OF _ idle.hyps(3)] .
  have "case pl_captures s' p of None \<Rightarrow> pp_refunds_of s' p = 0 | Some cap \<Rightarrow> capture_ok c s' p cap" for p
    using paypal_okD(1,2) [OF idle.prems, of p] idle.hyps(1) r k by (auto simp: capture_ok_def split: option.split)
  then show ?case
    by (intro paypal_ok_after [OF idle.prems idle.hyps(4,3)]) (use idle.hyps idle.prems r k in \<open>auto simp: paypal_ok_def\<close>)
next
  case (took i s cap s')
  have r: "pp_refunds_of s' q = pp_refunds_of s q" for q using took.hyps(5) by (simp add: pp_refunds_of_def)
  have k: "pp_known c s q \<Longrightarrow> pp_known c s' q" for q using pp_known_grows took.hyps(6) by (meson less_imp_le)
  have "pp_known c s' i" using took.hyps(1,6) unfolding pp_known_def by blast
  then have "case pl_captures s' i of None \<Rightarrow> pp_refunds_of s' i = 0 | Some cap \<Rightarrow> capture_ok c s' i cap"
    using took.hyps(1-4) paypal_okD(2,6) [OF took.prems] cents_0 by (simp add: capture_ok_def r)
  then show ?case
    by (intro paypal_ok_after [OF took.prems took.hyps(7), of i]) (use took.hyps took.prems r k in \<open>auto simp: paypal_ok_def\<close>)
next
  case (gave s i cap r s')
  note new = paypal_okD(5) [OF gave.prems]
  have sums: "pp_refunds_of s' q = pp_refunds_of s q + (if q = i then pr_amount r else 0)" for q
    using gave.hyps(5,7) by (simp add: pp_refunds_of_def update_new [OF new])
  have k: "pp_known c s q \<Longrightarrow> pp_known c s' q" for q using pp_known_grows gave.hyps(8) by (meson less_imp_le)
  have "pp_known c s' (pc_fresh c 17 (pl_next s))" using gave.hyps(8) unfolding pp_known_def by blast
  then have ids: "\<forall>j \<in> set (map fst (pl_refunds s')). pp_known c s' j"
    using gave.prems k by (auto simp: gave.hyps(7) update_new [OF new] paypal_ok_def)
  have dist: "distinct (map fst (pl_refunds s'))" using gave.prems by (simp add: gave.hyps(7) distinct_update paypal_ok_def)
  note ok = paypal_okD(1) [OF gave.prems gave.hyps(1)]
  have "case pl_captures s' i of None \<Rightarrow> pp_refunds_of s' i = 0 | Some cap \<Rightarrow> capture_ok c s' i cap"
    using ok gave.hyps(2-4,6) sums [of i] cents_add k by (simp add: capture_ok_def)
  then show ?case
    by (intro paypal_ok_after [OF gave.prems gave.hyps(9) _ dist ids, of i]) (use gave.hyps sums in \<open>auto simp: less_imp_le\<close>)
qed

section \<open>Requests make these changes\<close>

definition quiet :: "paypal \<Rightarrow> paypal \<Rightarrow> bool" where
  "quiet s s' \<longleftrightarrow> pl_captures s' = pl_captures s \<and> pl_refunds s' = pl_refunds s \<and> pl_orders s' = pl_orders s \<and> pl_next s \<le> pl_next s'"

lemma quiet_refl [simp]: "quiet s s"
  by (simp add: quiet_def)

lemma quiet_change: "quiet s s' \<Longrightarrow> pp_change c s s'"
  by (rule idle) (simp_all add: quiet_def orders_from_def)

lemma pp_gen_quiet: "quiet s (snd (pp_gen c n s))"
  by (simp add: pp_gen_def quiet_def)

lemma pp_emit_quiet: "quiet s (pp_emit c kind resource s)"
  by (simp add: pp_emit_def pp_gen_def quiet_def Let_def)

lemma answers_quiet [simp]:
  "quiet s (snd (pp_err c status name message issue description fld s))" "quiet s (snd (unprocessable c code description s))"
  "quiet s (snd (not_found c s))" "quiet s (snd (not_supported c s))" "quiet s (snd (mock_error c code s))"
  "quiet s (snd (bad_order c s))" "quiet s (snd (order_reply status i ord s))"
  by (simp_all add: pp_err_def unprocessable_def not_found_def not_supported_def mock_error_def bad_order_def order_reply_def
      pp_gen_def quiet_def Let_def)

lemma token_quiet: "quiet s (snd (pp_token c rq s))"
  by (simp add: pp_token_def pp_gen_def Let_def) (simp add: quiet_def)

lemma money_empty: "\<not> truthy v \<Longrightarrow> money l (PDict []) = money l v"
  by (cases v) (simp_all add: money_def part_at_def dig_body_def py_isdigit_def py_isdigit_char_def is_dec_def u_def)

lemma create_order_changes:
  assumes "fair_paypal c rq"
  shows "pp_change c s (snd (create_order c (body_items rq) s))"
proof (cases "\<exists>kvs us. get (body_items rq) ''purchase_units'' PNone = PList (PDict kvs # us) \<and> money (pc_texts c) (get kvs ''amount'' PNone) \<noteq> None")
  case True
  then obtain kvs us where e: "get (body_items rq) ''purchase_units'' PNone = PList (PDict kvs # us)"
    "money (pc_texts c) (get kvs ''amount'' PNone) \<noteq> None" by blast
  let ?o = "\<lparr>or_completed = False, or_intent = (if truthy (get (body_items rq) ''intent'' PNone)
      then pystr (pt_str (pc_texts c)) (get (body_items rq) ''intent'' PNone) else ''CAPTURE''), or_units = PDict kvs # us, or_capture = None\<rparr>"
  let ?s = "s\<lparr>pl_next := Suc (pl_next s), pl_orders := (pl_orders s)(pc_fresh c 17 (pl_next s) \<mapsto> ?o)\<rparr>"
  have "fair_order c ?o"
  proof (cases "kvs = []")
    case True
    then show ?thesis
      using assms e money_empty [of PNone] by (auto simp: fair_order_def first_amount_def fair_paypal_def get_of_def items_or_def cents_amount_def)
  next
    case False
    then show ?thesis
      using assms e money_empty by (auto simp: fair_order_def first_amount_def fair_paypal_def get_of_def items_or_def cents_amount_def)
  qed
  then have "pp_change c s ?s" by (intro idle) (auto simp: orders_from_def)
  then show ?thesis using e(1) e(2) [unfolded not_None_eq] by (auto simp: create_order_def pp_gen_def order_reply_def Let_def)
next
  case False
  then have "quiet s (snd (create_order c (body_items rq) s))"
    by (auto simp: create_order_def split: pyv.split list.split)
  then show ?thesis by (rule quiet_change)
qed

lemma pp_capture_changes:
  assumes "paypal_ok c s"
  shows "pp_change c s (snd (pp_capture c i s))"
proof (cases "\<exists>ord a. pl_orders s i = Some ord \<and> \<not> or_completed ord \<and> first_amount ord = Inr a \<and> over_limit c (money (pc_texts c) a) = Inr False")
  case True
  then obtain ord a where e: "pl_orders s i = Some ord" "\<not> or_completed ord" "first_amount ord = Inr a"
    "over_limit c (money (pc_texts c) a) = Inr False" by blast
  let ?j = "pc_fresh c 17 (pl_next s)"
  let ?cap = "\<lparr>cp_value = or_default 0 (money (pc_texts c) a),
    cp_currency = (if truthy (part_at a ''currency_code'') then pystr (pt_str (pc_texts c)) (part_at a ''currency_code'') else ''USD''), cp_refunded = 0\<rparr>"
  let ?o = "ord\<lparr>or_completed := True, or_capture := Some ?j\<rparr>"
  let ?s = "s\<lparr>pl_next := Suc (pl_next s), pl_captures := (pl_captures s)(?j \<mapsto> ?cap), pl_orders := (pl_orders s)(i \<mapsto> ?o)\<rparr>"
  have fair: "fair_order c ord" by (rule paypal_okD(3) [OF assms e(1)])
  have "first_amount ?o = first_amount ord" by (simp add: first_amount_def)
  then have fair': "fair_order c ?o" using fair by (simp add: fair_order_def)
  have "cents (cp_value ?cap)"
    using fair e(3) cents_0 by (auto simp: fair_order_def cents_amount_def or_default_def split: option.splits)
  moreover have "snd (pp_capture c i s) = pp_emit c ''PAYMENT.CAPTURE.COMPLETED'' (capture_resource ?j ?cap) ?s"
    using e by (simp add: pp_capture_def pp_gen_def Let_def order_reply_def)
  ultimately show ?thesis
    using pp_emit_quiet [where s = ?s and c = c and kind = "''PAYMENT.CAPTURE.COMPLETED''" and resource = "capture_resource ?j ?cap"] fair'
    by (intro took [where i = ?j and s = s and cap = ?cap]) (auto simp: quiet_def orders_from_def)
next
  case False
  then have "quiet s (snd (pp_capture c i s))"
    by (auto simp: pp_capture_def result_iff split: option.split sum.split)
  then show ?thesis by (rule quiet_change)
qed

lemma refund_pp_changes:
  assumes "paypal_ok c s" and "cents_amount c (get body ''amount'' PNone)"
  shows "pp_change c s (snd (pp_refund c i body s))"
proof -
  define asked where "asked = get body ''amount'' PNone"
  show ?thesis
  proof (cases "\<exists>cap q. pl_captures s i = Some cap \<and> 0 < round2 (cp_value cap - cp_refunded cap) \<and>
      (if truthy asked then money (pc_texts c) asked else Some (round2 (cp_value cap - cp_refunded cap))) = Some q \<and>
      0 < q \<and> round2 q \<le> round2 (cp_value cap - cp_refunded cap)")
    case True
    then obtain cap q where e: "pl_captures s i = Some cap" "0 < round2 (cp_value cap - cp_refunded cap)"
      "(if truthy asked then money (pc_texts c) asked else Some (round2 (cp_value cap - cp_refunded cap))) = Some q"
      "0 < q" "round2 q \<le> round2 (cp_value cap - cp_refunded cap)" by blast
    have ok: "cents (cp_value cap)" "cents (cp_refunded cap)" using paypal_okD(1) [OF assms(1) e(1)] by (simp_all add: capture_ok_def)
    note left = cents_diff [OF ok]
    have q: "cents q" using e(3) assms(2) left round2_cents [OF left]
      by (auto simp: asked_def [symmetric] dest: cents_amountD split: if_splits)
    let ?j = "pc_fresh c 17 (pl_next s)"
    let ?r = "\<lparr>pr_capture = i, pr_amount = q, pr_currency = cp_currency cap\<rparr>"
    let ?s = "s\<lparr>pl_captures := (pl_captures s)(i \<mapsto> cap\<lparr>cp_refunded := cp_refunded cap + q\<rparr>), pl_next := Suc (pl_next s),
      pl_refunds := AList.update ?j ?r (pl_refunds s)\<rparr>"
    have "snd (pp_refund c i body s) = pp_emit c ''PAYMENT.CAPTURE.REFUNDED'' (pp_refund_doc ?j ?r) ?s"
      using e round2_cents [OF cents_add [OF ok(2) q]]
      by (simp add: pp_refund_def pp_gen_def Let_def asked_def [symmetric] not_le [symmetric])
    moreover have "q \<le> cp_value cap - cp_refunded cap" using e(5) round2_cents [OF q] round2_cents [OF left] by simp
    ultimately show ?thesis
      using pp_emit_quiet [where s = ?s and c = c and kind = "''PAYMENT.CAPTURE.REFUNDED''" and resource = "pp_refund_doc ?j ?r"] e q
      by (intro gave [where s = s and i = i and cap = cap and r = ?r]) (auto simp: quiet_def orders_from_def)
  next
    case False
    have "quiet s (snd (pp_refund c i body s))"
    proof (cases "pl_captures s i")
      case (Some cap)
      show ?thesis
      proof (cases "round2 (cp_value cap - cp_refunded cap) \<le> 0")
        case left: False
        show ?thesis
        proof (cases "if truthy asked then money (pc_texts c) asked else Some (round2 (cp_value cap - cp_refunded cap))")
          case None
          then show ?thesis using Some left by (simp add: pp_refund_def Let_def asked_def [symmetric])
        next
          case (Some q)
          then have "q \<le> 0 \<or> round2 (cp_value cap - cp_refunded cap) < round2 q"
            using False left \<open>pl_captures s i = Some cap\<close> by (meson not_le)
          then show ?thesis using Some left \<open>pl_captures s i = Some cap\<close> by (simp add: pp_refund_def Let_def asked_def [symmetric])
        qed
      qed (simp add: pp_refund_def Some Let_def)
    qed (simp add: pp_refund_def)
    then show ?thesis by (rule quiet_change)
  qed
qed

lemma paypal_changes:
  assumes "paypal_ok c s" and "fair_paypal c rq"
  shows "pp_change c s (snd (paypal_decide c rq s))"
proof -
  have "cents_amount c (get (body_items rq) ''amount'' PNone)" using assms(2) by (simp add: fair_paypal_def)
  then show ?thesis
    using create_order_changes [OF assms(2), of s] pp_capture_changes [OF assms(1)] refund_pp_changes [OF assms(1)] token_quiet
    by (auto simp: paypal_decide_def Let_def intro: quiet_change split: option.split pp_route.split)
qed

section \<open>Traffic\<close>

definition paypal_taken :: "paypal \<Rightarrow> string \<Rightarrow> rat option" where
  "paypal_taken s p = map_option cp_value (pl_captures s p)"

lemma pp_change_keeps:
  "pp_change c s s' \<Longrightarrow> paypal_ok c s \<Longrightarrow>
     (paypal_taken s p = Some v \<longrightarrow> paypal_taken s' p = Some v) \<and> pp_refunds_of s p \<le> pp_refunds_of s' p"
proof (induction rule: pp_change.induct)
  case (idle s' s)
  then show ?case by (simp add: paypal_taken_def pp_refunds_of_def)
next
  case (took i s cap s')
  then show ?case using paypal_okD(6) [OF took.prems] by (auto simp: paypal_taken_def pp_refunds_of_def)
next
  case (gave s i cap r s')
  then show ?case using update_new [OF paypal_okD(5) [OF gave.prems], of r]
    by (auto simp: paypal_taken_def pp_refunds_of_def)
qed

interpretation paypal: ledger "paypal_decide c" "paypal_ok c" "fair_paypal c" paypal_taken pp_refunds_of for c
proof
  fix s rq p v
  assume ok: "paypal_ok c s"
  {
    assume fair: "fair_paypal c rq"
    note ch = paypal_changes [OF ok fair]
    show "paypal_ok c (snd (paypal_decide c rq s))" by (rule pp_change_ok [OF ch ok])
    show "pp_refunds_of s p \<le> pp_refunds_of (snd (paypal_decide c rq s)) p" using pp_change_keeps [OF ch ok] by blast
    show "paypal_taken s p = Some v \<Longrightarrow> paypal_taken (snd (paypal_decide c rq s)) p = Some v"
      using pp_change_keeps [OF ch ok] by blast
  }
  assume "paypal_taken s p = Some v"
  then obtain cap where "pl_captures s p = Some cap" "v = cp_value cap" by (auto simp: paypal_taken_def)
  then show "0 \<le> pp_refunds_of s p \<and> pp_refunds_of s p \<le> max 0 v" using paypal_okD(1) [OF ok] by (simp add: capture_ok_def)
qed

lemma paypal_start: "inj (pc_fresh c 17) \<Longrightarrow> paypal_ok c no_orders"
  by (simp add: paypal_ok_def no_orders_def pp_refunds_of_def)

text \<open>C19. As long as amounts are whole cents, the refunds of a capture sum up to what it has recorded as refunded, and never to
  more than it took, whatever requests, rules and faults there are.\<close>

theorem paypal_refunds_are_covered:
  assumes "inj (pc_fresh c 17)" and "serves (pc_texts c) (paypal_decide c) h" and "list_all (fair_paypal c) (earlier @ later)"
    and "s1 = snd (handle_all h earlier (fresh_server no_orders g))" and "s2 = snd (handle_all h later s1)"
    and "pl_captures (hs_gateway s1) p = Some cap"
  shows "\<exists>cap'. pl_captures (hs_gateway s2) p = Some cap' \<and> cp_value cap' = cp_value cap \<and>
    cp_refunded cap' = pp_refunds_of (hs_gateway s2) p \<and>
    pp_refunds_of (hs_gateway s1) p \<le> pp_refunds_of (hs_gateway s2) p \<and> pp_refunds_of (hs_gateway s2) p \<le> max 0 (cp_value cap)"
proof -
  obtain rules where r: "\<And>rqs s. hs_gateway (snd (handle_all h rqs s)) =
    fold (\<lambda>rq g. snd (behind_rules (pc_texts c) rules (paypal_decide c) rq g)) rqs (hs_gateway s)"
    by (rule served [OF assms(2)]) blast
  have fair: "list_all (fair_paypal c) earlier" "list_all (fair_paypal c) later" using assms(3) by simp_all
  have start: "paypal_ok c (hs_gateway (fresh_server no_orders g))" by (simp add: fresh_server_def paypal_start assms(1))
  have ok: "paypal_ok c (hs_gateway s1)" unfolding assms(4) r by (rule paypal.traffic [OF start fair(1)])
  have ok2: "paypal_ok c (hs_gateway s2)" unfolding assms(5) r by (rule paypal.traffic [OF ok fair(2)])
  have t: "paypal_taken (hs_gateway s1) p = Some (cp_value cap)" using assms(6) by (simp add: paypal_taken_def)
  have "paypal_taken (hs_gateway s2) p = Some (cp_value cap)"
    using paypal.taken_stays [OF ok fair(2) t] by (simp add: assms(5) r)
  then obtain cap' where "pl_captures (hs_gateway s2) p = Some cap'" "cp_value cap' = cp_value cap"
    by (auto simp: paypal_taken_def)
  moreover from this paypal_okD(1) [OF ok2] have "cp_refunded cap' = pp_refunds_of (hs_gateway s2) p" by (simp add: capture_ok_def)
  moreover have "pp_refunds_of (hs_gateway s1) p \<le> pp_refunds_of (hs_gateway s2) p \<and>
      pp_refunds_of (hs_gateway s2) p \<le> max 0 (cp_value cap)"
    using paypal.never_overdrawn [OF ok fair(2) t] by (simp add: assms(5) r)
  ultimately show ?thesis by blast
qed

section \<open>Examples\<close>

definition demo_paypal :: paypal_conf where
  "demo_paypal = \<lparr>pc_texts = demo_texts, pc_loads = (\<lambda>_. None),
     pc_require_auth = False, pc_strict_tokens = False, pc_decline_over = PNone, pc_fresh = (\<lambda>_ n. replicate (Suc n) (CHR ''X'')),
     pc_webhooks = False, pc_events = []\<rparr>"

definition paypal_server :: "(paypal, unit) http_conf" where
  "paypal_server = \<lparr>hc_texts = pc_texts demo_paypal, hc_chaos = [],
     hc_resolve = behind_rules (pc_texts demo_paypal) [] (paypal_decide demo_paypal), hc_code = paypal_code (pc_texts demo_paypal),
     hc_rng = no_rng\<rparr>"

definition in_usd :: "string \<Rightarrow> pyv" where
  "in_usd v = PDict [(''value'', PStr v)]"

definition demo_order :: "http_request list" where
  "demo_order = [post ''/v2/checkout/orders'' [(''purchase_units'', PList [PDict [(''amount'', in_usd ''9.00'')]])],
     post ''/v2/checkout/orders/X/capture'' []]"

definition pp_refund_of :: "string \<Rightarrow> http_request" where
  "pp_refund_of v = post ''/v2/payments/captures/XX/refund'' [(''amount'', in_usd v)]"

lemma demo_paypal_fresh: "inj (pc_fresh demo_paypal 17)"
  by (auto simp: demo_paypal_def inj_def replicate_eq_replicate)

lemma demo_paypal_served: "serves (pc_texts demo_paypal) (paypal_decide demo_paypal) paypal_server"
  by (auto simp: serves_def paypal_server_def)

definition paypal_after :: "http_request list \<Rightarrow> (paypal, unit) http_server" where
  "paypal_after rqs = snd (handle_all paypal_server rqs (fresh_server no_orders ()))"

definition nine_cap :: captured where
  "nine_cap = \<lparr>cp_value = 9, cp_currency = ''USD'', cp_refunded = 0\<rparr>"

lemma demo_captured: "pl_captures (hs_gateway (paypal_after demo_order)) ''XX'' = Some nine_cap"
  by code_simp

lemma demo_money: "money (pc_texts demo_paypal) (in_usd ''9.00'') = Some 9" "money (pc_texts demo_paypal) (in_usd ''5.50'') = Some (11 / 2)"
  "money (pc_texts demo_paypal) PNone = None"
  by code_simp+

lemma demo_fair: "list_all (fair_paypal demo_paypal) (demo_order @ [pp_refund_of ''5.50'', pp_refund_of ''5.50''])"
proof -
  have "cents 9" "cents (11 / 2)"
    unfolding cents_def by (intro exI [of _ 900]; simp) (intro exI [of _ 550]; simp)
  then show ?thesis
    using demo_money
    by (simp add: demo_order_def pp_refund_of_def post_def fair_paypal_def body_items_def cents_amount_def)
qed

theorem paypal_refunds_are_covered_witness:
  "\<exists>cap'. pl_captures (hs_gateway (snd (handle_all paypal_server [pp_refund_of ''5.50'', pp_refund_of ''5.50''] (paypal_after demo_order)))) ''XX''
       = Some cap' \<and> cp_value cap' = 9 \<and>
     pp_refunds_of (hs_gateway (snd (handle_all paypal_server [pp_refund_of ''5.50'', pp_refund_of ''5.50''] (paypal_after demo_order)))) ''XX'' \<le> 9"
  using paypal_refunds_are_covered [OF demo_paypal_fresh demo_paypal_served demo_fair paypal_after_def refl demo_captured]
  by (auto simp: nine_cap_def)

lemma demo_refunded:
  "map_option cp_refunded (pl_captures (hs_gateway (paypal_after (demo_order @ [pp_refund_of ''5.50'', pp_refund_of ''5.50'']))) ''XX'')
   = Some (11 / 2)"
  by code_simp

text \<open>A refund below half a cent is paid out and not recorded, as often as it is asked for.\<close>

theorem small_refunds_are_free:
  assumes "pl_captures s i = Some cap" and "cents (cp_value cap)" and "cents (cp_refunded cap)" and "cp_refunded cap < cp_value cap"
    and "money (pc_texts c) (get body ''amount'' PNone) = Some q" and "0 < q" and "q < 1 / 200" and "truthy (get body ''amount'' PNone)"
  shows "\<exists>doc. fst (pp_refund c i body s) = Inr (json_reply 201 doc) \<and> pl_captures (snd (pp_refund c i body s)) i = Some cap"
proof -
  have left: "round2 (cp_value cap - cp_refunded cap) = cp_value cap - cp_refunded cap"
    by (rule round2_cents [OF cents_diff [OF assms(2,3)]])
  obtain n where n: "cp_refunded cap = of_int n / 100" using assms(3) unfolding cents_def by blast
  have "\<lfloor>q * 100\<rfloor> = 0" using assms(6,7) by (simp add: floor_eq_iff)
  then have small: "round2 q = 0" using assms(7) by (simp add: round2_def round_int_def Let_def)
  have "\<lfloor>(of_int n :: rat) + q * 100\<rfloor> = n" using assms(6,7) by (simp add: floor_eq_iff)
  moreover have "(cp_refunded cap + q) * 100 = of_int n + q * 100" using n by (simp add: algebra_simps)
  ultimately have "round2 (cp_refunded cap + q) = cp_refunded cap"
    using assms(7) n by (simp add: round2_def round_int_def Let_def)
  then have same: "cap\<lparr>cp_refunded := round2 (cp_refunded cap + q)\<rparr> = cap" by simp
  show ?thesis
    using assms left small same by (auto simp: pp_refund_def pp_gen_def Let_def pp_emit_def)
qed

text \<open>A capture of fractions of a cent may be refunded with more than it took, and an order of a negative amount is captured.\<close>

theorem fractions_are_overpaid:
  "map_option (\<lambda>cap. (cp_value cap, cp_refunded cap)) (pl_captures (hs_gateway (paypal_after
     [post ''/v2/checkout/orders'' [(''purchase_units'', PList [PDict [(''amount'', in_usd ''0.006'')]])],
      post ''/v2/checkout/orders/X/capture'' [], pp_refund_of ''0.01''])) ''XX'') = Some (6 / 1000, 1 / 100)"
  by code_simp

theorem negative_order_is_captured:
  "map_option cp_value (pl_captures (hs_gateway (paypal_after
     [post ''/v2/checkout/orders'' [(''purchase_units'', PList [PDict [(''amount'', in_usd ''-5'')]])],
      post ''/v2/checkout/orders/X/capture'' []])) ''XX'') = Some (- 5)"
  by code_simp

end
