(* ===== verification/Cybersource_Sim.thy ===== *)
theory Cybersource_Sim
  imports Http_Sim
begin

text \<open>
  The simulated CyberSource (\<open>worker/adapters/scheme/cybersource.py\<close>): authorisations and what follows on them, behind the
  HTTP responder. Identifiers, approval codes and the clock are sequences that a counter runs through. Amounts are
  rational numbers.
\<close>

section \<open>State\<close>

datatype cy_status = Authorized | Partial_Authorized | Declined | Pending | Reversed_St | Voided_St

fun cy_status_text :: "cy_status \<Rightarrow> string" where
  "cy_status_text Authorized = ''AUTHORIZED''"
| "cy_status_text Partial_Authorized = ''PARTIAL_AUTHORIZED''"
| "cy_status_text Declined = ''DECLINED''"
| "cy_status_text Pending = ''PENDING''"
| "cy_status_text Reversed_St = ''REVERSED''"
| "cy_status_text Voided_St = ''VOIDED''"

datatype cy_kind = Auth | Capture | Reversal | Refund | Void

fun cy_kind_text :: "cy_kind \<Rightarrow> string" where
  "cy_kind_text Auth = ''auth''"
| "cy_kind_text Capture = ''capture''"
| "cy_kind_text Reversal = ''reversal''"
| "cy_kind_text Refund = ''refund''"
| "cy_kind_text Void = ''void''"

record cy_txn =
  tx_status :: cy_status
  tx_amount :: "rat option"
  tx_kind :: cy_kind
  tx_captured :: bool
  tx_reversed :: bool
  tx_voided :: bool
  tx_refunded :: bool

record cyber =
  cy_txns :: "string \<Rightarrow> cy_txn option"
  cy_next :: nat

record cyber_conf =
  cc_texts :: py_texts
  cc_require_auth :: bool
  cc_approve :: string
  cc_decline :: string
  cc_decline_over :: pyv
  cc_partial_over :: pyv
  cc_block_bins :: "string list"
  cc_expiry_check :: bool
  cc_cvn_declines :: "string list"
  cc_avs_code :: string
  cc_cvn_result :: string
  cc_id :: "nat \<Rightarrow> string"
  cc_approval :: "nat \<Rightarrow> string"
  cc_now :: "nat \<Rightarrow> string"
  cc_month :: "nat \<Rightarrow> int \<times> int"

definition no_txns :: cyber where
  "no_txns = \<lparr>cy_txns = (\<lambda>_. None), cy_next = 0\<rparr>"

definition draw_with :: "(nat \<Rightarrow> 'a) \<Rightarrow> cyber \<Rightarrow> 'a \<times> cyber" where
  "draw_with f s = (f (cy_next s), s\<lparr>cy_next := Suc (cy_next s)\<rparr>)"

definition put_txn :: "string \<Rightarrow> cy_txn \<Rightarrow> cyber \<Rightarrow> cyber" where
  "put_txn i t s = s\<lparr>cy_txns := (cy_txns s)(i \<mapsto> t)\<rparr>"

section \<open>Answers\<close>

definition cy_error :: "cyber_conf \<Rightarrow> int \<Rightarrow> string \<Rightarrow> string \<Rightarrow> cyber \<Rightarrow> action result \<times> cyber" where
  "cy_error c status reason message s =
     (Inr (json_reply status [(''submitTimeUtc'', PStr (cc_now c (cy_next s))), (''status'', PStr ''INVALID_REQUEST''),
        (''reason'', PStr reason), (''message'', PStr message),
        (''errorInformation'', PDict [(''reason'', PStr reason), (''message'', PStr message)])]), s)"

definition cy_invalid :: "cyber_conf \<Rightarrow> string \<Rightarrow> string \<Rightarrow> cyber \<Rightarrow> action result \<times> cyber" where
  "cy_invalid c reason message s = cy_error c 400 reason message s"

definition client_ref_doc :: "pyv \<Rightarrow> string \<times> pyv" where
  "client_ref_doc ref = (''clientReferenceInformation'', PDict (if truthy ref then [(''code'', ref)] else []))"

definition link_to :: "string \<Rightarrow> string \<Rightarrow> string \<Rightarrow> string \<times> pyv" where
  "link_to rel href method = (rel, PDict [(''href'', PStr href), (''method'', PStr method)])"

definition amount_details :: "string \<Rightarrow> rat option \<Rightarrow> config" where
  "amount_details k amount =
     (case amount of None \<Rightarrow> []
      | Some a \<Rightarrow> [(''amountDetails'', PDict [(k, PStr (money_text a)), (''currency'', PStr ''USD'')])])"

text \<open>\<open>_amount\<close>.\<close>

definition cy_amount :: "pyv \<Rightarrow> rat option" where
  "cy_amount body =
     (case float_of (part_at body ''orderInformation.amountDetails.totalAmount'') of Inl _ \<Rightarrow> None | Inr q \<Rightarrow> Some q)"

section \<open>Authorisation\<close>

definition approved :: "cyber_conf \<Rightarrow> pyv \<Rightarrow> cy_status \<Rightarrow> rat option \<Rightarrow> bool \<Rightarrow> bool \<Rightarrow> cyber \<Rightarrow> action result \<times> cyber" where
  "approved c ref status amount capture partial s =
     (let (i, s) = draw_with (cc_id c) s;
          amount = (if partial then map_option (\<lambda>a. round2 (a / 2)) amount else amount);
          s = put_txn i \<lparr>tx_status = status, tx_amount = amount, tx_kind = Auth, tx_captured = capture, tx_reversed = False,
                tx_voided = False, tx_refunded = False\<rparr> s;
          (approval, s) = draw_with (cc_approval c) s; (network, s) = draw_with (cc_id c) s;
          (r1, s) = draw_with (cc_approval c) s; (r2, s) = draw_with (cc_approval c) s; href = ''/pts/v2/payments/'' @ i in
      (Inr (json_reply 201
         [(''id'', PStr i), (''status'', PStr (cy_status_text status)), (''submitTimeUtc'', PStr (cc_now c (cy_next s))),
          (''reconciliationId'', PStr (r1 @ r2)), client_ref_doc ref,
          (''processorInformation'', PDict
             [(''approvalCode'', PStr approval), (''responseCode'', PStr (cc_approve c)),
              (''avs'', PDict [(''code'', PStr (cc_avs_code c)), (''codeRaw'', PStr (cc_avs_code c))]),
              (''cardVerification'', PDict [(''resultCode'', PStr (cc_cvn_result c))]), (''transactionId'', PStr i),
              (''networkTransactionId'', PStr network)]),
          (''orderInformation'', PDict (amount_details ''authorizedAmount'' amount)),
          (''_links'', PDict ([link_to ''self'' href ''GET''] @
             (if capture then [link_to ''capture'' (href @ ''/captures'') ''POST''] else [])))]), s))"

definition declined :: "cyber_conf \<Rightarrow> pyv \<Rightarrow> string \<Rightarrow> string \<Rightarrow> cyber \<Rightarrow> action result \<times> cyber" where
  "declined c ref reason message s =
     (let (i, s) = draw_with (cc_id c) s;
          s = put_txn i \<lparr>tx_status = Declined, tx_amount = None, tx_kind = Auth, tx_captured = False, tx_reversed = False,
                tx_voided = False, tx_refunded = False\<rparr> s in
      (Inr (json_reply 201
         [(''id'', PStr i), (''status'', PStr ''DECLINED''), (''submitTimeUtc'', PStr (cc_now c (cy_next s))), client_ref_doc ref,
          (''processorInformation'', PDict [(''responseCode'', PStr (cc_decline c))]),
          (''errorInformation'', PDict [(''reason'', PStr reason), (''message'', PStr message)]),
          (''_links'', PDict [link_to ''self'' (''/pts/v2/payments/'' @ i) ''GET''])]), s))"

text \<open>\<open>_expired\<close>, from the month the clock reads.\<close>

definition cy_expired :: "cyber_conf \<Rightarrow> pyv \<Rightarrow> cyber \<Rightarrow> bool" where
  "cy_expired c body s =
     (let yr = part_at body ''paymentInformation.card.expirationYear''; mo = part_at body ''paymentInformation.card.expirationMonth'' in
      if yr = PNone \<or> mo = PNone then False
      else case (int_of yr, int_of mo) of
             (Inr y, Inr m) \<Rightarrow> (case cc_month c (cy_next s) of (cy, cm) \<Rightarrow> y < cy \<or> y = cy \<and> m < cm)
           | _ \<Rightarrow> False)"

definition at_least :: "rat option \<Rightarrow> pyv \<Rightarrow> bool result" where
  "at_least amount limit =
     (case amount of
        None \<Rightarrow> Inr False
      | Some a \<Rightarrow> if limit = PNone then Inr False else rbind (float_of limit) (\<lambda>l. Inr (l \<le> a)))"

definition authorize :: "cyber_conf \<Rightarrow> pyv \<Rightarrow> cyber \<Rightarrow> action result \<times> cyber" where
  "authorize c body s =
     (let text_or = (\<lambda>v. if truthy v then pystr (pt_str (cc_texts c)) v else []);
          ref = part_at body ''clientReferenceInformation.code''; pan = text_or (part_at body ''paymentInformation.card.number'');
          cvn = text_or (part_at body ''paymentInformation.card.securityCode''); amount = cy_amount body;
          capture = truthy (part_at body ''processingInformation.capture'') in
      if list_ex (\<lambda>b. prefix b pan) (cc_block_bins c) then declined c ref ''PROCESSOR_DECLINED'' ''Do not honor'' s
      else if cc_expiry_check c \<and> cy_expired c body s then declined c ref ''EXPIRED_CARD'' ''Expired card'' s
      else if cvn \<noteq> [] \<and> cvn \<in> set (cc_cvn_declines c) then declined c ref ''CVN_NOT_MATCH'' ''CVN does not match'' s
      else case at_least amount (cc_decline_over c) of
        Inl e \<Rightarrow> (Inl e, s)
      | Inr True \<Rightarrow> declined c ref ''INSUFFICIENT_FUND'' ''Insufficient funds'' s
      | Inr False \<Rightarrow>
          (case at_least amount (cc_partial_over c) of
             Inl e \<Rightarrow> (Inl e, s)
           | Inr True \<Rightarrow> approved c ref Partial_Authorized amount capture True s
           | Inr False \<Rightarrow> approved c ref Authorized amount capture False s))"

section \<open>Follow-on services\<close>

text \<open>\<open>_service\<close>: the record of the service is a transaction of its own.\<close>

definition cy_service :: "cyber_conf \<Rightarrow> pyv \<Rightarrow> cy_status \<Rightarrow> cy_kind \<Rightarrow> cyber \<Rightarrow> action result \<times> cyber" where
  "cy_service c body status kind s =
     (let (i, s) = draw_with (cc_id c) s; ref = part_at body ''clientReferenceInformation.code''; amount = cy_amount body;
          s = put_txn i \<lparr>tx_status = status, tx_amount = amount, tx_kind = kind, tx_captured = False,
                tx_reversed = (kind = Reversal), tx_voided = (kind = Void), tx_refunded = False\<rparr> s;
          (r1, s) = draw_with (cc_approval c) s; (r2, s) = draw_with (cc_approval c) s in
      (Inr (json_reply 201
         ([(''id'', PStr i), (''status'', PStr (cy_status_text status)), (''submitTimeUtc'', PStr (cc_now c (cy_next s))),
           (''reconciliationId'', PStr (r1 @ r2)), client_ref_doc ref,
           (''_links'', PDict [link_to ''self'' (''/pts/v2/'' @ cy_kind_text kind @ ''s/'' @ i) ''GET''])] @
          (if amount = None then [] else [(''orderInformation'', PDict (amount_details ''totalAmount'' amount))]))), s))"

definition cy_capture :: "cyber_conf \<Rightarrow> string \<Rightarrow> cy_txn \<Rightarrow> pyv \<Rightarrow> cyber \<Rightarrow> action result \<times> cyber" where
  "cy_capture c i t body s =
     (if tx_kind t \<noteq> Auth then cy_invalid c ''INVALID_DATA'' ''Only an authorization can be captured'' s
      else if tx_status t = Declined then cy_invalid c ''INVALID_REQUEST'' ''Cannot capture a declined authorization'' s
      else if tx_voided t then cy_invalid c ''TRANSACTION_ALREADY_VOIDED'' ''Authorization has been voided'' s
      else if tx_reversed t then cy_invalid c ''AUTH_ALREADY_REVERSED'' ''Authorization has been reversed'' s
      else if tx_captured t then cy_invalid c ''AUTH_ALREADY_CAPTURED'' ''Authorization has already been captured'' s
      else cy_service c body Pending Capture (put_txn i (t\<lparr>tx_captured := True\<rparr>) s))"

definition cy_reversal :: "cyber_conf \<Rightarrow> string \<Rightarrow> cy_txn \<Rightarrow> pyv \<Rightarrow> cyber \<Rightarrow> action result \<times> cyber" where
  "cy_reversal c i t body s =
     (if tx_kind t \<noteq> Auth then cy_invalid c ''INVALID_DATA'' ''Only an authorization can be reversed'' s
      else if tx_status t = Declined then cy_invalid c ''INVALID_REQUEST'' ''Cannot reverse a declined authorization'' s
      else if tx_voided t then cy_invalid c ''TRANSACTION_ALREADY_VOIDED'' ''Authorization has been voided'' s
      else if tx_reversed t then cy_invalid c ''AUTH_ALREADY_REVERSED'' ''Authorization has already been reversed'' s
      else if tx_captured t
      then cy_invalid c ''AUTH_ALREADY_CAPTURED'' ''Cannot reverse a captured authorization; void the capture'' s
      else cy_service c body Reversed_St Reversal (put_txn i (t\<lparr>tx_reversed := True\<rparr>) s))"

definition cy_refund :: "cyber_conf \<Rightarrow> string \<Rightarrow> cy_txn \<Rightarrow> pyv \<Rightarrow> cyber \<Rightarrow> action result \<times> cyber" where
  "cy_refund c i t body s =
     (let granted = cy_service c body Pending Refund (put_txn i (t\<lparr>tx_refunded := True\<rparr>) s) in
      case tx_kind t of
        Auth \<Rightarrow>
          if tx_status t = Declined then cy_invalid c ''INVALID_REQUEST'' ''Cannot refund a declined authorization'' s
          else if \<not> tx_captured t then cy_invalid c ''AUTH_NOT_CAPTURED'' ''Cannot refund an authorization before capture'' s
          else granted
      | Capture \<Rightarrow> if tx_voided t then cy_invalid c ''TRANSACTION_ALREADY_VOIDED'' ''Capture has been voided'' s else granted
      | _ \<Rightarrow> cy_invalid c ''INVALID_DATA'' ''Only a captured payment can be refunded'' s)"

definition cy_void :: "cyber_conf \<Rightarrow> string \<Rightarrow> cy_txn \<Rightarrow> pyv \<Rightarrow> cyber \<Rightarrow> action result \<times> cyber" where
  "cy_void c i t body s =
     (if tx_voided t then cy_invalid c ''TRANSACTION_ALREADY_VOIDED'' ''Transaction has already been voided'' s
      else if tx_reversed t then cy_invalid c ''AUTH_ALREADY_REVERSED'' ''Transaction has been reversed'' s
      else if tx_status t = Declined then cy_invalid c ''INVALID_REQUEST'' ''Cannot void a declined transaction'' s
      else cy_service c body Voided_St Void (put_txn i (t\<lparr>tx_voided := True\<rparr>) s))"

definition cy_retrieve :: "cyber_conf \<Rightarrow> string \<Rightarrow> cyber \<Rightarrow> action result \<times> cyber" where
  "cy_retrieve c i s =
     (case cy_txns s i of
        None \<Rightarrow> cy_error c 404 ''NOT_FOUND'' (''No transaction '' @ [CHR 39] @ i @ [CHR 39]) s
      | Some t \<Rightarrow>
          (Inr (json_reply 200
             ([(''id'', PStr i), (''status'', PStr (cy_status_text (tx_status t))), (''submitTimeUtc'', PStr (cc_now c (cy_next s)))] @
              (if tx_amount t = None then [] else [(''orderInformation'', PDict (amount_details ''totalAmount'' (tx_amount t)))]))), s))"

section \<open>Routing\<close>

definition cyber_route :: "string \<Rightarrow> (string \<times> string \<times> string) option" where
  "cyber_route = resource_route LETTERS [[], ''pts'', ''v2''] [''payments'', ''captures'', ''refunds'']"

text \<open>\<open>_has_auth\<close>.\<close>

definition has_auth :: "cyber_conf \<Rightarrow> config \<Rightarrow> bool" where
  "has_auth c headers \<longleftrightarrow>
     strip (u (pystr (pt_str (cc_texts c)) (get headers ''authorization'' (PStr [])))) \<noteq> [] \<or>
     truthy (get headers ''signature'' PNone) \<and> truthy (get headers ''v-c-merchant-id'' PNone)"

definition follow_on :: "cyber_conf \<Rightarrow> string \<Rightarrow> string \<Rightarrow> cy_txn \<Rightarrow> pyv \<Rightarrow> cyber \<Rightarrow> action result \<times> cyber" where
  "follow_on c sub i t body s =
     (if sub = ''captures'' then cy_capture c i t body s
      else if sub = ''reversals'' then cy_reversal c i t body s
      else if sub = ''refunds'' then cy_refund c i t body s
      else if sub = ''voids'' then cy_void c i t body s
      else cy_error c 400 ''INVALID_DATA'' ''Unsupported request'' s)"

definition cyber_decide :: "cyber_conf \<Rightarrow> http_request \<Rightarrow> cyber \<Rightarrow> action result \<times> cyber" where
  "cyber_decide c rq s =
     (case cyber_route (rq_path rq) of
        None \<Rightarrow> cy_error c 404 ''NOT_FOUND'' ''Unknown resource'' s
      | Some (coll, i, sub) \<Rightarrow>
          if cc_require_auth c \<and> \<not> has_auth c (rq_headers rq)
          then cy_error c 401 ''INVALID_DATA'' ''Missing or invalid authentication credentials'' s
          else if rq_method rq = ''GET'' \<and> coll = ''payments'' \<and> i \<noteq> [] \<and> sub = [] then cy_retrieve c i s
          else if rq_method rq \<noteq> ''POST'' then cy_error c 405 ''INVALID_DATA'' (''Method '' @ rq_method rq @ '' not allowed'') s
          else if coll = ''payments'' \<and> i = [] then authorize c (rq_body rq) s
          else if i \<noteq> [] \<and> sub \<noteq> []
          then (case cy_txns s i of
                  None \<Rightarrow> cy_error c 404 ''NOT_FOUND'' (''No transaction '' @ [CHR 39] @ i @ [CHR 39]) s
                | Some t \<Rightarrow> follow_on c sub i t (rq_body rq) s)
          else cy_error c 400 ''INVALID_DATA'' ''Unsupported request'' s)"

definition cyber_code :: "py_texts \<Rightarrow> action \<Rightarrow> string result" where
  "cyber_code l action =
     rbind (items_or AttributeError (get action ''json'' PNone)) (\<lambda>body.
       Inr (pystr (pt_str l) (if truthy (get body ''status'' PNone) then get body ''status'' PNone else get action ''status'' (PInt 200))))"

section \<open>The life of a transaction\<close>

text \<open>
  The transitions of the code: an authorisation is captured or reversed while it is open, a transaction is voided unless it is voided
  or reversed, a captured authorisation or a capture is refunded.
\<close>

inductive tx_step :: "cy_txn \<Rightarrow> cy_txn \<Rightarrow> bool" where
  captured: "tx_kind t = Auth \<Longrightarrow> tx_status t \<noteq> Declined \<Longrightarrow> \<not> tx_voided t \<Longrightarrow> \<not> tx_reversed t \<Longrightarrow> \<not> tx_captured t \<Longrightarrow>
     tx_step t (t\<lparr>tx_captured := True\<rparr>)"
| reversed: "tx_kind t = Auth \<Longrightarrow> tx_status t \<noteq> Declined \<Longrightarrow> \<not> tx_voided t \<Longrightarrow> \<not> tx_reversed t \<Longrightarrow> \<not> tx_captured t \<Longrightarrow>
     tx_step t (t\<lparr>tx_reversed := True\<rparr>)"
| voided: "tx_status t \<noteq> Declined \<Longrightarrow> \<not> tx_voided t \<Longrightarrow> \<not> tx_reversed t \<Longrightarrow> tx_step t (t\<lparr>tx_voided := True\<rparr>)"
| refunded: "tx_kind t = Auth \<and> tx_status t \<noteq> Declined \<and> tx_captured t \<or> tx_kind t = Capture \<and> \<not> tx_voided t \<Longrightarrow>
     tx_step t (t\<lparr>tx_refunded := True\<rparr>)"

definition tx_sane :: "cy_txn \<Rightarrow> bool" where
  "tx_sane t \<longleftrightarrow> \<not> (tx_captured t \<and> tx_reversed t) \<and> \<not> (tx_reversed t \<and> tx_voided t) \<and>
     (tx_captured t \<longrightarrow> tx_kind t = Auth) \<and> (tx_reversed t \<longrightarrow> tx_kind t \<in> {Auth, Reversal}) \<and>
     (tx_refunded t \<longrightarrow> tx_captured t \<or> tx_kind t = Capture) \<and>
     (tx_status t = Declined \<longrightarrow> tx_kind t = Auth \<and> \<not> tx_captured t \<and> \<not> tx_reversed t \<and> \<not> tx_voided t \<and> \<not> tx_refunded t)"

lemma tx_step_sane: "tx_step t t' \<Longrightarrow> tx_sane t \<Longrightarrow> tx_sane t'"
  by (induction rule: tx_step.induct) (auto simp: tx_sane_def)

definition tx_later :: "cy_txn \<Rightarrow> cy_txn \<Rightarrow> bool" where
  "tx_later t t' \<longleftrightarrow> tx_kind t' = tx_kind t \<and> tx_status t' = tx_status t \<and> tx_amount t' = tx_amount t \<and>
     (tx_captured t \<longrightarrow> tx_captured t') \<and> (tx_reversed t \<longrightarrow> tx_reversed t') \<and> (tx_voided t \<longrightarrow> tx_voided t') \<and>
     (tx_refunded t \<longrightarrow> tx_refunded t')"

lemma tx_step_later: "tx_step t t' \<Longrightarrow> tx_later t t'"
  by (induction rule: tx_step.induct) (auto simp: tx_later_def)

lemma tx_steps_later: "tx_step\<^sup>*\<^sup>* t t' \<Longrightarrow> tx_later t t'"
  by (induction rule: rtranclp_induct) (auto simp: tx_later_def dest: tx_step_later)

definition cy_known :: "cyber_conf \<Rightarrow> cyber \<Rightarrow> string \<Rightarrow> bool" where
  "cy_known c s i \<longleftrightarrow> (\<exists>n < cy_next s. i = cc_id c n)"

definition cyber_ok :: "cyber_conf \<Rightarrow> cyber \<Rightarrow> bool" where
  "cyber_ok c s \<longleftrightarrow> inj (cc_id c) \<and> (\<forall>i t. cy_txns s i = Some t \<longrightarrow> cy_known c s i \<and> tx_sane t)"

text \<open>Every transaction stays or takes one step; the counter runs on; what is new is sane.\<close>

definition cy_follows :: "cyber_conf \<Rightarrow> cyber \<Rightarrow> cyber \<Rightarrow> bool" where
  "cy_follows c s s' \<longleftrightarrow> cy_next s \<le> cy_next s' \<and>
     (\<forall>i t. cy_txns s i = Some t \<longrightarrow> (\<exists>t'. cy_txns s' i = Some t' \<and> (t' = t \<or> tx_step t t'))) \<and>
     (\<forall>i t. cy_txns s' i = Some t \<longrightarrow> cy_txns s i \<noteq> None \<or> cy_known c s' i \<and> tx_sane t)"

lemma cy_known_grows: "cy_known c s i \<Longrightarrow> cy_next s \<le> cy_next s' \<Longrightarrow> cy_known c s' i"
  unfolding cy_known_def by (elim exE conjE) (intro exI conjI, erule (1) less_le_trans)

lemma cy_follows_ok: "cy_follows c s s' \<Longrightarrow> cyber_ok c s \<Longrightarrow> cyber_ok c s'"
proof -
  assume f: "cy_follows c s s'" and ok: "cyber_ok c s"
  have "cy_known c s' i \<and> tx_sane t" if t: "cy_txns s' i = Some t" for i t
  proof (cases "cy_txns s i")
    case None
    then show ?thesis using f t unfolding cy_follows_def by blast
  next
    case (Some t0)
    then have "cy_known c s i" "tx_sane t0" using ok by (simp_all add: cyber_ok_def)
    moreover have "cy_known c s' i"
      by (rule cy_known_grows [OF \<open>cy_known c s i\<close>]) (use f in \<open>simp add: cy_follows_def\<close>)
    moreover have "t = t0 \<or> tx_step t0 t" using f Some t unfolding cy_follows_def by fastforce
    ultimately show ?thesis using tx_step_sane by blast
  qed
  then show ?thesis using ok by (simp add: cyber_ok_def)
qed

lemma cy_same: "cy_follows c s s"
  by (simp add: cy_follows_def)

lemma next_unused:
  assumes "cyber_ok c s"
  shows "cy_txns s (cc_id c (cy_next s)) = None"
proof (cases "cy_txns s (cc_id c (cy_next s))")
  case (Some t)
  then obtain n where "n < cy_next s" "cc_id c (cy_next s) = cc_id c n" using assms unfolding cyber_ok_def cy_known_def by blast
  then show ?thesis using assms by (auto simp: cyber_ok_def inj_def)
qed

text \<open>Adding a new transaction and, before that, taking one step with an old one.\<close>

lemma cy_follows_put:
  assumes "cyber_ok c s" and "cy_txns s' = (cy_txns s1)(cc_id c (cy_next s) \<mapsto> t')" and "tx_sane t'" and "cy_next s < cy_next s'"
    and "s1 = s \<or> (\<exists>i t t1. s1 = put_txn i t1 s \<and> cy_txns s i = Some t \<and> tx_step t t1)"
  shows "cy_follows c s s'"
proof -
  have "cy_txns s (cc_id c (cy_next s)) = None" by (rule next_unused [OF assms(1)])
  moreover have "cy_known c s' (cc_id c (cy_next s))" using assms(4) unfolding cy_known_def by blast
  ultimately show ?thesis using assms(2-5) by (auto simp: cy_follows_def put_txn_def split: if_splits)
qed

lemma approved_follows:
  assumes "cyber_ok c s" and "status \<noteq> Declined"
  shows "cy_follows c s (snd (approved c ref status amount capture partial s))"
proof -
  let ?t = "\<lparr>tx_status = status, tx_amount = (if partial then map_option (\<lambda>a. round2 (a / 2)) amount else amount), tx_kind = Auth,
    tx_captured = capture, tx_reversed = False, tx_voided = False, tx_refunded = False\<rparr>"
  have "tx_sane ?t" using assms(2) by (simp add: tx_sane_def)
  then show ?thesis
    by (intro cy_follows_put [OF assms(1), of _ s]) (auto simp: approved_def draw_with_def put_txn_def Let_def)
qed

lemma declined_follows:
  assumes "cyber_ok c s"
  shows "cy_follows c s (snd (declined c ref reason message s))"
proof -
  let ?t = "\<lparr>tx_status = Declined, tx_amount = None, tx_kind = Auth, tx_captured = False, tx_reversed = False, tx_voided = False,
    tx_refunded = False\<rparr>"
  have "tx_sane ?t" by (simp add: tx_sane_def)
  then show ?thesis
    by (intro cy_follows_put [OF assms, of _ s]) (auto simp: declined_def draw_with_def put_txn_def Let_def)
qed

lemma service_follows:
  assumes "cyber_ok c s" and "cy_txns s i = Some t" and "tx_step t t1" and "status \<noteq> Declined" and "kind \<noteq> Auth"
  shows "cy_follows c s (snd (cy_service c body status kind (put_txn i t1 s)))"
proof -
  let ?t = "\<lparr>tx_status = status, tx_amount = cy_amount body, tx_kind = kind, tx_captured = False, tx_reversed = (kind = Reversal),
    tx_voided = (kind = Void), tx_refunded = False\<rparr>"
  have "tx_sane ?t" using assms(4,5) by (simp add: tx_sane_def)
  then show ?thesis
    by (intro cy_follows_put [OF assms(1), of _ "put_txn i t1 s"])
      (use assms(2,3) in \<open>auto simp: cy_service_def draw_with_def put_txn_def Let_def\<close>)
qed

lemma errors_follow [simp]:
  "snd (cy_error c status reason message s) = s" "snd (cy_invalid c reason message s) = s" "snd (cy_retrieve c i s) = s"
  by (auto simp: cy_error_def cy_invalid_def cy_retrieve_def split: option.split)

lemma follow_on_follows:
  assumes "cyber_ok c s" and "cy_txns s i = Some t"
  shows "cy_follows c s (snd (follow_on c sub i t body s))"
proof -
  note service = service_follows [OF assms]
  have "cy_follows c s (snd (cy_capture c i t body s))"
    by (auto simp: cy_capture_def cy_same intro!: service tx_step.captured)
  moreover have "cy_follows c s (snd (cy_reversal c i t body s))"
    by (auto simp: cy_reversal_def cy_same intro!: service tx_step.reversed)
  moreover have "cy_follows c s (snd (cy_void c i t body s))"
    by (auto simp: cy_void_def cy_same intro!: service tx_step.voided)
  moreover have "cy_follows c s (snd (cy_refund c i t body s))"
    by (cases "tx_kind t") (auto simp: cy_refund_def Let_def cy_same intro!: service tx_step.refunded)
  ultimately show ?thesis by (simp add: follow_on_def cy_same)
qed

lemma cyber_follows:
  assumes "cyber_ok c s"
  shows "cy_follows c s (snd (cyber_decide c rq s))"
proof -
  have "cy_follows c s (snd (authorize c body s))" for body
    using approved_follows [OF assms] declined_follows [OF assms]
    by (auto simp: authorize_def Let_def cy_same split: sum.split bool.split)
  then show ?thesis
    using follow_on_follows [OF assms] by (auto simp: cyber_decide_def cy_same split: option.split)
qed

interpretation cyber: gateway "cyber_decide c" "cyber_ok c" "\<lambda>_. True" for c
  by unfold_locales (rule cy_follows_ok [OF cyber_follows])

lemma cyber_steps:
  assumes "cyber_ok c s" and "cy_txns s i = Some t"
  shows "\<exists>t'. cy_txns (fold (\<lambda>rq g. snd (behind_rules l rules (cyber_decide c) rq g)) rqs s) i = Some t' \<and> tx_step\<^sup>*\<^sup>* t t'"
proof -
  let ?R = "\<lambda>a b. \<forall>t. cy_txns a i = Some t \<longrightarrow> (\<exists>t'. cy_txns b i = Some t' \<and> tx_step\<^sup>*\<^sup>* t t')"
  have step: "?R s (snd (cyber_decide c rq s))" if "cyber_ok c s" for s rq
    using cyber_follows [OF that, of rq] unfolding cy_follows_def by blast
  have "?R s (fold (\<lambda>rq g. snd (behind_rules l rules (cyber_decide c) rq g)) rqs s)"
  proof (rule cyber.along [where R = ?R])
    show "?R a (snd (cyber_decide c rq a))" if "cyber_ok c a" for a rq by (rule step [OF that])
    show "?R a a" for a by blast
    show "?R a d" if "?R a b" and "?R b d" for a b d using that by (meson rtranclp_trans)
    show "cyber_ok c s" by (rule assms(1))
  qed (simp add: list_all_iff)
  then show ?thesis using assms(2) by blast
qed

lemma cyber_start: "inj (cc_id c) \<Longrightarrow> cyber_ok c no_txns"
  by (simp add: cyber_ok_def no_txns_def)

text \<open>A transaction lives by the transitions of the code, whatever requests, rules and faults there are; none is ever captured and
  reversed, none reversed and voided, and a declined one has no life at all.\<close>

theorem transactions_live_by_the_rules:
  assumes "inj (cc_id c)" and "serves (cc_texts c) (cyber_decide c) h"
    and "s1 = snd (handle_all h earlier (fresh_server no_txns g))" and "s2 = snd (handle_all h later s1)"
    and "cy_txns (hs_gateway s1) i = Some t"
  shows "\<exists>t'. cy_txns (hs_gateway s2) i = Some t' \<and> tx_step\<^sup>*\<^sup>* t t' \<and> tx_sane t'"
proof -
  obtain rules where r: "\<And>rqs s. hs_gateway (snd (handle_all h rqs s)) =
    fold (\<lambda>rq g. snd (behind_rules (cc_texts c) rules (cyber_decide c) rq g)) rqs (hs_gateway s)"
    by (rule served [OF assms(2)]) blast
  have start: "cyber_ok c (hs_gateway (fresh_server no_txns g))" by (simp add: fresh_server_def cyber_start assms(1))
  have ok: "cyber_ok c (hs_gateway s1)" unfolding assms(3) r by (rule cyber.traffic [OF start]) (simp add: list_all_iff)
  have ok2: "cyber_ok c (hs_gateway s2)" unfolding assms(4) r by (rule cyber.traffic [OF ok]) (simp add: list_all_iff)
  obtain t' where "cy_txns (hs_gateway s2) i = Some t'" "tx_step\<^sup>*\<^sup>* t t'"
    using cyber_steps [OF ok assms(5)] unfolding assms(4) r by blast
  then show ?thesis using ok2 by (auto simp: cyber_ok_def)
qed

section \<open>Captured or reversed once\<close>

definition granted :: "action result \<Rightarrow> bool" where
  "granted r \<longleftrightarrow> (case r of Inr a \<Rightarrow> get a ''status'' PNone = PInt 201 | Inl _ \<Rightarrow> False)"

definition tx_settled :: "cy_txn \<Rightarrow> bool" where
  "tx_settled t \<longleftrightarrow> tx_captured t \<or> tx_reversed t"

lemma not_granted [simp]:
  "status \<noteq> 201 \<Longrightarrow> \<not> granted (fst (cy_error c status reason message s))" "\<not> granted (fst (cy_invalid c reason message s))"
  by (simp_all add: granted_def cy_error_def cy_invalid_def json_reply_def)

lemma granted_settles:
  assumes "granted (fst (follow_on c sub i t body s))" and "sub \<in> {''captures'', ''reversals''}" and "cyber_ok c s" and "cy_txns s i = Some t"
  shows "\<not> tx_settled t \<and> (\<exists>t'. cy_txns (snd (follow_on c sub i t body s)) i = Some t' \<and> tx_settled t')"
proof -
  have "i \<noteq> cc_id c (cy_next s)" using next_unused [OF assms(3)] assms(4) by auto
  then have new: "cy_txns (snd (cy_service c body status kind (put_txn i t1 s))) i = Some t1" for status kind t1
    by (simp add: cy_service_def draw_with_def put_txn_def Let_def)
  show ?thesis
    using assms(1,2) by (auto simp: follow_on_def cy_capture_def cy_reversal_def new tx_settled_def split: if_splits)
qed

lemma route_names_parent: "resource_route letters base colls path = Some (coll, i, sub) \<Longrightarrow> sub \<noteq> [] \<Longrightarrow> i \<noteq> []"
  by (auto simp: resource_route_def Let_def split: list.splits if_splits)

lemma granted_request:
  assumes "granted (fst (cyber_decide c rq s))" and "cyber_route (rq_path rq) = Some (coll, i, sub)"
    and "sub \<in> {''captures'', ''reversals''}"
  obtains t where "cy_txns s i = Some t" and "granted (fst (follow_on c sub i t (rq_body rq) s))"
    and "snd (cyber_decide c rq s) = snd (follow_on c sub i t (rq_body rq) s)"
proof -
  have "sub \<noteq> []" using assms(3) by auto
  with route_names_parent assms(2) have "i \<noteq> []" unfolding cyber_route_def by blast
  then show thesis
    using assms(1,2) \<open>sub \<noteq> []\<close> that by (auto simp: cyber_decide_def split: if_splits option.splits)
qed

text \<open>C14. An authorisation is captured or reversed once: after a capture or a reversal is granted, no capture and no reversal of it is
  granted any more, whatever happens in between.\<close>

theorem settled_once:
  assumes "cyber_ok c s" and "granted (fst (cyber_decide c rq1 s))"
    and "cyber_route (rq_path rq1) = Some (coll1, i, sub1)" and "sub1 \<in> {''captures'', ''reversals''}"
    and "s' = fold (\<lambda>rq g. snd (behind_rules l rules (cyber_decide c) rq g)) rqs (snd (cyber_decide c rq1 s))"
    and "cyber_route (rq_path rq2) = Some (coll2, i, sub2)" and "sub2 \<in> {''captures'', ''reversals''}"
  shows "\<not> granted (fst (cyber_decide c rq2 s'))"
proof
  assume again: "granted (fst (cyber_decide c rq2 s'))"
  obtain t where t: "cy_txns s i = Some t" "granted (fst (follow_on c sub1 i t (rq_body rq1) s))"
    "snd (cyber_decide c rq1 s) = snd (follow_on c sub1 i t (rq_body rq1) s)"
    by (rule granted_request [OF assms(2,3,4)])
  obtain t1 where t1: "cy_txns (snd (cyber_decide c rq1 s)) i = Some t1" "tx_settled t1"
    using granted_settles [OF t(2) assms(4,1) t(1)] t(3) by auto
  have ok1: "cyber_ok c (snd (cyber_decide c rq1 s))" by (rule cyber.keeps [OF assms(1) TrueI])
  obtain t2 where t2: "cy_txns s' i = Some t2" "tx_step\<^sup>*\<^sup>* t1 t2" using cyber_steps [OF ok1 t1(1)] assms(5) by blast
  then have "tx_settled t2" using tx_steps_later [OF t2(2)] t1(2) by (auto simp: tx_settled_def tx_later_def)
  moreover have "cyber_ok c s'" unfolding assms(5) by (rule cyber.traffic [OF ok1]) (simp add: list_all_iff)
  moreover obtain t3 where "cy_txns s' i = Some t3" "granted (fst (follow_on c sub2 i t3 (rq_body rq2) s'))"
    by (rule granted_request [OF again assms(6,7)])
  ultimately show False using granted_settles [of c sub2 i t2 "rq_body rq2" s'] assms(7) t2(1) by simp
qed

section \<open>Examples\<close>

definition demo_cyber :: cyber_conf where
  "demo_cyber = \<lparr>cc_texts = demo_texts, cc_require_auth = False, cc_approve = ''100'', cc_decline = ''200'', cc_decline_over = PNone,
     cc_partial_over = PNone, cc_block_bins = [], cc_expiry_check = False, cc_cvn_declines = [], cc_avs_code = ''Y'', cc_cvn_result = ''M'',
     cc_id = (\<lambda>n. replicate (Suc n) (CHR ''1'')), cc_approval = (\<lambda>n. ''A''), cc_now = (\<lambda>n. ''''), cc_month = (\<lambda>n. (2026, 1))\<rparr>"

definition cyber_server :: "(cyber, unit) http_conf" where
  "cyber_server = \<lparr>hc_texts = demo_texts, hc_chaos = [], hc_resolve = behind_rules demo_texts [] (cyber_decide demo_cyber),
     hc_code = cyber_code demo_texts, hc_rng = no_rng\<rparr>"

definition cyber_after :: "http_request list \<Rightarrow> (cyber, unit) http_server" where
  "cyber_after rqs = snd (handle_all cyber_server rqs (fresh_server no_txns ()))"

definition on_first :: "string \<Rightarrow> http_request" where
  "on_first sub = post (''/pts/v2/payments/1/'' @ sub) []"

definition demo_auth :: http_request where
  "demo_auth = post ''/pts/v2/payments''
     [(''orderInformation'', PDict [(''amountDetails'', PDict [(''totalAmount'', PStr ''12.50'')])])]"

lemma demo_cyber_ids: "inj (cc_id demo_cyber)"
  by (auto simp: demo_cyber_def inj_def replicate_eq_replicate)

lemma demo_cyber_served: "serves (cc_texts demo_cyber) (cyber_decide demo_cyber) cyber_server"
  by (auto simp: serves_def cyber_server_def demo_cyber_def)

definition demo_txn :: cy_txn where
  "demo_txn = \<lparr>tx_status = Authorized, tx_amount = Some (25 / 2), tx_kind = Auth, tx_captured = False, tx_reversed = False,
     tx_voided = False, tx_refunded = False\<rparr>"

lemma demo_authorised: "cy_txns (hs_gateway (cyber_after [demo_auth])) ''1'' = Some demo_txn"
  by code_simp

theorem transactions_live_by_the_rules_witness:
  "\<exists>t'. cy_txns (hs_gateway (snd (handle_all cyber_server [on_first ''captures''] (cyber_after [demo_auth])))) ''1'' = Some t' \<and>
     tx_step\<^sup>*\<^sup>* demo_txn t' \<and> tx_sane t'"
  using transactions_live_by_the_rules [OF demo_cyber_ids demo_cyber_served cyber_after_def refl demo_authorised] .

lemma demo_traffic_ok: "cyber_ok demo_cyber (fold (\<lambda>rq g. snd (behind_rules demo_texts [] (cyber_decide demo_cyber) rq g)) rqs no_txns)"
  by (rule cyber.traffic [OF cyber_start [OF demo_cyber_ids]]) (simp add: list_all_iff)

definition demo_open :: cyber where
  "demo_open = fold (\<lambda>rq g. snd (behind_rules demo_texts [] (cyber_decide demo_cyber) rq g)) [demo_auth] no_txns"

lemma demo_granted: "granted (fst (cyber_decide demo_cyber (on_first ''captures'') demo_open))"
  by code_simp

lemma demo_routes:
  "cyber_route (rq_path (on_first ''captures'')) = Some (''payments'', ''1'', ''captures'')"
  "cyber_route (rq_path (on_first ''reversals'')) = Some (''payments'', ''1'', ''reversals'')"
  by code_simp+

theorem settled_once_witness:
  "\<not> granted (fst (cyber_decide demo_cyber (on_first ''reversals'') (snd (cyber_decide demo_cyber (on_first ''captures'') demo_open))))"
  by (rule settled_once [OF demo_traffic_ok [of "[demo_auth]", folded demo_open_def] demo_granted demo_routes(1) _ _ demo_routes(2),
        where rqs = "[]" and l = demo_texts and rules = "[]"]) simp_all

text \<open>A payment that was captured and then voided is refunded; so is one that has been refunded, any number of times; a capture that was
  voided does not open its authorisation again.\<close>

definition answers_of :: "http_request list \<Rightarrow> int list" where
  "answers_of rqs = map (\<lambda>r. case r of Inr a \<Rightarrow> hr_status a | Inl _ \<Rightarrow> 500) (fst (handle_all cyber_server rqs (fresh_server no_txns ())))"

theorem voided_payment_is_refunded:
  "answers_of [demo_auth, on_first ''captures'', on_first ''voids'', on_first ''refunds'', on_first ''refunds''] = [201, 201, 201, 201, 201]"
  "answers_of [demo_auth, on_first ''captures'', post ''/pts/v2/captures/111111/voids'' [], on_first ''reversals''] = [201, 201, 201, 400]"
  by code_simp+


end
