(* ===== verification/Adyen_Sim.thy ===== *)
theory Adyen_Sim
  imports Http_Sim
begin

text \<open>
  The simulated Adyen (\<open>worker/adapters/scheme/adyen_sim.py\<close>): payments, challenges and refunds behind the HTTP responder.
  References come from a sequence; the signature and the delivery of notifications and the time in them are left out.
\<close>

section \<open>State\<close>

record ad_payment =
  ap_amount :: pyv
  ap_reference :: pyv

record adyen =
  ad_payments :: "string \<Rightarrow> ad_payment option"
  ad_pending :: "string \<Rightarrow> pyv option"
  ad_next :: nat
  ad_events :: "(string \<times> config) list"

record adyen_conf =
  ac_texts :: py_texts
  ac_require_auth :: bool
  ac_merchant :: pyv
  ac_decline_over :: pyv
  ac_fresh :: "nat \<Rightarrow> string"
  ac_webhooks :: bool
  ac_events :: "string list"

definition no_payments :: adyen where
  "no_payments = \<lparr>ad_payments = (\<lambda>_. None), ad_pending = (\<lambda>_. None), ad_next = 0, ad_events = []\<rparr>"

definition psp_ref :: "adyen_conf \<Rightarrow> adyen \<Rightarrow> string \<times> adyen" where
  "psp_ref c s = (ac_fresh c (ad_next s), s\<lparr>ad_next := Suc (ad_next s)\<rparr>)"

definition HOLDER_TRIGGERS :: "(string \<times> string \<times> string) list" where
  "HOLDER_TRIGGERS =
     [(''DECLINED'', ''Refused'', ''2''), (''CARD_EXPIRED'', ''Expired Card'', ''6''),
      (''INVALID_CARD_NUMBER'', ''Invalid Card Number'', ''8''),
      (''NOT_3D_AUTHENTICATED'', ''3d-secure: Authentication failed'', ''11''),
      (''NOT_ENOUGH_BALANCE'', ''Not enough balance'', ''12''), (''CVC_DECLINED'', ''CVC Declined'', ''24'')]"

definition ACQUIRER_CODES :: "(string \<times> string \<times> string) list" where
  "ACQUIRER_CODES =
     [(''2'', ''Refused'', ''2''), (''6'', ''Expired Card'', ''6''), (''8'', ''Invalid Card Number'', ''8''),
      (''11'', ''3d-secure: Authentication failed'', ''11''), (''12'', ''Not enough balance'', ''12''), (''24'', ''CVC Declined'', ''24'')]"

definition CHALLENGE_CARDS :: "string list" where
  "CHALLENGE_CARDS = [''4212345678901237'']"

section \<open>Answers\<close>

definition ad_error :: "int \<Rightarrow> string \<Rightarrow> string \<Rightarrow> string \<Rightarrow> action" where
  "ad_error status code message kind =
     json_reply status [(''status'', PInt status), (''errorCode'', PStr code), (''message'', PStr message), (''errorType'', PStr kind)]"

definition ad_text :: "adyen_conf \<Rightarrow> pyv \<Rightarrow> string" where
  "ad_text c v = (if truthy v then pystr (pt_str (ac_texts c)) v else [])"

text \<open>\<open>_emit_notification\<close>: signing reads the amount as an object and raises if it is none.\<close>

definition ad_emit :: "adyen_conf \<Rightarrow> string \<Rightarrow> pyv \<Rightarrow> config \<Rightarrow> adyen \<Rightarrow> adyen result" where
  "ad_emit c kind amount item s =
     (if \<not> ac_webhooks c then Inr s
      else rbind (items_or AttributeError amount) (\<lambda>_. Inr
        (if ac_events c \<noteq> [] \<and> kind \<notin> set (ac_events c) then s
         else s\<lparr>ad_events := ad_events s @ [(kind, item @ [(''amount'', amount)])]\<rparr>)))"

text \<open>An answer after a notification.\<close>

definition noticed :: "adyen result \<Rightarrow> action \<Rightarrow> adyen \<Rightarrow> action result \<times> adyen" where
  "noticed r answer s = (case r of Inl e \<Rightarrow> (Inl e, s) | Inr s' \<Rightarrow> (Inr answer, s'))"

definition with_reference :: "pyv \<Rightarrow> config" where
  "with_reference ref = (if ref = PNone then [] else [(''merchantReference'', ref)])"

definition ad_amount :: "pyv \<Rightarrow> pyv" where
  "ad_amount body = (let a = part_at body ''amount'' in if truthy a then a else PDict [])"

definition payment_item :: "adyen_conf \<Rightarrow> string \<Rightarrow> pyv \<Rightarrow> string \<Rightarrow> config" where
  "payment_item c ref body success =
     [(''pspReference'', PStr ref), (''merchantAccountCode'', PStr (ad_text c (part_at body ''merchantAccount''))),
      (''merchantReference'', PStr (ad_text c (part_at body ''reference''))), (''eventCode'', PStr ''AUTHORISATION''),
      (''success'', PStr success)]"

definition ad_authorised :: "adyen_conf \<Rightarrow> pyv \<Rightarrow> adyen \<Rightarrow> action result \<times> adyen" where
  "ad_authorised c body s =
     (let (ref, s) = psp_ref c s; amount = ad_amount body; mine = part_at body ''reference'';
          s = s\<lparr>ad_payments := (ad_payments s)(ref \<mapsto> \<lparr>ap_amount = amount, ap_reference = mine\<rparr>)\<rparr> in
      noticed (ad_emit c ''AUTHORISATION'' amount (payment_item c ref body ''true'') s)
        (json_reply 200 ([(''resultCode'', PStr ''Authorised''), (''pspReference'', PStr ref), (''amount'', amount)] @ with_reference mine)) s)"

definition ad_refused :: "adyen_conf \<Rightarrow> pyv \<Rightarrow> string \<Rightarrow> string \<Rightarrow> adyen \<Rightarrow> action result \<times> adyen" where
  "ad_refused c body reason code s =
     (let (ref, s) = psp_ref c s in
      noticed (ad_emit c ''AUTHORISATION'' (ad_amount body) (payment_item c ref body ''false'' @ [(''reason'', PStr reason)]) s)
        (json_reply 200 ([(''resultCode'', PStr ''Refused''), (''pspReference'', PStr ref), (''refusalReason'', PStr reason),
           (''refusalReasonCode'', PStr code)] @ with_reference (part_at body ''reference''))) s)"

section \<open>Payments\<close>

definition wrong_merchant :: "adyen_conf \<Rightarrow> pyv \<Rightarrow> bool" where
  "wrong_merchant c merchant \<longleftrightarrow> \<not> truthy merchant \<or> truthy (ac_merchant c) \<and> \<not> py_eq merchant (ac_merchant c)"

definition trigger_of :: "adyen_conf \<Rightarrow> pyv \<Rightarrow> (string \<times> string) option" where
  "trigger_of c body =
     (let holder = map char_of (py_upper (strip (u (ad_text c (part_at body ''paymentMethod.holderName''))))) in
      case map_of HOLDER_TRIGGERS holder of
        Some t \<Rightarrow> Some t
      | None \<Rightarrow> map_of ACQUIRER_CODES (ad_text c (part_at body ''additionalData.RequestedTestAcquirerResponseCode'')))"

definition ad_challenge :: "adyen_conf \<Rightarrow> pyv \<Rightarrow> adyen \<Rightarrow> action result \<times> adyen" where
  "ad_challenge c body s =
     (let (ref, s) = psp_ref c s; token = ''pd_'' @ ref in
      (Inr (json_reply 200 [(''resultCode'', PStr ''ChallengeShopper''),
         (''action'', PDict [(''type'', PStr ''threeDS2''), (''subtype'', PStr ''challenge''), (''paymentData'', PStr token),
            (''paymentMethodType'', PStr ''scheme'')])]),
       s\<lparr>ad_pending := (ad_pending s)(token \<mapsto> body)\<rparr>))"

definition ad_payment :: "adyen_conf \<Rightarrow> pyv \<Rightarrow> adyen \<Rightarrow> action result \<times> adyen" where
  "ad_payment c body s =
     (if wrong_merchant c (part_at body ''merchantAccount'')
      then (Inr (ad_error 403 ''901'' ''Invalid Merchant Account'' ''security''), s)
      else case float_of (part_at body ''amount.value'') of
        Inl _ \<Rightarrow> (Inr (ad_error 422 ''100'' ''Amount is not valid'' ''validation''), s)
      | Inr value \<Rightarrow>
          (case trigger_of c body of
             Some (reason, code) \<Rightarrow> ad_refused c body reason code s
           | None \<Rightarrow>
               (case (if ac_decline_over c = PNone then Inr False else rbind (float_of (ac_decline_over c)) (\<lambda>l. Inr (l \<le> value))) of
                  Inl e \<Rightarrow> (Inl e, s)
                | Inr True \<Rightarrow> ad_refused c body ''Not enough balance'' ''12'' s
                | Inr False \<Rightarrow>
                    if ad_text c (part_at body ''paymentMethod.number'') \<in> set CHALLENGE_CARDS then ad_challenge c body s
                    else ad_authorised c body s)))"

definition ad_details :: "adyen_conf \<Rightarrow> pyv \<Rightarrow> adyen \<Rightarrow> action result \<times> adyen" where
  "ad_details c body s =
     (let token = ad_text c (part_at body ''paymentData'') in
      case ad_pending s token of
        None \<Rightarrow> (Inr (ad_error 422 ''704'' ''request already processed or contains invalid data'' ''validation''), s)
      | Some pending \<Rightarrow> ad_authorised c pending (s\<lparr>ad_pending := (ad_pending s)(token := None)\<rparr>))"

definition ad_refund :: "adyen_conf \<Rightarrow> string \<Rightarrow> pyv \<Rightarrow> adyen \<Rightarrow> action result \<times> adyen" where
  "ad_refund c ref body s =
     (case ad_payments s ref of
        None \<Rightarrow> (Inr (ad_error 422 ''731'' ''PaymentDetail not found'' ''validation''), s)
      | Some parent \<Rightarrow>
          (let merchant = part_at body ''merchantAccount''; asked = part_at body ''amount'' in
           if wrong_merchant c merchant then (Inr (ad_error 403 ''901'' ''Invalid Merchant Account'' ''security''), s)
           else
             (let (own, s) = psp_ref c s; amount = (if truthy asked then asked else ap_amount parent) in
              noticed (ad_emit c ''REFUND'' amount
                 [(''pspReference'', PStr own), (''originalReference'', PStr ref), (''merchantAccountCode'', PStr (ad_text c merchant)),
                  (''merchantReference'', PStr (ad_text c (ap_reference parent))), (''eventCode'', PStr ''REFUND''), (''success'', PStr ''true'')] s)
                (json_reply 201 [(''merchantAccount'', merchant), (''paymentPspReference'', PStr ref), (''pspReference'', PStr own),
                   (''status'', PStr ''received''), (''amount'', amount)]) s)))"

section \<open>Routing\<close>

datatype ad_route = Pay | Details | Refunds string

definition is_version :: "string \<Rightarrow> bool" where
  "is_version s \<longleftrightarrow> (case s of [] \<Rightarrow> False | v # ds \<Rightarrow> v = CHR ''v'' \<and> ds \<noteq> [] \<and> list_all is_digit ds)"

definition adyen_route :: "string \<Rightarrow> ad_route option" where
  "adyen_route path =
     (case split_char (CHR ''/'') path of
        [] \<Rightarrow> None
      | e # segments \<Rightarrow>
          (let segments = (case segments of v # rest \<Rightarrow> if is_version v then rest else segments | [] \<Rightarrow> []) in
           if e \<noteq> [] then None
           else (case segments of
                   [p] \<Rightarrow> if chomp p = ''payments'' then Some Pay else None
                 | [p, x] \<Rightarrow>
                     if p \<noteq> ''payments'' then None else if chomp x = [] then Some Pay
                     else if chomp x = ''details'' then Some Details else None
                 | [p, x, y] \<Rightarrow>
                     if p \<noteq> ''payments'' then None else if x = ''details'' \<and> chomp y = [] then Some Details
                     else if x \<noteq> [] \<and> chomp y = ''refunds'' then Some (Refunds x) else None
                 | [p, x, y, z] \<Rightarrow> if p = ''payments'' \<and> x \<noteq> [] \<and> y = ''refunds'' \<and> chomp z = [] then Some (Refunds x) else None
                 | _ \<Rightarrow> None)))"

definition adyen_decide :: "adyen_conf \<Rightarrow> http_request \<Rightarrow> adyen \<Rightarrow> action result \<times> adyen" where
  "adyen_decide c rq s =
     (if ac_require_auth c \<and> \<not> truthy (get (rq_headers rq) ''x-api-key'' PNone)
      then (Inr (ad_error 401 ''000'' ''HTTP Status Response - Unauthorized: Payment Request not authorised'' ''security''), s)
      else if rq_method rq \<noteq> ''POST''
      then (Inr (ad_error 405 ''000'' (''Method '' @ rq_method rq @ '' not allowed'') ''validation''), s)
      else case adyen_route (rq_path rq) of
        Some Pay \<Rightarrow> ad_payment c (body_dict rq) s
      | Some Details \<Rightarrow> ad_details c (body_dict rq) s
      | Some (Refunds ref) \<Rightarrow> ad_refund c ref (body_dict rq) s
      | None \<Rightarrow> (Inr (ad_error 404 ''000'' ''Unknown resource'' ''validation''), s))"

text \<open>\<open>_response_code\<close>; a body that is a text or a list raises, one way or another.\<close>

definition adyen_code :: "py_texts \<Rightarrow> action \<Rightarrow> string result" where
  "adyen_code l action =
     rbind (items_or AttributeError (get action ''json'' PNone)) (\<lambda>body.
       let str = pystr (pt_str l); result = map_of body ''resultCode''; err = map_of body ''errorCode''; reason = get body ''refusalReason'' PNone in
       Inr (case result of
              Some r \<Rightarrow> if r = PStr ''Refused'' then str (if truthy reason then reason else r) else str r
            | None \<Rightarrow>
                (case err of
                   Some e \<Rightarrow> ''error:'' @ str e
                 | None \<Rightarrow> str (if truthy (get body ''status'' PNone) then get body ''status'' PNone else get action ''status'' (PInt 200)))))"

section \<open>What is kept\<close>

definition ad_known :: "adyen_conf \<Rightarrow> adyen \<Rightarrow> string \<Rightarrow> bool" where
  "ad_known c s i \<longleftrightarrow> (\<exists>n < ad_next s. i = ac_fresh c n)"

text \<open>What is on the books has a reference that was drawn, a challenge its token.\<close>

definition adyen_ok :: "adyen_conf \<Rightarrow> adyen \<Rightarrow> bool" where
  "adyen_ok c s \<longleftrightarrow> inj (ac_fresh c) \<and> (\<forall>ref. ad_payments s ref \<noteq> None \<longrightarrow> ad_known c s ref) \<and>
     (\<forall>token. ad_pending s token \<noteq> None \<longrightarrow> (\<exists>ref. token = ''pd_'' @ ref \<and> ad_known c s ref))"

text \<open>Payments stay as they are; a token is pending after a request only if it was before or is new.\<close>

definition ad_follows :: "adyen_conf \<Rightarrow> adyen \<Rightarrow> adyen \<Rightarrow> bool" where
  "ad_follows c s s' \<longleftrightarrow> ad_next s \<le> ad_next s' \<and>
     (\<forall>ref p. ad_payments s ref = Some p \<longrightarrow> ad_payments s' ref = Some p) \<and>
     (\<forall>ref. ad_payments s' ref \<noteq> None \<longrightarrow> ad_payments s ref \<noteq> None \<or> ad_known c s' ref) \<and>
     (\<forall>token. ad_pending s' token \<noteq> None \<longrightarrow> ad_pending s token \<noteq> None \<or>
        (\<exists>n. ad_next s \<le> n \<and> n < ad_next s' \<and> token = ''pd_'' @ ac_fresh c n))"

lemma ad_known_grows: "ad_known c s i \<Longrightarrow> ad_next s \<le> ad_next s' \<Longrightarrow> ad_known c s' i"
  unfolding ad_known_def by (elim exE conjE) (intro exI conjI, erule (1) less_le_trans)

lemma ad_follows_ok:
  assumes "ad_follows c s s'" and "adyen_ok c s"
  shows "adyen_ok c s'"
proof -
  have grows: "ad_known c s i \<Longrightarrow> ad_known c s' i" for i
    by (erule ad_known_grows) (use assms(1) in \<open>simp add: ad_follows_def\<close>)
  have "ad_known c s' ref" if "ad_payments s' ref \<noteq> None" for ref
    using assms grows that unfolding ad_follows_def adyen_ok_def by blast
  moreover have "\<exists>ref. token = ''pd_'' @ ref \<and> ad_known c s' ref" if t: "ad_pending s' token \<noteq> None" for token
  proof (cases "ad_pending s token")
    case None
    then obtain n where "n < ad_next s'" "token = ''pd_'' @ ac_fresh c n" using assms(1) t unfolding ad_follows_def by blast
    then show ?thesis unfolding ad_known_def by blast
  next
    case (Some b)
    then show ?thesis using assms(2) grows unfolding adyen_ok_def by blast
  qed
  ultimately show ?thesis using assms(2) by (simp add: adyen_ok_def)
qed

lemma ad_same: "ad_follows c s s"
  by (simp add: ad_follows_def)

lemma ad_emit_keeps:
  "ad_emit c kind amount item s = Inr s' \<Longrightarrow> ad_payments s' = ad_payments s \<and> ad_pending s' = ad_pending s \<and> ad_next s' = ad_next s"
  by (auto simp: ad_emit_def result_iff split: if_splits)

lemma noticed_keeps:
  "ad_payments (snd (noticed (ad_emit c kind amount item s) answer s)) = ad_payments s"
  "ad_pending (snd (noticed (ad_emit c kind amount item s) answer s)) = ad_pending s"
  "ad_next (snd (noticed (ad_emit c kind amount item s) answer s)) = ad_next s"
  using ad_emit_keeps by (auto simp: noticed_def split: sum.split)

lemma fresh_payment:
  assumes "adyen_ok c s"
  shows "ad_payments s (ac_fresh c (ad_next s)) = None"
proof (cases "ad_payments s (ac_fresh c (ad_next s))")
  case (Some p)
  then have "ad_known c s (ac_fresh c (ad_next s))" using assms by (simp add: adyen_ok_def)
  then show ?thesis using assms by (auto simp: ad_known_def adyen_ok_def inj_def)
qed

lemma authorised_follows:
  assumes "adyen_ok c s" and "\<And>t. ad_pending s1 t \<noteq> None \<Longrightarrow> ad_pending s t \<noteq> None" and "ad_payments s1 = ad_payments s" and "ad_next s1 = ad_next s"
  shows "ad_follows c s (snd (ad_authorised c body s1))"
  using fresh_payment [OF assms(1)] assms(2-4)
  by (auto simp: ad_authorised_def psp_ref_def Let_def noticed_keeps ad_follows_def ad_known_def)

lemma adyen_follows:
  assumes "adyen_ok c s"
  shows "ad_follows c s (snd (adyen_decide c rq s))"
proof -
  have refused: "ad_follows c s (snd (ad_refused c body reason code s))" for body reason code
    by (auto simp: ad_refused_def psp_ref_def Let_def noticed_keeps ad_follows_def)
  have challenge: "ad_follows c s (snd (ad_challenge c body s))" for body
    by (auto simp: ad_challenge_def psp_ref_def Let_def ad_follows_def)
  have authorised: "ad_follows c s (snd (ad_authorised c body s))" for body by (rule authorised_follows [OF assms]) simp_all
  have "ad_follows c s (snd (ad_payment c body s))" for body
    using refused challenge authorised by (auto simp: ad_payment_def ad_same split: sum.split option.split bool.split)
  moreover have "ad_follows c s (snd (ad_details c body s))" for body
    by (auto simp: ad_details_def Let_def ad_same split: option.split if_splits intro!: authorised_follows [OF assms])
  moreover have "ad_follows c s (snd (ad_refund c ref body s))" for ref body
    by (auto simp: ad_refund_def psp_ref_def Let_def noticed_keeps ad_follows_def split: option.split)
  ultimately show ?thesis by (simp add: adyen_decide_def ad_same split: option.split ad_route.split)
qed

interpretation adyen: gateway "adyen_decide c" "adyen_ok c" "\<lambda>_. True" for c
  by unfold_locales (rule ad_follows_ok [OF adyen_follows])

lemma adyen_start: "inj (ac_fresh c) \<Longrightarrow> adyen_ok c no_payments"
  by (simp add: adyen_ok_def no_payments_def)

abbreviation adyen_traffic :: "py_texts \<Rightarrow> (config \<times> action) list \<Rightarrow> adyen_conf \<Rightarrow> http_request list \<Rightarrow> adyen \<Rightarrow> adyen" where
  "adyen_traffic l rules c rqs s \<equiv> fold (\<lambda>rq g. snd (behind_rules l rules (adyen_decide c) rq g)) rqs s"

text \<open>What was drawn and is not pending will not be pending again, and payments stay.\<close>

lemma traffic_keeps:
  assumes "adyen_ok c s" and "ad_known c s ref" and "ad_pending s (''pd_'' @ ref) = None"
  shows "ad_pending (adyen_traffic l rules c rqs s) (''pd_'' @ ref) = None"
proof -
  let ?R = "\<lambda>a b. (ad_known c a ref \<longrightarrow> ad_known c b ref) \<and>
    (ad_known c a ref \<and> ad_pending a (''pd_'' @ ref) = None \<longrightarrow> ad_pending b (''pd_'' @ ref) = None)"
  have step: "?R s (snd (adyen_decide c rq s))" if ok: "adyen_ok c s" for s rq
  proof -
    note f = adyen_follows [OF ok, of rq]
    have "ad_known c s ref \<longrightarrow> ad_known c (snd (adyen_decide c rq s)) ref"
      using f ad_known_grows unfolding ad_follows_def by blast
    moreover have "ad_pending (snd (adyen_decide c rq s)) (''pd_'' @ ref) = None"
      if k: "ad_known c s ref" and none: "ad_pending s (''pd_'' @ ref) = None"
    proof (rule ccontr)
      assume "ad_pending (snd (adyen_decide c rq s)) (''pd_'' @ ref) \<noteq> None"
      then obtain n where n: "ad_next s \<le> n" "''pd_'' @ ref = ''pd_'' @ ac_fresh c n"
        using f none unfolding ad_follows_def by blast
      obtain m where m: "m < ad_next s" "ref = ac_fresh c m" using k unfolding ad_known_def by blast
      have "inj (ac_fresh c)" using ok by (simp add: adyen_ok_def)
      then have "m = n" using n(2) m(2) by (simp add: inj_eq)
      then show False using n(1) m(1) by simp
    qed
    ultimately show ?thesis by blast
  qed
  have "?R s (adyen_traffic l rules c rqs s)"
  proof (rule adyen.along [where R = ?R])
    show "?R a (snd (adyen_decide c rq a))" if "adyen_ok c a" for a rq by (rule step [OF that])
    show "adyen_ok c s" by (rule assms(1))
  qed (auto simp: list_all_iff)
  then show ?thesis using assms(2,3) by blast
qed

lemma payments_stay:
  assumes "adyen_ok c s" and "ad_payments s ref = Some p"
  shows "ad_payments (adyen_traffic l rules c rqs s) ref = Some p"
proof -
  let ?R = "\<lambda>a b. ad_payments a ref = Some p \<longrightarrow> ad_payments b ref = Some p"
  have "?R s (adyen_traffic l rules c rqs s)"
  proof (rule adyen.along [where R = ?R])
    show "?R a (snd (adyen_decide c rq a))" if "adyen_ok c a" for a rq
      using adyen_follows [OF that, of rq] unfolding ad_follows_def by blast
    show "adyen_ok c s" by (rule assms(1))
  qed (auto simp: list_all_iff)
  then show ?thesis using assms(2) by blast
qed

text \<open>A challenge is completed once: the payment it authorises carries the amount it was opened with and stays on the books, and
  completing it again is refused, whatever happens in between.\<close>

theorem challenge_completes_once:
  assumes "adyen_ok c s" and "ad_pending s token = Some opened"
    and "rq_path rq = ''/payments/details''" and "rq_method rq = ''POST''" and "\<not> ac_require_auth c \<or> truthy (get (rq_headers rq) ''x-api-key'' PNone)"
    and "ad_text c (part_at (body_dict rq) ''paymentData'') = token"
    and "s' = fold (\<lambda>rq g. snd (behind_rules l rules (adyen_decide c) rq g)) rqs (snd (adyen_decide c rq s))"
  shows "(\<exists>ref p. ad_payments s ref = None \<and> ad_payments s' ref = Some p \<and> ap_amount p = ad_amount opened) \<and>
    fst (adyen_decide c rq s') = Inr (ad_error 422 ''704'' ''request already processed or contains invalid data'' ''validation'')"
proof -
  have route: "adyen_route (rq_path rq) = Some Details" unfolding assms(3) by code_simp
  have decide: "adyen_decide c rq s1 = ad_details c (body_dict rq) s1" for s1
    using assms(4,5) route by (auto simp: adyen_decide_def)
  define s1 where "s1 = snd (adyen_decide c rq s)"
  have e: "s1 = snd (ad_authorised c opened (s\<lparr>ad_pending := (ad_pending s)(token := None)\<rparr>))"
    using assms(2,6) by (simp add: s1_def decide ad_details_def)
  let ?ref = "ac_fresh c (ad_next s)"
  have pay: "ad_payments s1 ?ref = Some \<lparr>ap_amount = ad_amount opened, ap_reference = part_at opened ''reference''\<rparr>"
    and gone: "ad_pending s1 token = None"
    unfolding e by (simp_all add: ad_authorised_def psp_ref_def Let_def noticed_keeps)
  have ok1: "adyen_ok c s1" unfolding s1_def by (rule adyen.keeps [OF assms(1) TrueI])
  obtain ref where ref: "token = ''pd_'' @ ref" "ad_known c s ref" using assms(1,2) unfolding adyen_ok_def by blast
  have "ad_next s \<le> ad_next s1" using adyen_follows [OF assms(1), of rq] by (simp add: s1_def ad_follows_def)
  then have "ad_pending s' token = None"
    using traffic_keeps [OF ok1 ad_known_grows [OF ref(2)]] gone by (simp add: ref(1) assms(7) s1_def)
  then have "fst (adyen_decide c rq s') = Inr (ad_error 422 ''704'' ''request already processed or contains invalid data'' ''validation'')"
    using assms(6) by (simp add: decide ad_details_def)
  moreover have "\<exists>ref p. ad_payments s ref = None \<and> ad_payments s' ref = Some p \<and> ap_amount p = ad_amount opened"
    using fresh_payment [OF assms(1)] payments_stay [OF ok1 pay, of l rules rqs] by (auto simp: assms(7) s1_def)
  ultimately show ?thesis by blast
qed

section \<open>Examples\<close>

definition demo_adyen :: adyen_conf where
  "demo_adyen = \<lparr>ac_texts = demo_texts, ac_require_auth = False, ac_merchant = PNone, ac_decline_over = PNone,
     ac_fresh = (\<lambda>n. replicate (Suc n) (CHR ''Z'')), ac_webhooks = True, ac_events = []\<rparr>"

definition adyen_sale :: "string \<Rightarrow> http_request" where
  "adyen_sale pan = post ''/v71/payments''
     [(''merchantAccount'', PStr ''M''), (''amount'', PDict [(''value'', PInt 700)]), (''paymentMethod'', PDict [(''number'', PStr pan)])]"

definition adyen_open :: adyen where
  "adyen_open = adyen_traffic demo_texts [] demo_adyen [adyen_sale ''4212345678901237''] no_payments"

definition adyen_complete :: http_request where
  "adyen_complete = post ''/payments/details'' [(''paymentData'', PStr ''pd_Z'')]"

lemma demo_adyen_fresh: "inj (ac_fresh demo_adyen)"
  by (auto simp: demo_adyen_def inj_def replicate_eq_replicate)

lemma adyen_open_ok: "adyen_ok demo_adyen adyen_open"
  unfolding adyen_open_def by (rule adyen.traffic [OF adyen_start [OF demo_adyen_fresh]]) (simp add: list_all_iff)

definition adyen_opened :: pyv where
  "adyen_opened = rq_body (adyen_sale ''4212345678901237'')"

lemma adyen_pending: "ad_pending adyen_open ''pd_Z'' = Some adyen_opened"
  by code_simp

lemma adyen_complete_token: "ad_text demo_adyen (part_at (body_dict adyen_complete) ''paymentData'') = ''pd_Z''"
  by code_simp

theorem challenge_completes_once_witness:
  "(\<exists>ref p. ad_payments adyen_open ref = None \<and>
     ad_payments (adyen_traffic demo_texts [] demo_adyen [adyen_complete] (snd (adyen_decide demo_adyen adyen_complete adyen_open))) ref = Some p \<and>
     ap_amount p = ad_amount adyen_opened) \<and>
   fst (adyen_decide demo_adyen adyen_complete
     (adyen_traffic demo_texts [] demo_adyen [adyen_complete] (snd (adyen_decide demo_adyen adyen_complete adyen_open)))) =
   Inr (ad_error 422 ''704'' ''request already processed or contains invalid data'' ''validation'')"
  by (rule challenge_completes_once [OF adyen_open_ok adyen_pending _ _ _ adyen_complete_token refl])
    (simp_all add: adyen_complete_def post_def demo_adyen_def)

text \<open>With notifications on, a refund whose amount is a text is not answered: signing its notification raises.\<close>

theorem text_amount_breaks_refund:
  "fst (adyen_decide demo_adyen (post ''/payments/Z/refunds'' [(''merchantAccount'', PStr ''M''), (''amount'', PStr ''7'')])
     (adyen_traffic demo_texts [] demo_adyen [adyen_sale ''4111111111111111''] no_payments)) = Inl AttributeError"
  by code_simp

end
