(* ===== verification/Form_Body.thy ===== *)
theory Form_Body
  imports Http_Sim
begin

text \<open>
  Bodies in bracket notation: \<open>form_flatten\<close> of the HTTP node (\<open>worker/engine/http_runner.py\<close>) writes them,
  \<open>_unflatten_form\<close> of the simulated Stripe (\<open>worker/adapters/scheme/stripe_sim.py\<close>) reads them, with the query strings of
  Python's \<open>urllib\<close>. The decoding of bytes above 127 is a parameter. The theorem says what comes back: texts for values,
  objects with numbered keys for lists.
\<close>

section \<open>Writing\<close>

fun form_flatten :: "(pyv \<Rightarrow> string) \<Rightarrow> string \<Rightarrow> pyv \<Rightarrow> (string \<times> string) list"
  and flatten_items :: "(pyv \<Rightarrow> string) \<Rightarrow> string \<Rightarrow> (string \<times> pyv) list \<Rightarrow> (string \<times> string) list \<Rightarrow> (string \<times> string) list"
  and flatten_list :: "(pyv \<Rightarrow> string) \<Rightarrow> string \<Rightarrow> nat \<Rightarrow> pyv list \<Rightarrow> (string \<times> string) list \<Rightarrow> (string \<times> string) list" where
  "form_flatten rp pre (PDict kvs) = flatten_items rp pre kvs []"
| "form_flatten rp pre (PList vs) = flatten_list rp pre 0 vs []"
| "form_flatten rp pre (PBool b) = (if pre = [] then [] else [(pre, if b then ''true'' else ''false'')])"
| "form_flatten rp pre PNone = []"
| "form_flatten rp pre (PInt n) = (if pre = [] then [] else [(pre, pystr rp (PInt n))])"
| "form_flatten rp pre (PFloat q) = (if pre = [] then [] else [(pre, pystr rp (PFloat q))])"
| "form_flatten rp pre (PStr s) = (if pre = [] then [] else [(pre, s)])"
| "flatten_items rp pre [] acc = acc"
| "flatten_items rp pre ((k, v) # kvs) acc =
     (let flat = form_flatten rp (if pre = [] then k else pre @ ''['' @ k @ '']'') v in
      flatten_items rp pre kvs (AList.updates (map fst flat) (map snd flat) acc))"
| "flatten_list rp pre i [] acc = acc"
| "flatten_list rp pre i (v # vs) acc =
     (let flat = form_flatten rp (pre @ ''['' @ dec_string i @ '']'') v in
      flatten_list rp pre (Suc i) vs (AList.updates (map fst flat) (map snd flat) acc))"

section \<open>Query strings\<close>

definition hex_pair :: "string \<Rightarrow> nat option" where
  "hex_pair s =
     (case s of
        [a, b] \<Rightarrow> (case (hexval (of_char a), hexval (of_char b)) of (Some x, Some y) \<Rightarrow> Some (16 * x + y) | _ \<Rightarrow> None)
      | _ \<Rightarrow> None)"

text \<open>\<open>unquote\<close>: runs of escaped bytes above 127 go to \<open>wide\<close>.\<close>

fun unquote :: "(nat list \<Rightarrow> string) \<Rightarrow> nat list \<Rightarrow> nat \<Rightarrow> string \<Rightarrow> string" where
  "unquote wide run 0 s = wide run @ s"
| "unquote wide run (Suc fuel) s =
     (let flush = (if run = [] then [] else wide run) in
      case s of
        [] \<Rightarrow> flush
      | c # cs \<Rightarrow>
          (case (if c = CHR ''%'' then hex_pair (take 2 cs) else None) of
             None \<Rightarrow> flush @ [c] @ unquote wide [] fuel cs
           | Some n \<Rightarrow> if n < 128 then flush @ [char_of n] @ unquote wide [] fuel (drop 2 cs)
                     else unquote wide (run @ [n]) fuel (drop 2 cs)))"

definition unquote_plus :: "(nat list \<Rightarrow> string) \<Rightarrow> string \<Rightarrow> string" where
  "unquote_plus wide s = unquote wide [] (Suc (length s)) (map (\<lambda>c. if c = CHR ''+'' then CHR '' '' else c) s)"

text \<open>\<open>parse_qs\<close> keeping blank values: the last value of each key, in the order in which keys first occur.\<close>

definition query_pair :: "(nat list \<Rightarrow> string) \<Rightarrow> string \<Rightarrow> string \<times> string" where
  "query_pair wide s =
     (let name = takeWhile (\<lambda>c. c \<noteq> CHR ''='') s in
      (unquote_plus wide name, unquote_plus wide (drop (Suc (length name)) s)))"

definition parse_qs :: "(nat list \<Rightarrow> string) \<Rightarrow> string \<Rightarrow> (string \<times> string) list" where
  "parse_qs wide raw =
     (let pairs = map (query_pair wide) (filter (\<lambda>s. s \<noteq> []) (split_char (CHR ''&'') raw)) in
      AList.updates (map fst pairs) (map snd pairs) [])"

section \<open>Reading\<close>

definition is_bracket :: "char \<Rightarrow> bool" where
  "is_bracket c \<longleftrightarrow> c = CHR ''['' \<or> c = CHR '']''"

text \<open>The runs without a bracket, and the value put at their path; what is in the way and is no object is replaced.\<close>

fun key_parts :: "string \<Rightarrow> string \<Rightarrow> string list" where
  "key_parts run [] = (if run = [] then [] else [run])"
| "key_parts run (c # cs) =
     (if is_bracket c then (if run = [] then [] else [run]) @ key_parts [] cs else key_parts (run @ [c]) cs)"

fun put_path :: "string list \<Rightarrow> string \<Rightarrow> (string \<times> pyv) list \<Rightarrow> (string \<times> pyv) list" where
  "put_path [] v d = d"
| "put_path [part] v d = AList.update part (PStr v) d"
| "put_path (part # parts) v d =
     AList.update part (PDict (put_path parts v (case map_of d part of Some (PDict kvs) \<Rightarrow> kvs | _ \<Rightarrow> []))) d"

definition unflatten_pairs :: "(string \<times> string) list \<Rightarrow> (string \<times> pyv) list" where
  "unflatten_pairs pairs = fold (\<lambda>(k, v). put_path (key_parts [] k) v) pairs []"

definition unflatten_form :: "(nat list \<Rightarrow> string) \<Rightarrow> string \<Rightarrow> pyv" where
  "unflatten_form wide raw = PDict (unflatten_pairs (parse_qs wide raw))"

text \<open>\<open>_decode\<close> of the simulated Stripe, after the body was read as JSON, which is a parameter, or as a text.\<close>

definition stripe_decode :: "(nat list \<Rightarrow> string) \<Rightarrow> (string \<Rightarrow> pyv option) \<Rightarrow> (pyv \<Rightarrow> string) \<Rightarrow> http_request \<Rightarrow> http_request" where
  "stripe_decode wide loads rp rq =
     (let raw = rq_raw rq; body = (if raw = [] then PNone else case loads raw of Some v \<Rightarrow> v | None \<Rightarrow> PStr raw);
          ctype = pystr rp (get (rq_headers rq) ''content-type'' (PStr []));
          plain = (case body of PStr s \<Rightarrow> CHR ''='' \<in> set s \<and> \<not> prefix ''{'' (dropWhile ws_char s) | _ \<Rightarrow> False) in
      rq\<lparr>rq_body := (if (sublist ''form-urlencoded'' ctype \<or> plain) \<and> raw \<noteq> [] then unflatten_form wide raw else body)\<rparr>)"

section \<open>Lists are objects with numbered keys\<close>

fun numbered :: "nat \<Rightarrow> pyv list \<Rightarrow> (string \<times> pyv) list" where
  "numbered i [] = []"
| "numbered i (v # vs) = (dec_string i, v) # numbered (Suc i) vs"

text \<open>What comes back: every value as a text.\<close>

fun as_texts :: "(pyv \<Rightarrow> string) \<Rightarrow> pyv \<Rightarrow> pyv"
  and items_texts :: "(pyv \<Rightarrow> string) \<Rightarrow> (string \<times> pyv) list \<Rightarrow> (string \<times> pyv) list"
  and list_texts :: "(pyv \<Rightarrow> string) \<Rightarrow> nat \<Rightarrow> pyv list \<Rightarrow> (string \<times> pyv) list" where
  "as_texts rp (PDict kvs) = PDict (items_texts rp kvs)"
| "as_texts rp (PList vs) = PDict (list_texts rp 0 vs)"
| "as_texts rp (PBool b) = PStr (if b then ''true'' else ''false'')"
| "as_texts rp v = PStr (pystr rp v)"
| "items_texts rp [] = []"
| "items_texts rp ((k, v) # kvs) = (k, as_texts rp v) # items_texts rp kvs"
| "list_texts rp i [] = []"
| "list_texts rp i (v # vs) = (dec_string i, as_texts rp v) # list_texts rp (Suc i) vs"

definition good_key :: "string \<Rightarrow> bool" where
  "good_key k \<longleftrightarrow> k \<noteq> [] \<and> list_all (\<lambda>c. \<not> is_bracket c) k"

text \<open>Documents that can be written: no \<open>None\<close>, nothing empty, keys without brackets.\<close>

fun formable :: "pyv \<Rightarrow> bool"
  and items_formable :: "(string \<times> pyv) list \<Rightarrow> bool"
  and list_formable :: "pyv list \<Rightarrow> bool" where
  "formable (PDict kvs) = (kvs \<noteq> [] \<and> distinct (map fst kvs) \<and> items_formable kvs)"
| "formable (PList vs) = (vs \<noteq> [] \<and> list_formable vs)"
| "formable PNone = False"
| "formable (PBool b) = True"
| "formable (PInt n) = True"
| "formable (PFloat q) = True"
| "formable (PStr s) = True"
| "items_formable [] = True"
| "items_formable ((k, v) # kvs) = (good_key k \<and> formable v \<and> items_formable kvs)"
| "list_formable [] = True"
| "list_formable (v # vs) = (formable v \<and> list_formable vs)"

text \<open>The leaves of a document with their paths.\<close>

fun leaves :: "(pyv \<Rightarrow> string) \<Rightarrow> pyv \<Rightarrow> (string list \<times> string) list"
  and items_leaves :: "(pyv \<Rightarrow> string) \<Rightarrow> (string \<times> pyv) list \<Rightarrow> (string list \<times> string) list"
  and list_leaves :: "(pyv \<Rightarrow> string) \<Rightarrow> nat \<Rightarrow> pyv list \<Rightarrow> (string list \<times> string) list" where
  "leaves rp (PDict kvs) = items_leaves rp kvs"
| "leaves rp (PList vs) = list_leaves rp 0 vs"
| "leaves rp (PBool b) = [([], if b then ''true'' else ''false'')]"
| "leaves rp PNone = []"
| "leaves rp (PInt n) = [([], pystr rp (PInt n))]"
| "leaves rp (PFloat q) = [([], pystr rp (PFloat q))]"
| "leaves rp (PStr s) = [([], s)]"
| "items_leaves rp [] = []"
| "items_leaves rp ((k, v) # kvs) = map (\<lambda>(p, t). (k # p, t)) (leaves rp v) @ items_leaves rp kvs"
| "list_leaves rp i [] = []"
| "list_leaves rp i (v # vs) = map (\<lambda>(p, t). (dec_string i # p, t)) (leaves rp v) @ list_leaves rp (Suc i) vs"

lemma list_leaves_numbered: "list_leaves rp i vs = items_leaves rp (numbered i vs)"
  by (induction vs arbitrary: i) simp_all

lemma list_texts_numbered: "list_texts rp i vs = items_texts rp (numbered i vs)"
  by (induction vs arbitrary: i) simp_all

lemma dec_string_good: "good_key (dec_string i)"
proof -
  have "\<not> is_digit (CHR ''['')" "\<not> is_digit (CHR '']'')" by (simp_all add: is_digit_def is_dec_def)
  then have "is_digit c \<Longrightarrow> \<not> is_bracket c" for c by (auto simp only: is_bracket_def)
  then have "list_all (\<lambda>c. \<not> is_bracket c) (dec_string i)"
    using is_digit_dec_string [of i] by (auto simp only: list_all_iff)
  then show ?thesis by (simp add: good_key_def dec_string_nonempty)
qed

lemma numbered_keys: "k \<in> fst ` set (numbered i vs) \<Longrightarrow> \<exists>j \<ge> i. k = dec_string j"
proof (induction vs arbitrary: i)
  case (Cons v vs)
  then have "k = dec_string i \<or> k \<in> fst ` set (numbered (Suc i) vs)" by auto
  then show ?case
  proof
    assume "k \<in> fst ` set (numbered (Suc i) vs)"
    then obtain j where "Suc i \<le> j" "k = dec_string j" using Cons.IH by blast
    then show ?thesis by (intro exI [of _ j]) simp
  qed blast
qed simp

lemma numbered_distinct: "distinct (map fst (numbered i vs))"
proof (induction vs arbitrary: i)
  case (Cons v vs)
  have "dec_string i \<notin> fst ` set (numbered (Suc i) vs)"
    using numbered_keys [of "dec_string i" "Suc i" vs] dec_string_inj Suc_n_not_le_n by metis
  then show ?case using Cons by simp
qed simp

lemma numbered_formable: "list_formable vs \<Longrightarrow> items_formable (numbered i vs)"
  by (induction vs arbitrary: i) (simp_all add: dec_string_good)

section \<open>Reading the leaves\<close>

abbreviation put_all :: "(string list \<times> string) list \<Rightarrow> (string \<times> pyv) list \<Rightarrow> (string \<times> pyv) list" where
  "put_all ls d \<equiv> fold (\<lambda>(p, t). put_path p t) ls d"

lemma update_last: "k \<notin> fst ` set d \<Longrightarrow> AList.update k v (d @ [(k, x)]) = d @ [(k, v)]"
  by (induction d) auto

lemma map_of_last: "k \<notin> fst ` set d \<Longrightarrow> map_of (d @ [(k, x)]) k = Some x"
  by (induction d) auto

lemma put_path_Cons: "p \<noteq> [] \<Longrightarrow> put_path (k # p) t d =
    AList.update k (PDict (put_path p t (case map_of d k of Some (PDict kvs) \<Rightarrow> kvs | _ \<Rightarrow> []))) d"
  by (cases p) simp_all

lemma put_below:
  assumes "k \<notin> fst ` set d" and "\<forall>(p, t) \<in> set ls. p \<noteq> []"
  shows "put_all (map (\<lambda>(p, t). (k # p, t)) ls) (d @ [(k, PDict e)]) = d @ [(k, PDict (put_all ls e))]"
  using assms(2)
proof (induction ls arbitrary: e)
  case (Cons x ls)
  obtain p t where x: "x = (p, t)" by fastforce
  then have "p \<noteq> []" using Cons.prems by simp
  then show ?case using Cons x by (simp add: put_path_Cons update_last [OF assms(1)] map_of_last [OF assms(1)] del: map_of_append)
qed simp

lemma put_new_below:
  assumes "k \<notin> fst ` set d" and "\<forall>(p, t) \<in> set ls. p \<noteq> []" and "ls \<noteq> []"
  shows "put_all (map (\<lambda>(p, t). (k # p, t)) ls) d = d @ [(k, PDict (put_all ls []))]"
proof -
  obtain p t ls' where x: "ls = (p, t) # ls'" using assms(3) by (cases ls) auto
  then have "p \<noteq> []" using assms(2) by simp
  moreover have "map_of d k = None" using assms(1) by (simp add: map_of_eq_None_iff)
  ultimately show ?thesis
    using put_below [OF assms(1), of ls'] assms(2) x by (simp add: put_path_Cons update_new [OF assms(1)])
qed

lemma items_leaves_below: "\<forall>(p, t) \<in> set (items_leaves rp kvs). p \<noteq> []"
  by (induction kvs) auto

lemma leaves_exist:
  "formable v \<Longrightarrow> leaves rp v \<noteq> []" "items_formable kvs \<Longrightarrow> kvs \<noteq> [] \<Longrightarrow> items_leaves rp kvs \<noteq> []"
  "list_formable vs \<Longrightarrow> vs \<noteq> [] \<Longrightarrow> list_leaves rp i vs \<noteq> []"
  by (induction v and kvs and vs arbitrary: and and i rule: formable_items_formable_list_formable.induct) auto

lemma leaves_read:
  "formable v \<Longrightarrow> k \<notin> fst ` set d \<Longrightarrow> put_all (map (\<lambda>(p, t). (k # p, t)) (leaves rp v)) d = d @ [(k, as_texts rp v)]"
  "items_formable kvs \<Longrightarrow> distinct (map fst kvs) \<Longrightarrow> fst ` set kvs \<inter> fst ` set d = {} \<Longrightarrow>
     put_all (items_leaves rp kvs) d = d @ items_texts rp kvs"
  "list_formable vs \<Longrightarrow> fst ` set (numbered i vs) \<inter> fst ` set d = {} \<Longrightarrow>
     put_all (list_leaves rp i vs) d = d @ list_texts rp i vs"
proof (induction v and kvs and vs arbitrary: k d and d and i d rule: formable_items_formable_list_formable.induct)
  case (1 kvs)
  then have ne: "items_leaves rp kvs \<noteq> []" using leaves_exist(2) by simp
  have "put_all (items_leaves rp kvs) [] = items_texts rp kvs" using 1 by simp
  then show ?case using put_new_below [OF 1(3) items_leaves_below ne] by simp
next
  case (2 vs)
  then have ne: "list_leaves rp 0 vs \<noteq> []" using leaves_exist(3) by simp
  have "put_all (list_leaves rp 0 vs) [] = list_texts rp 0 vs" using 2 by simp
  then show ?case using put_new_below [OF 2(3) items_leaves_below, of rp "numbered 0 vs"] ne by (simp add: list_leaves_numbered)
next
  case (9 k v kvs)
  have "put_all (map (\<lambda>(p, t). (k # p, t)) (leaves rp v)) d = d @ [(k, as_texts rp v)]" using 9 by auto
  moreover have "put_all (items_leaves rp kvs) (d @ [(k, as_texts rp v)]) = (d @ [(k, as_texts rp v)]) @ items_texts rp kvs"
    using 9 by (intro 9(2)) auto
  ultimately show ?case by simp
next
  case (11 v vs)
  have "put_all (map (\<lambda>(p, t). (dec_string i # p, t)) (leaves rp v)) d = d @ [(dec_string i, as_texts rp v)]" using 11 by auto
  moreover have "dec_string i \<notin> fst ` set (numbered (Suc i) vs)" using numbered_distinct [of i "v # vs"] by simp
  then have "put_all (list_leaves rp (Suc i) vs) (d @ [(dec_string i, as_texts rp v)]) =
      (d @ [(dec_string i, as_texts rp v)]) @ list_texts rp (Suc i) vs"
    using 11 by (intro 11(2)) auto
  ultimately show ?case by simp
qed (simp_all add: update_new)

section \<open>Writing the leaves\<close>

definition key_of :: "string list \<Rightarrow> string" where
  "key_of ps = (case ps of [] \<Rightarrow> [] | p # ps \<Rightarrow> p @ concat (map (\<lambda>k. ''['' @ k @ '']'') ps))"

lemma key_of_snoc: "key_of (ps @ [k]) = (if ps = [] then k else key_of ps @ ''['' @ k @ '']'')"
  by (cases ps) (simp_all add: key_of_def)

lemma key_of_empty: "list_all good_key ps \<Longrightarrow> key_of ps = [] \<longleftrightarrow> ps = []"
  by (cases ps) (auto simp: key_of_def good_key_def)

lemma key_parts_run: "list_all (\<lambda>c. \<not> is_bracket c) k \<Longrightarrow> key_parts run (k @ rest) = key_parts (run @ k) rest"
  by (induction k arbitrary: run) simp_all

lemma brackets: "is_bracket (CHR ''['')" "is_bracket (CHR '']'')"
  by (simp_all add: is_bracket_def)

lemma key_parts_bracketed:
  "list_all good_key ps \<Longrightarrow> key_parts run (concat (map (\<lambda>k. ''['' @ k @ '']'') ps)) = (if run = [] then [] else [run]) @ ps"
proof (induction ps arbitrary: run)
  case (Cons p ps)
  then have "key_parts [] (p @ [CHR '']''] @ concat (map (\<lambda>k. ''['' @ k @ '']'') ps)) = p # ps"
    by (simp add: key_parts_run good_key_def brackets)
  then show ?case by (simp add: brackets)
qed simp

lemma key_parts_of: "list_all good_key ps \<Longrightarrow> key_parts [] (key_of ps) = ps"
  by (cases ps) (simp_all add: key_of_def key_parts_run good_key_def key_parts_bracketed [simplified])

lemma leaves_good:
  "formable v \<Longrightarrow> \<forall>(p, t) \<in> set (leaves rp v). list_all good_key p"
  "items_formable kvs \<Longrightarrow> \<forall>(p, t) \<in> set (items_leaves rp kvs). list_all good_key p"
  "list_formable vs \<Longrightarrow> \<forall>(p, t) \<in> set (list_leaves rp i vs). list_all good_key p"
  by (induction v and kvs and vs arbitrary: and and i rule: formable_items_formable_list_formable.induct)
    (simp_all add: dec_string_good ball_Un split_beta)

lemma leaf_heads: "(p, t) \<in> set (items_leaves rp kvs) \<Longrightarrow> \<exists>k q. p = k # q \<and> k \<in> fst ` set kvs"
proof (induction kvs)
  case (Cons x kvs)
  then consider q where "p = fst x # q" | "(p, t) \<in> set (items_leaves rp kvs)" by (cases x) auto
  then show ?case using Cons.IH by cases auto
qed simp

lemma leaves_distinct:
  "formable v \<Longrightarrow> distinct (map fst (leaves rp v))"
  "items_formable kvs \<Longrightarrow> distinct (map fst kvs) \<Longrightarrow> distinct (map fst (items_leaves rp kvs))"
  "list_formable vs \<Longrightarrow> distinct (map fst (list_leaves rp i vs))"
proof (induction v and kvs and vs arbitrary: and and i rule: formable_items_formable_list_formable.induct)
  case (9 k v kvs)
  have "distinct (map fst (map (\<lambda>(p, t). (k # p, t)) (leaves rp v)))"
    using 9 by (simp add: distinct_map inj_on_def case_prod_unfold)
  then show ?case using 9 leaf_heads [of _ _ rp kvs] by fastforce
next
  case (11 v vs)
  have "distinct (map fst (map (\<lambda>(p, t). (dec_string i # p, t)) (leaves rp v)))"
    using 11 by (simp add: distinct_map inj_on_def case_prod_unfold)
  moreover have "dec_string i \<notin> fst ` set (numbered (Suc i) vs)" using numbered_distinct [of i "v # vs"] by simp
  ultimately show ?case using 11 leaf_heads [of _ _ rp "numbered (Suc i) vs"] by (fastforce simp: list_leaves_numbered)
qed simp_all

lemma updates_append:
  "distinct (map fst flat) \<Longrightarrow> fst ` set flat \<inter> fst ` set acc = {} \<Longrightarrow> AList.updates (map fst flat) (map snd flat) acc = acc @ flat"
proof (induction flat arbitrary: acc)
  case (Cons x flat)
  then have "AList.update (fst x) (snd x) acc = acc @ [x]" using update_new [of "fst x" acc "snd x"] by (cases x) auto
  then show ?case using Cons by auto
qed simp

abbreviation under :: "string list \<Rightarrow> (string list \<times> string) list \<Rightarrow> (string \<times> string) list" where
  "under ps ls \<equiv> map (\<lambda>(q, t). (key_of (ps @ q), t)) ls"

lemma under_distinct:
  assumes "list_all good_key ps" and "\<forall>(p, t) \<in> set ls. list_all good_key p" and "distinct (map fst ls)"
  shows "distinct (map fst (under ps ls))"
proof -
  have "inj_on (\<lambda>q. key_of (ps @ q)) (fst ` set ls)"
  proof (rule inj_onI)
    fix p q assume "p \<in> fst ` set ls" "q \<in> fst ` set ls" and e: "key_of (ps @ p) = key_of (ps @ q)"
    then have "list_all good_key (ps @ p)" "list_all good_key (ps @ q)" using assms(1,2) by fastforce+
    then show "p = q" using key_parts_of e by (metis same_append_eq)
  qed
  then have "distinct (map (\<lambda>q. key_of (ps @ q)) (map fst ls))" using assms(3) by (simp add: distinct_map inj_on_def)
  then show ?thesis by (simp add: case_prod_unfold comp_def)
qed

lemma updates_under:
  assumes "list_all good_key ps" and "\<forall>(p, t) \<in> set (ls @ ms). list_all good_key p" and "distinct (map fst (ls @ ms))"
  shows "AList.updates (map fst (under ps ms)) (map snd (under ps ms)) (under ps ls) = under ps (ls @ ms)"
proof -
  have "distinct (map fst (under ps (ls @ ms)))" by (rule under_distinct [OF assms])
  then have "distinct (map fst (under ps ms))" and "fst ` set (under ps ms) \<inter> fst ` set (under ps ls) = {}"
    unfolding map_append distinct_append set_map by blast+
  from updates_append [OF this] show ?thesis by (simp only: map_append)
qed

lemma leaf_parts:
  assumes "good_key k" and "formable v" and "items_formable kvs" and "distinct (map fst ((k, v) # kvs))"
  shows "list_all good_key ps \<Longrightarrow> \<forall>(p, t) \<in> set ls. list_all good_key p \<and> (\<exists>j q. p = j # q \<and> j \<notin> fst ` set ((k, v) # kvs)) \<Longrightarrow>
      distinct (map fst ls) \<Longrightarrow>
      AList.updates (map fst (under (ps @ [k]) (leaves rp v))) (map snd (under (ps @ [k]) (leaves rp v))) (under ps ls) =
      under ps (ls @ map (\<lambda>(p, t). (k # p, t)) (leaves rp v))"
    and "\<forall>(p, t) \<in> set ls. list_all good_key p \<and> (\<exists>j q. p = j # q \<and> j \<notin> fst ` set ((k, v) # kvs)) \<Longrightarrow> distinct (map fst ls) \<Longrightarrow>
      distinct (map fst (ls @ map (\<lambda>(p, t). (k # p, t)) (leaves rp v))) \<and>
      (\<forall>(p, t) \<in> set (ls @ map (\<lambda>(p, t). (k # p, t)) (leaves rp v)). list_all good_key p \<and> (\<exists>j q. p = j # q \<and> j \<notin> fst ` set kvs))"
proof -
  let ?mine = "map (\<lambda>(p, t). (k # p, t)) (leaves rp v)"
  have good: "\<forall>(p, t) \<in> set ?mine. list_all good_key p \<and> (\<exists>q. p = k # q)"
    using leaves_good(1) [OF assms(2), of rp] assms(1) by auto
  have dist: "distinct (map fst ?mine)"
    using leaves_distinct(1) [OF assms(2), of rp] by (simp add: distinct_map inj_on_def case_prod_unfold)
  have both: "distinct (map fst (ls @ ?mine))"
    if "\<forall>(p, t) \<in> set ls. list_all good_key p \<and> (\<exists>j q. p = j # q \<and> j \<notin> fst ` set ((k, v) # kvs))" and "distinct (map fst ls)" for ls
    using that dist by fastforce
  {
    assume ps: "list_all good_key ps" and
      ls: "\<forall>(p, t) \<in> set ls. list_all good_key p \<and> (\<exists>j q. p = j # q \<and> j \<notin> fst ` set ((k, v) # kvs))" "distinct (map fst ls)"
    have e: "under (ps @ [k]) (leaves rp v) = under ps ?mine" by (simp add: case_prod_unfold)
    have all: "\<forall>(p, t) \<in> set (ls @ ?mine). list_all good_key p" using ls(1) good by fastforce
    show "AList.updates (map fst (under (ps @ [k]) (leaves rp v))) (map snd (under (ps @ [k]) (leaves rp v))) (under ps ls) =
        under ps (ls @ ?mine)"
      unfolding e by (rule updates_under [OF ps all both [OF ls]])
  }
  assume ls: "\<forall>(p, t) \<in> set ls. list_all good_key p \<and> (\<exists>j q. p = j # q \<and> j \<notin> fst ` set ((k, v) # kvs))" "distinct (map fst ls)"
  have "k \<notin> fst ` set kvs" using assms(4) by simp
  then show "distinct (map fst (ls @ ?mine)) \<and>
      (\<forall>(p, t) \<in> set (ls @ ?mine). list_all good_key p \<and> (\<exists>j q. p = j # q \<and> j \<notin> fst ` set kvs))"
    using both [OF ls] ls(1) good by fastforce
qed

definition heads_apart :: "(string list \<times> string) list \<Rightarrow> (string \<times> pyv) list \<Rightarrow> bool" where
  "heads_apart ls kvs \<longleftrightarrow> distinct (map fst ls) \<and>
     (\<forall>(p, t) \<in> set ls. list_all good_key p \<and> (\<exists>j q. p = j # q \<and> j \<notin> fst ` set kvs))"

lemma heads_apart_step:
  assumes "heads_apart ls ((k, v) # kvs)" and "good_key k" and "formable v" and "items_formable kvs" and "distinct (map fst ((k, v) # kvs))"
  shows "heads_apart (ls @ map (\<lambda>(p, t). (k # p, t)) (leaves rp v)) kvs"
    and "list_all good_key ps \<Longrightarrow>
      AList.updates (map fst (under (ps @ [k]) (leaves rp v))) (map snd (under (ps @ [k]) (leaves rp v))) (under ps ls) =
      under ps (ls @ map (\<lambda>(p, t). (k # p, t)) (leaves rp v))"
proof -
  have ls: "\<forall>(p, t) \<in> set ls. list_all good_key p \<and> (\<exists>j q. p = j # q \<and> j \<notin> fst ` set ((k, v) # kvs))" "distinct (map fst ls)"
    using assms(1) unfolding heads_apart_def by blast+
  show "heads_apart (ls @ map (\<lambda>(p, t). (k # p, t)) (leaves rp v)) kvs"
    using leaf_parts(2) [OF assms(2-5) ls] unfolding heads_apart_def by blast
  show "list_all good_key ps \<Longrightarrow>
      AList.updates (map fst (under (ps @ [k]) (leaves rp v))) (map snd (under (ps @ [k]) (leaves rp v))) (under ps ls) =
      under ps (ls @ map (\<lambda>(p, t). (k # p, t)) (leaves rp v))"
    by (rule leaf_parts(1) [OF assms(2-5) _ ls])
qed

lemma numbered_items: "list_formable vs \<Longrightarrow> items_formable (numbered i vs) \<and> distinct (map fst (numbered i vs))"
  by (simp add: numbered_formable numbered_distinct)

lemma flatten_leaves:
  "formable v \<Longrightarrow> list_all good_key ps \<Longrightarrow> ps \<noteq> [] \<or> (\<exists>kvs. v = PDict kvs) \<Longrightarrow> form_flatten rp (key_of ps) v = under ps (leaves rp v)"
  "items_formable kvs \<Longrightarrow> list_all good_key ps \<Longrightarrow> distinct (map fst kvs) \<Longrightarrow> heads_apart ls kvs \<Longrightarrow>
     flatten_items rp (key_of ps) kvs (under ps ls) = under ps (ls @ items_leaves rp kvs)"
  "list_formable vs \<Longrightarrow> list_all good_key ps \<Longrightarrow> ps \<noteq> [] \<Longrightarrow> heads_apart ls (numbered i vs) \<Longrightarrow>
     flatten_list rp (key_of ps) i vs (under ps ls) = under ps (ls @ list_leaves rp i vs)"
proof (induction v and kvs and vs arbitrary: ps and ps ls and ps i ls rule: formable_items_formable_list_formable.induct)
  case (1 kvs)
  have "heads_apart [] kvs" by (simp add: heads_apart_def)
  then show ?case using 1(1) [of ps "[]"] 1(2,3) by simp
next
  case (2 vs)
  have "heads_apart [] (numbered 0 vs)" by (simp add: heads_apart_def)
  then show ?case using 2(1) [of ps "[]" 0] 2(2-4) by auto
next
  case (9 k v kvs)
  have parts: "good_key k" "formable v" "items_formable kvs" using 9 by auto
  have pre: "(if key_of ps = [] then k else key_of ps @ ''['' @ k @ '']'') = key_of (ps @ [k])"
    using key_of_empty [OF 9(4)] by (simp add: key_of_snoc)
  have "form_flatten rp (key_of (ps @ [k])) v = under (ps @ [k]) (leaves rp v)"
    using 9(1) [of "ps @ [k]"] parts 9(4) by simp
  moreover note step = heads_apart_step [OF 9(6) parts 9(5), where rp = rp]
  moreover have "flatten_items rp (key_of ps) kvs (under ps (ls @ map (\<lambda>(p, t). (k # p, t)) (leaves rp v))) =
      under ps ((ls @ map (\<lambda>(p, t). (k # p, t)) (leaves rp v)) @ items_leaves rp kvs)"
    by (rule 9(2)) (use parts 9(4,5) step(1) in simp_all)
  ultimately show ?case using step(2) [OF 9(4)] by (simp only: flatten_items.simps Let_def pre items_leaves.simps append_assoc)
next
  case (11 v vs)
  have all: "items_formable (numbered (Suc i) vs)" "formable v" "distinct (map fst ((dec_string i, v) # numbered (Suc i) vs))"
    using 11(3) numbered_items [of vs "Suc i"] numbered_distinct [of i "v # vs"] by auto
  have pre: "key_of ps @ ''['' @ dec_string i @ '']'' = key_of (ps @ [dec_string i])" using 11(5) by (simp add: key_of_snoc)
  have "form_flatten rp (key_of (ps @ [dec_string i])) v = under (ps @ [dec_string i]) (leaves rp v)"
    using 11(1) [of "ps @ [dec_string i]"] all 11(4) dec_string_good by simp
  moreover note step = heads_apart_step [OF 11(6) [unfolded numbered.simps] dec_string_good all(2,1,3), where rp = rp]
  moreover have "flatten_list rp (key_of ps) (Suc i) vs (under ps (ls @ map (\<lambda>(p, t). (dec_string i # p, t)) (leaves rp v))) =
      under ps ((ls @ map (\<lambda>(p, t). (dec_string i # p, t)) (leaves rp v)) @ list_leaves rp (Suc i) vs)"
    by (rule 11(2)) (use 11(3-5) step(1) in simp_all)
  ultimately show ?case using step(2) [OF 11(4)] by (simp only: flatten_list.simps Let_def pre list_leaves.simps append_assoc)
qed (auto simp: key_of_empty)

text \<open>C15. A document written in bracket notation and read back is the document with every value as a text and every list as an object
  with numbered keys.\<close>

theorem form_body_roundtrip:
  assumes "formable (PDict kvs)"
  shows "PDict (unflatten_pairs (form_flatten rp [] (PDict kvs))) = as_texts rp (PDict kvs)"
proof -
  have "form_flatten rp [] (PDict kvs) = under [] (leaves rp (PDict kvs))"
    using flatten_leaves(1) [OF assms, of "[]" rp] by (simp add: key_of_def)
  moreover have "put_path (key_parts [] (key_of p)) t = put_path p t" if "(p, t) \<in> set (leaves rp (PDict kvs))" for p t
    using leaves_good(1) [OF assms, of rp] that by (auto simp: key_parts_of)
  then have "fold (\<lambda>(k, v). put_path (key_parts [] k) v) (under [] ls) d = put_all ls d"
    if "set ls \<subseteq> set (leaves rp (PDict kvs))" for ls d
    using that by (induction ls arbitrary: d) auto
  moreover have "put_all (items_leaves rp kvs) [] = items_texts rp kvs"
    using leaves_read(2) [of kvs "[]" rp] assms by simp
  ultimately show ?thesis by (simp add: unflatten_pairs_def)
qed

section \<open>Example\<close>

definition demo_form :: "(string \<times> pyv) list" where
  "demo_form = [(''card'', PDict [(''number'', PStr ''4242'')]), (''items'', PList [PDict [(''price'', PInt 5)]]), (''confirm'', PBool True)]"

lemma demo_form_written:
  "form_flatten (\<lambda>_. []) [] (PDict demo_form) = [(''card[number]'', ''4242''), (''items[0][price]'', ''5''), (''confirm'', ''true'')]"
  by code_simp

lemma demo_form_read:
  "unflatten_form (\<lambda>_. []) ''card[number]=4242&items%5B0%5D[price]=5&confirm=no&confirm=true'' = as_texts (\<lambda>_. []) (PDict demo_form)"
  by code_simp

theorem form_body_roundtrip_witness:
  "PDict (unflatten_pairs (form_flatten (\<lambda>_. []) [] (PDict demo_form))) =
   PDict [(''card'', PDict [(''number'', PStr ''4242'')]), (''items'', PDict [(''0'', PDict [(''price'', PStr ''5'')])]), (''confirm'', PStr ''true'')]"
proof -
  have "formable (PDict demo_form)" by code_simp
  moreover have "as_texts (\<lambda>_. []) (PDict demo_form) =
      PDict [(''card'', PDict [(''number'', PStr ''4242'')]), (''items'', PDict [(''0'', PDict [(''price'', PStr ''5'')])]), (''confirm'', PStr ''true'')]"
    by code_simp
  ultimately show ?thesis using form_body_roundtrip [of demo_form "\<lambda>_. []"] by (simp only:)
qed

end
